(* ===== verification/Prelude.thy ===== *)
theory Prelude
  imports Complex_Main "HOL-Library.Char_ord" "HOL-Library.List_Lexorder" "HOL-Library.Word"
    "HOL-Library.Sublist"
begin

text \<open>
  Shared vocabulary of the development: byte strings with the operations of
  \<open>std::string\<close> the sources use, decimal and hexadecimal printing, and the ordered
  map \<open>std::map\<close> as a strictly sorted association list with its interface locale.

  A byte buffer (\<open>std::string\<close>, \<open>std::vector<std::uint8_t>\<close>) is a list of
  characters: HOL's \<open>char\<close> is exactly one byte. A position returned by a search is an
  \<open>option\<close>, \<open>None\<close> being \<open>npos\<close>.
\<close>

type_synonym bytes = string
type_synonym u8 = "8 word"
type_synonym u32 = "32 word"
type_synonym u64 = "64 word"

named_theorems str_simps \<open>evaluation of byte-string helpers\<close>

section \<open>Byte strings\<close>

abbreviation code_of :: "char \<Rightarrow> nat" where
  "code_of c \<equiv> of_char c"

abbreviation QUOTE :: char where "QUOTE \<equiv> CHR 0x22"
abbreviation BSLASH :: char where "BSLASH \<equiv> CHR 0x5C"
abbreviation LF :: char where "LF \<equiv> CHR 0x0A"
abbreviation CR :: char where "CR \<equiv> CHR 0x0D"
abbreviation TAB :: char where "TAB \<equiv> CHR 0x09"
abbreviation BLANK :: char where "BLANK \<equiv> CHR 0x20"
abbreviation SLASH :: char where "SLASH \<equiv> CHR 0x2F"

text \<open>\<open>s.find(c)\<close> and \<open>s.rfind(c)\<close>.\<close>

fun find_char :: "char \<Rightarrow> bytes \<Rightarrow> nat option" where
  "find_char c [] = None"
| "find_char c (x # xs) = (if x = c then Some 0 else map_option Suc (find_char c xs))"

fun rfind_char :: "char \<Rightarrow> bytes \<Rightarrow> nat option" where
  "rfind_char c [] = None"
| "rfind_char c (x # xs) =
     (case rfind_char c xs of Some n \<Rightarrow> Some (Suc n) | None \<Rightarrow> if x = c then Some 0 else None)"

text \<open>\<open>s.find(pat)\<close>, and \<open>s.find(pat, pos)\<close> for a position inside the string.\<close>

fun find_sub :: "bytes \<Rightarrow> bytes \<Rightarrow> nat option" where
  "find_sub pat [] = (if pat = [] then Some 0 else None)"
| "find_sub pat (x # xs) =
     (if prefix pat (x # xs) then Some 0 else map_option Suc (find_sub pat xs))"

definition find_from :: "char \<Rightarrow> bytes \<Rightarrow> nat \<Rightarrow> nat option" where
  "find_from c s pos = map_option (\<lambda>i. pos + i) (find_char c (drop pos s))"

definition contains :: "bytes \<Rightarrow> bytes \<Rightarrow> bool" where
  "contains pat s = (find_sub pat s \<noteq> None)"

definition starts_with :: "bytes \<Rightarrow> bytes \<Rightarrow> bool" where
  "starts_with p s = (take (length p) s = p)"

definition ends_with :: "bytes \<Rightarrow> bytes \<Rightarrow> bool" where
  "ends_with p s = (length p \<le> length s \<and> drop (length s - length p) s = p)"

definition substr :: "bytes \<Rightarrow> nat \<Rightarrow> nat \<Rightarrow> bytes" where
  "substr s pos n = take n (drop pos s)"

text \<open>Popping characters off either end while a predicate holds.\<close>

definition ltrim_by :: "(char \<Rightarrow> bool) \<Rightarrow> bytes \<Rightarrow> bytes" where
  "ltrim_by P s = dropWhile P s"

definition rtrim_by :: "(char \<Rightarrow> bool) \<Rightarrow> bytes \<Rightarrow> bytes" where
  "rtrim_by P s = rev (dropWhile P (rev s))"

text \<open>\<open>std::tolower\<close> and \<open>std::isdigit\<close> in the C locale.\<close>

definition to_lower_char :: "char \<Rightarrow> char" where
  "to_lower_char c =
     (if 65 \<le> code_of c \<and> code_of c \<le> (90::nat) then char_of (code_of c + (32::nat)) else c)"

definition is_digit :: "char \<Rightarrow> bool" where
  "is_digit c = (48 \<le> code_of c \<and> code_of c \<le> (57::nat))"

definition digit_val :: "char \<Rightarrow> nat" where
  "digit_val c = code_of c - 48"

subsection \<open>Searching\<close>

lemma find_char_Some_iff:
  "find_char c s = Some i \<longleftrightarrow> i < length s \<and> s ! i = c \<and> c \<notin> set (take i s)"
proof (induction s arbitrary: i)
  case Nil
  then show ?case by simp
next
  case (Cons x xs)
  show ?case
    by (cases i) (auto simp: Cons.IH)
qed

lemma find_char_None_iff [simp]: "find_char c s = None \<longleftrightarrow> c \<notin> set s"
  by (induction s) auto

lemma find_char_append:
  "c \<notin> set xs \<Longrightarrow> find_char c (xs @ ys) =
     (case find_char c ys of None \<Rightarrow> None | Some i \<Rightarrow> Some (length xs + i))"
  by (induction xs) (auto split: option.splits simp del: find_char_None_iff)

lemma find_char_append_here [simp]: "c \<notin> set xs \<Longrightarrow> find_char c (xs @ c # ys) = Some (length xs)"
  by (simp add: find_char_append)

lemma find_char_length: "find_char c s = Some i \<Longrightarrow> i < length s"
  by (simp add: find_char_Some_iff)

lemma rfind_char_None_iff [simp]: "rfind_char c s = None \<longleftrightarrow> c \<notin> set s"
  by (induction s) (auto split: option.splits)

lemma rfind_char_append_here [simp]:
  "c \<notin> set ys \<Longrightarrow> rfind_char c (xs @ c # ys) = Some (length xs)"
  by (induction xs) (auto split: option.splits)

lemma find_sub_prefix: "find_sub pat s = Some i \<Longrightarrow> prefix pat (drop i s)"
proof (induction s arbitrary: i)
  case Nil
  then show ?case by (auto split: if_splits)
next
  case (Cons x xs)
  then show ?case by (auto split: if_splits)
qed

lemma starts_with_append [simp]: "starts_with p (p @ s)"
  by (simp add: starts_with_def)

lemma starts_with_iff: "starts_with p s \<longleftrightarrow> (\<exists>t. s = p @ t)"
  by (metis append_take_drop_id starts_with_append starts_with_def)

lemma ends_with_iff: "ends_with p s \<longleftrightarrow> (\<exists>t. s = t @ p)"
  by (auto simp: ends_with_def) (metis append_take_drop_id)

lemma ends_with_append [simp]: "ends_with p (s @ p)"
  by (auto simp: ends_with_iff)

lemma rtrim_by_id [simp]: "s \<noteq> [] \<Longrightarrow> \<not> P (last s) \<Longrightarrow> rtrim_by P s = s"
  by (cases s rule: rev_cases) (auto simp: rtrim_by_def)

lemma rtrim_by_Nil [simp]: "rtrim_by P [] = []"
  by (simp add: rtrim_by_def)

lemma rtrim_by_last: "rtrim_by P s = [] \<or> \<not> P (last (rtrim_by P s))"
proof (cases "dropWhile P (rev s)")
  case Nil
  then show ?thesis by (simp add: rtrim_by_def)
next
  case (Cons a list)
  then have "\<not> P a" by (metis hd_dropWhile list.discI list.sel(1))
  with Cons show ?thesis by (simp add: rtrim_by_def)
qed

lemma rtrim_by_prefix: "prefix (rtrim_by P s) s"
  unfolding rtrim_by_def prefix_def
  by (metis rev_append rev_rev_ident takeWhile_dropWhile_id)

lemma ltrim_by_hd: "ltrim_by P s = [] \<or> \<not> P (hd (ltrim_by P s))"
  unfolding ltrim_by_def using hd_dropWhile by blast

section \<open>Printing integers\<close>

text \<open>\<open>std::to_string\<close> and \<open>operator<<\<close> on integers; fixed-width \<open>%0nx\<close>.\<close>

definition digit_char :: "nat \<Rightarrow> char" where
  "digit_char d = char_of (48 + d)"

fun show_nat :: "nat \<Rightarrow> bytes" where
  "show_nat n = (if n < 10 then [digit_char n] else show_nat (n div 10) @ [digit_char (n mod 10)])"

declare show_nat.simps [simp del]

definition show_int :: "int \<Rightarrow> bytes" where
  "show_int i = (if i < 0 then CHR ''-'' # show_nat (nat (- i)) else show_nat (nat i))"

definition hex_char :: "nat \<Rightarrow> char" where
  "hex_char d = (if d < 10 then char_of (48 + d) else char_of (87 + d))"

fun show_hex_fixed :: "nat \<Rightarrow> nat \<Rightarrow> bytes" where
  "show_hex_fixed 0 n = []"
| "show_hex_fixed (Suc k) n = show_hex_fixed k (n div 16) @ [hex_char (n mod 16)]"

definition read_nat :: "bytes \<Rightarrow> nat" where
  "read_nat ds = foldl (\<lambda>a c. 10 * a + digit_val c) 0 ds"

lemma is_digit_digit_char [simp]: "d < 10 \<Longrightarrow> is_digit (digit_char d)"
  by (simp add: is_digit_def digit_char_def of_char_of)

lemma digit_val_digit_char [simp]: "d < 10 \<Longrightarrow> digit_val (digit_char d) = d"
  by (simp add: digit_val_def digit_char_def of_char_of)

lemma show_nat_digits: "list_all is_digit (show_nat n)"
  by (induction n rule: show_nat.induct) (subst show_nat.simps, auto)

lemma show_nat_all_digits: "\<forall>c \<in> set (show_nat n). is_digit c"
  using show_nat_digits by (simp add: list_all_iff)

lemma show_nat_nonempty [simp]: "show_nat n \<noteq> []"
  by (subst show_nat.simps) simp

lemma read_nat_snoc: "read_nat (xs @ [c]) = 10 * read_nat xs + digit_val c"
  by (simp add: read_nat_def)

lemma read_nat_Nil [simp]: "read_nat [] = 0"
  by (simp add: read_nat_def)

lemma read_nat_show_nat [simp]: "read_nat (show_nat n) = n"
proof (induction n rule: show_nat.induct)
  case (1 n)
  then show ?case
    by (subst show_nat.simps) (auto simp: read_nat_snoc read_nat_def)
qed

lemma show_nat_inj [simp]: "show_nat m = show_nat n \<longleftrightarrow> m = n"
  by (metis read_nat_show_nat)

lemma length_show_hex_fixed [simp]: "length (show_hex_fixed k n) = k"
  by (induction k arbitrary: n) auto

lemma hex_char_inj: "a < 16 \<Longrightarrow> b < 16 \<Longrightarrow> hex_char a = hex_char b \<Longrightarrow> a = b"
  by (auto simp: hex_char_def of_char_of split: if_splits
      dest!: arg_cong [where f = "of_char :: char \<Rightarrow> nat"])

lemma show_hex_fixed_inj:
  "m < 16 ^ k \<Longrightarrow> n < 16 ^ k \<Longrightarrow> show_hex_fixed k m = show_hex_fixed k n \<Longrightarrow> m = n"
proof (induction k arbitrary: m n)
  case 0
  then show ?case by simp
next
  case (Suc k)
  then have "m div 16 < 16 ^ k" and "n div 16 < 16 ^ k"
    by (simp_all add: less_mult_imp_div_less mult.commute)
  with Suc have "m div 16 = n div 16"
    by simp
  moreover from Suc.prems(3) have "m mod 16 = n mod 16"
    by (auto intro: hex_char_inj)
  ultimately show ?case by (metis div_mult_mod_eq)
qed

lemma takeWhile_digits_append:
  "(\<forall>c \<in> set xs. is_digit c) \<Longrightarrow> ys = [] \<or> \<not> is_digit (hd ys) \<Longrightarrow>
   takeWhile is_digit (xs @ ys) = xs \<and> dropWhile is_digit (xs @ ys) = ys"
  by (cases ys) (auto simp: takeWhile_append2 dropWhile_append2)

section \<open>Ordered maps\<close>

text \<open>
  \<open>std::map<K, V>\<close> is an association list with strictly increasing keys; iteration
  order is list order. \<open>om_put\<close> is \<open>m[k] = v\<close>, \<open>om_emplace\<close> is
  \<open>m.emplace(k, v)\<close> (an existing entry stays), \<open>om_del\<close> is \<open>m.erase(k)\<close>.
\<close>

type_synonym ('k, 'v) omap = "('k \<times> 'v) list"

definition om_get :: "('k, 'v) omap \<Rightarrow> 'k \<Rightarrow> 'v option" where
  "om_get m k = map_of m k"

fun om_put :: "'k::linorder \<Rightarrow> 'v \<Rightarrow> ('k, 'v) omap \<Rightarrow> ('k, 'v) omap" where
  "om_put k v [] = [(k, v)]"
| "om_put k v ((k', v') # m) =
     (if k < k' then (k, v) # (k', v') # m
      else if k = k' then (k, v) # m
      else (k', v') # om_put k v m)"

definition om_emplace :: "'k::linorder \<Rightarrow> 'v \<Rightarrow> ('k, 'v) omap \<Rightarrow> ('k, 'v) omap" where
  "om_emplace k v m = (case om_get m k of None \<Rightarrow> om_put k v m | Some _ \<Rightarrow> m)"

definition om_del :: "'k \<Rightarrow> ('k, 'v) omap \<Rightarrow> ('k, 'v) omap" where
  "om_del k m = filter (\<lambda>e. fst e \<noteq> k) m"

definition om_ok :: "('k::linorder, 'v) omap \<Rightarrow> bool" where
  "om_ok m = sorted_wrt (<) (map fst m)"

lemma om_ok_Nil [simp]: "om_ok []"
  by (simp add: om_ok_def)

lemma om_ok_Cons: "om_ok ((k, v) # m) \<longleftrightarrow> (\<forall>k' \<in> fst ` set m. k < k') \<and> om_ok m"
  by (auto simp: om_ok_def)

lemma om_get_Nil [simp]: "om_get [] k = None"
  by (simp add: om_get_def)

lemma om_get_Cons: "om_get ((k, v) # m) k' = (if k' = k then Some v else om_get m k')"
  by (simp add: om_get_def)

lemma keys_om_put [simp]: "fst ` set (om_put k v m) = insert k (fst ` set m)"
  by (induction k v m rule: om_put.induct) auto

lemma om_ok_put [simp]: "om_ok m \<Longrightarrow> om_ok (om_put k v m)"
  by (induction k v m rule: om_put.induct) (auto simp: om_ok_Cons)

lemma om_get_put [simp]: "om_ok m \<Longrightarrow> om_get (om_put k v m) k' = (if k' = k then Some v else om_get m k')"
  by (induction k v m rule: om_put.induct) (auto simp: om_get_Cons om_ok_Cons)

lemma om_ok_del [simp]: "om_ok m \<Longrightarrow> om_ok (om_del k m)"
  unfolding om_ok_def om_del_def
  by (induction m) auto

lemma om_get_del [simp]: "om_get (om_del k m) k' = (if k' = k then None else om_get m k')"
  by (induction m) (auto simp: om_del_def om_get_def)

lemma om_ok_tl: "om_ok m \<Longrightarrow> om_ok (tl m)"
  by (cases m) (auto simp: om_ok_def)

lemma om_ok_emplace [simp]: "om_ok m \<Longrightarrow> om_ok (om_emplace k v m)"
  by (auto simp: om_emplace_def split: option.splits)

lemma om_get_emplace [simp]:
  "om_ok m \<Longrightarrow> om_get (om_emplace k v m) k' =
     (if k' = k \<and> om_get m k = None then Some v else om_get m k')"
  by (auto simp: om_emplace_def split: option.splits)

lemma om_get_in_set: "om_get m k = Some v \<Longrightarrow> (k, v) \<in> set m"
  by (simp add: om_get_def map_of_SomeD)

lemma om_ok_snoc_put:
  "om_ok (m @ [(k, v)]) \<Longrightarrow> om_put k v m = m @ [(k, v)]"
  by (induction m) (auto simp: om_ok_Cons)

lemma om_ok_snoc_fresh: "om_ok (m @ [(k, v)]) \<Longrightarrow> om_get m k = None"
  by (induction m) (auto simp: om_ok_Cons om_get_Cons)

lemma om_emplace_snoc: "om_ok (m @ [(k, v)]) \<Longrightarrow> om_emplace k v m = m @ [(k, v)]"
  by (simp add: om_emplace_def om_ok_snoc_fresh om_ok_snoc_put)

lemma om_ok_append1: "om_ok (m @ m') \<Longrightarrow> om_ok m"
  by (simp add: om_ok_def sorted_wrt_append)

lemma length_om_put_le: "length (om_put k v m) \<le> Suc (length m)"
  by (induction k v m rule: om_put.induct) auto

lemma length_om_del: "om_ok m \<Longrightarrow> om_get m k = Some v \<Longrightarrow> Suc (length (om_del k m)) = length m"
proof (induction m)
  case Nil
  then show ?case by simp
next
  case (Cons e m)
  obtain k1 v1 where e: "e = (k1, v1)" by force
  show ?case
  proof (cases "k1 = k")
    case True
    with Cons.prems(1) e have "\<forall>e' \<in> set m. fst e' \<noteq> k"
      by (auto simp: om_ok_Cons)
    with True e show ?thesis by (simp add: om_del_def)
  next
    case False
    with Cons e have "Suc (length (om_del k m)) = length m"
      by (simp add: om_ok_Cons om_get_Cons)
    with False e show ?thesis by (simp add: om_del_def)
  qed
qed

text \<open>
  The interface the clients of a keyed store rely on. Its laws are those of a finite map
  under an invariant; the facts proved here hold for every store with these laws.
\<close>

locale keyed_store =
  fixes get :: "'m \<Rightarrow> 'k \<Rightarrow> 'v option"
    and put :: "'k \<Rightarrow> 'v \<Rightarrow> 'm \<Rightarrow> 'm"
    and del :: "'k \<Rightarrow> 'm \<Rightarrow> 'm"
    and ok :: "'m \<Rightarrow> bool"
  assumes ok_put: "ok m \<Longrightarrow> ok (put k v m)"
    and ok_del: "ok m \<Longrightarrow> ok (del k m)"
    and get_put: "ok m \<Longrightarrow> get (put k v m) k' = (if k' = k then Some v else get m k')"
    and get_del: "ok m \<Longrightarrow> get (del k m) k' = (if k' = k then None else get m k')"
begin

lemma ok_puts: "ok m \<Longrightarrow> ok (fold (\<lambda>(k, v). put k v) kvs m)"
  by (induction kvs arbitrary: m) (auto simp: ok_put)

lemma get_puts:
  "ok m \<Longrightarrow> get (fold (\<lambda>(k, v). put k v) kvs m) k =
     (case map_of (rev kvs) k of Some v \<Rightarrow> Some v | None \<Rightarrow> get m k)"
  by (induction kvs arbitrary: m)
    (auto simp: ok_put get_put map_add_def split: option.splits)

lemma get_put_other: "ok m \<Longrightarrow> k' \<noteq> k \<Longrightarrow> get (put k v m) k' = get m k'"
  by (simp add: get_put)

lemma get_put_del: "ok m \<Longrightarrow> get (del k (put k v m)) k' = get (del k m) k'"
  by (simp add: get_put get_del ok_put)

lemma ok_dels: "ok m \<Longrightarrow> ok (fold del ks m)"
  by (induction ks arbitrary: m) (auto simp: ok_del)

lemma get_dels: "ok m \<Longrightarrow> get (fold del ks m) k = (if k \<in> set ks then None else get m k)"
  by (induction ks arbitrary: m) (auto simp: ok_del get_del)

end

interpretation om: keyed_store om_get om_put om_del om_ok
  by unfold_locales auto

end
