(* ===== verification/Cxx_Num.thy ===== *)
theory Cxx_Num
  imports Prelude
begin

text \<open>
  The numeric part of the C++ standard library the sources use: \<open>double\<close> with
  \<open>std::stod\<close>, the default and \<open>%.17g\<close> output formats, the conversions between
  \<open>double\<close> and the integer types, and \<open>atoi\<close>, \<open>stoi\<close>, \<open>stoll\<close>, \<open>stoul\<close>,
  \<open>strtoull\<close>.

  Every \<open>double\<close> of the program comes from \<open>std::stod\<close> on a JSON number or from an
  integer, so it is finite; a finite binary64 value is the rational it denotes (the two
  zeros coincide: the code never tells them apart). Rounding is to nearest, ties to even.
  Conversions of a double outside the target range are undefined in C++; the model returns
  what the x86-64 conversion instruction returns, the smallest 64-bit integer.
\<close>

section \<open>Integer logarithms and rounding\<close>

fun flog :: "nat \<Rightarrow> nat \<Rightarrow> nat" where
  "flog b n = (if b < 2 \<or> n < b then 0 else Suc (flog b (n div b)))"

declare flog.simps [simp del]

text \<open>\<open>ilog b x\<close> is the exponent \<open>e\<close> with \<open>b^e \<le> x < b^(e+1)\<close>, for \<open>x > 0\<close>.\<close>

definition ilog :: "nat \<Rightarrow> rat \<Rightarrow> int" where
  "ilog b x =
     (let (p, q) = quotient_of x in
      if q \<le> p then int (flog b (nat (p div q)))
      else - int (Suc (flog b (nat ((q + p - 1) div p) - 1))))"

definition rat_pow :: "nat \<Rightarrow> int \<Rightarrow> rat" where
  "rat_pow b e = (if 0 \<le> e then of_nat b ^ nat e else 1 / of_nat b ^ nat (- e))"

definition round_half_even :: "rat \<Rightarrow> int" where
  "round_half_even x =
     (let f = \<lfloor>x\<rfloor>; d = x - of_int f in
      if d < 1 / 2 then f else if 1 / 2 < d then f + 1 else if even f then f else f + 1)"

lemma round_half_even_int [simp]: "round_half_even (of_int n) = n"
  by (simp add: round_half_even_def)

lemma round_half_even_near: "\<bar>of_int (round_half_even x) - x\<bar> \<le> 1 / 2"
  unfolding round_half_even_def Let_def
  by (auto simp: abs_if) linarith+

text \<open>Rounding a positive rational to binary64, ignoring the upper limit of the range.\<close>

definition ulp_exp :: "rat \<Rightarrow> int" where
  "ulp_exp x = max (ilog 2 x - 52) (-1074)"

definition round64 :: "rat \<Rightarrow> rat" where
  "round64 x = of_int (round_half_even (x / rat_pow 2 (ulp_exp x))) * rat_pow 2 (ulp_exp x)"

text \<open>
  The value \<open>strtod\<close> gives for an exact decimal value; \<open>None\<close> is \<open>ERANGE\<close>
  (overflow, or a tiny inexact result), which \<open>std::stod\<close> turns into an exception.
\<close>

definition strtod_round :: "rat \<Rightarrow> rat option" where
  "strtod_round x =
     (if x = 0 then Some 0
      else let r = round64 \<bar>x\<bar> in
        if rat_pow 2 1024 \<le> r then None
        else if r < rat_pow 2 (-1022) \<and> r \<noteq> \<bar>x\<bar> then None
        else Some (sgn x * r))"

text \<open>The result of an arithmetic operation on doubles whose exact value is \<open>x\<close>.\<close>

definition dround :: "rat \<Rightarrow> rat" where
  "dround x = (if x = 0 then 0 else sgn x * round64 \<bar>x\<bar>)"

text \<open>\<open>static_cast<double>\<close> of an integer of at most 64 bits.\<close>

definition to_double :: "int \<Rightarrow> rat" where
  "to_double n = dround (of_int n)"

subsection \<open>Rounding leaves representable integers alone\<close>

lemma flog_bounds: "2 \<le> b \<Longrightarrow> 0 < n \<Longrightarrow> b ^ flog b n \<le> n \<and> n < b ^ Suc (flog b n)"
proof (induction b n rule: flog.induct)
  case (1 b n)
  show ?case
  proof (cases "n < b")
    case True
    with 1 show ?thesis by (simp add: flog.simps [of b n])
  next
    case False
    with 1 have pos: "0 < n div b" by (simp add: div_greater_zero_iff)
    with 1 False have IH: "b ^ flog b (n div b) \<le> n div b" "n div b < b ^ Suc (flog b (n div b))"
      by auto
    have "b * b ^ flog b (n div b) \<le> n"
      using IH(1) by (metis (no_types, lifting) mult.commute mult_le_mono1 order_trans
          times_div_less_eq_dividend)
    moreover have "n < b * b ^ Suc (flog b (n div b))"
      using IH(2) "1.prems" by (simp add: div_less_iff_less_mult mult.commute)
    ultimately show ?thesis using 1 False by (simp add: flog.simps [of b n])
  qed
qed

lemma ilog_of_int: "0 < n \<Longrightarrow> ilog b (of_int n) = int (flog b (nat n))"
  by (simp add: ilog_def)

lemma ilog2_of_int_bound:
  assumes "0 < n" and "n < 2 ^ k"
  shows "ilog 2 (of_int n) < int k"
proof -
  have "2 ^ flog 2 (nat n) \<le> nat n" using assms flog_bounds [of 2 "nat n"] by simp
  also have "nat n < 2 ^ k" using assms by (simp add: nat_less_iff)
  finally have "flog 2 (nat n) < k" by (simp add: power_less_imp_less_exp)
  with assms show ?thesis by (simp add: ilog_of_int)
qed

definition int_double :: "int \<Rightarrow> bool" where
  "int_double n = (\<exists>m k. n = m * 2 ^ k \<and> \<bar>m\<bar> < 2 ^ 53)"

lemma int_double_small: "\<bar>n\<bar> < 2 ^ 53 \<Longrightarrow> int_double n"
  unfolding int_double_def by (rule exI [of _ n], rule exI [of _ 0]) simp

lemma round64_int:
  assumes "0 < n" and "int_double n"
  shows "round64 (of_int n) = of_int n"
proof -
  obtain m k where n: "n = m * 2 ^ k" and m: "\<bar>m\<bar> < 2 ^ 53"
    using assms(2) by (auto simp: int_double_def)
  have mpos: "0 < m" using assms(1) n by (simp add: zero_less_mult_iff)
  have "n < 2 ^ (53 + k)" using n m mpos by (simp add: power_add)
  then have le: "ilog 2 (of_int n) - 52 \<le> int k"
    using ilog2_of_int_bound [OF assms(1)] by fastforce
  define u where "u = ulp_exp (of_int n)"
  have u: "u \<le> int k" using le by (simp add: u_def ulp_exp_def)
  have "\<exists>z. (of_int n :: rat) / rat_pow 2 u = of_int z"
  proof (cases "0 \<le> u")
    case True
    then have "k = nat u + (k - nat u)" using u by simp
    then have "(2::rat) ^ k = 2 ^ nat u * 2 ^ (k - nat u)" by (metis power_add)
    then have "(of_int n :: rat) / rat_pow 2 u = of_int (m * 2 ^ (k - nat u))"
      using True n by (simp add: rat_pow_def)
    then show ?thesis by blast
  next
    case False
    then have "(of_int n :: rat) / rat_pow 2 u = of_int (n * 2 ^ nat (- u))"
      by (simp add: rat_pow_def)
    then show ?thesis by blast
  qed
  then obtain z where z: "(of_int n :: rat) / rat_pow 2 u = of_int z" by blast
  have nz: "rat_pow 2 u \<noteq> 0" by (simp add: rat_pow_def)
  have "round64 (of_int n) = of_int z * rat_pow 2 u"
    by (simp add: round64_def flip: u_def) (simp add: z)
  also have "\<dots> = of_int n" using z nz by (simp add: field_simps)
  finally show ?thesis .
qed

lemma int_double_uminus: "int_double n \<Longrightarrow> int_double (- n)"
  unfolding int_double_def by (metis abs_minus_cancel mult_minus_left)

lemma int_double_abs [simp]: "int_double \<bar>n\<bar> \<longleftrightarrow> int_double n"
  using int_double_uminus [of n] int_double_uminus [of "- n"] by (auto simp: abs_if)

lemma to_double_id [simp]: "int_double n \<Longrightarrow> to_double n = of_int n"
proof (cases "n = 0")
  case False
  assume "int_double n"
  with False have "round64 \<bar>of_int n\<bar> = \<bar>of_int n :: rat\<bar>"
    using round64_int [of "\<bar>n\<bar>"] by simp
  with False show ?thesis by (simp add: to_double_def dround_def sgn_mult_abs)
qed (simp add: to_double_def dround_def)

lemma to_double_small: "\<bar>n\<bar> < 2 ^ 53 \<Longrightarrow> to_double n = of_int n"
  by (simp add: int_double_small)

lemma strtod_round_int:
  assumes "to_double n = of_int n" and "\<bar>n\<bar> < 2 ^ 63"
  shows "strtod_round (of_int n) = Some (of_int n)"
proof (cases "n = 0")
  case True
  then show ?thesis by (simp add: strtod_round_def)
next
  case False
  then have "sgn (of_int n) * round64 \<bar>of_int n\<bar> = (of_int n :: rat)"
    using assms(1) by (simp add: to_double_def dround_def)
  with False have r: "round64 \<bar>of_int n\<bar> = \<bar>of_int n :: rat\<bar>"
    by (auto simp: sgn_if abs_if split: if_splits)
  have "(of_int \<bar>n\<bar> :: rat) < of_int (2 ^ 63)"
    using assms(2) by (simp only: of_int_less_iff)
  also have "\<dots> < rat_pow 2 1024" by (simp add: rat_pow_def)
  finally have "\<not> rat_pow 2 1024 \<le> (\<bar>of_int n\<bar> :: rat)" by simp
  with False r show ?thesis
    by (simp add: strtod_round_def Let_def sgn_mult_abs)
qed

section \<open>Reading numbers\<close>

text \<open>\<open>std::isspace\<close> in the C locale.\<close>

definition is_space :: "char \<Rightarrow> bool" where
  "is_space c = (code_of c = (32::nat) \<or> (9 \<le> code_of c \<and> code_of c \<le> (13::nat)))"

definition split_sign :: "bytes \<Rightarrow> bool \<times> bytes" where
  "split_sign s =
     (case s of [] \<Rightarrow> (False, [])
      | c # r \<Rightarrow> if c = CHR ''-'' then (True, r) else if c = CHR ''+'' then (False, r) else (False, s))"

definition read_exponent :: "bytes \<Rightarrow> int" where
  "read_exponent s =
     (case s of [] \<Rightarrow> 0
      | c # r \<Rightarrow>
         if c = CHR ''e'' \<or> c = CHR ''E'' then
           (let (neg, r1) = split_sign r; ds = takeWhile is_digit r1 in
            if ds = [] then 0 else if neg then - int (read_nat ds) else int (read_nat ds))
         else 0)"

text \<open>
  \<open>std::stod\<close> on decimal input: the longest numeric prefix is converted; \<open>None\<close> is an
  exception (nothing to convert, or out of range). The hexadecimal, infinity and NaN
  forms need letters the JSON number scanner never passes on.
\<close>

definition stod :: "bytes \<Rightarrow> rat option" where
  "stod s =
     (let (neg, s1) = split_sign (dropWhile is_space s);
          ip = takeWhile is_digit s1; s2 = dropWhile is_digit s1;
          (fp, s3) = (case s2 of [] \<Rightarrow> ([], [])
                      | c # r \<Rightarrow> if c = CHR ''.'' then (takeWhile is_digit r, dropWhile is_digit r)
                                 else ([], s2))
      in if ip = [] \<and> fp = [] then None
         else map_option (\<lambda>v. if neg then - v else v)
           (strtod_round (of_nat (read_nat (ip @ fp)) * rat_pow 10 (read_exponent s3 - int (length fp)))))"

text \<open>The integer prefix \<open>strtol\<close> and its relatives read: sign and magnitude.\<close>

definition int_prefix :: "bytes \<Rightarrow> (bool \<times> nat) option" where
  "int_prefix s =
     (let (neg, r) = split_sign (dropWhile is_space s); ds = takeWhile is_digit r in
      if ds = [] then None else Some (neg, read_nat ds))"

definition signed_of :: "bool \<Rightarrow> nat \<Rightarrow> int" where
  "signed_of neg n = (if neg then - int n else int n)"

definition strtol :: "bytes \<Rightarrow> int" where
  "strtol s = (case int_prefix s of None \<Rightarrow> 0
     | Some (neg, n) \<Rightarrow> max (- (2 ^ 63)) (min (2 ^ 63 - 1) (signed_of neg n)))"

definition narrow_i32 :: "int \<Rightarrow> int" where
  "narrow_i32 i = sint (word_of_int i :: 32 word)"

definition atoi :: "bytes \<Rightarrow> int" where
  "atoi s = narrow_i32 (strtol s)"

definition strtoull :: "bytes \<Rightarrow> u64" where
  "strtoull s = (case int_prefix s of None \<Rightarrow> 0
     | Some (neg, n) \<Rightarrow> if 2 ^ 64 \<le> n then - 1 else if neg then - of_nat n else of_nat n)"

definition stoi :: "bytes \<Rightarrow> int option" where
  "stoi s = (case int_prefix s of None \<Rightarrow> None
     | Some (neg, n) \<Rightarrow> let i = signed_of neg n in
         if - (2 ^ 31) \<le> i \<and> i < 2 ^ 31 then Some i else None)"

definition stoll :: "bytes \<Rightarrow> int option" where
  "stoll s = (case int_prefix s of None \<Rightarrow> None
     | Some (neg, n) \<Rightarrow> let i = signed_of neg n in
         if - (2 ^ 63) \<le> i \<and> i < 2 ^ 63 then Some i else None)"

definition stoul :: "bytes \<Rightarrow> nat option" where
  "stoul s = (case int_prefix s of None \<Rightarrow> None
     | Some (neg, n) \<Rightarrow> if 2 ^ 64 \<le> n then None
         else Some (if neg then (2 ^ 64 - n) mod 2 ^ 64 else n))"

section \<open>Conversions of doubles\<close>

definition trunc_rat :: "rat \<Rightarrow> int" where
  "trunc_rat x = (if 0 \<le> x then \<lfloor>x\<rfloor> else \<lceil>x\<rceil>)"

definition cast_i64 :: "rat \<Rightarrow> int" where
  "cast_i64 x = (let t = trunc_rat x in
     if - (2 ^ 63) \<le> t \<and> t < 2 ^ 63 then t else - (2 ^ 63))"

definition cast_i32 :: "rat \<Rightarrow> int" where
  "cast_i32 x = (let t = trunc_rat x in
     if - (2 ^ 31) \<le> t \<and> t < 2 ^ 31 then t else - (2 ^ 31))"

section \<open>Printing doubles\<close>

text \<open>The 17 significant digits of a positive value, as an integer, with its decimal exponent.\<close>

definition digits17 :: "rat \<Rightarrow> int \<times> int" where
  "digits17 x =
     (let e = ilog 10 x; m = round_half_even (x * rat_pow 10 (16 - e)) in
      if m = 10 ^ 17 then (10 ^ 16, e + 1) else (m, e))"

definition strip_zeros :: "bytes \<Rightarrow> bytes" where
  "strip_zeros s = rtrim_by (\<lambda>c. c = CHR ''0'') s"

definition frac_part :: "bytes \<Rightarrow> bytes" where
  "frac_part ds = (let f = strip_zeros ds in if f = [] then [] else CHR ''.'' # f)"

definition show_exponent :: "int \<Rightarrow> bytes" where
  "show_exponent e =
     (let n = nat \<bar>e\<bar> in
      (if e < 0 then ''e-'' else ''e+'') @ (if n < 10 then CHR ''0'' # show_nat n else show_nat n))"

text \<open>\<open>os.precision(17); os << x\<close>, that is \<open>%.17g\<close>.\<close>

definition fmt_g17 :: "rat \<Rightarrow> bytes" where
  "fmt_g17 x =
     (if x = 0 then ''0''
      else let (m, e) = digits17 \<bar>x\<bar>; ds = show_nat (nat m); sign = (if x < 0 then ''-'' else []) in
        if e < -4 \<or> 17 \<le> e then
          sign @ take 1 ds @ frac_part (drop 1 ds) @ show_exponent e
        else if 0 \<le> e then
          sign @ take (nat e + 1) ds @ frac_part (drop (nat e + 1) ds)
        else
          sign @ ''0'' @ frac_part (replicate (nat (- e) - 1) (CHR ''0'') @ ds))"

subsection \<open>Reading back what was printed\<close>

lemma not_space_digit: "is_digit c \<Longrightarrow> \<not> is_space c"
  by (auto simp: is_digit_def is_space_def)

lemma digit_not_sign: "is_digit c \<Longrightarrow> c \<noteq> CHR ''-'' \<and> c \<noteq> CHR ''+''"
  by (auto simp: is_digit_def)

lemma show_nat_cases:
  obtains d ds where "show_nat n = d # ds" and "is_digit d"
proof -
  obtain d ds where "show_nat n = d # ds" by (metis neq_Nil_conv show_nat_nonempty)
  moreover from this have "is_digit d" using show_nat_all_digits [of n] by simp
  ultimately show ?thesis using that by blast
qed

lemma takeWhile_show_nat [simp]:
  "rest = [] \<or> \<not> is_digit (hd rest) \<Longrightarrow> takeWhile is_digit (show_nat n @ rest) = show_nat n"
  "rest = [] \<or> \<not> is_digit (hd rest) \<Longrightarrow> dropWhile is_digit (show_nat n @ rest) = rest"
  using takeWhile_digits_append [OF show_nat_all_digits] by blast+

lemma takeWhile_show_nat_end [simp]:
  "takeWhile is_digit (show_nat n) = show_nat n" "dropWhile is_digit (show_nat n) = []"
  using takeWhile_show_nat [of "[]" n] by simp_all

lemma split_sign_show_nat [simp]: "split_sign (show_nat n @ rest) = (False, show_nat n @ rest)"
  by (rule show_nat_cases [of n]) (auto simp: split_sign_def digit_not_sign)

lemma dropWhile_space_show_nat [simp]:
  "dropWhile is_space (show_nat n @ rest) = show_nat n @ rest"
  by (rule show_nat_cases [of n]) (auto simp: not_space_digit)

lemma split_sign_show_int:
  "split_sign (dropWhile is_space (show_int i @ rest)) = (i < 0, show_nat (nat \<bar>i\<bar>) @ rest)"
  by (auto simp: show_int_def is_space_def) (simp add: split_sign_def)

lemma split_sign_show_int_end:
  "split_sign (dropWhile is_space (show_int i)) = (i < 0, show_nat (nat \<bar>i\<bar>))"
  using split_sign_show_int [of i "[]"] by simp

lemma stod_show_int:
  assumes "to_double n = of_int n" and "\<bar>n\<bar> < 2 ^ 63"
  shows "stod (show_int n) = Some (of_int n)"
proof -
  have "strtod_round (of_int n) = Some (of_int n)"
    by (rule strtod_round_int) (use assms in auto)
  moreover have "strtod_round (- x) = map_option uminus (strtod_round x)" for x
    by (auto simp: strtod_round_def Let_def)
  ultimately have "strtod_round (of_int \<bar>n\<bar>) = Some (of_int \<bar>n\<bar>)"
    by (cases "0 \<le> n") auto
  moreover have "(of_nat (nat \<bar>n\<bar>) :: rat) = of_int \<bar>n\<bar>" by simp
  ultimately show ?thesis
    by (simp add: stod_def split_sign_show_int_end read_exponent_def rat_pow_def)
qed

lemma int_prefix_show_int:
  "rest = [] \<or> \<not> is_digit (hd rest) \<Longrightarrow>
   int_prefix (show_int i @ rest) = Some (i < 0, nat \<bar>i\<bar>)"
  by (simp add: int_prefix_def split_sign_show_int)

lemma signed_of_abs [simp]: "signed_of (i < 0) (nat \<bar>i\<bar>) = i"
  by (simp add: signed_of_def)

lemma stoi_show_int [simp]: "- (2 ^ 31) \<le> i \<Longrightarrow> i < 2 ^ 31 \<Longrightarrow> stoi (show_int i) = Some i"
  using int_prefix_show_int [of "[]" i] by (simp add: stoi_def)

lemma stoll_show_int [simp]: "- (2 ^ 63) \<le> i \<Longrightarrow> i < 2 ^ 63 \<Longrightarrow> stoll (show_int i) = Some i"
  using int_prefix_show_int [of "[]" i] by (simp add: stoll_def)

lemma narrow_i32_id [simp]: "- (2 ^ 31) \<le> i \<Longrightarrow> i < 2 ^ 31 \<Longrightarrow> narrow_i32 i = i"
  unfolding narrow_i32_def sint_sbintrunc' by (rule signed_take_bit_int_eq_self) simp_all

lemma narrow_i32_range: "- (2 ^ 31) \<le> narrow_i32 i \<and> narrow_i32 i < 2 ^ 31"
  using sint_range_size [of "word_of_int i :: 32 word"] by (simp add: narrow_i32_def word_size)

lemma trunc_rat_of_int [simp]: "trunc_rat (of_int n) = n"
  by (simp add: trunc_rat_def)

lemma cast_i64_of_int [simp]: "- (2 ^ 63) \<le> n \<Longrightarrow> n < 2 ^ 63 \<Longrightarrow> cast_i64 (of_int n) = n"
  by (simp add: cast_i64_def)

lemma cast_i64_range: "- (2 ^ 63) \<le> cast_i64 x \<and> cast_i64 x < 2 ^ 63"
  by (simp add: cast_i64_def Let_def)

end
