(* ===== verification/Json_Lite.thy ===== *)
theory Json_Lite
  imports Cxx_Num
begin

text \<open>
  The JSON library of \<open>src/json_lite.cpp\<close> and \<open>include/obn/json_lite.hpp\<close>: values,
  typed accessors, the recursive-descent parser, dotted-path lookup and the serialiser.

  The parser is a function from the remaining input to an error or a value with the rest of
  the input. Its recursion carries fuel; \<open>parse\<close> supplies \<open>2 * length text + 2\<close>, which
  \<open>parse_value_fuel\<close> shows is never used up. An object is a \<open>std::map\<close>, here an
  ordered map (\<open>om_emplace\<close>: the first of two equal keys stays).
\<close>

datatype json =
    Null
  | Bool bool
  | Number rat
  | String bytes
  | Array "json list"
  | Object "(bytes \<times> json) list"

section \<open>Accessors\<close>

fun is_number :: "json \<Rightarrow> bool" where
  "is_number (Number _) = True" | "is_number _ = False"

fun is_string :: "json \<Rightarrow> bool" where
  "is_string (String _) = True" | "is_string _ = False"

fun is_array :: "json \<Rightarrow> bool" where
  "is_array (Array _) = True" | "is_array _ = False"

fun is_object :: "json \<Rightarrow> bool" where
  "is_object (Object _) = True" | "is_object _ = False"

fun as_bool :: "bool \<Rightarrow> json \<Rightarrow> bool" where
  "as_bool d (Bool b) = b" | "as_bool d _ = d"

fun as_number :: "rat \<Rightarrow> json \<Rightarrow> rat" where
  "as_number d (Number x) = x" | "as_number d _ = d"

fun as_int :: "int \<Rightarrow> json \<Rightarrow> int" where
  "as_int d (Number x) = cast_i64 x" | "as_int d _ = d"

fun as_string :: "json \<Rightarrow> bytes" where
  "as_string (String s) = s" | "as_string _ = []"

fun as_array :: "json \<Rightarrow> json list" where
  "as_array (Array vs) = vs" | "as_array _ = []"

fun as_object :: "json \<Rightarrow> (bytes, json) omap" where
  "as_object (Object m) = m" | "as_object _ = []"

section \<open>The parser\<close>

subsection \<open>Strings\<close>

definition is_ws :: "char \<Rightarrow> bool" where
  "is_ws c = (c = BLANK \<or> c = TAB \<or> c = LF \<or> c = CR)"

definition skip_ws :: "bytes \<Rightarrow> bytes" where
  "skip_ws s = dropWhile is_ws s"

definition hex_val :: "char \<Rightarrow> nat option" where
  "hex_val h =
     (let n = code_of h in
      if 48 \<le> n \<and> n \<le> 57 then Some (n - 48)
      else if 97 \<le> n \<and> n \<le> 102 then Some (n - 97 + 10)
      else if 65 \<le> n \<and> n \<le> 70 then Some (n - 65 + 10)
      else None)"

fun hex_acc :: "nat \<Rightarrow> bytes \<Rightarrow> nat option" where
  "hex_acc cp [] = Some cp"
| "hex_acc cp (h # hs) =
     (case hex_val h of None \<Rightarrow> None | Some d \<Rightarrow> hex_acc (16 * cp + d) hs)"

definition utf8_encode :: "nat \<Rightarrow> bytes" where
  "utf8_encode cp =
     (if cp < 0x80 then [char_of cp]
      else if cp < 0x800 then [char_of (0xC0 + cp div 64), char_of (0x80 + cp mod 64)]
      else if cp < 0x10000 then
        [char_of (0xE0 + cp div 4096), char_of (0x80 + cp div 64 mod 64), char_of (0x80 + cp mod 64)]
      else [char_of (0xF0 + cp div 262144), char_of (0x80 + cp div 4096 mod 64),
            char_of (0x80 + cp div 64 mod 64), char_of (0x80 + cp mod 64)])"

text \<open>What follows a backslash and \<open>u\<close>: four digits, and the low half of a surrogate pair if there is one.\<close>

definition unicode_escape :: "bytes \<Rightarrow> bytes + bytes \<times> bytes" where
  "unicode_escape p =
     (if length p < 4 then Inl (''bad '' @ BSLASH # ''u escape'')
      else case hex_acc 0 (take 4 p) of
        None \<Rightarrow> Inl (''bad hex in '' @ BSLASH # ''u'')
      | Some cp \<Rightarrow>
          let p1 = drop 4 p in
          if 0xD800 \<le> cp \<and> cp \<le> 0xDBFF \<and> 6 \<le> length p1 \<and> p1 ! 0 = BSLASH \<and> p1 ! 1 = CHR ''u'' then
            (case hex_acc 0 (take 4 (drop 2 p1)) of
               None \<Rightarrow> Inl ''bad low surrogate''
             | Some lo \<Rightarrow>
                 if 0xDC00 \<le> lo \<and> lo \<le> 0xDFFF
                 then Inr (utf8_encode (0x10000 + (cp - 0xD800) * 1024 + (lo - 0xDC00)), drop 6 p1)
                 else Inr (utf8_encode cp, p1))
          else Inr (utf8_encode cp, p1))"

definition simple_escape :: "char \<Rightarrow> char option" where
  "simple_escape e =
     (if e = QUOTE then Some QUOTE
      else if e = BSLASH then Some BSLASH
      else if e = SLASH then Some SLASH
      else if e = CHR ''b'' then Some (CHR 0x08)
      else if e = CHR ''f'' then Some (CHR 0x0C)
      else if e = CHR ''n'' then Some LF
      else if e = CHR ''r'' then Some CR
      else if e = CHR ''t'' then Some TAB
      else None)"

definition prepend :: "bytes \<Rightarrow> bytes + bytes \<times> bytes \<Rightarrow> bytes + bytes \<times> bytes" where
  "prepend u r = (case r of Inl e \<Rightarrow> Inl e | Inr (s, p) \<Rightarrow> Inr (u @ s, p))"

lemma unicode_escape_length: "unicode_escape p = Inr (u, q) \<Longrightarrow> length q < length p"
  by (auto simp: unicode_escape_def Let_def split: if_splits option.splits)

function string_body :: "bytes \<Rightarrow> bytes + bytes \<times> bytes" where
  "string_body s =
     (case s of
        [] \<Rightarrow> Inl ''unterminated string''
      | c # p \<Rightarrow>
          if c = QUOTE then Inr ([], p)
          else if c = BSLASH then
            (case p of
               [] \<Rightarrow> Inl ''bad escape''
             | e # q \<Rightarrow>
                 if e = CHR ''u'' then
                   (case unicode_escape q of
                      Inl err \<Rightarrow> Inl err
                    | Inr (u, q') \<Rightarrow> prepend u (string_body q'))
                 else
                   (case simple_escape e of
                      None \<Rightarrow> Inl ''bad escape char''
                    | Some x \<Rightarrow> prepend [x] (string_body q)))
          else prepend [c] (string_body p))"
  by pat_completeness auto
termination
  by (relation "measure length") (auto dest!: unicode_escape_length)

declare string_body.simps [simp del]

definition parse_string :: "bytes \<Rightarrow> bytes + bytes \<times> bytes" where
  "parse_string s =
     (case s of [] \<Rightarrow> Inl ''expected string''
      | c # p \<Rightarrow> if c = QUOTE then string_body p else Inl ''expected string'')"

subsection \<open>Numbers and literals\<close>

definition minus_token :: "bytes \<Rightarrow> bytes \<times> bytes" where
  "minus_token s = (case s of [] \<Rightarrow> ([], []) | c # r \<Rightarrow> if c = CHR ''-'' then ([c], r) else ([], s))"

definition digits_token :: "bytes \<Rightarrow> bytes \<times> bytes" where
  "digits_token s = (takeWhile is_digit s, dropWhile is_digit s)"

definition frac_token :: "bytes \<Rightarrow> bytes \<times> bytes" where
  "frac_token s = (case s of [] \<Rightarrow> ([], [])
     | c # r \<Rightarrow> if c = CHR ''.'' then (let (t, r') = digits_token r in (c # t, r')) else ([], s))"

definition exp_token :: "bytes \<Rightarrow> bytes \<times> bytes" where
  "exp_token s = (case s of [] \<Rightarrow> ([], [])
     | c # r \<Rightarrow> if c = CHR ''e'' \<or> c = CHR ''E'' then
         (case r of [] \<Rightarrow> ([c], [])
          | d # r' \<Rightarrow> if d = CHR ''+'' \<or> d = CHR ''-''
              then (let (t, q) = digits_token r' in (c # d # t, q))
              else (let (t, q) = digits_token r in (c # t, q)))
       else ([], s))"

definition number_token :: "bytes \<Rightarrow> bytes \<times> bytes" where
  "number_token s =
     (let (t0, s0) = minus_token s; (t1, s1) = digits_token s0;
          (t2, s2) = frac_token s1; (t3, s3) = exp_token s2
      in (t0 @ t1 @ t2 @ t3, s3))"

definition parse_number :: "bytes \<Rightarrow> bytes + rat \<times> bytes" where
  "parse_number s =
     (let (tok, rest) = number_token s in
      if tok = [] then Inl ''bad number''
      else case stod tok of None \<Rightarrow> Inl ''number range'' | Some d \<Rightarrow> Inr (d, rest))"

definition literal :: "bytes \<Rightarrow> bytes \<Rightarrow> bytes option" where
  "literal lit s = (if starts_with lit s then Some (drop (length lit) s) else None)"

subsection \<open>Values\<close>

definition quoted :: "char \<Rightarrow> bytes" where
  "quoted c = [CHR 0x27, c, CHR 0x27]"

datatype parse_error = Perr bytes | Fuel_out

definition parse_literal :: "bytes \<Rightarrow> json \<Rightarrow> bytes \<Rightarrow> parse_error + json \<times> bytes" where
  "parse_literal lit v s =
     (case literal lit s of None \<Rightarrow> Inl (Perr ''bad literal'') | Some r \<Rightarrow> Inr (v, r))"

fun parse_value :: "nat \<Rightarrow> bytes \<Rightarrow> parse_error + json \<times> bytes"
  and parse_members :: "nat \<Rightarrow> (bytes, json) omap \<Rightarrow> bytes \<Rightarrow> parse_error + json \<times> bytes"
  and parse_elems :: "nat \<Rightarrow> json list \<Rightarrow> bytes \<Rightarrow> parse_error + json \<times> bytes"
where
  "parse_value 0 s = Inl Fuel_out"
| "parse_value (Suc n) s =
     (case skip_ws s of
        [] \<Rightarrow> Inl (Perr ''unexpected EOF'')
      | c # p \<Rightarrow>
          if c = QUOTE then
            (case parse_string (c # p) of Inl e \<Rightarrow> Inl (Perr e) | Inr (x, r) \<Rightarrow> Inr (String x, r))
          else if c = CHR ''{'' then
            (let q = skip_ws p in
             if q \<noteq> [] \<and> hd q = CHR ''}'' then Inr (Object [], tl q) else parse_members n [] q)
          else if c = CHR ''['' then
            (let q = skip_ws p in
             if q \<noteq> [] \<and> hd q = CHR '']'' then Inr (Array [], tl q) else parse_elems n [] q)
          else if c = CHR ''t'' then parse_literal ''true'' (Bool True) (c # p)
          else if c = CHR ''f'' then parse_literal ''false'' (Bool False) (c # p)
          else if c = CHR ''n'' then parse_literal ''null'' Null (c # p)
          else if c = CHR ''-'' \<or> is_digit c then
            (case parse_number (c # p) of Inl e \<Rightarrow> Inl (Perr e) | Inr (d, r) \<Rightarrow> Inr (Number d, r))
          else Inl (Perr ''unexpected character''))"
| "parse_members 0 obj s = Inl Fuel_out"
| "parse_members (Suc n) obj s =
     (case parse_string (skip_ws s) of
        Inl e \<Rightarrow> Inl (Perr e)
      | Inr (key, r) \<Rightarrow>
          (let r1 = skip_ws r in
           if r1 = [] \<or> hd r1 \<noteq> CHR '':'' then Inl (Perr (''expected '' @ quoted (CHR '':'')))
           else case parse_value n (tl r1) of
               Inl e \<Rightarrow> Inl e
             | Inr (v, r2) \<Rightarrow>
                 (let obj' = om_emplace key v obj; r3 = skip_ws r2 in
                  if r3 \<noteq> [] \<and> hd r3 = CHR '','' then parse_members n obj' (tl r3)
                  else if r3 \<noteq> [] \<and> hd r3 = CHR ''}'' then Inr (Object obj', tl r3)
                  else Inl (Perr (''expected '' @ quoted (CHR '','') @ '' or '' @ quoted (CHR ''}''))))))"
| "parse_elems 0 arr s = Inl Fuel_out"
| "parse_elems (Suc n) arr s =
     (case parse_value n s of
        Inl e \<Rightarrow> Inl e
      | Inr (v, r) \<Rightarrow>
          (let arr' = arr @ [v]; r1 = skip_ws r in
           if r1 \<noteq> [] \<and> hd r1 = CHR '','' then parse_elems n arr' (tl r1)
           else if r1 \<noteq> [] \<and> hd r1 = CHR '']'' then Inr (Array arr', tl r1)
           else Inl (Perr (''expected '' @ quoted (CHR '','') @ '' or '' @ quoted (CHR '']'')))))"

definition parse :: "bytes \<Rightarrow> parse_error + json" where
  "parse text =
     (case parse_value (2 * length text + 2) (skip_ws text) of
        Inl e \<Rightarrow> Inl e
      | Inr (v, r) \<Rightarrow> if skip_ws r = [] then Inr v else Inl (Perr ''trailing characters''))"

text \<open>The callers that ignore the error text.\<close>

definition parse_opt :: "bytes \<Rightarrow> json option" where
  "parse_opt text = (case parse text of Inl _ \<Rightarrow> None | Inr v \<Rightarrow> Some v)"

section \<open>The serialiser\<close>

definition escape_char :: "char \<Rightarrow> bytes" where
  "escape_char c =
     (if c = QUOTE then [BSLASH, QUOTE]
      else if c = BSLASH then [BSLASH, BSLASH]
      else if c = CHR 0x08 then BSLASH # ''b''
      else if c = CHR 0x0C then BSLASH # ''f''
      else if c = LF then BSLASH # ''n''
      else if c = CR then BSLASH # ''r''
      else if c = TAB then BSLASH # ''t''
      else if code_of c < (0x20::nat) then BSLASH # CHR ''u'' # show_hex_fixed 4 (code_of c)
      else [c])"

definition escape :: "bytes \<Rightarrow> bytes" where
  "escape s = QUOTE # concat (map escape_char s) @ [QUOTE]"

definition dump_number :: "rat \<Rightarrow> bytes" where
  "dump_number x =
     (if - 9223372036854774784 \<le> x \<and> x \<le> 9223372036854774784 \<and> of_int (trunc_rat x) = x
      then show_int (cast_i64 x) else fmt_g17 x)"

fun join :: "bytes \<Rightarrow> bytes list \<Rightarrow> bytes" where
  "join sep [] = []"
| "join sep [x] = x"
| "join sep (x # y # zs) = x @ sep @ join sep (y # zs)"

lemma size_member [termination_simp]: "(k, v) \<in> set m \<Longrightarrow> size v < size (Object m)"
  by (induction m) auto

fun dump :: "json \<Rightarrow> bytes" where
  "dump Null = ''null''"
| "dump (Bool b) = (if b then ''true'' else ''false'')"
| "dump (Number x) = dump_number x"
| "dump (String s) = escape s"
| "dump (Array vs) = ''['' @ join '','' (map dump vs) @ '']''"
| "dump (Object m) = ''{'' @ join '','' (map (\<lambda>(k, v). escape k @ '':'' @ dump v) m) @ ''}''"

section \<open>Path lookup\<close>

definition key_stop :: "char \<Rightarrow> bool" where
  "key_stop c = (c = CHR ''.'' \<or> c = CHR ''['')"

definition skip_dot :: "bytes \<Rightarrow> bytes" where
  "skip_dot p = (case p of [] \<Rightarrow> [] | c # r \<Rightarrow> if c = CHR ''.'' then r else c # r)"

text \<open>
  \<open>Value::find\<close>: the second argument is what is left of the path. An empty path is the
  value itself; \<open>Null\<close> is the answer of every miss.
\<close>

function jfind :: "json \<Rightarrow> bytes \<Rightarrow> json" where
  "jfind cur path =
     (case path of
        [] \<Rightarrow> cur
      | c # p \<Rightarrow>
          if cur = Null then Null
          else if c = CHR ''['' then
            (case find_char (CHR '']'') path of
               None \<Rightarrow> Null
             | Some close \<Rightarrow>
                 (case cur of
                    Array vs \<Rightarrow>
                      (case stoul (substr path 1 (close - 1)) of
                         None \<Rightarrow> Null
                       | Some i \<Rightarrow> if length vs \<le> i then Null
                                   else jfind (vs ! i) (skip_dot (drop (close + 1) path)))
                  | _ \<Rightarrow> Null))
          else
            (let key = takeWhile (\<lambda>x. \<not> key_stop x) path;
                 rest = dropWhile (\<lambda>x. \<not> key_stop x) path in
             (case cur of
                Object m \<Rightarrow>
                  (case om_get m key of
                     None \<Rightarrow> Null
                   | Some v \<Rightarrow> jfind v (skip_dot rest))
              | _ \<Rightarrow> Null)))"
  by pat_completeness auto

lemma length_skip_dot: "length (skip_dot p) \<le> length p"
  by (auto simp: skip_dot_def split: list.splits)

lemma length_skip_dot_stop:
  "c \<noteq> CHR ''['' \<Longrightarrow> length (skip_dot (dropWhile (\<lambda>x. \<not> key_stop x) (c # p))) < length (c # p)"
  using length_skip_dot [of "dropWhile (\<lambda>x. \<not> key_stop x) p"] length_dropWhile_le [of "\<lambda>x. \<not> key_stop x" p]
  by (auto simp: skip_dot_def key_stop_def split: if_splits)

termination jfind
proof (relation "measure (length \<circ> snd)", goal_cases)
  case 1
  then show ?case by simp
next
  case (2 cur path c p close vs i)
  then show ?case
    using length_skip_dot [of "drop (close + 1) path"] by simp
next
  case (3 cur path c p)
  then show ?case
    using length_skip_dot_stop [of c p] by simp
qed

declare jfind.simps [simp del]

section \<open>Scanning what was printed\<close>

lemma skip_ws_Cons [simp]: "skip_ws (c # p) = (if is_ws c then skip_ws p else c # p)"
  by (simp add: skip_ws_def)

lemma skip_ws_Nil [simp]: "skip_ws [] = []"
  by (simp add: skip_ws_def)

lemma hex_val_hex_char [simp]: "d < 16 \<Longrightarrow> hex_val (hex_char d) = Some d"
  by (auto simp: hex_val_def hex_char_def of_char_of Let_def)

lemma hex_acc_append: "hex_acc a (xs @ ys) =
  (case hex_acc a xs of None \<Rightarrow> None | Some b \<Rightarrow> hex_acc b ys)"
  by (induction a xs rule: hex_acc.induct) (auto split: option.splits)

lemma hex_acc_show_hex: "hex_acc a (show_hex_fixed k n) = Some (a * 16 ^ k + n mod 16 ^ k)"
proof (induction k arbitrary: n)
  case 0
  then show ?case by simp
next
  case (Suc k)
  then have "hex_acc a (show_hex_fixed (Suc k) n) =
      Some (16 * (a * 16 ^ k + n div 16 mod 16 ^ k) + n mod 16)"
    by (simp add: hex_acc_append)
  moreover have "n mod 16 ^ Suc k = 16 * (n div 16 mod 16 ^ k) + n mod 16"
    by (simp add: mod_mult2_eq)
  ultimately show ?case by (simp add: algebra_simps)
qed

lemma unicode_escape_ascii:
  "n < 0x80 \<Longrightarrow> unicode_escape (show_hex_fixed 4 n @ q) = Inr ([char_of n], q)"
  by (simp add: unicode_escape_def hex_acc_show_hex utf8_encode_def)

lemma prepend_Inr [simp]: "prepend u (Inr (s, p)) = Inr (u @ s, p)"
  by (simp add: prepend_def)

lemma string_body_end [simp]: "string_body (QUOTE # r) = Inr ([], r)"
  by (simp add: string_body.simps)

lemma simple_escape_body:
  "simple_escape e = Some x \<Longrightarrow> string_body (BSLASH # e # q) = prepend [x] (string_body q)"
  by (subst string_body.simps) (auto simp: simple_escape_def split: if_splits)

lemma string_body_escape_char: "string_body (escape_char c @ q) = prepend [c] (string_body q)"
proof (cases "c \<in> {QUOTE, BSLASH, CHR 0x08, CHR 0x0C, LF, CR, TAB}")
  case True
  have "\<exists>e. escape_char c = [BSLASH, e] \<and> simple_escape e = Some c"
    using True by (elim insertE) (simp_all add: escape_char_def simple_escape_def)
  then show ?thesis
    using simple_escape_body by auto
next
  case False
  show ?thesis
  proof (cases "code_of c < (0x20::nat)")
    case True
    with False have "escape_char c = BSLASH # CHR ''u'' # show_hex_fixed 4 (code_of c)"
      by (simp add: escape_char_def)
    moreover from True have "unicode_escape (show_hex_fixed 4 (code_of c) @ q) = Inr ([c], q)"
      by (subst unicode_escape_ascii) auto
    ultimately show ?thesis
      by (subst string_body.simps) simp
  next
    case False
    with \<open>c \<notin> _\<close> show ?thesis
      by (subst string_body.simps) (simp add: escape_char_def)
  qed
qed

lemma parse_string_escape [simp]: "parse_string (escape s @ r) = Inr (s, r)"
proof -
  have "string_body (concat (map escape_char s) @ QUOTE # r) = Inr (s, r)"
    by (induction s) (simp_all add: string_body_escape_char)
  then show ?thesis by (simp add: parse_string_def escape_def)
qed

definition ends_number :: "bytes \<Rightarrow> bool" where
  "ends_number r = (r = [] \<or> \<not> (is_digit (hd r) \<or> hd r = CHR ''.'' \<or> hd r = CHR ''e'' \<or> hd r = CHR ''E''))"

lemma number_token_show_int:
  assumes "ends_number r"
  shows "number_token (show_int n @ r) = (show_int n, r)"
proof -
  have "minus_token (show_int n @ r) = (if n < 0 then ''-'' else [], show_nat (nat \<bar>n\<bar>) @ r)"
    by (rule show_nat_cases [of "nat n"]) (auto simp: minus_token_def show_int_def digit_not_sign)
  moreover have "digits_token (show_nat k @ r) = (show_nat k, r)" for k
    using assms by (auto simp: digits_token_def ends_number_def)
  moreover have "frac_token r = ([], r)" and "exp_token r = ([], r)"
    using assms by (auto simp: frac_token_def exp_token_def ends_number_def split: list.split)
  ultimately show ?thesis
    by (simp add: number_token_def show_int_def)
qed

lemma parse_number_show_int:
  assumes "ends_number r" and "to_double n = of_int n" and "\<bar>n\<bar> < 2 ^ 63"
  shows "parse_number (show_int n @ r) = Inr (of_int n, r)"
  using stod_show_int [OF assms(2,3)] number_token_show_int [OF assms(1)]
  by (auto simp: parse_number_def show_int_def)

section \<open>The fuel is never used up\<close>

lemma length_skip_ws: "length (skip_ws s) \<le> length s"
  by (simp add: skip_ws_def length_dropWhile_le)

text \<open>A step of the scanner consumes at least \<open>k\<close> bytes of its input.\<close>

definition eats :: "nat \<Rightarrow> bytes \<Rightarrow> 'e + 'a \<times> bytes \<Rightarrow> bool" where
  "eats k s res = (\<forall>x r. res = Inr (x, r) \<longrightarrow> length r + k \<le> length s)"

lemma eats_Inl [simp]: "eats k s (Inl e)"
  by (simp add: eats_def)

lemma eats_Inr [simp]: "eats k s (Inr (x, r)) \<longleftrightarrow> length r + k \<le> length s"
  by (simp add: eats_def)

lemma eatsD: "eats k s res \<Longrightarrow> res = Inr (x, r) \<Longrightarrow> length r + k \<le> length s"
  by (simp add: eats_def)

lemma eats_weaken: "eats k t res \<Longrightarrow> length t + j \<le> length s + k \<Longrightarrow> eats j s res"
  by (fastforce simp: eats_def)

lemma eats_prepend [simp]: "eats k s (prepend u res) \<longleftrightarrow> eats k s res"
  by (auto simp: eats_def prepend_def split: sum.splits prod.splits)

lemma eats_string_body: "eats 1 s (string_body s)"
proof (induction s rule: length_induct)
  case (1 s)
  then have IH: "length t < length s \<Longrightarrow> eats 1 s (string_body t)" for t
    using eats_weaken [of 1 t "string_body t" 1 s] by simp
  show ?case
  proof (cases s)
    case Nil
    then show ?thesis by (simp add: string_body.simps)
  next
    case (Cons c p)
    show ?thesis
    proof (cases "c = BSLASH")
      case False
      with Cons IH [of p] show ?thesis
        by (subst string_body.simps) simp
    next
      case esc: True
      show ?thesis
      proof (cases p)
        case Nil
        with Cons esc show ?thesis by (subst string_body.simps) simp
      next
        case (Cons e q)
        have "eats 1 s (string_body q')" if "unicode_escape q = Inr (u, q')" for u q'
          using IH [of q'] unicode_escape_length [OF that] \<open>s = c # p\<close> Cons by simp
        moreover have "eats 1 s (string_body q)"
          using IH [of q] \<open>s = c # p\<close> Cons by simp
        ultimately show ?thesis
          using \<open>s = c # p\<close> Cons esc
          by (subst string_body.simps) (auto split: sum.split prod.split option.split)
      qed
    qed
  qed
qed

lemma eats_parse_string: "eats 2 s (parse_string s)"
  using eats_string_body [of "tl s"] eats_weaken [of 1 "tl s" "string_body (tl s)" 2 s]
  by (auto simp: parse_string_def split: list.split)

lemma digits_token_append: "digits_token s = (t, r) \<Longrightarrow> t @ r = s"
  by (auto simp: digits_token_def)

lemma number_token_append: "number_token s = (t, r) \<Longrightarrow> t @ r = s"
proof -
  have m: "minus_token s = (t, r) \<Longrightarrow> t @ r = s" for s t r
    by (auto simp: minus_token_def split: list.splits if_splits)
  have f: "frac_token s = (t, r) \<Longrightarrow> t @ r = s" for s t r
    by (auto simp: frac_token_def dest: digits_token_append split: list.splits if_splits prod.splits)
  have e: "exp_token s = (t, r) \<Longrightarrow> t @ r = s" for s t r
    by (auto simp: exp_token_def dest: digits_token_append split: list.splits if_splits prod.splits)
  assume "number_token s = (t, r)"
  then show ?thesis
    by (auto simp: number_token_def dest!: m f e digits_token_append split: prod.splits)
qed

lemma eats_parse_number: "eats 1 s (parse_number s)"
proof -
  obtain t r where tr: "number_token s = (t, r)" by force
  then have "length t + length r = length s"
    using number_token_append by fastforce
  with tr show ?thesis
    by (cases t) (auto simp: parse_number_def split: option.split)
qed

lemma eats_parse_literal: "eats (length lit) s (parse_literal lit v s)"
  by (auto simp: parse_literal_def literal_def starts_with_iff)


fun wf_json :: "json \<Rightarrow> bool" where
  "wf_json (Array vs) = list_all wf_json vs"
| "wf_json (Object m) = (om_ok m \<and> list_all (\<lambda>(_, v). wf_json v) m)"
| "wf_json _ = True"

definition yields :: "bytes \<Rightarrow> parse_error + json \<times> bytes \<Rightarrow> bool" where
  "yields s res = (\<forall>v r. res = Inr (v, r) \<longrightarrow> wf_json v \<and> length r < length s)"

lemma yields_Inl [simp]: "yields s (Inl e)"
  by (simp add: yields_def)

lemma yields_Inr [simp]: "yields s (Inr (v, r)) \<longleftrightarrow> wf_json v \<and> length r < length s"
  by (simp add: yields_def)

lemma yieldsD: "yields s res \<Longrightarrow> res = Inr (v, r) \<Longrightarrow> wf_json v \<and> length r < length s"
  by (simp add: yields_def)

lemma yields_weaken: "yields t res \<Longrightarrow> length t \<le> length s \<Longrightarrow> yields s res"
  by (fastforce simp: yields_def)

lemma yields_if: "(b \<Longrightarrow> yields s x) \<Longrightarrow> (\<not> b \<Longrightarrow> yields s y) \<Longrightarrow> yields s (if b then x else y)"
  by simp

lemma neq_if: "(b \<Longrightarrow> x \<noteq> z) \<Longrightarrow> (\<not> b \<Longrightarrow> y \<noteq> z) \<Longrightarrow> (if b then x else y) \<noteq> z"
  by simp

lemma wf_emplace:
  "om_ok m \<Longrightarrow> list_all (\<lambda>(_, v). wf_json v) m \<Longrightarrow> wf_json v \<Longrightarrow>
   om_ok (om_emplace k v m) \<and> list_all (\<lambda>(_, v). wf_json v) (om_emplace k v m)"
proof -
  have "list_all (\<lambda>(_, v). wf_json v) (om_put k v m)"
    if "list_all (\<lambda>(_, v). wf_json v) m" "wf_json v" for m
    using that by (induction k v m rule: om_put.induct) auto
  then show "om_ok m \<Longrightarrow> list_all (\<lambda>(_, v). wf_json v) m \<Longrightarrow> wf_json v \<Longrightarrow> ?thesis"
    by (auto simp: om_emplace_def split: option.split)
qed

definition parsers_ok :: "nat \<Rightarrow> bool" where
  "parsers_ok n = (\<forall>s. yields s (parse_value n s) \<and>
     (\<forall>m. wf_json (Object m) \<longrightarrow> yields s (parse_members n m s)) \<and>
     (\<forall>vs. wf_json (Array vs) \<longrightarrow> yields s (parse_elems n vs s)))"

lemma value_step:
  assumes "parsers_ok n"
  shows "yields s (parse_value (Suc n) s)"
proof (cases "skip_ws s")
  case Nil
  then show ?thesis by simp
next
  case (Cons c p)
  then have len: "Suc (length p) \<le> length s" using length_skip_ws [of s] by simp
  have len': "length (skip_ws p) \<le> length p" by (rule length_skip_ws)
  have m: "yields s (parse_members n [] (skip_ws p))" and e: "yields s (parse_elems n [] (skip_ws p))"
    using assms len len' by (auto simp: parsers_ok_def intro!: yields_weaken [of "skip_ws p" _ s])
  have str: "length r + 2 \<le> length s" if "parse_string (c # p) = Inr (x, r)" for x r
    using eatsD [OF eats_parse_string that] len by simp
  have num: "length r + 1 \<le> length s" if "parse_number (c # p) = Inr (x, r)" for x r
    using eatsD [OF eats_parse_number that] len by simp
  have lit: "yields s (parse_literal l v (c # p))" if "wf_json v" "1 \<le> length l" for l v
    using eats_parse_literal [of l "c # p" v] that len
    by (auto simp: parse_literal_def split: option.split)
  have tl: "length (tl (skip_ws p)) < length s" using len len' by simp
  show ?thesis
    unfolding parse_value.simps Cons list.case Let_def
    by (intro yields_if m e lit) (use str num tl in \<open>simp_all split: sum.split, force+\<close>)
qed

lemma members_step:
  assumes "parsers_ok n" and m: "wf_json (Object m)"
  shows "yields s (parse_members (Suc n) m s)"
proof (cases "parse_string (skip_ws s)")
  case (Inl e)
  then show ?thesis by simp
next
  case (Inr kr)
  obtain k r where kr: "kr = (k, r)" by force
  have r: "length (skip_ws r) + 2 \<le> length s"
    using eatsD [OF eats_parse_string Inr [unfolded kr]] length_skip_ws [of s] length_skip_ws [of r]
    by simp
  show ?thesis
  proof (cases "parse_value n (tl (skip_ws r))")
    case (Inl e)
    with Inr kr show ?thesis by (simp add: Let_def)
  next
    case (Inr vr)
    obtain v r2 where vr: "vr = (v, r2)" by force
    have "yields (tl (skip_ws r)) (parse_value n (tl (skip_ws r)))"
      using assms(1) by (simp add: parsers_ok_def)
    then have v: "wf_json v" and "length r2 \<le> length (skip_ws r)"
      using yieldsD [OF _ Inr [unfolded vr]] by fastforce+
    then have r3: "length (skip_ws r2) + 2 \<le> length s"
      using r length_skip_ws [of r2] by simp
    have m': "wf_json (Object (om_emplace k v m))"
      using wf_emplace [of m v k] m v by simp
    then have "yields (tl (skip_ws r2)) (parse_members n (om_emplace k v m) (tl (skip_ws r2)))"
      using assms(1) by (simp add: parsers_ok_def)
    then have "yields s (parse_members n (om_emplace k v m) (tl (skip_ws r2)))"
      by (rule yields_weaken) (use r3 in simp)
    then show ?thesis
      using \<open>parse_string (skip_ws s) = Inr kr\<close> kr Inr vr m' r3 by (auto simp: Let_def)
  qed
qed

lemma elems_step:
  assumes "parsers_ok n" and vs: "wf_json (Array vs)"
  shows "yields s (parse_elems (Suc n) vs s)"
proof (cases "parse_value n s")
  case (Inl e)
  then show ?thesis by simp
next
  case (Inr vr)
  obtain v r where vr: "vr = (v, r)" by force
  have "yields s (parse_value n s)" using assms(1) by (simp add: parsers_ok_def)
  then have v: "wf_json v" and "length r + 1 \<le> length s"
    using yieldsD [OF _ Inr [unfolded vr]] by fastforce+
  then have r1: "length (skip_ws r) + 1 \<le> length s"
    using length_skip_ws [of r] by simp
  have "yields (tl (skip_ws r)) (parse_elems n (vs @ [v]) (tl (skip_ws r)))"
    using assms(1) vs v by (simp add: parsers_ok_def)
  then have "yields s (parse_elems n (vs @ [v]) (tl (skip_ws r)))"
    by (rule yields_weaken) (use r1 in simp)
  then show ?thesis using Inr vr vs v r1 by (auto simp: Let_def)
qed

lemma parsers_ok: "parsers_ok n"
proof (induction n)
  case 0
  show ?case by (simp add: parsers_ok_def)
next
  case (Suc n)
  then show ?case
    unfolding parsers_ok_def [of "Suc n"] using value_step members_step elems_step by blast
qed

lemma parse_value_yields: "parse_value n s = Inr (v, r) \<Longrightarrow> wf_json v \<and> length r < length s"
  using parsers_ok [of n] yieldsD [of s "parse_value n s" v r] unfolding parsers_ok_def by blast

lemma parse_wf: "parse s = Inr v \<Longrightarrow> wf_json v"
  unfolding parse_def
  by (cases "parse_value (2 * length s + 2) (skip_ws s)")
    (auto simp del: parse_value.simps dest: parse_value_yields split: if_splits)

definition fuel_ok :: "nat \<Rightarrow> bool" where
  "fuel_ok n = (\<forall>s. (2 * length s + 1 \<le> n \<longrightarrow> parse_value n s \<noteq> Inl Fuel_out) \<and>
     (2 * length s + 1 \<le> n \<longrightarrow> (\<forall>m. parse_members n m s \<noteq> Inl Fuel_out)) \<and>
     (2 * length s + 2 \<le> n \<longrightarrow> (\<forall>vs. parse_elems n vs s \<noteq> Inl Fuel_out)))"

lemma value_fuel:
  assumes "fuel_ok n" and "2 * length s + 1 \<le> Suc n"
  shows "parse_value (Suc n) s \<noteq> Inl Fuel_out"
proof (cases "skip_ws s")
  case Nil
  then show ?thesis by simp
next
  case (Cons c p)
  then have "length (skip_ws p) < length s"
    using length_skip_ws [of s] length_skip_ws [of p] by simp
  then have "parse_members n [] (skip_ws p) \<noteq> Inl Fuel_out" "parse_elems n [] (skip_ws p) \<noteq> Inl Fuel_out"
    using assms by (auto simp: fuel_ok_def)
  moreover have "parse_literal l v t \<noteq> Inl Fuel_out" for l v t
    by (simp add: parse_literal_def split: option.split)
  ultimately show ?thesis
    unfolding parse_value.simps Cons list.case Let_def
    by (intro neq_if) (simp_all split: sum.split)
qed

lemma members_fuel:
  assumes "fuel_ok n" and "2 * length s + 1 \<le> Suc n"
  shows "parse_members (Suc n) m s \<noteq> Inl Fuel_out"
proof (cases "parse_string (skip_ws s)")
  case (Inr kr)
  obtain k r where kr: "kr = (k, r)" by force
  have r: "length (skip_ws r) + 2 \<le> length s"
    using eatsD [OF eats_parse_string Inr [unfolded kr]] length_skip_ws [of s] length_skip_ws [of r]
    by simp
  then have "parse_value n (tl (skip_ws r)) \<noteq> Inl Fuel_out"
    using assms by (simp add: fuel_ok_def)
  moreover have "parse_members n m' (tl (skip_ws r2)) \<noteq> Inl Fuel_out"
    if "parse_value n (tl (skip_ws r)) = Inr (v, r2)" for v r2 m'
  proof -
    have "length (tl (skip_ws r2)) < length s"
      using parse_value_yields [OF that] r length_skip_ws [of r2] by auto
    then show ?thesis using assms by (simp add: fuel_ok_def)
  qed
  ultimately show ?thesis
    using Inr kr by (auto simp: Let_def split: sum.split)
qed simp

lemma elems_fuel:
  assumes "fuel_ok n" and "2 * length s + 2 \<le> Suc n"
  shows "parse_elems (Suc n) vs s \<noteq> Inl Fuel_out"
proof -
  have "parse_value n s \<noteq> Inl Fuel_out" using assms by (simp add: fuel_ok_def)
  moreover have "parse_elems n vs' (tl (skip_ws r)) \<noteq> Inl Fuel_out"
    if "parse_value n s = Inr (v, r)" for v r vs'
  proof -
    have "length (tl (skip_ws r)) < length s"
      using parse_value_yields [OF that] length_skip_ws [of r] by auto
    then show ?thesis using assms by (simp add: fuel_ok_def)
  qed
  ultimately show ?thesis by (auto simp: Let_def split: sum.split)
qed

lemma fuel_ok: "fuel_ok n"
proof (induction n)
  case 0
  show ?case by (simp add: fuel_ok_def)
next
  case (Suc n)
  then show ?case
    unfolding fuel_ok_def [of "Suc n"] using value_fuel members_fuel elems_fuel by blast
qed

lemma parse_value_fuel: "2 * length s + 1 \<le> n \<Longrightarrow> parse_value n s \<noteq> Inl Fuel_out"
  using fuel_ok [of n] by (simp add: fuel_ok_def)

lemma parse_fuel: "parse s \<noteq> Inl Fuel_out"
proof -
  have "parse_value (2 * length s + 2) (skip_ws s) \<noteq> Inl Fuel_out"
    using length_skip_ws [of s] by (intro parse_value_fuel) simp
  then show ?thesis unfolding parse_def
    by (cases "parse_value (2 * length s + 2) (skip_ws s)")
      (simp_all del: parse_value.simps split: prod.split)
qed

end
