(* ===== verification/Json_Laws.thy ===== *)
theory Json_Laws
  imports Json_Lite
begin

text \<open>
  What the JSON library promises its callers: the parser always answers, objects are real
  maps, what the serialiser prints parses back to the same value, and a dotted path is
  looked up component by component.
\<close>

section \<open>Printing and parsing back\<close>

text \<open>
  The values the serialiser writes exactly: every number is an integral double within the
  range the code prints as a plain decimal, every object a real \<open>std::map\<close>.
\<close>

fun dumpable :: "json \<Rightarrow> bool" where
  "dumpable (Number x) = (of_int (trunc_rat x) = x \<and> to_double (trunc_rat x) = x \<and>
      - 9223372036854774784 \<le> x \<and> x \<le> 9223372036854774784)"
| "dumpable (Array vs) = list_all dumpable vs"
| "dumpable (Object m) = (om_ok m \<and> list_all (\<lambda>(_, v). dumpable v) m)"
| "dumpable _ = True"

lemma dumpable_int:
  assumes "dumpable (Number x)"
  obtains n where "x = of_int n" "\<bar>n\<bar> < 2 ^ 63" "to_double n = of_int n" "dump (Number x) = show_int n"
proof -
  define n where "n = trunc_rat x"
  from assms have x: "x = of_int n" and d: "to_double n = of_int n"
    and b: "- 9223372036854774784 \<le> x" "x \<le> 9223372036854774784"
    by (simp_all add: n_def)
  have "- 9223372036854774784 \<le> n" "n \<le> 9223372036854774784"
    using b unfolding x by linarith+
  then have "\<bar>n\<bar> < 2 ^ 63" by simp
  moreover from this have "dump (Number x) = show_int n"
    using b x by (simp add: dump_number_def)
  ultimately show ?thesis using that x d by blast
qed

lemma show_int_hd: "\<exists>c cs. show_int n = c # cs \<and> (c = CHR ''-'' \<or> is_digit c)"
  by (rule show_nat_cases [of "nat \<bar>n\<bar>"]) (auto simp: show_int_def)

lemma digit_range: "is_digit c \<Longrightarrow>
   c \<noteq> QUOTE \<and> c \<noteq> CHR ''{'' \<and> c \<noteq> CHR ''['' \<and> c \<noteq> CHR ''t'' \<and> c \<noteq> CHR ''f'' \<and> c \<noteq> CHR ''n'' \<and>
   c \<noteq> CHR '']'' \<and> c \<noteq> CHR ''}'' \<and> \<not> is_ws c"
  by (auto simp: is_digit_def is_ws_def)

lemma number_start:
  assumes "c = CHR ''-'' \<or> is_digit c"
  shows "\<not> is_ws c \<and> c \<noteq> QUOTE \<and> c \<noteq> CHR ''{'' \<and> c \<noteq> CHR ''['' \<and> c \<noteq> CHR ''t'' \<and>
      c \<noteq> CHR ''f'' \<and> c \<noteq> CHR ''n'' \<and> c \<noteq> CHR '']''"
  using assms
proof
  assume "c = CHR ''-''"
  then show ?thesis by (simp add: is_ws_def)
next
  assume "is_digit c"
  then show ?thesis using digit_range [of c] by blast
qed

lemma dump_hd:
  assumes "dumpable v"
  shows "\<exists>c cs. dump v = c # cs \<and> \<not> is_ws c \<and> c \<noteq> CHR '']''"
proof (cases v)
  case (Number x)
  with assms obtain n where "dump v = show_int n" using dumpable_int [of x] by metis
  then show ?thesis using show_int_hd [of n] number_start by metis
qed (simp_all add: is_ws_def escape_def)

lemma parse_number_value:
  assumes "\<bar>n\<bar> < 2 ^ 63" "to_double n = of_int n" "ends_number r"
  shows "parse_value (Suc m) (show_int n @ r) = Inr (Number (of_int n), r)"
proof -
  obtain c cs where c: "show_int n = c # cs" "c = CHR ''-'' \<or> is_digit c"
    using show_int_hd by blast
  have "parse_number (c # cs @ r) = Inr (of_int n, r)"
    using parse_number_show_int [OF assms(3,2,1)] c by simp
  with number_start [OF c(2)] show ?thesis
    unfolding c(1) append_Cons parse_value.simps
    by (simp only: skip_ws_Cons list.case if_False if_True c(2) simp_thms sum.case prod.case)
qed

lemma parse_value_escape: "parse_value (Suc m) (escape s @ r) = Inr (String s, r)"
proof -
  obtain t where t: "escape s @ r = QUOTE # t" by (simp add: escape_def)
  then have "parse_string (QUOTE # t) = Inr (s, r)"
    using parse_string_escape [of s r] by simp
  then show ?thesis by (simp add: t is_ws_def)
qed

lemma ends_number_sep [simp]: "ends_number (CHR '','' # r)" "ends_number (CHR '']'' # r)"
  "ends_number (CHR ''}'' # r)" "ends_number []"
  by (simp_all add: ends_number_def is_digit_def)

lemma join_Cons: "join sep (x # xs) = x @ (if xs = [] then [] else sep @ join sep xs)"
  by (cases xs) simp_all

definition reads_back :: "json \<Rightarrow> bool" where
  "reads_back v = (\<forall>n r. 2 * length (dump v) + 1 \<le> n \<longrightarrow> ends_number r \<longrightarrow>
     parse_value n (dump v @ r) = Inr (v, r))"

lemma reads_backD:
  "reads_back v \<Longrightarrow> 2 * length (dump v) + 1 \<le> n \<Longrightarrow> ends_number r \<Longrightarrow>
   parse_value n (dump v @ r) = Inr (v, r)"
  by (simp add: reads_back_def)

lemma elems_read_back:
  assumes "vs \<noteq> []" and "list_all reads_back vs"
    and "2 * length (join '','' (map dump vs)) + 2 \<le> n"
  shows "parse_elems n us (join '','' (map dump vs) @ CHR '']'' # r) = Inr (Array (us @ vs), r)"
  using assms
proof (induction vs arbitrary: n us)
  case (Cons v vs)
  then obtain m where n: "n = Suc m" by (cases n) auto
  have v: "parse_value m (dump v @ t) = Inr (v, t)" if "ends_number t" for t
    using Cons.prems n that by (intro reads_backD) (auto simp: join_Cons)
  show ?case
  proof (cases "vs = []")
    case True
    then show ?thesis using n v [of "CHR '']'' # r"] by (simp add: is_ws_def)
  next
    case False
    with Cons.prems n have "parse_elems m (us @ [v]) (join '','' (map dump vs) @ CHR '']'' # r) =
        Inr (Array ((us @ [v]) @ vs), r)"
      by (intro Cons.IH) (auto simp: join_Cons)
    then show ?thesis using n v [of "CHR '','' # join '','' (map dump vs) @ CHR '']'' # r"] False
      by (simp add: is_ws_def join_Cons)
  qed
qed simp

abbreviation dump_member :: "bytes \<times> json \<Rightarrow> bytes" where
  "dump_member \<equiv> \<lambda>(k, v). escape k @ CHR '':'' # dump v"

lemma length_escape: "2 \<le> length (escape s)"
  by (simp add: escape_def)

lemma skip_ws_escape [simp]: "skip_ws (escape k @ r) = escape k @ r"
  by (simp add: escape_def is_ws_def)

definition emplace_all :: "(bytes \<times> json) list \<Rightarrow> (bytes, json) omap \<Rightarrow> (bytes, json) omap" where
  "emplace_all kvs m = fold (\<lambda>(k, v). om_emplace k v) kvs m"

lemma emplace_all_simps [simp]:
  "emplace_all [] m = m" "emplace_all ((k, v) # kvs) m = emplace_all kvs (om_emplace k v m)"
  by (simp_all add: emplace_all_def)

lemma emplace_all_sorted: "om_ok (us @ vs) \<Longrightarrow> emplace_all vs us = us @ vs"
proof (induction vs arbitrary: us)
  case (Cons kv vs)
  obtain k v where kv: "kv = (k, v)" by force
  have "om_ok (us @ [(k, v)])"
    using Cons.prems kv om_ok_append1 [of "us @ [(k, v)]" vs] by simp
  then have "om_emplace k v us = us @ [(k, v)]" by (rule om_emplace_snoc)
  with Cons.IH [of "us @ [(k, v)]"] Cons.prems kv show ?case by simp
qed simp

text \<open>The first of two equal keys stays.\<close>

lemma emplace_all_get:
  "om_ok m \<Longrightarrow> om_ok (emplace_all kvs m) \<and>
   om_get (emplace_all kvs m) k = (case om_get m k of Some v \<Rightarrow> Some v | None \<Rightarrow> map_of kvs k)"
  by (induction kvs arbitrary: m) (auto split: option.splits)

lemma members_read_back:
  assumes "vs \<noteq> []" and "list_all (\<lambda>(k, v). reads_back v) vs"
    and "2 * length (join '','' (map dump_member vs)) + 2 \<le> n"
  shows "parse_members n us (join '','' (map dump_member vs) @ CHR ''}'' # r) = Inr (Object (emplace_all vs us), r)"
  using assms
proof (induction vs arbitrary: n us)
  case (Cons kv vs)
  obtain k v where kv: "kv = (k, v)" by force
  from Cons.prems obtain m where n: "n = Suc m" by (cases n) auto
  have v: "parse_value m (dump v @ t) = Inr (v, t)" if "ends_number t" for t
    using Cons.prems n kv that by (intro reads_backD) (auto simp: join_Cons)
  show ?case
  proof (cases "vs = []")
    case True
    then show ?thesis using n kv v [of "CHR ''}'' # r"] by (simp add: is_ws_def Let_def)
  next
    case False
    with Cons.prems n kv have "parse_members m (om_emplace k v us) (join '','' (map dump_member vs) @ CHR ''}'' # r) =
        Inr (Object (emplace_all vs (om_emplace k v us)), r)"
      by (intro Cons.IH) (auto simp: join_Cons)
    then show ?thesis using n kv v [of "CHR '','' # join '','' (map dump_member vs) @ CHR ''}'' # r"] False
      by (simp add: is_ws_def join_Cons Let_def)
  qed
qed simp

text \<open>A printed member list reads back as an object, whatever the order of its keys.\<close>

lemma object_read_back:
  assumes "m \<noteq> []" and "list_all (\<lambda>(k, v). reads_back v) m"
    and "2 * length (join '','' (map dump_member m)) + 3 \<le> n"
  shows "parse_value n (''{'' @ join '','' (map dump_member m) @ CHR ''}'' # r) = Inr (Object (emplace_all m []), r)"
proof -
  obtain j where n: "n = Suc j" using assms(3) by (cases n) auto
  obtain k v ws where "m = (k, v) # ws" using assms(1) by (cases m) auto
  then have "\<exists>u. join '','' (map dump_member m) @ CHR ''}'' # r = escape k @ u"
    by (simp add: join_Cons)
  then obtain u where u: "join '','' (map dump_member m) @ CHR ''}'' # r = escape k @ u" by blast
  have "skip_ws (join '','' (map dump_member m) @ CHR ''}'' # r) = join '','' (map dump_member m) @ CHR ''}'' # r"
    "hd (join '','' (map dump_member m) @ CHR ''}'' # r) \<noteq> CHR ''}''"
    unfolding u by simp_all (simp add: escape_def)
  then show ?thesis
    using members_read_back [of m j "[]" r] assms n by (simp add: is_ws_def Let_def)
qed

lemma parse_literals:
  "parse_value (Suc m) (''null'' @ r) = Inr (Null, r)"
  "parse_value (Suc m) (''true'' @ r) = Inr (Bool True, r)"
  "parse_value (Suc m) (''false'' @ r) = Inr (Bool False, r)"
  by (simp_all add: is_ws_def parse_literal_def literal_def starts_with_def)

lemma dump_reads_back: "dumpable v \<Longrightarrow> reads_back v"
proof (induction v)
  case Null
  show ?case unfolding reads_back_def
    by (metis Suc_le_D Suc_eq_plus1_left add.commute dump.simps(1) add_leD2 plus_1_eq_Suc parse_literals(1))
next
  case (Bool b)
  show ?case
    unfolding reads_back_def
  proof (intro allI impI)
    fix n r assume "2 * length (dump (Bool b)) + 1 \<le> n"
    then obtain m where "n = Suc m" by (cases n) auto
    then show "parse_value n (dump (Bool b) @ r) = Inr (Bool b, r)"
      using parse_literals by (cases b) simp_all
  qed
next
  case (Number x)
  then obtain k where k: "x = of_int k" "\<bar>k\<bar> < 2 ^ 63" "to_double k = of_int k" "dump (Number x) = show_int k"
    by (rule dumpable_int)
  show ?case
    unfolding reads_back_def
  proof (intro allI impI)
    fix n r assume "2 * length (dump (Number x)) + 1 \<le> n" and r: "ends_number r"
    then obtain m where "n = Suc m" by (cases n) auto
    then show "parse_value n (dump (Number x) @ r) = Inr (Number x, r)"
      using parse_number_value [OF k(2,3) r] k by simp
  qed
next
  case (String s)
  show ?case
    unfolding reads_back_def
  proof (intro allI impI)
    fix n r assume "2 * length (dump (String s)) + 1 \<le> n"
    then obtain m where n: "n = Suc m" by (cases n) auto
    then show "parse_value n (dump (String s) @ r) = Inr (String s, r)"
      by (simp only: dump.simps parse_value_escape)
  qed
next
  case (Array vs)
  then have vs: "list_all reads_back vs" "list_all dumpable vs" by (auto simp: list_all_iff)
  show ?case
    unfolding reads_back_def
  proof (intro allI impI)
    fix n r assume le: "2 * length (dump (Array vs)) + 1 \<le> n"
    then obtain m where n: "n = Suc m" by (cases n) auto
    show "parse_value n (dump (Array vs) @ r) = Inr (Array vs, r)"
    proof (cases vs)
      case Nil
      then show ?thesis using n by (simp add: is_ws_def)
    next
      case (Cons v ws)
      obtain c cs where "dump v = c # cs" "\<not> is_ws c" "c \<noteq> CHR '']''"
        using dump_hd [of v] vs(2) Cons by auto
      then have "skip_ws (join '','' (map dump vs) @ CHR '']'' # r) = join '','' (map dump vs) @ CHR '']'' # r"
        and "hd (join '','' (map dump vs) @ CHR '']'' # r) \<noteq> CHR '']''"
        using Cons by (simp_all add: join_Cons)
      then show ?thesis
        using elems_read_back [of vs m "[]" r] vs le n Cons by (simp add: is_ws_def Let_def)
    qed
  qed
next
  case (Object m)
  then have m: "list_all (\<lambda>(k, v). reads_back v) m" "om_ok m" by (auto simp: list_all_iff)
  show ?case
    unfolding reads_back_def
  proof (intro allI impI)
    fix n r assume le: "2 * length (dump (Object m)) + 1 \<le> n"
    then obtain j where n: "n = Suc j" by (cases n) auto
    show "parse_value n (dump (Object m) @ r) = Inr (Object m, r)"
    proof (cases "m = []")
      case True
      then show ?thesis using n by (simp add: is_ws_def)
    next
      case False
      then show ?thesis
        using object_read_back [of m n r] emplace_all_sorted [of "[]" m] m le by simp
    qed
  qed
qed

lemma parse_dump: "dumpable v \<Longrightarrow> parse (dump v) = Inr v"
proof -
  assume v: "dumpable v"
  then have "skip_ws (dump v) = dump v" using dump_hd [of v] by auto
  moreover have "parse_value (2 * length (dump v) + 2) (dump v) = Inr (v, [])"
    using reads_backD [OF dump_reads_back [OF v], of "2 * length (dump v) + 2" "[]"] by simp
  ultimately show ?thesis by (simp add: parse_def del: parse_value.simps)
qed

lemma dumpable_wf: "dumpable v \<Longrightarrow> wf_json v"
  by (induction v) (auto simp: list_all_iff)

lemma jfind_Nil [simp]: "jfind v [] = v"
  by (simp add: jfind.simps)

lemma jfind_Null [simp]: "jfind Null p = Null"
  by (cases p) (simp_all add: jfind.simps)

definition plain_key :: "bytes \<Rightarrow> bool" where
  "plain_key k = (k \<noteq> [] \<and> list_all (\<lambda>c. \<not> key_stop c) k)"

lemma plain_key_hd: "plain_key k \<Longrightarrow> \<exists>c p. k = c # p \<and> c \<noteq> CHR ''['' \<and> \<not> key_stop c"
  by (cases k) (auto simp: plain_key_def key_stop_def)

definition jget :: "json \<Rightarrow> bytes \<Rightarrow> json" where
  "jget v k = (case om_get (as_object v) k of None \<Rightarrow> Null | Some x \<Rightarrow> x)"

lemma key_split:
  assumes "list_all (\<lambda>c. \<not> key_stop c) k" and "t = [] \<or> key_stop (hd t)"
  shows "takeWhile (\<lambda>x. \<not> key_stop x) (k @ t) = k" "dropWhile (\<lambda>x. \<not> key_stop x) (k @ t) = t"
  using assms by (induction k) (cases t; simp)+

lemma jfind_key_step:
  assumes "plain_key k" and "t = [] \<or> key_stop (hd t)"
  shows "jfind v (k @ t) = jfind (jget v k) (skip_dot t)"
proof -
  obtain c p where k: "k = c # p" "c \<noteq> CHR ''[''" using plain_key_hd [OF assms(1)] by blast
  have tw: "takeWhile (\<lambda>x. \<not> key_stop x) (c # p @ t) = k" "dropWhile (\<lambda>x. \<not> key_stop x) (c # p @ t) = t"
    using key_split [of k t] assms k by (auto simp: plain_key_def)
  show ?thesis
    by (subst jfind.simps)
      (use k tw in \<open>auto simp: jget_def Let_def split: json.split option.split\<close>)
qed

lemma jfind_key: "plain_key k \<Longrightarrow> jfind v k = jget v k"
  using jfind_key_step [of k "[]" v] by (simp add: skip_dot_def)

lemma jfind_dot: "plain_key k \<Longrightarrow> jfind v (k @ CHR ''.'' # p) = jfind (jget v k) p"
  using jfind_key_step [of k "CHR ''.'' # p" v] by (simp add: skip_dot_def key_stop_def)

lemma jfind_bracket: "plain_key k \<Longrightarrow> jfind v (k @ CHR ''['' # p) = jfind (jget v k) (CHR ''['' # p)"
  using jfind_key_step [of k "CHR ''['' # p" v] by (simp add: skip_dot_def key_stop_def)

lemma stoul_show_nat: "n < 2 ^ 64 \<Longrightarrow> stoul (show_nat n) = Some n"
  using int_prefix_show_int [of "[]" "int n"] by (simp add: stoul_def show_int_def)

lemma jfind_index:
  assumes "n < 2 ^ 64"
  shows "jfind (Array vs) (CHR ''['' # show_nat n @ CHR '']'' # p) =
     (if n < length vs then jfind (vs ! n) (skip_dot p) else Null)"
proof -
  have "CHR '']'' \<notin> set (show_nat n)"
    using show_nat_all_digits [of n] digit_range [of "CHR '']''"] by blast
  then have "find_char (CHR '']'') (CHR ''['' # show_nat n @ CHR '']'' # p) = Some (Suc (length (show_nat n)))"
    by simp
  then show ?thesis
    by (subst jfind.simps) (simp add: substr_def stoul_show_nat [OF assms])
qed

section \<open>Properties\<close>

text \<open>C15: The serialiser and the parser are inverse: a value whose numbers are integral doubles
  up to 9223372036854774784 in magnitude (every file size, epoch and sequence number of the
  protocol) and whose objects are ordered maps is printed to a text that parses to the same
  value, whatever bytes its strings and keys hold.\<close>

theorem parse_dump_roundtrip: "dumpable v \<Longrightarrow> parse (dump v) = Inr v"
  by (rule parse_dump)

theorem parse_dump_roundtrip_witness:
  "parse (dump (Object [(''a'', Array [Number 7, Null]), (''b'', String (QUOTE # [LF]))])) =
   Inr (Object [(''a'', Array [Number 7, Null]), (''b'', String (QUOTE # [LF]))])"
proof -
  have "(7::rat) = of_int 7" by simp
  then have "trunc_rat 7 = 7" "to_double 7 = (7::rat)"
    using trunc_rat_of_int [of 7] to_double_small [of 7] by simp_all
  then show ?thesis
    by (intro parse_dump_roundtrip) (simp add: om_ok_def)
qed

text \<open>C33: The parser answers on every input: the fuel the entry point gives is never used up, so
  the answer is an error text or a value, and in a value every object is an ordered map with
  distinct keys.\<close>

theorem parse_total: "(\<exists>e. parse s = Inl (Perr e)) \<or> (\<exists>v. parse s = Inr v \<and> wf_json v)"
proof (cases "parse s")
  case (Inl e)
  then show ?thesis using parse_fuel [of s] by (cases e) auto
qed (auto dest: parse_wf)

text \<open>Path lookup goes component by component: a key without stop characters selects a member,
  a dot or a bracket continues in it, and a bracketed decimal index selects an array element, a
  miss at any point giving null.\<close>

theorem jfind_path:
  assumes "plain_key k" and "n < 2 ^ 64"
  shows "jfind v (k @ CHR ''.'' # p) = jfind (jget v k) p \<and>
     jfind v (k @ CHR ''['' # p) = jfind (jget v k) (CHR ''['' # p) \<and>
     jfind v k = jget v k \<and>
     jfind (Array vs) (CHR ''['' # show_nat n @ CHR '']'' # q) =
      (if n < length vs then jfind (vs ! n) (skip_dot q) else Null)"
  using jfind_dot jfind_bracket jfind_key jfind_index assms by blast

theorem jfind_path_witness:
  "jfind (Object [(''print'', Object [(''ams'', Array [Null, Bool True])])]) ''print.ams'' =
     jfind (Object [(''ams'', Array [Null, Bool True])]) ''ams''"
  using jfind_path [of "''print''" 0 "Object [(''print'', Object [(''ams'', Array [Null, Bool True])])]" "''ams''"]
  by (simp add: plain_key_def key_stop_def jget_def om_get_def)

section \<open>Well-formed values\<close>

lemma wf_jfind: "wf_json v \<Longrightarrow> wf_json (jfind v p)"
proof (induction v p rule: jfind.induct)
  case (1 cur path)
  show ?case
  proof (cases path)
    case (Cons c p)
    note IH = "1.IH" [OF Cons]
    show ?thesis
    proof (cases cur)
      case (Array vs)
      then have "wf_json (vs ! i)" if "i < length vs" for i using "1.prems" that by (simp add: list_all_length)
      then show ?thesis
        using Array Cons IH(1) by (subst jfind.simps) (auto split: option.splits)
    next
      case (Object m)
      then have "wf_json v" if "om_get m k = Some v" for k v
        using "1.prems" om_get_in_set [OF that] by (auto simp: list_all_iff)
      then show ?thesis
        using Object Cons IH(2) by (subst jfind.simps) (auto simp: Let_def split: option.splits)
    qed (simp_all add: Cons jfind.simps Let_def split: option.splits)
  qed (use "1.prems" in simp)
qed



end
