(* ===== verification/Tls_Io.thy ===== *)
theory Tls_Io
  imports Prelude
begin

text \<open>
  The TLS byte stream as the sources use it: \<open>ssl_write_all\<close> and \<open>ssl_read_full\<close> of
  \<open>src/tls_dial.cpp\<close> and \<open>read_some\<close> of \<open>src/tunnel_local.cpp\<close>.

  OpenSSL and the socket are the environment: a connection carries the outcomes the next
  calls of \<open>SSL_read\<close> and \<open>SSL_write\<close> will have, in order, and the bytes sent so far.
  Every lemma holds for all scripts. An exhausted read script blocks, an exhausted write
  script accepts everything. The pointer arguments are never null in the model.
\<close>

datatype ssl_read = Rdata bytes | Rwant | Rclosed | Rerror

datatype ssl_write = Wsent nat | Wblock bool | Werror

record conn =
  rd :: "ssl_read list"
  wr :: "ssl_write list"
  tx :: bytes

text \<open>
  One \<open>SSL_write\<close> of a non-empty buffer sends at least one byte; \<open>Wblock b\<close> is
  \<open>WANT_READ\<close> or \<open>WANT_WRITE\<close> followed by a poll of the socket that finds it ready iff \<open>b\<close>.
\<close>

function ssl_write_all :: "bytes \<Rightarrow> conn \<Rightarrow> bool \<times> conn" where
  "ssl_write_all buf c =
     (if buf = [] then (True, c)
      else case wr c of
        [] \<Rightarrow> (True, c\<lparr>tx := tx c @ buf\<rparr>)
      | w # ws \<Rightarrow>
          (case w of
             Wsent n \<Rightarrow>
               let k = max 1 (min n (length buf)) in
               ssl_write_all (drop k buf) (c\<lparr>wr := ws, tx := tx c @ take k buf\<rparr>)
           | Wblock True \<Rightarrow> ssl_write_all buf (c\<lparr>wr := ws\<rparr>)
           | Wblock False \<Rightarrow> (False, c\<lparr>wr := ws\<rparr>)
           | Werror \<Rightarrow> (False, c\<lparr>wr := ws\<rparr>)))"
  by pat_completeness auto
termination
  by (relation "measure (\<lambda>(buf, c). length (wr c))") auto

declare ssl_write_all.simps [simp del]

text \<open>\<open>read_some\<close>: the bytes read, or the negative codes (\<open>0\<close> closed, \<open>-2\<close> would block).\<close>

datatype read_result = Got bytes | Closed | Would_block | Read_error

definition read_some :: "nat \<Rightarrow> conn \<Rightarrow> read_result \<times> conn" where
  "read_some cap c =
     (case rd c of
        [] \<Rightarrow> (Would_block, c)
      | r # rs \<Rightarrow>
          (case r of
             Rdata bs \<Rightarrow>
               if bs = [] then (Closed, c\<lparr>rd := rs\<rparr>)
               else if length bs \<le> cap then (Got bs, c\<lparr>rd := rs\<rparr>)
               else (Got (take cap bs), c\<lparr>rd := Rdata (drop cap bs) # rs\<rparr>)
           | Rwant \<Rightarrow> (Would_block, c\<lparr>rd := rs\<rparr>)
           | Rclosed \<Rightarrow> (Closed, c\<lparr>rd := rs\<rparr>)
           | Rerror \<Rightarrow> (Read_error, c\<lparr>rd := rs\<rparr>)))"

text \<open>
  \<open>ssl_read_full\<close> spins while the stream blocks; it returns when the script says how the
  wait ends, and \<open>None\<close> stands for the wait that has no end in the script. The result
  is \<open>0\<close> with the bytes, \<open>1\<close> on an orderly close, \<open>-1\<close> on an error.
\<close>

function ssl_read_full :: "nat \<Rightarrow> bytes \<Rightarrow> conn \<Rightarrow> (int \<times> bytes \<times> conn) option" where
  "ssl_read_full len got c =
     (if len \<le> length got then Some (0, got, c)
      else case rd c of
        [] \<Rightarrow> None
      | r # rs \<Rightarrow>
          (case r of
             Rdata bs \<Rightarrow>
               if bs = [] then Some (1, got, c\<lparr>rd := rs\<rparr>)
               else if length bs \<le> len - length got then ssl_read_full len (got @ bs) (c\<lparr>rd := rs\<rparr>)
               else Some (0, got @ take (len - length got) bs, c\<lparr>rd := Rdata (drop (len - length got) bs) # rs\<rparr>)
           | Rwant \<Rightarrow> ssl_read_full len got (c\<lparr>rd := rs\<rparr>)
           | Rclosed \<Rightarrow> Some (1, got, c\<lparr>rd := rs\<rparr>)
           | Rerror \<Rightarrow> Some (-1, got, c\<lparr>rd := rs\<rparr>)))"
  by pat_completeness auto
termination
  by (relation "measure (\<lambda>(len, got, c). length (rd c))") auto

declare ssl_read_full.simps [simp del]

lemma ssl_write_all_cases:
  "ssl_write_all [] c = (True, c)"
  "buf \<noteq> [] \<Longrightarrow> wr c = [] \<Longrightarrow> ssl_write_all buf c = (True, c\<lparr>tx := tx c @ buf\<rparr>)"
  "buf \<noteq> [] \<Longrightarrow> wr c = Wsent n # ws \<Longrightarrow> k = max 1 (min n (length buf)) \<Longrightarrow>
     ssl_write_all buf c = ssl_write_all (drop k buf) (c\<lparr>wr := ws, tx := tx c @ take k buf\<rparr>)"
  "buf \<noteq> [] \<Longrightarrow> wr c = Wblock True # ws \<Longrightarrow> ssl_write_all buf c = ssl_write_all buf (c\<lparr>wr := ws\<rparr>)"
  "buf \<noteq> [] \<Longrightarrow> wr c = Wblock False # ws \<Longrightarrow> ssl_write_all buf c = (False, c\<lparr>wr := ws\<rparr>)"
  "buf \<noteq> [] \<Longrightarrow> wr c = Werror # ws \<Longrightarrow> ssl_write_all buf c = (False, c\<lparr>wr := ws\<rparr>)"
  by (subst ssl_write_all.simps; simp add: Let_def)+

text \<open>A write sends the whole buffer or, when it fails, a proper part from its start.\<close>

lemma ssl_write_all_spec:
  "\<exists>p q. buf = p @ q \<and> tx (snd (ssl_write_all buf c)) = tx c @ p \<and>
     rd (snd (ssl_write_all buf c)) = rd c \<and> (fst (ssl_write_all buf c) \<longleftrightarrow> q = [])"
proof (induction "wr c" arbitrary: buf c)
  case Nil
  then show ?case by (cases "buf = []") (auto simp: ssl_write_all_cases)
next
  case (Cons w ws)
  show ?case
  proof (cases "buf = []")
    case True
    then show ?thesis by (simp add: ssl_write_all_cases)
  next
    case False
    show ?thesis
    proof (cases w)
      case (Wsent n)
      define k where "k = max 1 (min n (length buf))"
      let ?c = "c\<lparr>wr := ws, tx := tx c @ take k buf\<rparr>"
      have "\<exists>p q. drop k buf = p @ q \<and> tx (snd (ssl_write_all (drop k buf) ?c)) = (tx c @ take k buf) @ p \<and>
        rd (snd (ssl_write_all (drop k buf) ?c)) = rd c \<and> (fst (ssl_write_all (drop k buf) ?c) \<longleftrightarrow> q = [])"
        using Cons.hyps(1) [of ?c "drop k buf"] by simp
      then obtain p q where "drop k buf = p @ q" "tx (snd (ssl_write_all (drop k buf) ?c)) = (tx c @ take k buf) @ p"
        "rd (snd (ssl_write_all (drop k buf) ?c)) = rd c" "fst (ssl_write_all (drop k buf) ?c) \<longleftrightarrow> q = []"
        by blast
      moreover have "ssl_write_all buf c = ssl_write_all (drop k buf) ?c"
        using ssl_write_all_cases(3) [OF False _ k_def] Cons.hyps(2) Wsent by simp
      ultimately show ?thesis
        by (metis append.assoc append_take_drop_id)
    next
      case (Wblock b)
      have "\<exists>p q. buf = p @ q \<and> tx (snd (ssl_write_all buf (c\<lparr>wr := ws\<rparr>))) = tx c @ p \<and>
          rd (snd (ssl_write_all buf (c\<lparr>wr := ws\<rparr>))) = rd c \<and>
          (fst (ssl_write_all buf (c\<lparr>wr := ws\<rparr>)) \<longleftrightarrow> q = [])"
        using Cons.hyps(1) [of "c\<lparr>wr := ws\<rparr>" buf] by simp
      with Wblock Cons.hyps(2) [symmetric] False show ?thesis
        by (cases b) (simp_all add: ssl_write_all_cases)
    next
      case Werror
      with Cons.hyps(2) [symmetric] False show ?thesis
        by (simp add: ssl_write_all_cases)
    qed
  qed
qed

lemma ssl_write_all_ok: "ssl_write_all buf c = (True, c') \<Longrightarrow> tx c' = tx c @ buf \<and> rd c' = rd c"
  using ssl_write_all_spec [of buf c] by auto

lemma ssl_write_all_fail:
  "ssl_write_all buf c = (False, c') \<Longrightarrow> \<exists>p q. buf = p @ q \<and> q \<noteq> [] \<and> tx c' = tx c @ p \<and> rd c' = rd c"
  using ssl_write_all_spec [of buf c] by auto

lemma ssl_write_all_rd [simp]: "rd (snd (ssl_write_all buf c)) = rd c"
  using ssl_write_all_spec [of buf c] by auto

lemma read_some_tx [simp]: "tx (snd (read_some cap c)) = tx c"
  by (auto simp: read_some_def split: list.split ssl_read.split)

end
