(* ===== verification/Tunnel_Local.thy ===== *)
theory Tunnel_Local
  imports Json_Laws Tls_Io
begin

text \<open>
  The wire protocol of \<open>src/tunnel_local.cpp\<close> and \<open>include/obn/tunnel_local.hpp\<close>:
  16-byte frame headers, the login and setup payloads, the request bodies, the reply
  parsers, the frame scanner, and the session object with its handshake.

  \<open>None\<close> as the result of a scan of the receive buffer is the copy that runs past the
  buffer when the 32-bit sum \<open>16 + payload_len\<close> wraps (\<open>scan_frame\<close>). Sessions are
  single-threaded here: the mutexes serialise the operations, each of which is one step.
\<close>

unbundle bit_operations_syntax

section \<open>Constants and data\<close>

definition kMagicLoginClient :: u32 where "kMagicLoginClient = 0x0101013F"
definition kMagicLoginServer :: u32 where "kMagicLoginServer = 0x0001013F"
definition kMagicCtrlClient :: u32 where "kMagicCtrlClient = 0x0102013F"
definition kMtypeCtrlSetup :: int where "kMtypeCtrlSetup = 12291"
definition kMtypeCtrlJson :: int where "kMtypeCtrlJson = 12289"

definition kCmdMediaAbility :: int where "kCmdMediaAbility = 7"
definition kCmdFileUpload :: int where "kCmdFileUpload = 5"
definition kCmdFileDownload :: int where "kCmdFileDownload = 4"
definition kCmdFileDel :: int where "kCmdFileDel = 3"
definition kCmdSubFile :: int where "kCmdSubFile = 2"
definition kCmdListInfo :: int where "kCmdListInfo = 1"

record frame_header =
  payload_len :: u32
  magic :: u32
  seq :: u32

record config =
  username :: bytes
  access_code :: bytes
  client_id :: bytes
  client_ver :: bytes

datatype handshake_phase = NotStarted | LoginSent | SetupSent | Ready | Failed

section \<open>Frame headers and payloads\<close>

definition byte_at :: "u32 \<Rightarrow> nat \<Rightarrow> char" where
  "byte_at v k = char_of (unat (drop_bit (8 * k) v AND 0xFF))"

definition write_u32_le :: "u32 \<Rightarrow> bytes" where
  "write_u32_le v = [byte_at v 0, byte_at v 1, byte_at v 2, byte_at v 3]"

definition byte_word :: "bytes \<Rightarrow> nat \<Rightarrow> u32" where
  "byte_word src k = push_bit (8 * k) (word_of_nat (code_of (src ! k)))"

definition read_u32_le :: "bytes \<Rightarrow> u32" where
  "read_u32_le src = byte_word src 0 OR byte_word src 1 OR byte_word src 2 OR byte_word src 3"

definition ascii_field :: "bytes \<Rightarrow> nat \<Rightarrow> bytes" where
  "ascii_field s width = take width s @ replicate (width - length s) (CHR 0x00)"

definition build_frame_header :: "u32 \<Rightarrow> u32 \<Rightarrow> u32 \<Rightarrow> bytes" where
  "build_frame_header len mag sq =
     write_u32_le len @ write_u32_le mag @ write_u32_le sq @ replicate 4 (CHR 0x00)"

definition parse_frame_header :: "bytes \<Rightarrow> frame_header option" where
  "parse_frame_header data =
     (if length data < 16 then None
      else Some \<lparr>payload_len = read_u32_le data, magic = read_u32_le (drop 4 data),
                 seq = read_u32_le (drop 8 data)\<rparr>)"

definition build_login_payload :: "bytes \<Rightarrow> bytes \<Rightarrow> bytes" where
  "build_login_payload user code = ascii_field user 8 @ ascii_field code 8"

section \<open>Request bodies\<close>

text \<open>\<open>obj["k"] = v\<close> statements in source order, and integers stored as \<open>double\<close>.\<close>

definition jobject :: "(bytes \<times> json) list \<Rightarrow> json" where
  "jobject kvs = Object (fold (\<lambda>(k, v). om_put k v) kvs [])"

definition jint :: "int \<Rightarrow> json" where
  "jint n = Number (to_double n)"

definition jopt :: "bytes \<Rightarrow> bytes \<Rightarrow> (bytes \<times> json) list" where
  "jopt k s = (if s = [] then [] else [(k, String s)])"

definition abi_request :: "int \<Rightarrow> u32 \<Rightarrow> (bytes \<times> json) list \<Rightarrow> bytes" where
  "abi_request cmd sq req =
     dump (jobject [(''cmdtype'', jint cmd), (''sequence'', jint (uint sq)), (''req'', jobject req)])"

definition build_setup_json :: "bytes \<Rightarrow> bytes \<Rightarrow> bytes" where
  "build_setup_json cid ver =
     dump (jobject
       [(''sequence'', jint 0), (''mtype'', jint kMtypeCtrlSetup),
        (''req'', jobject [(''t_av'', jint 1), (''mtype'', jint kMtypeCtrlJson), (''peer_t'', jint 3),
                           (''pid'', String cid), (''ver'', String ver)])])"

definition build_media_ability_abi :: "u32 \<Rightarrow> bytes" where
  "build_media_ability_abi sq =
     abi_request kCmdMediaAbility sq [(''peer'', String ''studio''), (''api_version'', jint 2)]"

definition build_file_upload_init_abi :: "u32 \<Rightarrow> bytes \<Rightarrow> bytes \<Rightarrow> u64 \<Rightarrow> bytes" where
  "build_file_upload_init_abi sq storage name tot =
     abi_request kCmdFileUpload sq
       ([(''type'', String ''model''), (''path'', String name), (''total'', jint (uint tot))]
        @ jopt ''storage'' storage)"

definition build_file_delete_abi :: "u32 \<Rightarrow> bytes \<Rightarrow> bytes \<Rightarrow> bytes" where
  "build_file_delete_abi sq storage name =
     abi_request kCmdFileDel sq
       ([(''delete'', Array [String name])] @ jopt ''storage'' storage)"

definition build_file_download_abi :: "u32 \<Rightarrow> bytes \<Rightarrow> u64 \<Rightarrow> bytes \<Rightarrow> bytes" where
  "build_file_download_abi sq path offset target =
     abi_request kCmdFileDownload sq
       ([(''path'', String path), (''offset'', jint (uint offset))] @ jopt ''target_path'' target)"

definition build_sub_file_abi :: "u32 \<Rightarrow> bytes list \<Rightarrow> bytes \<Rightarrow> bytes" where
  "build_sub_file_abi sq paths storage =
     abi_request kCmdSubFile sq
       ([(''paths'', Array (map String paths)), (''api_version'', jint 2), (''peer'', String ''studio'')]
        @ jopt ''storage'' storage)"

definition build_list_info_abi :: "u32 \<Rightarrow> bytes \<Rightarrow> bytes \<Rightarrow> bytes" where
  "build_list_info_abi sq type storage =
     abi_request kCmdListInfo sq
       ([(''type'', String type), (''api_version'', jint 2), (''notify'', String ''DETAIL'')]
        @ jopt ''storage'' storage)"

definition build_file_upload_chunk_abi :: "u32 \<Rightarrow> u32 \<Rightarrow> u64 \<Rightarrow> u32 \<Rightarrow> bytes \<Rightarrow> bytes" where
  "build_file_upload_chunk_abi sq frag_id offset sz md5 =
     abi_request kCmdFileUpload sq
       ([(''frag_id'', jint (uint frag_id)), (''offset'', jint (uint offset)), (''size'', jint (uint sz))]
        @ jopt ''file_md5'' md5)"

definition build_file_upload_abi :: "u32 \<Rightarrow> bytes \<Rightarrow> bytes \<Rightarrow> u64 \<Rightarrow> bytes \<Rightarrow> bytes" where
  "build_file_upload_abi sq storage name sz md5 =
     (let path = (if storage = [] then [SLASH]
                  else if last (SLASH # storage) \<noteq> SLASH then SLASH # storage @ [SLASH]
                  else SLASH # storage) in
      abi_request kCmdFileUpload sq
        ([(''path'', String path), (''file'', String name), (''size'', jint (uint sz)), (''md5'', String md5)]
         @ jopt ''storage'' storage @ [(''peer'', String ''studio''), (''api_version'', jint 3)]))"

definition is_trailing_ws :: "char \<Rightarrow> bool" where
  "is_trailing_ws c = (c = LF \<or> c = CR \<or> c = BLANK \<or> c = TAB)"

definition mtype_prefix :: bytes where
  "mtype_prefix = CHR ''{'' # QUOTE # ''mtype'' @ [QUOTE]"

definition wrap_ctrl_abi :: "bytes \<Rightarrow> bytes" where
  "wrap_ctrl_abi abi =
     (if abi = [] then abi
      else let trimmed = rtrim_by is_trailing_ws abi in
        if starts_with mtype_prefix trimmed then abi
        else if trimmed \<noteq> [] \<and> hd trimmed = CHR ''{'' then
          mtype_prefix @ '':'' @ show_int kMtypeCtrlJson @ '','' @ tl trimmed
        else abi)"

definition wrap_ctrl_abi_with_binary :: "bytes \<Rightarrow> bytes \<Rightarrow> bytes" where
  "wrap_ctrl_abi_with_binary abi bin =
     (let wire = wrap_ctrl_abi abi in if bin \<noteq> [] then wire @ [LF, LF] @ bin else wire)"

text \<open>
  \<open>split_json_prefix\<close>: \<open>json_end\<close> counts the bytes up to and with the brace that
  closes the object; the flags are \<open>in_str\<close> and \<open>esc\<close>.
\<close>

fun json_end :: "nat \<Rightarrow> bool \<Rightarrow> bool \<Rightarrow> bytes \<Rightarrow> nat option" where
  "json_end depth in_str esc [] = None"
| "json_end depth in_str esc (c # cs) =
     map_option Suc
       (if in_str then
          (if esc then json_end depth True False cs
           else if c = BSLASH then json_end depth True True cs
           else if c = QUOTE then json_end depth False False cs
           else json_end depth True False cs)
        else if c = QUOTE then json_end depth True esc cs
        else if c = CHR ''{'' then json_end (Suc depth) False esc cs
        else if c = CHR ''}'' then
          (if depth = 1 then Some 0 else json_end (depth - 1) False esc cs)
        else json_end depth False esc cs)"

definition strip_separator :: "bytes \<Rightarrow> bytes" where
  "strip_separator s =
     (if starts_with [LF, LF] s then drop 2 s
      else if starts_with [CR, LF, CR, LF] s then drop 4 s
      else s)"

definition split_json_prefix :: "bytes \<Rightarrow> (bytes \<times> bytes) option" where
  "split_json_prefix data =
     (if data = [] \<or> hd data \<noteq> CHR ''{'' then None
      else case json_end 0 False False data of
        None \<Rightarrow> None
      | Some i \<Rightarrow> Some (take i data, strip_separator (drop i data)))"

section \<open>Replies\<close>

definition parse_wire_int :: "bytes \<Rightarrow> bytes \<Rightarrow> int" where
  "parse_wire_int field wire =
     (case parse_opt wire of None \<Rightarrow> -1 | Some doc \<Rightarrow> narrow_i32 (as_int (-1) (jfind doc field)))"

definition parse_wire_result :: "bytes \<Rightarrow> int" where
  "parse_wire_result wire = parse_wire_int ''result'' wire"

definition parse_wire_cmdtype :: "bytes \<Rightarrow> int" where
  "parse_wire_cmdtype wire = parse_wire_int ''cmdtype'' wire"

definition parse_wire_sequence :: "bytes \<Rightarrow> int" where
  "parse_wire_sequence wire = parse_wire_int ''sequence'' wire"

definition parse_wire_reply_json :: "bytes \<Rightarrow> bytes" where
  "parse_wire_reply_json wire =
     (case parse_opt wire of None \<Rightarrow> []
      | Some doc \<Rightarrow> let reply = jfind doc ''reply'' in if is_object reply then dump reply else [])"

text \<open>The first component is \<open>*result_code\<close>, the second \<open>*chunk_size_kb\<close> and \<open>*offset\<close>.\<close>

definition parse_upload_init_reply :: "bytes \<Rightarrow> int \<times> (u32 \<times> u64) option" where
  "parse_upload_init_reply wire =
     (let rc = parse_wire_result wire in
      (rc,
       if rc \<noteq> 1 \<and> rc \<noteq> 19 then None
       else case parse_opt wire of None \<Rightarrow> None
         | Some doc \<Rightarrow>
             let reply = jfind doc ''reply'' in
             if \<not> is_object reply then None
             else let kb = word_of_int (as_int 0 (jfind reply ''chunk_size'')) :: u32 in
               if kb = 0 then None
               else Some (kb, word_of_int (as_int 0 (jfind reply ''offset'')))))"

text \<open>\<open>pick_array\<close>: a key that holds an array replaces the storages seen so far.\<close>

definition pick_array :: "json \<Rightarrow> bytes \<Rightarrow> json list \<Rightarrow> json list" where
  "pick_array obj k cur = (let v = jfind obj k in if is_array v then as_array v else cur)"

definition ability_storages :: "json \<Rightarrow> json list" where
  "ability_storages reply =
     (let s1 = pick_array reply ''storage'' [];
          s2 = (if s1 = [] then pick_array reply ''storage_list'' s1 else s1);
          s3 = (if s2 = [] then pick_array reply ''storages'' s2 else s2)
      in if s3 = [] then
           (let ab = jfind reply ''ability'' in
            if is_object ab then pick_array ab ''storage'' s3 else s3)
         else s3)"

definition quote_storage :: "bytes \<Rightarrow> bytes" where
  "quote_storage s = QUOTE # concat (map (\<lambda>c. if c = QUOTE then [BSLASH, QUOTE] else [c]) s) @ [QUOTE]"

definition parse_ability_reply_to_ft_json :: "bytes \<Rightarrow> bytes" where
  "parse_ability_reply_to_ft_json wire =
     (case parse_opt wire of None \<Rightarrow> []
      | Some doc \<Rightarrow>
          if narrow_i32 (as_int (-1) (jfind doc ''result'')) \<noteq> 0 then []
          else let reply = jfind doc ''reply'' in
            if \<not> is_object reply then []
            else let storages = ability_storages reply in
              if storages = [] then []
              else ''['' @ join '','' (map (\<lambda>v. quote_storage (as_string v)) storages) @ '']'')"

definition pick_progress :: "json \<Rightarrow> rat" where
  "pick_progress obj =
     (if \<not> is_object obj then -1
      else let v = jfind obj ''progress'' in if is_number v then as_number 0 v else -1)"

text \<open>With a \<open>result_code\<close> pointer: the code and the progress.\<close>

definition parse_upload_progress_value :: "bytes \<Rightarrow> int \<times> rat" where
  "parse_upload_progress_value wire =
     (let rc = parse_wire_result wire in
      (rc,
       if rc < 0 then -1
       else case parse_opt wire of None \<Rightarrow> -1
         | Some doc \<Rightarrow>
             let p = pick_progress (jfind doc ''reply'') in if p < 0 then pick_progress doc else p))"

definition parse_upload_progress :: "bytes \<Rightarrow> int \<times> int" where
  "parse_upload_progress wire =
     (let (rc, v) = parse_upload_progress_value wire in
      (rc, if v < 0 then -1 else cast_i32 (dround (v + 1 / 2))))"

section \<open>Headers\<close>

lemma byte_word_byte_at:
  "push_bit n (word_of_nat (code_of (byte_at v k)) :: u32) = push_bit n (drop_bit (8 * k) v AND 0xFF)"
proof -
  have "drop_bit (8 * k) v AND 0xFF \<le> (0xFF :: u32)"
    by (rule word_and_le1)
  then have "unat (drop_bit (8 * k) v AND 0xFF) \<le> unat (0xFF :: u32)"
    by (simp only: word_le_nat_alt)
  then show ?thesis by (simp add: byte_at_def)
qed

lemma read_write_u32 [simp]: "read_u32_le (write_u32_le v @ r) = v"
proof -
  have m: "(0xFF :: u32) = mask 8" by (simp add: mask_eq_exp_minus_1)
  have "read_u32_le (write_u32_le v @ r) =
      (drop_bit 0 v AND mask 8) OR push_bit 8 (drop_bit 8 v AND mask 8) OR
      push_bit 16 (drop_bit 16 v AND mask 8) OR push_bit 24 (drop_bit 24 v AND mask 8)"
    using byte_word_byte_at [of 0 v 0] byte_word_byte_at [of 8 v 1] byte_word_byte_at [of 16 v 2]
      byte_word_byte_at [of 24 v 3]
    by (simp add: read_u32_le_def write_u32_le_def byte_word_def m)
  also have "\<dots> = v"
  proof (rule bit_word_eqI)
    fix n assume "n < LENGTH(32)"
    then consider "n < 8" | "8 \<le> n \<and> n < 16" | "16 \<le> n \<and> n < 24" | "24 \<le> n \<and> n < 32"
      by fastforce
    then show "bit ((drop_bit 0 v AND mask 8) OR push_bit 8 (drop_bit 8 v AND mask 8) OR
        push_bit 16 (drop_bit 16 v AND mask 8) OR push_bit 24 (drop_bit 24 v AND mask 8)) n \<longleftrightarrow> bit v n"
      by cases (simp_all add: bit_simps, auto)
  qed
  finally show ?thesis .
qed

lemma length_write_u32 [simp]: "length (write_u32_le v) = 4"
  by (simp add: write_u32_le_def)

lemma length_frame_header [simp]: "length (build_frame_header n m q) = 16"
  by (simp add: build_frame_header_def)

lemma parse_build_frame_header [simp]:
  "parse_frame_header (build_frame_header n m q @ r) = Some \<lparr>payload_len = n, magic = m, seq = q\<rparr>"
  by (simp add: parse_frame_header_def build_frame_header_def)

lemma length_ascii_field [simp]: "length (ascii_field s w) = w"
  by (simp add: ascii_field_def)

section \<open>Request bodies parse back\<close>

lemma jobject_get: "om_ok (as_object (jobject kvs)) \<and> om_get (as_object (jobject kvs)) k = map_of (rev kvs) k"
  using om.ok_puts [of "[]" kvs] om.get_puts [of "[]" kvs k]
  by (auto simp: jobject_def split: option.splits)

lemma jget_jobject: "jget (jobject kvs) k = (case map_of (rev kvs) k of None \<Rightarrow> Null | Some v \<Rightarrow> v)"
  using jobject_get [of kvs k] by (simp add: jget_def)

lemma list_all_om_put: "list_all P m \<Longrightarrow> P (k, v) \<Longrightarrow> list_all P (om_put k v m)"
  by (induction k v m rule: om_put.induct) auto

lemma dumpable_jobject: "list_all (\<lambda>(_, v). dumpable v) kvs \<Longrightarrow> dumpable (jobject kvs)"
proof -
  have "list_all (\<lambda>(_, v). dumpable v) (fold (\<lambda>(k, v). om_put k v) kvs m)"
    if "list_all (\<lambda>(_, v). dumpable v) kvs" "list_all (\<lambda>(_, v). dumpable v) m" for m
    using that by (induction kvs arbitrary: m) (auto simp: list_all_om_put)
  moreover have "om_ok (fold (\<lambda>(k, v). om_put k v) kvs [])"
    by (rule om.ok_puts) simp
  ultimately show "list_all (\<lambda>(_, v). dumpable v) kvs \<Longrightarrow> ?thesis"
    by (simp add: jobject_def)
qed

lemma dumpable_jint: "\<bar>n\<bar> < 2 ^ 53 \<Longrightarrow> dumpable (jint n)"
  by (simp add: jint_def to_double_small) linarith

lemma jint_Number: "\<bar>n\<bar> < 2 ^ 53 \<Longrightarrow> jint n = Number (of_int n)"
  by (simp add: jint_def to_double_small)

lemma dump_jint: "\<bar>n\<bar> < 2 ^ 53 \<Longrightarrow> dump (jint n) = show_int n"
  using dumpable_int [of "of_int n"] dumpable_jint [of n] by (auto simp: jint_Number)

lemma uint_u32_small [simp]: "\<bar>uint (w :: u32)\<bar> < 2 ^ 53"
  using uint_lt2p [of w] uint_ge_0 [of w] by simp

lemma dumpable_jopt: "list_all (\<lambda>(_, v). dumpable v) (jopt k s)"
  by (simp add: jopt_def)

section \<open>The wire form of a request\<close>

definition wire_members :: "(bytes, json) omap \<Rightarrow> (bytes \<times> json) list" where
  "wire_members m = (if m \<noteq> [] \<and> fst (hd m) = ''mtype'' then m else (''mtype'', jint kMtypeCtrlJson) # m)"

lemma escape_prefix:
  "starts_with (escape k) (escape k' @ CHR '':'' # r) \<Longrightarrow> k = k'"
proof -
  assume "starts_with (escape k) (escape k' @ CHR '':'' # r)"
  then obtain t where t: "escape k' @ CHR '':'' # r = escape k @ t"
    by (auto simp: starts_with_iff)
  then have "parse_string (escape k' @ CHR '':'' # r) = parse_string (escape k @ t)" by simp
  then show "k = k'" by simp
qed

lemma escape_mtype: "mtype_prefix = CHR ''{'' # escape ''mtype''"
  by (simp add: mtype_prefix_def escape_def escape_char_def)

lemma dump_object_ends: "dump (Object m) \<noteq> [] \<and> last (dump (Object m)) = CHR ''}'' \<and> hd (dump (Object m)) = CHR ''{''"
  by simp

lemma show_mtype: "show_int kMtypeCtrlJson = dump (jint kMtypeCtrlJson)"
  by (simp add: dump_jint kMtypeCtrlJson_def)

lemma wrap_ctrl_abi_dump:
  assumes "m \<noteq> []"
  shows "wrap_ctrl_abi (dump (Object m)) = ''{'' @ join '','' (map dump_member (wire_members m)) @ ''}''"
proof -
  obtain k v m' where m: "m = (k, v) # m'" using assms by (cases m) auto
  have tr: "rtrim_by is_trailing_ws (dump (Object m)) = dump (Object m)"
    using dump_object_ends [of m] by (intro rtrim_by_id) (simp_all add: is_trailing_ws_def)
  obtain t where t: "dump (Object m) = CHR ''{'' # escape k @ CHR '':'' # t"
    by (simp add: m join_Cons)
  have "starts_with mtype_prefix (dump (Object m)) \<longleftrightarrow> starts_with (escape ''mtype'') (escape k @ CHR '':'' # t)"
    unfolding t escape_mtype by (simp add: starts_with_def)
  also have "\<dots> \<longleftrightarrow> k = ''mtype''"
    using escape_prefix [of "''mtype''" k t] by auto
  finally have "starts_with mtype_prefix (dump (Object m)) \<longleftrightarrow> k = ''mtype''" .
  then have "wrap_ctrl_abi (dump (Object m)) = (if k = ''mtype'' then dump (Object m) else
      mtype_prefix @ '':'' @ show_int kMtypeCtrlJson @ '','' @ tl (dump (Object m)))"
    using dump_object_ends [of m] by (simp add: wrap_ctrl_abi_def tr del: dump.simps)
  then show ?thesis
    by (simp add: wire_members_def m show_mtype escape_mtype join_Cons)
qed

lemma wrap_ctrl_abi_parse:
  assumes "dumpable (Object m)" and "m \<noteq> []"
  shows "\<exists>w. parse_opt (wrap_ctrl_abi (dump (Object m))) = Some (Object w) \<and> om_ok w \<and>
     om_get w k = (if k = ''mtype'' \<and> fst (hd m) \<noteq> ''mtype'' then Some (jint kMtypeCtrlJson) else om_get m k)"
proof -
  have rb: "list_all (\<lambda>(k, v). reads_back v) (wire_members m)"
    using assms(1) dump_reads_back dumpable_jint [of kMtypeCtrlJson]
    by (auto simp: wire_members_def list_all_iff kMtypeCtrlJson_def)
  let ?t = "''{'' @ join '','' (map dump_member (wire_members m)) @ ''}''"
  have "parse_value (2 * length ?t + 2) (?t @ []) = Inr (Object (emplace_all (wire_members m) []), [])"
    using object_read_back [of "wire_members m" "2 * length ?t + 2" "[]"] rb assms(2)
    by (simp add: wire_members_def del: parse_value.simps)
  moreover have "skip_ws ?t = ?t" by (simp add: is_ws_def)
  ultimately have "parse_opt (wrap_ctrl_abi (dump (Object m))) = Some (Object (emplace_all (wire_members m) []))"
    unfolding wrap_ctrl_abi_dump [OF assms(2)] parse_opt_def parse_def by simp
  moreover have "map_of (wire_members m) k =
      (if k = ''mtype'' \<and> fst (hd m) \<noteq> ''mtype'' then Some (jint kMtypeCtrlJson) else om_get m k)"
    using assms by (cases m) (auto simp: wire_members_def om_get_def om_ok_Cons)
  ultimately show ?thesis
    using emplace_all_get [of "[]" "wire_members m" k] by simp
qed

section \<open>Splitting a body\<close>

text \<open>A text the brace counter passes over without a net effect.\<close>

definition neutral :: "bytes \<Rightarrow> bool" where
  "neutral t = (\<forall>d r. 1 \<le> d \<longrightarrow>
     json_end d False False (t @ r) = map_option (\<lambda>k. length t + k) (json_end d False False r))"

lemma neutralD: "neutral t \<Longrightarrow> 1 \<le> d \<Longrightarrow>
   json_end d False False (t @ r) = map_option (\<lambda>k. length t + k) (json_end d False False r)"
  by (simp add: neutral_def)

lemma neutral_Nil [simp]: "neutral []"
  by (simp add: neutral_def option.map_ident)

lemma neutral_append [intro]: "neutral s \<Longrightarrow> neutral t \<Longrightarrow> neutral (s @ t)"
  by (simp add: neutral_def option.map_comp comp_def add.assoc)

lemma neutral_char: "c \<noteq> QUOTE \<Longrightarrow> c \<noteq> CHR ''{'' \<Longrightarrow> c \<noteq> CHR ''}'' \<Longrightarrow> neutral [c]"
  by (simp add: neutral_def)

lemma neutral_plain: "\<forall>c \<in> set s. c \<noteq> QUOTE \<and> c \<noteq> CHR ''{'' \<and> c \<noteq> CHR ''}'' \<Longrightarrow> neutral s"
proof (induction s)
  case (Cons c s)
  then show ?case using neutral_append [of "[c]" s] neutral_char [of c] by simp
qed simp

lemma neutral_braces:
  assumes "neutral t"
  shows "neutral (''{'' @ t @ ''}'')"
  unfolding neutral_def
  using neutralD [OF assms, of "Suc d" for d]
  by (auto simp: option.map_comp comp_def intro!: option.map_cong)

lemma map_option_plus_0 [simp]: "map_option ((+) (0::nat)) x = x"
  by (cases x) simp_all

lemma map_option_plus [simp]: "map_option (\<lambda>x. Suc (a + x)) y = map_option ((+) (Suc a)) y"
  by (cases y) simp_all

lemma json_end_in_string:
  "\<forall>c \<in> set s. c \<noteq> QUOTE \<and> c \<noteq> BSLASH \<Longrightarrow>
   json_end d True False (s @ r) = map_option (\<lambda>k. length s + k) (json_end d True False r)"
  by (induction s) (simp_all add: option.map_comp comp_def)

lemma hex_char_plain: "d < 16 \<Longrightarrow> hex_char d \<noteq> QUOTE \<and> hex_char d \<noteq> BSLASH"
  using hex_val_hex_char [of d] by (auto simp: hex_val_def Let_def)

lemma show_hex_plain: "\<forall>c \<in> set (show_hex_fixed k n). c \<noteq> QUOTE \<and> c \<noteq> BSLASH"
  by (induction k arbitrary: n) (use hex_char_plain [of "n mod 16" for n] in auto)

lemma json_end_escape_char:
  "json_end d True False (escape_char c @ r) = map_option (\<lambda>k. length (escape_char c) + k) (json_end d True False r)"
proof (cases "\<exists>e. escape_char c = [BSLASH, e]")
  case True
  then show ?thesis by (auto simp: option.map_comp comp_def)
next
  case False
  then have "escape_char c = [c] \<and> c \<noteq> QUOTE \<and> c \<noteq> BSLASH \<or>
      escape_char c = [BSLASH, CHR ''u''] @ show_hex_fixed 4 (code_of c)"
    unfolding escape_char_def by (simp split: if_splits)
  then show ?thesis
    using json_end_in_string [OF show_hex_plain, of d 4 "code_of c" r]
    by (elim disjE) (simp_all add: option.map_comp comp_def del: show_hex_fixed.simps)
qed

lemma neutral_escape [intro]: "neutral (escape s)"
proof -
  have "json_end d True False (concat (map escape_char s) @ r) =
      map_option (\<lambda>k. length (concat (map escape_char s)) + k) (json_end d True False r)" for d r
    by (induction s) (simp_all add: json_end_escape_char option.map_ident option.map_comp comp_def add.assoc)
  then show ?thesis
    by (simp add: neutral_def escape_def option.map_comp comp_def)
qed

lemma neutral_show_int: "neutral (show_int n)"
proof (rule neutral_plain)
  show "\<forall>c \<in> set (show_int n). c \<noteq> QUOTE \<and> c \<noteq> CHR ''{'' \<and> c \<noteq> CHR ''}''"
    using show_nat_all_digits [of "nat n"] show_nat_all_digits [of "nat (- n)"] digit_range
    by (auto simp: show_int_def split: if_splits)
qed

lemma neutral_join: "list_all neutral ts \<Longrightarrow> neutral (join '','' ts)"
proof (induction ts)
  case (Cons t ts)
  then show ?case
    using neutral_append [of "'',''" "join '','' ts"] neutral_char [of "CHR '',''"]
    by (auto simp: join_Cons)
qed simp

lemma neutral_member: "neutral (dump v) \<Longrightarrow> neutral (dump_member (k, v))"
  using neutral_append [OF neutral_escape neutral_append [OF neutral_char [of "CHR '':''"]], of "dump v" k]
  by simp

lemma neutral_dump: "dumpable v \<Longrightarrow> neutral (dump v)"
proof (induction v)
  case (Number x)
  then show ?case using dumpable_int [of x] neutral_show_int by metis
next
  case (Array vs)
  then have "neutral (join '','' (map dump vs))"
    by (intro neutral_join) (auto simp: list_all_iff)
  then have "neutral ([CHR ''[''] @ join '','' (map dump vs) @ [CHR '']''])"
    by (intro neutral_append neutral_char) simp_all
  then show ?case by simp
next
  case (Object m)
  then have "neutral (dump_member kv)" if "kv \<in> set m" for kv
    using that neutral_member by (cases kv) (fastforce simp: list_all_iff)
  then have "neutral (join '','' (map dump_member m))"
    by (intro neutral_join) (auto simp: list_all_iff)
  then show ?case using neutral_braces by simp
next
  case (String s)
  then show ?case using neutral_escape by simp
qed (simp_all add: neutral_plain)

lemma split_json_prefix_object:
  assumes "neutral t"
  shows "split_json_prefix (''{'' @ t @ ''}'' @ r) = Some (''{'' @ t @ ''}'', strip_separator r)"
proof -
  have "json_end 0 False False (''{'' @ t @ ''}'' @ r) = Some (length t + 2)"
    using neutralD [OF assms, of 1 "CHR ''}'' # r"] by simp
  then show ?thesis by (simp add: split_json_prefix_def)
qed

lemma neutral_wire: "dumpable (Object m) \<Longrightarrow> neutral (join '','' (map dump_member (wire_members m)))"
proof (rule neutral_join)
  assume "dumpable (Object m)"
  then have "neutral (dump_member kv)" if "kv \<in> set (wire_members m)" for kv
    using that neutral_member neutral_dump dumpable_jint [of kMtypeCtrlJson]
    by (cases kv) (fastforce simp: list_all_iff wire_members_def kMtypeCtrlJson_def split: if_splits)
  then show "list_all neutral (map dump_member (wire_members m))"
    by (simp add: list_all_iff)
qed

lemma split_wrap:
  assumes "dumpable (Object m)" and "m \<noteq> []"
  shows "split_json_prefix (wrap_ctrl_abi_with_binary (dump (Object m)) bin) =
    Some (wrap_ctrl_abi (dump (Object m)), bin)"
proof -
  have sep: "strip_separator (if bin = [] then [] else [LF, LF] @ bin) = bin"
    by (simp add: strip_separator_def starts_with_def)
  have "wrap_ctrl_abi_with_binary (dump (Object m)) bin =
      ''{'' @ join '','' (map dump_member (wire_members m)) @ ''}'' @ (if bin = [] then [] else [LF, LF] @ bin)"
    by (simp add: wrap_ctrl_abi_with_binary_def wrap_ctrl_abi_dump [OF assms(2)] Let_def del: dump.simps)
  then show ?thesis
    using split_json_prefix_object [OF neutral_wire [OF assms(1)], of "if bin = [] then [] else [LF, LF] @ bin"]
    unfolding sep wrap_ctrl_abi_dump [OF assms(2)] by (simp only:)
qed

lemma abi_members:
  "jobject [(''cmdtype'', a), (''sequence'', b), (''req'', c)] =
   Object [(''cmdtype'', a), (''req'', c), (''sequence'', b)]"
  by (simp add: jobject_def)

text \<open>What the printer reads from the wire form of a request.\<close>

lemma abi_request_wire:
  assumes "\<bar>cmd\<bar> < 2 ^ 31" and "list_all (\<lambda>(_, v). dumpable v) req"
  shows "\<exists>json w. split_json_prefix (wrap_ctrl_abi_with_binary (abi_request cmd sq req) bin) = Some (json, bin) \<and>
     parse_opt json = Some w \<and> jget w ''mtype'' = jint kMtypeCtrlJson \<and> jget w ''cmdtype'' = jint cmd \<and>
     jget w ''sequence'' = jint (uint sq) \<and> jget w ''req'' = jobject req"
proof -
  define m where "m = [(''cmdtype'', jint cmd), (''req'', jobject req), (''sequence'', jint (uint sq))]"
  have abi: "abi_request cmd sq req = dump (Object m)"
    by (simp add: abi_request_def abi_members m_def del: dump.simps)
  have d: "dumpable (Object m)"
    using assms dumpable_jint [of cmd] dumpable_jint [OF uint_u32_small, of sq] dumpable_jobject [of req]
    by (simp add: m_def om_ok_def)
  have ne: "m \<noteq> []" "fst (hd m) \<noteq> ''mtype''" by (simp_all add: m_def)
  obtain w where w: "parse_opt (wrap_ctrl_abi (dump (Object m))) = Some (Object w)" "om_ok w"
    and "om_get w ''mtype'' = Some (jint kMtypeCtrlJson)"
    using wrap_ctrl_abi_parse [OF d ne(1), of "''mtype''"] ne by auto
  moreover have "om_get w k = om_get m k" if "k \<noteq> ''mtype''" for k
    using wrap_ctrl_abi_parse [OF d ne(1), of k] that w by auto
  ultimately show ?thesis
    using split_wrap [OF d ne(1), of bin] abi
    by (intro exI [of _ "wrap_ctrl_abi (dump (Object m))"] exI [of _ "Object w"])
      (simp add: jget_def m_def om_get_Cons del: dump.simps)
qed


lemma plain_keys [simp]:
  "plain_key ''result''" "plain_key ''reply''" "plain_key ''cmdtype''" "plain_key ''sequence''" "plain_key ''req''"
  "plain_key ''mtype''" "plain_key ''frag_id''" "plain_key ''offset''" "plain_key ''size''" "plain_key ''file_md5''"
  "plain_key ''chunk_size''" "plain_key ''progress''"
  by (simp_all add: plain_key_def key_stop_def)

lemma as_int_jint: "\<bar>n\<bar> < 2 ^ 53 \<Longrightarrow> as_int d (jint n) = n"
  by (simp add: jint_Number)

lemma upload_chunk_wire:
  assumes "uint off < 2 ^ 53"
  shows "\<exists>json w. split_json_prefix (wrap_ctrl_abi_with_binary (build_file_upload_chunk_abi sq fid off sz md5) bin)
       = Some (json, bin) \<and> parse_opt json = Some w \<and>
     as_int 0 (jfind w ''mtype'') = kMtypeCtrlJson \<and> parse_wire_cmdtype json = kCmdFileUpload \<and>
     parse_wire_sequence json = narrow_i32 (uint sq) \<and>
     as_int 0 (jfind w ''req.frag_id'') = uint fid \<and> as_int 0 (jfind w ''req.offset'') = uint off \<and>
     as_int 0 (jfind w ''req.size'') = uint sz \<and> as_string (jfind w ''req.file_md5'') = md5"
proof -
  define req where "req = [(''frag_id'', jint (uint fid)), (''offset'', jint (uint off)), (''size'', jint (uint sz))] @ jopt ''file_md5'' md5"
  have off: "\<bar>uint off\<bar> < 2 ^ 53" using assms by simp
  have "list_all (\<lambda>(_, v). dumpable v) req"
    using dumpable_jint [OF uint_u32_small, of fid] dumpable_jint [OF uint_u32_small, of sz]
      dumpable_jint [OF off] dumpable_jopt by (simp add: req_def)
  then obtain json w where w: "split_json_prefix (wrap_ctrl_abi_with_binary
        (build_file_upload_chunk_abi sq fid off sz md5) bin) = Some (json, bin)"
      "parse_opt json = Some w" "jget w ''mtype'' = jint kMtypeCtrlJson" "jget w ''cmdtype'' = jint kCmdFileUpload"
      "jget w ''sequence'' = jint (uint sq)" "jget w ''req'' = jobject req"
    using abi_request_wire [of kCmdFileUpload req sq bin]
    unfolding build_file_upload_chunk_abi_def req_def by (auto simp: kCmdFileUpload_def)
  have path: "jfind w (''req'' @ CHR ''.'' # k) = jget (jobject req) k" if "plain_key k" for k
    using jfind_dot [of "''req''" w k] jfind_key [OF that] w(6) by simp
  have get: "jget (jobject req) ''frag_id'' = jint (uint fid)" "jget (jobject req) ''offset'' = jint (uint off)"
    "jget (jobject req) ''size'' = jint (uint sz)" "as_string (jget (jobject req) ''file_md5'') = md5"
    by (simp_all add: jget_jobject jopt_def req_def)
  have f: "jfind w ''req.frag_id'' = jint (uint fid)" "jfind w ''req.offset'' = jint (uint off)"
    "jfind w ''req.size'' = jint (uint sz)" "as_string (jfind w ''req.file_md5'') = md5"
    using path [of "''frag_id''"] path [of "''offset''"] path [of "''size''"] path [of "''file_md5''"]
    by (simp_all add: get)
  have m: "as_int 0 (jfind w ''mtype'') = kMtypeCtrlJson" "parse_wire_cmdtype json = kCmdFileUpload"
    "parse_wire_sequence json = narrow_i32 (uint sq)"
    using w(3,4,5) by (simp_all add: parse_wire_cmdtype_def parse_wire_sequence_def parse_wire_int_def w(2)
        jfind_key as_int_jint as_int_jint [OF uint_u32_small] kMtypeCtrlJson_def kCmdFileUpload_def)
  show ?thesis
    using w(1,2) m f by (intro exI [of _ json] exI [of _ w])
      (simp only: as_int_jint [OF uint_u32_small] as_int_jint [OF off] simp_thms)
qed

section \<open>Properties\<close>

text \<open>A frame header survives the wire: the parser reads the payload length, the magic and the
  sequence number the builder wrote, each a 32-bit little-endian word, whatever bytes follow.\<close>

theorem frame_header_roundtrip:
  "parse_frame_header (build_frame_header n m q @ rest) = Some \<lparr>payload_len = n, magic = m, seq = q\<rparr> \<and>
   length (build_frame_header n m q) = 16"
  by simp

text \<open>An upload fragment survives the wire: from the payload that carries the request and the
  file bytes, the splitter recovers exactly the JSON text and exactly the file bytes (whatever
  they are, separators and braces included), and that text parses to a document with the right
  message type, command, sequence number, fragment id, offset, size and checksum.\<close>

theorem upload_chunk_on_wire:
  assumes "uint off < 2 ^ 53"
  shows "\<exists>json w. split_json_prefix (wrap_ctrl_abi_with_binary (build_file_upload_chunk_abi sq fid off sz md5) bin)
       = Some (json, bin) \<and> parse_opt json = Some w \<and>
     as_int 0 (jfind w ''mtype'') = kMtypeCtrlJson \<and> parse_wire_cmdtype json = kCmdFileUpload \<and>
     parse_wire_sequence json = narrow_i32 (uint sq) \<and>
     as_int 0 (jfind w ''req.frag_id'') = uint fid \<and> as_int 0 (jfind w ''req.offset'') = uint off \<and>
     as_int 0 (jfind w ''req.size'') = uint sz \<and> as_string (jfind w ''req.file_md5'') = md5"
  using upload_chunk_wire [OF assms] .

theorem upload_chunk_on_wire_witness:
  "\<exists>json w. split_json_prefix (wrap_ctrl_abi_with_binary (build_file_upload_chunk_abi 7 2 2097152 3 ''ab'') (CHR ''}'' # [LF, LF]))
       = Some (json, CHR ''}'' # [LF, LF]) \<and> parse_opt json = Some w \<and> as_int 0 (jfind w ''req.offset'') = 2097152"
  using upload_chunk_on_wire [of 2097152 7 2 3 "''ab''" "CHR ''}'' # [LF, LF]"] by auto

end
