(* ===== verification/Codec.thy ===== *)
theory Codec
  imports Prelude
begin

text \<open>
  Self-delimiting streams: the contract between a reader that appends what the network
  delivers to a buffer and a scanner that takes complete units off its front. The facts
  proved here hold for every scanner with the laws of \<open>self_delimiting\<close>; the 16-byte-header
  frames of the tunnel and the text lines of the FTPS control channel have them.
\<close>

fun drain_n :: "(bytes \<Rightarrow> ('f \<times> bytes) option) \<Rightarrow> nat \<Rightarrow> bytes \<Rightarrow> 'f list \<times> bytes" where
  "drain_n tk 0 b = ([], b)"
| "drain_n tk (Suc n) b =
     (case tk b of
        None \<Rightarrow> ([], b)
      | Some (f, r) \<Rightarrow> (let (fs, r') = drain_n tk n r in (f # fs, r')))"

definition drain :: "(bytes \<Rightarrow> ('f \<times> bytes) option) \<Rightarrow> bytes \<Rightarrow> 'f list \<times> bytes" where
  "drain tk b = drain_n tk (length b) b"

text \<open>A reader that appends each chunk and takes what is complete.\<close>

fun feed :: "(bytes \<Rightarrow> ('f \<times> bytes) option) \<Rightarrow> bytes \<Rightarrow> bytes list \<Rightarrow> 'f list \<times> bytes" where
  "feed tk buf [] = ([], buf)"
| "feed tk buf (c # cs) =
     (let (fs, buf1) = drain tk (buf @ c); (gs, buf2) = feed tk buf1 cs in (fs @ gs, buf2))"

locale self_delimiting =
  fixes frame :: "'f \<Rightarrow> bytes"
    and ok :: "'f \<Rightarrow> bool"
    and take_one :: "bytes \<Rightarrow> ('f \<times> bytes) option"
  assumes take_frame: "ok f \<Longrightarrow> take_one (frame f @ r) = Some (f, r)"
    and take_partial: "ok f \<Longrightarrow> strict_prefix p (frame f) \<Longrightarrow> take_one p = None"
    and take_extend: "take_one b = Some (f, r) \<Longrightarrow> take_one (b @ c) = Some (f, r @ c)"
    and take_shrinks: "take_one b = Some (f, r) \<Longrightarrow> length r < length b"
begin

lemma drain_n_fuel: "length b \<le> n \<Longrightarrow> length b \<le> m \<Longrightarrow> drain_n take_one n b = drain_n take_one m b"
proof (induction n arbitrary: m b)
  case 0
  then have b: "b = []" by simp
  have "take_one b = None" using take_shrinks [of b] b by (cases "take_one b") auto
  then show ?case by (cases m) simp_all
next
  case (Suc n)
  show ?case
  proof (cases "take_one b")
    case None
    then show ?thesis by (cases m) simp_all
  next
    case (Some fr)
    obtain f r where fr: "fr = (f, r)" by force
    have "length r < length b" using take_shrinks Some fr by simp
    moreover from this Suc.prems obtain k where "m = Suc k" by (cases m) auto
    ultimately show ?thesis using Suc.IH [of r k] Suc.prems Some fr by simp
  qed
qed

lemma drain_None: "take_one b = None \<Longrightarrow> drain take_one b = ([], b)"
  by (cases "length b") (simp_all add: drain_def)

lemma drain_Some:
  assumes "take_one b = Some (f, r)"
  shows "drain take_one b = (f # fst (drain take_one r), snd (drain take_one r))"
proof -
  have "length r < length b" using take_shrinks assms by simp
  then obtain k where k: "length b = Suc k" "length r \<le> k" by (cases "length b") auto
  have "drain_n take_one k r = drain take_one r"
    unfolding drain_def by (rule drain_n_fuel) (use k in auto)
  with assms k show ?thesis by (simp add: drain_def split: prod.split)
qed

lemma drain_rest: "take_one (snd (drain take_one b)) = None"
proof (induction b rule: length_induct)
  case (1 b)
  show ?case
  proof (cases "take_one b")
    case (Some fr)
    with 1 take_shrinks show ?thesis by (cases fr) (auto simp: drain_Some)
  qed (simp add: drain_None)
qed

lemma drain_append:
  "drain take_one (b @ c) =
     (fst (drain take_one b) @ fst (drain take_one (snd (drain take_one b) @ c)),
      snd (drain take_one (snd (drain take_one b) @ c)))"
proof (induction b rule: length_induct)
  case (1 b)
  show ?case
  proof (cases "take_one b")
    case (Some fr)
    obtain f r where fr: "fr = (f, r)" by force
    then show ?thesis
      using 1 take_shrinks [of b f r] take_extend [of b f r c] Some by (simp add: drain_Some)
  qed (simp add: drain_None)
qed

text \<open>However the network cuts the stream, the same units come out in the same order.\<close>

lemma feed_eq_drain: "take_one buf = None \<Longrightarrow> feed take_one buf cs = drain take_one (buf @ concat cs)"
proof (induction cs arbitrary: buf)
  case Nil
  then show ?case by (simp add: drain_None)
next
  case (Cons c cs)
  obtain fs b1 where d: "drain take_one (buf @ c) = (fs, b1)" by force
  then have "take_one b1 = None" using drain_rest [of "buf @ c"] by simp
  then have "feed take_one b1 cs = drain take_one (b1 @ concat cs)" by (rule Cons.IH)
  then show ?case using d drain_append [of "buf @ c" "concat cs"] by (simp split: prod.split)
qed

lemma take_one_Nil: "take_one [] = None"
  using take_shrinks [of "[]"] by (cases "take_one []") auto

lemma feed_pieces: "feed take_one [] cs = drain take_one (concat cs)"
  using feed_eq_drain [OF take_one_Nil, of cs] by simp

text \<open>A stream of complete units with an incomplete one at the end.\<close>

lemma drain_frames:
  assumes "list_all ok fs" and "take_one p = None"
  shows "drain take_one (concat (map frame fs) @ p) = (fs, p)"
  using assms(1)
proof (induction fs)
  case Nil
  then show ?case using assms(2) by (simp add: drain_None)
next
  case (Cons f fs)
  then show ?case
    using drain_Some [OF take_frame [of f "concat (map frame fs) @ p"]] by simp
qed

lemma feed_frames:
  assumes "list_all ok fs" and "ok f" and "strict_prefix p (frame f)"
    and "concat cs = concat (map frame fs) @ p"
  shows "feed take_one [] cs = (fs, p)"
  using feed_pieces [of cs] drain_frames [OF assms(1) take_partial [OF assms(2,3)]] assms(4) by simp

end

end
