(* ===== verification/Tunnel_Session.thy ===== *)
theory Tunnel_Session
  imports Tunnel_Local Codec
begin

text \<open>
  The receive side of \<open>src/tunnel_local.cpp\<close> (\<open>consume_frames\<close>,
  \<open>take_pending_wire_json\<close>) and its class \<open>Session\<close>: sequence number, handshake
  phase, receive buffer, and the operations that send frames and read replies.
\<close>

unbundle bit_operations_syntax

section \<open>The frame scanner\<close>

datatype frame_scan = Need_more | Overrun | Frame bytes nat

text \<open>
  One turn of the loop of \<open>consume_frames\<close> on the unread bytes. The code computes
  \<open>16 + hdr.payload_len\<close> in 32 bits: when the sum wraps, the frame seems to fit in
  \<open>frame_len < 16\<close> bytes and the body is copied from beyond the buffer.
\<close>

definition scan_frame :: "bytes \<Rightarrow> frame_scan" where
  "scan_frame d =
     (case parse_frame_header d of
        None \<Rightarrow> Need_more
      | Some hdr \<Rightarrow>
          let frame_len = unat (16 + payload_len hdr); n = unat (payload_len hdr) in
          if length d < frame_len then Need_more
          else if frame_len < 16 then Overrun
          else Frame (take n (drop 16 d)) frame_len)"

lemma scan_frame_progress: "scan_frame d = Frame body n \<Longrightarrow> 16 \<le> n \<and> n \<le> length d"
  by (auto simp: scan_frame_def Let_def split: option.splits if_splits)

function consume_frames :: "bytes \<Rightarrow> (bytes list \<times> nat) option" where
  "consume_frames d =
     (case scan_frame d of
        Need_more \<Rightarrow> Some ([], 0)
      | Overrun \<Rightarrow> None
      | Frame body n \<Rightarrow>
          (case consume_frames (drop n d) of
             None \<Rightarrow> None
           | Some (bodies, k) \<Rightarrow> Some (body # bodies, n + k)))"
  by pat_completeness auto
termination
  by (relation "measure length") (auto dest: scan_frame_progress)

declare consume_frames.simps [simp del]

definition wire_messages :: "bytes list \<Rightarrow> bytes list" where
  "wire_messages bodies =
     concat (map (\<lambda>body.
       if body = [] then []
       else case split_json_prefix body of
         Some (json, bin) \<Rightarrow> if json \<noteq> [] then [json] else []
       | None \<Rightarrow> [body]) bodies)"

lemma consume_frames_bound: "consume_frames d = Some (bodies, k) \<Longrightarrow> k \<le> length d"
proof (induction d arbitrary: bodies k rule: consume_frames.induct)
  case (1 d)
  show ?case
  proof (cases "scan_frame d")
    case (Frame body n)
    with "1.prems" obtain bs j where "consume_frames (drop n d) = Some (bs, j)" "k = n + j"
      by (subst (asm) consume_frames.simps) (auto split: option.splits)
    with "1.IH" [OF Frame] scan_frame_progress [OF Frame] show ?thesis by auto
  qed (use "1.prems" in \<open>subst (asm) consume_frames.simps, simp\<close>)+
qed

function take_pending_wire_json :: "bytes \<Rightarrow> (bytes list \<times> bytes) option" where
  "take_pending_wire_json buf =
     (case consume_frames buf of
        None \<Rightarrow> None
      | Some (bodies, consumed) \<Rightarrow>
          if consumed = 0 then Some ([], buf)
          else (case take_pending_wire_json (drop consumed buf) of
                  None \<Rightarrow> None
                | Some (msgs, rest) \<Rightarrow> Some (wire_messages bodies @ msgs, rest)))"
  by pat_completeness auto
termination
  by (relation "measure length") (auto dest: consume_frames_bound)

declare take_pending_wire_json.simps [simp del]

section \<open>The session\<close>

record session =
  seq_no :: u32
  phase :: handshake_phase
  recv_buf :: bytes

definition new_session :: "u32 \<Rightarrow> session" where
  "new_session seed = \<lparr>seq_no = seed, phase = NotStarted, recv_buf = []\<rparr>"

definition send_frame :: "u32 \<Rightarrow> bytes \<Rightarrow> session \<Rightarrow> conn \<Rightarrow> int \<times> session \<times> conn" where
  "send_frame mag payload s c =
     (let hdr = build_frame_header (word_of_nat (length payload)) mag (seq_no s);
          s' = s\<lparr>seq_no := seq_no s + 1\<rparr>;
          (ok, c1) = ssl_write_all hdr c
      in if \<not> ok then (-1, s', c1)
         else if payload \<noteq> [] then
           (let (ok2, c2) = ssl_write_all payload c1 in
            if \<not> ok2 then (-1, s', c2) else (0, s', c2))
         else (0, s', c1))"

definition try_read_frames :: "session \<Rightarrow> conn \<Rightarrow> int \<times> session \<times> conn" where
  "try_read_frames s c =
     (case read_some 65536 c of
        (Would_block, c') \<Rightarrow> (1, s, c')
      | (Read_error, c') \<Rightarrow> (-1, s, c')
      | (Closed, c') \<Rightarrow> (-1, s, c')
      | (Got bs, c') \<Rightarrow> (0, s\<lparr>recv_buf := recv_buf s @ bs\<rparr>, c'))"

definition have_login_ack :: "session \<Rightarrow> bool" where
  "have_login_ack s =
     (case parse_frame_header (recv_buf s) of
        None \<Rightarrow> False
      | Some hdr \<Rightarrow> magic hdr = kMagicLoginServer \<and>
          unat (16 + payload_len hdr) \<le> length (recv_buf s))"

text \<open>\<open>consume_frames\<close> on the receive buffer, and the \<open>erase\<close> of what it consumed.\<close>

definition consume_buffer :: "session \<Rightarrow> (bytes list \<times> session) option" where
  "consume_buffer s =
     (case consume_frames (recv_buf s) of
        None \<Rightarrow> None
      | Some (bodies, k) \<Rightarrow> Some (bodies, s\<lparr>recv_buf := drop k (recv_buf s)\<rparr>))"

definition effective_client_id :: "config \<Rightarrow> session \<Rightarrow> bytes" where
  "effective_client_id cfg s =
     (if client_id cfg = [] then show_hex_fixed 8 (unat (seq_no s)) else client_id cfg)"

definition is_setup_ack :: "bytes \<Rightarrow> bool" where
  "is_setup_ack body =
     (body \<noteq> [] \<and>
      (case parse_opt body of None \<Rightarrow> False
       | Some v \<Rightarrow> as_int 0 (jfind v ''mtype'') = kMtypeCtrlSetup \<and> as_int 0 (jfind v ''result'') = 0))"

fun await_setup_ack :: "nat \<Rightarrow> session \<Rightarrow> conn \<Rightarrow> (int \<times> session \<times> conn) option" where
  "await_setup_ack 0 s c = Some (1, s, c)"
| "await_setup_ack (Suc n) s c =
     (case consume_buffer s of
        None \<Rightarrow> None
      | Some (bodies, s1) \<Rightarrow>
          if list_ex is_setup_ack bodies then Some (0, s1\<lparr>phase := Ready\<rparr>, c)
          else let (rr, s2, c2) = try_read_frames s1 c in
            if rr < 0 then Some (-1, s2\<lparr>phase := Failed\<rparr>, c2)
            else if rr > 0 then Some (1, s2, c2)
            else await_setup_ack n s2 c2)"

definition handshake_step :: "config \<Rightarrow> session \<Rightarrow> conn \<Rightarrow> (int \<times> session \<times> conn) option" where
  "handshake_step cfg s c =
     (case phase s of
        Ready \<Rightarrow> Some (0, s, c)
      | Failed \<Rightarrow> Some (-1, s, c)
      | NotStarted \<Rightarrow>
          (let (rc, s1, c1) = send_frame kMagicLoginClient
                 (build_login_payload (username cfg) (access_code cfg)) s c in
           if rc \<noteq> 0 then Some (-1, s1\<lparr>phase := Failed\<rparr>, c1)
           else Some (1, s1\<lparr>phase := LoginSent\<rparr>, c1))
      | LoginSent \<Rightarrow>
          (let cid = effective_client_id cfg s; (rr, s1, c1) = try_read_frames s c in
           if rr < 0 then Some (-1, s1\<lparr>phase := Failed\<rparr>, c1)
           else if rr > 0 \<or> \<not> have_login_ack s1 then Some (1, s1, c1)
           else case consume_buffer s1 of
               None \<Rightarrow> None
             | Some (_, s2) \<Rightarrow>
                 (let (rc, s3, c3) = send_frame kMagicCtrlClient
                        (build_setup_json cid (client_ver cfg)) s2 c1 in
                  if rc \<noteq> 0 then Some (-1, s3\<lparr>phase := Failed\<rparr>, c3)
                  else Some (1, s3\<lparr>phase := SetupSent\<rparr>, c3)))
      | SetupSent \<Rightarrow> await_setup_ack 32 s c)"

definition send_abi_json :: "bytes \<Rightarrow> session \<Rightarrow> conn \<Rightarrow> int \<times> session \<times> conn" where
  "send_abi_json body s c = send_frame kMagicCtrlClient (wrap_ctrl_abi body) s c"

text \<open>
  A callback \<open>on_wire\<close> is a function on the caller's state; \<open>None\<close> is an empty
  \<open>std::function\<close>. \<open>dispatch_wire\<close> delivers messages until one is refused.
\<close>

type_synonym 'a on_wire = "bytes \<Rightarrow> 'a \<Rightarrow> bool \<times> 'a"

fun dispatch_wire :: "'a on_wire \<Rightarrow> bytes list \<Rightarrow> 'a \<Rightarrow> bool \<times> 'a" where
  "dispatch_wire f [] a = (True, a)"
| "dispatch_wire f (m # ms) a =
     (let (ok, a') = f m a in if ok then dispatch_wire f ms a' else (False, a'))"

definition drain_pending_wire_json :: "session \<Rightarrow> (bytes list \<times> session) option" where
  "drain_pending_wire_json s =
     (case take_pending_wire_json (recv_buf s) of
        None \<Rightarrow> None
      | Some (msgs, rest) \<Rightarrow> Some (msgs, s\<lparr>recv_buf := rest\<rparr>))"

text \<open>The two read loops after a send: \<open>stop\<close> says which result ends the loop early.\<close>

fun read_passes :: "(int \<Rightarrow> bool) \<Rightarrow> nat \<Rightarrow> session \<Rightarrow> conn \<Rightarrow> session \<times> conn" where
  "read_passes stop 0 s c = (s, c)"
| "read_passes stop (Suc n) s c =
     (let (rr, s', c') = try_read_frames s c in
      if stop rr then (s', c') else read_passes stop n s' c')"

definition send_abi_json_with_binary_stream ::
  "bytes \<Rightarrow> bytes \<Rightarrow> nat \<Rightarrow> 'a on_wire option \<Rightarrow> bool \<Rightarrow> session \<Rightarrow> conn \<Rightarrow> 'a
    \<Rightarrow> (int \<times> session \<times> conn \<times> 'a) option" where
  "send_abi_json_with_binary_stream abi bin_in bin_len on_wire poll_rx s c a =
     (let wire = wrap_ctrl_abi abi in
      if 0 < bin_len \<and> length bin_in < bin_len then Some (-1, s, c, a)
      else
        let body = (if 0 < bin_len then wire @ [LF, LF] @ take bin_len bin_in else wire);
            (rc, s1, c1) = send_frame kMagicCtrlClient body s c
        in if rc \<noteq> 0 then Some (-1, s1, c1, a)
           else if \<not> poll_rx then Some (0, s1, c1, a)
           else case on_wire of
               Some f \<Rightarrow>
                 (let (s2, c2) = read_passes (\<lambda>rr. rr < 0) 8 s1 c1 in
                  case drain_pending_wire_json s2 of
                    None \<Rightarrow> None
                  | Some (pending, s3) \<Rightarrow>
                      (let (ok, a') = dispatch_wire f pending a in
                       Some (if ok then 0 else -2, s3, c2, a')))
             | None \<Rightarrow>
                 (let (s2, c2) = read_passes (\<lambda>rr. rr \<le> 0) 8 s1 c1 in Some (0, s2, c2, a)))"

definition send_abi_json_with_binary ::
  "bytes \<Rightarrow> bytes \<Rightarrow> bool \<Rightarrow> session \<Rightarrow> conn \<Rightarrow> (int \<times> session \<times> conn) option" where
  "send_abi_json_with_binary abi bin poll_rx s c =
     (if bin = [] then Some (send_abi_json abi s c)
      else map_option (\<lambda>(rc, s', c', _). (rc, s', c'))
        (send_abi_json_with_binary_stream abi bin (length bin) None poll_rx s c ()))"

text \<open>
  \<open>poll_incoming_wire\<close>: \<open>ready\<close> are the answers the socket poll gives after each pass.
\<close>

fun poll_passes :: "'a on_wire \<Rightarrow> nat \<Rightarrow> bool list \<Rightarrow> session \<Rightarrow> conn \<Rightarrow> 'a
    \<Rightarrow> (int \<times> session \<times> conn \<times> 'a) option" where
  "poll_passes f 0 ready s c a = Some (0, s, c, a)"
| "poll_passes f (Suc n) ready s c a =
     (let (rr, s1, c1) = try_read_frames s c in
      if rr < 0 then Some (-1, s1, c1, a)
      else case drain_pending_wire_json s1 of
          None \<Rightarrow> None
        | Some (pending, s2) \<Rightarrow>
            (let (ok, a') = dispatch_wire f pending a in
             if \<not> ok then Some (-2, s2, c1, a')
             else if rr > 0 then Some (0, s2, c1, a')
             else (case ready of
                     True # rs \<Rightarrow> poll_passes f n rs s2 c1 a'
                   | _ \<Rightarrow> Some (0, s2, c1, a'))))"

definition poll_incoming_wire :: "'a on_wire \<Rightarrow> bool list \<Rightarrow> session \<Rightarrow> conn \<Rightarrow> 'a
    \<Rightarrow> (int \<times> session \<times> conn \<times> 'a) option" where
  "poll_incoming_wire f ready s c a =
     (case drain_pending_wire_json s of
        None \<Rightarrow> None
      | Some (pending, s1) \<Rightarrow>
          poll_passes f 64 ready s1 c (snd (dispatch_wire f pending a)))"

text \<open>
  \<open>recv_payload\<close>: the result code with the body delivered. Every complete frame of the
  buffer is consumed, the first body is returned and the others are dropped.
\<close>

function recv_payload :: "session \<Rightarrow> conn \<Rightarrow> (int \<times> bytes \<times> session \<times> conn) option" where
  "recv_payload s c =
     (case consume_buffer s of
        None \<Rightarrow> None
      | Some (body # bodies, s1) \<Rightarrow> Some (0, body, s1, c)
      | Some ([], s1) \<Rightarrow>
          (let (rc, s2, c2) = try_read_frames s1 c in
           if rc < 0 then Some (-1, [], s2, c2)
           else if rc > 0 then Some (1, [], s2, c2)
           else recv_payload s2 c2))"
  by pat_completeness auto

text \<open>Each turn that reads takes bytes off the script.\<close>

fun unread :: "ssl_read list \<Rightarrow> nat" where
  "unread [] = 0"
| "unread (Rdata bs # rs) = Suc (length bs) + unread rs"
| "unread (_ # rs) = Suc (unread rs)"

lemma try_read_frames_unread: "try_read_frames s c = (0, s', c') \<Longrightarrow> unread (rd c') < unread (rd c)"
  by (auto simp: try_read_frames_def read_some_def split: list.splits ssl_read.splits if_splits
      read_result.splits prod.splits)

termination recv_payload
  by (relation "measure (\<lambda>(s, c). unread (rd c))") (auto dest!: try_read_frames_unread [OF sym])

declare recv_payload.simps [simp del]

section \<open>Frames as a self-delimiting stream\<close>

type_synonym frame = "u32 \<times> u32 \<times> bytes"

definition frame_bytes :: "frame \<Rightarrow> bytes" where
  "frame_bytes = (\<lambda>(mag, sq, body). build_frame_header (word_of_nat (length body)) mag sq @ body)"

definition frame_ok :: "frame \<Rightarrow> bool" where
  "frame_ok = (\<lambda>(mag, sq, body). length body + 16 < 2 ^ 32)"

definition take_frame :: "bytes \<Rightarrow> (frame \<times> bytes) option" where
  "take_frame d =
     (case (scan_frame d, parse_frame_header d) of
        (Frame body n, Some hdr) \<Rightarrow> Some ((magic hdr, seq hdr, body), drop n d)
      | _ \<Rightarrow> None)"

text \<open>A frame length that did not wrap is the true one.\<close>

lemma no_wrap:
  fixes w :: u32
  assumes "16 \<le> unat (16 + w)"
  shows "unat (16 + w) = 16 + unat w"
proof (cases "16 + unat w < 2 ^ 32")
  case False
  then have "unat (16 + w) = 16 + unat w - 2 ^ 32"
    using unsigned_less [of w, where ?'a = nat] by (simp add: unat_word_ariths mod_if)
  then show ?thesis using assms unsigned_less [of w, where ?'a = nat] by simp
qed (simp add: unat_word_ariths)

lemma frame_len: "n + 16 < 2 ^ 32 \<Longrightarrow> unat (16 + word_of_nat n :: u32) = 16 + n"
  by (simp add: unat_word_ariths unat_of_nat take_bit_nat_eq_self)

lemma read_u32_append: "4 \<le> length p \<Longrightarrow> read_u32_le (p @ q) = read_u32_le p"
proof -
  assume "4 \<le> length p"
  then have "(p @ q) ! k = p ! k" if "k < 4" for k using that by (simp add: nth_append)
  then show ?thesis by (simp add: read_u32_le_def byte_word_def)
qed

lemma parse_header_append: "16 \<le> length p \<Longrightarrow> parse_frame_header (p @ q) = parse_frame_header p"
  by (simp add: parse_frame_header_def read_u32_append)

lemma scan_frame_bytes: "frame_ok (mag, sq, body) \<Longrightarrow>
   scan_frame (frame_bytes (mag, sq, body) @ r) = Frame body (length body + 16)"
  using frame_len [of "length body"]
  by (simp add: scan_frame_def frame_bytes_def frame_ok_def unat_of_nat take_bit_nat_eq_self)

lemma scan_frame_partial:
  assumes "frame_ok f" and "strict_prefix p (frame_bytes f)"
  shows "scan_frame p = Need_more"
proof (cases "16 \<le> length p")
  case True
  obtain mag sq body where f: "f = (mag, sq, body)" by (cases f)
  obtain q where q: "frame_bytes f = p @ q" "q \<noteq> []" using assms(2) by (auto simp: strict_prefix_def prefix_def)
  have "parse_frame_header p = Some \<lparr>payload_len = word_of_nat (length body), magic = mag, seq = sq\<rparr>"
    using parse_header_append [OF True, of q] unfolding q(1) [symmetric] f by (simp add: frame_bytes_def)
  moreover have "length p < 16 + length body"
    using arg_cong [OF q(1), of length] q(2) f by (cases q) (auto simp: frame_bytes_def)
  ultimately show ?thesis
    using assms(1) f frame_len [of "length body"] by (simp add: scan_frame_def frame_ok_def)
qed (simp add: scan_frame_def parse_frame_header_def)

lemma scan_frame_extend: "scan_frame b = Frame body n \<Longrightarrow> scan_frame (b @ c) = Frame body n"
  using parse_header_append [of b c] no_wrap [of "read_u32_le b"]
  by (auto simp: scan_frame_def parse_frame_header_def Let_def split: if_splits)

lemma scan_frame_overrun_extend: "scan_frame b = Overrun \<Longrightarrow> scan_frame (b @ c) = Overrun"
  using parse_header_append [of b c]
  by (auto simp: scan_frame_def parse_frame_header_def Let_def split: if_splits)

lemma take_frame_Some_iff: "take_frame d = Some (f, r) \<longleftrightarrow>
   (\<exists>body n hdr. scan_frame d = Frame body n \<and> parse_frame_header d = Some hdr \<and>
      f = (magic hdr, seq hdr, body) \<and> r = drop n d)"
  by (auto simp: take_frame_def split: frame_scan.splits option.splits)

lemma take_frame_None_iff: "take_frame d = None \<longleftrightarrow> (\<nexists>body n. scan_frame d = Frame body n)"
  by (auto simp: take_frame_def scan_frame_def Let_def split: frame_scan.splits option.splits)

interpretation tunnel: self_delimiting frame_bytes frame_ok take_frame
proof
  fix f r
  assume ok: "frame_ok f"
  obtain mag sq body where f: "f = (mag, sq, body)" by (cases f)
  show "take_frame (frame_bytes f @ r) = Some (f, r)"
    unfolding take_frame_Some_iff
    using scan_frame_bytes [of mag sq body r] ok f by (simp add: frame_bytes_def)
next
  show "frame_ok f \<Longrightarrow> strict_prefix p (frame_bytes f) \<Longrightarrow> take_frame p = None" for f p
    by (simp add: take_frame_None_iff scan_frame_partial)
next
  show "take_frame b = Some (f, r) \<Longrightarrow> take_frame (b @ c) = Some (f, r @ c)" for b f r c
    unfolding take_frame_Some_iff
    using scan_frame_extend [of b _ _ c] scan_frame_progress [of b] parse_header_append [of b c] by force
next
  show "take_frame b = Some (f, r) \<Longrightarrow> length r < length b" for b f r
    by (auto simp: take_frame_Some_iff dest!: scan_frame_progress)
qed

text \<open>\<open>consume_frames\<close> is that drain, unless what it stops at has a wrapped length.\<close>

lemma consume_frames_unfold:
  "scan_frame d = Need_more \<Longrightarrow> consume_frames d = Some ([], 0)"
  "scan_frame d = Overrun \<Longrightarrow> consume_frames d = None"
  "scan_frame d = Frame body n \<Longrightarrow> consume_frames d =
     map_option (\<lambda>(bs, k). (body # bs, n + k)) (consume_frames (drop n d))"
  by (subst consume_frames.simps; simp split: option.split)+

lemma consume_frames_drain:
  assumes "drain take_frame d = (fs, r)"
  shows "consume_frames d = (if scan_frame r = Overrun then None
     else Some (map (\<lambda>(_, _, body). body) fs, length d - length r)) \<and> r = drop (length d - length r) d"
  using assms
proof (induction d arbitrary: fs r rule: length_induct)
  case (1 d)
  show ?case
  proof (cases "scan_frame d")
    case (Frame body n)
    obtain hdr where hdr: "parse_frame_header d = Some hdr"
      using Frame by (auto simp: scan_frame_def split: option.splits)
    then have tk: "take_frame d = Some ((magic hdr, seq hdr, body), drop n d)"
      using Frame by (simp add: take_frame_Some_iff)
    obtain gs where gs: "drain take_frame (drop n d) = (gs, r)" "fs = (magic hdr, seq hdr, body) # gs"
      using "1.prems" tunnel.drain_Some [OF tk] by (cases "drain take_frame (drop n d)") auto
    have n: "16 \<le> n" "n \<le> length d" using scan_frame_progress [OF Frame] by auto
    have IH: "consume_frames (drop n d) = (if scan_frame r = Overrun then None
        else Some (map (\<lambda>(_, _, body). body) gs, length (drop n d) - length r)) \<and>
        r = drop (length (drop n d) - length r) (drop n d)"
      by (rule "1.IH" [rule_format, OF _ gs(1)]) (use n in simp)
    then have le: "length r \<le> length d - n" by (metis diff_le_self length_drop)
    have "length (drop n d) - length r + n = length d - length r" using le n by simp
    then have r: "r = drop (length d - length r) d"
      using IH by (metis drop_drop)
    have "consume_frames d = (if scan_frame r = Overrun then None
        else Some (map (\<lambda>(_, _, body). body) fs, length d - length r))"
      using consume_frames_unfold(3) [OF Frame] IH le n gs(2) by simp
    with r show ?thesis by blast
  next
    case Need_more
    then have "take_frame d = None" by (simp add: take_frame_None_iff)
    then show ?thesis using "1.prems" Need_more by (auto simp: tunnel.drain_None consume_frames_unfold)
  next
    case Overrun
    then have "take_frame d = None" by (simp add: take_frame_None_iff)
    then show ?thesis using "1.prems" Overrun by (auto simp: tunnel.drain_None consume_frames_unfold)
  qed
qed


lemma consume_buffer_drain:
  assumes "drain take_frame (recv_buf s) = (fs, r)"
  shows "consume_buffer s = (if scan_frame r = Overrun then None
     else Some (map (\<lambda>(_, _, body). body) fs, s\<lparr>recv_buf := r\<rparr>))"
  using consume_frames_drain [OF assms] by (simp add: consume_buffer_def)

lemma consume_buffer_all:
  "drain take_frame (recv_buf s) = (fs, []) \<Longrightarrow>
   consume_buffer s = Some (map (\<lambda>(_, _, body). body) fs, s\<lparr>recv_buf := []\<rparr>)"
proof -
  have "scan_frame [] = Need_more" by (simp add: scan_frame_def parse_frame_header_def)
  then show "drain take_frame (recv_buf s) = (fs, []) \<Longrightarrow> ?thesis"
    using consume_buffer_drain [of s fs "[]"] by simp
qed

lemma drain_rest_empty: "drain take_frame d = (fs, r) \<Longrightarrow> drain take_frame r = ([], r)"
  using tunnel.drain_rest [of d] tunnel.drain_None [of r] by simp

lemma take_pending_drain:
  assumes "drain take_frame d = (fs, r)"
  shows "take_pending_wire_json d =
    (if scan_frame r = Overrun then None else Some (wire_messages (map (\<lambda>(_, _, body). body) fs), r))"
proof (cases "scan_frame r = Overrun")
  case True
  then show ?thesis
    using consume_frames_drain [OF assms] by (subst take_pending_wire_json.simps) simp
next
  case False
  have r0: "take_pending_wire_json r = Some ([], r)"
    using consume_frames_drain [OF drain_rest_empty [OF assms]] False
    by (subst take_pending_wire_json.simps) simp
  have c: "consume_frames d = Some (map (\<lambda>(_, _, body). body) fs, length d - length r)"
    "drop (length d - length r) d = r"
    using consume_frames_drain [OF assms] False by auto
  show ?thesis
  proof (cases "length d - length r = 0")
    case True
    with c have "d = r" by simp
    with assms drain_rest_empty have "fs = []" by fastforce
    with True c False \<open>d = r\<close> show ?thesis using r0 by (simp add: wire_messages_def)
  next
    case False
    then show ?thesis
      using c r0 \<open>scan_frame r \<noteq> Overrun\<close> by (subst take_pending_wire_json.simps) simp
  qed
qed

text \<open>The receive loop: each read is appended to the buffer and what is complete is delivered.\<close>

fun receive :: "bytes \<Rightarrow> bytes list \<Rightarrow> (bytes list \<times> bytes) option" where
  "receive buf [] = Some ([], buf)"
| "receive buf (c # cs) =
     (case take_pending_wire_json (buf @ c) of
        None \<Rightarrow> None
      | Some (ms, buf') \<Rightarrow> map_option (\<lambda>(ns, b). (ms @ ns, b)) (receive buf' cs))"

lemma wire_messages_append: "wire_messages (xs @ ys) = wire_messages xs @ wire_messages ys"
  by (simp add: wire_messages_def)

lemma scan_frame_rest_ok:
  assumes "take_frame buf = None" and "scan_frame (snd (drain take_frame (buf @ c))) \<noteq> Overrun"
  shows "scan_frame buf \<noteq> Overrun"
proof
  assume o: "scan_frame buf = Overrun"
  then have "scan_frame (buf @ c) = Overrun" by (rule scan_frame_overrun_extend)
  then have "drain take_frame (buf @ c) = ([], buf @ c)"
    by (intro tunnel.drain_None) (simp add: take_frame_None_iff)
  with assms \<open>scan_frame (buf @ c) = Overrun\<close> show False by simp
qed

lemma receive_feed:
  assumes "feed take_frame buf cs = (fs, r)" and "take_frame buf = None" and "scan_frame r \<noteq> Overrun"
  shows "receive buf cs = Some (wire_messages (map (\<lambda>(_, _, body). body) fs), r)"
  using assms
proof (induction cs arbitrary: buf fs)
  case Nil
  then show ?case by (simp add: wire_messages_def)
next
  case (Cons c cs)
  obtain gs b1 where d: "drain take_frame (buf @ c) = (gs, b1)" by force
  obtain hs where h: "feed take_frame b1 cs = (hs, r)" "fs = gs @ hs"
    using Cons.prems(1) d by (auto split: prod.splits)
  have n: "take_frame b1 = None" using tunnel.drain_rest [of "buf @ c"] d by simp
  have "snd (drain take_frame (b1 @ concat cs)) = r"
    using tunnel.feed_eq_drain [OF n, of cs] h(1) by (metis snd_conv)
  then have "scan_frame b1 \<noteq> Overrun"
    using scan_frame_rest_ok [OF n] Cons.prems(3) by blast
  then show ?case
    using Cons.IH [OF h(1) n Cons.prems(3)] take_pending_drain [OF d] h(2)
    by (simp add: wire_messages_append)
qed

section \<open>Sending\<close>

lemma send_frame_ok:
  "send_frame mag payload s c = (0, s', c') \<Longrightarrow>
   tx c' = tx c @ frame_bytes (mag, seq_no s, payload) \<and> s' = s\<lparr>seq_no := seq_no s + 1\<rparr> \<and> rd c' = rd c"
  using ssl_write_all_ok
  by (auto simp: send_frame_def frame_bytes_def Let_def split: prod.splits if_splits) 

lemma send_frame_codes: "fst (send_frame mag payload s c) \<in> {0, -1}"
  by (auto simp: send_frame_def Let_def split: prod.splits)

lemma send_frame_session: "fst (snd (send_frame mag payload s c)) = s\<lparr>seq_no := seq_no s + 1\<rparr>"
  by (auto simp: send_frame_def Let_def split: prod.splits)

lemma send_frame_fail:
  assumes "send_frame mag payload s c = (rc, s', c')"
  shows "\<exists>p. prefix p (frame_bytes (mag, seq_no s, payload)) \<and> tx c' = tx c @ p"
proof (cases "rc = 0")
  case True
  then show ?thesis using send_frame_ok assms by blast
next
  case False
  let ?h = "build_frame_header (word_of_nat (length payload)) mag (seq_no s)"
  obtain ok1 c1 where 1: "ssl_write_all ?h c = (ok1, c1)" by force
  show ?thesis
  proof (cases ok1)
    case True
    obtain ok2 c2 where 2: "ssl_write_all payload c1 = (ok2, c2)" by force
    have "tx c1 = tx c @ ?h" using ssl_write_all_ok [of ?h c c1] 1 True by simp
    moreover have "\<not> ok2" "c' = c2"
      using assms False 1 2 True by (auto simp: send_frame_def Let_def split: if_splits)
    ultimately show ?thesis
      using ssl_write_all_fail [of payload c1 c2] 2 by (auto simp: frame_bytes_def)
  next
    case f: False
    then show ?thesis
      using ssl_write_all_fail [of ?h c c1] 1 assms
      by (auto simp: send_frame_def frame_bytes_def prefix_def Let_def) 
  qed
qed


section \<open>The handshake\<close>

text \<open>The order in which a session goes through its phases.\<close>

fun phase_rank :: "handshake_phase \<Rightarrow> nat" where
  "phase_rank NotStarted = 0"
| "phase_rank LoginSent = 1"
| "phase_rank SetupSent = 2"
| "phase_rank Ready = 3"
| "phase_rank Failed = 4"

lemma phase_rank_inj: "phase_rank p = phase_rank q \<Longrightarrow> p = q"
  by (cases p; cases q) simp_all

instantiation handshake_phase :: linorder
begin

definition less_eq_handshake_phase :: "handshake_phase \<Rightarrow> handshake_phase \<Rightarrow> bool" where
  "p \<le> q \<longleftrightarrow> phase_rank p \<le> phase_rank q"

definition less_handshake_phase :: "handshake_phase \<Rightarrow> handshake_phase \<Rightarrow> bool" where
  "p < q \<longleftrightarrow> phase_rank p < phase_rank q"

instance
  by standard (auto simp: less_eq_handshake_phase_def less_handshake_phase_def dest: phase_rank_inj)

end

inductive hs_run :: "config \<Rightarrow> u32 \<Rightarrow> session \<Rightarrow> conn \<Rightarrow> bool" for cfg seed where
  hs_start: "tx c = [] \<Longrightarrow> hs_run cfg seed (new_session seed) c"
| hs_step: "hs_run cfg seed s c \<Longrightarrow> handshake_step cfg s c = Some (rc, s', c') \<Longrightarrow> hs_run cfg seed s' c'"

inductive_cases hs_runE: "hs_run cfg seed s c"

definition login_frame :: "config \<Rightarrow> u32 \<Rightarrow> bytes" where
  "login_frame cfg seed = frame_bytes (kMagicLoginClient, seed, build_login_payload (username cfg) (access_code cfg))"

definition setup_frame :: "config \<Rightarrow> u32 \<Rightarrow> bytes" where
  "setup_frame cfg seed = frame_bytes (kMagicCtrlClient, seed + 1,
     build_setup_json (if client_id cfg = [] then show_hex_fixed 8 (unat (seed + 1)) else client_id cfg) (client_ver cfg))"

fun hs_inv :: "config \<Rightarrow> u32 \<Rightarrow> handshake_phase \<Rightarrow> u32 \<Rightarrow> bytes \<Rightarrow> bool" where
  "hs_inv cfg seed NotStarted q t = (t = [] \<and> q = seed)"
| "hs_inv cfg seed LoginSent q t = (t = login_frame cfg seed \<and> q = seed + 1)"
| "hs_inv cfg seed SetupSent q t = (t = login_frame cfg seed @ setup_frame cfg seed \<and> q = seed + 2)"
| "hs_inv cfg seed Ready q t = (t = login_frame cfg seed @ setup_frame cfg seed \<and> q = seed + 2)"
| "hs_inv cfg seed Failed q t = prefix t (login_frame cfg seed @ setup_frame cfg seed)"

lemma try_read_frames_frame:
  "try_read_frames s c = (rr, s', c') \<Longrightarrow>
   tx c' = tx c \<and> phase s' = phase s \<and> seq_no s' = seq_no s \<and> wr c' = wr c"
  by (auto simp: try_read_frames_def read_some_def split: list.splits ssl_read.splits if_splits read_result.splits)

lemma consume_buffer_frame:
  "consume_buffer s = Some (bodies, s') \<Longrightarrow> phase s' = phase s \<and> seq_no s' = seq_no s"
  by (auto simp: consume_buffer_def split: option.splits)

lemma await_frame:
  "await_setup_ack n s c = Some (rc, s', c') \<Longrightarrow> phase s = SetupSent \<Longrightarrow>
   tx c' = tx c \<and> seq_no s' = seq_no s \<and>
   (rc, phase s') \<in> {(0, Ready), (-1, Failed), (1, SetupSent)}"
proof (induction n s c arbitrary: rc s' c' rule: await_setup_ack.induct)
  case (2 n s c)
  then obtain bodies s1 where b: "consume_buffer s = Some (bodies, s1)"
    by (auto split: option.splits)
  obtain rr s2 c2 where r: "try_read_frames s1 c = (rr, s2, c2)" by (cases "try_read_frames s1 c")
  have s1: "phase s1 = phase s \<and> seq_no s1 = seq_no s" by (rule consume_buffer_frame [OF b])
  have s2: "tx c2 = tx c" "phase s2 = phase s1" "seq_no s2 = seq_no s1"
    using try_read_frames_frame [OF r] by auto
  show ?case
  proof (cases "list_ex is_setup_ack bodies \<or> rr < 0 \<or> rr > 0")
    case True
    then show ?thesis using "2.prems" b r s1 s2 by (auto split: if_splits)
  next
    case False
    then have "rr = 0" by simp
    have "await_setup_ack n s2 c2 = Some (rc, s', c')"
      using "2.prems"(1) b r False by simp
    then show ?thesis
      using "2.IH" [OF b refl _ r [symmetric] refl] False s1 s2 "2.prems"(2) by simp
  qed
qed simp

lemma hs_inv_step:
  assumes "hs_inv cfg seed (phase s) (seq_no s) (tx c)" and "handshake_step cfg s c = Some (rc, s', c')"
  shows "hs_inv cfg seed (phase s') (seq_no s') (tx c')"
proof (cases "phase s")
  case NotStarted
  obtain rc1 s1 c1 where f: "send_frame kMagicLoginClient (build_login_payload (username cfg) (access_code cfg)) s c
      = (rc1, s1, c1)" by (cases "send_frame kMagicLoginClient (build_login_payload (username cfg) (access_code cfg)) s c")
  show ?thesis
  proof (cases "rc1 = 0")
    case True
    then show ?thesis
      using assms NotStarted f send_frame_ok [OF f [unfolded True]] by (auto simp: handshake_step_def login_frame_def)
  next
    case False
    have "\<exists>p. prefix p (login_frame cfg seed) \<and> tx c1 = tx c @ p"
      using send_frame_fail [OF f] assms(1) NotStarted by (auto simp: login_frame_def)
    then show ?thesis
      using assms NotStarted f False by (auto simp: handshake_step_def)
  qed
next
  case LoginSent
  then have tx: "tx c = login_frame cfg seed" and q: "seq_no s = seed + 1" using assms(1) by auto
  obtain rr s1 c1 where r: "try_read_frames s c = (rr, s1, c1)" by (cases "try_read_frames s c")
  then have s1: "tx c1 = tx c" "phase s1 = LoginSent" "seq_no s1 = seq_no s"
    using try_read_frames_frame [OF r] LoginSent by auto
  show ?thesis
  proof (cases "rr < 0 \<or> rr > 0 \<or> \<not> have_login_ack s1")
    case True
    then show ?thesis using assms LoginSent r s1 by (auto simp: handshake_step_def split: if_splits)
  next
    case False
    with assms(2) LoginSent r obtain bodies s2 where b: "consume_buffer s1 = Some (bodies, s2)"
      by (auto simp: handshake_step_def split: option.splits)
    define su where "su = build_setup_json (effective_client_id cfg s) (client_ver cfg)"
    obtain rc3 s3 c3 where f: "send_frame kMagicCtrlClient su s2 c1 = (rc3, s3, c3)"
      by (cases "send_frame kMagicCtrlClient su s2 c1")
    have s2: "seq_no s2 = seed + 1" using consume_buffer_frame [OF b] s1 q by simp
    have sf: "frame_bytes (kMagicCtrlClient, seq_no s2, su) = setup_frame cfg seed"
      by (simp add: setup_frame_def su_def effective_client_id_def q s2)
    have st: "handshake_step cfg s c = (if rc3 \<noteq> 0 then Some (-1, s3\<lparr>phase := Failed\<rparr>, c3)
        else Some (1, s3\<lparr>phase := SetupSent\<rparr>, c3))"
      using LoginSent r False b f by (simp add: handshake_step_def su_def)
    show ?thesis
    proof (cases "rc3 = 0")
      case True
      then show ?thesis using st assms(2) send_frame_ok [OF f [unfolded True]] sf s1 tx s2 by auto
    next
      case False
      then show ?thesis using st assms(2) send_frame_fail [OF f] sf s1 tx by auto
    qed
  qed
next
  case SetupSent
  then have a: "await_setup_ack 32 s c = Some (rc, s', c')"
    using assms(2) by (simp add: handshake_step_def del: await_setup_ack.simps)
  show ?thesis using await_frame [OF a SetupSent] assms(1) SetupSent by auto
qed (use assms in \<open>auto simp: handshake_step_def\<close>)

lemma hs_run_inv: "hs_run cfg seed s c \<Longrightarrow> hs_inv cfg seed (phase s) (seq_no s) (tx c)"
proof (induction rule: hs_run.induct)
  case (hs_start c)
  then show ?case by (simp add: new_session_def)
next
  case (hs_step s c rc s' c')
  then show ?case using hs_inv_step by blast
qed

text \<open>The bytes a read script will still deliver.\<close>

fun rx :: "ssl_read list \<Rightarrow> bytes" where
  "rx [] = []"
| "rx (Rdata bs # rs) = bs @ rx rs"
| "rx (_ # rs) = rx rs"

lemma try_read_frames_rx:
  "try_read_frames s c = (0, s', c') \<Longrightarrow> recv_buf s' @ rx (rd c') = recv_buf s @ rx (rd c)"
  by (auto simp: try_read_frames_def read_some_def split: list.splits ssl_read.splits if_splits read_result.splits)

lemma await_ack:
  "await_setup_ack n s c = Some (0, s', c') \<Longrightarrow>
   \<exists>f \<in> set (fst (drain take_frame (recv_buf s @ rx (rd c)))). is_setup_ack (snd (snd f))"
proof (induction n s c arbitrary: s' c' rule: await_setup_ack.induct)
  case (2 n s c)
  then obtain bodies s1 where b: "consume_buffer s = Some (bodies, s1)"
    by (auto split: option.splits)
  obtain fs r where d: "drain take_frame (recv_buf s) = (fs, r)" by force
  have s1: "bodies = map (\<lambda>(_, _, body). body) fs" "recv_buf s1 = r"
    using consume_buffer_drain [OF d] b by (auto split: if_splits)
  have app: "set fs \<subseteq> set (fst (drain take_frame (recv_buf s @ rx (rd c))))"
    "set (fst (drain take_frame (r @ rx (rd c)))) \<subseteq> set (fst (drain take_frame (recv_buf s @ rx (rd c))))"
    using tunnel.drain_append [of "recv_buf s" "rx (rd c)"] d by auto
  show ?case
  proof (cases "list_ex is_setup_ack bodies")
    case True
    then show ?thesis using s1 app(1) by (force simp: list_ex_iff)
  next
    case False
    obtain rr s2 c2 where tr: "try_read_frames s1 c = (rr, s2, c2)" by (cases "try_read_frames s1 c")
    have rr: "rr = 0" "await_setup_ack n s2 c2 = Some (0, s', c')"
      using "2.prems" b tr False by (auto split: if_splits)
    have "recv_buf s2 @ rx (rd c2) = recv_buf s1 @ rx (rd c)"
      using try_read_frames_rx tr rr(1) by blast
    moreover have "\<exists>f \<in> set (fst (drain take_frame (recv_buf s2 @ rx (rd c2)))). is_setup_ack (snd (snd f))"
      using "2.IH" [OF b refl False tr [symmetric] refl] rr by simp
    ultimately show ?thesis using s1(2) app(2) by auto
  qed
qed simp

lemma handshake_codes:
  assumes "handshake_step cfg s c = Some (rc, s', c')"
  shows "(rc, phase s') \<in> {(0, Ready), (-1, Failed), (1, LoginSent), (1, SetupSent)} \<and>
     phase_rank (phase s) \<le> phase_rank (phase s')"
proof (cases "phase s")
  case NotStarted
  then show ?thesis
    using assms by (auto simp: handshake_step_def split: prod.splits if_splits)
next
  case LoginSent
  then show ?thesis
    using assms try_read_frames_frame
    by (auto simp: handshake_step_def Let_def split: prod.splits if_splits option.splits)
next
  case SetupSent
  then show ?thesis
    using assms await_frame [of 32 s c rc s' c']
    by (auto simp: handshake_step_def simp del: await_setup_ack.simps)
qed (use assms in \<open>auto simp: handshake_step_def\<close>)

section \<open>Properties\<close>

text \<open>Sending a frame writes its header and body, and nothing else, to the connection, and uses up
  one sequence number; when the connection fails, a prefix of those bytes has been written.\<close>

theorem send_frame_writes:
  assumes "send_frame mag payload s c = (rc, s', c')"
  shows "s' = s\<lparr>seq_no := seq_no s + 1\<rparr> \<and> rc \<in> {0, -1} \<and>
    (\<exists>p q. build_frame_header (word_of_nat (length payload)) mag (seq_no s) @ payload = p @ q \<and>
       tx c' = tx c @ p \<and> (rc = 0 \<longrightarrow> q = []))"
proof -
  have "\<exists>p q. frame_bytes (mag, seq_no s, payload) = p @ q \<and> tx c' = tx c @ p \<and> (rc = 0 \<longrightarrow> q = [])"
    using send_frame_fail [OF assms] send_frame_ok [of mag payload s c s' c'] assms
    by (cases "rc = 0") (auto simp: prefix_def)
  then show ?thesis
    using send_frame_codes [of mag payload s c] send_frame_session [of mag payload s c] assms
    by (simp add: frame_bytes_def)
qed

theorem send_frame_writes_witness:
  "\<exists>s' c'. send_frame 1 ''ab'' (new_session 5) \<lparr>rd = [], wr = [], tx = []\<rparr> = (0, s', c') \<and> seq_no s' = 6"
proof -
  obtain rc s' c' where e: "send_frame 1 ''ab'' (new_session 5) \<lparr>rd = [], wr = [], tx = []\<rparr> = (rc, s', c')"
    by (cases "send_frame 1 ''ab'' (new_session 5) \<lparr>rd = [], wr = [], tx = []\<rparr>")
  have "rc = 0"
    using e by (auto simp: send_frame_def ssl_write_all_cases build_frame_header_def write_u32_le_def)
  then show ?thesis
    using send_frame_writes [OF e] e by (auto simp: new_session_def)
qed

text \<open>C10: Message delivery does not depend on how TLS records cut the stream: for frames in any number,
  followed by an incomplete one, the receive loop delivers exactly the messages of the complete
  frames, in order, and keeps the incomplete bytes.\<close>

theorem frames_any_cut:
  assumes "list_all frame_ok fs" and "frame_ok f" and "strict_prefix p (frame_bytes f)"
    and "concat cs = concat (map frame_bytes fs) @ p"
  shows "receive [] cs = Some (wire_messages (map (\<lambda>(_, _, body). body) fs), p)"
  using receive_feed [OF tunnel.feed_frames [OF assms] tunnel.take_one_Nil] scan_frame_partial [OF assms(2,3)]
  by simp

theorem frames_any_cut_witness:
  "receive [] [take 7 (frame_bytes (1, 2, ''{}'')), drop 7 (frame_bytes (1, 2, ''{}'')), take 5 (frame_bytes (1, 3, []))] =
     Some ([''{}''], take 5 (frame_bytes (1, 3, [])))"
proof -
  let ?p = "take 5 (frame_bytes (1, 3, []))"
  have "length ?p \<noteq> length (frame_bytes (1, 3, []))" by (simp add: frame_bytes_def)
  then have "strict_prefix ?p (frame_bytes (1, 3, []))"
    unfolding strict_prefix_def using take_is_prefix by metis
  then show ?thesis
    using frames_any_cut [of "[(1, 2, ''{}'')]" "(1, 3, [])" ?p
        "[take 7 (frame_bytes (1, 2, ''{}'')), drop 7 (frame_bytes (1, 2, ''{}'')), ?p]"]
    by (simp add: frame_ok_def wire_messages_def split_json_prefix_def strip_separator_def starts_with_def)
qed

text \<open>A peer-chosen length overruns the buffer: the frame length is computed in 32 bits, so for
  every length field within 16 of the top of the range the scanner takes a header alone for a
  complete frame and copies its body from beyond the received bytes.\<close>

theorem wrapped_length_overruns:
  assumes "2 ^ 32 \<le> unat n + 16"
  shows "consume_frames (build_frame_header n m q @ rest) = None"
proof -
  have "\<not> 16 \<le> unat (16 + n)"
    using no_wrap [of n] assms unsigned_less [of "16 + n", where ?'a = nat] by auto
  then have "scan_frame (build_frame_header n m q @ rest) = Overrun"
    by (simp add: scan_frame_def Let_def)
  then show ?thesis by (rule consume_frames_unfold(2))
qed

theorem wrapped_length_overruns_witness: "consume_frames (build_frame_header 0xFFFFFFFF 0x0002013F 0) = None"
  using wrapped_length_overruns [of "0xFFFFFFFF" "0x0002013F" 0 "[]"] by simp

text \<open>Waiting for one reply loses the others: with several complete frames in the buffer the first
  body is returned and the rest are erased from the buffer without being delivered.\<close>

theorem recv_payload_keeps_first:
  assumes "list_all frame_ok (f # fs)" and "recv_buf s = concat (map frame_bytes (f # fs))"
  shows "recv_payload s c = Some (0, snd (snd f), s\<lparr>recv_buf := []\<rparr>, c)"
proof -
  have "drain take_frame (recv_buf s) = (f # fs, [])"
    using tunnel.drain_frames [OF assms(1) tunnel.take_one_Nil] assms(2) by simp
  then have "consume_buffer s = Some (map (\<lambda>(_, _, body). body) (f # fs), s\<lparr>recv_buf := []\<rparr>)"
    by (rule consume_buffer_all)
  then show ?thesis
    by (subst recv_payload.simps) (simp split: prod.split)
qed

theorem recv_payload_keeps_first_witness:
  "recv_payload (new_session 0\<lparr>recv_buf := frame_bytes (1, 1, ''first'') @ frame_bytes (1, 2, ''second'')\<rparr>)
       \<lparr>rd = [], wr = [], tx = []\<rparr> =
     Some (0, ''first'', new_session 0\<lparr>recv_buf := []\<rparr>, \<lparr>rd = [], wr = [], tx = []\<rparr>)"
  using recv_payload_keeps_first [of "(1, 1, ''first'')" "[(1, 2, ''second'')]"
      "new_session 0\<lparr>recv_buf := frame_bytes (1, 1, ''first'') @ frame_bytes (1, 2, ''second'')\<rparr>"]
  by (simp add: frame_ok_def)

text \<open>C13: The handshake says the right things in the right order: at every moment of every run, for
  every behaviour of the connection, what has been sent is exactly what the phase stands for, the
  login frame with the first sequence number and then the setup frame with the next; a failed
  handshake has sent a prefix of it.\<close>

theorem handshake_transcript:
  assumes "hs_run cfg seed s c"
  shows "(phase s = LoginSent \<longrightarrow> tx c = login_frame cfg seed) \<and>
     (phase s \<in> {SetupSent, Ready} \<longrightarrow> tx c = login_frame cfg seed @ setup_frame cfg seed \<and> seq_no s = seed + 2) \<and>
     (phase s = Failed \<longrightarrow> prefix (tx c) (login_frame cfg seed @ setup_frame cfg seed))"
  using hs_run_inv [OF assms] by (cases "phase s") auto

theorem handshake_transcript_witness:
  "\<exists>s c. hs_run \<lparr>username = ''bblp'', access_code = ''12345678'', client_id = [], client_ver = []\<rparr> 9 s c \<and>
     tx c = login_frame \<lparr>username = ''bblp'', access_code = ''12345678'', client_id = [], client_ver = []\<rparr> 9"
proof -
  let ?cfg = "\<lparr>username = ''bblp'', access_code = ''12345678'', client_id = [], client_ver = []\<rparr>"
  let ?c = "\<lparr>rd = [], wr = [], tx = []\<rparr>"
  obtain rc s' c' where st: "handshake_step ?cfg (new_session 9) ?c = Some (rc, s', c')" and "phase s' = LoginSent"
    by (auto simp: handshake_step_def new_session_def send_frame_def ssl_write_all_cases build_frame_header_def
        write_u32_le_def build_login_payload_def ascii_field_def)
  moreover have r: "hs_run ?cfg 9 s' c'"
    by (rule hs_step [OF hs_start [of ?c] st]) simp
  ultimately show ?thesis using handshake_transcript [OF r] r by blast
qed

text \<open>A session becomes ready only on the printer's word: the step that reports success from an
  unfinished handshake starts after the setup request was sent, and among the complete frames
  received there is one whose body is a setup reply with result 0.\<close>

theorem ready_needs_ack:
  assumes "handshake_step cfg s c = Some (0, s', c')" and "phase s \<noteq> Ready"
  shows "phase s = SetupSent \<and> phase s' = Ready \<and>
     (\<exists>f \<in> set (fst (drain take_frame (recv_buf s @ rx (rd c)))). is_setup_ack (snd (snd f)))"
proof -
  have "phase s = SetupSent"
    using assms by (auto simp: handshake_step_def Let_def split: handshake_phase.splits prod.splits if_splits option.splits)
  moreover from this have "await_setup_ack 32 s c = Some (0, s', c')"
    using assms(1) by (simp add: handshake_step_def del: await_setup_ack.simps)
  ultimately show ?thesis using await_ack handshake_codes [OF assms(1)] by auto
qed

theorem ready_needs_ack_witness:
  "\<exists>f \<in> set (fst (drain take_frame (frame_bytes (2, 1, dump (Object [(''mtype'', jint 12291), (''result'', jint 0)]))))).
     is_setup_ack (snd (snd f))"
proof -
  let ?v = "Object [(''mtype'', jint 12291), (''result'', jint 0)]"
  let ?s = "new_session 0\<lparr>phase := SetupSent, recv_buf := frame_bytes (2, 1, dump ?v)\<rparr>"
  let ?c = "\<lparr>rd = [], wr = [], tx = []\<rparr>"
  have d: "dumpable ?v" by (simp add: dumpable_jint om_ok_def)
  have ack: "is_setup_ack (dump ?v)"
    using parse_dump [OF d]
    by (simp add: is_setup_ack_def parse_opt_def jfind_key jget_def om_get_Cons as_int_jint kMtypeCtrlSetup_def
        del: dump.simps) simp
  have "length (dump ?v) + 16 < 2 ^ 32"
    by (simp add: dump_jint escape_def escape_char_def show_int_def show_nat.simps)
  then have "drain take_frame (frame_bytes (2, 1, dump ?v)) = ([(2, 1, dump ?v)], [])"
    using tunnel.drain_frames [of "[(2, 1, dump ?v)]", OF _ tunnel.take_one_Nil] by (simp add: frame_ok_def del: dump.simps)
  then have "consume_buffer ?s = Some ([dump ?v], ?s\<lparr>recv_buf := []\<rparr>)"
    using consume_buffer_all [of ?s] by (simp del: dump.simps)
  then have "handshake_step \<lparr>username = [], access_code = [], client_id = [], client_ver = []\<rparr> ?s ?c =
      Some (0, ?s\<lparr>recv_buf := [], phase := Ready\<rparr>, ?c)"
    using ack by (simp add: handshake_step_def numeral_eq_Suc del: dump.simps)
  from ready_needs_ack [OF this] show ?thesis by simp
qed

text \<open>The handshake only moves forward, its two end phases are final, and the result code tells the
  phase: 0 exactly when ready, -1 exactly when failed, 1 while in progress.\<close>

theorem handshake_monotone:
  assumes "handshake_step cfg s c = Some (rc, s', c')"
  shows "phase s \<le> phase s' \<and> (rc = 0 \<longleftrightarrow> phase s' = Ready) \<and> (rc = -1 \<longleftrightarrow> phase s' = Failed) \<and>
     rc \<in> {0, 1, -1} \<and> (phase s \<in> {Ready, Failed} \<longrightarrow> s' = s \<and> c' = c)"
  using handshake_codes [OF assms] assms
  by (auto simp: less_eq_handshake_phase_def handshake_step_def)

theorem handshake_monotone_witness:
  "phase (new_session 0\<lparr>phase := Failed\<rparr>) \<le> phase (new_session 0\<lparr>phase := Failed\<rparr>)"
  using handshake_monotone [of cfg "new_session 0\<lparr>phase := Failed\<rparr>" c "-1" "new_session 0\<lparr>phase := Failed\<rparr>" c for cfg c]
  by (simp add: handshake_step_def)

end
