(* ===== verification/Tunnel_Upload.thy ===== *)
theory Tunnel_Upload
  imports Tunnel_Session
begin

text \<open>
  The file operations over the tunnel, \<open>src/tunnel_upload.cpp\<close>: waiting for the reply to a
  request, listing models, fetching a thumbnail, downloading, the chunked upload, and the
  \<open>Connection\<close> class that runs them.

  An operation returns \<open>Ret\<close> its result and the new state, \<open>Overran\<close> when the frame scanner
  ran past its buffer, or \<open>Blocked\<close> when it waits for bytes the connection never delivers.
  Parameters of the model: the local file (its bytes, or \<open>None\<close> when it cannot be opened; it
  does not change while it is sent), the digest \<open>md5\<close> with its lower-case hex output (OpenSSL),
  the answers \<open>cancelled\<close> gives at its n-th call, the random identifiers, and the outcome of the
  TLS dial. Socket timeouts and log output have no effect on the model.
\<close>

section \<open>Results of operations that wait\<close>

datatype 'a io = Ret 'a | Overran | Blocked

fun io_bind :: "'a io \<Rightarrow> ('a \<Rightarrow> 'b io) \<Rightarrow> 'b io" where
  "io_bind (Ret a) f = f a"
| "io_bind Overran f = Overran"
| "io_bind Blocked f = Blocked"

definition lift_opt :: "'a option \<Rightarrow> 'a io" where
  "lift_opt x = (case x of None \<Rightarrow> Overran | Some a \<Rightarrow> Ret a)"

lemma io_bind_Ret_iff: "io_bind m f = Ret b \<longleftrightarrow> (\<exists>a. m = Ret a \<and> f a = Ret b)"
  by (cases m) auto

lemma lift_opt_Ret_iff [simp]: "lift_opt x = Ret a \<longleftrightarrow> x = Some a"
  by (auto simp: lift_opt_def split: option.split)

text \<open>What a read still has in front of it.\<close>

definition pending :: "session \<Rightarrow> conn \<Rightarrow> nat" where
  "pending s c = length (recv_buf s) + 2 * unread (rd c)"

lemma consume_buffer_pending:
  "consume_buffer s = Some (bodies, s') \<Longrightarrow>
   length (recv_buf s') + 16 * length bodies \<le> length (recv_buf s)"
proof -
  have "consume_frames d = Some (bs, k) \<Longrightarrow> 16 * length bs \<le> k \<and> k \<le> length d" for d bs k
  proof (induction d arbitrary: bs k rule: consume_frames.induct)
    case (1 d)
    show ?case
    proof (cases "scan_frame d")
      case (Frame body n)
      then obtain cs j where "consume_frames (drop n d) = Some (cs, j)" "bs = body # cs" "k = n + j"
        using "1.prems" by (auto simp: consume_frames_unfold)
      with "1.IH" [OF Frame] scan_frame_progress [OF Frame] show ?thesis by fastforce
    qed (use "1.prems" in \<open>auto simp: consume_frames_unfold\<close>)
  qed
  then show "consume_buffer s = Some (bodies, s') \<Longrightarrow> ?thesis"
    by (fastforce simp: consume_buffer_def split: option.splits)
qed

lemma try_read_pending:
  assumes "try_read_frames s c = (rc, s', c')"
  shows "rc = 0 \<and> pending s' c' < pending s c \<or>
     rc = 1 \<and> (rd c = [] \<and> s' = s \<and> c' = c \<or> pending s' c' < pending s c) \<or>
     rc = -1 \<and> pending s' c' < pending s c"
  using assms
  by (auto simp: try_read_frames_def read_some_def pending_def
      split: list.splits ssl_read.splits if_splits read_result.splits)

lemma recv_payload_pending:
  "recv_payload s c = Some (rc, body, s', c') \<Longrightarrow>
   rc \<in> {0, 1, -1} \<and> (pending s' c' < pending s c \<or> rc = 1 \<and> rd c' = [])"
proof (induction s c arbitrary: rc body s' c' rule: recv_payload.induct)
  case (1 s c)
  obtain bodies s1 where b: "consume_buffer s = Some (bodies, s1)"
    using "1.prems" by (subst (asm) recv_payload.simps) (auto split: option.splits)
  have p1: "pending s1 c + 16 * length bodies \<le> pending s c"
    using consume_buffer_pending [OF b] by (simp add: pending_def)
  show ?case
  proof (cases bodies)
    case (Cons x xs)
    then show ?thesis using "1.prems" b p1 by (subst (asm) recv_payload.simps) auto
  next
    case Nil
    obtain rr s2 c2 where r: "try_read_frames s1 c = (rr, s2, c2)" by (cases "try_read_frames s1 c")
    have e: "recv_payload s c = (if rr < 0 then Some (-1, [], s2, c2)
        else if rr > 0 then Some (1, [], s2, c2) else recv_payload s2 c2)"
      using b Nil r by (subst recv_payload.simps) simp
    show ?thesis
    proof (cases "rr = 0")
      case True
      then have "recv_payload s2 c2 = Some (rc, body, s', c')" using e "1.prems" by simp
      then have "rc \<in> {0, 1, -1} \<and> (pending s' c' < pending s2 c2 \<or> rc = 1 \<and> rd c' = [])"
        using "1.IH" [OF b] Nil r True by simp
      then show ?thesis using try_read_pending [OF r] True p1 by auto
    next
      case False
      then show ?thesis using try_read_pending [OF r] e "1.prems" p1 by auto
    qed
  qed
qed

section \<open>Receiving\<close>

text \<open>
  The inner wait of the receive loops: \<open>recv_payload\<close> until it delivers or fails, polling the
  socket in between.
\<close>

function recv_loop :: "session \<Rightarrow> conn \<Rightarrow> (int \<times> bytes \<times> session \<times> conn) io" where
  "recv_loop s c =
     (case recv_payload s c of
        None \<Rightarrow> Overran
      | Some (rc, body, s', c') \<Rightarrow>
          if rc = 0 then Ret (0, body, s', c')
          else if rc < 0 then Ret (-1, [], s', c')
          else if rd c' = [] then Blocked
          else recv_loop s' c')"
  by pat_completeness auto
termination
  by (relation "measure (\<lambda>(s, c). pending s c)") (auto dest!: recv_payload_pending)

declare recv_loop.simps [simp del]

definition payload_json :: "bytes \<Rightarrow> bytes \<times> bytes" where
  "payload_json payload =
     (case split_json_prefix payload of None \<Rightarrow> (payload, []) | Some (json, bin) \<Rightarrow> (json, bin))"

definition recv_json_payload :: "session \<Rightarrow> conn \<Rightarrow> (bytes option \<times> session \<times> conn) io" where
  "recv_json_payload s c =
     io_bind (recv_loop s c) (\<lambda>(rc, payload, s', c').
       Ret (if rc \<noteq> 0 then None else Some (fst (payload_json payload)), s', c'))"

definition reply_matches :: "int \<Rightarrow> u32 \<Rightarrow> bytes \<Rightarrow> bool" where
  "reply_matches want_cmd want_seq json =
     (parse_wire_cmdtype json = want_cmd \<and>
      (want_seq = 0 \<or> word_of_int (parse_wire_sequence json) = want_seq))"

fun recv_skips :: "nat \<Rightarrow> int \<Rightarrow> u32 \<Rightarrow> session \<Rightarrow> conn \<Rightarrow> (bytes option \<times> session \<times> conn) io" where
  "recv_skips 0 cmd sq s c = Ret (None, s, c)"
| "recv_skips (Suc n) cmd sq s c =
     io_bind (recv_json_payload s c) (\<lambda>(r, s', c').
       case r of
         None \<Rightarrow> Ret (None, s', c')
       | Some json \<Rightarrow> if reply_matches cmd sq json then Ret (Some json, s', c')
                      else recv_skips n cmd sq s' c')"

definition recv_wire_json :: "int \<Rightarrow> u32 \<Rightarrow> session \<Rightarrow> conn \<Rightarrow> (bytes option \<times> session \<times> conn) io" where
  "recv_wire_json cmd sq s c =
     io_bind (lift_opt (drain_pending_wire_json s)) (\<lambda>(msgs, s1).
       case find (reply_matches cmd sq) msgs of
         Some json \<Rightarrow> Ret (Some json, s1, c)
       | None \<Rightarrow> recv_skips 32 cmd sq s1 c)"

definition drain_stale_wire_json :: "session \<Rightarrow> session io" where
  "drain_stale_wire_json s = io_bind (lift_opt (drain_pending_wire_json s)) (\<lambda>(_, s'). Ret s')"

text \<open>The text \<open>describe_ssl_io_error\<close> gives when OpenSSL has queued no error.\<close>

definition ssl_error_text :: bytes where
  "ssl_error_text = ''SSL I/O error (no OpenSSL error queued)''"

section \<open>Download\<close>

definition download_progress_pct :: "bytes \<Rightarrow> int" where
  "download_progress_pct wire =
     (case parse_opt wire of None \<Rightarrow> -1
      | Some doc \<Rightarrow>
          let reply = jfind doc ''reply'' in
          if \<not> is_object reply then -1
          else let tot = as_number (-1) (jfind reply ''total'') in
            if tot \<le> 0 then -1
            else
              let offset = as_number 0 (jfind reply ''offset''); sz = as_number 0 (jfind reply ''size'');
                  pct = dround (dround (dround (offset + sz) * 100) / tot)
              in if pct < 0 then 0 else if 100 < pct then 100 else cast_i32 pct)"

definition reply_has_mem_dl_param :: "bytes \<Rightarrow> bool" where
  "reply_has_mem_dl_param wire =
     (case parse_opt wire of None \<Rightarrow> False
      | Some doc \<Rightarrow>
          let reply = jfind doc ''reply'' in
          is_object reply \<and> is_number (jfind reply ''mem_dl_param_size'') \<and>
          0 < as_number 0 (jfind reply ''mem_dl_param_size''))"

record download_request =
  dr_path :: bytes
  dr_target_path :: bytes

record download_outcome =
  d_ok :: bool
  d_data :: bytes
  d_wire_result :: int
  d_error :: bytes
  d_json_body :: bytes

definition download_start :: download_outcome where
  "download_start = \<lparr>d_ok = False, d_data = [], d_wire_result = 0, d_error = [], d_json_body = []\<rparr>"

lemma recv_loop_unfold:
  "recv_payload s c = None \<Longrightarrow> recv_loop s c = Overran"
  "recv_payload s c = Some (rc, body, s', c') \<Longrightarrow> recv_loop s c =
     (if rc = 0 then Ret (0, body, s', c') else if rc < 0 then Ret (-1, [], s', c')
      else if rd c' = [] then Blocked else recv_loop s' c')"
  by (subst recv_loop.simps; simp)+

lemma recv_loop_pending:
  "recv_loop s c = Ret (rc, body, s', c') \<Longrightarrow> (rc = 0 \<or> rc = -1) \<and> pending s' c' < pending s c"
proof (induction s c arbitrary: rc body s' c' rule: recv_loop.induct)
  case (1 s c)
  show ?case
  proof (cases "recv_payload s c")
    case None
    then show ?thesis using "1.prems" by (simp add: recv_loop_unfold)
  next
    case (Some x)
    obtain rc1 b1 s1 c1 where x: "x = (rc1, b1, s1, c1)" by (cases x)
    have p: "rc1 \<in> {0, 1, -1}" "pending s1 c1 < pending s c \<or> rc1 = 1 \<and> rd c1 = []"
      using recv_payload_pending Some x by blast+
    show ?thesis
    proof (cases "rc1 = 1 \<and> rd c1 \<noteq> []")
      case True
      then have "recv_loop s1 c1 = Ret (rc, body, s', c')"
        using "1.prems" recv_loop_unfold(2) [OF Some [unfolded x]] by simp
      then show ?thesis using "1.IH" [OF Some x [symmetric] refl refl] True p(2) by fastforce
    next
      case False
      then show ?thesis using "1.prems" recv_loop_unfold(2) [OF Some [unfolded x]] p by (auto split: if_splits)
    qed
  qed
qed


text \<open>
  \<open>run_download\<close> after the request is sent. \<open>n\<close> counts the calls of \<open>cancelled\<close>, \<open>ps\<close> is what
  \<open>progress\<close> was called with.
\<close>

function download_loop :: "(nat \<Rightarrow> bool) \<Rightarrow> nat \<Rightarrow> download_outcome \<Rightarrow> int list \<Rightarrow> session \<Rightarrow> conn
    \<Rightarrow> (download_outcome \<times> int list \<times> session \<times> conn) io" where
  "download_loop cancelled n out ps s c =
     (if cancelled n then Ret (out\<lparr>d_error := ''cancelled''\<rparr>, ps, s, c)
      else case recv_loop s c of
        Overran \<Rightarrow> Overran
      | Blocked \<Rightarrow> Blocked
      | Ret (rc, payload, s', c') \<Rightarrow>
          if rc \<noteq> 0 then Ret (out\<lparr>d_error := ssl_error_text\<rparr>, ps, s', c')
          else
            let (wire, chunk) = payload_json payload;
                result = parse_wire_result wire;
                out1 = out\<lparr>d_wire_result := result,
                  d_data := (if chunk \<noteq> [] \<and> \<not> reply_has_mem_dl_param wire then d_data out @ chunk else d_data out)\<rparr>;
                pct = download_progress_pct wire;
                ps1 = (if 0 \<le> pct then ps @ [pct] else ps)
            in if result = 1 then download_loop cancelled (Suc n) out1 ps1 s' c'
               else if result = 0 then
                 let body = parse_wire_reply_json wire in
                 Ret (out1\<lparr>d_ok := True, d_json_body := (if body = [] then wire else body)\<rparr>, ps1, s', c')
               else Ret (out1\<lparr>d_error := ''download failed wire result='' @ show_int result\<rparr>, ps1, s', c'))"
  by pat_completeness auto
termination
  by (relation "measure (\<lambda>(cancelled, n, out, ps, s, c). pending s c)") (auto dest!: recv_loop_pending)

declare download_loop.simps [simp del]

definition run_download :: "u32 \<Rightarrow> download_request \<Rightarrow> (nat \<Rightarrow> bool) \<Rightarrow> session \<Rightarrow> conn
    \<Rightarrow> (download_outcome \<times> int list \<times> session \<times> conn) io" where
  "run_download sq req cancelled s c =
     (if dr_path req = [] then Ret (download_start\<lparr>d_error := ''missing download path''\<rparr>, [], s, c)
      else io_bind (drain_stale_wire_json s) (\<lambda>s1.
        let (rc, s2, c2) = send_abi_json (build_file_download_abi sq (dr_path req) 0 (dr_target_path req)) s1 c in
        if rc \<noteq> 0 then Ret (download_start\<lparr>d_error := ssl_error_text\<rparr>, [], s2, c2)
        else download_loop cancelled 0 download_start [] s2 c2))"

section \<open>Thumbnails\<close>

record model_file_entry =
  mf_name :: bytes
  mf_path :: bytes
  mf_time :: int

record list_info_outcome =
  li_ok :: bool
  li_files :: "model_file_entry list"
  li_wire_result :: int
  li_error :: bytes

record sub_file_outcome =
  sf_ok :: bool
  sf_data :: bytes
  sf_wire_result :: int
  sf_error :: bytes

definition wire_chunk_is_image :: "bytes \<Rightarrow> bool" where
  "wire_chunk_is_image chunk =
     (starts_with [CHR 0x89, CHR ''P'', CHR ''N'', CHR ''G'', CR, LF, CHR 0x1A, LF] chunk \<or>
      starts_with [CHR 0xFF, CHR 0xD8] chunk)"

definition sub_file_start :: sub_file_outcome where
  "sub_file_start = \<lparr>sf_ok = False, sf_data = [], sf_wire_result = 0, sf_error = []\<rparr>"

text \<open>A reply to another request is read and skipped.\<close>

function sub_file_loop :: "u32 \<Rightarrow> sub_file_outcome \<Rightarrow> session \<Rightarrow> conn
    \<Rightarrow> (sub_file_outcome \<times> session \<times> conn) io" where
  "sub_file_loop sq out s c =
     (case recv_loop s c of
        Overran \<Rightarrow> Overran
      | Blocked \<Rightarrow> Blocked
      | Ret (rc, payload, s', c') \<Rightarrow>
          if rc \<noteq> 0 then Ret (out\<lparr>sf_error := ssl_error_text\<rparr>, s', c')
          else
            let (wire, chunk) = payload_json payload in
            if parse_wire_cmdtype wire = kCmdSubFile \<and> word_of_int (parse_wire_sequence wire) = sq then
              let result = parse_wire_result wire;
                  data = (if chunk \<noteq> [] \<and> wire_chunk_is_image chunk then chunk else sf_data out);
                  out1 = out\<lparr>sf_data := data, sf_wire_result := result\<rparr>
              in if result = 1 then sub_file_loop sq out1 s' c'
                 else if result = 0 then
                   Ret (if data \<noteq> [] then out1\<lparr>sf_ok := True\<rparr>
                        else out1\<lparr>sf_error := ''sub_file empty payload''\<rparr>, s', c')
                 else if data \<noteq> [] then Ret (out1\<lparr>sf_ok := True\<rparr>, s', c')
                 else Ret (out1\<lparr>sf_error := ''sub_file failed wire result='' @ show_int result\<rparr>, s', c')
            else sub_file_loop sq out s' c')"
  by pat_completeness auto
termination
  by (relation "measure (\<lambda>(sq, out, s, c). pending s c)") (auto dest!: recv_loop_pending)

declare sub_file_loop.simps [simp del]

definition run_sub_file :: "u32 \<Rightarrow> bytes list \<Rightarrow> bytes \<Rightarrow> session \<Rightarrow> conn
    \<Rightarrow> (sub_file_outcome \<times> session \<times> conn) io" where
  "run_sub_file sq paths storage s c =
     (if paths = [] then Ret (sub_file_start\<lparr>sf_error := ''missing sub_file paths''\<rparr>, s, c)
      else io_bind (drain_stale_wire_json s) (\<lambda>s1.
        let (rc, s2, c2) = send_abi_json (build_sub_file_abi sq paths storage) s1 c in
        if rc \<noteq> 0 then Ret (sub_file_start\<lparr>sf_error := ssl_error_text\<rparr>, s2, c2)
        else sub_file_loop sq sub_file_start s2 c2))"

definition file_entries :: "json list \<Rightarrow> model_file_entry list" where
  "file_entries items =
     concat (map (\<lambda>item.
       if \<not> is_object item then []
       else let e = \<lparr>mf_name = as_string (jfind item ''name''), mf_path = as_string (jfind item ''path''),
                     mf_time = as_int 0 (jfind item ''time'')\<rparr>
            in if mf_path e \<noteq> [] then [e] else []) items)"

definition list_info_reply :: "bytes \<Rightarrow> list_info_outcome" where
  "list_info_reply wire =
     (let rc = parse_wire_result wire;
          out = \<lparr>li_ok = False, li_files = [], li_wire_result = rc, li_error = []\<rparr> in
      if rc \<noteq> 0 then out\<lparr>li_error := ''list_info wire result='' @ show_int rc\<rparr>
      else case parse wire of
        Inl (Perr e) \<Rightarrow> out\<lparr>li_error := (if e = [] then ''list_info parse failed'' else e)\<rparr>
      | Inl Fuel_out \<Rightarrow> out
      | Inr doc \<Rightarrow>
          let lists = jfind doc ''reply.file_lists'' in
          if \<not> is_array lists then out\<lparr>li_error := ''list_info missing file_lists''\<rparr>
          else out\<lparr>li_ok := True, li_files := file_entries (as_array lists)\<rparr>)"

definition run_list_info :: "u32 \<Rightarrow> bytes \<Rightarrow> session \<Rightarrow> conn \<Rightarrow> (list_info_outcome \<times> session \<times> conn) io" where
  "run_list_info sq storage s c =
     (let fail = (\<lambda>e. \<lparr>li_ok = False, li_files = [], li_wire_result = 0, li_error = e\<rparr>) in
      io_bind (drain_stale_wire_json s) (\<lambda>s1.
        let (rc, s2, c2) = send_abi_json (build_list_info_abi sq ''model'' storage) s1 c in
        if rc \<noteq> 0 then Ret (fail ssl_error_text, s2, c2)
        else io_bind (recv_wire_json kCmdListInfo sq s2 c2) (\<lambda>(r, s3, c3).
          case r of
            None \<Rightarrow> Ret (fail ''list_info reply timeout'', s3, c3)
          | Some wire \<Rightarrow> Ret (list_info_reply wire, s3, c3))))"

definition name_matches_model :: "bytes \<Rightarrow> bytes \<Rightarrow> bool" where
  "name_matches_model listing model =
     (listing = model \<or>
      \<not> ends_with ''.3mf'' model \<and> (listing = model @ ''.gcode.3mf'' \<or> listing = model @ ''.3mf''))"

definition base_name :: "bytes \<Rightarrow> bytes" where
  "base_name p = (case rfind_char SLASH p of Some i \<Rightarrow> drop (i + 1) p | None \<Rightarrow> p)"

definition entry_matches :: "bytes \<Rightarrow> model_file_entry \<Rightarrow> bool" where
  "entry_matches model f =
     (name_matches_model (mf_name f) model \<or> name_matches_model (base_name (mf_path f)) model)"

text \<open>The lambda \<open>consider\<close>: is the new entry the better one?\<close>

definition better_entry :: "model_file_entry \<Rightarrow> model_file_entry \<Rightarrow> bool" where
  "better_entry f best =
     (let cache_a = contains ''/cache/'' (mf_path f); cache_b = contains ''/cache/'' (mf_path best) in
      if cache_a \<noteq> cache_b then cache_a
      else if mf_time f \<noteq> mf_time best then mf_time f > mf_time best
      else ends_with ''.gcode.3mf'' (mf_name f) \<and> \<not> ends_with ''.gcode.3mf'' (mf_name best))"

definition consider_entry :: "bytes \<Rightarrow> model_file_entry \<Rightarrow> model_file_entry option \<Rightarrow> model_file_entry option" where
  "consider_entry model f best =
     (if \<not> entry_matches model f then best
      else case best of None \<Rightarrow> Some f | Some b \<Rightarrow> if better_entry f b then Some f else Some b)"

definition find_model_entry :: "model_file_entry list \<Rightarrow> bytes \<Rightarrow> model_file_entry option" where
  "find_model_entry files model = fold (consider_entry model) files None"

definition model_list_storages :: "bytes list" where
  "model_list_storages = [[], ''internal'', ''emmc'']"

definition sub_file_storage_labels :: "bytes \<Rightarrow> bytes list" where
  "sub_file_storage_labels storage =
     (if storage = [] then [''udisk'', []]
      else if storage = ''internal'' then [''internal'', ''emmc'']
      else if storage = ''emmc'' then [''emmc'', ''internal'']
      else [storage])"

definition tile_thumbnail_sub_paths :: "bytes \<Rightarrow> int \<Rightarrow> bytes list" where
  "tile_thumbnail_sub_paths path idx =
     (let k = (if idx < 1 then 1 else idx); n = show_int k in
      [path @ ''#Metadata/plate_'' @ n @ ''.png'', path @ ''#Metadata/plate_no_light_'' @ n @ ''.png'',
       path @ ''#thumbnail''] @
      (if k \<noteq> 1 then [path @ ''#Metadata/plate_1.png'', path @ ''#Metadata/plate_no_light_1.png''] else []))"

end
