(* ===== verification/Tunnel_Connection.thy ===== *)
theory Tunnel_Connection
  imports Tunnel_Upload
begin

text \<open>
  The chunked upload of \<open>src/tunnel_upload.cpp\<close> (\<open>run_chunked_upload\<close>) and the class
  \<open>Connection\<close>: connect with the handshake, and one wire sequence number per operation.
\<close>

section \<open>The chunked upload\<close>

record upload_request =
  ur_local :: "bytes option"
  ur_local_path :: bytes
  ur_dest_storage :: bytes
  ur_dest_name :: bytes

record upload_outcome =
  u_ok :: bool
  u_bytes :: nat
  u_md5_lower :: bytes
  u_wire_result :: int
  u_error :: bytes
  u_json_body :: bytes

definition upload_start :: upload_outcome where
  "upload_start = \<lparr>u_ok = False, u_bytes = 0, u_md5_lower = [], u_wire_result = 0, u_error = [], u_json_body = []\<rparr>"

text \<open>
  The digest of the part the printer already has: the bytes fed to the digest, or \<open>None\<close>
  when the file ends before the resume offset.
\<close>

function hash_prefix :: "nat \<Rightarrow> bytes \<Rightarrow> nat \<Rightarrow> nat \<Rightarrow> bytes option" where
  "hash_prefix buf file hashed offset =
     (if offset \<le> hashed then Some []
      else let want = min (offset - hashed) buf; got = take want (drop hashed file) in
        if got = [] then None
        else map_option (\<lambda>r. got @ r) (hash_prefix buf file (hashed + length got) offset))"
  by pat_completeness auto
termination
  by (relation "measure (\<lambda>(buf, file, hashed, offset). offset - hashed)")
    (auto simp: Let_def not_le intro!: diff_less_mono2)

declare hash_prefix.simps [simp del]

text \<open>
  State of the fragment loop: the file position, the loop's variables, the bytes digested, what
  \<open>progress\<close> was called with, and the session. \<open>read_size\<close> is the 32-bit count of the code.
\<close>

record upload_state =
  us_pos :: nat
  us_offset :: nat
  us_frag_id :: u32
  us_last_pct :: int
  us_hashed :: bytes
  us_digest :: bytes
  us_progress :: "int list"

definition upload_pct :: "nat \<Rightarrow> nat \<Rightarrow> int" where
  "upload_pct offset fsize = narrow_i32 (int (offset * 100 mod 2 ^ 64 div fsize))"

definition report_progress :: "int \<Rightarrow> upload_state \<Rightarrow> upload_state" where
  "report_progress pct u =
     (if pct \<noteq> us_last_pct u then u\<lparr>us_last_pct := pct, us_progress := us_progress u @ [pct]\<rparr> else u)"

text \<open>The update of the loop's variables once a fragment of \<open>k\<close> counted bytes is on the wire.\<close>

definition advance :: "nat \<Rightarrow> bytes \<Rightarrow> nat \<Rightarrow> bytes \<Rightarrow> upload_state \<Rightarrow> upload_state" where
  "advance fsize got k file_md5 u =
     (let offset' = us_offset u + k in
      report_progress (upload_pct offset' fsize)
        (u\<lparr>us_pos := us_pos u + length got, us_offset := offset', us_frag_id := us_frag_id u + 1,
           us_hashed := us_hashed u @ take k got,
           us_digest := (if fsize \<le> offset' then file_md5 else us_digest u)\<rparr>))"

lemma advance_simps [simp]:
  "us_pos (advance fsize got k m u) = us_pos u + length got"
  "us_offset (advance fsize got k m u) = us_offset u + k"
  "us_frag_id (advance fsize got k m u) = us_frag_id u + 1"
  "us_hashed (advance fsize got k m u) = us_hashed u @ take k got"
  "us_digest (advance fsize got k m u) = (if fsize \<le> us_offset u + k then m else us_digest u)"
  by (simp_all add: advance_def report_progress_def Let_def)

text \<open>The error text with the state, or the state after the last fragment.\<close>

function upload_loop :: "(bytes \<Rightarrow> bytes) \<Rightarrow> (nat \<Rightarrow> bool) \<Rightarrow> u32 \<Rightarrow> nat \<Rightarrow> bytes \<Rightarrow> nat \<Rightarrow> upload_state
    \<Rightarrow> session \<Rightarrow> conn \<Rightarrow> (bytes option \<times> upload_state \<times> session \<times> conn) io" where
  "upload_loop md5 cancelled sq buf file n u s c =
     (if length file \<le> us_offset u then Ret (None, u, s, c)
      else if cancelled n then Ret (Some ''cancelled'', u, s, c)
      else
        let want = min (length file - us_offset u) buf;
            got = take want (drop (us_pos u) file);
            read_size = word_of_nat (length got) :: u32;
            k = unat read_size;
            last_chunk = (length file \<le> us_offset u + k);
            file_md5 = (if last_chunk then md5 (us_hashed u @ take k got) else [])
        in if got = [] then Ret (Some ''read error'', u, s, c)
           else if last_chunk \<and> file_md5 = [] then Ret (Some ''md5 finalize failed'', u, s, c)
           else
             (case send_abi_json_with_binary
                     (build_file_upload_chunk_abi sq (us_frag_id u) (word_of_nat (us_offset u)) read_size file_md5)
                     (take k got) False s c of
                None \<Rightarrow> Overran
              | Some (rc, s', c') \<Rightarrow>
                  if rc \<noteq> 0 then Ret (Some ssl_error_text, u, s', c')
                  else upload_loop md5 cancelled sq buf file (Suc n) (advance (length file) got k file_md5 u) s' c'))"
  by pat_completeness auto

lemma take_drop_progress:
  "got = take n (drop p xs) \<Longrightarrow> got \<noteq> [] \<Longrightarrow> length xs - (p + length got) < length xs - (p :: nat)"
  by (cases "p < length xs") auto

termination upload_loop
proof (relation "measure (\<lambda>(md5, cancelled, sq, buf, file, n, u, s, c). length file - us_pos u)", goal_cases)
  case 1
  show ?case by simp
next
  case 2
  show ?case unfolding in_measure prod.case advance_simps by (rule take_drop_progress [OF 2(4) 2(9)])
qed

declare upload_loop.simps [simp del]

text \<open>The final reply: up to 32 replies that say \<open>CONTINUE\<close> are skipped.\<close>

fun await_final :: "nat \<Rightarrow> u32 \<Rightarrow> int \<Rightarrow> session \<Rightarrow> conn \<Rightarrow> (int option \<times> session \<times> conn) io" where
  "await_final 0 sq rc s c = Ret (Some rc, s, c)"
| "await_final (Suc n) sq rc s c =
     io_bind (recv_wire_json kCmdFileUpload sq s c) (\<lambda>(r, s', c').
       case r of
         None \<Rightarrow> Ret (None, s', c')
       | Some wire \<Rightarrow>
           let rc' = parse_wire_result wire in
           if rc' = 1 then await_final n sq rc' s' c' else Ret (Some rc', s', c'))"

definition finish_upload :: "nat \<Rightarrow> bytes \<Rightarrow> int \<Rightarrow> upload_outcome" where
  "finish_upload fsize digest rc =
     (let out = upload_start\<lparr>u_bytes := fsize, u_md5_lower := digest, u_wire_result := rc\<rparr> in
      if rc = 0 \<or> rc = 19 then out\<lparr>u_ok := True\<rparr>
      else out\<lparr>u_error := ''upload failed wire result='' @ show_int rc\<rparr>)"

text \<open>Everything after a good reply to the init request.\<close>

definition upload_fragments :: "(bytes \<Rightarrow> bytes) \<Rightarrow> (nat \<Rightarrow> bool) \<Rightarrow> u32 \<Rightarrow> bytes \<Rightarrow> u32 \<Rightarrow> u64
    \<Rightarrow> session \<Rightarrow> conn \<Rightarrow> (upload_outcome \<times> int list \<times> session \<times> conn) io" where
  "upload_fragments md5 cancelled sq file kb offset s c =
     (let buf = unat kb * 1024; off = unat offset in
      case hash_prefix buf file 0 off of
        None \<Rightarrow> Ret (upload_start\<lparr>u_error := ''read error hashing resume prefix''\<rparr>, [], s, c)
      | Some pre \<Rightarrow>
          io_bind (upload_loop md5 cancelled sq buf file 0
              \<lparr>us_pos = off, us_offset = off, us_frag_id = 0, us_last_pct = -1, us_hashed = pre,
               us_digest = [], us_progress = []\<rparr> s c) (\<lambda>(e, u, s1, c1).
            case e of
              Some msg \<Rightarrow> Ret (upload_start\<lparr>u_error := msg\<rparr>, us_progress u, s1, c1)
            | None \<Rightarrow>
                io_bind (await_final 32 sq (-1) s1 c1) (\<lambda>(r, s2, c2).
                  case r of
                    None \<Rightarrow> Ret (upload_start\<lparr>u_error := ssl_error_text\<rparr>, us_progress u, s2, c2)
                  | Some rc \<Rightarrow>
                      let out = finish_upload (length file) (us_digest u) rc in
                      Ret (out, if u_ok out then us_progress u @ [100] else us_progress u, s2, c2))))"

definition run_chunked_upload :: "(bytes \<Rightarrow> bytes) \<Rightarrow> (nat \<Rightarrow> bool) \<Rightarrow> u32 \<Rightarrow> upload_request
    \<Rightarrow> session \<Rightarrow> conn \<Rightarrow> (upload_outcome \<times> int list \<times> session \<times> conn) io" where
  "run_chunked_upload md5 cancelled sq req s c =
     (if ur_dest_storage req = [] \<or> ur_dest_name req = [] \<or> ur_local_path req = [] then
        Ret (upload_start\<lparr>u_error := ''missing upload fields''\<rparr>, [], s, c)
      else case ur_local req of
        None \<Rightarrow> Ret (upload_start\<lparr>u_error := ''cannot open local file''\<rparr>, [], s, c)
      | Some file \<Rightarrow>
          io_bind (drain_stale_wire_json s) (\<lambda>s1.
            let (rc, s2, c2) = send_abi_json
                  (build_file_upload_init_abi sq (ur_dest_storage req) (ur_dest_name req) (word_of_nat (length file))) s1 c in
            if rc \<noteq> 0 then Ret (upload_start\<lparr>u_error := ssl_error_text\<rparr>, [], s2, c2)
            else io_bind (recv_wire_json kCmdFileUpload sq s2 c2) (\<lambda>(r, s3, c3).
              case r of
                None \<Rightarrow> Ret (upload_start\<lparr>u_error := ssl_error_text\<rparr>, [], s3, c3)
              | Some wire \<Rightarrow>
                  (case parse_upload_init_reply wire of
                     (irc, None) \<Rightarrow> Ret (upload_start\<lparr>u_wire_result := irc, u_error := ''bad upload init reply''\<rparr>, [], s3, c3)
                   | (irc, Some (kb, offset)) \<Rightarrow> upload_fragments md5 cancelled sq file kb offset s3 c3))))"

section \<open>Connections\<close>

record connect_params =
  cp_dev_ip :: bytes
  cp_dev_id :: bytes
  cp_port :: int
  cp_username :: bytes
  cp_password :: bytes
  cp_client_id :: bytes
  cp_client_ver :: bytes

text \<open>\<open>im_link\<close> is the TLS stream with its session while connected.\<close>

record connection =
  im_link :: "(session \<times> conn) option"
  im_wire_seq :: u32

definition new_connection :: connection where
  "new_connection = \<lparr>im_link = None, im_wire_seq = 1\<rparr>"

definition connect_params_from_print :: "bytes \<Rightarrow> bytes \<Rightarrow> bytes \<Rightarrow> connect_params" where
  "connect_params_from_print ip dev pw =
     \<lparr>cp_dev_ip = ip, cp_dev_id = dev, cp_port = 6000, cp_username = ''bblp'', cp_password = pw,
      cp_client_id = [], cp_client_ver = []\<rparr>"

definition session_cfg :: "bytes \<Rightarrow> bytes \<Rightarrow> connect_params \<Rightarrow> config" where
  "session_cfg uuid version p =
     \<lparr>username = cp_username p, access_code = cp_password p,
      client_id = (if cp_client_id p = [] then uuid else cp_client_id p),
      client_ver = (if cp_client_ver p \<noteq> [] then cp_client_ver p else version)\<rparr>"

text \<open>\<open>registry\<close> is the serial the TLS registry knows for the address.\<close>

definition tls_serial_for :: "(bytes \<Rightarrow> bytes option) \<Rightarrow> connect_params \<Rightarrow> bytes option" where
  "tls_serial_for registry p = (if cp_dev_id p \<noteq> [] then Some (cp_dev_id p) else registry (cp_dev_ip p))"

fun handshake_loop :: "nat \<Rightarrow> config \<Rightarrow> session \<Rightarrow> conn \<Rightarrow> (bool \<times> session \<times> conn) io" where
  "handshake_loop 0 cfg s c = Ret (False, s, c)"
| "handshake_loop (Suc n) cfg s c =
     (case handshake_step cfg s c of
        None \<Rightarrow> Overran
      | Some (hs, s', c') \<Rightarrow>
          if hs = 0 then Ret (True, s', c')
          else if hs < 0 then Ret (False, s', c')
          else handshake_loop n cfg s' c')"

definition disconnect :: "connection \<Rightarrow> connection" where
  "disconnect k = k\<lparr>im_link := None\<rparr>"

definition is_connected :: "connection \<Rightarrow> bool" where
  "is_connected k = (im_link k \<noteq> None)"

definition next_wire_seq :: "connection \<Rightarrow> u32 \<times> connection" where
  "next_wire_seq k = (im_wire_seq k, k\<lparr>im_wire_seq := im_wire_seq k + 1\<rparr>)"

text \<open>\<open>dial\<close> is the outcome of the TLS dial: the stream, or the error text.\<close>

definition connect :: "config \<Rightarrow> u32 \<Rightarrow> bytes + conn \<Rightarrow> connection \<Rightarrow> (int \<times> bytes \<times> connection) io" where
  "connect cfg seed dial k =
     (let k0 = disconnect k in
      case dial of
        Inl e \<Rightarrow> Ret (-1, if e \<noteq> [] then e else ''TLS dial failed'', k0)
      | Inr c \<Rightarrow>
          io_bind (handshake_loop 64 cfg (new_session seed) c) (\<lambda>(ready, s, c').
            if ready then Ret (0, [], k0\<lparr>im_link := Some (s, c')\<rparr>)
            else Ret (-1, ''BambuTunnelLocal handshake failed'', disconnect k0)))"

text \<open>An operation of a connected client: it takes a sequence number and runs on the session.\<close>

definition with_link :: "'a \<Rightarrow> (u32 \<Rightarrow> session \<Rightarrow> conn \<Rightarrow> ('a \<times> session \<times> conn) io) \<Rightarrow> connection
    \<Rightarrow> ('a \<times> connection) io" where
  "with_link not_connected f k =
     (case im_link k of
        None \<Rightarrow> Ret (not_connected, k)
      | Some (s, c) \<Rightarrow>
          let (sq, k1) = next_wire_seq k in
          io_bind (f sq s c) (\<lambda>(r, s', c'). Ret (r, k1\<lparr>im_link := Some (s', c')\<rparr>)))"

definition upload :: "(bytes \<Rightarrow> bytes) \<Rightarrow> (nat \<Rightarrow> bool) \<Rightarrow> upload_request \<Rightarrow> connection
    \<Rightarrow> ((upload_outcome \<times> int list) \<times> connection) io" where
  "upload md5 cancelled req k =
     with_link (upload_start\<lparr>u_error := ''not connected''\<rparr>, [])
       (\<lambda>sq s c. io_bind (run_chunked_upload md5 cancelled sq req s c) (\<lambda>(out, ps, s', c'). Ret ((out, ps), s', c'))) k"

definition query_media_ability :: "connection \<Rightarrow> (upload_outcome \<times> connection) io" where
  "query_media_ability k =
     with_link (upload_start\<lparr>u_error := ''not connected''\<rparr>)
       (\<lambda>sq s c.
          let (rc, s1, c1) = send_abi_json (build_media_ability_abi sq) s c in
          if rc \<noteq> 0 then Ret (upload_start\<lparr>u_error := ssl_error_text\<rparr>, s1, c1)
          else io_bind (recv_json_payload s1 c1) (\<lambda>(r, s2, c2).
            case r of
              None \<Rightarrow> Ret (upload_start\<lparr>u_error := ssl_error_text\<rparr>, s2, c2)
            | Some wire \<Rightarrow>
                let body = parse_ability_reply_to_ft_json wire in
                Ret (if body = [] then upload_start\<lparr>u_error := ''bad ability reply''\<rparr>
                     else upload_start\<lparr>u_ok := True, u_json_body := body\<rparr>, s2, c2))) k"

definition download :: "(nat \<Rightarrow> bool) \<Rightarrow> download_request \<Rightarrow> connection
    \<Rightarrow> ((download_outcome \<times> int list) \<times> connection) io" where
  "download cancelled req k =
     with_link (download_start\<lparr>d_error := ''not connected''\<rparr>, [])
       (\<lambda>sq s c. io_bind (run_download sq req cancelled s c) (\<lambda>(out, ps, s', c'). Ret ((out, ps), s', c'))) k"

record thumbnail_outcome =
  t_ok :: bool
  t_data :: bytes
  t_path :: bytes
  t_error :: bytes

definition thumbnail_fail :: "bytes \<Rightarrow> thumbnail_outcome" where
  "thumbnail_fail e = \<lparr>t_ok = False, t_data = [], t_path = [], t_error = e\<rparr>"

text \<open>The storages the wire may know the listed file under, in turn.\<close>

fun try_sub_files :: "bytes list \<Rightarrow> bytes \<Rightarrow> int \<Rightarrow> connection \<Rightarrow> (bytes option \<times> connection) io" where
  "try_sub_files [] path idx k = Ret (None, k)"
| "try_sub_files (st # sts) path idx k =
     io_bind (with_link sub_file_start
         (\<lambda>sq s c. run_sub_file sq (tile_thumbnail_sub_paths path idx) st s c) k) (\<lambda>(sf, k').
       if \<not> sf_ok sf \<or> sf_data sf = [] \<or> \<not> wire_chunk_is_image (sf_data sf)
       then try_sub_files sts path idx k' else Ret (Some (sf_data sf), k'))"

fun try_storages :: "bytes list \<Rightarrow> bytes \<Rightarrow> int \<Rightarrow> connection \<Rightarrow> (thumbnail_outcome \<times> connection) io" where
  "try_storages [] model idx k = Ret (thumbnail_fail ''model not in LIST_INFO'', k)"
| "try_storages (st # sts) model idx k =
     io_bind (with_link \<lparr>li_ok = False, li_files = [], li_wire_result = 0, li_error = []\<rparr>
         (\<lambda>sq s c. run_list_info sq st s c) k) (\<lambda>(lst, k1).
       case (if li_ok lst then find_model_entry (li_files lst) model else None) of
         None \<Rightarrow> try_storages sts model idx k1
       | Some hit \<Rightarrow>
           io_bind (try_sub_files (sub_file_storage_labels st) (mf_path hit) idx k1) (\<lambda>(r, k2).
             case r of
               Some data \<Rightarrow> Ret (\<lparr>t_ok = True, t_data = data, t_path = mf_path hit, t_error = []\<rparr>, k2)
             | None \<Rightarrow> Ret (thumbnail_fail ''SUB_FILE thumbnail failed'', k2)))"

definition fetch_model_tile_thumbnail :: "bytes \<Rightarrow> int \<Rightarrow> connection \<Rightarrow> (thumbnail_outcome \<times> connection) io" where
  "fetch_model_tile_thumbnail model idx k =
     (if \<not> is_connected k then Ret (thumbnail_fail ''not connected'', k)
      else if model = [] then Ret (thumbnail_fail ''missing model name'', k)
      else try_storages model_list_storages model (if idx < 1 then 1 else idx) k)"

definition kErrCanceled :: int where "kErrCanceled = -18"

definition upload_file :: "(bytes \<Rightarrow> bytes) \<Rightarrow> (nat \<Rightarrow> bool) \<Rightarrow> config \<Rightarrow> u32 \<Rightarrow> bytes + conn \<Rightarrow> upload_request \<Rightarrow> int
    \<Rightarrow> (int \<times> upload_outcome \<times> int list) io" where
  "upload_file md5 cancelled cfg seed dial req err_code =
     io_bind (connect cfg seed dial new_connection) (\<lambda>(rc, e, k).
       if rc \<noteq> 0 then Ret (err_code, upload_start\<lparr>u_error := e\<rparr>, [])
       else io_bind (upload md5 cancelled req k) (\<lambda>((out, ps), _).
         Ret (if u_ok out then 0 else if u_error out = ''cancelled'' then kErrCanceled else err_code, out, ps)))"

section \<open>What an upload puts on the wire\<close>

text \<open>
  The specification of a chunked upload: consecutive pieces of the rest of the file with their
  fragment number, offset and checksum, which only the last one carries.
\<close>

type_synonym fragment = "u32 \<times> nat \<times> bytes \<times> bytes"

function fragments :: "nat \<Rightarrow> nat \<Rightarrow> u32 \<Rightarrow> bytes \<Rightarrow> bytes \<Rightarrow> fragment list" where
  "fragments buf off fr rest md =
     (if rest = [] \<or> buf = 0 then []
      else (fr, off, if length rest \<le> buf then md else [], take buf rest)
        # fragments buf (off + length (take buf rest)) (fr + 1) (drop buf rest) md)"
  by pat_completeness auto
termination
  by (relation "measure (\<lambda>(buf, off, fr, rest, md). length rest)") auto

declare fragments.simps [simp del]

lemma fragments_Nil [simp]: "fragments buf off fr [] md = []"
  by (simp add: fragments.simps)

fun fragment_frames :: "u32 \<Rightarrow> u32 \<Rightarrow> fragment list \<Rightarrow> frame list" where
  "fragment_frames sq q [] = []"
| "fragment_frames sq q ((fr, off, md, d) # xs) =
     (kMagicCtrlClient, q, wrap_ctrl_abi_with_binary
        (build_file_upload_chunk_abi sq fr (word_of_nat off) (word_of_nat (length d)) md) d)
     # fragment_frames sq (q + 1) xs"

lemma fragments_concat: "0 < buf \<Longrightarrow> concat (map (\<lambda>(_, _, _, d). d) (fragments buf off fr rest md)) = rest"
proof (induction buf off fr rest md rule: fragments.induct)
  case (1 buf off fr rest md)
  then show ?case
    by (subst fragments.simps) auto
qed

lemma send_binary_ok:
  assumes "send_abi_json_with_binary abi bin False s c = Some (0, s', c')"
  shows "tx c' = tx c @ frame_bytes (kMagicCtrlClient, seq_no s, wrap_ctrl_abi_with_binary abi bin) \<and>
     s' = s\<lparr>seq_no := seq_no s + 1\<rparr> \<and> rd c' = rd c"
proof (cases "bin = []")
  case True
  with assms have "send_frame kMagicCtrlClient (wrap_ctrl_abi abi) s c = (0, s', c')"
    by (simp add: send_abi_json_with_binary_def send_abi_json_def)
  with True show ?thesis using send_frame_ok by (simp add: wrap_ctrl_abi_with_binary_def)
next
  case False
  then have "send_frame kMagicCtrlClient (wrap_ctrl_abi_with_binary abi bin) s c = (0, s', c')"
    using assms
    by (auto simp: send_abi_json_with_binary_def send_abi_json_with_binary_stream_def wrap_ctrl_abi_with_binary_def
        Let_def split: prod.splits if_splits)
  then show ?thesis using send_frame_ok by blast
qed

lemma upload_loop_end: "length file \<le> us_offset u \<Longrightarrow> upload_loop md5 cancelled sq buf file n u s c = Ret (None, u, s, c)"
  by (simp add: upload_loop.simps)

lemma upload_loop_unfold:
  assumes "us_offset u < length file" and "got = take (min (length file - us_offset u) buf) (drop (us_pos u) file)"
    and "k = unat (word_of_nat (length got) :: u32)"
    and "m = (if length file \<le> us_offset u + k then md5 (us_hashed u @ take k got) else [])"
  shows "upload_loop md5 cancelled sq buf file n u s c =
     (if cancelled n then Ret (Some ''cancelled'', u, s, c)
      else if got = [] then Ret (Some ''read error'', u, s, c)
      else if length file \<le> us_offset u + k \<and> m = [] then Ret (Some ''md5 finalize failed'', u, s, c)
      else
        (case send_abi_json_with_binary
             (build_file_upload_chunk_abi sq (us_frag_id u) (word_of_nat (us_offset u)) (word_of_nat (length got)) m)
             (take k got) False s c of
           None \<Rightarrow> Overran
         | Some (rc, s', c') \<Rightarrow>
             if rc \<noteq> 0 then Ret (Some ssl_error_text, u, s', c')
             else upload_loop md5 cancelled sq buf file (Suc n) (advance (length file) got k m u) s' c'))"
proof -
  have "\<not> length file \<le> us_offset u" using assms(1) by simp
  then show ?thesis
    unfolding upload_loop.simps [of md5 cancelled sq buf "file" n u s c] Let_def assms(2) [symmetric]
      assms(3) [symmetric] assms(4) [symmetric]
    by (simp only: if_False)
qed

lemma upload_loop_step:
  assumes "us_offset u < length file" and "us_pos u = us_offset u" and "0 < buf" and "buf < 2 ^ 32"
    and "upload_loop md5 cancelled sq buf file n u s c = Ret (None, u', s', c')"
    and d_def: "d = take buf (drop (us_offset u) file)"
    and m_def: "m = (if length file - us_offset u \<le> buf then md5 (us_hashed u @ d) else [])"
  shows "\<exists>s1 c1. send_abi_json_with_binary
      (build_file_upload_chunk_abi sq (us_frag_id u) (word_of_nat (us_offset u)) (word_of_nat (length d)) m) d False s c
      = Some (0, s1, c1) \<and>
    upload_loop md5 cancelled sq buf file (Suc n) (advance (length file) d (length d) m u) s1 c1 = Ret (None, u', s', c')"
proof -
  have got: "d = take (min (length file - us_offset u) buf) (drop (us_pos u) file)"
    using assms(2) by (simp add: d_def min_def)
  have d: "length d = min (length file - us_offset u) buf" "d \<noteq> []"
    using assms(1,3) by (auto simp: d_def)
  have k: "length d = unat (word_of_nat (length d) :: u32)"
    using d(1) assms(4) by (simp add: unat_of_nat take_bit_nat_eq_self)
  have "length file \<le> us_offset u + length d \<longleftrightarrow> length file - us_offset u \<le> buf"
    using d(1) assms(1) by auto
  then have m: "m = (if length file \<le> us_offset u + length d then md5 (us_hashed u @ take (length d) d) else [])"
    by (simp add: m_def)
  show ?thesis
    using upload_loop_unfold [where got = d and k = "length d" and m = m and ?md5.0 = md5 and buf = buf and u = u
        and ?file = "file" and cancelled = cancelled and sq = sq and n = n and s = s and c = c, OF assms(1) got k m] assms(5) d(2)
    by (auto split: if_splits option.splits)
qed

lemma upload_loop_sends:
  assumes "upload_loop md5 cancelled sq buf file n u s c = Ret (None, u', s', c')"
    and "us_pos u = us_offset u" and "us_hashed u = take (us_offset u) file"
    and "us_offset u \<le> length file" and "0 < buf" and "buf < 2 ^ 32"
  shows "tx c' = tx c @ concat (map frame_bytes (fragment_frames sq (seq_no s)
      (fragments buf (us_offset u) (us_frag_id u) (drop (us_offset u) file) (md5 file)))) \<and>
    us_digest u' = (if us_offset u < length file then md5 file else us_digest u)"
  using assms
proof (induction "length file - us_offset u" arbitrary: n u s c rule: less_induct)
  case less
  show ?case
  proof (cases "us_offset u < length file")
    case False
    then show ?thesis using less.prems by (simp add: upload_loop_end)
  next
    case True
    define d where "d = take buf (drop (us_offset u) file)"
    define m where "m = (if length file - us_offset u \<le> buf then md5 (us_hashed u @ d) else [])"
    define u1 where "u1 = advance (length file) d (length d) m u"
    obtain s1 c1 where snd1: "send_abi_json_with_binary (build_file_upload_chunk_abi sq (us_frag_id u)
          (word_of_nat (us_offset u)) (word_of_nat (length d)) m) d False s c = Some (0, s1, c1)"
      and lp: "upload_loop md5 cancelled sq buf file (Suc n) u1 s1 c1 = Ret (None, u', s', c')"
      using upload_loop_step [OF True less.prems(2,5,6,1) d_def m_def] unfolding u1_def by blast
    have len: "length d = min (length file - us_offset u) buf" "0 < length d"
      using True less.prems(5) by (auto simp: d_def)
    have whole: "us_hashed u @ d = file" if "length file - us_offset u \<le> buf"
      using that less.prems(3) by (simp add: d_def)
    have hashed: "us_hashed u @ d = take (us_offset u1) file"
      using less.prems(3) len(1) by (simp add: d_def u1_def take_add min_def)
    have off: "us_offset u1 = us_offset u + length d" "us_frag_id u1 = us_frag_id u + 1" by (simp_all add: u1_def)
    have IH: "tx c' = tx c1 @ concat (map frame_bytes (fragment_frames sq (seq_no s1)
        (fragments buf (us_offset u1) (us_frag_id u1) (drop (us_offset u1) file) (md5 file)))) \<and>
      us_digest u' = (if us_offset u1 < length file then md5 file else us_digest u1)"
    proof (rule less.hyps)
      show "length file - us_offset u1 < length file - us_offset u" using off len True by simp
      show "us_hashed u1 = take (us_offset u1) file" using hashed by (simp add: u1_def)
      show "us_offset u1 \<le> length file" using off len True by simp
    qed (use lp less.prems in \<open>simp_all add: u1_def\<close>)
    have m: "m = (if length (drop (us_offset u) file) \<le> buf then md5 file else [])"
      using whole by (simp add: m_def)
    have frs: "fragments buf (us_offset u) (us_frag_id u) (drop (us_offset u) file) (md5 file) =
        (us_frag_id u, us_offset u, m, d) # fragments buf (us_offset u1) (us_frag_id u1) (drop (us_offset u1) file) (md5 file)"
    proof -
      have "drop buf (drop (us_offset u) file) = drop (us_offset u1) file"
        using len off by (simp add: min_def add.commute)
      then show ?thesis
        using True less.prems(5) off m by (subst fragments.simps) (simp add: d_def)
    qed
    have dig: "us_digest u1 = md5 file" if "\<not> us_offset u1 < length file"
      using that off len m True by (auto simp: u1_def min_def split: if_splits)
    show ?thesis
      using IH send_binary_ok [OF snd1] frs dig True by auto
  qed
qed


section \<open>What the printer makes of it\<close>

text \<open>A received body read as an upload fragment: number, offset, size, checksum and data.\<close>

definition printer_fragment :: "bytes \<Rightarrow> (int \<times> int \<times> int \<times> bytes \<times> bytes) option" where
  "printer_fragment body =
     (case split_json_prefix body of
        None \<Rightarrow> None
      | Some (json, bin) \<Rightarrow>
          (case parse_opt json of
             None \<Rightarrow> None
           | Some w \<Rightarrow> Some (as_int 0 (jfind w ''req.frag_id''), as_int 0 (jfind w ''req.offset''),
                as_int 0 (jfind w ''req.size''), as_string (jfind w ''req.file_md5''), bin)))"

lemma printer_fragment_chunk:
  assumes "off < 2 ^ 53" and "length d < 2 ^ 32"
  shows "printer_fragment (wrap_ctrl_abi_with_binary
      (build_file_upload_chunk_abi sq fr (word_of_nat off) (word_of_nat (length d)) md) d)
    = Some (uint fr, int off, int (length d), md, d)"
proof -
  have o: "uint (word_of_nat off :: u64) = int off"
    using assms(1) by (simp add: unsigned_of_nat take_bit_nat_eq_self)
  have l: "uint (word_of_nat (length d) :: u32) = int (length d)"
    using assms(2) by (simp add: unsigned_of_nat take_bit_nat_eq_self)
  have "uint (word_of_nat off :: u64) < 2 ^ 53" using o assms(1) by simp
  from upload_chunk_wire [OF this, of sq fr "word_of_nat (length d)" md d] show ?thesis
    unfolding o l printer_fragment_def by auto
qed

definition fragment_fields :: "fragment \<Rightarrow> int \<times> int \<times> int \<times> bytes \<times> bytes" where
  "fragment_fields = (\<lambda>(fr, off, md, d). (uint fr, int off, int (length d), md, d))"

lemma fragment_frames_decode:
  assumes "\<forall>(fr, off, md, d) \<in> set xs. off < 2 ^ 53 \<and> length d < 2 ^ 32"
  shows "map (\<lambda>(_, _, body). printer_fragment body) (fragment_frames sq q xs) = map (Some \<circ> fragment_fields) xs"
  using assms
proof (induction sq q xs rule: fragment_frames.induct)
  case (2 sq q fr off md d xs)
  then show ?case
    using printer_fragment_chunk [of off d sq fr md] by (simp add: fragment_fields_def)
qed simp

lemma fragments_bounds:
  "(fr', off', md', d) \<in> set (fragments buf off fr rest md) \<Longrightarrow>
   off' + length d \<le> off + length rest \<and> length d \<le> buf"
proof (induction buf off fr rest md rule: fragments.induct)
  case (1 buf off fr rest md)
  show ?case
  proof (cases "rest = [] \<or> buf = 0")
    case True
    then show ?thesis using "1.prems" by (subst (asm) fragments.simps) auto
  next
    case False
    then have "(fr', off', md', d) = (fr, off, if length rest \<le> buf then md else [], take buf rest) \<or>
        (fr', off', md', d) \<in> set (fragments buf (off + length (take buf rest)) (fr + 1) (drop buf rest) md)"
      using "1.prems" by (subst (asm) fragments.simps) auto
    then show ?thesis
      using "1.IH" [OF False] by (elim disjE) auto
  qed
qed

section \<open>Receiving does not write\<close>

lemma recv_payload_tx: "recv_payload s c = Some (rc, body, s', c') \<Longrightarrow> tx c' = tx c"
proof (induction s c arbitrary: rc body s' c' rule: recv_payload.induct)
  case (1 s c)
  obtain bodies s1 where b: "consume_buffer s = Some (bodies, s1)"
    using "1.prems" by (subst (asm) recv_payload.simps) (auto split: option.splits)
  show ?case
  proof (cases bodies)
    case (Cons x xs)
    then show ?thesis using "1.prems" b by (subst (asm) recv_payload.simps) auto
  next
    case Nil
    obtain rr s2 c2 where r: "try_read_frames s1 c = (rr, s2, c2)" by (cases "try_read_frames s1 c")
    have e: "recv_payload s c = (if rr < 0 then Some (-1, [], s2, c2)
        else if rr > 0 then Some (1, [], s2, c2) else recv_payload s2 c2)"
      using b Nil r by (subst recv_payload.simps) simp
    show ?thesis
    proof (cases "rr = 0")
      case True
      then have "recv_payload s2 c2 = Some (rc, body, s', c')" using e "1.prems" by simp
      then have "tx c' = tx c2" using "1.IH" [OF b] Nil r True by simp
      then show ?thesis using try_read_frames_frame [OF r] by simp
    next
      case False
      then show ?thesis using e "1.prems" try_read_frames_frame [OF r] by (auto split: if_splits)
    qed
  qed
qed

lemma recv_loop_tx: "recv_loop s c = Ret (rc, body, s', c') \<Longrightarrow> tx c' = tx c"
proof (induction s c arbitrary: rc body s' c' rule: recv_loop.induct)
  case (1 s c)
  show ?case
  proof (cases "recv_payload s c")
    case None
    then show ?thesis using "1.prems" by (simp add: recv_loop_unfold)
  next
    case (Some x)
    obtain rc1 b1 s1 c1 where x: "x = (rc1, b1, s1, c1)" by (cases x)
    note t = recv_payload_tx [OF Some [unfolded x]]
    show ?thesis
      using "1.prems" recv_loop_unfold(2) [OF Some [unfolded x]] t
        "1.IH" [OF Some x [symmetric] refl refl] by (auto split: if_splits)
  qed
qed

lemma recv_json_payload_tx: "recv_json_payload s c = Ret (r, s', c') \<Longrightarrow> tx c' = tx c"
  by (auto simp: recv_json_payload_def io_bind_Ret_iff dest: recv_loop_tx)

lemma recv_skips_tx: "recv_skips n cmd sq s c = Ret (r, s', c') \<Longrightarrow> tx c' = tx c"
proof (induction n arbitrary: s c)
  case (Suc n)
  then show ?case
    by (auto simp: io_bind_Ret_iff dest!: recv_json_payload_tx split: option.splits if_splits)
qed simp

lemma recv_wire_json_tx: "recv_wire_json cmd sq s c = Ret (r, s', c') \<Longrightarrow> tx c' = tx c"
  by (auto simp: recv_wire_json_def io_bind_Ret_iff dest!: recv_skips_tx split: option.splits
      simp del: recv_skips.simps)

lemma await_final_tx: "await_final n sq rc s c = Ret (r, s', c') \<Longrightarrow> tx c' = tx c"
proof (induction n arbitrary: rc s c)
  case (Suc n)
  then show ?case
    by (auto simp: io_bind_Ret_iff Let_def dest!: recv_wire_json_tx split: option.splits if_splits)
qed simp

lemma hash_prefix_spec:
  assumes "0 < buf"
  shows "hash_prefix buf file h off =
     (if off \<le> h then Some [] else if off \<le> length file then Some (take (off - h) (drop h file)) else None)"
proof (induction "off - h" arbitrary: h rule: less_induct)
  case less
  show ?case
  proof (cases "off \<le> h")
    case True
    then show ?thesis by (simp add: hash_prefix.simps)
  next
    case False
    define got where "got = take (min (off - h) buf) (drop h file)"
    have step: "hash_prefix buf file h off = (if got = [] then None
        else map_option (\<lambda>r. got @ r) (hash_prefix buf file (h + length got) off))"
      using False unfolding hash_prefix.simps [of buf "file" h off] Let_def got_def [symmetric] by simp
    show ?thesis
    proof (cases "got = []")
      case True
      then have "length file \<le> h" using False assms by (auto simp: got_def)
      then show ?thesis using step True False by simp
    next
      case ne: False
      then have IH: "hash_prefix buf file (h + length got) off =
          (if off \<le> h + length got then Some [] else if off \<le> length file
           then Some (take (off - (h + length got)) (drop (h + length got) file)) else None)"
        using less False by (metis diff_less_mono2 length_greater_0_conv less_add_same_cancel1 not_le)
      have gl: "length got = min (min (off - h) buf) (length file - h)" by (simp add: got_def)
      show ?thesis
      proof (cases "off \<le> length file")
        case True
        have "got @ take (off - (h + length got)) (drop (h + length got) file) = take (off - h) (drop h file)"
        proof -
          have "take (length (take k ys)) ys = take k ys" for k and ys :: bytes by (simp add: min_def)
          then have "got = take (length got) (drop h file)" by (simp only: got_def)
          moreover have "off - h = length got + (off - (h + length got))" using gl False by simp
          ultimately show ?thesis by (metis add.commute drop_drop take_add)
        qed
        moreover have "off \<le> h + length got \<Longrightarrow> got = take (off - h) (drop h file)"
          using gl False True by (simp add: got_def)
        ultimately show ?thesis using step ne IH False True by auto
      next
        case f: False
        then have "\<not> off \<le> h + length got" using gl ne False by (cases "h < length file") auto
        then show ?thesis using step ne IH False f by simp
      qed
    qed
  qed
qed


section \<open>Progress\<close>

lemma upload_pct_mono:
  assumes "a \<le> b" and "b \<le> n" and "n * 100 < 2 ^ 64" and "0 < n"
  shows "upload_pct a n \<le> upload_pct b n \<and> 0 \<le> upload_pct a n \<and> upload_pct b n \<le> 100 \<and> upload_pct n n = 100"
proof -
  have e: "upload_pct x n = int (x * 100 div n)" if "x \<le> n" for x
  proof -
    have "x * 100 < 2 ^ 64" using that assms(3) by (meson le_less_trans mult_le_mono1)
    moreover have "x * 100 div n \<le> 100" using that assms(4)
      by (metis div_le_mono mult.commute mult_le_mono1 nonzero_mult_div_cancel_right not_less_zero)
    ultimately show ?thesis by (simp add: upload_pct_def)
  qed
  have "a * 100 div n \<le> b * 100 div n" using assms(1) by (intro div_le_mono) simp
  moreover have "b * 100 div n \<le> 100" using assms(2,4)
    by (metis div_le_mono mult.commute mult_le_mono1 nonzero_mult_div_cancel_right not_less_zero)
  ultimately show ?thesis using e assms by auto
qed

definition progress_ok :: "nat \<Rightarrow> upload_state \<Rightarrow> bool" where
  "progress_ok fsize u =
     (sorted_wrt (<) (us_progress u) \<and> (\<forall>p \<in> set (us_progress u). 0 \<le> p \<and> p \<le> us_last_pct u) \<and>
      (us_last_pct u = -1 \<or> us_last_pct u \<le> upload_pct (us_offset u) fsize))"

lemma progress_ok_advance:
  assumes "progress_ok fsize u" and "us_offset u + k \<le> fsize" and "fsize * 100 < 2 ^ 64" and "0 < fsize"
  shows "progress_ok fsize (advance fsize got k m u)"
proof -
  have "upload_pct (us_offset u) fsize \<le> upload_pct (us_offset u + k) fsize" "0 \<le> upload_pct (us_offset u + k) fsize"
    using upload_pct_mono [of "us_offset u" "us_offset u + k" fsize]
      upload_pct_mono [of "us_offset u + k" "us_offset u + k" fsize] assms by auto
  then show ?thesis
    using assms(1) by (auto simp: progress_ok_def advance_def report_progress_def Let_def sorted_wrt_append)
qed

lemma upload_loop_progress:
  assumes "upload_loop md5 cancelled sq buf file n u s c = Ret (e, u', s', c')"
    and "progress_ok (length file) u" and "us_pos u = us_offset u" and "length file * 100 < 2 ^ 64"
    and "0 < buf" and "buf < 2 ^ 32"
  shows "progress_ok (length file) u' \<and> (us_offset u \<le> length file \<longrightarrow> us_offset u' \<le> length file)"
  using assms
proof (induction "length file - us_offset u" arbitrary: n u s c rule: less_induct)
  case less
  show ?case
  proof (cases "us_offset u < length file")
    case False
    then show ?thesis using less.prems by (simp add: upload_loop_end)
  next
    case True
    define d where "d = take buf (drop (us_offset u) file)"
    define m where "m = (if length file \<le> us_offset u + length d then md5 (us_hashed u @ take (length d) d) else [])"
    have got: "d = take (min (length file - us_offset u) buf) (drop (us_pos u) file)"
      using less.prems(3) by (simp add: d_def min_def)
    have dl: "length d = min (length file - us_offset u) buf" "0 < length d"
      using True less.prems(5) by (auto simp: d_def)
    then have k: "length d = unat (word_of_nat (length d) :: u32)"
      using less.prems(6) by (simp add: unat_of_nat take_bit_nat_eq_self)
    note st = upload_loop_unfold [where got = d and k = "length d" and m = m and ?md5.0 = md5 and buf = buf and u = u
        and ?file = "file" and cancelled = cancelled and sq = sq and n = n and s = s and c = c, OF True got k m_def]
    define u1 where "u1 = advance (length file) d (length d) m u"
    have p1: "progress_ok (length file) u1"
      unfolding u1_def using less.prems(2,4) dl True by (intro progress_ok_advance) auto
    have off: "us_offset u1 = us_offset u + length d" by (simp add: u1_def)
    show ?thesis
    proof (cases "\<exists>s1 c1. upload_loop md5 cancelled sq buf file (Suc n) u1 s1 c1 = Ret (e, u', s', c')")
      case True
      then obtain s1 c1 where l: "upload_loop md5 cancelled sq buf file (Suc n) u1 s1 c1 = Ret (e, u', s', c')" by blast
      have "progress_ok (length file) u' \<and> (us_offset u1 \<le> length file \<longrightarrow> us_offset u' \<le> length file)"
      proof (rule less.hyps)
        show "length file - us_offset u1 < length file - us_offset u" using off dl \<open>us_offset u < length file\<close> by simp
      qed (use l p1 less.prems in \<open>simp_all add: u1_def\<close>)
      moreover have "us_offset u1 \<le> length file" using off dl \<open>us_offset u < length file\<close> by linarith
      ultimately show ?thesis by simp
    next
      case f: False
      then have "u' = u"
        using less.prems(1) unfolding st u1_def by (auto split: if_splits option.splits)
      then show ?thesis using less.prems(2) True by simp
    qed
  qed
qed


section \<open>Choosing a listing entry\<close>

definition entry_key :: "model_file_entry \<Rightarrow> bool \<times> int \<times> bool" where
  "entry_key f = (contains ''/cache/'' (mf_path f), mf_time f, ends_with ''.gcode.3mf'' (mf_name f))"

definition key_less :: "bool \<times> int \<times> bool \<Rightarrow> bool \<times> int \<times> bool \<Rightarrow> bool" where
  "key_less a b = (fst a < fst b \<or> fst a = fst b \<and> (fst (snd a) < fst (snd b) \<or>
     fst (snd a) = fst (snd b) \<and> snd (snd a) < snd (snd b)))"

lemma better_entry_key: "better_entry f b \<longleftrightarrow> key_less (entry_key b) (entry_key f)"
  by (auto simp: better_entry_def key_less_def entry_key_def Let_def)

lemma key_less_trans: "\<not> key_less b f \<Longrightarrow> key_less b c \<Longrightarrow> \<not> key_less c f"
  by (auto simp: key_less_def)

lemma find_model_entry_step:
  "find_model_entry (files @ [f]) model = consider_entry model f (find_model_entry files model)"
  by (simp add: find_model_entry_def)

lemma find_model_entry_best:
  "(case find_model_entry files model of
      None \<Rightarrow> \<forall>f \<in> set files. \<not> entry_matches model f
    | Some b \<Rightarrow> b \<in> set files \<and> entry_matches model b \<and>
        (\<forall>f \<in> set files. entry_matches model f \<longrightarrow> \<not> better_entry f b))"
proof (induction files rule: rev_induct)
  case (snoc f files)
  show ?case
  proof (cases "find_model_entry files model")
    case None
    then show ?thesis
      using snoc by (auto simp: find_model_entry_step consider_entry_def better_entry_key key_less_def)
  next
    case (Some b)
    have "\<not> better_entry g f" if "better_entry f b" "\<not> better_entry g b" for g
      using that key_less_trans [of "entry_key b" "entry_key g" "entry_key f"] by (simp add: better_entry_key)
    then show ?thesis
      using snoc Some by (auto simp: find_model_entry_step consider_entry_def better_entry_key key_less_def)
  qed
qed (simp add: find_model_entry_def)

section \<open>A connection that accepts everything, a reply already buffered\<close>

lemma send_frame_accepting:
  "wr c = [] \<Longrightarrow> send_frame mag p s c =
     (0, s\<lparr>seq_no := seq_no s + 1\<rparr>, c\<lparr>tx := tx c @ frame_bytes (mag, seq_no s, p)\<rparr>)"
  by (cases "p = []")
    (simp_all add: send_frame_def frame_bytes_def ssl_write_all_cases build_frame_header_def write_u32_le_def)

lemma send_binary_accepting:
  "wr c = [] \<Longrightarrow> send_abi_json_with_binary abi bin False s c =
     Some (0, s\<lparr>seq_no := seq_no s + 1\<rparr>,
       c\<lparr>tx := tx c @ frame_bytes (kMagicCtrlClient, seq_no s, wrap_ctrl_abi_with_binary abi bin)\<rparr>)"
  by (simp add: send_abi_json_with_binary_def send_abi_json_with_binary_stream_def send_abi_json_def
      wrap_ctrl_abi_with_binary_def send_frame_accepting Let_def)

lemma split_dump_object:
  assumes "dumpable (Object m)"
  shows "split_json_prefix (dump (Object m)) = Some (dump (Object m), [])"
proof -
  have "neutral (dump_member kv)" if "kv \<in> set m" for kv
  proof (cases kv)
    case (Pair k v)
    then have "dumpable v" using that assms by (auto simp: list_all_iff)
    then show ?thesis using neutral_member [OF neutral_dump] Pair by simp
  qed
  then have "neutral (join '','' (map dump_member m))"
    by (intro neutral_join) (auto simp: list_all_iff)
  from split_json_prefix_object [OF this, of "[]"] show ?thesis
    by (simp add: strip_separator_def starts_with_def)
qed

lemma buffered_reply:
  assumes "dumpable (Object m)" and "length (dump (Object m)) + 16 < 2 ^ 32"
    and "recv_buf s = frame_bytes (mag, q, dump (Object m))" and "reply_matches cmd sq (dump (Object m))"
  shows "recv_wire_json cmd sq s c = Ret (Some (dump (Object m)), s\<lparr>recv_buf := []\<rparr>, c)"
proof -
  have d: "drain take_frame (recv_buf s) = ([(mag, q, dump (Object m))], [])"
    using tunnel.drain_frames [of "[(mag, q, dump (Object m))]", OF _ tunnel.take_one_Nil] assms(2,3)
    by (simp add: frame_ok_def del: dump.simps)
  moreover have "scan_frame [] \<noteq> Overrun" by (simp add: scan_frame_def parse_frame_header_def)
  moreover have "wire_messages [dump (Object m)] = [dump (Object m)]"
    using split_dump_object [OF assms(1)] dump_object_ends [of m] by (simp add: wire_messages_def del: dump.simps)
  ultimately show ?thesis
    using take_pending_drain [OF d] assms(4)
    by (simp add: recv_wire_json_def drain_pending_wire_json_def lift_opt_def del: dump.simps recv_skips.simps)
qed

text \<open>The final reply of an upload with number 7.\<close>

definition final_reply :: "(bytes, json) omap" where
  "final_reply = [(''cmdtype'', jint 5), (''result'', jint 0), (''sequence'', jint 7)]"

lemma final_reply_facts:
  "dumpable (Object final_reply)" "length (dump (Object final_reply)) + 16 < 2 ^ 32"
  "reply_matches kCmdFileUpload 7 (dump (Object final_reply))" "parse_wire_result (dump (Object final_reply)) = 0"
proof -
  show d: "dumpable (Object final_reply)"
    by (simp add: final_reply_def dumpable_jint om_ok_def)
  show "length (dump (Object final_reply)) + 16 < 2 ^ 32"
    by (simp add: final_reply_def dump_jint escape_def escape_char_def show_int_def show_nat.simps)
  have p: "parse_opt (dump (Object final_reply)) = Some (Object final_reply)"
    using parse_dump [OF d] by (simp add: parse_opt_def)
  show "reply_matches kCmdFileUpload 7 (dump (Object final_reply))" "parse_wire_result (dump (Object final_reply)) = 0"
    unfolding reply_matches_def parse_wire_cmdtype_def parse_wire_sequence_def parse_wire_result_def parse_wire_int_def p
    by (simp_all add: jfind_key jget_def final_reply_def om_get_Cons as_int_jint kCmdFileUpload_def)
qed

section \<open>Properties\<close>

text \<open>C1: The printer can reassemble the file: when an upload reports success, what was written after
  the init reply is a sequence of frames which, read with the printer's own parser, are fragments
  numbered from 0 with consecutive offsets from the resume offset, each with its size and data, the
  checksum of the whole file on the last one only, and whose data concatenate to exactly the rest of
  the file.\<close>

theorem upload_reassembles:
  assumes "upload_fragments md5 cancelled sq file kb offset s c = Ret (out, ps, s', c')" and "u_ok out"
    and "kb \<noteq> 0" and "unat kb * 1024 < 2 ^ 32" and "length file < 2 ^ 53"
  shows "\<exists>fs. tx c' = tx c @ concat (map frame_bytes fs) \<and>
     map (\<lambda>(_, _, body). printer_fragment body) fs =
       map (Some \<circ> fragment_fields) (fragments (unat kb * 1024) (unat offset) 0 (drop (unat offset) file) (md5 file)) \<and>
     concat (map (\<lambda>(_, _, _, d). d) (fragments (unat kb * 1024) (unat offset) 0 (drop (unat offset) file) (md5 file)))
       = drop (unat offset) file \<and>
     unat offset \<le> length file"
proof -
  define buf off where "buf = unat kb * 1024" and "off = unat offset"
  have buf: "0 < buf" "buf < 2 ^ 32" using assms(3,4) by (auto simp: buf_def unat_gt_0)
  define u where "u = \<lparr>us_pos = off, us_offset = off, us_frag_id = 0, us_last_pct = -1,
    us_hashed = take off file, us_digest = [], us_progress = []\<rparr>"
  have off: "off \<le> length file" "hash_prefix buf file 0 off = Some (take off file)"
    using assms(1,2) hash_prefix_spec [OF buf(1), of "file" 0 off]
    by (auto simp: upload_fragments_def Let_def upload_start_def simp flip: buf_def off_def split: if_splits)
  obtain u' s1 c1 where l: "upload_loop md5 cancelled sq buf file 0 u s c = Ret (None, u', s1, c1)"
    and f: "tx c' = tx c1"
    using assms(1,2) off(2)
    by (auto simp: upload_fragments_def Let_def u_def upload_start_def io_bind_Ret_iff simp flip: buf_def off_def
        split: option.splits dest!: await_final_tx simp del: await_final.simps)
  define xs where "xs = fragments buf off 0 (drop off file) (md5 file)"
  have "tx c1 = tx c @ concat (map frame_bytes (fragment_frames sq (seq_no s) xs))"
    using upload_loop_sends [OF l] off buf by (simp add: u_def xs_def)
  moreover have "\<forall>(fr, o', md, d) \<in> set xs. o' < 2 ^ 53 \<and> length d < 2 ^ 32"
    using fragments_bounds [of _ _ _ _ buf off 0 "drop off file" "md5 file"] assms(5) buf off
    unfolding xs_def by fastforce
  ultimately show ?thesis
    using fragment_frames_decode [of xs sq "seq_no s"] fragments_concat [OF buf(1), of off 0 "drop off file" "md5 file"]
      off(1) f
    by (intro exI [of _ "fragment_frames sq (seq_no s) xs"]) (simp add: xs_def buf_def off_def)
qed

theorem upload_reassembles_witness:
  "\<exists>s' c' fs. tx c' = concat (map frame_bytes fs) \<and>
     map (\<lambda>(_, _, body). printer_fragment body) fs = [Some (0, 0, 3, ''d41d'', ''abc'')] \<and>
     (\<exists>out ps. upload_fragments (\<lambda>_. ''d41d'') (\<lambda>_. False) 7 ''abc'' 1 0
        (new_session 0\<lparr>recv_buf := frame_bytes (2, 1, dump (Object final_reply))\<rparr>) \<lparr>rd = [], wr = [], tx = []\<rparr>
        = Ret (out, ps, s', c'))"
proof -
  let ?s = "new_session 0\<lparr>recv_buf := frame_bytes (2, 1, dump (Object final_reply))\<rparr>"
  let ?c = "\<lparr>rd = [], wr = [], tx = []\<rparr>"
  let ?md = "\<lambda>_ :: bytes. ''d41d''"
  define u where "u = \<lparr>us_pos = 0, us_offset = 0, us_frag_id = 0, us_last_pct = -1,
    us_hashed = [], us_digest = [], us_progress = []\<rparr>"
  have w: "(3 :: nat) = unat (word_of_nat 3 :: u32)" by simp
  have l: "\<exists>u' s' c'. upload_loop ?md (\<lambda>_. False) 7 1024 ''abc'' 0 u ?s ?c = Ret (None, u', s', c') \<and>
      recv_buf s' = recv_buf ?s"
    using upload_loop_unfold [where got = "''abc''" and k = 3 and m = "''d41d''" and ?md5.0 = ?md and buf = 1024
        and u = u and ?file = "''abc''" and cancelled = "\<lambda>_. False" and sq = 7 and n = 0 and s = ?s and c = ?c]
    by (simp add: u_def send_binary_accepting upload_loop_end)
  then obtain u' s1 c1 where l: "upload_loop ?md (\<lambda>_. False) 7 1024 ''abc'' 0 u ?s ?c = Ret (None, u', s1, c1)"
    and b: "recv_buf s1 = frame_bytes (2, 1, dump (Object final_reply))" by auto
  have r: "await_final 32 7 (-1) s1 c1 = Ret (Some 0, s1\<lparr>recv_buf := []\<rparr>, c1)"
    using buffered_reply [OF final_reply_facts(1,2) b final_reply_facts(3), of c1] final_reply_facts(4)
    by (simp add: numeral_eq_Suc del: dump.simps)
  have h: "hash_prefix 1024 ''abc'' 0 0 = Some []" by (simp add: hash_prefix.simps)
  obtain ps where run: "upload_fragments ?md (\<lambda>_. False) 7 ''abc'' 1 0 ?s ?c =
      Ret (finish_upload (length ''abc'') (us_digest u') 0, ps, s1\<lparr>recv_buf := []\<rparr>, c1)"
    using l r h by (simp add: upload_fragments_def u_def Let_def del: await_final.simps dump.simps)
  have "fragments 1024 0 0 ''abc'' ''d41d'' = [(0, 0, ''d41d'', ''abc'')]"
    by (subst fragments.simps) simp
  then show ?thesis
    using upload_reassembles [OF run] run by (fastforce simp: finish_upload_def fragment_fields_def Let_def)
qed

text \<open>A listing is searched to the end for the best match: no entry is returned exactly when none
  matches the model name, and the one returned matches and no matching entry beats it (cached before
  not cached, then newer before older, then a sliced file before another).\<close>

theorem find_model_entry_spec:
  "(case find_model_entry files model of
      None \<Rightarrow> \<forall>f \<in> set files. \<not> entry_matches model f
    | Some b \<Rightarrow> b \<in> set files \<and> entry_matches model b \<and>
        (\<forall>f \<in> set files. entry_matches model f \<longrightarrow> \<not> better_entry f b))"
  by (rule find_model_entry_best)

theorem find_model_entry_spec_witness:
  "find_model_entry [\<lparr>mf_name = ''a.3mf'', mf_path = ''/x/a.3mf'', mf_time = 1\<rparr>] ''a'' \<noteq> None"
  using find_model_entry_spec [of "[\<lparr>mf_name = ''a.3mf'', mf_path = ''/x/a.3mf'', mf_time = 1\<rparr>]" "''a''"]
  by (auto simp: entry_matches_def name_matches_model_def ends_with_def split: option.splits)

text \<open>Only the reply to the request is accepted: whatever the printer sends in between, the text
  \<open>recv_wire_json\<close> hands back has the wanted command and (unless the request had number 0) the wanted
  sequence number, and receiving writes nothing.\<close>

theorem recv_wire_json_matches:
  assumes "recv_wire_json cmd sq s c = Ret (Some json, s', c')"
  shows "parse_wire_cmdtype json = cmd \<and> (sq = 0 \<or> word_of_int (parse_wire_sequence json) = sq) \<and> tx c' = tx c"
proof -
  have sk: "recv_skips n cmd sq s c = Ret (Some json, s', c') \<Longrightarrow> reply_matches cmd sq json" for n s c s' c'
  proof (induction n arbitrary: s c)
    case (Suc n)
    then show ?case by (auto simp: io_bind_Ret_iff split: option.splits if_splits)
  qed simp
  have "reply_matches cmd sq json"
    using assms by (auto simp: recv_wire_json_def io_bind_Ret_iff find_Some_iff simp del: recv_skips.simps
        split: option.splits dest: sk)
  then show ?thesis using recv_wire_json_tx [OF assms] by (auto simp: reply_matches_def)
qed

theorem recv_wire_json_matches_witness:
  "parse_wire_cmdtype (dump (Object final_reply)) = 5 \<and>
   word_of_int (parse_wire_sequence (dump (Object final_reply))) = (7 :: u32)"
  using recv_wire_json_matches [OF buffered_reply [OF final_reply_facts(1,2) _ final_reply_facts(3),
      of "new_session 0\<lparr>recv_buf := frame_bytes (2, 1, dump (Object final_reply))\<rparr>" 2 1 undefined]]
  by (simp add: kCmdFileUpload_def del: dump.simps)

text \<open>Progress only goes up: the percentages reported during an upload are strictly increasing and
  within 0 to 100, followed at most by the final 100.\<close>

theorem upload_progress_increases:
  assumes "upload_fragments md5 cancelled sq file kb offset s c = Ret (out, ps, s', c')"
    and "kb \<noteq> 0" and "unat kb * 1024 < 2 ^ 32" and "length file * 100 < 2 ^ 64"
  shows "\<exists>qs. (ps = qs \<or> ps = qs @ [100]) \<and> sorted_wrt (<) qs \<and> (\<forall>p \<in> set qs. 0 \<le> p \<and> p \<le> 100)"
proof -
  define buf off where "buf = unat kb * 1024" and "off = unat offset"
  have buf: "0 < buf" "buf < 2 ^ 32" using assms(2,3) by (auto simp: buf_def unat_gt_0)
  define u where "u = \<lparr>us_pos = off, us_offset = off, us_frag_id = 0, us_last_pct = -1,
    us_hashed = take off file, us_digest = [], us_progress = []\<rparr>"
  show ?thesis
  proof (cases "off \<le> length file")
    case False
    then have "ps = []"
      using assms(1) hash_prefix_spec [OF buf(1), of "file" 0 off]
      by (auto simp: upload_fragments_def Let_def simp flip: buf_def off_def split: if_splits)
    then show ?thesis by auto
  next
    case True
    then have h: "hash_prefix buf file 0 off = Some (take off file)"
      using hash_prefix_spec [OF buf(1), of "file" 0 off] by auto
    then obtain e u' s1 c1 where l: "upload_loop md5 cancelled sq buf file 0 u s c = Ret (e, u', s1, c1)"
      and ps: "ps = us_progress u' \<or> ps = us_progress u' @ [100]"
      using assms(1)
      by (auto simp: upload_fragments_def Let_def u_def io_bind_Ret_iff simp flip: buf_def off_def
          split: option.splits if_splits simp del: await_final.simps)
    have "progress_ok (length file) u' \<and> us_offset u' \<le> length file"
      using upload_loop_progress [OF l] assms(4) buf True by (simp add: progress_ok_def u_def)
    moreover have "upload_pct (us_offset u') (length file) \<le> 100"
      using calculation upload_pct_mono [of "us_offset u'" "us_offset u'" "length file"] assms(4)
      by (cases "length file = 0") (auto simp: upload_pct_def)
    ultimately show ?thesis using ps by (fastforce simp: progress_ok_def)
  qed
qed

theorem upload_progress_increases_witness:
  "\<exists>ps qs s' c' out. upload_fragments (\<lambda>_. ''d'') (\<lambda>_. True) 7 ''abc'' 1 0 (new_session 0) \<lparr>rd = [], wr = [], tx = []\<rparr>
     = Ret (out, ps, s', c') \<and> (ps = qs \<or> ps = qs @ [100]) \<and> sorted_wrt (<) qs"
proof -
  have "\<exists>out ps s' c'. upload_fragments (\<lambda>_. ''d'') (\<lambda>_. True) 7 ''abc'' 1 0 (new_session 0) \<lparr>rd = [], wr = [], tx = []\<rparr>
     = Ret (out, ps, s', c')"
    by (simp add: upload_fragments_def Let_def hash_prefix.simps upload_loop.simps)
  then obtain out ps s' c' where run: "upload_fragments (\<lambda>_. ''d'') (\<lambda>_. True) 7 ''abc'' 1 0 (new_session 0)
      \<lparr>rd = [], wr = [], tx = []\<rparr> = Ret (out, ps, s', c')" by blast
  show ?thesis using upload_progress_increases [OF run] run by auto
qed

text \<open>Connecting ends in one of two states: result 0 with a live, ready session, or result -1 with
  an error text and nothing left open; the wire sequence counter carries over.\<close>

theorem connect_outcome:
  assumes "connect cfg seed dial k = Ret (rc, e, k')"
  shows "(rc = 0 \<and> e = [] \<and> (\<exists>s c. im_link k' = Some (s, c) \<and> phase s = Ready) \<or>
      rc = -1 \<and> e \<noteq> [] \<and> \<not> is_connected k') \<and> im_wire_seq k' = im_wire_seq k"
proof -
  have "handshake_loop n cfg s c = Ret (True, s', c') \<Longrightarrow> phase s' = Ready" for n s c s' c'
  proof (induction n arbitrary: s c)
    case (Suc n)
    then show ?case
      by (auto split: option.splits if_splits dest!: handshake_codes)
  qed simp
  then show ?thesis
    using assms
    by (auto simp: connect_def Let_def disconnect_def is_connected_def io_bind_Ret_iff
        split: sum.splits if_splits)
qed

theorem connect_outcome_witness:
  "\<not> is_connected (snd (snd (-1 :: int, ''refused'', new_connection)))"
  using connect_outcome [of undefined 0 "Inl ''refused''" new_connection "-1" "''refused''" new_connection]
  by (simp add: connect_def disconnect_def new_connection_def)

end
