(* ===== verification/Print_Ids.thy ===== *)
theory Print_Ids
  imports Json_Laws
begin

text \<open>
  The text-level helpers of \<open>src/agent.cpp\<close> that turn the all-zero ids of a LAN print into a
  synthetic cloud subtask: reading and patching a string field of an MQTT payload without
  parsing it, and the FNV-1a hash behind the synthetic id (shared with
  \<open>src/cover_cache.cpp\<close>).
\<close>

section \<open>Payload fields\<close>

definition field_needle :: "bytes \<Rightarrow> bytes" where
  "field_needle key = QUOTE # key @ [QUOTE, CHR '':'']"

text \<open>The text of a string literal up to its closing quote, escapes left as they are.\<close>

fun raw_string :: "bytes \<Rightarrow> bytes option" where
  "raw_string [] = None"
| "raw_string (c # cs) =
     (if c = QUOTE then Some []
      else if c = BSLASH
        then (case cs of [] \<Rightarrow> None | d # ds \<Rightarrow> map_option (\<lambda>r. c # d # r) (raw_string ds))
      else map_option ((#) c) (raw_string cs))"

definition json_peek_string_field :: "bytes \<Rightarrow> bytes \<Rightarrow> bytes option" where
  "json_peek_string_field payload key =
     (case find_sub (field_needle key) payload of
        None \<Rightarrow> None
      | Some pos \<Rightarrow>
          (case dropWhile (\<lambda>c. c = BLANK) (drop (pos + length (field_needle key)) payload) of
             [] \<Rightarrow> None
           | q # body \<Rightarrow> if q = QUOTE then raw_string body else None))"

text \<open>
  \<open>patch_string_zero_to\<close> returns the payload and whether it was changed.
\<close>

definition patch_string_zero_to :: "bytes \<Rightarrow> bytes \<Rightarrow> bytes \<Rightarrow> bytes \<times> bool" where
  "patch_string_zero_to payload key val =
     (case find_sub (field_needle key) payload of
        None \<Rightarrow> (payload, False)
      | Some pos \<Rightarrow>
          (let after = pos + length (field_needle key);
               i = after + length (takeWhile (\<lambda>c. c = BLANK) (drop after payload)) in
           if length payload < i + 2 \<or> payload ! i \<noteq> QUOTE then (payload, False)
           else if payload ! (i + 1) = QUOTE
             then (take i payload @ QUOTE # val @ QUOTE # drop (i + 2) payload, True)
           else if i + 3 \<le> length payload \<and> payload ! (i + 1) = CHR ''0'' \<and> payload ! (i + 2) = QUOTE
             then (take i payload @ QUOTE # val @ QUOTE # drop (i + 3) payload, True)
           else (payload, False)))"

section \<open>The synthetic id\<close>

unbundle bit_operations_syntax

definition fnv_step :: "char \<Rightarrow> u32 \<Rightarrow> u32" where
  "fnv_step c h = (h XOR word_of_nat (code_of c)) * 16777619"

definition fnv1a_32 :: "bytes \<Rightarrow> u32" where
  "fnv1a_32 s = fold fnv_step s 2166136261"

text \<open>The cache key: the name, and after the byte 1 the version when there is one.\<close>

definition cover_key :: "bytes \<Rightarrow> bytes \<Rightarrow> bytes" where
  "cover_key name version = name @ (if version = [] then [] else CHR 0x01 # version)"

definition synthetic_subtask_id :: "bytes \<Rightarrow> bytes \<Rightarrow> bytes" where
  "synthetic_subtask_id subtask_name version =
     ''lan-'' @ show_hex_fixed 8 (unat (fnv1a_32 (cover_key subtask_name version)))"

text \<open>
  \<open>try_rewrite_print_ids\<close>: the payload afterwards, and the synthetic id when an id was
  replaced.
\<close>

definition patch_ids :: "bytes \<Rightarrow> bytes \<Rightarrow> bytes \<times> bool" where
  "patch_ids payload sid =
     (let (p1, t1) = patch_string_zero_to payload ''project_id'' ''lan'';
          (p2, t2) = patch_string_zero_to p1 ''profile_id'' ''lan'';
          (p3, t3) = patch_string_zero_to p2 ''task_id'' sid;
          (p4, t4) = patch_string_zero_to p3 ''subtask_id'' sid in
      (p4, t1 \<or> t2 \<or> t3 \<or> t4))"

definition try_rewrite_print_ids :: "bytes \<Rightarrow> bytes \<Rightarrow> bytes \<times> bytes option" where
  "try_rewrite_print_ids payload version =
     (case json_peek_string_field payload ''subtask_name'' of
        None \<Rightarrow> (payload, None)
      | Some name \<Rightarrow>
          (if name = [] \<or> name = ''-1'' then (payload, None)
           else let sid = synthetic_subtask_id name version;
                    (p, touched) = patch_ids payload sid in
                (p, if touched then Some sid else None)))"

section \<open>Properties\<close>

lemma length_fieldneedle: "length (field_needle key) = length key + 3"
  by (simp add: field_needle_def)

lemma find_sub_take:
  "find_sub pat s = Some p \<Longrightarrow> take (p + length pat) s = take (p + length pat) s' \<Longrightarrow> pat \<noteq> []
   \<Longrightarrow> find_sub pat s' = Some p"
proof (induction s arbitrary: p s')
  case Nil
  then show ?case by simp
next
  case (Cons x xs)
  show ?case
  proof (cases "prefix pat (x # xs)")
    case True
    with Cons.prems have p: "p = 0" by simp
    from True have "take (length pat) (x # xs) = pat"
      by (metis append_eq_conv_conj prefix_def)
    with Cons.prems p have "take (length pat) s' = pat" by simp
    then have "prefix pat s'" by (metis take_is_prefix)
    with Cons.prems(3) p show ?thesis by (cases s') auto
  next
    case False
    with Cons.prems obtain p' where p': "find_sub pat xs = Some p'" "p = Suc p'" by auto
    with Cons.prems obtain y ys where s': "s' = y # ys" by (cases s') auto
    with Cons.prems p' have t: "take (p' + length pat) xs = take (p' + length pat) ys" and y: "y = x" by auto
    have "find_sub pat ys = Some p'" using Cons.IH [OF p'(1) t Cons.prems(3)] .
    moreover have "\<not> prefix pat (y # ys)"
    proof
      assume "prefix pat (y # ys)"
      then have "take (length pat) (y # ys) = pat" by (metis append_eq_conv_conj prefix_def)
      moreover have "take (length pat) (x # xs) = take (length pat) (y # ys)"
        using t y Cons.prems(3) by (cases pat) (auto dest: arg_cong [where f = "take (length pat - 1)"] simp: min_def)
      ultimately have "prefix pat (x # xs)" by (metis take_is_prefix)
      with False show False ..
    qed
    ultimately show ?thesis using s' p' by simp
  qed
qed

lemma raw_string_plain:
  "QUOTE \<notin> set v \<Longrightarrow> BSLASH \<notin> set v \<Longrightarrow> raw_string (v @ QUOTE # r) = Some v"
  by (induction v) auto

lemma dropWhile_drop: "dropWhile P (drop n s) = drop (n + length (takeWhile P (drop n s))) s"
  by (simp add: dropWhile_eq_drop add.commute)

text \<open>A successful patch replaces one string literal, that of the first occurrence of the key.\<close>

lemma patch_shape:
  assumes "patch_string_zero_to p k v = (p', True)"
  obtains pos i lit post where "find_sub (field_needle k) p = Some pos"
    "pos + length (field_needle k) \<le> i" "\<forall>c \<in> set (take (i - (pos + length (field_needle k))) (drop (pos + length (field_needle k)) p)). c = BLANK"
    "lit = [QUOTE, QUOTE] \<or> lit = [QUOTE, CHR ''0'', QUOTE]"
    "p = take i p @ lit @ post" "p' = take i p @ QUOTE # v @ QUOTE # post" "i < length p"
proof -
  from assms obtain pos where pos: "find_sub (field_needle k) p = Some pos"
    by (auto simp: patch_string_zero_to_def split: option.splits)
  define after where "after = pos + length (field_needle k)"
  define i where "i = after + length (takeWhile (\<lambda>c. c = BLANK) (drop after p))"
  have blanks: "\<forall>c \<in> set (take (i - after) (drop after p)). c = BLANK"
    unfolding i_def by (simp add: takeWhile_eq_take [symmetric]) (meson set_takeWhileD)
  have body: "patch_string_zero_to p k v =
      (if length p < i + 2 \<or> p ! i \<noteq> QUOTE then (p, False)
           else if p ! (i + 1) = QUOTE
             then (take i p @ QUOTE # v @ QUOTE # drop (i + 2) p, True)
           else if i + 3 \<le> length p \<and> p ! (i + 1) = CHR ''0'' \<and> p ! (i + 2) = QUOTE
             then (take i p @ QUOTE # v @ QUOTE # drop (i + 3) p, True)
           else (p, False))"
    using pos by (simp add: patch_string_zero_to_def after_def i_def Let_def)
  from assms body have len: "i + 2 \<le> length p" and q: "p ! i = QUOTE"
    by (auto split: if_splits)
  have p2: "p = take i p @ [p ! i, p ! (i + 1)] @ drop (i + 2) p"
    using len id_take_nth_drop [of i p] Cons_nth_drop_Suc [of "Suc i" p] by simp
  have tail: "p = take i p @ lit @ post \<Longrightarrow> p' = take i p @ QUOTE # v @ QUOTE # post \<Longrightarrow>
      lit = [QUOTE, QUOTE] \<or> lit = [QUOTE, CHR ''0'', QUOTE] \<Longrightarrow> thesis" for lit post
    by (rule that [OF pos _ blanks [unfolded after_def]]) (use len in \<open>simp_all add: i_def after_def\<close>)
  show ?thesis
  proof (cases "p ! (i + 1) = QUOTE")
    case True
    then have "p' = take i p @ QUOTE # v @ QUOTE # drop (i + 2) p"
      using assms body len q by simp
    with True q p2 show ?thesis
      by (intro tail [of "[QUOTE, QUOTE]" "drop (i + 2) p"]) simp_all
  next
    case False
    with assms body len q have three: "i + 3 \<le> length p" "p ! (i + 1) = CHR ''0''" "p ! (i + 2) = QUOTE"
      and p': "p' = take i p @ QUOTE # v @ QUOTE # drop (i + 3) p"
      by (auto split: if_splits)
    have "drop (i + 2) p = p ! (i + 2) # drop (i + 3) p"
      using three(1) Cons_nth_drop_Suc [of "i + 2" p] by (simp add: eval_nat_numeral)
    with p2 q three p' show ?thesis
      by (intro tail [of "[QUOTE, CHR ''0'', QUOTE]" "drop (i + 3) p"]) simp_all
  qed
qed

lemma patch_peek:
  assumes "patch_string_zero_to p k v = (p', True)" and "QUOTE \<notin> set v" and "BSLASH \<notin> set v"
  shows "json_peek_string_field p' k = Some v"
proof -
  from assms(1) obtain pos i lit post where *: "find_sub (field_needle k) p = Some pos"
    "pos + length (field_needle k) \<le> i" "\<forall>c \<in> set (take (i - (pos + length (field_needle k))) (drop (pos + length (field_needle k)) p)). c = BLANK"
    "p' = take i p @ QUOTE # v @ QUOTE # post" "i < length p"
    by (rule patch_shape)
  let ?a = "pos + length (field_needle k)"
  have "take ?a p = take ?a p'" using * by (simp add: min_def)
  then have "find_sub (field_needle k) p' = Some pos"
    by (rule find_sub_take [OF *(1)]) (simp add: field_needle_def)
  moreover have "drop ?a p' = take (i - ?a) (drop ?a p) @ QUOTE # v @ QUOTE # post"
    using * by (simp add: drop_take)
  then have "dropWhile (\<lambda>c. c = BLANK) (drop ?a p') = QUOTE # v @ QUOTE # post"
    using *(3) by (simp add: dropWhile_append)
  ultimately show ?thesis
    using assms by (simp add: json_peek_string_field_def raw_string_plain)
qed

lemma hex_digit_chars: "c \<in> set (show_hex_fixed k n) \<Longrightarrow> \<exists>d < 16. c = hex_char d"
  by (induction k arbitrary: n) (auto intro: exI [of _ "n mod 16" for n])

lemma hex_id_plain: "d < 16 \<Longrightarrow> hex_char d \<noteq> QUOTE \<and> hex_char d \<noteq> BSLASH"
  by (auto simp: hex_char_def of_char_of dest!: arg_cong [where f = "of_char :: char \<Rightarrow> nat"] split: if_splits)

lemma synthetic_id_plain: "QUOTE \<notin> set (synthetic_subtask_id n v)" "BSLASH \<notin> set (synthetic_subtask_id n v)"
  by (auto simp: synthetic_subtask_id_def dest!: hex_digit_chars dest: hex_id_plain)

lemma synthetic_id_shape:
  "length (synthetic_subtask_id n v) = 12" "starts_with ''lan-'' (synthetic_subtask_id n v)"
  "synthetic_subtask_id n v \<noteq> []" "synthetic_subtask_id n v \<noteq> ''0''"
  by (simp_all add: synthetic_subtask_id_def starts_with_def)

lemma unat_lt_32: "unat (w :: u32) < 16 ^ 8"
  using unsigned_less [of w] by simp

text \<open>Two prints get the same id exactly when their keys have the same hash.\<close>

lemma synthetic_id_eq:
  "synthetic_subtask_id n v = synthetic_subtask_id n' v' \<longleftrightarrow>
     fnv1a_32 (cover_key n v) = fnv1a_32 (cover_key n' v')"
proof
  assume "synthetic_subtask_id n v = synthetic_subtask_id n' v'"
  then have "show_hex_fixed 8 (unat (fnv1a_32 (cover_key n v))) = show_hex_fixed 8 (unat (fnv1a_32 (cover_key n' v')))"
    by (simp add: synthetic_subtask_id_def)
  then have "unat (fnv1a_32 (cover_key n v)) = unat (fnv1a_32 (cover_key n' v'))"
    by (rule show_hex_fixed_inj [rotated 2]) (rule unat_lt_32)+
  then show "fnv1a_32 (cover_key n v) = fnv1a_32 (cover_key n' v')" by (rule unsigned_word_eqI)
qed (simp add: synthetic_subtask_id_def)

text \<open>
  One step of the hash is a bijection of the state: prints whose keys differ only in the last
  byte never collide.
\<close>

lemma fnv_step_inj:
  assumes "fnv_step c h = fnv_step c' h" shows "c = c'"
proof -
  have inv: "a * 16777619 * 899433627 = (a :: u32)" for a
  proof -
    have "(16777619 :: u32) * 899433627 = 1" by simp
    then show ?thesis by (metis mult.assoc mult.right_neutral)
  qed
  from assms have "h XOR word_of_nat (code_of c) = h XOR word_of_nat (code_of c')"
    unfolding fnv_step_def by (metis inv)
  then have "h XOR (h XOR word_of_nat (code_of c)) = h XOR (h XOR word_of_nat (code_of c'))" by simp
  then have "(word_of_nat (code_of c) :: u32) = word_of_nat (code_of c')"
    by (simp add: xor.assoc [symmetric])
  then have "unat (word_of_nat (code_of c) :: u32) = unat (word_of_nat (code_of c') :: u32)" by simp
  moreover have "unat (word_of_nat (code_of x) :: u32) = code_of x" for x
    using less_trans [OF nat_of_char_less_256 [of x], of "2 ^ 32"] by (simp add: unat_of_nat)
  ultimately show ?thesis by simp
qed

lemma fnv_step_inj_state: "fnv_step c h = fnv_step c h' \<Longrightarrow> h = h'"
proof -
  assume *: "fnv_step c h = fnv_step c h'"
  have inv: "a * 16777619 * 899433627 = (a :: u32)" for a
  proof -
    have "(16777619 :: u32) * 899433627 = 1" by simp
    then show ?thesis by (metis mult.assoc mult.right_neutral)
  qed
  from * have "h XOR word_of_nat (code_of c) = h' XOR word_of_nat (code_of c)"
    unfolding fnv_step_def by (metis inv)
  then have "(h XOR word_of_nat (code_of c)) XOR word_of_nat (code_of c) =
      (h' XOR word_of_nat (code_of c)) XOR word_of_nat (code_of c)" by simp
  then show "h = h'" by (simp add: xor.assoc)
qed

lemma fnv_fold_inj: "fold fnv_step s h = fold fnv_step s h' \<Longrightarrow> h = h'"
  by (induction s arbitrary: h h') (auto dest: fnv_step_inj_state)

lemma fnv_one_byte:
  assumes "c \<noteq> c'" shows "fnv1a_32 (a @ c # b) \<noteq> fnv1a_32 (a @ c' # b)"
  using assms by (auto simp: fnv1a_32_def dest!: fnv_fold_inj dest: fnv_step_inj)

text \<open>A patched field reads back. When \<open>patch_string_zero_to\<close> reports success, the
  payload changed in one place only: one literal \<open>""\<close> or \<open>"0"\<close> became the quoted value; and
  if that value has no quote and no backslash, \<open>json_peek_string_field\<close> on the same key now
  returns exactly the value.\<close>

theorem patch_then_peek:
  assumes "patch_string_zero_to p k v = (p', True)" and "QUOTE \<notin> set v" and "BSLASH \<notin> set v"
  shows "json_peek_string_field p' k = Some v \<and>
    (\<exists>pre lit post. p = pre @ lit @ post \<and> p' = pre @ QUOTE # v @ QUOTE # post \<and>
       lit \<in> {[QUOTE, QUOTE], [QUOTE, CHR ''0'', QUOTE]})"
  using patch_peek [OF assms] by (rule conjI) (rule patch_shape [OF assms(1)], blast)

theorem patch_then_peek_witness:
  "json_peek_string_field (CHR ''{'' # QUOTE # ''task_id'' @ QUOTE # '':'' @ BLANK # QUOTE # ''lan'' @ QUOTE # ''}'') ''task_id'' = Some ''lan''"
  using patch_then_peek [of "CHR ''{'' # QUOTE # ''task_id'' @ QUOTE # '':'' @ BLANK # QUOTE # ''0'' @ QUOTE # ''}''" "''task_id''" "''lan''"
      "CHR ''{'' # QUOTE # ''task_id'' @ QUOTE # '':'' @ BLANK # QUOTE # ''lan'' @ QUOTE # ''}''"]
  by (simp add: patch_string_zero_to_def field_needle_def Let_def)

text \<open>A re-print gets a new id. Two prints of the same name whose versions differ in one
  byte get different synthetic subtask ids: the id is the FNV-1a hash of name and version, and
  each step of that hash is a bijection of its 32-bit state.\<close>

theorem reprint_new_id:
  assumes "c \<noteq> c'"
  shows "synthetic_subtask_id name (a @ c # b) \<noteq> synthetic_subtask_id name (a @ c' # b)"
  using assms fnv_one_byte [OF assms, of "name @ CHR 0x01 # a" b]
  by (simp add: synthetic_id_eq cover_key_def)

theorem reprint_new_id_witness:
  "synthetic_subtask_id ''benchy'' ''8442'' \<noteq> synthetic_subtask_id ''benchy'' ''8443''"
  using reprint_new_id [of "CHR ''2''" "CHR ''3''" "''benchy''" "''844''" "[]"] by simp

end
