(* ===== verification/Json_Text.thy ===== *)
theory Json_Text
  imports Json_Laws
begin

text \<open>
  JSON texts the sources assemble by string concatenation: \<open>reads_as t v\<close> says that the
  parser of \<open>src/json_lite.cpp\<close> reads the text \<open>t\<close> as the value \<open>v\<close> wherever \<open>t\<close>
  stands in a larger text. It is closed under the ways the sources build objects and arrays,
  with any white space between the tokens.
\<close>

definition reads_as :: "bytes \<Rightarrow> json \<Rightarrow> bool" where
  "reads_as t v = (\<forall>n r. 2 * length t + 1 \<le> n \<longrightarrow> ends_number r \<longrightarrow> parse_value n (t @ r) = Inr (v, r))"

lemma reads_asD:
  "reads_as t v \<Longrightarrow> 2 * length t + 1 \<le> n \<Longrightarrow> ends_number r \<Longrightarrow> parse_value n (t @ r) = Inr (v, r)"
  by (simp add: reads_as_def)

lemma reads_as_escape [intro]: "reads_as (escape s) (String s)"
  unfolding reads_as_def
proof (intro allI impI)
  fix n r assume "2 * length (escape s) + 1 \<le> n"
  then obtain m where "n = Suc m" by (cases n) auto
  then show "parse_value n (escape s @ r) = Inr (String s, r)" by (simp add: parse_value_escape del: parse_value.simps)
qed

lemma reads_as_dump: "dumpable v \<Longrightarrow> reads_as (dump v) v"
  using dump_reads_back [of v] by (simp add: reads_as_def reads_back_def)

abbreviation blank :: "bytes \<Rightarrow> bool" where
  "blank w \<equiv> list_all is_ws w"

lemma skip_ws_blank [simp]: "blank w \<Longrightarrow> skip_ws (w @ s) = skip_ws s"
  by (induction w) simp_all

lemma skip_ws_blank_end [simp]: "blank w \<Longrightarrow> skip_ws w = []"
  by (induction w) simp_all

lemma skip_ws_idem [simp]: "skip_ws (skip_ws s) = skip_ws s"
  by (induction s) (simp_all split: if_splits)

lemma parse_value_skip_ws: "parse_value n (skip_ws s) = parse_value n s"
  by (cases n) simp_all

lemma parse_value_skip: "blank w \<Longrightarrow> parse_value n (w @ s) = parse_value n s"
  by (cases n) simp_all

lemma ends_number_blank: "blank w \<Longrightarrow> ends_number s \<Longrightarrow> ends_number (w @ s)"
  by (cases w) (auto simp: ends_number_def is_ws_def is_digit_def)

lemma parse_as:
  assumes "reads_as t v" shows "blank w \<Longrightarrow> blank w' \<Longrightarrow> parse (w @ t @ w') = Inr v"
proof -
  assume w: "blank w" "blank w'"
  have "ends_number w'" using ends_number_blank [OF w(2), of "[]"] by (simp add: ends_number_def)
  then have "parse_value (2 * length (w @ t @ w') + 2) (t @ w') = Inr (v, w')"
    using reads_asD [OF assms, of "2 * length (w @ t @ w') + 2" w'] by simp
  moreover have "parse_value (2 * length (w @ t @ w') + 2) (skip_ws (w @ t @ w')) =
      parse_value (2 * length (w @ t @ w') + 2) (t @ w')"
    using w(1) by (simp add: parse_value_skip_ws del: parse_value.simps)
  ultimately show ?thesis using w(2) by (simp add: parse_def del: parse_value.simps)
qed

section \<open>Objects and arrays\<close>

text \<open>A member as written: blanks, key, blanks, colon, blanks, text, blanks.\<close>

type_synonym member = "bytes \<times> bytes \<times> bytes \<times> bytes \<times> bytes"

fun member_text :: "member \<Rightarrow> bytes" where
  "member_text (w1, k, w2, t, w3) = w1 @ escape k @ CHR '':'' # w2 @ t @ w3"

fun member_ok :: "member \<times> json \<Rightarrow> bool" where
  "member_ok ((w1, k, w2, t, w3), v) = (blank w1 \<and> blank w2 \<and> blank w3 \<and> reads_as t v)"

fun member_val :: "member \<times> json \<Rightarrow> bytes \<times> json" where
  "member_val ((w1, k, w2, t, w3), v) = (k, v)"

abbreviation members_text :: "(member \<times> json) list \<Rightarrow> bytes" where
  "members_text ms \<equiv> join '','' (map (\<lambda>m. member_text (fst m)) ms)"

lemma members_read:
  assumes "ms \<noteq> []" and "list_all member_ok ms" and "2 * length (members_text ms) + 2 \<le> n"
  shows "parse_members n us (members_text ms @ CHR ''}'' # r) =
    Inr (Object (emplace_all (map member_val ms) us), r)"
  using assms
proof (induction ms arbitrary: n us)
  case (Cons m ms)
  obtain w1 k w2 t w3 v where m: "m = ((w1, k, w2, t, w3), v)" by (metis surj_pair)
  from Cons.prems obtain j where n: "n = Suc j" by (cases n) auto
  have ok: "blank w1" "blank w2" "blank w3" "reads_as t v" using Cons.prems m by simp_all
  have v: "parse_value j (w2 @ t @ w3 @ s) = Inr (v, w3 @ s)" if "ends_number s" for s
    using ok Cons.prems n m that
    by (simp add: parse_value_skip) (intro reads_asD; simp add: join_Cons ends_number_blank)
  have head: "skip_ws (w1 @ escape k @ s) = escape k @ s" for s using ok by simp
  show ?case
  proof (cases "ms = []")
    case True
    then show ?thesis using n m ok head v [of "CHR ''}'' # r"] by (simp add: is_ws_def Let_def)
  next
    case False
    with Cons.prems n m have "parse_members j (om_emplace k v us) (members_text ms @ CHR ''}'' # r) =
        Inr (Object (emplace_all (map member_val ms) (om_emplace k v us)), r)"
      by (intro Cons.IH) (auto simp: join_Cons)
    then show ?thesis using n m ok head v [of "CHR '','' # members_text ms @ CHR ''}'' # r"] False
      by (simp add: is_ws_def join_Cons Let_def)
  qed
qed simp

lemma reads_as_object:
  assumes "ms \<noteq> []" and "list_all member_ok ms"
  shows "reads_as (''{'' @ members_text ms @ ''}'') (Object (emplace_all (map member_val ms) []))"
  unfolding reads_as_def
proof (intro allI impI)
  fix n r assume n: "2 * length (''{'' @ members_text ms @ ''}'') + 1 \<le> n" and "ends_number r"
  then obtain j where j: "n = Suc j" by (cases n) auto
  obtain m ms' where ms: "ms = m # ms'" using assms(1) by (cases ms) auto
  obtain w1 k w2 t w3 v where m: "m = ((w1, k, w2, t, w3), v)" by (metis surj_pair)
  have w1: "blank w1" using assms ms m by simp
  then have "\<exists>s. skip_ws (members_text ms @ CHR ''}'' # r) = escape k @ s"
    using ms m by (simp add: join_Cons)
  then obtain s where s: "skip_ws (members_text ms @ CHR ''}'' # r) = escape k @ s" by blast
  have "parse_members j [] (skip_ws (members_text ms @ CHR ''}'' # r)) =
      parse_members j [] (members_text ms @ CHR ''}'' # r)"
    by (cases j) (simp_all add: skip_ws_def)
  then have "parse_members j [] (escape k @ s) = Inr (Object (emplace_all (map member_val ms) []), r)"
    using members_read [OF assms, of j "[]" r] n j s by simp
  then show "parse_value n ((''{'' @ members_text ms @ ''}'') @ r) =
      Inr (Object (emplace_all (map member_val ms) []), r)"
    using j s by (simp add: is_ws_def Let_def del: parse_members.simps) (simp add: escape_def)
qed

lemma elems_read:
  assumes "tvs \<noteq> []" and "list_all (\<lambda>(t, v). reads_as t v) tvs" and "2 * length (join '','' (map fst tvs)) + 2 \<le> n"
  shows "parse_elems n us (join '','' (map fst tvs) @ CHR '']'' # r) = Inr (Array (us @ map snd tvs), r)"
  using assms
proof (induction tvs arbitrary: n us)
  case (Cons tv tvs)
  obtain t v where tv: "tv = (t, v)" by force
  from Cons.prems obtain m where n: "n = Suc m" by (cases n) auto
  have v: "parse_value m (t @ s) = Inr (v, s)" if "ends_number s" for s
    using Cons.prems n that tv by (intro reads_asD) (auto simp: join_Cons)
  show ?case
  proof (cases "tvs = []")
    case True
    then show ?thesis using n tv v [of "CHR '']'' # r"] by (simp add: is_ws_def)
  next
    case False
    with Cons.prems n tv have "parse_elems m (us @ [v]) (join '','' (map fst tvs) @ CHR '']'' # r) =
        Inr (Array ((us @ [v]) @ map snd tvs), r)"
      by (intro Cons.IH) (auto simp: join_Cons)
    then show ?thesis using n tv v [of "CHR '','' # join '','' (map fst tvs) @ CHR '']'' # r"] False
      by (simp add: is_ws_def join_Cons)
  qed
qed simp

text \<open>A text the parser takes begins with neither white space nor a closing bracket.\<close>

lemma reads_as_array:
  assumes "list_all (\<lambda>(t, v). reads_as t v \<and> t \<noteq> [] \<and> \<not> is_ws (hd t) \<and> hd t \<noteq> CHR '']'') tvs"
  shows "reads_as (''['' @ join '','' (map fst tvs) @ '']'') (Array (map snd tvs))"
  unfolding reads_as_def
proof (intro allI impI)
  fix n r assume n: "2 * length (''['' @ join '','' (map fst tvs) @ '']'') + 1 \<le> n" and "ends_number r"
  then obtain j where j: "n = Suc j" by (cases n) auto
  show "parse_value n ((''['' @ join '','' (map fst tvs) @ '']'') @ r) = Inr (Array (map snd tvs), r)"
  proof (cases tvs)
    case Nil
    then show ?thesis using j by (simp add: is_ws_def)
  next
    case (Cons tv tvs')
    obtain t v where tv: "tv = (t, v)" by force
    obtain c t' where t: "t = c # t'" "\<not> is_ws c" "c \<noteq> CHR '']''"
      using assms Cons tv by (cases t) auto
    have "parse_elems j [] (join '','' (map fst tvs) @ CHR '']'' # r) = Inr (Array (map snd tvs), r)"
      using elems_read [of tvs j "[]" r] assms Cons n j by (auto simp: list_all_iff)
    then show ?thesis using j Cons tv t by (simp add: is_ws_def Let_def join_Cons del: parse_elems.simps)
  qed
qed

section \<open>Objects written member by member\<close>

lemma escape_plain: "list_all (\<lambda>c. escape_char c = [c]) k \<Longrightarrow> escape k = QUOTE # k @ [QUOTE]"
proof -
  assume "list_all (\<lambda>c. escape_char c = [c]) k"
  then have "concat (map escape_char k) = k" by (induction k) simp_all
  then show ?thesis by (simp add: escape_def)
qed

definition plain_member :: "bytes \<Rightarrow> bytes \<Rightarrow> json \<Rightarrow> member \<times> json" where
  "plain_member k t v = (([], k, [], t, []), v)"

lemma plain_member_simps [simp]:
  "member_text (fst (plain_member k t v)) = escape k @ CHR '':'' # t"
  "member_ok (plain_member k t v) \<longleftrightarrow> reads_as t v" "member_val (plain_member k t v) = (k, v)"
  by (simp_all add: plain_member_def)

definition small_int :: "int \<Rightarrow> bool" where
  "small_int n = (\<bar>n\<bar> < 2 ^ 53)"

lemma reads_as_int: "small_int n \<Longrightarrow> reads_as (show_int n) (Number (of_int n))"
proof -
  assume n: "small_int n"
  have t: "trunc_rat (of_int n) = n" by (rule trunc_rat_of_int)
  have "dumpable (Number (of_int n))"
    using n to_double_small [of n] t by (simp add: small_int_def) linarith
  moreover from this have "dump (Number (of_int n)) = show_int n"
    by (rule dumpable_int) (use t trunc_rat_of_int in metis)
  ultimately show ?thesis using reads_as_dump [of "Number (of_int n)"] by simp
qed

text \<open>The texts of the members against the values they stand for.\<close>

definition same_field :: "bytes \<times> bytes \<Rightarrow> bytes \<times> json \<Rightarrow> bool" where
  "same_field f v = (fst f = fst v \<and> reads_as (snd f) (snd v) \<and> escape (fst f) = QUOTE # fst f @ [QUOTE])"

definition plain_text :: "bytes \<Rightarrow> bool" where
  "plain_text k = list_all (\<lambda>c. escape_char c = [c]) k"

lemma same_fieldI:
  "plain_text k \<Longrightarrow> reads_as t v \<Longrightarrow> same_field (k, t) (k, v)"
  by (simp add: same_field_def plain_text_def escape_plain)

lemma same_field_if:
  "(c \<Longrightarrow> same_field f v) \<Longrightarrow> list_all2 same_field (if c then [f] else []) (if c then [v] else [])"
  by simp

lemma fields_read:
  assumes "list_all2 same_field fs vs" and "fs \<noteq> []"
  shows "reads_as (''{'' @ join '','' (map (\<lambda>(k, t). QUOTE # k @ [QUOTE, CHR '':''] @ t) fs) @ ''}'') (Object (emplace_all vs []))"
proof -
  define ms where "ms = map2 (\<lambda>f v. plain_member (fst f) (snd f) (snd v)) fs vs"
  have l: "length fs = length vs" using assms(1) by (rule list_all2_lengthD)
  have ok: "list_all member_ok ms"
    using assms(1) l by (auto simp: ms_def list_all_length list_all2_conv_all_nth same_field_def)
  have vals: "map member_val ms = vs"
    using assms(1) l by (auto simp: ms_def list_all2_conv_all_nth same_field_def intro!: nth_equalityI)
  have "map (\<lambda>m. member_text (fst m)) ms = map (\<lambda>(k, t). QUOTE # k @ [QUOTE, CHR '':''] @ t) fs"
    using assms(1) l by (auto simp: ms_def list_all2_conv_all_nth same_field_def case_prod_beta' intro!: nth_equalityI)
  moreover have "ms \<noteq> []" using assms(2) l by (auto simp: ms_def)
  ultimately show ?thesis using reads_as_object [OF _ ok] vals by simp
qed

lemma emplaced_field: "map_of vs k = Some v \<Longrightarrow> plain_key k \<Longrightarrow> jfind (Object (emplace_all vs [])) k = v"
  using emplace_all_get [of "[]" vs k] by (simp add: jfind_key jget_def)

lemma parse_opt_as: "reads_as t v \<Longrightarrow> parse_opt t = Some v"
  using parse_as [of t v "[]" "[]"] by (simp add: parse_opt_def)

end
