(* ===== verification/Firmware.thy ===== *)
theory Firmware
  imports Json_Text
begin

text \<open>
  The firmware bookkeeping of \<open>src/agent.cpp\<close>: harvesting module versions from the MQTT
  frames (\<open>parse_module_into\<close>, \<open>update_fw_state\<close>), comparing versions and rendering the
  firmware catalogue Studio asks for (\<open>render_firmware_json\<close>).

  The segment loop of \<open>version_compare\<close> does not advance on a character that is neither a
  digit nor a dot. It is a \<open>partial_function\<close>, \<open>None\<close> meaning that the loop never ends; so
  the comparison and the rendering return options.
\<close>

section \<open>Modules\<close>

record module_fw =
  mf_name :: bytes
  mf_cur_ver :: bytes
  mf_new_ver :: bytes
  mf_product_name :: bytes
  mf_sn :: bytes

type_synonym device_fw = "(bytes, module_fw) omap"

definition empty_module :: module_fw where
  "empty_module = \<lparr>mf_name = [], mf_cur_ver = [], mf_new_ver = [], mf_product_name = [], mf_sn = []\<rparr>"

definition module_at :: "device_fw \<Rightarrow> bytes \<Rightarrow> module_fw" where
  "module_at dev name = (case om_get dev name of None \<Rightarrow> empty_module | Some m \<Rightarrow> m)"

definition set_if :: "bytes \<Rightarrow> bytes \<Rightarrow> bytes" where
  "set_if new old = (if new \<noteq> [] then new else old)"

definition or_else :: "bytes \<Rightarrow> bytes \<Rightarrow> bytes" where
  "or_else old alt = (if alt \<noteq> [] \<and> old = [] then alt else old)"

definition merge_module :: "json \<Rightarrow> module_fw \<Rightarrow> module_fw" where
  "merge_module item m =
     (let str = (\<lambda>k. as_string (jfind item k)) in
      m\<lparr>mf_cur_ver := or_else (set_if (str ''sw_ver'') (mf_cur_ver m)) (str ''cur_ver''),
        mf_new_ver := or_else (set_if (str ''sw_new_ver'') (mf_new_ver m)) (str ''new_ver''),
        mf_product_name := set_if (str ''product_name'') (mf_product_name m),
        mf_sn := set_if (str ''sn'') (mf_sn m)\<rparr>)"

definition parse_module_into :: "device_fw \<Rightarrow> json \<Rightarrow> device_fw" where
  "parse_module_into dev item =
     (if \<not> is_object item then dev
      else let name = as_string (jfind item ''name'') in
        if name = [] then dev
        else om_put name (merge_module item ((module_at dev name)\<lparr>mf_name := name\<rparr>)) dev)"

definition parse_modules :: "json list \<Rightarrow> device_fw \<Rightarrow> device_fw" where
  "parse_modules items dev = foldl parse_module_into dev items"

definition update_fw_state :: "device_fw \<Rightarrow> bytes \<Rightarrow> device_fw" where
  "update_fw_state dev payload =
     (if \<not> contains ''sw_ver'' payload \<and> \<not> contains ''new_ver_list'' payload then dev
      else case parse_opt payload of
          None \<Rightarrow> dev
        | Some v \<Rightarrow>
            (let dev1 = (if as_string (jfind v ''info.command'') = ''get_version''
                           then parse_modules (as_array (jfind v ''info.module'')) dev else dev) in
             parse_modules (as_array (jfind v ''print.upgrade_state.new_ver_list'')) dev1))"

section \<open>Versions\<close>

text \<open>The digits of a segment, read into an \<open>int\<close> that wraps.\<close>

definition segment_value :: "bytes \<Rightarrow> int" where
  "segment_value ds = foldl (\<lambda>n c. narrow_i32 (n * 10 + int (digit_val c))) 0 ds"

partial_function (option) parts_loop :: "bytes \<Rightarrow> int list \<Rightarrow> int list option" where
  "parts_loop s out =
     (case s of
        [] \<Rightarrow> Some out
      | c # cs \<Rightarrow>
          if c = CHR ''.'' then parts_loop cs out
          else parts_loop (dropWhile is_digit s) (out @ [segment_value (takeWhile is_digit s)]))"

definition version_parts :: "bytes \<Rightarrow> int list option" where
  "version_parts s = parts_loop s []"

fun compare_parts :: "int list \<Rightarrow> int list \<Rightarrow> int" where
  "compare_parts [] [] = 0"
| "compare_parts (x # xs) [] = (if x < 0 then - 1 else if x > 0 then 1 else compare_parts xs [])"
| "compare_parts [] (y # ys) = (if 0 < y then - 1 else if 0 > y then 1 else compare_parts [] ys)"
| "compare_parts (x # xs) (y # ys) = (if x < y then - 1 else if x > y then 1 else compare_parts xs ys)"

definition version_compare :: "bytes \<Rightarrow> bytes \<Rightarrow> int option" where
  "version_compare a b =
     (if a = b \<or> a = [] \<or> b = [] then Some 0
      else case version_parts a of
          None \<Rightarrow> None
        | Some pa \<Rightarrow> (case version_parts b of None \<Rightarrow> None | Some pb \<Rightarrow> Some (compare_parts pa pb)))"

section \<open>Rendering\<close>

text \<open>A string literal whose characters the source types between quotes.\<close>

definition qq :: "bytes \<Rightarrow> bytes" where
  "qq s = QUOTE # s @ [QUOTE]"

definition fw_entry :: "bytes \<Rightarrow> bytes \<Rightarrow> bytes" where
  "fw_entry version description =
     ''{'' @ qq ''version'' @ '':'' @ escape version @ '','' @ qq ''url'' @ '':'' @ qq [] @ '','' @
     qq ''description'' @ '':'' @ escape description @ ''}''"

text \<open>The text written so far and the flag \<open>first\<close>.\<close>

definition emit_fw_entry :: "bytes \<times> bool \<Rightarrow> bytes \<Rightarrow> bytes \<Rightarrow> bytes \<times> bool" where
  "emit_fw_entry st version description =
     (let (dst, first) = st in ((if first then dst else dst @ '','') @ fw_entry version description, False))"

definition product_slug :: "bytes \<Rightarrow> bytes" where
  "product_slug product =
     (if contains ''X1'' product then ''x1''
      else if contains ''P2'' product then ''p1''
      else if contains ''P1'' product then ''p1''
      else if contains ''A1'' product then ''a1''
      else if contains ''H2'' product then ''h2d''
      else if contains ''N7'' product then ''n7''
      else ''all'')"

definition notes_url :: "device_fw \<Rightarrow> bytes" where
  "notes_url fw =
     ''https://bambulab.com/en/support/firmware-download/'' @
     product_slug (case om_get fw ''ota'' of None \<Rightarrow> [] | Some m \<Rightarrow> mf_product_name m)"

definition current_desc :: "bytes \<Rightarrow> bytes" where
  "current_desc url = ''Currently installed firmware. Full changelog at '' @ url @ ''.''"

definition update_desc :: "bytes \<Rightarrow> bytes \<Rightarrow> bytes" where
  "update_desc new_ver url =
     ''New firmware version '' @ new_ver @ '' is available.'' @ [LF, LF] @ ''Release notes: '' @ url @
     [LF, LF] @ ''Click '' @ [CHR 0x27] @ ''Update'' @ [CHR 0x27] @
     '' to install; the printer already knows which package to download. Do not turn off the printer during the update (~10 minutes).''"

definition ams_desc :: "bytes \<Rightarrow> bytes" where
  "ams_desc url = ''AMS firmware. Release notes: '' @ url"

definition emit_ota :: "bytes \<Rightarrow> module_fw \<Rightarrow> bytes \<times> bool \<Rightarrow> (bytes \<times> bool) option" where
  "emit_ota url m st =
     (let st1 = (if mf_cur_ver m \<noteq> [] then emit_fw_entry st (mf_cur_ver m) (current_desc url) else st) in
      if mf_new_ver m = [] then Some st1
      else case version_compare (mf_new_ver m) (mf_cur_ver m) of
          None \<Rightarrow> None
        | Some c \<Rightarrow> Some (if c > 0 then emit_fw_entry st1 (mf_new_ver m) (update_desc (mf_new_ver m) url) else st1))"

definition advertised :: "module_fw \<Rightarrow> bytes" where
  "advertised m = (if mf_new_ver m \<noteq> [] then mf_new_ver m else mf_cur_ver m)"

definition is_ams :: "bytes \<Rightarrow> bool" where
  "is_ams key = (key = ''ams'' \<or> starts_with ''ams/'' key)"

definition emit_ams :: "bytes \<Rightarrow> bytes \<times> module_fw \<Rightarrow> bytes \<times> bool \<Rightarrow> bytes \<times> bool" where
  "emit_ams url kv st =
     (if \<not> is_ams (fst kv) then st
      else if advertised (snd kv) = [] then st
      else emit_fw_entry st (advertised (snd kv)) (ams_desc url))"

definition ams_text :: "bytes \<Rightarrow> device_fw \<Rightarrow> bytes" where
  "ams_text url fw =
     (let ams_fw = fst (fold (emit_ams url) fw ([], True)) in
      if ams_fw \<noteq> [] then ''{'' @ qq ''firmware'' @ '':['' @ ams_fw @ '']}'' else [])"

definition ota_text :: "bytes \<Rightarrow> device_fw \<Rightarrow> bytes option" where
  "ota_text url fw =
     (case om_get fw ''ota'' of
        None \<Rightarrow> Some []
      | Some m \<Rightarrow> map_option fst (emit_ota url m ([], True)))"

definition render_firmware_json :: "(bytes, device_fw) omap \<Rightarrow> bytes \<Rightarrow> bytes option" where
  "render_firmware_json devices dev_id =
     (let snap = (case om_get devices dev_id of None \<Rightarrow> [] | Some fw \<Rightarrow> fw);
          url = notes_url snap in
      case ota_text url snap of
        None \<Rightarrow> None
      | Some ota \<Rightarrow>
          Some (''{'' @ qq ''devices'' @ '':[{'' @ qq ''dev_id'' @ '':'' @ escape dev_id @ '','' @
                qq ''firmware'' @ '':['' @ ota @ ''],'' @ qq ''ams'' @ '':['' @ ams_text url snap @ '']}]}''))"

section \<open>The version loop\<close>

definition version_char :: "char \<Rightarrow> bool" where
  "version_char c = (is_digit c \<or> c = CHR ''.'')"

lemma parts_loop_Some: "parts_loop s out = Some r \<Longrightarrow> list_all version_char s"
proof (induction rule: parts_loop.raw_induct [rotated, consumes 1, case_names step])
  case (step loop s out r)
  show ?case
  proof (cases s)
    case (Cons c cs)
    show ?thesis
    proof (cases "c = CHR ''.''")
      case True
      with step Cons show ?thesis by (simp add: version_char_def)
    next
      case False
      with step Cons have "list_all version_char (dropWhile is_digit s)" by simp
      moreover have "list_all version_char (takeWhile is_digit s)"
        by (auto simp: list_all_iff version_char_def dest: set_takeWhileD)
      ultimately have "list_all version_char (takeWhile is_digit s @ dropWhile is_digit s)"
        by (simp only: list_all_append)
      then show ?thesis by simp
    qed
  qed simp
qed

lemma parts_loop_returns: "list_all version_char s \<Longrightarrow> \<exists>r. parts_loop s out = Some r"
proof (induction "length s" arbitrary: s out rule: less_induct)
  case less
  show ?case
  proof (cases s)
    case Nil
    then show ?thesis by (simp add: parts_loop.simps)
  next
    case (Cons c cs)
    show ?thesis
    proof (cases "c = CHR ''.''")
      case True
      with less Cons have "\<exists>r. parts_loop cs out = Some r" by simp
      with True Cons show ?thesis by (subst parts_loop.simps) simp
    next
      case False
      with less.prems Cons have d: "is_digit c" by (simp add: version_char_def)
      have "length (dropWhile is_digit s) < length s"
        using Cons d by (simp add: le_imp_less_Suc length_dropWhile_le)
      moreover have "list_all version_char (dropWhile is_digit s)"
        using less.prems by (auto simp: list_all_iff dest: set_dropWhileD)
      ultimately obtain r where "parts_loop (dropWhile is_digit s) (out @ [segment_value (takeWhile is_digit s)]) = Some r"
        using less.hyps by blast
      with False Cons show ?thesis by (subst parts_loop.simps) simp
    qed
  qed
qed

lemma version_parts_iff: "(\<exists>r. version_parts s = Some r) \<longleftrightarrow> list_all version_char s"
  using parts_loop_Some parts_loop_returns unfolding version_parts_def by blast

lemma version_parts_None: "version_parts s = None \<longleftrightarrow> \<not> list_all version_char s"
  using version_parts_iff [of s] by (cases "version_parts s") auto

lemma version_compare_None:
  "version_compare a b = None \<longleftrightarrow>
     a \<noteq> b \<and> a \<noteq> [] \<and> b \<noteq> [] \<and> \<not> (list_all version_char a \<and> list_all version_char b)"
  by (auto simp: version_compare_def version_parts_None [symmetric] split: option.splits)

text \<open>When a version comparison ends. \<open>version_compare\<close> returns exactly if the two versions
  are equal, or one is empty, or every character of both is a digit or a dot. On any other
  character the segment loop stands still and appends zeros for ever.\<close>

theorem version_compare_ends:
  "(\<exists>c. version_compare a b = Some c) \<longleftrightarrow>
     a = b \<or> a = [] \<or> b = [] \<or> list_all version_char a \<and> list_all version_char b"
  using version_compare_None [of a b] by (cases "version_compare a b") auto

section \<open>The version order\<close>

definition hdz :: "int list \<Rightarrow> int" where
  "hdz xs = (case xs of [] \<Rightarrow> 0 | x # _ \<Rightarrow> x)"

lemma hdz_simps [simp]: "hdz [] = 0" "hdz (x # xs) = x"
  by (simp_all add: hdz_def)

lemma compare_parts_unfold:
  "compare_parts xs ys =
     (if xs = [] \<and> ys = [] then 0
      else if hdz xs < hdz ys then - 1 else if hdz xs > hdz ys then 1
      else compare_parts (tl xs) (tl ys))"
  by (cases xs; cases ys) simp_all

lemma compare_parts_range: "compare_parts xs ys \<in> {- 1, 0, 1}"
  by (induction xs ys rule: compare_parts.induct) auto

lemma compare_parts_sym: "compare_parts ys xs = - compare_parts xs ys"
  by (induction xs ys rule: compare_parts.induct) auto

lemma compare_parts_trans:
  "compare_parts xs ys \<le> 0 \<Longrightarrow> compare_parts ys zs \<le> 0 \<Longrightarrow>
   compare_parts xs zs \<le> 0 \<and> (compare_parts xs ys < 0 \<or> compare_parts ys zs < 0 \<longrightarrow> compare_parts xs zs < 0)"
proof (induction "length xs + length ys + length zs" arbitrary: xs ys zs rule: less_induct)
  case less
  show ?case
  proof (cases "xs = [] \<and> ys = [] \<and> zs = []")
    case True
    then show ?thesis by simp
  next
    case False
    then have "length (tl xs) + length (tl ys) + length (tl zs) < length xs + length ys + length zs"
      by (cases xs; cases ys; cases zs) simp_all
    note IH = less.hyps [OF this]
    have u: "hdz as < hdz bs \<and> compare_parts as bs = - 1 \<or>
        hdz as > hdz bs \<and> compare_parts as bs = 1 \<or>
        hdz as = hdz bs \<and> compare_parts as bs = compare_parts (tl as) (tl bs)" for as bs
      by (cases as; cases bs) auto
    show ?thesis
      using u [of xs ys] u [of ys zs] u [of xs zs] less.prems IH by fastforce
  qed
qed

text \<open>Versions are ordered. On nonempty versions of digits and dots \<open>version_compare\<close>
  answers -1, 0 or 1, swapping the arguments negates the answer, and \<open>not newer than\<close> is
  transitive.\<close>

theorem version_order:
  assumes "list_all version_char a" "list_all version_char b" "list_all version_char c"
    and "a \<noteq> []" "b \<noteq> []" "c \<noteq> []"
  shows "version_compare a b \<in> {Some (- 1), Some 0, Some 1} \<and>
    version_compare b a = map_option uminus (version_compare a b) \<and>
    (version_compare a b \<noteq> Some 1 \<longrightarrow> version_compare b c \<noteq> Some 1 \<longrightarrow> version_compare a c \<noteq> Some 1)"
proof -
  obtain pa pb pc where p: "version_parts a = Some pa" "version_parts b = Some pb" "version_parts c = Some pc"
    using assms version_parts_iff by blast
  have self: "compare_parts xs xs = 0" for xs
    using compare_parts_sym [of xs xs] by simp
  have cmp: "version_compare x y = Some (compare_parts px py)"
    if "version_parts x = Some px" "version_parts y = Some py" "x \<noteq> []" "y \<noteq> []" for x y px py
    using that self by (auto simp: version_compare_def)
  show ?thesis
    using cmp [OF p(1) p(2)] cmp [OF p(2) p(1)] cmp [OF p(2) p(3)] cmp [OF p(1) p(3)] assms(4-6)
      compare_parts_range [of pa pb] compare_parts_range [of pb pc] compare_parts_range [of pa pc]
      compare_parts_sym [of pa pb] compare_parts_trans [of pa pb pc]
    by auto
qed

theorem version_order_witness:
  "version_compare ''01.08.01.00'' ''1.9'' = Some (- 1) \<and> version_compare ''1.9'' ''01.08.01.00'' = Some 1"
proof -
  have "version_compare ''01.08.01.00'' ''1.9'' = Some (- 1)"
    by (simp add: version_compare_def version_parts_def parts_loop.simps segment_value_def is_digit_def digit_val_def)
  then show ?thesis
    using version_order [of "''01.08.01.00''" "''1.9''" "''1.9''"]
    by (simp add: version_char_def is_digit_def)
qed

section \<open>The catalogue as JSON\<close>

lemma join_snoc: "join sep (xs @ [x]) = (if xs = [] then x else join sep xs @ sep @ x)"
  by (induction sep xs rule: join.induct) (simp_all add: join_Cons)

definition entries_text :: "(bytes \<times> bytes) list \<Rightarrow> bytes" where
  "entries_text es = join '','' (map (\<lambda>(v, d). fw_entry v d) es)"

definition emitted :: "(bytes \<times> bytes) list \<Rightarrow> bytes \<times> bool" where
  "emitted es = (entries_text es, es = [])"

lemma emit_fw_entry [simp]: "emit_fw_entry (emitted es) v d = emitted (es @ [(v, d)])"
  by (simp add: emit_fw_entry_def emitted_def entries_text_def join_snoc)

lemma emitted_Nil: "([], True) = emitted []"
  by (simp add: emitted_def entries_text_def)

definition ota_entries :: "bytes \<Rightarrow> module_fw \<Rightarrow> (bytes \<times> bytes) list" where
  "ota_entries url m =
     (if mf_cur_ver m \<noteq> [] then [(mf_cur_ver m, current_desc url)] else []) @
     (if mf_new_ver m \<noteq> [] \<and> version_compare (mf_new_ver m) (mf_cur_ver m) = Some 1
        then [(mf_new_ver m, update_desc (mf_new_ver m) url)] else [])"

definition ams_entries :: "bytes \<Rightarrow> device_fw \<Rightarrow> (bytes \<times> bytes) list" where
  "ams_entries url fw =
     map (\<lambda>kv. (advertised (snd kv), ams_desc url))
       (filter (\<lambda>kv. is_ams (fst kv) \<and> advertised (snd kv) \<noteq> []) fw)"

lemma version_compare_pos: "version_compare a b = Some c \<Longrightarrow> 0 < c \<longleftrightarrow> c = 1"
proof -
  assume *: "version_compare a b = Some c"
  have "c = 0 \<or> (\<exists>pa pb. c = compare_parts pa pb)"
    using * by (auto simp: version_compare_def split: if_splits option.splits)
  then have "c = - 1 \<or> c = 0 \<or> c = 1" using compare_parts_range by blast
  then show ?thesis by auto
qed

lemma emit_ota_entries:
  "emit_ota url m (emitted []) =
     (if mf_new_ver m \<noteq> [] \<and> version_compare (mf_new_ver m) (mf_cur_ver m) = None then None
      else Some (emitted (ota_entries url m)))"
  by (auto simp: emit_ota_def ota_entries_def Let_def dest: version_compare_pos split: option.splits)

lemma emit_ams_entries:
  "fold (emit_ams url) fw (emitted es) = emitted (es @ ams_entries url fw)"
  by (induction fw arbitrary: es) (simp_all add: emit_ams_def ams_entries_def)

lemma qq_literals:
  "qq ''version'' = escape ''version''" "qq ''url'' = escape ''url''" "qq [] = escape []"
  "qq ''description'' = escape ''description''" "qq ''firmware'' = escape ''firmware''"
  "qq ''devices'' = escape ''devices''" "qq ''dev_id'' = escape ''dev_id''" "qq ''ams'' = escape ''ams''"
  by (simp_all add: qq_def escape_def escape_char_def)

definition entry_json :: "bytes \<times> bytes \<Rightarrow> json" where
  "entry_json e = Object [(''description'', String (snd e)), (''url'', String []), (''version'', String (fst e))]"

lemma reads_as_entry: "reads_as (fw_entry v d) (entry_json (v, d))"
proof -
  let ?ms = "[plain_member ''version'' (escape v) (String v), plain_member ''url'' (escape []) (String []),
    plain_member ''description'' (escape d) (String d)]"
  have "reads_as (''{'' @ members_text ?ms @ ''}'') (Object (emplace_all (map member_val ?ms) []))"
    by (rule reads_as_object) (simp_all add: reads_as_escape)
  moreover have "''{'' @ members_text ?ms @ ''}'' = fw_entry v d"
    by (simp add: fw_entry_def qq_literals)
  moreover have "emplace_all (map member_val ?ms) [] =
      [(''description'', String d), (''url'', String []), (''version'', String v)]"
    by (simp add: om_emplace_def om_get_def)
  ultimately show ?thesis by (simp add: entry_json_def)
qed

lemma fw_entry_start: "fw_entry v d \<noteq> [] \<and> \<not> is_ws (hd (fw_entry v d)) \<and> hd (fw_entry v d) \<noteq> CHR '']''"
  by (simp add: fw_entry_def is_ws_def)

lemma reads_as_entries: "reads_as (''['' @ entries_text es @ '']'') (Array (map entry_json es))"
proof -
  have "reads_as (''['' @ join '','' (map fst (map (\<lambda>e. (fw_entry (fst e) (snd e), entry_json e)) es)) @ '']'')
      (Array (map snd (map (\<lambda>e. (fw_entry (fst e) (snd e), entry_json e)) es)))"
    using reads_as_entry [of "fst e" "snd e" for e] fw_entry_start
    by (intro reads_as_array) (simp add: list_all_iff)
  then show ?thesis by (simp add: entries_text_def comp_def case_prod_beta')
qed

definition ams_json :: "bytes \<Rightarrow> device_fw \<Rightarrow> json" where
  "ams_json url fw =
     Array (if ams_entries url fw = [] then []
            else [Object [(''firmware'', Array (map entry_json (ams_entries url fw)))]])"

lemma entries_text_Nil [simp]: "entries_text es = [] \<longleftrightarrow> es = []"
  by (cases es) (auto simp: entries_text_def join_Cons fw_entry_def)

lemma reads_as_ams: "reads_as (''['' @ ams_text url fw @ '']'') (ams_json url fw)"
proof (cases "ams_entries url fw = []")
  case True
  then have "ams_text url fw = []"
    by (simp add: ams_text_def emitted_Nil emit_ams_entries) (simp add: emitted_def)
  with True show ?thesis using reads_as_array [of "[]"] by (simp add: ams_json_def)
next
  case False
  let ?es = "ams_entries url fw"
  let ?ms = "[plain_member ''firmware'' (''['' @ entries_text ?es @ '']'') (Array (map entry_json ?es))]"
  have shape: "ams_text url fw = ''{'' @ members_text ?ms @ ''}''"
    using False by (simp add: ams_text_def emitted_Nil emit_ams_entries) (simp add: emitted_def qq_literals)
  have "reads_as (''{'' @ members_text ?ms @ ''}'') (Object (emplace_all (map member_val ?ms) []))"
    using reads_as_entries [of ?es] by (intro reads_as_object) simp_all
  then have "reads_as (ams_text url fw) (Object [(''firmware'', Array (map entry_json ?es))])"
    using shape by (simp add: om_emplace_def om_get_def)
  then show ?thesis
    using reads_as_array [of "[(ams_text url fw, Object [(''firmware'', Array (map entry_json ?es))])]"] shape False
    by (simp add: ams_json_def is_ws_def)
qed

definition ota_list :: "bytes \<Rightarrow> device_fw \<Rightarrow> (bytes \<times> bytes) list" where
  "ota_list url fw = (case om_get fw ''ota'' of None \<Rightarrow> [] | Some m \<Rightarrow> ota_entries url m)"

definition stuck_version :: "device_fw \<Rightarrow> bool" where
  "stuck_version fw = (case om_get fw ''ota'' of None \<Rightarrow> False
     | Some m \<Rightarrow> version_compare (mf_new_ver m) (mf_cur_ver m) = None)"

lemma ota_text_entries:
  "ota_text url fw = (if stuck_version fw then None else Some (entries_text (ota_list url fw)))"
proof (cases "om_get fw ''ota''")
  case None
  then show ?thesis by (simp add: ota_text_def stuck_version_def ota_list_def entries_text_def)
next
  case (Some m)
  have "version_compare [] x = Some 0" for x by (simp add: version_compare_def)
  with Some show ?thesis
    by (auto simp: ota_text_def stuck_version_def ota_list_def emitted_Nil emit_ota_entries emitted_def [of "ota_entries url m"])
qed

definition device_json :: "bytes \<Rightarrow> device_fw \<Rightarrow> json" where
  "device_json dev_id fw =
     Object [(''ams'', ams_json (notes_url fw) fw), (''dev_id'', String dev_id),
             (''firmware'', Array (map entry_json (ota_list (notes_url fw) fw)))]"

definition known_fw :: "(bytes, device_fw) omap \<Rightarrow> bytes \<Rightarrow> device_fw" where
  "known_fw devices dev_id = (case om_get devices dev_id of None \<Rightarrow> [] | Some fw \<Rightarrow> fw)"

lemma render_text:
  assumes "\<not> stuck_version (known_fw devices dev_id)"
  shows "\<exists>body. render_firmware_json devices dev_id = Some body \<and>
    reads_as body (Object [(''devices'', Array [device_json dev_id (known_fw devices dev_id)])])"
proof -
  let ?fw = "known_fw devices dev_id"
  let ?url = "notes_url ?fw"
  let ?es = "ota_list ?url ?fw"
  let ?ms = "[plain_member ''dev_id'' (escape dev_id) (String dev_id),
    plain_member ''firmware'' (''['' @ entries_text ?es @ '']'') (Array (map entry_json ?es)),
    plain_member ''ams'' (''['' @ ams_text ?url ?fw @ '']'') (ams_json ?url ?fw)]"
  let ?dev = "''{'' @ members_text ?ms @ ''}''"
  have "reads_as ?dev (Object (emplace_all (map member_val ?ms) []))"
    using reads_as_entries reads_as_ams by (intro reads_as_object) (simp_all add: reads_as_escape)
  moreover have "Object (emplace_all (map member_val ?ms) []) = device_json dev_id ?fw"
    by (simp add: om_emplace_def om_get_def device_json_def)
  ultimately have "reads_as ?dev (device_json dev_id ?fw)" by simp
  then have arr: "reads_as (''['' @ ?dev @ '']'') (Array [device_json dev_id ?fw])"
    using reads_as_array [of "[(?dev, device_json dev_id ?fw)]"] by (simp add: is_ws_def)
  let ?top = "[plain_member ''devices'' (''['' @ ?dev @ '']'') (Array [device_json dev_id ?fw])]"
  have "reads_as (''{'' @ members_text ?top @ ''}'') (Object (emplace_all (map member_val ?top) []))"
    using arr by (intro reads_as_object) simp_all
  then have top: "reads_as (''{'' @ members_text ?top @ ''}'') (Object [(''devices'', Array [device_json dev_id ?fw])])"
    by (simp add: om_emplace_def om_get_def)
  have "render_firmware_json devices dev_id = Some (''{'' @ members_text ?top @ ''}'')"
    using assms by (simp add: render_firmware_json_def known_fw_def [symmetric] ota_text_entries qq_literals Let_def)
  with top show ?thesis by blast
qed

text \<open>C19: the firmware catalogue. Unless the two OTA versions cannot be compared,
  \<open>render_firmware_json\<close> returns a text that the JSON parser reads as the catalogue of the
  device: its id, the current version and the newer one if there is one, and one entry per AMS
  module with a version; whatever bytes the printer put into names and versions. With versions
  that cannot be compared the call never returns.\<close>

theorem render_firmware_spec:
  "(stuck_version (known_fw devices dev_id) \<longrightarrow> render_firmware_json devices dev_id = None) \<and>
   (\<not> stuck_version (known_fw devices dev_id) \<longrightarrow>
     (\<exists>body. render_firmware_json devices dev_id = Some body \<and>
        parse body = Inr (Object [(''devices'', Array [device_json dev_id (known_fw devices dev_id)])])))"
proof (intro conjI impI)
  assume "stuck_version (known_fw devices dev_id)"
  then show "render_firmware_json devices dev_id = None"
    by (simp add: render_firmware_json_def known_fw_def [symmetric] ota_text_entries Let_def)
next
  assume "\<not> stuck_version (known_fw devices dev_id)"
  from render_text [OF this] show "\<exists>body. render_firmware_json devices dev_id = Some body \<and>
      parse body = Inr (Object [(''devices'', Array [device_json dev_id (known_fw devices dev_id)])])"
    using parse_as [of _ _ "[]" "[]"] by auto
qed

theorem render_firmware_spec_witness:
  "\<exists>body. render_firmware_json [] ''P1'' = Some body \<and>
     parse body = Inr (Object [(''devices'', Array [device_json ''P1'' []])])"
  using render_firmware_spec [of "[]" "''P1''"] by (simp add: stuck_version_def known_fw_def)

section \<open>Harvesting\<close>

text \<open>Every module is stored under its own, nonempty name.\<close>

definition fw_ok :: "device_fw \<Rightarrow> bool" where
  "fw_ok fw = (om_ok fw \<and> (\<forall>k m. om_get fw k = Some m \<longrightarrow> mf_name m = k \<and> k \<noteq> []))"

definition knows :: "bytes \<Rightarrow> bytes \<Rightarrow> bool" where
  "knows old new = (old \<noteq> [] \<longrightarrow> new \<noteq> [])"

definition refines_module :: "module_fw \<Rightarrow> module_fw \<Rightarrow> bool" where
  "refines_module m m' = (knows (mf_cur_ver m) (mf_cur_ver m') \<and> knows (mf_new_ver m) (mf_new_ver m') \<and>
     knows (mf_product_name m) (mf_product_name m') \<and> knows (mf_sn m) (mf_sn m'))"

definition keeps_modules :: "device_fw \<Rightarrow> device_fw \<Rightarrow> bool" where
  "keeps_modules fw fw' = (\<forall>k m. om_get fw k = Some m \<longrightarrow> (\<exists>m'. om_get fw' k = Some m' \<and> refines_module m m'))"

lemma merge_module_facts:
  "mf_name (merge_module item m) = mf_name m" "refines_module m (merge_module item m)"
  by (simp_all add: merge_module_def refines_module_def knows_def set_if_def or_else_def)

lemma keeps_modules_refl: "keeps_modules fw fw"
  by (auto simp: keeps_modules_def refines_module_def knows_def)

lemma refines_module_trans: "refines_module a b \<Longrightarrow> refines_module b c \<Longrightarrow> refines_module a c"
  by (simp add: refines_module_def knows_def)

lemma keeps_modules_trans: "keeps_modules a b \<Longrightarrow> keeps_modules b c \<Longrightarrow> keeps_modules a c"
  unfolding keeps_modules_def using refines_module_trans by meson

lemma parse_module_step:
  assumes "fw_ok fw" shows "fw_ok (parse_module_into fw item) \<and> keeps_modules fw (parse_module_into fw item)"
proof (cases "is_object item \<and> as_string (jfind item ''name'') \<noteq> []")
  case True
  define k where "k = as_string (jfind item ''name'')"
  define m where "m = merge_module item ((module_at fw k)\<lparr>mf_name := k\<rparr>)"
  have fw': "parse_module_into fw item = om_put k m fw"
    using True by (simp add: parse_module_into_def k_def m_def Let_def)
  have "refines_module ((module_at fw k)\<lparr>mf_name := k\<rparr>) m" by (simp add: m_def merge_module_facts)
  then have "om_get fw k = Some m0 \<Longrightarrow> refines_module m0 m" for m0
    by (simp add: refines_module_def module_at_def)
  moreover have "refines_module m0 m0" for m0 by (simp add: refines_module_def knows_def)
  moreover have "mf_name m = k" by (simp add: m_def merge_module_facts)
  ultimately show ?thesis
    using assms True by (auto simp: fw' fw_ok_def keeps_modules_def k_def [symmetric])
next
  case False
  then show ?thesis using assms keeps_modules_refl by (auto simp: parse_module_into_def Let_def)
qed

lemma parse_modules_steps:
  "fw_ok fw \<Longrightarrow> fw_ok (parse_modules items fw) \<and> keeps_modules fw (parse_modules items fw)"
proof (induction items arbitrary: fw)
  case Nil
  then show ?case by (simp add: parse_modules_def keeps_modules_refl)
next
  case (Cons a items)
  have "parse_modules (a # items) fw = parse_modules items (parse_module_into fw a)"
    by (simp add: parse_modules_def)
  then show ?case
    using parse_module_step [OF Cons.prems, of a] Cons.IH [of "parse_module_into fw a"]
    by (auto intro: keeps_modules_trans)
qed

lemma update_fw_keeps:
  assumes "fw_ok fw" shows "fw_ok (update_fw_state fw payload) \<and> keeps_modules fw (update_fw_state fw payload)"
proof -
  have two: "fw_ok (parse_modules ys (parse_modules xs fw)) \<and> keeps_modules fw (parse_modules ys (parse_modules xs fw))" for xs ys
    using parse_modules_steps [OF assms, of xs] parse_modules_steps [of "parse_modules xs fw" ys]
    by (auto intro: keeps_modules_trans)
  have one: "fw_ok (parse_modules ys fw) \<and> keeps_modules fw (parse_modules ys fw)" for ys
    by (rule parse_modules_steps [OF assms])
  show ?thesis
    using assms one two by (auto simp: update_fw_state_def keeps_modules_refl Let_def split: option.splits)
qed

text \<open>Firmware harvesting loses nothing. Whatever payload arrives, every module the plugin
  knew stays known under its own name, and no version, product name or serial number that was
  known becomes unknown.\<close>

theorem update_fw_monotone:
  assumes "fw_ok fw"
  shows "fw_ok (update_fw_state fw payload) \<and> keeps_modules fw (update_fw_state fw payload)"
  by (rule update_fw_keeps [OF assms])

theorem update_fw_monotone_witness:
  "fw_ok (update_fw_state [] ''sw_ver'')"
  using update_fw_monotone [of "[]" "''sw_ver''"] by (simp add: fw_ok_def)

end
