(* ===== verification/Calendar.thy ===== *)
theory Calendar
  imports Cxx_Num
begin

text \<open>
  Time stamps as \<open>src/auth.cpp\<close> writes and reads them. A \<open>system_clock::time_point\<close> is a
  signed 64-bit count of nanoseconds since 1970. The conversions between seconds and calendar
  fields are those of \<open>gmtime\<close> and \<open>timegm\<close> (the proleptic Gregorian calendar in UTC,
  behind \<open>obn::os::gmtime_safe\<close> and \<open>timegm_safe\<close>).
\<close>

section \<open>The calendar\<close>

definition wrap_i64 :: "int \<Rightarrow> int" where
  "wrap_i64 i = (i + 2 ^ 63) mod 2 ^ 64 - 2 ^ 63"

lemma wrap_i64_id [simp]: "- (2 ^ 63) \<le> i \<Longrightarrow> i < 2 ^ 63 \<Longrightarrow> wrap_i64 i = i"
  by (simp add: wrap_i64_def)

record tm =
  tm_year :: int   \<comment> \<open>years since 1900\<close>
  tm_mon :: int    \<comment> \<open>0 to 11\<close>
  tm_mday :: int
  tm_hour :: int
  tm_min :: int
  tm_sec :: int

text \<open>
  Years are counted from 1 March, so that the leap day is the last of its year; a period of
  400 years has 146097 days.
\<close>

definition civil_from_days :: "int \<Rightarrow> int \<times> int \<times> int" where
  "civil_from_days z =
     (let d = z + 719468;
          era = d div 146097; r = d mod 146097;
          n100 = min 3 (r div 36524); r1 = r - 36524 * n100;
          n4 = r1 div 1461; r2 = r1 mod 1461;
          n1 = min 3 (r2 div 365); doy = r2 - 365 * n1;
          yoe = 100 * n100 + 4 * n4 + n1;
          mp = (5 * doy + 2) div 153;
          day = doy - (153 * mp + 2) div 5 + 1;
          mon = (if mp < 10 then mp + 3 else mp - 9) in
      (400 * era + yoe + (if mon \<le> 2 then 1 else 0), mon, day))"

definition days_from_civil :: "int \<Rightarrow> int \<Rightarrow> int \<Rightarrow> int" where
  "days_from_civil y mon day =
     (let y' = (if mon \<le> 2 then y - 1 else y);
          mp = (if mon > 2 then mon - 3 else mon + 9);
          yoe = y' mod 400;
          doy = (153 * mp + 2) div 5 + day - 1 in
      146097 * (y' div 400) + (365 * yoe + yoe div 4 - yoe div 100 + doy) - 719468)"

definition gmtime :: "int \<Rightarrow> tm" where
  "gmtime t =
     (let (y, mon, day) = civil_from_days (t div 86400); s = t mod 86400 in
      \<lparr>tm_year = y - 1900, tm_mon = mon - 1, tm_mday = day,
       tm_hour = s div 3600, tm_min = s mod 3600 div 60, tm_sec = s mod 60\<rparr>)"

text \<open>Fields out of range are carried over, as \<open>timegm\<close> does.\<close>

definition timegm :: "tm \<Rightarrow> int" where
  "timegm f =
     86400 * (days_from_civil (tm_year f + 1900 + tm_mon f div 12) (tm_mon f mod 12 + 1) 1 + tm_mday f - 1) +
     3600 * tm_hour f + 60 * tm_min f + tm_sec f"

lemma days_from_civil_shift: "days_from_civil y mon day = days_from_civil y mon 1 + day - 1"
  by (simp add: days_from_civil_def Let_def)

lemma month_day:
  assumes "0 \<le> doy" "doy \<le> (365 :: int)" "mp = (5 * doy + 2) div 153" "day = doy - (153 * mp + 2) div 5 + 1"
  shows "0 \<le> mp \<and> mp \<le> 11 \<and> 1 \<le> day \<and> day \<le> 31"
proof -
  have mp: "0 \<le> mp" "mp \<le> 11" using assms by simp_all
  have "153 * mp \<le> 5 * doy + 2" "5 * doy + 2 < 153 * mp + 153" using assms(3) by linarith+
  then show ?thesis using mp assms(4) by (simp; linarith)
qed

lemma cycle_parts:
  assumes "0 \<le> r" "r < (146097 :: int)"
    and "n100 = min 3 (r div 36524)" "r1 = r - 36524 * n100" "n4 = r1 div 1461" "r2 = r1 mod 1461"
    and "n1 = min 3 (r2 div 365)" "doy = r2 - 365 * n1"
  shows "0 \<le> n100 \<and> n100 \<le> 3 \<and> 0 \<le> n4 \<and> n4 \<le> 24 \<and> 0 \<le> n1 \<and> n1 \<le> 3 \<and> 0 \<le> doy \<and> doy \<le> 365 \<and>
    r = 36524 * n100 + 1461 * n4 + 365 * n1 + doy"
proof -
  have n100: "0 \<le> n100" "n100 \<le> 3" "36524 * n100 \<le> r" "r \<le> 36524 * n100 + 36524"
    using assms(1-3) by (simp_all add: min_def split: if_splits)
  then have r1: "0 \<le> r1" "r1 \<le> 36524" using assms(4) by linarith+
  then have n4: "0 \<le> n4" "n4 \<le> 24" using assms(5) by simp_all
  have r2: "0 \<le> r2" "r2 \<le> 1460" using assms(6) by simp_all
  then have n1: "0 \<le> n1" "n1 \<le> 3" "365 * n1 \<le> r2" "r2 \<le> 365 * n1 + 365"
    using assms(7) by (simp_all add: min_def split: if_splits)
  have "r1 = 1461 * n4 + r2" using assms(5,6) by simp
  with n100 r1 n4 r2 n1 assms(4,8) show ?thesis by linarith
qed

lemma civil_roundtrip:
  assumes "civil_from_days z = (y, mon, day)"
  shows "days_from_civil y mon day = z \<and> 1 \<le> mon \<and> mon \<le> 12 \<and> 1 \<le> day \<and> day \<le> 31 \<and>
    400 * ((z + 719468) div 146097) \<le> y \<and> y \<le> 400 * ((z + 719468) div 146097) + 400"
proof -
  define d where "d = z + 719468"
  define era r where "era = d div 146097" and "r = d mod 146097"
  define n100 where "n100 = min 3 (r div 36524)"
  define r1 where "r1 = r - 36524 * n100"
  define n4 r2 where "n4 = r1 div 1461" and "r2 = r1 mod 1461"
  define n1 where "n1 = min 3 (r2 div 365)"
  define doy where "doy = r2 - 365 * n1"
  define yoe where "yoe = 100 * n100 + 4 * n4 + n1"
  define mp where "mp = (5 * doy + 2) div 153"
  have vals: "mon = (if mp < 10 then mp + 3 else mp - 9)" "day = doy - (153 * mp + 2) div 5 + 1"
    "y = 400 * era + yoe + (if mon \<le> 2 then 1 else 0)"
    using assms
    unfolding civil_from_days_def Let_def
    by (simp_all only: d_def [symmetric] era_def [symmetric] r_def [symmetric] n100_def [symmetric] r1_def [symmetric]
      n4_def [symmetric] r2_def [symmetric] n1_def [symmetric] doy_def [symmetric] yoe_def [symmetric] mp_def [symmetric] prod.inject)
      auto
  have "0 \<le> r" "r < 146097" by (simp_all add: r_def)
  note c = cycle_parts [OF this n100_def r1_def n4_def r2_def n1_def doy_def]
  then have yoe: "0 \<le> yoe" "yoe < 400" by (auto simp: yoe_def)
  have md: "0 \<le> mp \<and> mp \<le> 11 \<and> 1 \<le> day \<and> day \<le> 31"
    using month_day [OF _ _ mp_def vals(2)] c by blast
  have mon: "1 \<le> mon" "mon \<le> 12" "mon \<le> 2 \<longleftrightarrow> 10 \<le> mp" "(if mon > 2 then mon - 3 else mon + 9) = mp"
    using md vals(1) by auto
  have y': "(if mon \<le> 2 then y - 1 else y) = 400 * era + yoe" using vals(3) by simp
  have "yoe div 4 = 25 * n100 + n4" "yoe div 100 = n100"
    using c by (simp_all add: yoe_def; linarith)+
  then have "365 * yoe + yoe div 4 - yoe div 100 + doy = r"
    using c by (simp add: yoe_def)
  moreover have "(400 * era + yoe) mod 400 = yoe" "(400 * era + yoe) div 400 = era" using yoe by simp_all
  moreover have "146097 * era + r = d" by (simp add: era_def r_def)
  moreover have "(153 * mp + 2) div 5 + day - 1 = doy" using vals(2) by simp
  ultimately have "days_from_civil y mon day = z"
    unfolding days_from_civil_def Let_def y' mon(4) by (simp add: d_def)
  moreover have "400 * era \<le> y" "y \<le> 400 * era + 400" using vals(3) yoe by auto
  ultimately show ?thesis using mon md by (simp add: era_def d_def)
qed

lemma clock_parts:
  assumes "0 \<le> s" "s < (86400 :: int)"
  shows "3600 * (s div 3600) + 60 * (s mod 3600 div 60) + s mod 60 = s" "0 \<le> s div 3600" "s div 3600 \<le> 23"
    "0 \<le> s mod 3600 div 60" "s mod 3600 div 60 \<le> 59" "0 \<le> s mod 60" "s mod 60 \<le> 59"
proof -
  have "s mod 60 = s mod 3600 mod 60" by (simp add: mod_mod_cancel)
  then have "60 * (s mod 3600 div 60) + s mod 60 = s mod 3600" by simp
  moreover have "3600 * (s div 3600) + s mod 3600 = s" by simp
  ultimately show "3600 * (s div 3600) + 60 * (s mod 3600 div 60) + s mod 60 = s" by linarith
  show "0 \<le> s div 3600" "s div 3600 \<le> 23" using assms by simp_all
  show "0 \<le> s mod 3600 div 60" "s mod 3600 div 60 \<le> 59" using pos_mod_bound [of 3600 s] by simp_all
  show "0 \<le> s mod 60" "s mod 60 \<le> 59" using pos_mod_bound [of 60 s] by simp_all
qed

lemma gmtime_fields:
  assumes "f = gmtime t"
  shows "timegm f = t \<and> 0 \<le> tm_mon f \<and> tm_mon f \<le> 11 \<and> 1 \<le> tm_mday f \<and> tm_mday f \<le> 31 \<and>
    0 \<le> tm_hour f \<and> tm_hour f \<le> 23 \<and> 0 \<le> tm_min f \<and> tm_min f \<le> 59 \<and> 0 \<le> tm_sec f \<and> tm_sec f \<le> 59"
proof -
  obtain y mon day where c: "civil_from_days (t div 86400) = (y, mon, day)" by (metis surj_pair)
  define s where "s = t mod 86400"
  have s: "0 \<le> s" "s < 86400" by (simp_all add: s_def)
  have t: "86400 * (t div 86400) + s = t" by (simp add: s_def)
  have f: "f = \<lparr>tm_year = y - 1900, tm_mon = mon - 1, tm_mday = day,
       tm_hour = s div 3600, tm_min = s mod 3600 div 60, tm_sec = s mod 60\<rparr>"
    using assms c by (simp add: gmtime_def s_def Let_def)
  have sel: "tm_year f = y - 1900" "tm_mon f = mon - 1" "tm_mday f = day" "tm_hour f = s div 3600"
    "tm_min f = s mod 3600 div 60" "tm_sec f = s mod 60"
    by (simp_all add: f)
  have r: "days_from_civil y mon day = t div 86400" "1 \<le> mon" "mon \<le> 12" "1 \<le> day" "day \<le> 31"
    using civil_roundtrip [OF c] by simp_all
  have mon: "(mon - 1) div 12 = 0" "(mon - 1) mod 12 = mon - 1" using r(2,3) by simp_all
  have day: "days_from_civil y mon 1 + day - 1 = t div 86400"
    using r(1) days_from_civil_shift [of y mon day] by simp
  have "timegm f = 86400 * (days_from_civil y mon 1 + day - 1) + (3600 * (s div 3600) + 60 * (s mod 3600 div 60) + s mod 60)"
    unfolding timegm_def sel using mon by simp
  also have "\<dots> = 86400 * (t div 86400) + s" by (simp only: day clock_parts(1) [OF s])
  also have "\<dots> = t" by (rule t)
  finally have "timegm f = t" .
  then show ?thesis
    unfolding sel using r(2-5) clock_parts(2-7) [OF s] by (intro conjI; (assumption | linarith))
qed

section \<open>Printing and reading\<close>

text \<open>\<open>%0wd\<close>.\<close>

definition show_padded :: "nat \<Rightarrow> int \<Rightarrow> bytes" where
  "show_padded w i =
     (let ds = show_nat (nat \<bar>i\<bar>); sign = (if i < 0 then ''-'' else []) in
      sign @ replicate (w - length sign - length ds) (CHR ''0'') @ ds)"

definition nanos :: int where "nanos = 1000000000"

text \<open>\<open>to_time_t\<close> truncates towards zero, \<open>from_time_t\<close> multiplies in 64 bits.\<close>

definition to_time_t :: "int \<Rightarrow> int" where
  "to_time_t tp = (if tp < 0 then - ((- tp) div nanos) else tp div nanos)"

definition from_time_t :: "int \<Rightarrow> int" where
  "from_time_t t = wrap_i64 (t * nanos)"

definition to_iso8601 :: "int \<Rightarrow> bytes" where
  "to_iso8601 tp =
     (let f = gmtime (to_time_t tp) in
      show_padded 4 (tm_year f + 1900) @ ''-'' @ show_padded 2 (tm_mon f + 1) @ ''-'' @
      show_padded 2 (tm_mday f) @ ''T'' @ show_padded 2 (tm_hour f) @ '':'' @
      show_padded 2 (tm_min f) @ '':'' @ show_padded 2 (tm_sec f) @ ''Z'')"

text \<open>\<open>%d\<close>, and the literal characters between the fields.\<close>

definition scan_int :: "bytes \<Rightarrow> (int \<times> bytes) option" where
  "scan_int s =
     (let (neg, r) = split_sign (dropWhile is_space s); ds = takeWhile is_digit r in
      if ds = [] then None
      else Some (narrow_i32 (max (- (2 ^ 63)) (min (2 ^ 63 - 1) (signed_of neg (read_nat ds)))), dropWhile is_digit r))"

definition scan_char :: "char \<Rightarrow> bytes \<Rightarrow> bytes option" where
  "scan_char c s = (case s of [] \<Rightarrow> None | x # xs \<Rightarrow> if x = c then Some xs else None)"

text \<open>A run of integers separated by the given characters.\<close>

fun scan_fields :: "char list \<Rightarrow> bytes \<Rightarrow> int list option" where
  "scan_fields [] s = map_option (\<lambda>r. [fst r]) (scan_int s)"
| "scan_fields (c # cs) s =
     (case scan_int s of
        None \<Rightarrow> None
      | Some (i, r) \<Rightarrow>
          (case scan_char c r of None \<Rightarrow> None | Some r' \<Rightarrow> map_option ((#) i) (scan_fields cs r')))"

definition parse_iso8601 :: "bytes \<Rightarrow> int" where
  "parse_iso8601 s =
     (if s = [] then 0
      else case scan_fields ''--T::'' s of
          Some [y, mo, d, h, mi, se] \<Rightarrow>
            from_time_t (timegm \<lparr>tm_year = narrow_i32 (y - 1900), tm_mon = narrow_i32 (mo - 1),
              tm_mday = d, tm_hour = h, tm_min = mi, tm_sec = se\<rparr>)
        | _ \<Rightarrow> 0)"

lemma show_padded_nonneg:
  "0 \<le> i \<Longrightarrow> show_padded w i = replicate (w - length (show_nat (nat i))) (CHR ''0'') @ show_nat (nat i)"
  by (simp add: show_padded_def Let_def)

lemma read_nat_zeros: "read_nat (replicate k (CHR ''0'') @ ds) = read_nat ds"
  by (induction k) (simp_all add: read_nat_def digit_val_def)

lemma zeros_digits: "\<forall>c \<in> set (replicate k (CHR ''0'') @ show_nat n). is_digit c"
  using show_nat_all_digits by (auto simp: is_digit_def)

lemma digits_hd:
  assumes "ds \<noteq> []" "\<forall>c \<in> set ds. is_digit c"
  shows "dropWhile is_space (ds @ r) = ds @ r" "split_sign (ds @ r) = (False, ds @ r)"
  using assms not_space_digit digit_not_sign
  by (cases ds; fastforce simp: split_sign_def)+

lemma scan_int_padded:
  assumes "0 \<le> i" "i < 2 ^ 31" "r = [] \<or> \<not> is_digit (hd r)"
  shows "scan_int (show_padded w i @ r) = Some (i, r)"
proof -
  define ds where "ds = replicate (w - length (show_nat (nat i))) (CHR ''0'') @ show_nat (nat i)"
  have d: "\<forall>c \<in> set ds. is_digit c" "ds \<noteq> []" "read_nat ds = nat i"
    unfolding ds_def using zeros_digits by (blast, simp, simp add: read_nat_zeros)
  have "takeWhile is_digit (ds @ r) = ds" "dropWhile is_digit (ds @ r) = r"
    using takeWhile_digits_append [OF d(1) assms(3)] by simp_all
  then show ?thesis
    using assms digits_hd [OF d(2,1)] d(2,3)
    by (simp add: scan_int_def show_padded_nonneg ds_def [symmetric] signed_of_def)
qed

lemma scan_fields_padded:
  assumes "0 \<le> i" "i < 2 ^ 31" "\<not> is_digit c"
  shows "scan_fields (c # cs) (show_padded w i @ c # s) = map_option ((#) i) (scan_fields cs s)"
  using scan_int_padded [OF assms(1,2), of "c # s" w] assms(3) by (simp add: scan_char_def)

lemma civil_year_nonneg:
  assumes "civil_from_days z = (y, mon, day)" "0 \<le> z" "z < 2 ^ 24"
  shows "0 \<le> y \<and> y < 2 ^ 30"
proof -
  have "0 \<le> (z + 719468) div 146097" "(z + 719468) div 146097 \<le> 200" using assms(2,3) by simp_all
  then show ?thesis using civil_roundtrip [OF assms(1)] by simp
qed

lemma iso8601_roundtrip:
  assumes "0 \<le> tp" "tp < 2 ^ 63"
  shows "parse_iso8601 (to_iso8601 tp) = tp div nanos * nanos"
proof -
  define t where "t = tp div nanos"
  have t: "0 \<le> t" "t < 2 ^ 34" "t * nanos \<le> tp"
    using assms by (simp_all add: t_def nanos_def)
  define f where "f = gmtime t"
  note g = gmtime_fields [OF f_def]
  obtain y mon day where c: "civil_from_days (t div 86400) = (y, mon, day)" by (metis surj_pair)
  have "0 \<le> y \<and> y < 2 ^ 30" using t by (intro civil_year_nonneg [OF c]) simp_all
  then have y: "0 \<le> tm_year f + 1900" "tm_year f + 1900 < 2 ^ 30"
    using c by (simp_all add: f_def gmtime_def Let_def)
  have nd: "\<not> is_digit (CHR ''-'')" "\<not> is_digit (CHR ''T'')" "\<not> is_digit (CHR '':'')" "\<not> is_digit (CHR ''Z'')"
    by (simp_all add: is_digit_def)
  have shape: "to_iso8601 tp = show_padded 4 (tm_year f + 1900) @ CHR ''-'' # show_padded 2 (tm_mon f + 1) @ CHR ''-'' #
      show_padded 2 (tm_mday f) @ CHR ''T'' # show_padded 2 (tm_hour f) @ CHR '':'' #
      show_padded 2 (tm_min f) @ CHR '':'' # show_padded 2 (tm_sec f) @ ''Z''"
    using assms by (simp add: to_iso8601_def to_time_t_def t_def f_def Let_def)
  have "scan_fields ''--T::'' (to_iso8601 tp) =
      Some [tm_year f + 1900, tm_mon f + 1, tm_mday f, tm_hour f, tm_min f, tm_sec f]"
    unfolding shape using g y nd scan_int_padded [of "tm_sec f" "''Z''" 2]
    by (simp add: scan_fields_padded del: scan_fields.simps(2))
  moreover have "to_iso8601 tp \<noteq> []" by (simp add: shape)
  moreover have "narrow_i32 (tm_year f + 1900 - 1900) = tm_year f" "narrow_i32 (tm_mon f + 1 - 1) = tm_mon f"
    using y g by simp_all
  ultimately have "parse_iso8601 (to_iso8601 tp) = from_time_t (timegm f)"
    by (cases f) (simp add: parse_iso8601_def del: scan_fields.simps)
  also have "\<dots> = t * nanos"
  proof -
    have "0 \<le> t * nanos" "t * nanos < 2 ^ 63" using t assms by (simp add: nanos_def, linarith)
    then show ?thesis using g by (simp add: from_time_t_def)
  qed
  finally show ?thesis by (simp add: t_def)
qed

end
