(* ===== verification/Auth_Store.thy ===== *)
theory Auth_Store
  imports Calendar Json_Text
begin

text \<open>
  The persisted cloud session of \<open>src/auth.cpp\<close> and \<open>include/obn/auth.hpp\<close>: the session
  record, the text of the session file, and the operations of \<open>Store\<close>.

  The disk is an ordered map from paths to contents. What the file system does to one
  persisting call is an argument (\<open>persist_outcome\<close>): the temporary file cannot be opened, is
  written short, cannot be renamed over the session file, or all succeeds. The clock is an
  argument as well. Directory creation and \<open>chmod\<close> have no effect on contents.
\<close>

section \<open>The session\<close>

record session_info =
  si_region :: bytes
  si_account :: bytes
  si_access_token :: bytes
  si_refresh_token :: bytes
  si_expires_at :: int
  si_user_id :: bytes
  si_user_name :: bytes
  si_nick_name :: bytes
  si_avatar :: bytes

definition fresh_session :: session_info where
  "fresh_session = \<lparr>si_region = ''GLOBAL'', si_account = [], si_access_token = [], si_refresh_token = [],
     si_expires_at = 0, si_user_id = [], si_user_name = [], si_nick_name = [], si_avatar = []\<rparr>"

definition logged_in :: "session_info \<Rightarrow> bool" where
  "logged_in s = (si_access_token s \<noteq> [] \<and> si_user_id s \<noteq> [])"

record store =
  st_path :: bytes
  st_session :: session_info

definition new_store :: "bytes \<Rightarrow> store" where
  "new_store path = \<lparr>st_path = path, st_session = fresh_session\<rparr>"

type_synonym disk = "(bytes, bytes) omap"

section \<open>The session file\<close>

definition add_field :: "bytes \<Rightarrow> bytes \<Rightarrow> bool \<Rightarrow> bytes" where
  "add_field k v is_last =
     [BLANK, BLANK, QUOTE] @ k @ [QUOTE, CHR '':'', BLANK] @ escape v @ (if is_last then [] else '','') @ [LF]"

definition session_text :: "session_info \<Rightarrow> bytes" where
  "session_text s =
     [CHR ''{'', LF] @
     add_field ''region'' (si_region s) False @
     add_field ''account'' (si_account s) False @
     add_field ''access_token'' (si_access_token s) False @
     add_field ''refresh_token'' (si_refresh_token s) False @
     add_field ''expires_at'' (to_iso8601 (si_expires_at s)) False @
     add_field ''user_id'' (si_user_id s) False @
     add_field ''user_name'' (si_user_name s) False @
     add_field ''nick_name'' (si_nick_name s) False @
     add_field ''avatar'' (si_avatar s) True @
     [CHR ''}'', LF]"

definition read_session :: "bytes \<Rightarrow> session_info" where
  "read_session body =
     (if body = [] then fresh_session
      else case parse_opt body of
          None \<Rightarrow> fresh_session
        | Some v \<Rightarrow>
            (let str = (\<lambda>k. as_string (jfind v k)) in
             \<lparr>si_region = (if str ''region'' = [] then ''GLOBAL'' else str ''region''),
              si_account = str ''account'',
              si_access_token = str ''access_token'',
              si_refresh_token = str ''refresh_token'',
              si_expires_at = parse_iso8601 (str ''expires_at''),
              si_user_id = str ''user_id'',
              si_user_name = str ''user_name'',
              si_nick_name = str ''nick_name'',
              si_avatar = str ''avatar''\<rparr>))"

section \<open>Operations\<close>

definition load :: "disk \<Rightarrow> store \<Rightarrow> store" where
  "load d st =
     st\<lparr>st_session :=
       (if st_path st = [] then fresh_session
        else case om_get d (st_path st) of None \<Rightarrow> fresh_session | Some body \<Rightarrow> read_session body)\<rparr>"

datatype persist_outcome = Open_failed | Short_write | Rename_failed | Persisted

definition tmp_path :: "bytes \<Rightarrow> bytes" where
  "tmp_path path = path @ ''.tmp''"

definition persist :: "persist_outcome \<Rightarrow> disk \<Rightarrow> store \<Rightarrow> disk" where
  "persist out d st =
     (if st_path st = [] then d
      else case out of
          Open_failed \<Rightarrow> d
        | Short_write \<Rightarrow> om_del (tmp_path (st_path st)) d
        | Rename_failed \<Rightarrow> om_del (tmp_path (st_path st)) d
        | Persisted \<Rightarrow>
            om_put (st_path st) (session_text (st_session st)) (om_del (tmp_path (st_path st)) d))"

definition set_session :: "session_info \<Rightarrow> persist_outcome \<Rightarrow> disk \<Rightarrow> store \<Rightarrow> store \<times> disk" where
  "set_session s out d st = (let st' = st\<lparr>st_session := s\<rparr> in (st', persist out d st'))"

text \<open>\<open>clock::now() + std::chrono::seconds(n)\<close>.\<close>

definition after_seconds :: "int \<Rightarrow> int \<Rightarrow> int" where
  "after_seconds now secs = wrap_i64 (now + wrap_i64 (secs * nanos))"

definition update_tokens ::
  "int \<Rightarrow> bytes \<Rightarrow> bytes \<Rightarrow> int \<Rightarrow> persist_outcome \<Rightarrow> disk \<Rightarrow> store \<Rightarrow> store \<times> disk" where
  "update_tokens now access refresh lifetime out d st =
     (let s = st_session st;
          s' = s\<lparr>si_access_token := access,
                 si_refresh_token := (if refresh \<noteq> [] then refresh else si_refresh_token s),
                 si_expires_at := after_seconds now lifetime\<rparr> in
      set_session s' out d st)"

definition keep_if_empty :: "bytes \<Rightarrow> bytes \<Rightarrow> bytes" where
  "keep_if_empty new old = (if new \<noteq> [] then new else old)"

definition update_profile ::
  "bytes \<Rightarrow> bytes \<Rightarrow> bytes \<Rightarrow> bytes \<Rightarrow> persist_outcome \<Rightarrow> disk \<Rightarrow> store \<Rightarrow> store \<times> disk" where
  "update_profile user_id user_name nick_name avatar out d st =
     (let s = st_session st;
          s' = s\<lparr>si_user_id := keep_if_empty user_id (si_user_id s),
                 si_user_name := keep_if_empty user_name (si_user_name s),
                 si_nick_name := keep_if_empty nick_name (si_nick_name s),
                 si_avatar := keep_if_empty avatar (si_avatar s)\<rparr> in
      set_session s' out d st)"

definition clear_store :: "disk \<Rightarrow> store \<Rightarrow> store \<times> disk" where
  "clear_store d st =
     (st\<lparr>st_session := fresh_session\<rparr>, if st_path st \<noteq> [] then om_del (st_path st) d else d)"

definition needs_refresh :: "int \<Rightarrow> int \<Rightarrow> store \<Rightarrow> bool" where
  "needs_refresh now margin_s st =
     (let s = st_session st in
      if si_access_token s = [] then True
      else if si_expires_at s = 0 then False
      else si_expires_at s \<le> after_seconds now margin_s)"

section \<open>Laws\<close>

definition session_member :: "bytes \<Rightarrow> bytes \<Rightarrow> bool \<Rightarrow> member \<times> json" where
  "session_member k v is_last = (([LF, BLANK, BLANK], k, [BLANK], escape v, if is_last then [LF] else []), String v)"

definition session_members :: "session_info \<Rightarrow> (member \<times> json) list" where
  "session_members s =
     [session_member ''region'' (si_region s) False,
      session_member ''account'' (si_account s) False,
      session_member ''access_token'' (si_access_token s) False,
      session_member ''refresh_token'' (si_refresh_token s) False,
      session_member ''expires_at'' (to_iso8601 (si_expires_at s)) False,
      session_member ''user_id'' (si_user_id s) False,
      session_member ''user_name'' (si_user_name s) False,
      session_member ''nick_name'' (si_nick_name s) False,
      session_member ''avatar'' (si_avatar s) True]"

lemma escape_key: "list_all (\<lambda>c. escape_char c = [c]) k \<Longrightarrow> escape k = QUOTE # k @ [QUOTE]"
proof -
  assume "list_all (\<lambda>c. escape_char c = [c]) k"
  then have "concat (map escape_char k) = k" by (induction k) simp_all
  then show ?thesis by (simp add: escape_def)
qed

lemma session_text_members: "session_text s = (''{'' @ members_text (session_members s) @ ''}'') @ [LF]"
  by (simp add: session_text_def session_members_def session_member_def add_field_def escape_key escape_char_def)

lemma parse_session_text:
  "parse (session_text s) = Inr (Object (emplace_all (map member_val (session_members s)) []))"
proof -
  have "reads_as (''{'' @ members_text (session_members s) @ ''}'')
      (Object (emplace_all (map member_val (session_members s)) []))"
    by (rule reads_as_object) (simp_all add: session_members_def session_member_def is_ws_def reads_as_escape)
  from parse_as [OF this, of "[]" "[LF]"] show ?thesis
    by (simp add: session_text_members is_ws_def)
qed

lemma session_field:
  "plain_key k \<Longrightarrow> jfind (Object (emplace_all (map member_val (session_members s)) [])) k =
     (case map_of (map member_val (session_members s)) k of None \<Rightarrow> Null | Some v \<Rightarrow> v)"
  using emplace_all_get [of "[]" "map member_val (session_members s)" k]
  by (simp add: jfind_key jget_def)

definition on_disk :: "session_info \<Rightarrow> session_info" where
  "on_disk s = s\<lparr>si_region := (if si_region s = [] then ''GLOBAL'' else si_region s),
                 si_expires_at := si_expires_at s div nanos * nanos\<rparr>"

lemma read_session_text:
  assumes "0 \<le> si_expires_at s" "si_expires_at s < 2 ^ 63"
  shows "read_session (session_text s) = on_disk s"
proof -
  have "session_text s \<noteq> []" by (simp add: session_text_def)
  then show ?thesis
    using iso8601_roundtrip [OF assms]
    by (cases s) (simp add: read_session_def parse_opt_def parse_session_text session_field plain_key_def key_stop_def
        on_disk_def, simp add: session_members_def session_member_def)
qed

text \<open>C16: the session survives a restart. For every session whose expiry lies between 1970 and
  the end of 64-bit nanoseconds, whatever bytes its strings hold, writing it with
  \<open>persist_locked\<close> and reading the file with \<open>load_locked\<close> gives the session back, the expiry
  cut to whole seconds and an empty region read as \<open>GLOBAL\<close>.\<close>

theorem session_survives_restart:
  assumes "0 \<le> si_expires_at (st_session st)" "si_expires_at (st_session st) < 2 ^ 63"
    and "st_path st \<noteq> []" and "om_ok d"
  shows "st_session (load (persist Persisted d st) (new_store (st_path st))) = on_disk (st_session st)"
  using read_session_text [OF assms(1,2)] assms(3,4)
  by (simp add: load_def persist_def new_store_def)

definition sample_session :: session_info where
  "sample_session = fresh_session\<lparr>si_access_token := ''t'', si_user_id := [QUOTE, LF], si_expires_at := 1700000000000000000\<rparr>"

theorem session_survives_restart_witness:
  "st_session (load (persist Persisted [] \<lparr>st_path = ''f'', st_session = sample_session\<rparr>) (new_store ''f'')) = sample_session"
  using session_survives_restart [of "\<lparr>st_path = ''f'', st_session = sample_session\<rparr>" "[]"]
  by (simp add: sample_session_def fresh_session_def on_disk_def nanos_def)

text \<open>A mutating call: what it does to the session in memory.\<close>

datatype auth_op =
    Op_set session_info
  | Op_tokens int bytes bytes int
  | Op_profile bytes bytes bytes bytes
  | Op_clear

fun run_op :: "auth_op \<Rightarrow> persist_outcome \<Rightarrow> disk \<Rightarrow> store \<Rightarrow> store \<times> disk" where
  "run_op (Op_set s) out d st = set_session s out d st"
| "run_op (Op_tokens now a r l) out d st = update_tokens now a r l out d st"
| "run_op (Op_profile u n k v) out d st = update_profile u n k v out d st"
| "run_op Op_clear out d st = clear_store d st"

lemma tmp_path_neq [simp]: "tmp_path p \<noteq> p" "p \<noteq> tmp_path p"
  by (simp_all add: tmp_path_def)

lemma persist_ok: "om_ok d \<Longrightarrow> om_ok (persist out d st)"
  by (simp add: persist_def split: persist_outcome.splits)

lemma persist_get:
  "om_ok d \<Longrightarrow> st_path st \<noteq> [] \<Longrightarrow> om_get (persist out d st) (st_path st) =
     (if out = Persisted then Some (session_text (st_session st)) else om_get d (st_path st))"
  by (auto simp: persist_def split: persist_outcome.splits)

lemma run_op_cases:
  assumes "run_op op out d st = (st', d')"
  shows "st_path st' = st_path st \<and>
    (if op = Op_clear then st_session st' = fresh_session \<and> d' = (if st_path st \<noteq> [] then om_del (st_path st) d else d)
     else d' = persist out d st')"
  using assms
  by (cases op) (auto simp: set_session_def update_tokens_def update_profile_def clear_store_def Let_def)



text \<open>A sequence of calls, each with what the file system does to it.\<close>

definition run_ops :: "(auth_op \<times> persist_outcome) list \<Rightarrow> store \<times> disk \<Rightarrow> store \<times> disk" where
  "run_ops ops sd = fold (\<lambda>(op, out) (st, d). run_op op out d st) ops sd"

text \<open>The file belongs to the session in memory: its text, or no file for a session that was
  cleared.\<close>

definition in_step :: "store \<times> disk \<Rightarrow> bool" where
  "in_step sd =
     (om_ok (snd sd) \<and> st_path (fst sd) \<noteq> [] \<and>
      (case om_get (snd sd) (st_path (fst sd)) of
         None \<Rightarrow> st_session (fst sd) = fresh_session
       | Some body \<Rightarrow> body = session_text (st_session (fst sd))))"

lemma in_step_op:
  assumes "in_step (st, d)" and "out = Persisted \<or> op = Op_clear"
  shows "in_step (run_op op out d st)"
proof -
  obtain st' d' where r: "run_op op out d st = (st', d')" by force
  note c = run_op_cases [OF r]
  show ?thesis
  proof (cases "op = Op_clear")
    case True
    with assms c show ?thesis unfolding r by (simp add: in_step_def)
  next
    case False
    with assms c persist_get [of d st' out] persist_ok [of d out st'] show ?thesis
      unfolding r by (auto simp: in_step_def)
  qed
qed

lemma in_step_ops:
  "in_step sd \<Longrightarrow> \<forall>(op, out) \<in> set ops. out = Persisted \<or> op = Op_clear \<Longrightarrow> in_step (run_ops ops sd)"
proof (induction ops arbitrary: sd)
  case Nil
  then show ?case by (simp add: run_ops_def)
next
  case (Cons x ops)
  obtain op out where x: "x = (op, out)" by force
  obtain st d where sd: "sd = (st, d)" by force
  have "in_step (run_op op out d st)" using Cons.prems x sd by (intro in_step_op) auto
  then have "in_step (run_ops ops (run_op op out d st))" using Cons by auto
  then show ?case by (simp add: run_ops_def x sd)
qed

text \<open>Memory and disk stay in step. Starting from no file, after any sequence of logins,
  token refreshes, profile updates and logouts with a working file system, the session file
  holds exactly the session in memory.\<close>

theorem disk_in_step:
  assumes "path \<noteq> []" and "\<forall>(op, out) \<in> set ops. out = Persisted \<or> op = Op_clear"
  shows "in_step (run_ops ops (new_store path, []))"
  using assms by (intro in_step_ops) (auto simp: in_step_def new_store_def)

theorem disk_in_step_witness:
  "in_step (run_ops [(Op_profile ''u'' ''n'' [] [], Persisted), (Op_clear, Open_failed)] (new_store ''f'', []))"
  by (rule disk_in_step) auto

end
