(* ===== verification/Config.thy ===== *)
theory Config
  imports Cxx_Num
begin

text \<open>
  The settings file \<open>obn.conf\<close> of \<open>src/config.cpp\<close> and \<open>include/obn/config.hpp\<close>: the line
  parser, the settings it fills, loading with creation of the default template, and the
  choice of the cloud endpoints. The template is a generated header, so its text is an
  argument; the disk is an ordered map from paths to contents.
\<close>

section \<open>Paths and lines\<close>

text \<open>\<open>dir / name\<close> of \<open>std::filesystem::path\<close> for a relative name.\<close>

definition path_join :: "bytes \<Rightarrow> bytes \<Rightarrow> bytes" where
  "path_join dir name =
     (if dir = [] then name else if last dir = SLASH then dir @ name else dir @ SLASH # name)"

text \<open>The lines \<open>std::getline\<close> delivers: a last line needs no line feed.\<close>

fun get_lines :: "bytes \<Rightarrow> bytes list" where
  "get_lines [] = []"
| "get_lines (c # cs) =
     (if c = LF then [] # get_lines cs
      else case get_lines cs of [] \<Rightarrow> [[c]] | l # ls \<Rightarrow> (c # l) # ls)"

definition trim :: "bytes \<Rightarrow> bytes" where
  "trim s = rtrim_by is_space (ltrim_by is_space s)"

definition to_lower :: "bytes \<Rightarrow> bytes" where
  "to_lower s = map to_lower_char s"

definition truthy :: "bytes \<Rightarrow> bool \<Rightarrow> bool" where
  "truthy val fallback =
     (let lc = to_lower val in
      if lc = ''1'' \<or> lc = ''true'' \<or> lc = ''yes'' then True
      else if lc = ''0'' \<or> lc = ''false'' \<or> lc = ''no'' then False
      else fallback)"

definition parse_line :: "bytes \<Rightarrow> (bytes \<times> bytes) option" where
  "parse_line line =
     (if line = [] \<or> hd line = CHR ''#'' then None
      else case find_char (CHR ''='') line of
          None \<Rightarrow> None
        | Some eq \<Rightarrow>
            (if eq = 0 then None
             else let key = trim (take eq line); val = trim (drop (eq + 1) line) in
               if key = [] then None else Some (key, val)))"

section \<open>Settings\<close>

record settings =
  set_log_level :: bytes
  set_log_stderr :: bytes
  set_log_to_file :: bytes
  set_log_file :: bytes
  set_global_api_host :: bytes
  set_global_web_host :: bytes
  set_global_mqtt_host :: bytes
  set_cn_api_host :: bytes
  set_cn_web_host :: bytes
  set_cn_mqtt_host :: bytes
  set_lan_tls_skip_verify :: bool
  set_cloud_mqtt_port :: int
  set_block_cloud :: bool
  set_force_timelapse_external :: bool
  set_bambusource_log_level :: bytes
  set_bambusource_log_file :: bytes

definition default_settings :: settings where
  "default_settings = \<lparr>set_log_level = [], set_log_stderr = [], set_log_to_file = [], set_log_file = [],
     set_global_api_host = [], set_global_web_host = [], set_global_mqtt_host = [],
     set_cn_api_host = [], set_cn_web_host = [], set_cn_mqtt_host = [],
     set_lan_tls_skip_verify = False, set_cloud_mqtt_port = 8883, set_block_cloud = True,
     set_force_timelapse_external = False, set_bambusource_log_level = [], set_bambusource_log_file = []\<rparr>"

definition apply_key :: "bytes \<Rightarrow> bytes \<Rightarrow> settings \<Rightarrow> settings" where
  "apply_key key val s =
     (if key = ''log_level'' then s\<lparr>set_log_level := val\<rparr>
      else if key = ''log_stderr'' then s\<lparr>set_log_stderr := val\<rparr>
      else if key = ''log_to_file'' then s\<lparr>set_log_to_file := val\<rparr>
      else if key = ''log_file'' then s\<lparr>set_log_file := val\<rparr>
      else if key = ''cloud_global_api_host'' then s\<lparr>set_global_api_host := val\<rparr>
      else if key = ''cloud_global_web_host'' then s\<lparr>set_global_web_host := val\<rparr>
      else if key = ''cloud_global_mqtt_host'' then s\<lparr>set_global_mqtt_host := val\<rparr>
      else if key = ''cloud_cn_api_host'' then s\<lparr>set_cn_api_host := val\<rparr>
      else if key = ''cloud_cn_web_host'' then s\<lparr>set_cn_web_host := val\<rparr>
      else if key = ''cloud_cn_mqtt_host'' then s\<lparr>set_cn_mqtt_host := val\<rparr>
      else if key = ''lan_tls_skip_verify'' then s\<lparr>set_lan_tls_skip_verify := truthy val False\<rparr>
      else if key = ''cloud_mqtt_port'' then
        (let p = atoi val in if 0 < p \<and> p \<le> 65535 then s\<lparr>set_cloud_mqtt_port := p\<rparr> else s)
      else if key = ''block_cloud'' then s\<lparr>set_block_cloud := truthy val False\<rparr>
      else if key = ''force_timelapse_external'' then s\<lparr>set_force_timelapse_external := truthy val False\<rparr>
      else if key = ''bambusource_log_level'' then s\<lparr>set_bambusource_log_level := val\<rparr>
      else if key = ''bambusource_log_file'' then s\<lparr>set_bambusource_log_file := val\<rparr>
      else s)"

definition apply_line :: "settings \<Rightarrow> bytes \<Rightarrow> settings" where
  "apply_line s line = (case parse_line line of None \<Rightarrow> s | Some (key, val) \<Rightarrow> apply_key key val s)"

definition parse_settings :: "bytes \<Rightarrow> settings" where
  "parse_settings body = foldl apply_line default_settings (get_lines body)"

definition parse_file :: "(bytes, bytes) omap \<Rightarrow> bytes \<Rightarrow> settings" where
  "parse_file d path = (case om_get d path of None \<Rightarrow> default_settings | Some body \<Rightarrow> parse_settings body)"

section \<open>Loading\<close>

definition config_path :: "bytes \<Rightarrow> bytes" where
  "config_path dir =
     (if dir = [] then []
      else path_join (if last dir \<noteq> SLASH \<and> last dir \<noteq> BSLASH then dir @ [SLASH] else dir) ''obn.conf'')"

text \<open>Whether the template could be written and renamed into place.\<close>

definition write_default_template :: "bytes \<Rightarrow> bool \<Rightarrow> bytes \<Rightarrow> (bytes, bytes) omap \<Rightarrow> (bytes, bytes) omap" where
  "write_default_template default_template ok path d = (if ok then om_put path default_template d else d)"

definition load_or_create ::
  "bytes \<Rightarrow> bool \<Rightarrow> bytes \<Rightarrow> settings \<times> (bytes, bytes) omap \<Rightarrow> settings \<times> (bytes, bytes) omap" where
  "load_or_create default_template ok config_dir st =
     (let (cur, d) = st in
      if config_dir = [] then (cur, d)
      else let path = config_path config_dir;
               d' = (if om_get d path = None then write_default_template default_template ok path d else d) in
        (parse_file d' path, d'))"

definition load_if_exists :: "bytes \<Rightarrow> (bytes, bytes) omap \<Rightarrow> settings" where
  "load_if_exists config_dir d =
     (if config_dir = [] then default_settings
      else if om_get d (config_path config_dir) = None then default_settings
      else parse_file d (config_path config_dir))"

section \<open>Endpoints\<close>

definition is_cn_region :: "bytes \<Rightarrow> bool" where
  "is_cn_region region = (region = ''CN'' \<or> region = ''cn'')"

definition pick_or_default :: "bytes \<Rightarrow> bytes \<Rightarrow> bytes" where
  "pick_or_default configured fallback = (if configured = [] then fallback else configured)"

definition cloud_api_host_for :: "settings \<Rightarrow> bytes \<Rightarrow> bytes" where
  "cloud_api_host_for s region =
     (if is_cn_region region then pick_or_default (set_cn_api_host s) ''https://api.bambulab.cn''
      else pick_or_default (set_global_api_host s) ''https://api.bambulab.com'')"

definition cloud_web_host_for :: "settings \<Rightarrow> bytes \<Rightarrow> bytes" where
  "cloud_web_host_for s region =
     (if is_cn_region region then pick_or_default (set_cn_web_host s) ''https://bambulab.cn''
      else pick_or_default (set_global_web_host s) ''https://bambulab.com'')"

definition cloud_mqtt_host_for :: "settings \<Rightarrow> bytes \<Rightarrow> bytes" where
  "cloud_mqtt_host_for s region =
     (if is_cn_region region then pick_or_default (set_cn_mqtt_host s) ''cn.mqtt.bambulab.com''
      else pick_or_default (set_global_mqtt_host s) ''us.mqtt.bambulab.com'')"

section \<open>Laws\<close>

definition settings_ok :: "settings \<Rightarrow> bool" where
  "settings_ok s = (1 \<le> set_cloud_mqtt_port s \<and> set_cloud_mqtt_port s \<le> 65535)"

lemma apply_key_ok: "settings_ok s \<Longrightarrow> settings_ok (apply_key key val s)"
  by (simp add: settings_ok_def apply_key_def Let_def)

lemma apply_line_ok: "settings_ok s \<Longrightarrow> settings_ok (apply_line s line)"
  by (auto simp: apply_line_def apply_key_ok split: option.splits)

lemma apply_lines_ok: "settings_ok s \<Longrightarrow> settings_ok (foldl apply_line s ls)"
  by (induction ls arbitrary: s) (simp_all add: apply_line_ok)

lemma default_ok: "settings_ok default_settings"
  by (simp add: settings_ok_def default_settings_def)

lemma parse_settings_ok: "settings_ok (parse_settings body)"
  by (simp add: parse_settings_def apply_lines_ok default_ok)

lemma parse_file_ok: "settings_ok (parse_file d path)"
  by (simp add: parse_file_def default_ok parse_settings_ok split: option.splits)

text \<open>A settings file cannot break the endpoints. Whatever is on disk, the loaded settings
  have a cloud port between 1 and 65535 and name a nonempty API, web and MQTT host for every
  region.\<close>

theorem settings_usable:
  assumes "settings_ok cur"
    and "load_or_create default_template ok config_dir (cur, d) = (s, d')"
  shows "1 \<le> set_cloud_mqtt_port s \<and> set_cloud_mqtt_port s \<le> 65535 \<and>
    cloud_api_host_for s region \<noteq> [] \<and> cloud_web_host_for s region \<noteq> [] \<and> cloud_mqtt_host_for s region \<noteq> []"
proof -
  have "settings_ok s"
    using assms parse_file_ok by (auto simp: load_or_create_def Let_def split: if_splits)
  then show ?thesis
    by (simp add: settings_ok_def cloud_api_host_for_def cloud_web_host_for_def cloud_mqtt_host_for_def pick_or_default_def)
qed

theorem settings_usable_witness:
  "set_cloud_mqtt_port (fst (load_or_create [] True ''d'' (default_settings, [(''d/obn.conf'', ''cloud_mqtt_port = 99999'')]))) \<le> 65535"
  using settings_usable [of default_settings "[]" True "''d''" "[(''d/obn.conf'', ''cloud_mqtt_port = 99999'')]"
      "fst (load_or_create [] True ''d'' (default_settings, [(''d/obn.conf'', ''cloud_mqtt_port = 99999'')]))"
      "snd (load_or_create [] True ''d'' (default_settings, [(''d/obn.conf'', ''cloud_mqtt_port = 99999'')]))" "[]"]
  by (simp add: default_ok)

text \<open>Lines of a file written line by line.\<close>

definition file_text :: "bytes list \<Rightarrow> bytes" where
  "file_text ls = concat (map (\<lambda>l. l @ [LF]) ls)"

lemma get_lines_line: "LF \<notin> set l \<Longrightarrow> get_lines (l @ LF # r) = l # get_lines r"
proof (induction l)
  case Nil
  then show ?case by simp
next
  case (Cons c l)
  then show ?case by (cases l) auto
qed

lemma get_lines_file: "\<forall>l \<in> set ls. LF \<notin> set l \<Longrightarrow> get_lines (file_text ls) = ls"
  by (induction ls) (simp_all add: file_text_def get_lines_line)

definition line_key :: "bytes \<Rightarrow> bytes option" where
  "line_key line = map_option fst (parse_line line)"

definition setting_line :: "bytes \<Rightarrow> bytes \<Rightarrow> bytes" where
  "setting_line key val = key @ '' = '' @ val"

lemma rtrim_blank: "s \<noteq> [] \<Longrightarrow> \<not> is_space (last s) \<Longrightarrow> rtrim_by is_space (s @ [BLANK]) = s"
proof -
  assume s: "s \<noteq> []" "\<not> is_space (last s)"
  have "rtrim_by is_space (s @ [BLANK]) = rtrim_by is_space s" by (simp add: rtrim_by_def is_space_def)
  with s show ?thesis by simp
qed

definition bare :: "bytes \<Rightarrow> bool" where
  "bare s = (s \<noteq> [] \<and> \<not> is_space (hd s) \<and> \<not> is_space (last s) \<and> CHR ''='' \<notin> set s \<and> LF \<notin> set s \<and> hd s \<noteq> CHR ''#'')"

lemma ltrim_bare: "bare s \<Longrightarrow> ltrim_by is_space (s @ t) = s @ t"
  by (cases s) (simp_all add: bare_def ltrim_by_def)

lemma trim_bare: "bare s \<Longrightarrow> trim s = s" "bare s \<Longrightarrow> trim (BLANK # s) = s" "bare s \<Longrightarrow> trim (s @ [BLANK]) = s"
proof -
  assume s: "bare s"
  then have r: "rtrim_by is_space s = s" "rtrim_by is_space (s @ [BLANK]) = s"
    by (simp_all add: bare_def rtrim_blank)
  have l: "ltrim_by is_space s = s" "ltrim_by is_space (s @ [BLANK]) = s @ [BLANK]"
    using ltrim_bare [OF s, of "[]"] ltrim_bare [OF s, of "[BLANK]"] by simp_all
  have "ltrim_by is_space (BLANK # s) = ltrim_by is_space s" by (simp add: ltrim_by_def is_space_def)
  with r l show "trim s = s" "trim (BLANK # s) = s" "trim (s @ [BLANK]) = s"
    by (simp_all add: trim_def)
qed

lemma parse_setting_line: "bare key \<Longrightarrow> bare val \<Longrightarrow> parse_line (setting_line key val) = Some (key, val)"
proof -
  assume k: "bare key" and v: "bare val"
  obtain c cs where key: "key = c # cs" using k by (cases key) (auto simp: bare_def)
  have "CHR ''='' \<notin> set (key @ [BLANK])" using k by (simp add: bare_def)
  then have f: "find_char (CHR ''='') (setting_line key val) = Some (length key + 1)"
    using find_char_append_here [of "CHR ''=''" "key @ [BLANK]" "BLANK # val"] by (simp add: setting_line_def)
  show ?thesis
    using f k v trim_bare [OF k] trim_bare [OF v]
    by (simp add: parse_line_def Let_def setting_line_def) (simp add: key bare_def)
qed

lemma apply_line_other:
  "line_key line \<noteq> Some ''cloud_mqtt_port'' \<Longrightarrow> set_cloud_mqtt_port (apply_line s line) = set_cloud_mqtt_port s"
  "line_key line \<noteq> Some ''lan_tls_skip_verify'' \<Longrightarrow> set_lan_tls_skip_verify (apply_line s line) = set_lan_tls_skip_verify s"
  by (auto simp: apply_line_def line_key_def apply_key_def Let_def split: option.splits)

lemma apply_lines_skip:
  "\<forall>l \<in> set ls. line_key l \<noteq> Some ''lan_tls_skip_verify'' \<Longrightarrow>
   set_lan_tls_skip_verify (foldl apply_line s ls) = set_lan_tls_skip_verify s"
  by (induction ls arbitrary: s) (simp_all add: apply_line_other)

text \<open>Certificate checking is switched off by one word only. In a settings file the last
  \<open>lan_tls_skip_verify\<close> line decides; checking is off exactly if its value is 1, true or yes in
  any case, and it is on if the file has no such line, whatever else it holds.\<close>

theorem skip_verify_last_line:
  assumes "\<forall>l \<in> set (before @ after). LF \<notin> set l" and "bare val"
    and "\<forall>l \<in> set after. line_key l \<noteq> Some ''lan_tls_skip_verify''"
  shows "set_lan_tls_skip_verify (parse_settings (file_text (before @ setting_line ''lan_tls_skip_verify'' val # after))) =
      (to_lower val \<in> {''1'', ''true'', ''yes''}) \<and>
    \<not> set_lan_tls_skip_verify (parse_settings (file_text after))"
proof -
  have k: "bare ''lan_tls_skip_verify''" by (simp add: bare_def is_space_def)
  have nolf: "LF \<notin> set (setting_line ''lan_tls_skip_verify'' val)"
    using assms(2) by (simp add: setting_line_def bare_def)
  have lines: "get_lines (file_text (before @ setting_line ''lan_tls_skip_verify'' val # after)) =
      before @ setting_line ''lan_tls_skip_verify'' val # after" "get_lines (file_text after) = after"
    using assms(1) nolf by (auto intro!: get_lines_file)
  have here: "set_lan_tls_skip_verify (apply_line s (setting_line ''lan_tls_skip_verify'' val)) = truthy val False" for s
    using parse_setting_line [OF k assms(2)] by (simp add: apply_line_def apply_key_def)
  show ?thesis
    using here apply_lines_skip [OF assms(3)]
    by (simp add: parse_settings_def lines) (auto simp: truthy_def Let_def default_settings_def)
qed

theorem skip_verify_last_line_witness:
  "set_lan_tls_skip_verify (parse_settings (file_text [''log_level=x'', setting_line ''lan_tls_skip_verify'' ''Yes'', ''# end'']))"
  using skip_verify_last_line [of "[''log_level=x'']" "[''# end'']" "''Yes''"]
  by (simp add: bare_def is_space_def line_key_def parse_line_def to_lower_def to_lower_char_def char_of_def bit_Suc_0_iff)

end
