(* ===== verification/Lan_Tls.thy ===== *)
theory Lan_Tls
  imports Config
begin

text \<open>
  The LAN TLS registry of \<open>src/lan_tls.cpp\<close> and \<open>include/obn/lan_tls_env.hpp\<close>: which CA file,
  printer serials and device certificates the plugin knows, how it passes them to the other
  library through environment variables and the state file \<open>obn.lan_tls.env\<close>, and how they are
  read back.

  The process is a record of its environment, the flag of the one-time hydration, the disk and
  the registry. An unordered map of the source is an ordered map here: the order in which it is
  written out does not matter, as the laws show. A call that writes the state file takes
  whether the write succeeds as an argument.
\<close>

section \<open>The environment\<close>

type_synonym env = "(bytes, bytes) omap"

text \<open>\<open>s.c_str()\<close> as C reads it.\<close>

definition c_str :: "bytes \<Rightarrow> bytes" where
  "c_str s = takeWhile (\<lambda>c. c \<noteq> CHR 0x00) s"

text \<open>\<open>setenv\<close> refuses an empty name and a name with an equals sign.\<close>

definition set_env_var :: "bytes \<Rightarrow> bytes \<Rightarrow> env \<Rightarrow> env" where
  "set_env_var key val e =
     (if c_str key = [] \<or> CHR ''='' \<in> set (c_str key) then e else om_put (c_str key) (c_str val) e)"

definition env_var_get_os :: "bytes \<Rightarrow> env \<Rightarrow> bytes option" where
  "env_var_get_os key e =
     (if c_str key = [] then None
      else case om_get e (c_str key) of None \<Rightarrow> None | Some v \<Rightarrow> if v = [] then None else Some v)"

definition env_ca_file :: bytes where "env_ca_file = ''OBN_LAN_TLS_CA_FILE''"
definition env_config_dir :: bytes where "env_config_dir = ''OBN_CONFIG_DIR''"
definition env_ip_prefix :: bytes where "env_ip_prefix = ''OBN_LAN_TLS_IP_''"
definition env_peer_prefix :: bytes where "env_peer_prefix = ''OBN_LAN_TLS_PEER_''"
definition env_skip_verify :: bytes where "env_skip_verify = ''OBN_SKIP_TLS_VERIFY''"
definition env_serial_wait_ms :: bytes where "env_serial_wait_ms = ''OBN_LAN_TLS_SERIAL_WAIT_MS''"
definition lan_tls_state_file :: bytes where "lan_tls_state_file = ''obn.lan_tls.env''"

definition is_lan_tls_ipc_key :: "bytes \<Rightarrow> bool" where
  "is_lan_tls_ipc_key key = starts_with ''OBN_LAN_TLS_'' key"

definition env_key_for_ip_prefix :: "bytes \<Rightarrow> bytes \<Rightarrow> bytes" where
  "env_key_for_ip_prefix ip pre = pre @ map (\<lambda>c. if c = CHR ''.'' then CHR ''_'' else c) ip"

definition env_key_for_ip :: "bytes \<Rightarrow> bytes" where
  "env_key_for_ip ip = env_key_for_ip_prefix ip env_ip_prefix"

definition peer_env_key_for_ip :: "bytes \<Rightarrow> bytes" where
  "peer_env_key_for_ip ip = env_key_for_ip_prefix ip env_peer_prefix"

section \<open>The process\<close>

record process =
  pr_env :: env
  pr_hydrated :: bool
  pr_disk :: "(bytes, bytes) omap"
  pr_config_dir :: bytes
  pr_ca_file :: bytes
  pr_serials :: "(bytes, bytes) omap"
  pr_peers :: "(bytes, bytes) omap"

definition setenv :: "bytes \<Rightarrow> bytes \<Rightarrow> process \<Rightarrow> process" where
  "setenv key val p = p\<lparr>pr_env := set_env_var key val (pr_env p)\<rparr>"

subsection \<open>Reading\<close>

definition state_file_search_paths :: "process \<Rightarrow> bytes list" where
  "state_file_search_paths p =
     (let e = pr_env p;
          add = (\<lambda>base. if base = [] then [] else [path_join base lan_tls_state_file]);
          sub = (\<lambda>v suffix. case om_get e v of None \<Rightarrow> []
                  | Some b \<Rightarrow> add (path_join (path_join b suffix) ''OrcaSlicer'') @
                              add (path_join (path_join b suffix) ''BambuStudio'')) in
      add (pr_config_dir p) @
      (case env_var_get_os env_config_dir e of None \<Rightarrow> [] | Some c \<Rightarrow> add c) @
      (case om_get e ''XDG_CONFIG_HOME'' of None \<Rightarrow> []
         | Some b \<Rightarrow> add (path_join b ''OrcaSlicer'') @ add (path_join b ''BambuStudio'')) @
      sub ''HOME'' ''.config'')"

definition apply_state_line :: "env \<Rightarrow> bytes \<Rightarrow> env" where
  "apply_state_line e line =
     (if line = [] \<or> hd line = CHR ''#'' then e
      else case find_char (CHR ''='') line of
          None \<Rightarrow> e
        | Some eq \<Rightarrow>
            (if eq = 0 then e
             else let key = take eq line; val = drop (eq + 1) line in
               if key \<noteq> env_config_dir \<and> \<not> is_lan_tls_ipc_key key then e else set_env_var key val e))"

text \<open>The first state file that exists is applied, once per process.\<close>

definition hydrate_env_from_state_file_once :: "process \<Rightarrow> process" where
  "hydrate_env_from_state_file_once p =
     (if pr_hydrated p then p
      else case find (\<lambda>path. om_get (pr_disk p) path \<noteq> None) (state_file_search_paths p) of
          None \<Rightarrow> p\<lparr>pr_hydrated := True\<rparr>
        | Some path \<Rightarrow>
            (case om_get (pr_disk p) path of
               None \<Rightarrow> p\<lparr>pr_hydrated := True\<rparr>
             | Some body \<Rightarrow>
                 p\<lparr>pr_hydrated := True, pr_env := foldl apply_state_line (pr_env p) (get_lines body)\<rparr>))"

definition env_var_get :: "bytes \<Rightarrow> process \<Rightarrow> bytes option \<times> process" where
  "env_var_get key p =
     (if key = [] then (None, p)
      else case env_var_get_os key (pr_env p) of
          Some v \<Rightarrow> (Some v, p)
        | None \<Rightarrow>
            (if \<not> is_lan_tls_ipc_key key then (None, p)
             else let p' = hydrate_env_from_state_file_once p in (env_var_get_os key (pr_env p'), p')))"

definition peer_cert_path_for_ip :: "bytes \<Rightarrow> process \<Rightarrow> bytes option \<times> process" where
  "peer_cert_path_for_ip ip p = (if ip = [] then (None, p) else env_var_get (peer_env_key_for_ip ip) p)"

definition resolve_lan_ca_file :: "process \<Rightarrow> bytes option \<times> process" where
  "resolve_lan_ca_file p = env_var_get env_ca_file p"

definition serial_env_wait_ms :: "process \<Rightarrow> int \<times> process" where
  "serial_env_wait_ms p =
     (let (v, p') = env_var_get env_serial_wait_ms p in
      (case v of
         None \<Rightarrow> 5000
       | Some s \<Rightarrow>
           (case int_prefix s of
              None \<Rightarrow> 5000
            | Some _ \<Rightarrow> if strtol s < 0 then 5000 else if strtol s > 60000 then 60000 else strtol s), p'))"

definition skip_verify_from_env :: "process \<Rightarrow> bool" where
  "skip_verify_from_env p =
     (case fst (env_var_get env_skip_verify p) of
        None \<Rightarrow> False
      | Some v \<Rightarrow> v \<noteq> [] \<and> hd v \<in> {CHR ''1'', CHR ''y'', CHR ''Y'', CHR ''t'', CHR ''T''})"

definition verify_enabled :: "settings \<Rightarrow> process \<Rightarrow> bool" where
  "verify_enabled s p = (\<not> (skip_verify_from_env p \<or> set_lan_tls_skip_verify s))"

subsection \<open>Writing\<close>

definition assignment :: "bytes \<times> bytes \<Rightarrow> bytes" where
  "assignment kv = fst kv @ CHR ''='' # snd kv @ [LF]"

definition state_entries :: "process \<Rightarrow> (bytes \<times> bytes) list" where
  "state_entries p =
     (if pr_ca_file p \<noteq> [] then [(env_ca_file, pr_ca_file p)] else []) @
     map (\<lambda>(ip, serial). (env_key_for_ip ip, serial)) (filter (\<lambda>e. snd e \<noteq> []) (pr_serials p)) @
     map (\<lambda>(ip, path). (peer_env_key_for_ip ip, path)) (filter (\<lambda>e. snd e \<noteq> []) (pr_peers p))"

definition state_text :: "process \<Rightarrow> bytes" where
  "state_text p =
     ''# Open Bamboo Networking LAN TLS IPC (auto-generated)'' @ LF # concat (map assignment (state_entries p))"

definition write_state_file_locked :: "bool \<Rightarrow> process \<Rightarrow> process" where
  "write_state_file_locked ok p =
     (if pr_config_dir p = [] \<or> \<not> ok then p
      else p\<lparr>pr_disk := om_put (path_join (pr_config_dir p) lan_tls_state_file) (state_text p) (pr_disk p)\<rparr>)"

definition sync_ca_env_locked :: "process \<Rightarrow> process" where
  "sync_ca_env_locked p = setenv env_ca_file (pr_ca_file p) p"

definition sync_ip_env_locked :: "bytes \<Rightarrow> bytes \<Rightarrow> process \<Rightarrow> process" where
  "sync_ip_env_locked ip serial p = setenv (env_key_for_ip ip) serial p"

definition sync_peer_env_locked :: "bytes \<Rightarrow> bytes \<Rightarrow> process \<Rightarrow> process" where
  "sync_peer_env_locked ip path p = setenv (peer_env_key_for_ip ip) path p"

definition sync_registry_locked :: "bool \<Rightarrow> process \<Rightarrow> process" where
  "sync_registry_locked ok p =
     (let p1 = sync_ca_env_locked p;
          p2 = fold (\<lambda>(ip, serial). sync_ip_env_locked ip serial) (pr_serials p) p1;
          p3 = fold (\<lambda>(ip, path). sync_peer_env_locked ip path) (pr_peers p) p2 in
      write_state_file_locked ok p3)"

definition registry_set_config_dir :: "bytes \<Rightarrow> bool \<Rightarrow> process \<Rightarrow> process" where
  "registry_set_config_dir dir ok p =
     (if pr_config_dir p = dir then p
      else let p1 = p\<lparr>pr_config_dir := dir\<rparr>;
               p2 = (if dir \<noteq> [] then setenv env_config_dir dir p1 else p1) in
        sync_registry_locked ok p2)"

definition registry_set_ca_file :: "bytes \<Rightarrow> bool \<Rightarrow> process \<Rightarrow> process" where
  "registry_set_ca_file path ok p =
     (if pr_ca_file p = path then p
      else write_state_file_locked ok (sync_ca_env_locked (p\<lparr>pr_ca_file := path\<rparr>)))"

definition registry_put_ip_serial :: "bytes \<Rightarrow> bytes \<Rightarrow> bool \<Rightarrow> process \<Rightarrow> process" where
  "registry_put_ip_serial ip serial ok p =
     (if ip = [] \<or> serial = [] then p
      else if om_get (pr_serials p) ip = Some serial then p
      else write_state_file_locked ok
             (sync_ip_env_locked ip serial (p\<lparr>pr_serials := om_put ip serial (pr_serials p)\<rparr>)))"

definition registry_set_peer_cert :: "bytes \<Rightarrow> bytes \<Rightarrow> bool \<Rightarrow> process \<Rightarrow> process" where
  "registry_set_peer_cert ip path ok p =
     (if ip = [] then p
      else if path = [] \<and> om_get (pr_peers p) ip = None then p
      else if path \<noteq> [] \<and> om_get (pr_peers p) ip = Some path then p
      else write_state_file_locked ok
             (sync_peer_env_locked ip path
               (p\<lparr>pr_peers := (if path = [] then om_del ip (pr_peers p) else om_put ip path (pr_peers p))\<rparr>)))"

definition registry_lookup_serial :: "bytes \<Rightarrow> process \<Rightarrow> bytes option" where
  "registry_lookup_serial ip p = om_get (pr_serials p) ip"

subsection \<open>The trust bundle\<close>

text \<open>
  A regular file of the disk with its contents; \<open>out\<close> is the name made for the bundle and
  \<open>ok\<close> whether it can be written.
\<close>

definition with_newline :: "bytes \<Rightarrow> bytes" where
  "with_newline s = (if s \<noteq> [] \<and> last s \<noteq> LF then s @ [LF] else s)"

definition merged_trust_bundle_path :: "bytes \<Rightarrow> bytes \<Rightarrow> bytes \<Rightarrow> bool \<Rightarrow> process \<Rightarrow> bytes \<times> process" where
  "merged_trust_bundle_path ca_file peer_cert_file out ok p =
     (if peer_cert_file = [] then (ca_file, p)
      else case (om_get (pr_disk p) ca_file, om_get (pr_disk p) peer_cert_file) of
          (Some ca, Some peer) \<Rightarrow>
            (if ca = [] \<or> peer = [] \<or> out = [] \<or> \<not> ok then (ca_file, p)
             else (out, p\<lparr>pr_disk := om_put out (with_newline ca @ with_newline peer) (pr_disk p)\<rparr>))
        | _ \<Rightarrow> (ca_file, p))"

section \<open>Laws\<close>

lemma set_env_ok: "om_ok e \<Longrightarrow> om_ok (set_env_var k v e)"
  by (simp add: set_env_var_def)

definition plain_val :: "bytes \<Rightarrow> bool" where
  "plain_val v = (v \<noteq> [] \<and> LF \<notin> set v \<and> CHR 0x00 \<notin> set v)"

definition ipc_key :: "bytes \<Rightarrow> bool" where
  "ipc_key k = (is_lan_tls_ipc_key k \<and> CHR ''='' \<notin> set k \<and> LF \<notin> set k \<and> CHR 0x00 \<notin> set k)"

lemma c_str_id: "CHR 0x00 \<notin> set s \<Longrightarrow> c_str s = s"
  by (auto simp: c_str_def takeWhile_eq_all_conv)

lemma ipc_key_nonempty: "ipc_key k \<Longrightarrow> k \<noteq> [] \<and> hd k \<noteq> CHR ''#''"
  by (auto simp: ipc_key_def is_lan_tls_ipc_key_def starts_with_iff)

lemma apply_assignment:
  assumes "ipc_key k" "plain_val v"
  shows "apply_state_line e (k @ CHR ''='' # v) = om_put k v e"
proof -
  have "find_char (CHR ''='') (k @ CHR ''='' # v) = Some (length k)"
    using assms(1) by (intro find_char_append_here) (simp add: ipc_key_def)
  then show ?thesis
    using assms ipc_key_nonempty [OF assms(1)]
    by (simp add: apply_state_line_def set_env_var_def ipc_key_def plain_val_def c_str_id Let_def)
qed

lemma apply_assignments:
  "\<forall>(k, v) \<in> set kvs. ipc_key k \<and> plain_val v \<Longrightarrow>
   foldl apply_state_line e (get_lines (concat (map assignment kvs))) = fold (\<lambda>(k, v). om_put k v) kvs e"
proof (induction kvs arbitrary: e)
  case Nil
  then show ?case by simp
next
  case (Cons kv kvs)
  obtain k v where kv: "kv = (k, v)" by force
  have p: "ipc_key k" "plain_val v" using Cons.prems kv by simp_all
  have "get_lines (concat (map assignment (kv # kvs))) = (k @ CHR ''='' # v) # get_lines (concat (map assignment kvs))"
    using get_lines_line [of "k @ CHR ''='' # v" "concat (map assignment kvs)"] p
    by (simp add: kv assignment_def ipc_key_def plain_val_def)
  then show ?case using Cons kv apply_assignment [OF p] by simp
qed

lemma state_text_applied:
  assumes "\<forall>(k, v) \<in> set (state_entries p). ipc_key k \<and> plain_val v"
  shows "foldl apply_state_line e (get_lines (state_text p)) = fold (\<lambda>(k, v). om_put k v) (state_entries p) e"
proof -
  have "get_lines (state_text p) = ''# Open Bamboo Networking LAN TLS IPC (auto-generated)'' #
      get_lines (concat (map assignment (state_entries p)))"
    unfolding state_text_def by (rule get_lines_line) simp
  then show ?thesis using apply_assignments [OF assms] by (simp add: apply_state_line_def)
qed

text \<open>What has to hold of the registry for the state file to carry it: keys and values without
  line feeds and NULs, and addresses of different entries with different variable names.\<close>

definition registry_ok :: "process \<Rightarrow> bool" where
  "registry_ok p =
     (list_all (\<lambda>(k, v). ipc_key k \<and> plain_val v) (state_entries p) \<and> distinct (map fst (state_entries p)))"

lemma hydrated_env:
  assumes "registry_ok p" and "om_ok e" and "(k, v) \<in> set (state_entries p)"
  shows "env_var_get_os k (foldl apply_state_line e (get_lines (state_text p))) = Some v"
proof -
  have all: "\<forall>(k, v) \<in> set (state_entries p). ipc_key k \<and> plain_val v"
    using assms(1) by (auto simp: registry_ok_def list_all_iff)
  have kv: "ipc_key k" "plain_val v" using all assms(3) by auto
  have "map_of (rev (state_entries p)) k = Some v"
    using assms(1,3) by (intro map_of_is_SomeI) (auto simp: registry_ok_def rev_map [symmetric])
  then have "om_get (foldl apply_state_line e (get_lines (state_text p))) k = Some v"
    using om.get_puts [OF assms(2), of "state_entries p" k] by (simp add: state_text_applied [OF all])
  then show ?thesis
    using kv ipc_key_nonempty [OF kv(1)] by (simp add: env_var_get_os_def ipc_key_def plain_val_def c_str_id)
qed

definition registered :: "process \<Rightarrow> bytes \<Rightarrow> bytes \<Rightarrow> bool" where
  "registered p k v =
     (v \<noteq> [] \<and>
      (k = env_ca_file \<and> v = pr_ca_file p \<or>
       (\<exists>ip. om_get (pr_serials p) ip = Some v \<and> k = env_key_for_ip ip) \<or>
       (\<exists>ip. om_get (pr_peers p) ip = Some v \<and> k = peer_env_key_for_ip ip)))"

lemma registered_entry: "registered p k v \<Longrightarrow> (k, v) \<in> set (state_entries p)"
  by (force simp: registered_def state_entries_def dest: om_get_in_set)

text \<open>C20: the state file carries the registry to another process. Suppose the networking
  library has written its state file, and a fresh process (nothing hydrated, none of these
  variables set) looks for it first at that path. Then reading any registered variable (the CA
  file, the serial of an address, the certificate of an address) gives the registered value.\<close>

theorem state_file_carries_registry:
  assumes "registry_ok p" and "pr_config_dir p \<noteq> []" and "om_ok (pr_disk p)"
    and "registered p k v"
    and "pr_disk q = pr_disk (write_state_file_locked True p)"
    and "\<not> pr_hydrated q" and "om_ok (pr_env q)" and "env_var_get_os k (pr_env q) = None"
    and "state_file_search_paths q = path_join (pr_config_dir p) lan_tls_state_file # rest"
  shows "fst (env_var_get k q) = Some v"
proof -
  have "om_get (pr_disk q) (path_join (pr_config_dir p) lan_tls_state_file) = Some (state_text p)"
    using assms(2,3,5) by (simp add: write_state_file_locked_def)
  then have "pr_env (hydrate_env_from_state_file_once q) = foldl apply_state_line (pr_env q) (get_lines (state_text p))"
    using assms(6,9) by (simp add: hydrate_env_from_state_file_once_def)
  moreover have entry: "(k, v) \<in> set (state_entries p)" by (rule registered_entry [OF assms(4)])
  then have "ipc_key k" using assms(1) by (auto simp: registry_ok_def list_all_iff)
  moreover from this have "k \<noteq> []" by (simp add: ipc_key_nonempty)
  ultimately show ?thesis
    using hydrated_env [OF assms(1,7) entry] assms(8) by (simp add: env_var_get_def ipc_key_def Let_def)
qed

definition sample_registry :: process where
  "sample_registry = \<lparr>pr_env = [], pr_hydrated = False, pr_disk = [], pr_config_dir = ''c'', pr_ca_file = ''ca'',
     pr_serials = [(''10.0.0.2'', ''S1'')], pr_peers = []\<rparr>"

definition sample_reader :: process where
  "sample_reader = \<lparr>pr_env = [(env_config_dir, ''c'')], pr_hydrated = False,
     pr_disk = pr_disk (write_state_file_locked True sample_registry), pr_config_dir = [], pr_ca_file = [],
     pr_serials = [], pr_peers = []\<rparr>"

theorem state_file_carries_registry_witness:
  "fst (env_var_get ''OBN_LAN_TLS_IP_10_0_0_2'' sample_reader) = Some ''S1''"
  by (rule state_file_carries_registry [of sample_registry _ _ _ "[]"])
    (simp_all add: sample_registry_def sample_reader_def registry_ok_def registered_def state_entries_def ipc_key_def plain_val_def
      env_ca_file_def env_ip_prefix_def env_key_for_ip_def env_key_for_ip_prefix_def is_lan_tls_ipc_key_def starts_with_def
      env_var_get_os_def env_config_dir_def c_str_def om_get_def om_ok_def state_file_search_paths_def path_join_def)

text \<open>The environment of the registering process itself mirrors the registry.\<close>

definition env_mirrors :: "process \<Rightarrow> bool" where
  "env_mirrors p =
     (om_ok (pr_env p) \<and> om_ok (pr_serials p) \<and>
      (\<forall>ip serial. om_get (pr_serials p) ip = Some serial \<longrightarrow> CHR 0x00 \<notin> set ip \<and> CHR ''='' \<notin> set ip \<and>
         CHR ''_'' \<notin> set ip \<and> plain_val serial \<and> env_var_get_os (env_key_for_ip ip) (pr_env p) = Some serial))"

lemma env_key_inj:
  assumes "CHR ''_'' \<notin> set a" "CHR ''_'' \<notin> set b"
  shows "env_key_for_ip a = env_key_for_ip b \<longleftrightarrow> a = b"
proof -
  have "map (\<lambda>c. if c = CHR ''.'' then CHR ''_'' else c) a = map (\<lambda>c. if c = CHR ''.'' then CHR ''_'' else c) b \<Longrightarrow> a = b"
    using assms by (induction a b rule: list_induct2') (auto split: if_splits)
  then show ?thesis by (auto simp: env_key_for_ip_def env_key_for_ip_prefix_def)
qed

lemma env_key_plain:
  "CHR 0x00 \<notin> set ip \<Longrightarrow> CHR 0x00 \<notin> set (env_key_for_ip ip)" "env_key_for_ip ip \<noteq> []"
  "CHR ''='' \<notin> set ip \<Longrightarrow> CHR ''='' \<notin> set (env_key_for_ip ip)"
  by (auto simp: env_key_for_ip_def env_key_for_ip_prefix_def env_ip_prefix_def split: if_splits)

lemma write_state_env [simp]:
  "pr_env (write_state_file_locked ok p) = pr_env p" "pr_serials (write_state_file_locked ok p) = pr_serials p"
  by (simp_all add: write_state_file_locked_def)

lemma env_get_put:
  "om_ok e \<Longrightarrow> CHR 0x00 \<notin> set k \<Longrightarrow> k \<noteq> [] \<Longrightarrow> v \<noteq> [] \<Longrightarrow>
   env_var_get_os k (om_put k' v e) = (if k = k' then Some v else env_var_get_os k e)"
  by (simp add: env_var_get_os_def c_str_id)

text \<open>A registered serial is visible at once. After \<open>registry_put_ip_serial\<close> the
  environment variable of the address reads the serial, those of all other registered
  addresses are as before, and every registered address keeps its variable.\<close>

theorem put_serial_visible:
  assumes "env_mirrors p" and "ip \<noteq> []" and "plain_val serial"
    and "CHR 0x00 \<notin> set ip" "CHR ''='' \<notin> set ip" "CHR ''_'' \<notin> set ip"
  shows "env_mirrors (registry_put_ip_serial ip serial ok p) \<and>
    fst (env_var_get (env_key_for_ip ip) (registry_put_ip_serial ip serial ok p)) = Some serial"
proof -
  let ?q = "registry_put_ip_serial ip serial ok p"
  have mirrors: "env_mirrors ?q"
  proof (cases "om_get (pr_serials p) ip = Some serial")
    case True
    then show ?thesis using assms(1) by (simp add: registry_put_ip_serial_def)
  next
    case False
    have env: "pr_env ?q = om_put (env_key_for_ip ip) serial (pr_env p)"
      "pr_serials ?q = om_put ip serial (pr_serials p)"
      using assms(2-6) False env_key_plain [of ip]
      by (simp_all add: registry_put_ip_serial_def sync_ip_env_locked_def setenv_def set_env_var_def c_str_id plain_val_def)
    show ?thesis
      unfolding env_mirrors_def env
    proof (intro conjI allI impI)
      fix ip' s assume g: "om_get (om_put ip serial (pr_serials p)) ip' = Some s"
      have old: "ip' \<noteq> ip \<Longrightarrow> om_get (pr_serials p) ip' = Some s"
        using g assms(1) by (simp add: env_mirrors_def)
      show plain: "CHR 0x00 \<notin> set ip'" "CHR ''='' \<notin> set ip'" "CHR ''_'' \<notin> set ip'" "plain_val s"
        using g old assms by (cases "ip' = ip"; force simp: env_mirrors_def)+
      show "env_var_get_os (env_key_for_ip ip') (om_put (env_key_for_ip ip) serial (pr_env p)) = Some s"
      proof (cases "ip' = ip")
        case True
        then show ?thesis
          using g assms env_key_plain [of ip] by (auto simp: env_get_put env_mirrors_def plain_val_def)
      next
        case False
        then have "env_var_get_os (env_key_for_ip ip') (pr_env p) = Some s"
          using old assms(1) by (simp add: env_mirrors_def)
        with False show ?thesis
          using assms(1,3) plain env_key_inj [OF plain(3) assms(6)] env_key_plain [of ip']
          by (simp add: env_get_put env_mirrors_def plain_val_def)
      qed
    qed (use assms(1) in \<open>simp_all add: env_mirrors_def\<close>)
  qed
  moreover have "om_get (pr_serials ?q) ip = Some serial"
    using assms by (simp add: registry_put_ip_serial_def sync_ip_env_locked_def setenv_def env_mirrors_def plain_val_def)
  ultimately show ?thesis
    using env_key_plain(2) by (auto simp: env_mirrors_def env_var_get_def)
qed

theorem put_serial_visible_witness:
  "fst (env_var_get (env_key_for_ip ''10.0.0.9'') (registry_put_ip_serial ''10.0.0.9'' ''S9'' False
     (sample_registry\<lparr>pr_serials := []\<rparr>))) = Some ''S9''"
  using put_serial_visible [of "sample_registry\<lparr>pr_serials := []\<rparr>" "''10.0.0.9''" "''S9''" False]
  by (simp add: env_mirrors_def sample_registry_def plain_val_def)

end
