(* ===== verification/Mqtt.thy ===== *)
theory Mqtt
  imports Lan_Tls
begin

text \<open>
  The MQTT client of \<open>src/mqtt_client.cpp\<close>, a thin layer over libmosquitto. The library is not
  part of the program: each call into it is a value of \<open>mqtt_call\<close>, its return code is given by
  the argument \<open>rc\<close>, and an operation yields the list of calls it makes, in order. Code 0 is
  \<open>MOSQ_ERR_SUCCESS\<close>.
\<close>

section \<open>Calls into the library\<close>

datatype mqtt_call =
    Lib_init
  | Lib_cleanup
  | Username_pw_set "bytes option" "bytes option"
  | Tls_verify_hostname_set bytes
  | Tls_set "bytes option" "bytes option"
  | Tls_opts_set bool
  | Tls_insecure_set bool
  | Connect_async bytes int int
  | Loop_start
  | Subscribe_call bytes int
  | Unsubscribe_call bytes
  | Publish_call bytes bytes int bool
  | Disconnect_call
  | Loop_stop
  | Destroy

definition mosq_err_success :: int where "mosq_err_success = 0"
definition mosq_err_tls :: int where "mosq_err_tls = 8"

text \<open>Calls made one after the other until one fails.\<close>

fun run_calls :: "(mqtt_call \<Rightarrow> int) \<Rightarrow> mqtt_call list \<Rightarrow> mqtt_call list \<times> int" where
  "run_calls rc [] = ([], mosq_err_success)"
| "run_calls rc (c # cs) =
     (if rc c \<noteq> mosq_err_success then ([c], rc c)
      else let (t, r) = run_calls rc cs in (c # t, r))"

section \<open>The client\<close>

record connect_config =
  cc_host :: bytes
  cc_port :: int
  cc_username :: bytes
  cc_password :: bytes
  cc_use_tls :: bool
  cc_ca_file :: bytes
  cc_tls_verify_hostname :: bytes
  cc_tls_insecure :: bool
  cc_tls_skip_chain_verify :: bool
  cc_keepalive_s :: int

definition default_connect_config :: connect_config where
  "default_connect_config = \<lparr>cc_host = [], cc_port = 8883, cc_username = [], cc_password = [], cc_use_tls = True,
     cc_ca_file = [], cc_tls_verify_hostname = [], cc_tls_insecure = False, cc_tls_skip_chain_verify = False,
     cc_keepalive_s = 60\<rparr>"

record mqtt_client =
  mc_client_id :: bytes
  mc_connected :: bool
  mc_loop_started :: bool
  mc_merged_trust_path :: bytes

text \<open>The reference count of the library, and what a change of it calls.\<close>

definition global_init :: "int \<Rightarrow> int \<times> mqtt_call list" where
  "global_init n = (n + 1, if n = 0 then [Lib_init] else [])"

definition global_cleanup :: "int \<Rightarrow> int \<times> mqtt_call list" where
  "global_cleanup n = (n - 1, if n - 1 = 0 then [Lib_cleanup] else [])"

text \<open>The constructor; \<open>created\<close> says whether \<open>mosquitto_new\<close> succeeds, \<open>None\<close> is the
  exception it throws otherwise.\<close>

definition new_client :: "bool \<Rightarrow> bytes \<Rightarrow> int \<Rightarrow> mqtt_client option \<times> int \<times> mqtt_call list" where
  "new_client created client_id n =
     (let (n1, t1) = global_init n in
      if created then
        (Some \<lparr>mc_client_id = client_id, mc_connected = False, mc_loop_started = False, mc_merged_trust_path = []\<rparr>, n1, t1)
      else let (n2, t2) = global_cleanup n1 in (None, n2, t1 @ t2))"

definition remove_trust_bundle_file :: "bytes \<Rightarrow> process \<Rightarrow> process" where
  "remove_trust_bundle_file path p = (if path = [] then p else p\<lparr>pr_disk := om_del path (pr_disk p)\<rparr>)"

definition destroy_client :: "mqtt_client \<Rightarrow> process \<Rightarrow> int \<Rightarrow> process \<times> int \<times> mqtt_call list" where
  "destroy_client mc p n =
     (let p1 = remove_trust_bundle_file (mc_merged_trust_path mc) p;
          t1 = (if mc_loop_started mc then [Disconnect_call, Loop_stop] else []) @ [Destroy];
          (n2, t2) = global_cleanup n in
      (p1, n2, t1 @ t2))"

subsection \<open>Connecting\<close>

definition opt_str :: "bytes \<Rightarrow> bytes option" where
  "opt_str s = (if s = [] then None else Some s)"

definition auth_calls :: "connect_config \<Rightarrow> mqtt_call list" where
  "auth_calls cfg =
     (if cc_username cfg \<noteq> [] \<or> cc_password cfg \<noteq> []
      then [Username_pw_set (opt_str (cc_username cfg)) (opt_str (cc_password cfg))] else [])"

definition lan_hostname_verify :: "connect_config \<Rightarrow> bool" where
  "lan_hostname_verify cfg = (cc_tls_verify_hostname cfg \<noteq> [])"

definition skip_verify :: "settings \<Rightarrow> process \<Rightarrow> connect_config \<Rightarrow> bool" where
  "skip_verify s p cfg = (cc_tls_insecure cfg \<or> (lan_hostname_verify cfg \<and> \<not> verify_enabled s p))"

definition ca_candidates :: "bytes list" where
  "ca_candidates = [''/etc/ssl/certs/ca-certificates.crt'', ''/etc/pki/tls/certs/ca-bundle.crt'',
     ''/etc/ssl/ca-bundle.pem'', ''/etc/ssl/cert.pem'']"

text \<open>
  The trust anchors of a TLS connection: CA file, CA directory, whether the peer is verified,
  and the client and process afterwards. \<open>None\<close> is the refusal to connect. \<open>out\<close> and \<open>ok\<close>
  are the name for a merged bundle and whether it can be written.
\<close>

definition trust_anchors ::
  "bool \<Rightarrow> bytes \<Rightarrow> bool \<Rightarrow> connect_config \<Rightarrow> mqtt_client \<Rightarrow> process \<Rightarrow>
   (bytes option \<times> bytes option \<times> bool \<times> mqtt_client \<times> process) option" where
  "trust_anchors skip out ok cfg mc p =
     (if cc_ca_file cfg \<noteq> [] then
        (let (peer, p1) = (if lan_hostname_verify cfg \<and> \<not> skip then peer_cert_path_for_ip (cc_host cfg) p else (None, p));
             (bundle, p2) = (case peer of None \<Rightarrow> (cc_ca_file cfg, p1)
                             | Some pc \<Rightarrow> merged_trust_bundle_path (cc_ca_file cfg) pc out ok p1);
             (mc', p3) = (if bundle \<noteq> cc_ca_file cfg
                then (mc\<lparr>mc_merged_trust_path := bundle\<rparr>, remove_trust_bundle_file (mc_merged_trust_path mc) p2)
                else (mc, p2)) in
         Some (Some bundle, None, \<not> cc_tls_skip_chain_verify cfg \<and> \<not> skip, mc', p3))
      else if lan_hostname_verify cfg \<and> \<not> skip then None
      else
        (let cafile = find (\<lambda>f. om_get (pr_disk p) f \<noteq> None) ca_candidates in
         Some (cafile, if cafile = None then Some ''/etc/ssl/certs'' else None, \<not> cc_tls_insecure cfg, mc, p)))"

definition start_calls :: "connect_config \<Rightarrow> mqtt_call list" where
  "start_calls cfg = [Connect_async (cc_host cfg) (cc_port cfg) (cc_keepalive_s cfg), Loop_start]"

definition finish_connect ::
  "(mqtt_call \<Rightarrow> int) \<Rightarrow> connect_config \<Rightarrow> mqtt_client \<Rightarrow> process \<Rightarrow> mqtt_call list \<Rightarrow>
   int \<times> mqtt_client \<times> process \<times> mqtt_call list" where
  "finish_connect rc cfg mc p done =
     (let (t, r) = run_calls rc (start_calls cfg) in
      (r, if r = mosq_err_success then mc\<lparr>mc_loop_started := True\<rparr> else mc, p, done @ t))"

definition mqtt_connect ::
  "(mqtt_call \<Rightarrow> int) \<Rightarrow> settings \<Rightarrow> bytes \<Rightarrow> bool \<Rightarrow> connect_config \<Rightarrow> mqtt_client \<Rightarrow> process \<Rightarrow>
   int \<times> mqtt_client \<times> process \<times> mqtt_call list" where
  "mqtt_connect rc s out ok cfg mc p =
     (let (t1, r1) = run_calls rc (auth_calls cfg) in
      if r1 \<noteq> mosq_err_success then (r1, mc, p, t1)
      else if \<not> cc_use_tls cfg then finish_connect rc cfg mc p t1
      else
        let skip = skip_verify s p cfg;
            (t2, r2) = run_calls rc (if lan_hostname_verify cfg \<and> \<not> skip
                                     then [Tls_verify_hostname_set (cc_tls_verify_hostname cfg)] else []) in
        if r2 \<noteq> mosq_err_success then (r2, mc, p, t1 @ t2)
        else case trust_anchors skip out ok cfg mc p of
            None \<Rightarrow> (mosq_err_tls, mc, p, t1 @ t2)
          | Some (cafile, capath, verify_peer, mc', p') \<Rightarrow>
              (let (t3, r3) = run_calls rc ([Tls_set cafile capath, Tls_opts_set verify_peer] @
                                            (if skip then [Tls_insecure_set True] else [])) in
               if r3 \<noteq> mosq_err_success then (r3, mc', p', t1 @ t2 @ t3)
               else finish_connect rc cfg mc' p' (t1 @ t2 @ t3)))"

subsection \<open>The other operations\<close>

definition mqtt_subscribe :: "(mqtt_call \<Rightarrow> int) \<Rightarrow> bytes \<Rightarrow> int \<Rightarrow> int \<times> mqtt_call list" where
  "mqtt_subscribe rc topic qos = (rc (Subscribe_call topic qos), [Subscribe_call topic qos])"

definition mqtt_unsubscribe :: "(mqtt_call \<Rightarrow> int) \<Rightarrow> bytes \<Rightarrow> int \<times> mqtt_call list" where
  "mqtt_unsubscribe rc topic = (rc (Unsubscribe_call topic), [Unsubscribe_call topic])"

definition mqtt_publish :: "(mqtt_call \<Rightarrow> int) \<Rightarrow> bytes \<Rightarrow> bytes \<Rightarrow> int \<Rightarrow> bool \<Rightarrow> int \<times> mqtt_call list" where
  "mqtt_publish rc topic payload qos retain =
     (rc (Publish_call topic payload qos retain), [Publish_call topic payload qos retain])"

definition mqtt_disconnect :: "mqtt_client \<Rightarrow> process \<Rightarrow> mqtt_client \<times> process \<times> mqtt_call list" where
  "mqtt_disconnect mc p =
     (mc\<lparr>mc_loop_started := False, mc_merged_trust_path := []\<rparr>,
      remove_trust_bundle_file (mc_merged_trust_path mc) p,
      [Disconnect_call] @ (if mc_loop_started mc then [Loop_stop] else []))"

text \<open>The callbacks of the network thread: the connected flag, and the code handed on.\<close>

definition s_on_connect :: "int \<Rightarrow> mqtt_client \<Rightarrow> mqtt_client" where
  "s_on_connect r mc = mc\<lparr>mc_connected := (r = 0)\<rparr>"

definition s_on_disconnect :: "int \<Rightarrow> mqtt_client \<Rightarrow> mqtt_client" where
  "s_on_disconnect r mc = mc\<lparr>mc_connected := False\<rparr>"

definition connack_str :: "int \<Rightarrow> bytes" where
  "connack_str r =
     (if r = 0 then ''accepted''
      else if r = 1 then ''unacceptable protocol version''
      else if r = 2 then ''identifier rejected''
      else if r = 3 then ''server unavailable''
      else if r = 4 then ''bad username or password''
      else if r = 5 then ''not authorized''
      else ''unknown connack code'')"

section \<open>Laws\<close>

lemma run_calls_ok: "run_calls rc cs = (t, mosq_err_success) \<Longrightarrow> t = cs"
proof (induction cs arbitrary: t)
  case (Cons c cs)
  obtain t' r' where "run_calls rc cs = (t', r')" by force
  with Cons show ?case by (simp split: if_splits)
qed simp

lemma run_calls_prefix: "run_calls rc cs = (t, r) \<Longrightarrow> prefix t cs"
  by (induction cs arbitrary: t r) (auto split: prod.splits if_splits)

lemma run_calls_subset: "run_calls rc cs = (t, r) \<Longrightarrow> set t \<subseteq> set cs"
  using run_calls_prefix set_mono_prefix by blast

text \<open>Before a connection is opened on a verified LAN link, these calls have succeeded.\<close>

definition checked_before_connect :: "bytes \<Rightarrow> mqtt_call list \<Rightarrow> bool" where
  "checked_before_connect hostname t =
     (\<forall>pre host port ka post. t = pre @ Connect_async host port ka # post \<longrightarrow>
        Tls_verify_hostname_set hostname \<in> set pre \<and> Tls_opts_set True \<in> set pre \<and>
        (\<exists>ca. Tls_set (Some ca) None \<in> set pre) \<and> Tls_insecure_set True \<notin> set t)"

lemma split_at_unique:
  assumes "a @ x # b = pre @ y # post" and "\<forall>z \<in> set a. \<not> P z" and "P y" and "\<forall>z \<in> set b. \<not> P z"
  shows "pre = a"
proof -
  have "takeWhile (\<lambda>z. \<not> P z) (pre @ y # post) = pre \<or> (\<exists>z \<in> set pre. P z)"
    using assms(3) by (auto simp: takeWhile_append)
  moreover have "\<not> (\<exists>z \<in> set pre. P z)"
  proof
    assume "\<exists>z \<in> set pre. P z"
    then obtain p1 z p2 where p: "pre = p1 @ z # p2" "P z" by (meson in_set_conv_decomp)
    have "length (filter P (pre @ y # post)) \<ge> 2" using p assms(3) by simp
    moreover have "length (filter P (a @ x # b)) \<le> 1"
      using assms(2,4) by (simp add: filter_False)
    ultimately show False using assms(1) by simp
  qed
  ultimately have t: "takeWhile (\<lambda>z. \<not> P z) (pre @ y # post) = pre" by blast
  have "P x"
  proof (rule ccontr)
    assume "\<not> P x"
    then have "\<forall>z \<in> set (a @ x # b). \<not> P z" using assms(2,4) by auto
    then show False using assms(1,3) by (metis in_set_conv_decomp)
  qed
  then have "takeWhile (\<lambda>z. \<not> P z) (a @ x # b) = a" using assms(2) by simp
  with t assms(1) show ?thesis by simp
qed

definition is_connect_call :: "mqtt_call \<Rightarrow> bool" where
  "is_connect_call c = (case c of Connect_async _ _ _ \<Rightarrow> True | _ \<Rightarrow> False)"

lemma trust_anchors_verified:
  assumes "trust_anchors False out ok cfg mc p = Some (cafile, capath, verify_peer, mc', p')"
    and "lan_hostname_verify cfg" and "\<not> cc_tls_skip_chain_verify cfg"
  shows "(\<exists>ca. cafile = Some ca) \<and> capath = None \<and> verify_peer"
  using assms by (auto simp: trust_anchors_def Let_def split: if_splits prod.splits)

definition lan_tls_calls :: "connect_config \<Rightarrow> bytes \<Rightarrow> mqtt_call list" where
  "lan_tls_calls cfg ca = auth_calls cfg @
     [Tls_verify_hostname_set (cc_tls_verify_hostname cfg), Tls_set (Some ca) None, Tls_opts_set True] @ start_calls cfg"

text \<open>On a verified LAN link the calls are always a prefix of one fixed sequence.\<close>

lemma mqtt_connect_prefix:
  assumes c: "mqtt_connect rc s out ok cfg mc p = (r, mc', p', t)"
    and tls: "cc_use_tls cfg" and lan: "lan_hostname_verify cfg" and skip: "\<not> skip_verify s p cfg"
    and chain: "\<not> cc_tls_skip_chain_verify cfg"
  shows "\<exists>ca. prefix t (lan_tls_calls cfg ca)"
proof -
  define h where "h = Tls_verify_hostname_set (cc_tls_verify_hostname cfg)"
  obtain t1 r1 where 1: "run_calls rc (auth_calls cfg) = (t1, r1)" by force
  obtain t2 r2 where 2: "run_calls rc [h] = (t2, r2)" by force
  note p1 = run_calls_prefix [OF 1] and p2 = run_calls_prefix [OF 2]
  have seq: "mqtt_connect rc s out ok cfg mc p =
     (if r1 \<noteq> mosq_err_success then (r1, mc, p, t1)
      else if r2 \<noteq> mosq_err_success then (r2, mc, p, t1 @ t2)
      else case trust_anchors False out ok cfg mc p of
            None \<Rightarrow> (mosq_err_tls, mc, p, t1 @ t2)
          | Some (cafile, capath, verify_peer, mc', p') \<Rightarrow>
              (let (t3, r3) = run_calls rc [Tls_set cafile capath, Tls_opts_set verify_peer] in
               if r3 \<noteq> mosq_err_success then (r3, mc', p', t1 @ t2 @ t3)
               else finish_connect rc cfg mc' p' (t1 @ t2 @ t3)))"
    using 1 2 tls lan skip
    by (cases "trust_anchors False out ok cfg mc p") (simp_all add: mqtt_connect_def h_def [symmetric] Let_def del: run_calls.simps)
  have calls: "lan_tls_calls cfg ca = auth_calls cfg @ [h] @ [Tls_set (Some ca) None, Tls_opts_set True] @ start_calls cfg" for ca
    by (simp add: lan_tls_calls_def h_def)
  show ?thesis
  proof (cases "r1 = mosq_err_success")
    case False
    then have "t = t1" using c seq by simp
    then show ?thesis using p1 by (simp add: calls)
  next
    case r1: True
    then have t1: "t1 = auth_calls cfg" using 1 run_calls_ok by blast
    show ?thesis
    proof (cases "r2 = mosq_err_success")
      case False
      then have "t = t1 @ t2" using c seq r1 by simp
      then have "prefix t (lan_tls_calls cfg [])"
        using p2 prefix_prefix [OF p2] by (simp add: calls t1)
      then show ?thesis by blast
    next
      case r2: True
      then have t2: "t2 = [h]" using 2 run_calls_ok by blast
      show ?thesis
      proof (cases "trust_anchors False out ok cfg mc p")
        case None
        then have "t = t1 @ t2" using c seq r1 r2 by simp
        then show ?thesis by (simp add: calls t1 t2)
      next
        case (Some ta)
        obtain cafile capath vp mc1 p1 where ta: "ta = (cafile, capath, vp, mc1, p1)" by (metis surj_pair)
        obtain ca where v: "cafile = Some ca" "capath = None" "vp"
          using trust_anchors_verified [OF Some [unfolded ta] lan chain] by auto
        obtain t3 r3 where 3: "run_calls rc [Tls_set (Some ca) None, Tls_opts_set True] = (t3, r3)" by force
        obtain t4 r4 where 4: "run_calls rc (start_calls cfg) = (t4, r4)" by force
        note p3 = run_calls_prefix [OF 3] and p4 = run_calls_prefix [OF 4]
        show ?thesis
        proof (cases "r3 = mosq_err_success")
          case False
          then have "t = t1 @ t2 @ t3" using c seq r1 r2 Some ta v 3 by (simp del: run_calls.simps)
          moreover have "prefix t3 ([Tls_set (Some ca) None, Tls_opts_set True] @ start_calls cfg)"
            using p3 by (rule prefix_prefix)
          ultimately show ?thesis unfolding calls t1 t2 by (metis same_prefix_prefix)
        next
          case True
          then have t3: "t3 = [Tls_set (Some ca) None, Tls_opts_set True]" using 3 run_calls_ok by blast
          have "t = t1 @ t2 @ t3 @ t4"
            using c seq r1 r2 Some ta v 3 4 True by (simp add: finish_connect_def del: run_calls.simps)
          then show ?thesis unfolding calls t1 t2 t3 using p4 by (metis append_assoc same_prefix_prefix)
        qed
      qed
    qed
  qed
qed

lemma mqtt_connect_checked:
  assumes "mqtt_connect rc s out ok cfg mc p = (r, mc', p', t)"
    and "cc_use_tls cfg" and "lan_hostname_verify cfg" and "\<not> skip_verify s p cfg"
    and "\<not> cc_tls_skip_chain_verify cfg"
  shows "checked_before_connect (cc_tls_verify_hostname cfg) t"
proof -
  obtain ca z where z: "lan_tls_calls cfg ca = t @ z"
    using mqtt_connect_prefix [OF assms] by (auto simp: prefix_def)
  let ?A = "auth_calls cfg @ [Tls_verify_hostname_set (cc_tls_verify_hostname cfg), Tls_set (Some ca) None, Tls_opts_set True]"
  have w: "lan_tls_calls cfg ca = ?A @ Connect_async (cc_host cfg) (cc_port cfg) (cc_keepalive_s cfg) # [Loop_start]"
    by (simp add: lan_tls_calls_def start_calls_def)
  have "pre = ?A" if "t = pre @ Connect_async x y k # post" for pre x y k post
    using that z w
    by (intro split_at_unique [of ?A _ "[Loop_start]" pre "Connect_async x y k" "post @ z" is_connect_call])
      (auto simp: auth_calls_def is_connect_call_def)
  moreover have "Tls_insecure_set True \<notin> set (lan_tls_calls cfg ca)"
    by (simp add: lan_tls_calls_def auth_calls_def start_calls_def)
  then have "Tls_insecure_set True \<notin> set t" using z by simp
  ultimately show ?thesis unfolding checked_before_connect_def by fastforce
qed

end
