(* ===== verification/Lan_Session.thy ===== *)
theory Lan_Session
  imports Mqtt
begin

text \<open>
  The MQTT session with one printer on the local network, \<open>src/lan_session.cpp\<close>: starting it,
  the callbacks of its client, publishing and disconnecting. Operations thread a \<open>world\<close>: the
  process with its environment and disk, the reference count of the MQTT library and the log of
  the calls made into it.
\<close>

section \<open>Codes and the world\<close>

definition net_success :: int where "net_success = 0"
definition net_err_invalid_handle :: int where "net_err_invalid_handle = - 1"
definition net_err_connect_failed :: int where "net_err_connect_failed = - 2"
definition net_err_send_msg_failed :: int where "net_err_send_msg_failed = - 4"
definition net_err_invalid_result :: int where "net_err_invalid_result = - 19"

lemmas net_codes = net_success_def net_err_invalid_handle_def net_err_connect_failed_def
  net_err_send_msg_failed_def net_err_invalid_result_def

datatype connect_status = Connect_status_ok | Connect_status_failed | Connect_status_lost

record world =
  wo_proc :: process
  wo_refs :: int
  wo_calls :: "mqtt_call list"

definition log_calls :: "mqtt_call list \<Rightarrow> world \<Rightarrow> world" where
  "log_calls cs w = w\<lparr>wo_calls := wo_calls w @ cs\<rparr>"

section \<open>The session\<close>

record lan_session =
  ls_dev_id :: bytes
  ls_dev_ip :: bytes
  ls_username :: bytes
  ls_password :: bytes
  ls_use_ssl :: bool
  ls_ca_file :: bytes
  ls_client :: "mqtt_client option"

definition new_lan_session :: "bytes \<Rightarrow> bytes \<Rightarrow> bytes \<Rightarrow> bytes \<Rightarrow> bool \<Rightarrow> bytes \<Rightarrow> lan_session" where
  "new_lan_session dev_id dev_ip username password use_ssl ca_file =
     \<lparr>ls_dev_id = dev_id, ls_dev_ip = dev_ip, ls_username = username, ls_password = password,
      ls_use_ssl = use_ssl, ls_ca_file = ca_file, ls_client = None\<rparr>"

definition report_topic :: "bytes \<Rightarrow> bytes" where
  "report_topic dev_id = ''device/'' @ dev_id @ ''/report''"

definition request_topic :: "bytes \<Rightarrow> bytes" where
  "request_topic dev_id = ''device/'' @ dev_id @ ''/request''"

definition map_mqtt_err :: "int \<Rightarrow> int" where
  "map_mqtt_err r = (if r = mosq_err_success then net_success else net_err_connect_failed)"

definition lan_config :: "settings \<Rightarrow> process \<Rightarrow> lan_session \<Rightarrow> connect_config" where
  "lan_config s p ls = default_connect_config\<lparr>
     cc_host := ls_dev_ip ls,
     cc_port := (if ls_use_ssl ls then 8883 else 1883),
     cc_username := ls_username ls,
     cc_password := ls_password ls,
     cc_use_tls := ls_use_ssl ls,
     cc_ca_file := ls_ca_file ls,
     cc_tls_verify_hostname := ls_dev_id ls,
     cc_tls_insecure := \<not> verify_enabled s p,
     cc_keepalive_s := 60\<rparr>"

text \<open>What the surroundings decide about one start: whether the client can be created and under
  which id, the return codes of the library, and the name and fate of a merged trust bundle.\<close>

record start_env =
  se_created :: bool
  se_client_id :: bytes
  se_rc :: "mqtt_call \<Rightarrow> int"
  se_bundle :: bytes
  se_bundle_ok :: bool

text \<open>Assigning a new client destroys the one the session had.\<close>

definition drop_client :: "mqtt_client option \<Rightarrow> world \<Rightarrow> world" where
  "drop_client old w =
     (case old of
        None \<Rightarrow> w
      | Some mc \<Rightarrow>
          (let (p, refs, t) = destroy_client mc (wo_proc w) (wo_refs w) in
           log_calls t (w\<lparr>wo_proc := p, wo_refs := refs\<rparr>)))"

definition lan_start :: "start_env \<Rightarrow> settings \<Rightarrow> lan_session \<Rightarrow> world \<Rightarrow> int \<times> lan_session \<times> world" where
  "lan_start e s ls w =
     (let (c, refs, t0) = new_client (se_created e) (se_client_id e) (wo_refs w);
          w0 = log_calls t0 (w\<lparr>wo_refs := refs\<rparr>) in
      case c of
        None \<Rightarrow> (net_err_connect_failed, ls, w0)
      | Some mc \<Rightarrow>
          (let ls0 = ls\<lparr>ls_client := Some mc\<rparr>; w1 = drop_client (ls_client ls) w0 in
           if ls_use_ssl ls \<and> verify_enabled s (wo_proc w1) \<and> (ls_ca_file ls = [] \<or> ls_dev_id ls = [])
             then (net_err_connect_failed, ls0, w1)
           else
             let (r, mc', p', t) = mqtt_connect (se_rc e) s (se_bundle e) (se_bundle_ok e)
                                     (lan_config s (wo_proc w1) ls) mc (wo_proc w1) in
             (map_mqtt_err r, ls0\<lparr>ls_client := Some mc'\<rparr>, log_calls t (w1\<lparr>wo_proc := p'\<rparr>))))"

text \<open>The callbacks: what they call, and what they report through \<open>on_connected_\<close> and
  \<open>on_message_\<close>. The texts of library errors are an argument.\<close>

definition lan_on_connect ::
  "(mqtt_call \<Rightarrow> int) \<Rightarrow> int \<Rightarrow> lan_session \<Rightarrow> world \<Rightarrow> (connect_status \<times> bytes) \<times> lan_session \<times> world" where
  "lan_on_connect rc r ls w =
     (let ls' = ls\<lparr>ls_client := map_option (s_on_connect r) (ls_client ls)\<rparr> in
      if r = 0 then
        ((Connect_status_ok, []), ls', log_calls (snd (mqtt_subscribe rc (report_topic (ls_dev_id ls)) 0)) w)
      else ((Connect_status_failed, ''mqtt connect rc='' @ connack_str r), ls', w))"

definition lan_on_disconnect ::
  "(int \<Rightarrow> bytes) \<Rightarrow> int \<Rightarrow> lan_session \<Rightarrow> (connect_status \<times> bytes) \<times> lan_session" where
  "lan_on_disconnect err_str r ls =
     ((if r = 0 then Connect_status_ok else Connect_status_lost, ''mqtt disconnect rc='' @ err_str r),
      ls\<lparr>ls_client := map_option (s_on_disconnect r) (ls_client ls)\<rparr>)"

definition lan_on_message :: "bytes \<Rightarrow> lan_session \<Rightarrow> bytes \<times> bytes" where
  "lan_on_message payload ls = (ls_dev_id ls, payload)"

definition lan_publish_json :: "(mqtt_call \<Rightarrow> int) \<Rightarrow> bytes \<Rightarrow> int \<Rightarrow> lan_session \<Rightarrow> world \<Rightarrow> int \<times> world" where
  "lan_publish_json rc json_str qos ls w =
     (case ls_client ls of
        None \<Rightarrow> (net_err_invalid_handle, w)
      | Some _ \<Rightarrow>
          (let (r, t) = mqtt_publish rc (request_topic (ls_dev_id ls)) json_str qos False in
           (if r = mosq_err_success then net_success else net_err_send_msg_failed, log_calls t w)))"

text \<open>\<open>client_->disconnect()\<close>, then the destructor of the client.\<close>

definition lan_disconnect :: "lan_session \<Rightarrow> world \<Rightarrow> int \<times> lan_session \<times> world" where
  "lan_disconnect ls w =
     (case ls_client ls of
        None \<Rightarrow> (net_success, ls, w)
      | Some mc \<Rightarrow>
          (let (mc1, p1, t1) = mqtt_disconnect mc (wo_proc w);
               (p2, refs, t2) = destroy_client mc1 p1 (wo_refs w) in
           (net_success, ls\<lparr>ls_client := None\<rparr>,
            log_calls (t1 @ t2) (w\<lparr>wo_proc := p2, wo_refs := refs\<rparr>))))"

section \<open>Laws\<close>

lemma log_calls_simps [simp]:
  "wo_calls (log_calls cs w) = wo_calls w @ cs" "wo_proc (log_calls cs w) = wo_proc w" "wo_refs (log_calls cs w) = wo_refs w"
  by (simp_all add: log_calls_def)

lemma new_client_calls: "new_client created cid n = (c, n', t) \<Longrightarrow> set t \<subseteq> {Lib_init, Lib_cleanup}"
  by (auto simp: new_client_def global_init_def global_cleanup_def split: if_splits prod.splits)

lemma after_harmless:
  assumes "u @ t = pre @ Connect_async x y k # post" and "\<forall>c \<in> set u. \<not> is_connect_call c"
  shows "\<exists>v. pre = u @ v"
  using assms
proof (induction u arbitrary: pre)
  case (Cons a u)
  then show ?case by (cases pre) (auto simp: is_connect_call_def)
qed simp

lemma checked_prepend:
  assumes "checked_before_connect h t" and "\<forall>c \<in> set u. \<not> is_connect_call c" and "Tls_insecure_set True \<notin> set u"
  shows "checked_before_connect h (u @ t)"
  unfolding checked_before_connect_def
proof (intro allI impI)
  fix pre x y k post assume e: "u @ t = pre @ Connect_async x y k # post"
  obtain v where v: "pre = u @ v" using after_harmless [OF e assms(2)] ..
  have teq: "t = v @ Connect_async x y k # post" using e unfolding v by simp
  have "Tls_verify_hostname_set h \<in> set v" "Tls_opts_set True \<in> set v" "\<exists>ca. Tls_set (Some ca) None \<in> set v"
    "Tls_insecure_set True \<notin> set t"
    using assms(1) [unfolded checked_before_connect_def, rule_format, OF teq] by simp_all
  with assms(3) show "Tls_verify_hostname_set h \<in> set pre \<and> Tls_opts_set True \<in> set pre \<and>
      (\<exists>ca. Tls_set (Some ca) None \<in> set pre) \<and> Tls_insecure_set True \<notin> set (u @ t)"
    unfolding v by auto
qed

lemma lan_config_simps:
  "cc_use_tls (lan_config s p ls) = ls_use_ssl ls" "cc_tls_verify_hostname (lan_config s p ls) = ls_dev_id ls"
  "cc_tls_insecure (lan_config s p ls) = (\<not> verify_enabled s p)" "cc_tls_skip_chain_verify (lan_config s p ls) = False"
  "cc_ca_file (lan_config s p ls) = ls_ca_file ls"
  by (simp_all add: lan_config_def default_connect_config_def)

text \<open>C18: no silent downgrade. When a LAN session is started over TLS while certificate
  checking is on, the network connection is opened only after the library has accepted the
  printer's serial as the name to verify, a CA file, and peer verification, and nothing
  switches the checks off; without a CA file or a serial the start fails and opens nothing.\<close>

theorem lan_start_verified:
  assumes "lan_start e s ls w = (r, ls', w')" and "ls_client ls = None"
    and "ls_use_ssl ls" and "verify_enabled s (wo_proc w)"
  shows "\<exists>t. wo_calls w' = wo_calls w @ t \<and> checked_before_connect (ls_dev_id ls) t \<and>
    (ls_ca_file ls = [] \<or> ls_dev_id ls = [] \<longrightarrow> r = net_err_connect_failed \<and> list_all (\<lambda>c. \<not> is_connect_call c) t)"
proof -
  obtain c refs t0 where n: "new_client (se_created e) (se_client_id e) (wo_refs w) = (c, refs, t0)" by (metis surj_pair)
  have t0: "\<forall>c \<in> set t0. \<not> is_connect_call c" "Tls_insecure_set True \<notin> set t0"
    using new_client_calls [OF n] by (auto simp: is_connect_call_def)
  then have none: "checked_before_connect (ls_dev_id ls) t0"
    by (auto simp: checked_before_connect_def is_connect_call_def)
  show ?thesis
  proof (cases "c = None \<or> ls_ca_file ls = [] \<or> ls_dev_id ls = []")
    case True
    then have "r = net_err_connect_failed \<and> wo_calls w' = wo_calls w @ t0"
      using assms n by (cases c) (auto simp: lan_start_def drop_client_def Let_def)
    with none t0 show ?thesis by (auto simp: list_all_iff)
  next
    case False
    then obtain mc where mc: "c = Some mc" by (cases c) auto
    let ?cfg = "lan_config s (wo_proc w) ls"
    obtain r1 mc' p' t where m: "mqtt_connect (se_rc e) s (se_bundle e) (se_bundle_ok e) ?cfg mc (wo_proc w) = (r1, mc', p', t)"
      by (metis surj_pair)
    have "checked_before_connect (cc_tls_verify_hostname ?cfg) t"
      by (rule mqtt_connect_checked [OF m])
        (use assms False in \<open>simp_all add: lan_config_simps lan_hostname_verify_def skip_verify_def\<close>)
    then have "checked_before_connect (ls_dev_id ls) (t0 @ t)"
      using checked_prepend [OF _ t0] by (simp add: lan_config_simps)
    moreover have "wo_calls w' = wo_calls w @ t0 @ t"
      using assms n mc m False by (auto simp: lan_start_def drop_client_def Let_def)
    ultimately show ?thesis using False by auto
  qed
qed

definition quiet_process :: process where
  "quiet_process = \<lparr>pr_env = [], pr_hydrated = True, pr_disk = [], pr_config_dir = [], pr_ca_file = [], pr_serials = [], pr_peers = []\<rparr>"

definition quiet_world :: world where
  "quiet_world = \<lparr>wo_proc = quiet_process, wo_refs = 0, wo_calls = []\<rparr>"

definition quiet_env :: start_env where
  "quiet_env = \<lparr>se_created = True, se_client_id = ''c'', se_rc = (\<lambda>_. 0), se_bundle = [], se_bundle_ok = True\<rparr>"

definition sample_lan :: lan_session where
  "sample_lan = new_lan_session ''S1'' ''10.0.0.2'' ''bblp'' ''code'' True ''printer.cer''"

lemma quiet_verify: "verify_enabled default_settings quiet_process"
  by (simp add: verify_enabled_def skip_verify_from_env_def env_var_get_def env_var_get_os_def quiet_process_def
      default_settings_def env_skip_verify_def is_lan_tls_ipc_key_def starts_with_def c_str_def)

theorem lan_start_verified_witness:
  "\<exists>t. wo_calls (snd (snd (lan_start quiet_env default_settings sample_lan quiet_world))) = t \<and> checked_before_connect ''S1'' t"
  using lan_start_verified [of quiet_env default_settings sample_lan quiet_world
      "fst (lan_start quiet_env default_settings sample_lan quiet_world)"
      "fst (snd (lan_start quiet_env default_settings sample_lan quiet_world))"
      "snd (snd (lan_start quiet_env default_settings sample_lan quiet_world))"] quiet_verify
  by (auto simp: sample_lan_def new_lan_session_def quiet_world_def)

end
