(* ===== verification/Oset.thy ===== *)
theory Oset
  imports Prelude
begin

text \<open>
  \<open>std::set<K>\<close> as an ordered map to the unit type: iteration order is the order of the keys.
  The interface locale gives the laws of a finite set under an abstraction function; the facts
  about inserting and erasing many elements are proved once inside it.
\<close>

type_synonym 'k oset = "('k, unit) omap"

definition oset_insert :: "'k::linorder \<Rightarrow> 'k oset \<Rightarrow> 'k oset" where
  "oset_insert k s = om_put k () s"

definition oset_erase :: "'k \<Rightarrow> 'k oset \<Rightarrow> 'k oset" where
  "oset_erase k s = om_del k s"

definition oset_mem :: "'k \<Rightarrow> 'k oset \<Rightarrow> bool" where
  "oset_mem k s = (om_get s k \<noteq> None)"

definition oset_list :: "'k oset \<Rightarrow> 'k list" where
  "oset_list s = map fst s"

definition oset_abs :: "'k oset \<Rightarrow> 'k set" where
  "oset_abs s = fst ` set s"

locale set_store =
  fixes insert_op :: "'k \<Rightarrow> 's \<Rightarrow> 's"
    and erase_op :: "'k \<Rightarrow> 's \<Rightarrow> 's"
    and mem_op :: "'k \<Rightarrow> 's \<Rightarrow> bool"
    and elems :: "'s \<Rightarrow> 'k list"
    and abs_set :: "'s \<Rightarrow> 'k set"
    and ok :: "'s \<Rightarrow> bool"
  assumes ok_insert: "ok s \<Longrightarrow> ok (insert_op k s)"
    and ok_erase: "ok s \<Longrightarrow> ok (erase_op k s)"
    and abs_insert: "ok s \<Longrightarrow> abs_set (insert_op k s) = insert k (abs_set s)"
    and abs_erase: "ok s \<Longrightarrow> abs_set (erase_op k s) = abs_set s - {k}"
    and mem_abs: "ok s \<Longrightarrow> mem_op k s \<longleftrightarrow> k \<in> abs_set s"
    and set_elems: "ok s \<Longrightarrow> set (elems s) = abs_set s"
begin

lemma inserts: "ok s \<Longrightarrow> ok (fold insert_op ks s) \<and> abs_set (fold insert_op ks s) = set ks \<union> abs_set s"
  by (induction ks arbitrary: s) (auto simp: ok_insert abs_insert)

lemma erases: "ok s \<Longrightarrow> ok (fold erase_op ks s) \<and> abs_set (fold erase_op ks s) = abs_set s - set ks"
  by (induction ks arbitrary: s) (auto simp: ok_erase abs_erase)

lemma missing: "ok s \<Longrightarrow> ok t \<Longrightarrow> set (filter (\<lambda>k. \<not> mem_op k t) (elems s)) = abs_set s - abs_set t"
  by (auto simp: mem_abs set_elems)

end

lemma om_get_None_iff: "om_get s k = None \<longleftrightarrow> k \<notin> fst ` set s"
  by (simp add: om_get_def map_of_eq_None_iff)

lemma keys_om_del: "fst ` set (om_del k m) = fst ` set m - {k}"
  by (auto simp: om_del_def)

interpretation oset: set_store oset_insert oset_erase oset_mem oset_list oset_abs om_ok
  by unfold_locales
    (auto simp: oset_insert_def oset_erase_def oset_mem_def oset_list_def oset_abs_def om_get_None_iff keys_om_del)

end
