(* ===== verification/Cloud_Session.thy ===== *)
theory Cloud_Session
  imports Lan_Session Oset
begin

text \<open>
  The cloud MQTT session of \<open>src/cloud_session.cpp\<close>: configuration, starting and stopping,
  the wanted and the active subscriptions, publishing and the callbacks of the client.

  The last sections run the session: a system is the session with its world, the program
  counter of the network thread inside \<open>on_connect\<close> (the flag is stored before the lock is
  taken, so calls of other threads can come between), and the subscriptions the broker holds
  for the current connection. The abstract machine has only the wanted devices.
\<close>

section \<open>The session\<close>

record cloud_session =
  cs_region :: bytes
  cs_user_id :: bytes
  cs_access_token :: bytes
  cs_ca_file :: bytes
  cs_subscribed :: "bytes oset"
  cs_active :: "bytes oset"
  cs_client :: "mqtt_client option"
  cs_connected :: bool
  cs_started :: bool

definition new_cloud_session :: cloud_session where
  "new_cloud_session = \<lparr>cs_region = [], cs_user_id = [], cs_access_token = [], cs_ca_file = [], cs_subscribed = [],
     cs_active = [], cs_client = None, cs_connected = False, cs_started = False\<rparr>"

text \<open>What the session reports through its three callbacks.\<close>

datatype cloud_report =
    Cloud_connected int int bytes
  | Cloud_message bytes bytes
  | Cloud_subscribe_failed bytes

definition cloud_configure :: "bytes \<Rightarrow> bytes \<Rightarrow> bytes \<Rightarrow> bytes \<Rightarrow> cloud_session \<Rightarrow> cloud_session" where
  "cloud_configure region user_id token ca_file cs =
     cs\<lparr>cs_region := region, cs_user_id := user_id, cs_access_token := token, cs_ca_file := ca_file\<rparr>"

text \<open>Status and reason.\<close>

definition map_connack_to_status :: "int \<Rightarrow> int \<times> int" where
  "map_connack_to_status rc = (if rc = 0 then 0 else if rc = 5 then 5 else - 1, rc)"

definition cloud_config :: "settings \<Rightarrow> cloud_session \<Rightarrow> connect_config" where
  "cloud_config s cs = default_connect_config\<lparr>
     cc_host := cloud_mqtt_host_for s (cs_region cs),
     cc_port := set_cloud_mqtt_port s,
     cc_username := ''u_'' @ cs_user_id cs,
     cc_password := cs_access_token cs,
     cc_use_tls := True,
     cc_tls_insecure := False,
     cc_ca_file := cs_ca_file cs,
     cc_keepalive_s := 60\<rparr>"

definition cloud_start :: "start_env \<Rightarrow> settings \<Rightarrow> cloud_session \<Rightarrow> world \<Rightarrow> int \<times> cloud_session \<times> world" where
  "cloud_start e s cs w =
     (if cs_started cs then (net_success, cs, w)
      else if cs_user_id cs = [] \<or> cs_access_token cs = [] then (net_err_invalid_handle, cs, w)
      else
        let (c, refs, t0) = new_client (se_created e) (se_client_id e) (wo_refs w);
            w0 = log_calls t0 (w\<lparr>wo_refs := refs\<rparr>) in
        case c of
          None \<Rightarrow> (net_err_connect_failed, cs, w0)
        | Some mc \<Rightarrow>
            (let wd = drop_client (cs_client cs) w0;
                 (r, mc', p', t) = mqtt_connect (se_rc e) s (se_bundle e) (se_bundle_ok e) (cloud_config s cs) mc (wo_proc wd);
                 w1 = log_calls t (wd\<lparr>wo_proc := p'\<rparr>);
                 cs1 = cs\<lparr>cs_client := Some mc'\<rparr> in
             if r \<noteq> mosq_err_success then (net_err_connect_failed, cs1, w1)
             else (net_success, cs1\<lparr>cs_started := True\<rparr>, w1)))"

definition cloud_stop :: "cloud_session \<Rightarrow> world \<Rightarrow> cloud_session \<times> world" where
  "cloud_stop cs w =
     (if \<not> cs_started cs then (cs, w)
      else
        let w' = (case cs_client cs of
                    None \<Rightarrow> w
                  | Some mc \<Rightarrow>
                      (let (mc1, p1, t1) = mqtt_disconnect mc (wo_proc w);
                           (p2, refs, t2) = destroy_client mc1 p1 (wo_refs w) in
                       log_calls (t1 @ t2) (w\<lparr>wo_proc := p2, wo_refs := refs\<rparr>))) in
        (cs\<lparr>cs_started := False, cs_client := None, cs_connected := False, cs_active := []\<rparr>, w'))"

section \<open>Subscriptions\<close>

definition sub_call :: "bytes \<Rightarrow> mqtt_call" where
  "sub_call d = Subscribe_call (report_topic d) 0"

definition unsub_call :: "bytes \<Rightarrow> mqtt_call" where
  "unsub_call d = Unsubscribe_call (report_topic d)"

definition apply_subscriptions_locked ::
  "(mqtt_call \<Rightarrow> int) \<Rightarrow> cloud_session \<Rightarrow> cloud_session \<times> mqtt_call list \<times> cloud_report list" where
  "apply_subscriptions_locked rc cs =
     (if cs_client cs = None then (cs, [], [])
      else
        let to_sub = filter (\<lambda>d. \<not> oset_mem d (cs_active cs)) (oset_list (cs_subscribed cs));
            good = filter (\<lambda>d. rc (sub_call d) = mosq_err_success) to_sub;
            failed = filter (\<lambda>d. rc (sub_call d) \<noteq> mosq_err_success) to_sub in
        (cs\<lparr>cs_active := fold oset_insert good (cs_active cs)\<rparr>, map sub_call to_sub, map Cloud_subscribe_failed failed))"

definition cloud_add_subscribe ::
  "(mqtt_call \<Rightarrow> int) \<Rightarrow> bytes list \<Rightarrow> cloud_session \<Rightarrow> cloud_session \<times> mqtt_call list \<times> cloud_report list" where
  "cloud_add_subscribe rc dev_ids cs =
     (let cs1 = cs\<lparr>cs_subscribed := fold oset_insert (filter (\<lambda>d. d \<noteq> []) dev_ids) (cs_subscribed cs)\<rparr> in
      if cs_connected cs1 then apply_subscriptions_locked rc cs1 else (cs1, [], []))"

definition del_one :: "bytes \<Rightarrow> cloud_session \<times> mqtt_call list \<Rightarrow> cloud_session \<times> mqtt_call list" where
  "del_one d st =
     (let (cs, calls) = st;
          cs1 = cs\<lparr>cs_subscribed := oset_erase d (cs_subscribed cs), cs_active := oset_erase d (cs_active cs)\<rparr> in
      (cs1, if oset_mem d (cs_active cs) \<and> cs_client cs \<noteq> None then calls @ [unsub_call d] else calls))"

definition cloud_del_subscribe :: "bytes list \<Rightarrow> cloud_session \<Rightarrow> cloud_session \<times> mqtt_call list" where
  "cloud_del_subscribe dev_ids cs = fold del_one dev_ids (cs, [])"

definition cloud_publish :: "(mqtt_call \<Rightarrow> int) \<Rightarrow> bytes \<Rightarrow> bytes \<Rightarrow> int \<Rightarrow> cloud_session \<Rightarrow> int \<times> mqtt_call list" where
  "cloud_publish rc dev_id json_str qos cs =
     (if cs_client cs = None \<or> \<not> cs_connected cs then (net_err_send_msg_failed, [])
      else let (r, t) = mqtt_publish rc (request_topic dev_id) json_str qos False in
        (if r = mosq_err_success then net_success else net_err_send_msg_failed, t))"

section \<open>Callbacks\<close>

text \<open>\<open>on_connect\<close> in two steps: the flag, then under the lock the subscriptions and the report.\<close>

definition cloud_connack_flag :: "int \<Rightarrow> cloud_session \<Rightarrow> cloud_session" where
  "cloud_connack_flag r cs = cs\<lparr>cs_connected := (r = 0)\<rparr>"

definition cloud_connack_rest ::
  "(mqtt_call \<Rightarrow> int) \<Rightarrow> (int \<Rightarrow> bytes) \<Rightarrow> int \<Rightarrow> cloud_session \<Rightarrow> cloud_session \<times> mqtt_call list \<times> cloud_report list" where
  "cloud_connack_rest rc err_str r cs =
     (let (status, reason) = map_connack_to_status r;
          (cs', calls, reports) =
            (if r = 0 then apply_subscriptions_locked rc (cs\<lparr>cs_active := []\<rparr>) else (cs, [], [])) in
      (cs', calls, reports @
        [Cloud_connected status reason (if r = 0 then ''ok'' else ''mqtt CONNACK rc='' @ err_str r)]))"

definition cloud_on_disconnect :: "(int \<Rightarrow> bytes) \<Rightarrow> int \<Rightarrow> cloud_session \<Rightarrow> cloud_session \<times> cloud_report list" where
  "cloud_on_disconnect err_str r cs =
     (cs\<lparr>cs_connected := False, cs_active := []\<rparr>,
      [Cloud_connected (- 1) r (''cloud mqtt disconnect rc='' @ err_str r)])"

definition dev_of_topic :: "bytes \<Rightarrow> bytes option" where
  "dev_of_topic topic =
     (if length topic > length ''device/'' + length ''/report'' \<and> starts_with ''device/'' topic \<and> ends_with ''/report'' topic
      then Some (substr topic (length ''device/'') (length topic - length ''device/'' - length ''/report''))
      else None)"

definition cloud_on_message :: "bytes \<Rightarrow> bytes \<Rightarrow> cloud_report list" where
  "cloud_on_message topic payload =
     (case dev_of_topic topic of None \<Rightarrow> [] | Some d \<Rightarrow> [Cloud_message d payload])"

section \<open>The running system\<close>

record cloud_system =
  sy_session :: cloud_session
  sy_world :: world
  sy_connecting :: bool
  sy_broker :: "bytes set"

definition cloud_idle :: "world \<Rightarrow> cloud_system" where
  "cloud_idle w = \<lparr>sy_session = new_cloud_session, sy_world = w, sy_connecting = False, sy_broker = {}\<rparr>"

text \<open>What accepted calls do to the subscriptions at the broker.\<close>

fun broker_call :: "(mqtt_call \<Rightarrow> int) \<Rightarrow> mqtt_call \<Rightarrow> bytes set \<Rightarrow> bytes set" where
  "broker_call rc (Subscribe_call t q) B = (if rc (Subscribe_call t q) = mosq_err_success then insert t B else B)"
| "broker_call rc (Unsubscribe_call t) B = (if rc (Unsubscribe_call t) = mosq_err_success then B - {t} else B)"
| "broker_call rc c B = B"

definition cloud_calls ::
  "(mqtt_call \<Rightarrow> int) \<Rightarrow> mqtt_call list \<Rightarrow> cloud_session \<Rightarrow> cloud_system \<Rightarrow> cloud_system" where
  "cloud_calls rc calls cs y =
     y\<lparr>sy_session := cs, sy_world := log_calls calls (sy_world y), sy_broker := fold (broker_call rc) calls (sy_broker y)\<rparr>"

datatype cloud_ev =
    Ev_configure bytes bytes bytes bytes
  | Ev_start start_env
  | Ev_connack int
  | Ev_connack_rest "mqtt_call \<Rightarrow> int"
  | Ev_lost int
  | Ev_add "mqtt_call \<Rightarrow> int" "bytes list"
  | Ev_del "mqtt_call \<Rightarrow> int" "bytes list"
  | Ev_stop

text \<open>
  The steps. The library calls \<open>on_connect\<close> once per connection it makes, so only on a started
  session that is not connected; \<open>stop\<close> waits for the network thread, so it does not happen
  inside \<open>on_connect\<close>.
\<close>

inductive cloud_step :: "settings \<Rightarrow> cloud_system \<Rightarrow> cloud_ev \<Rightarrow> cloud_system \<Rightarrow> bool" for s where
  Configure: "cloud_step s y (Ev_configure r u t c) (y\<lparr>sy_session := cloud_configure r u t c (sy_session y)\<rparr>)"
| Start: "cloud_start e s (sy_session y) (sy_world y) = (code, cs, w) \<Longrightarrow>
    cloud_step s y (Ev_start e) (y\<lparr>sy_session := cs, sy_world := w\<rparr>)"
| Connack: "cs_started (sy_session y) \<Longrightarrow> \<not> cs_connected (sy_session y) \<Longrightarrow> \<not> sy_connecting y \<Longrightarrow>
    cloud_step s y (Ev_connack r)
      (y\<lparr>sy_session := cloud_connack_flag r (sy_session y), sy_connecting := (r = 0), sy_broker := {}\<rparr>)"
| Connack_rest: "sy_connecting y \<Longrightarrow> cloud_connack_rest rc err_str 0 (sy_session y) = (cs, calls, reports) \<Longrightarrow>
    cloud_step s y (Ev_connack_rest rc) ((cloud_calls rc calls cs y)\<lparr>sy_connecting := False\<rparr>)"
| Lost: "cs_started (sy_session y) \<Longrightarrow> \<not> sy_connecting y \<Longrightarrow>
    cloud_step s y (Ev_lost r) (y\<lparr>sy_session := fst (cloud_on_disconnect err_str r (sy_session y)), sy_broker := {}\<rparr>)"
| Add: "cloud_add_subscribe rc ids (sy_session y) = (cs, calls, reports) \<Longrightarrow>
    cloud_step s y (Ev_add rc ids) (cloud_calls rc calls cs y)"
| Del: "cloud_del_subscribe ids (sy_session y) = (cs, calls) \<Longrightarrow>
    cloud_step s y (Ev_del rc ids) (cloud_calls rc calls cs y)"
| Stop: "\<not> sy_connecting y \<Longrightarrow> cloud_stop (sy_session y) (sy_world y) = (cs, w) \<Longrightarrow>
    cloud_step s y Ev_stop (y\<lparr>sy_session := cs, sy_world := w, sy_broker := (if cs_started (sy_session y) then {} else sy_broker y)\<rparr>)"

inductive cloud_run :: "settings \<Rightarrow> cloud_system \<Rightarrow> cloud_ev list \<Rightarrow> cloud_system \<Rightarrow> bool" for s where
  Done: "cloud_run s y [] y"
| Next: "cloud_step s y ev y' \<Longrightarrow> cloud_run s y' evs y'' \<Longrightarrow> cloud_run s y (ev # evs) y''"

inductive_cases cloud_stepE [elim!]: "cloud_step s y ev y'"
inductive_simps cloud_run_simps: "cloud_run s y [] y'" "cloud_run s y (ev # evs) y'"

section \<open>Laws\<close>

lemma report_topic_inj [simp]: "report_topic d = report_topic d' \<longleftrightarrow> d = d'"
  by (simp add: report_topic_def)

lemma inj_report_topic: "inj_on report_topic A"
  by (simp add: inj_on_def)

lemma dev_of_topic_Some: "dev_of_topic t = Some d \<longleftrightarrow> d \<noteq> [] \<and> t = report_topic d"
proof
  assume "dev_of_topic t = Some d"
  then have len: "length t > 14" and pre: "starts_with ''device/'' t" and suf: "ends_with ''/report'' t"
    and d: "d = take (length t - 14) (drop 7 t)"
    by (auto simp: dev_of_topic_def substr_def eval_nat_numeral split: if_splits)
  obtain u where u: "t = ''device/'' @ u" using pre by (auto simp: starts_with_iff)
  obtain v where v: "t = v @ ''/report''" using suf by (auto simp: ends_with_iff)
  have lv: "length v > 7" using len v by simp
  have "take 7 t = take 7 v" using v lv by simp
  then have "take 7 v = ''device/''" using u by simp
  then obtain w where w: "v = ''device/'' @ w" by (metis append_take_drop_id)
  then have "t = report_topic w" using v by (simp add: report_topic_def)
  moreover have "w \<noteq> []" using w lv by auto
  ultimately show "d \<noteq> [] \<and> t = report_topic d" using d by (simp add: report_topic_def)
next
  assume "d \<noteq> [] \<and> t = report_topic d"
  then show "dev_of_topic t = Some d"
    using ends_with_append [of "''/report''" "''device/'' @ d"]
    by (simp add: dev_of_topic_def report_topic_def substr_def starts_with_def)
qed

subsection \<open>Calls at the broker\<close>

lemma broker_subs:
  "fold (broker_call rc) (map sub_call ds) B =
     report_topic ` set (filter (\<lambda>d. rc (sub_call d) = mosq_err_success) ds) \<union> B"
  by (induction ds arbitrary: B) (auto simp: sub_call_def)

text \<open>The sets behind a session.\<close>

abbreviation wanted_set :: "cloud_session \<Rightarrow> bytes set" where
  "wanted_set cs \<equiv> oset_abs (cs_subscribed cs)"

abbreviation active_set :: "cloud_session \<Rightarrow> bytes set" where
  "active_set cs \<equiv> oset_abs (cs_active cs)"

definition sets_ok :: "cloud_session \<Rightarrow> bool" where
  "sets_ok cs = (om_ok (cs_subscribed cs) \<and> om_ok (cs_active cs) \<and> active_set cs \<subseteq> wanted_set cs)"

lemma oset_abs_Nil [simp]: "oset_abs [] = {}"
  by (simp add: oset_abs_def)

lemma apply_facts:
  assumes "apply_subscriptions_locked rc cs = (cs', calls, reports)" and "sets_ok cs" and "cs_client cs \<noteq> None"
  shows "sets_ok cs' \<and> cs_subscribed cs' = cs_subscribed cs \<and> cs_client cs' = cs_client cs \<and>
    cs_connected cs' = cs_connected cs \<and> cs_started cs' = cs_started cs \<and>
    (let good = {d \<in> wanted_set cs - active_set cs. rc (sub_call d) = mosq_err_success} in
     active_set cs' = good \<union> active_set cs \<and>
     (\<forall>B. fold (broker_call rc) calls B = report_topic ` good \<union> B))"
proof -
  define to_sub where "to_sub = filter (\<lambda>d. \<not> oset_mem d (cs_active cs)) (oset_list (cs_subscribed cs))"
  have cs': "cs' = cs\<lparr>cs_active := fold oset_insert (filter (\<lambda>d. rc (sub_call d) = mosq_err_success) to_sub) (cs_active cs)\<rparr>"
    and calls: "calls = map sub_call to_sub"
    using assms(1,3) by (auto simp: apply_subscriptions_locked_def to_sub_def Let_def)
  have ts: "set to_sub = wanted_set cs - active_set cs"
    using oset.missing [of "cs_subscribed cs" "cs_active cs"] assms(2)
    by (simp add: sets_ok_def to_sub_def del: set_filter)
  show ?thesis
    using assms(2) oset.inserts [of "cs_active cs"] ts
    by (auto simp: cs' calls sets_ok_def broker_subs Let_def)
qed

lemma add_facts:
  assumes "cloud_add_subscribe rc ids cs = (cs', calls, reports)" and "sets_ok cs"
    and "cs_connected cs \<Longrightarrow> cs_client cs \<noteq> None"
  shows "sets_ok cs' \<and> wanted_set cs' = (set ids - {[]}) \<union> wanted_set cs \<and> cs_client cs' = cs_client cs \<and>
    cs_connected cs' = cs_connected cs \<and> cs_started cs' = cs_started cs \<and>
    (let good = {d \<in> wanted_set cs' - active_set cs. rc (sub_call d) = mosq_err_success} in
     if cs_connected cs
     then active_set cs' = good \<union> active_set cs \<and> (\<forall>B. fold (broker_call rc) calls B = report_topic ` good \<union> B)
     else cs_active cs' = cs_active cs \<and> calls = [])"
proof -
  define cs1 where "cs1 = cs\<lparr>cs_subscribed := fold oset_insert (filter (\<lambda>d. d \<noteq> []) ids) (cs_subscribed cs)\<rparr>"
  have 1: "sets_ok cs1" "wanted_set cs1 = (set ids - {[]}) \<union> wanted_set cs"
    using assms(2) oset.inserts [of "cs_subscribed cs" "filter (\<lambda>d. d \<noteq> []) ids"] by (auto simp: cs1_def sets_ok_def)
  show ?thesis
  proof (cases "cs_connected cs")
    case True
    then have "apply_subscriptions_locked rc cs1 = (cs', calls, reports)" "cs_client cs1 \<noteq> None"
      using assms(1,3) by (simp_all add: cloud_add_subscribe_def cs1_def)
    from apply_facts [OF this(1) 1(1) this(2)] True 1 show ?thesis
      by (simp add: Let_def) (simp add: cs1_def)
  next
    case False
    then have "cs' = cs1" "calls = []" using assms(1) by (simp_all add: cloud_add_subscribe_def cs1_def)
    with False 1 show ?thesis by (simp add: cs1_def)
  qed
qed

lemma del_facts_gen:
  assumes "sets_ok cs"
  shows "fold del_one ids (cs, calls) = (cs', calls') \<Longrightarrow>
    sets_ok cs' \<and> wanted_set cs' = wanted_set cs - set ids \<and> active_set cs' = active_set cs - set ids \<and>
    cs_client cs' = cs_client cs \<and> cs_connected cs' = cs_connected cs \<and> cs_started cs' = cs_started cs \<and>
    (\<exists>ds. calls' = calls @ map unsub_call ds \<and> set ds \<subseteq> set ids \<and>
       (cs_client cs \<noteq> None \<longrightarrow> set ds = set ids \<inter> active_set cs))"
  using assms
proof (induction ids arbitrary: cs calls)
  case Nil
  then show ?case by (auto simp: sets_ok_def)
next
  case (Cons d ids)
  define cs1 where "cs1 = cs\<lparr>cs_subscribed := oset_erase d (cs_subscribed cs), cs_active := oset_erase d (cs_active cs)\<rparr>"
  define c1 where "c1 = (if oset_mem d (cs_active cs) \<and> cs_client cs \<noteq> None then [unsub_call d] else [])"
  have one: "del_one d (cs, calls) = (cs1, calls @ c1)" by (simp add: del_one_def cs1_def c1_def)
  have ok1: "sets_ok cs1" "wanted_set cs1 = wanted_set cs - {d}" "active_set cs1 = active_set cs - {d}"
    using Cons.prems(2) by (auto simp: cs1_def sets_ok_def oset.ok_erase oset.abs_erase)
  have same: "cs_client cs1 = cs_client cs" "cs_connected cs1 = cs_connected cs" "cs_started cs1 = cs_started cs"
    by (simp_all add: cs1_def)
  have "fold del_one ids (cs1, calls @ c1) = (cs', calls')" using Cons.prems(1) one by simp
  from Cons.IH [OF this ok1(1)] obtain ds where ih:
    "sets_ok cs'" "wanted_set cs' = wanted_set cs1 - set ids" "active_set cs' = active_set cs1 - set ids"
    "cs_client cs' = cs_client cs" "cs_connected cs' = cs_connected cs" "cs_started cs' = cs_started cs"
    "calls' = (calls @ c1) @ map unsub_call ds" "set ds \<subseteq> set ids" "cs_client cs \<noteq> None \<longrightarrow> set ds = set ids \<inter> active_set cs1"
    using same by auto
  have mem: "oset_mem d (cs_active cs) \<longleftrightarrow> d \<in> active_set cs"
    using Cons.prems(2) by (simp add: sets_ok_def oset.mem_abs)
  have "\<exists>ds'. calls' = calls @ map unsub_call ds' \<and> set ds' \<subseteq> set (d # ids) \<and>
      (cs_client cs \<noteq> None \<longrightarrow> set ds' = set (d # ids) \<inter> active_set cs)"
    using ih(7-9) ok1(3) mem
    by (intro exI [of _ "(if c1 = [] then [] else [d]) @ ds"]) (auto simp: c1_def)
  with ih(1-6) ok1(2,3) show ?case by auto
qed

lemma broker_unsubs:
  "fold (broker_call rc) (map unsub_call ds) B =
     B - report_topic ` {d \<in> set ds. rc (unsub_call d) = mosq_err_success}"
  by (induction ds arbitrary: B) (auto simp: unsub_call_def)

lemmas del_facts = del_facts_gen [of _ _ "[]", simplified, folded cloud_del_subscribe_def]

section \<open>What the session believes\<close>

text \<open>The invariant of the running system: the session thinks active only what is wanted and
  what the broker holds; with no connection it thinks nothing active.\<close>

definition system_ok :: "cloud_system \<Rightarrow> bool" where
  "system_ok y =
     (let cs = sy_session y in
      sets_ok cs \<and>
      (cs_connected cs \<longrightarrow> cs_client cs \<noteq> None \<and> cs_started cs) \<and>
      (\<not> cs_connected cs \<longrightarrow> active_set cs = {}) \<and>
      (cs_started cs \<longrightarrow> cs_client cs \<noteq> None) \<and>
      (sy_connecting y \<longrightarrow> cs_connected cs) \<and>
      report_topic ` active_set cs \<subseteq> sy_broker y)"

text \<open>With a broker that accepts every call: it holds exactly what the session thinks active,
  which is all that is wanted as soon as \<open>on_connect\<close> is through.\<close>

definition in_sync :: "cloud_system \<Rightarrow> bool" where
  "in_sync y =
     (let cs = sy_session y in
      sy_broker y = report_topic ` active_set cs \<and>
      (cs_connected cs \<and> \<not> sy_connecting y \<longrightarrow> active_set cs = wanted_set cs))"

fun accepting :: "cloud_ev \<Rightarrow> bool" where
  "accepting (Ev_connack_rest rc) = (\<forall>c. rc c = mosq_err_success)"
| "accepting (Ev_add rc ids) = (\<forall>c. rc c = mosq_err_success)"
| "accepting (Ev_del rc ids) = (\<forall>c. rc c = mosq_err_success)"
| "accepting _ = True"

text \<open>The abstract machine: the devices asked for.\<close>

fun wants :: "cloud_ev \<Rightarrow> bytes set \<Rightarrow> bytes set" where
  "wants (Ev_add rc ids) W = (set ids - {[]}) \<union> W"
| "wants (Ev_del rc ids) W = W - set ids"
| "wants _ W = W"

lemma start_session:
  assumes "cloud_start e s cs w = (code, cs', w')"
  shows "cs' = cs \<or> (\<not> cs_started cs \<and> (\<exists>mc st. cs' = cs\<lparr>cs_client := Some mc, cs_started := st\<rparr>))"
proof (cases "cs_started cs \<or> cs_user_id cs = [] \<or> cs_access_token cs = []")
  case True
  then show ?thesis using assms by (auto simp: cloud_start_def split: if_splits)
next
  case False
  obtain c refs t0 where n: "new_client (se_created e) (se_client_id e) (wo_refs w) = (c, refs, t0)" by (metis surj_pair)
  show ?thesis
  proof (cases c)
    case None
    with False n assms show ?thesis by (simp add: cloud_start_def)
  next
    case (Some mc)
    define wd where "wd = drop_client (cs_client cs) (log_calls t0 (w\<lparr>wo_refs := refs\<rparr>))"
    obtain r mc' p' t where m: "mqtt_connect (se_rc e) s (se_bundle e) (se_bundle_ok e) (cloud_config s cs) mc (wo_proc wd) = (r, mc', p', t)"
      by (metis surj_pair)
    have "cs\<lparr>cs_client := Some mc'\<rparr> = cs\<lparr>cs_client := Some mc', cs_started := cs_started cs\<rparr>" by simp
    moreover have "cs' = cs\<lparr>cs_client := Some mc'\<rparr> \<or> cs' = cs\<lparr>cs_client := Some mc', cs_started := True\<rparr>"
      using False n Some m assms by (auto simp: cloud_start_def wd_def [symmetric] Let_def split: if_splits)
    ultimately show ?thesis using False by metis
  qed
qed

lemma start_step:
  assumes "cloud_start e s (sy_session y) (sy_world y) = (code, cs', w')" and "system_ok y"
  shows "system_ok (y\<lparr>sy_session := cs', sy_world := w'\<rparr>) \<and> wanted_set cs' = wanted_set (sy_session y) \<and>
    (in_sync y \<longrightarrow> in_sync (y\<lparr>sy_session := cs', sy_world := w'\<rparr>))"
  using start_session [OF assms(1)] assms(2)
  by (auto simp: system_ok_def in_sync_def sets_ok_def Let_def)

lemma stop_step:
  assumes "cloud_stop (sy_session y) (sy_world y) = (cs', w')" and "system_ok y" and "\<not> sy_connecting y"
  shows "let y' = y\<lparr>sy_session := cs', sy_world := w', sy_broker := (if cs_started (sy_session y) then {} else sy_broker y)\<rparr>
    in system_ok y' \<and> wanted_set cs' = wanted_set (sy_session y) \<and> (in_sync y \<longrightarrow> in_sync y')"
  using assms by (auto simp: cloud_stop_def system_ok_def in_sync_def sets_ok_def Let_def split: if_splits)

lemma add_step:
  assumes "cloud_add_subscribe rc ids (sy_session y) = (cs', calls, reports)" and "system_ok y"
  shows "let y' = cloud_calls rc calls cs' y in
    system_ok y' \<and> wanted_set cs' = (set ids - {[]}) \<union> wanted_set (sy_session y) \<and>
    ((\<forall>c. rc c = mosq_err_success) \<and> in_sync y \<longrightarrow> in_sync y')"
proof -
  have "cs_connected (sy_session y) \<Longrightarrow> cs_client (sy_session y) \<noteq> None" "sets_ok (sy_session y)"
    using assms(2) by (auto simp: system_ok_def Let_def)
  note f = add_facts [OF assms(1) this(2,1)]
  show ?thesis
  proof (cases "cs_connected (sy_session y)")
    case True
    with f assms(2) show ?thesis
      by (auto simp: system_ok_def in_sync_def cloud_calls_def sets_ok_def Let_def)
  next
    case False
    with f assms(2) show ?thesis
      by (auto simp: system_ok_def in_sync_def cloud_calls_def sets_ok_def Let_def)
  qed
qed

lemma del_step:
  assumes "cloud_del_subscribe ids (sy_session y) = (cs', calls)" and "system_ok y"
  shows "let y' = cloud_calls rc calls cs' y in
    system_ok y' \<and> wanted_set cs' = wanted_set (sy_session y) - set ids \<and>
    ((\<forall>c. rc c = mosq_err_success) \<and> in_sync y \<longrightarrow> in_sync y')"
proof -
  have ok: "sets_ok (sy_session y)" using assms(2) by (simp add: system_ok_def Let_def)
  obtain ds where d: "sets_ok cs'" "wanted_set cs' = wanted_set (sy_session y) - set ids"
    "active_set cs' = active_set (sy_session y) - set ids" "cs_client cs' = cs_client (sy_session y)"
    "cs_connected cs' = cs_connected (sy_session y)" "cs_started cs' = cs_started (sy_session y)"
    "calls = map unsub_call ds" "set ds \<subseteq> set ids"
    "cs_client (sy_session y) \<noteq> None \<longrightarrow> set ds = set ids \<inter> active_set (sy_session y)"
    using del_facts [OF ok assms(1)] by blast
  have sub: "report_topic ` (active_set (sy_session y) - set ids) \<subseteq> fold (broker_call rc) calls (sy_broker y)"
    using assms(2) d(7,8) by (auto simp: broker_unsubs system_ok_def Let_def)
  show ?thesis
  proof (cases "cs_client (sy_session y) = None")
    case True
    then have "active_set (sy_session y) = {}" "\<not> cs_connected (sy_session y)"
      using assms(2) by (auto simp: system_ok_def Let_def)
    with True d sub assms(2) show ?thesis
      by (auto simp: system_ok_def in_sync_def cloud_calls_def broker_unsubs Let_def)
  next
    case False
    with d sub assms(2) show ?thesis
      by (auto simp: system_ok_def in_sync_def cloud_calls_def broker_unsubs Let_def)
  qed
qed

lemma connack_rest_step:
  assumes "cloud_connack_rest rc err_str 0 (sy_session y) = (cs', calls, reports)" and "system_ok y" and "sy_connecting y"
  shows "let y' = (cloud_calls rc calls cs' y)\<lparr>sy_connecting := False\<rparr> in
    system_ok y' \<and> wanted_set cs' = wanted_set (sy_session y) \<and>
    ((\<forall>c. rc c = mosq_err_success) \<and> in_sync y \<longrightarrow> in_sync y')"
proof -
  let ?c0 = "(sy_session y)\<lparr>cs_active := []\<rparr>"
  obtain reports' where a: "apply_subscriptions_locked rc ?c0 = (cs', calls, reports')"
    using assms(1) by (auto simp: cloud_connack_rest_def map_connack_to_status_def split: prod.splits)
  have "sets_ok ?c0" "cs_client ?c0 \<noteq> None"
    using assms(2,3) by (auto simp: system_ok_def sets_ok_def Let_def)
  from apply_facts [OF a this] assms(2,3) show ?thesis
    by (auto simp: system_ok_def in_sync_def cloud_calls_def Let_def sets_ok_def)
qed

lemma step_facts:
  assumes "cloud_step s y ev y'" and "system_ok y"
  shows "system_ok y' \<and> wanted_set (sy_session y') = wants ev (wanted_set (sy_session y)) \<and>
    (accepting ev \<and> in_sync y \<longrightarrow> in_sync y')"
  using assms(1)
proof cases
  case (Configure r u t c)
  with assms(2) show ?thesis by (simp add: system_ok_def in_sync_def sets_ok_def cloud_configure_def Let_def)
next
  case (Start e code cs w)
  with start_step [OF Start(3) assms(2)] show ?thesis by simp
next
  case (Connack r)
  with assms(2) show ?thesis
    by (auto simp: system_ok_def in_sync_def sets_ok_def cloud_connack_flag_def Let_def)
next
  case (Connack_rest rc err_str cs calls reports)
  with connack_rest_step [OF Connack_rest(4) assms(2)] show ?thesis by (simp add: Let_def cloud_calls_def)
next
  case (Lost err_str r)
  with assms(2) show ?thesis
    by (auto simp: system_ok_def in_sync_def sets_ok_def cloud_on_disconnect_def Let_def)
next
  case (Add rc ids cs calls reports)
  with add_step [OF Add(3) assms(2)] show ?thesis by (simp add: Let_def cloud_calls_def)
next
  case (Del ids cs calls rc)
  with del_step [OF Del(3) assms(2), of rc] show ?thesis by (simp add: Let_def cloud_calls_def)
next
  case (Stop cs w)
  with stop_step [OF Stop(4) assms(2)] show ?thesis by (simp add: Let_def)
qed

lemma run_facts:
  "cloud_run s y evs y' \<Longrightarrow> system_ok y \<Longrightarrow>
   system_ok y' \<and> wanted_set (sy_session y') = fold wants evs (wanted_set (sy_session y)) \<and>
   (list_all accepting evs \<and> in_sync y \<longrightarrow> in_sync y')"
proof (induction rule: cloud_run.induct)
  case (Done y)
  then show ?case by simp
next
  case (Next y ev y' evs y'')
  from step_facts [OF Next.hyps(1) Next.prems] Next.IH show ?case by auto
qed

lemma idle_ok: "system_ok (cloud_idle w)" "in_sync (cloud_idle w)"
  by (simp_all add: cloud_idle_def new_cloud_session_def system_ok_def in_sync_def sets_ok_def)

text \<open>C12: the broker holds what Studio asked for. Run the cloud session from its creation through
  any configuring, starting, stopping, connecting, losing the connection, subscribing and
  unsubscribing, in any order and with the calls of other threads coming in between the two
  halves of \<open>on_connect\<close>. If the broker accepts the calls, then whenever the session is
  connected and through with \<open>on_connect\<close> the broker holds exactly the report topics of the
  devices that were added and not removed since, and whenever it is not connected none.\<close>

theorem cloud_subscriptions_refine:
  assumes "cloud_run s (cloud_idle w) evs y" and "list_all accepting evs"
  shows "(cs_connected (sy_session y) \<and> \<not> sy_connecting y \<longrightarrow> sy_broker y = report_topic ` fold wants evs {}) \<and>
    (\<not> cs_connected (sy_session y) \<longrightarrow> sy_broker y = {})"
proof -
  have e: "wanted_set (sy_session (cloud_idle w)) = {}" by (simp add: cloud_idle_def new_cloud_session_def)
  show ?thesis
    using run_facts [OF assms(1) idle_ok(1)] idle_ok(2) [of w] assms(2) e
    by (auto simp: in_sync_def system_ok_def Let_def)
qed

text \<open>The session never overestimates. In every reachable state, whatever the broker answers,
  each device the session holds active is wanted and its topic is subscribed at the broker, and
  an unconnected session holds nothing active; so a device that is not active will be
  subscribed again.\<close>

theorem cloud_active_sound:
  assumes "cloud_run s (cloud_idle w) evs y" and "oset_mem d (cs_active (sy_session y))"
  shows "oset_mem d (cs_subscribed (sy_session y)) \<and> report_topic d \<in> sy_broker y \<and> cs_connected (sy_session y)"
  using run_facts [OF assms(1) idle_ok(1)] assms(2)
  by (auto simp: system_ok_def sets_ok_def oset.mem_abs Let_def)

text \<open>A run: configured, started, a device added, the connection made.\<close>

definition run_to :: "settings \<Rightarrow> cloud_ev list \<Rightarrow> (cloud_system \<Rightarrow> bool) \<Rightarrow> bool" where
  "run_to s evs P = (\<exists>y. cloud_run s (cloud_idle quiet_world) evs y \<and> P y)"

abbreviation accept_all :: "mqtt_call \<Rightarrow> int" where "accept_all \<equiv> \<lambda>_. 0"

definition sample_evs :: "cloud_ev list" where
  "sample_evs = [Ev_configure ''GLOBAL'' ''u'' ''t'' [], Ev_start quiet_env, Ev_add accept_all [''S1''],
     Ev_connack 0, Ev_connack_rest accept_all]"

lemma start_quiet:
  assumes "\<not> cs_started cs" "cs_user_id cs \<noteq> []" "cs_access_token cs \<noteq> []" "cs_client cs = None"
  shows "\<exists>mc w'. cloud_start quiet_env default_settings cs quiet_world =
    (net_success, cs\<lparr>cs_client := Some mc, cs_started := True\<rparr>, w')"
  using assms
  by (simp add: cloud_start_def quiet_env_def new_client_def global_init_def drop_client_def mqtt_connect_def
      cloud_config_def default_connect_config_def auth_calls_def mosq_err_success_def skip_verify_def lan_hostname_verify_def
      trust_anchors_def finish_connect_def start_calls_def Let_def) blast

lemma sample_run: "run_to default_settings sample_evs (\<lambda>y. cs_connected (sy_session y) \<and> \<not> sy_connecting y \<and>
  oset_mem ''S1'' (cs_active (sy_session y)))"
proof -
  let ?s = default_settings
  define y0 where "y0 = cloud_idle quiet_world"
  define y1 where "y1 = y0\<lparr>sy_session := cloud_configure ''GLOBAL'' ''u'' ''t'' [] (sy_session y0)\<rparr>"
  have 1: "cloud_step ?s y0 (Ev_configure ''GLOBAL'' ''u'' ''t'' []) y1" unfolding y1_def by (rule Configure)
  have c1: "\<not> cs_started (sy_session y1)" "cs_user_id (sy_session y1) \<noteq> []" "cs_access_token (sy_session y1) \<noteq> []"
    "cs_client (sy_session y1) = None" "cs_subscribed (sy_session y1) = []" "cs_active (sy_session y1) = []"
    "\<not> cs_connected (sy_session y1)" "sy_world y1 = quiet_world" "\<not> sy_connecting y1"
    by (simp_all add: y1_def y0_def cloud_idle_def new_cloud_session_def cloud_configure_def)
  obtain mc w where st: "cloud_start quiet_env ?s (sy_session y1) (sy_world y1) =
      (net_success, (sy_session y1)\<lparr>cs_client := Some mc, cs_started := True\<rparr>, w)"
    using start_quiet [OF c1(1-4)] c1(8) by auto
  define y2 where "y2 = y1\<lparr>sy_session := (sy_session y1)\<lparr>cs_client := Some mc, cs_started := True\<rparr>, sy_world := w\<rparr>"
  have 2: "cloud_step ?s y1 (Ev_start quiet_env) y2" unfolding y2_def by (rule Start [OF st])
  define cs3 where "cs3 = (sy_session y2)\<lparr>cs_subscribed := [(''S1'', ())]\<rparr>"
  have "cloud_add_subscribe accept_all [''S1''] (sy_session y2) = (cs3, [], [])"
    using c1 by (simp add: cloud_add_subscribe_def cs3_def y2_def oset_insert_def)
  note add = Add [OF this]
  define y3 where "y3 = cloud_calls accept_all [] cs3 y2"
  have 3: "cloud_step ?s y2 (Ev_add accept_all [''S1'']) y3" unfolding y3_def by (rule add)
  have c3: "cs_started (sy_session y3)" "\<not> cs_connected (sy_session y3)" "\<not> sy_connecting y3"
    using c1 by (simp_all add: y3_def y2_def cloud_calls_def cs3_def)
  define y4 where "y4 = y3\<lparr>sy_session := cloud_connack_flag 0 (sy_session y3), sy_connecting := ((0::int) = 0), sy_broker := {}\<rparr>"
  have 4: "cloud_step ?s y3 (Ev_connack 0) y4" unfolding y4_def by (rule Connack [OF c3])
  have "sy_connecting y4" by (simp add: y4_def)
  obtain cs calls reports where r: "cloud_connack_rest accept_all (\<lambda>_. []) 0 (sy_session y4) = (cs, calls, reports)" by (metis surj_pair)
  note rest = Connack_rest [OF \<open>sy_connecting y4\<close> r]
  define y5 where "y5 = (cloud_calls accept_all calls cs y4)\<lparr>sy_connecting := False\<rparr>"
  have 5: "cloud_step ?s y4 (Ev_connack_rest accept_all) y5" unfolding y5_def by (rule rest)
  have "cs_connected cs \<and> oset_mem ''S1'' (cs_active cs)"
    using r c1
    by (auto simp: cloud_connack_rest_def map_connack_to_status_def y4_def y3_def cloud_calls_def cs3_def y2_def cloud_connack_flag_def
        apply_subscriptions_locked_def oset_mem_def oset_list_def oset_insert_def om_get_def mosq_err_success_def split: prod.splits)
  moreover have "cloud_run ?s y0 sample_evs y5"
    unfolding sample_evs_def by (rule Next [OF 1] Next [OF 2] Next [OF 3] Next [OF 4] Next [OF 5] Done)+
  ultimately show ?thesis unfolding run_to_def y0_def by (intro exI [of _ y5]) (simp add: y5_def cloud_calls_def)
qed

theorem cloud_subscriptions_refine_witness:
  "run_to default_settings sample_evs (\<lambda>y. sy_broker y = {report_topic ''S1''})"
proof -
  obtain y where y: "cloud_run default_settings (cloud_idle quiet_world) sample_evs y" "cs_connected (sy_session y)" "\<not> sy_connecting y"
    using sample_run by (auto simp: run_to_def)
  have "list_all accepting sample_evs" by (simp add: sample_evs_def mosq_err_success_def)
  from cloud_subscriptions_refine [OF y(1) this] y(2,3) have "sy_broker y = {report_topic ''S1''}"
    by (simp add: sample_evs_def)
  with y(1) show ?thesis by (auto simp: run_to_def)
qed

theorem cloud_active_sound_witness:
  "run_to default_settings sample_evs (\<lambda>y. report_topic ''S1'' \<in> sy_broker y)"
proof -
  obtain y where y: "cloud_run default_settings (cloud_idle quiet_world) sample_evs y" "oset_mem ''S1'' (cs_active (sy_session y))"
    using sample_run by (auto simp: run_to_def)
  from cloud_active_sound [OF y] y(1) show ?thesis by (auto simp: run_to_def)
qed

end
