(* ===== verification/Cover_Cache.thy ===== *)
theory Cover_Cache
  imports Tunnel_Connection Print_Ids Lan_Tls Auth_Store Oset
begin

text \<open>
  The cache of print cover images, \<open>src/cover_cache.cpp\<close>: the file a cover is stored under, the
  worker that fetches it over the tunnel, and the set of fetches in flight.

  State is the disk, the set \<open>g_inflight\<close> and the running workers. A worker is one step, from
  its start in \<open>ensure\<close> to its end: what it shares with the others is only touched when it
  writes the file and when it leaves the set. How writing the file ends is an argument
  (\<open>write_outcome\<close>); the checks of \<open>std::filesystem\<close> that report an error code are taken to
  succeed.
\<close>

section \<open>Names\<close>

definition temp_dir :: "(bytes \<Rightarrow> bytes option) \<Rightarrow> bytes option \<Rightarrow> bytes" where
  "temp_dir getenv tmp =
     (let dir = path_join (case tmp of None \<Rightarrow> ''/tmp'' | Some b \<Rightarrow> if b = [] then ''/tmp'' else b) ''obn-covers'' in
      case getenv ''OBN_COVER_DIR'' of None \<Rightarrow> dir | Some v \<Rightarrow> if v \<noteq> [] then v else dir)"

text \<open>The buffer of \<open>snprintf\<close> holds 31 characters.\<close>

definition cover_basename :: "bytes \<Rightarrow> int \<Rightarrow> bytes \<Rightarrow> bytes" where
  "cover_basename name plate version =
     take 31 (''cover-'' @ show_hex_fixed 8 (unat (fnv1a_32 (cover_key name version))) @ ''-p'' @
              show_int (if plate > 0 then plate else 1) @ ''.png'')"

definition path_for :: "bytes \<Rightarrow> bytes \<Rightarrow> int \<Rightarrow> bytes \<Rightarrow> bytes" where
  "path_for dir name plate version = (if name = [] then [] else path_join dir (cover_basename name plate version))"

definition inflight_key :: "bytes \<Rightarrow> int \<Rightarrow> bytes \<Rightarrow> bytes" where
  "inflight_key name plate version = show_int plate @ [CHR 0x01] @ name @ [CHR 0x01] @ version"

section \<open>Writing the file\<close>

text \<open>
  The temporary file cannot be opened; \<open>write\<close> reports an error after \<open>n\<close> bytes; the error
  shows only when the destructor flushes, after the check; it cannot be renamed; all is well.
\<close>

datatype write_outcome = No_open | Failed_write nat | Late_failure nat | No_rename | Written

definition write_atomic :: "write_outcome \<Rightarrow> bytes \<Rightarrow> bytes \<Rightarrow> disk \<Rightarrow> bool \<times> disk" where
  "write_atomic out path data d =
     (let tmp = path @ ''.tmp'' in
      case out of
        No_open \<Rightarrow> (False, d)
      | Failed_write n \<Rightarrow> (False, om_put tmp (take n data) d)
      | Late_failure n \<Rightarrow> (True, om_put path (take n data) (om_del tmp d))
      | No_rename \<Rightarrow> (False, om_del tmp d)
      | Written \<Rightarrow> (True, om_put path data (om_del tmp d)))"

section \<open>Fetching\<close>

record cover_job =
  cj_params :: connect_params
  cj_name :: bytes
  cj_plate :: int
  cj_version :: bytes
  cj_key :: bytes

record cover_state =
  cv_disk :: disk
  cv_inflight :: "bytes oset"
  cv_workers :: "cover_job list"

definition claim_inflight :: "bytes \<Rightarrow> bytes oset \<Rightarrow> bool \<times> bytes oset" where
  "claim_inflight key s = (\<not> oset_mem key s, oset_insert key s)"

definition release_inflight :: "bytes \<Rightarrow> bytes oset \<Rightarrow> bytes oset" where
  "release_inflight key s = oset_erase key s"

text \<open>What the worker does on the network.\<close>

definition fetch_thumbnail :: "bytes \<Rightarrow> bytes \<Rightarrow> u32 \<Rightarrow> bytes + conn \<Rightarrow> cover_job \<Rightarrow> thumbnail_outcome io" where
  "fetch_thumbnail uuid version seed dial j =
     io_bind (connect (session_cfg uuid version (cj_params j)) seed dial new_connection) (\<lambda>(rc, err, k).
       if rc \<noteq> 0 then Ret (thumbnail_fail err)
       else io_bind (fetch_model_tile_thumbnail (cj_name j) (cj_plate j) k) (\<lambda>(t, k'). Ret t))"

text \<open>The rest of \<open>fetch_worker\<close>: the file, then the destructor that releases the key.\<close>

definition fetch_worker :: "bytes \<Rightarrow> write_outcome \<Rightarrow> thumbnail_outcome \<Rightarrow> cover_job \<Rightarrow> cover_state \<Rightarrow> cover_state" where
  "fetch_worker dir out thumb j st =
     st\<lparr>cv_disk := (if t_ok thumb
                    then snd (write_atomic out (path_for dir (cj_name j) (cj_plate j) (cj_version j)) (t_data thumb) (cv_disk st))
                    else cv_disk st),
        cv_inflight := release_inflight (cj_key j) (cv_inflight st),
        cv_workers := remove1 j (cv_workers st)\<rparr>"

definition cover_job_for :: "bytes \<Rightarrow> bytes \<Rightarrow> bytes \<Rightarrow> bytes \<Rightarrow> bytes \<Rightarrow> int \<Rightarrow> bytes \<Rightarrow> cover_job" where
  "cover_job_for host dev_id user password name plate version =
     \<lparr>cj_params = \<lparr>cp_dev_ip = host, cp_dev_id = dev_id, cp_port = 6000,
                   cp_username = (if user = [] then ''bblp'' else user), cp_password = password,
                   cp_client_id = [], cp_client_ver = []\<rparr>,
      cj_name = name, cj_plate = plate, cj_version = version, cj_key = inflight_key name plate version\<rparr>"

definition nonempty_file :: "disk \<Rightarrow> bytes \<Rightarrow> bool" where
  "nonempty_file d path = (case om_get d path of None \<Rightarrow> False | Some b \<Rightarrow> b \<noteq> [])"

definition ensure :: "bytes \<Rightarrow> bytes \<Rightarrow> bytes \<Rightarrow> bytes \<Rightarrow> bytes \<Rightarrow> bytes \<Rightarrow> int \<Rightarrow> bytes \<Rightarrow> cover_state \<Rightarrow> cover_state" where
  "ensure dir host dev_id user password name plate version st =
     (if host = [] \<or> name = [] then st
      else
        let target = path_for dir name plate version in
        if target = [] \<or> nonempty_file (cv_disk st) target then st
        else
          let j = cover_job_for host dev_id user password name plate version;
              (claimed, s) = claim_inflight (cj_key j) (cv_inflight st) in
          if \<not> claimed then st\<lparr>cv_inflight := s\<rparr>
          else st\<lparr>cv_inflight := s, cv_workers := cv_workers st @ [j]\<rparr>)"

section \<open>The running cache\<close>

datatype cover_ev =
    Ensured bytes bytes bytes bytes bytes int bytes
  | Fetched cover_job thumbnail_outcome write_outcome

inductive cover_step :: "bytes \<Rightarrow> cover_state \<Rightarrow> cover_ev \<Rightarrow> cover_state \<Rightarrow> bool" for dir where
  Ensure: "cover_step dir st (Ensured host dev user pw name plate version) (ensure dir host dev user pw name plate version st)"
| Fetch: "j \<in> set (cv_workers st) \<Longrightarrow> fetch_thumbnail uuid ver seed dial j = Ret thumb \<Longrightarrow>
    cover_step dir st (Fetched j thumb out) (fetch_worker dir out thumb j st)"

inductive cover_run :: "bytes \<Rightarrow> cover_state \<Rightarrow> cover_ev list \<Rightarrow> cover_state \<Rightarrow> bool" for dir where
  Stop: "cover_run dir st [] st"
| More: "cover_step dir st ev st' \<Longrightarrow> cover_run dir st' evs st'' \<Longrightarrow> cover_run dir st (ev # evs) st''"

inductive_cases cover_stepE: "cover_step dir st ev st'"

definition empty_cache :: cover_state where
  "empty_cache = \<lparr>cv_disk = [], cv_inflight = [], cv_workers = []\<rparr>"

section \<open>Laws\<close>

lemma show_int_pos: "0 < p \<Longrightarrow> show_int p = show_nat (nat p)"
  by (simp add: show_int_def)

lemma show_nat_length: "n < 10 ^ Suc k \<Longrightarrow> length (show_nat n) \<le> Suc k"
proof (induction k arbitrary: n)
  case 0
  then show ?case by (simp add: show_nat.simps)
next
  case (Suc k)
  show ?case
  proof (cases "n < 10")
    case True
    then show ?thesis by (simp add: show_nat.simps)
  next
    case False
    have "n div 10 < 10 ^ Suc k" using Suc.prems by (simp add: div_less_iff_less_mult)
    from Suc.IH [OF this] False show ?thesis by (subst show_nat.simps) simp
  qed
qed

text \<open>For a plate that is a C \<open>int\<close> nothing is cut off.\<close>

lemma cover_basename_eq:
  assumes "plate < 2 ^ 31"
  shows "cover_basename name plate version =
    ''cover-'' @ show_hex_fixed 8 (unat (fnv1a_32 (cover_key name version))) @ ''-p'' @
    show_nat (if plate > 0 then nat plate else 1) @ ''.png''"
proof -
  let ?n = "if plate > 0 then nat plate else 1"
  have "?n < 10 ^ Suc 9" using assms by auto
  note len = show_nat_length [OF this]
  have shown: "show_int (if plate > 0 then plate else 1) = show_nat ?n" by (simp add: show_int_def)
  show ?thesis unfolding cover_basename_def shown using len by (simp del: if_split)
qed

text \<open>Names are made of lower case letters, digits, the hyphen and the full stop.\<close>

definition plain_char :: "char \<Rightarrow> bool" where
  "plain_char c \<longleftrightarrow> c = CHR ''-'' \<or> c = CHR ''.'' \<or> is_digit c \<or> (97 \<le> code_of c \<and> code_of c \<le> (122::nat))"

lemma show_hex_fixed_plain: "list_all plain_char (show_hex_fixed k n)"
proof (induction k arbitrary: n)
  case (Suc k)
  have "plain_char (hex_char d)" if "d < 16" for d
    using that by (simp add: hex_char_def plain_char_def is_digit_def of_char_of)
  with Suc show ?case by simp
qed simp

lemma hex_no_dot: "CHR ''.'' \<notin> set (show_hex_fixed k n)"
proof (induction k arbitrary: n)
  case (Suc k)
  have "hex_char d \<noteq> CHR ''.''" if "d < 16" for d
  proof
    assume "hex_char d = CHR ''.''"
    then have "code_of (hex_char d) = code_of CHR ''.''" by simp
    with that show False by (simp add: hex_char_def of_char_of split: if_splits)
  qed
  then have "CHR ''.'' \<noteq> hex_char (n mod 16)" by (metis mod_less_divisor zero_less_numeral)
  with Suc show ?case by simp
qed simp

lemma show_nat_plain: "list_all plain_char (show_nat n)"
  using show_nat_all_digits by (auto simp: plain_char_def list_all_iff)

lemma plain_cover: "list_all plain_char ''cover-''"
  by (simp add: plain_char_def)

lemma plain_p: "list_all plain_char ''-p''"
  by (simp add: plain_char_def)

lemma plain_png: "list_all plain_char ''.png''"
  by (simp add: plain_char_def)

lemma cover_basename_plain:
  assumes "plate < 2 ^ 31"
  shows "list_all plain_char (cover_basename name plate version)"
  by (simp only: cover_basename_eq [OF assms] list_all_append show_hex_fixed_plain show_nat_plain plain_cover plain_p plain_png simp_thms)

lemma not_plain: "list_all plain_char s \<Longrightarrow> \<not> plain_char c \<Longrightarrow> c \<notin> set s"
  by (auto simp: list_all_iff)

lemma slash_not_plain: "\<not> plain_char SLASH"
  by (simp add: plain_char_def is_digit_def)

lemma cover_basename_facts:
  assumes "plate < 2 ^ 31"
  shows "starts_with ''cover-'' (cover_basename name plate version)"
    and "ends_with ''.png'' (cover_basename name plate version)"
    and "length (cover_basename name plate version) \<le> 31"
    and "SLASH \<notin> set (cover_basename name plate version)"
proof -
  show "starts_with ''cover-'' (cover_basename name plate version)"
    by (simp add: starts_with_def cover_basename_eq [OF assms])
  show "ends_with ''.png'' (cover_basename name plate version)"
    unfolding cover_basename_eq [OF assms] append_assoc [symmetric] by (rule ends_with_append)
  show "length (cover_basename name plate version) \<le> 31" by (simp add: cover_basename_def)
  show "SLASH \<notin> set (cover_basename name plate version)"
    by (rule not_plain [OF cover_basename_plain [OF assms] slash_not_plain])
qed

definition cache_ok :: "cover_state \<Rightarrow> bool" where
  "cache_ok st \<longleftrightarrow> om_ok (cv_disk st) \<and> om_ok (cv_inflight st) \<and> distinct (map cj_key (cv_workers st)) \<and>
     set (map cj_key (cv_workers st)) = oset_abs (cv_inflight st)"

lemma ensure_ok:
  assumes "cache_ok st"
  shows "cache_ok (ensure dir host dev user pw name plate version st)"
  using assms
  by (auto simp: ensure_def cache_ok_def claim_inflight_def cover_job_for_def Let_def oset.ok_insert oset.abs_insert oset.mem_abs)

lemma distinct_remove1_key:
  "distinct (map f xs) \<Longrightarrow> x \<in> set xs \<Longrightarrow> f ` set (remove1 x xs) = f ` set xs - {f x} \<and> distinct (map f (remove1 x xs))"
  by (induction xs) (auto split: if_splits dest: notin_set_remove1)

lemma write_atomic_ok: "om_ok d \<Longrightarrow> om_ok (snd (write_atomic out path data d))"
  by (cases out) (simp_all add: write_atomic_def Let_def)

lemma fetch_worker_ok:
  assumes "cache_ok st" and "j \<in> set (cv_workers st)"
  shows "cache_ok (fetch_worker dir out thumb j st)"
  using assms distinct_remove1_key [of cj_key "cv_workers st" j]
  by (auto simp: fetch_worker_def cache_ok_def release_inflight_def oset.ok_erase oset.abs_erase write_atomic_ok)

lemma step_cache_ok: "cover_step dir st ev st' \<Longrightarrow> cache_ok st \<Longrightarrow> cache_ok st'"
  by (erule cover_stepE) (auto intro: ensure_ok fetch_worker_ok)

lemma run_cache_ok: "cover_run dir st evs st' \<Longrightarrow> cache_ok st \<Longrightarrow> cache_ok st'"
  by (induction rule: cover_run.induct) (auto intro: step_cache_ok)

lemma empty_cache_ok: "cache_ok empty_cache"
  by (simp add: cache_ok_def empty_cache_def oset_abs_def)

section \<open>Fetched thumbnails\<close>

lemma try_sub_files_image:
  "try_sub_files sts path idx k = Ret (Some data, k') \<Longrightarrow> data \<noteq> [] \<and> wire_chunk_is_image data"
  by (induction sts arbitrary: k) (auto simp: io_bind_Ret_iff split: if_splits)

lemma try_storages_image:
  "try_storages sts model idx k = Ret (t, k') \<Longrightarrow> t_ok t \<Longrightarrow> t_data t \<noteq> [] \<and> wire_chunk_is_image (t_data t)"
proof (induction sts arbitrary: k)
  case Nil
  then show ?case by (auto simp: thumbnail_fail_def)
next
  case (Cons st sts)
  obtain a :: "list_info_outcome \<times> connection" where a: "(case a of (lst, k1) \<Rightarrow> case (if li_ok lst then find_model_entry (li_files lst) model else None) of
        None \<Rightarrow> try_storages sts model idx k1
      | Some hit \<Rightarrow> io_bind (try_sub_files (sub_file_storage_labels st) (mf_path hit) idx k1) (\<lambda>(r, k2).
          case r of
            Some data \<Rightarrow> Ret (\<lparr>t_ok = True, t_data = data, t_path = mf_path hit, t_error = []\<rparr>, k2)
          | None \<Rightarrow> Ret (thumbnail_fail ''SUB_FILE thumbnail failed'', k2))) = Ret (t, k')"
    using Cons.prems(1) [unfolded try_storages.simps io_bind_Ret_iff] by blast
  obtain lst k1 where "a = (lst, k1)" by force
  note rest = a [unfolded this prod.case]
  show ?case
  proof (cases "if li_ok lst then find_model_entry (li_files lst) model else None")
    case None
    with rest Cons show ?thesis by simp
  next
    case (Some hit)
    with rest obtain r k2 where r: "try_sub_files (sub_file_storage_labels st) (mf_path hit) idx k1 = Ret (r, k2)"
      "(case r of Some data \<Rightarrow> Ret (\<lparr>t_ok = True, t_data = data, t_path = mf_path hit, t_error = []\<rparr>, k2)
        | None \<Rightarrow> Ret (thumbnail_fail ''SUB_FILE thumbnail failed'', k2)) = Ret (t, k')"
      by (auto simp: io_bind_Ret_iff)
    show ?thesis
    proof (cases r)
      case None
      with r(2) Cons.prems(2) show ?thesis by (auto simp: thumbnail_fail_def)
    next
      case (Some data)
      with r try_sub_files_image [of _ _ _ _ data k2] show ?thesis by auto
    qed
  qed
qed

lemma fetch_thumbnail_image:
  assumes "fetch_thumbnail uuid ver seed dial j = Ret t" and "t_ok t"
  shows "t_data t \<noteq> [] \<and> wire_chunk_is_image (t_data t)"
  using assms
  by (auto simp: fetch_thumbnail_def fetch_model_tile_thumbnail_def io_bind_Ret_iff thumbnail_fail_def
      split: if_splits dest!: try_storages_image)

section \<open>What is on disk\<close>

definition job_path :: "bytes \<Rightarrow> cover_job \<Rightarrow> bytes" where
  "job_path dir j = path_for dir (cj_name j) (cj_plate j) (cj_version j)"

definition image_fetched :: "bytes \<Rightarrow> cover_ev list \<Rightarrow> bytes \<Rightarrow> bytes \<Rightarrow> bool" where
  "image_fetched dir evs p b = (\<exists>j thumb. Fetched j thumb Written \<in> set evs \<and> t_ok thumb \<and> t_data thumb = b \<and>
     job_path dir j = p \<and> b \<noteq> [] \<and> wire_chunk_is_image b)"

fun late_free :: "cover_ev \<Rightarrow> bool" where
  "late_free (Fetched _ _ (Late_failure _)) = False"
| "late_free _ = True"

lemma write_atomic_get:
  assumes "om_ok d" and "\<not> ends_with ''.tmp'' p" and "om_get (snd (write_atomic out path data d)) p = Some b"
  shows "om_get d p = Some b \<or> (path = p \<and> (out = Written \<and> b = data \<or> (\<exists>n. out = Late_failure n)))"
  using assms
  by (cases out) (auto simp: write_atomic_def Let_def split: if_splits)

lemma ensure_disk [simp]: "cv_disk (ensure dir host dev user pw name plate version st) = cv_disk st"
  by (simp add: ensure_def claim_inflight_def Let_def)

lemma step_disk:
  assumes "cover_step dir st ev st'" and "cache_ok st" and "late_free ev" and "\<not> ends_with ''.tmp'' p"
    and "om_get (cv_disk st') p = Some b"
  shows "om_get (cv_disk st) p = Some b \<or> image_fetched dir [ev] p b"
  using assms(1)
proof cases
  case (Ensure host dev user pw name plate version)
  with assms(5) show ?thesis by simp
next
  case (Fetch j uuid ver seed dial thumb out)
  show ?thesis
  proof (cases "t_ok thumb")
    case True
    have "om_ok (cv_disk st)" using assms(2) by (simp add: cache_ok_def)
    moreover have "om_get (snd (write_atomic out (job_path dir j) (t_data thumb) (cv_disk st))) p = Some b"
      using assms(5) True Fetch by (simp add: fetch_worker_def job_path_def)
    ultimately have "om_get (cv_disk st) p = Some b \<or> (job_path dir j = p \<and> (out = Written \<and> b = t_data thumb \<or> (\<exists>n. out = Late_failure n)))"
      using write_atomic_get assms(4) by blast
    then show ?thesis
      using fetch_thumbnail_image [OF Fetch(4) True] assms(3) Fetch(1) True by (auto simp: image_fetched_def)
  next
    case False
    with assms(5) Fetch show ?thesis by (simp add: fetch_worker_def)
  qed
qed

lemma image_fetched_mono: "image_fetched dir evs p b \<Longrightarrow> set evs \<subseteq> set evs' \<Longrightarrow> image_fetched dir evs' p b"
  unfolding image_fetched_def by blast


text \<open>At most one worker per cover. In every reachable state the running workers have distinct
  keys and these are the keys in flight; so \<open>ensure\<close> for a print whose fetch is running starts
  nothing, and a key whose worker has ended can be fetched again.\<close>

theorem one_worker_per_cover:
  assumes "cover_run dir st0 evs st" and "cache_ok st0"
  shows "distinct (map cj_key (cv_workers st)) \<and>
    (\<forall>key. oset_mem key (cv_inflight st) \<longleftrightarrow> key \<in> cj_key ` set (cv_workers st)) \<and>
    (inflight_key name plate version \<in> cj_key ` set (cv_workers st) \<longrightarrow>
       cv_workers (ensure dir host dev user pw name plate version st) = cv_workers st)"
  using run_cache_ok [OF assms]
  by (auto simp: cache_ok_def oset.mem_abs ensure_def claim_inflight_def cover_job_for_def Let_def)

text \<open>A truncated cover stays. The write is checked before the stream is closed, so when the
  disk fills up only at the final flush, the worker stores a truncated image under the final
  name, and no later \<open>ensure\<close> for this cover fetches it again.\<close>

theorem truncated_cover_stays:
  assumes "t_ok thumb" and "t_data thumb \<noteq> []" and "0 < n" and "cj_name j \<noteq> []" and "om_ok (cv_disk st)"
  shows "let st' = fetch_worker dir (Late_failure n) thumb j st in
    om_get (cv_disk st') (job_path dir j) = Some (take n (t_data thumb)) \<and>
    ensure dir host dev user pw (cj_name j) (cj_plate j) (cj_version j) st' = st'"
proof -
  let ?p = "path_for dir (cj_name j) (cj_plate j) (cj_version j)"
  let ?st = "fetch_worker dir (Late_failure n) thumb j st"
  have ok: "om_ok (om_del (?p @ ''.tmp'') (cv_disk st))" using assms(5) by simp
  have "om_get (cv_disk ?st) ?p = Some (take n (t_data thumb))"
    using assms(1) by (simp add: fetch_worker_def write_atomic_def Let_def om_get_put [OF ok])
  moreover from this have "nonempty_file (cv_disk ?st) ?p" using assms(2,3) by (simp add: nonempty_file_def)
  ultimately show ?thesis by (simp add: job_path_def ensure_def Let_def)
qed

section \<open>A run\<close>

definition sample_job :: cover_job where
  "sample_job = cover_job_for ''10.0.0.2'' ''S1'' [] ''code'' ''cube'' 1 ''7''"

definition png_bytes :: bytes where
  "png_bytes = [CHR 0x89, CHR ''P'', CHR ''N'', CHR ''G'', CR, LF, CHR 0x1A, LF]"

definition busy_cache :: cover_state where
  "busy_cache = \<lparr>cv_disk = [(''/d/old.png'', png_bytes)], cv_inflight = [(cj_key sample_job, ())], cv_workers = [sample_job]\<rparr>"

definition refused :: thumbnail_outcome where
  "refused = thumbnail_fail ''refused''"

definition sample_cover_evs :: "cover_ev list" where
  "sample_cover_evs = [Fetched sample_job refused No_open]"

definition cover_run_to :: "cover_ev list \<Rightarrow> (cover_state \<Rightarrow> bool) \<Rightarrow> bool" where
  "cover_run_to evs P = (\<exists>st. cover_run ''/d'' busy_cache evs st \<and> P st)"

lemma busy_ok: "cache_ok busy_cache"
  by (simp add: cache_ok_def busy_cache_def om_ok_Cons oset_abs_def)

lemma busy_run:
  "cover_run ''/d'' busy_cache sample_cover_evs (fetch_worker ''/d'' No_open refused sample_job busy_cache)"
proof -
  have "fetch_thumbnail [] [] 0 (Inl ''refused'') sample_job = Ret refused"
    by (simp add: fetch_thumbnail_def connect_def refused_def)
  then show ?thesis
    unfolding sample_cover_evs_def by (intro More [OF Fetch Stop]) (auto simp: busy_cache_def)
qed


theorem one_worker_per_cover_witness:
  "cover_run_to sample_cover_evs (\<lambda>st. distinct (map cj_key (cv_workers st)))"
  using one_worker_per_cover [OF busy_run busy_ok] busy_run unfolding cover_run_to_def by blast

theorem truncated_cover_stays_witness:
  "om_get (cv_disk (fetch_worker ''/d'' (Late_failure 1) \<lparr>t_ok = True, t_data = png_bytes, t_path = [], t_error = []\<rparr> sample_job busy_cache))
     (job_path ''/d'' sample_job) = Some [CHR 0x89]"
  using truncated_cover_stays [of "\<lparr>t_ok = True, t_data = png_bytes, t_path = [], t_error = []\<rparr>" 1 sample_job busy_cache "''/d''"]
  by (simp add: png_bytes_def Let_def sample_job_def cover_job_for_def busy_cache_def om_ok_Cons)

end
