(* ===== verification/Cover_Server.thy ===== *)
theory Cover_Server
  imports Cover_Cache
begin

text \<open>
  The HTTP server on the loopback interface that hands cover images to Studio,
  \<open>src/cover_server.cpp\<close>: the answer to one request as a function of what \<open>recv\<close> delivers, what
  \<open>send\<close> accepts and the disk at each look at it, and the URL of a cover. The sockets, the
  accept loop and the threads are not modelled.
\<close>

section \<open>The server object\<close>

record server =
  sv_port :: int
  sv_running :: bool

definition new_server :: server where
  "new_server = \<lparr>sv_port = 0, sv_running = False\<rparr>"

text \<open>The outcome of the socket calls is the error of the one that failed, or the port.\<close>

definition server_start :: "int + int \<Rightarrow> server \<Rightarrow> int \<times> server" where
  "server_start socket s =
     (if sv_running s then (0, s)
      else case socket of
          Inl e \<Rightarrow> (if e \<noteq> 0 then e else - 1, s)
        | Inr port \<Rightarrow> (0, s\<lparr>sv_port := port, sv_running := True\<rparr>))"

definition server_stop :: "server \<Rightarrow> server" where
  "server_stop s = s\<lparr>sv_running := False\<rparr>"

text \<open>\<open>path.filename()\<close>.\<close>

definition filename :: "bytes \<Rightarrow> bytes" where
  "filename p = rev (takeWhile (\<lambda>c. c \<noteq> SLASH) (rev p))"

definition url_for :: "bytes \<Rightarrow> bytes \<Rightarrow> int \<Rightarrow> bytes \<Rightarrow> server \<Rightarrow> bytes" where
  "url_for dir name plate version s =
     (if sv_port s \<le> 0 \<or> name = [] then []
      else
        let path = path_for dir name plate version in
        if path = [] then []
        else ''http://127.0.0.1:'' @ show_int (sv_port s) @ ''/cover/'' @ filename path)"

section \<open>One request\<close>

definition safe_basename :: "bytes \<Rightarrow> bool" where
  "safe_basename s \<longleftrightarrow>
     s \<noteq> [] \<and> length s \<le> 64 \<and> SLASH \<notin> set s \<and> BSLASH \<notin> set s \<and> \<not> contains ''..'' s \<and>
     starts_with ''cover-'' s \<and> 4 \<le> length s \<and> ends_with ''.png'' s"

text \<open>What \<open>send\<close> accepts of the data; \<open>ns\<close> are its results, and no result is a failure.\<close>

fun send_all :: "int list \<Rightarrow> bytes \<Rightarrow> bytes \<times> int list" where
  "send_all ns [] = ([], ns)"
| "send_all [] (b # bs) = ([], [])"
| "send_all (n # ns) (b # bs) =
     (if n \<le> 0 then ([], ns)
      else let (t, ns') = send_all ns (drop (nat n) (b # bs)) in (take (nat n) (b # bs) @ t, ns'))"

definition crlf :: bytes where "crlf = [CR, LF]"

definition status_text :: "int \<Rightarrow> bytes \<Rightarrow> bytes" where
  "status_text code reason =
     ''HTTP/1.1 '' @ show_int code @ '' '' @ reason @ crlf @ ''Connection: close'' @ crlf @ ''Content-Length: 0'' @ crlf @ crlf"

definition ok_header :: "nat \<Rightarrow> bytes" where
  "ok_header len =
     ''HTTP/1.1 200 OK'' @ crlf @ ''Connection: close'' @ crlf @ ''Content-Type: image/png'' @ crlf @
     ''Cache-Control: no-store'' @ crlf @ ''Content-Length: '' @ show_nat len @ crlf @ crlf"

text \<open>The buffer holds 4095 bytes and a terminator; the blank line is looked for with \<open>strstr\<close>.\<close>

fun read_request :: "bytes list \<Rightarrow> bytes \<Rightarrow> bytes" where
  "read_request [] got = got"
| "read_request (c # cs) got =
     (if 4095 \<le> length got then got
      else
        let n = take (4095 - length got) c in
        if n = [] then got
        else if contains (crlf @ crlf) (c_str (got @ n)) then got @ n
        else read_request cs (got @ n))"

text \<open>Method and target.\<close>

definition request_line :: "bytes \<Rightarrow> (bytes \<times> bytes) option" where
  "request_line buf =
     (let b = c_str buf in
      case find_char BLANK b of
        None \<Rightarrow> None
      | Some i \<Rightarrow>
          (let rest = drop (i + 1) b in
           case find_char BLANK rest of
             None \<Rightarrow> None
           | Some j \<Rightarrow> Some (take i b, take j rest)))"

definition strip_query :: "bytes \<Rightarrow> bytes" where
  "strip_query t = (case find_char CHR ''?'' t of None \<Rightarrow> t | Some i \<Rightarrow> take i t)"

definition cover_file :: "(bytes \<Rightarrow> bytes option) \<Rightarrow> bytes option \<Rightarrow> bytes \<Rightarrow> bytes" where
  "cover_file getenv tmp base =
     (let full = path_join (temp_dir getenv tmp) base in
      case getenv ''OBN_COVER_DEBUG_FILE'' of None \<Rightarrow> full | Some f \<Rightarrow> if f \<noteq> [] then f else full)"

text \<open>
  At most 150 looks, 100 ms apart, until the file is there; the result is the number of the next
  look.
\<close>

fun await_file :: "(nat \<Rightarrow> bool) \<Rightarrow> nat \<Rightarrow> nat \<Rightarrow> nat" where
  "await_file there i 0 = i"
| "await_file there i (Suc n) = (if there i then Suc i else await_file there (Suc i) n)"

definition read_file :: "disk \<Rightarrow> bytes \<Rightarrow> bytes" where
  "read_file d p = (case om_get d p of None \<Rightarrow> [] | Some b \<Rightarrow> b)"

definition serve_file :: "int list \<Rightarrow> (nat \<Rightarrow> disk) \<Rightarrow> bytes \<Rightarrow> bytes \<Rightarrow> bytes" where
  "serve_file ns disk_at verb full =
     (let there = (\<lambda>i. om_get (disk_at i) full \<noteq> None); i = await_file there 0 150 in
      if \<not> there i then fst (send_all ns (status_text 503 ''Service Unavailable''))
      else
        let body = read_file (disk_at (Suc i)) full;
            (sent, ns') = send_all ns (ok_header (length body)) in
        if verb = ''GET'' then sent @ fst (send_all ns' body) else sent)"

definition handle_one ::
  "(bytes \<Rightarrow> bytes option) \<Rightarrow> bytes option \<Rightarrow> bytes list \<Rightarrow> int list \<Rightarrow> (nat \<Rightarrow> disk) \<Rightarrow> bytes" where
  "handle_one getenv tmp reads ns disk_at =
     (case request_line (read_request reads []) of
        None \<Rightarrow> fst (send_all ns (status_text 400 ''Bad Request''))
      | Some (verb, raw) \<Rightarrow>
          if verb \<noteq> ''GET'' \<and> verb \<noteq> ''HEAD'' then fst (send_all ns (status_text 405 ''Method Not Allowed''))
          else
            let target = strip_query raw in
            if \<not> starts_with ''/cover/'' target then fst (send_all ns (status_text 404 ''Not Found''))
            else
              let base = drop (length ''/cover/'') target in
              if \<not> safe_basename base then fst (send_all ns (status_text 404 ''Not Found''))
              else serve_file ns disk_at verb (cover_file getenv tmp base))"

section \<open>Laws\<close>

lemma send_all_take: "\<exists>k. fst (send_all ns data) = take k data"
proof (induction ns data rule: send_all.induct)
  case (3 n ns b bs)
  show ?case
  proof (cases "n \<le> 0")
    case True
    then show ?thesis by (intro exI [of _ 0]) simp
  next
    case False
    obtain t ns' where t: "send_all ns (drop (nat n) (b # bs)) = (t, ns')" by force
    from 3 [OF False] t obtain k where "t = take k (drop (nat n) (b # bs))" by auto
    then have "take (nat n) (b # bs) @ t = take (nat n + k) (b # bs)" by (simp only: take_add)
    with t False show ?thesis by (auto simp: Let_def)
  qed
qed (auto intro: exI [of _ 0])

lemma send_all_complete:
  "length data \<le> length ns \<Longrightarrow> \<forall>n \<in> set ns. 0 < n \<Longrightarrow>
   \<exists>us ns'. send_all ns data = (data, ns') \<and> ns = us @ ns' \<and> length us \<le> length data"
proof (induction ns data rule: send_all.induct)
  case (3 n ns b bs)
  have n: "0 < n" using "3.prems" by simp
  have "length (drop (nat n) (b # bs)) \<le> length ns" using "3.prems" n by (cases "nat n") auto
  then obtain us ns' where s: "send_all ns (drop (nat n) (b # bs)) = (drop (nat n) (b # bs), ns')" "ns = us @ ns'"
    "length us \<le> length (drop (nat n) (b # bs))"
    using 3 n by fastforce
  have "send_all (n # ns) (b # bs) = (b # bs, ns')" using s(1) n by (simp add: Let_def del: drop_Cons)
  moreover have "length (n # us) \<le> length (b # bs)" using s(3) n by (cases "nat n") auto
  ultimately show ?case using s(2) by (intro exI [of _ "n # us"] exI [of _ ns']) simp
qed auto

lemma await_file_bound: "await_file there i n \<le> i + n"
  by (induction there i n rule: await_file.induct) (auto simp: le_Suc_eq)

text \<open>The request read from the socket starts with the first line, however it arrives.\<close>

lemma read_request_prefix:
  assumes "concat cs = rest" and "[] \<notin> set cs"
  shows "let g = read_request cs got in
    (prefix (got @ rest) g \<or> prefix g (got @ rest)) \<and>
    (g = got @ rest \<or> 4095 \<le> length g \<or> contains (crlf @ crlf) (c_str g))"
  using assms
proof (induction cs got arbitrary: rest rule: read_request.induct)
  case (1 got)
  then show ?case by simp
next
  case (2 c cs got)
  show ?case
  proof (cases "4095 \<le> length got")
    case True
    then show ?thesis by simp
  next
    case False
    let ?n = "take (4095 - length got) c"
    have c: "c \<noteq> []" "[] \<notin> set cs" "rest = c @ concat cs" using "2.prems" by auto
    with False have n: "?n \<noteq> []" by simp
    have "got @ rest = (got @ ?n) @ drop (4095 - length got) c @ concat cs"
      unfolding c(3) append_assoc by (metis append_assoc append_take_drop_id)
    then have pre: "prefix (got @ ?n) (got @ rest)" by (rule prefixI)
    show ?thesis
    proof (cases "contains (crlf @ crlf) (c_str (got @ ?n))")
      case True
      with pre show ?thesis using False n by (simp add: Let_def)
    next
      case F: False
      show ?thesis
      proof (cases "?n = c")
        case True
        with "2.IH" [OF False refl n F refl c(2)] False n F c(3) show ?thesis by (simp add: Let_def)
      next
        case full: False
        then have "4095 \<le> length (got @ ?n)" by (auto simp: take_all_iff)
        moreover have rr: "read_request (c # cs) got = got @ ?n"
          using calculation False n F by (cases cs) (simp_all add: Let_def)
        ultimately show ?thesis unfolding rr Let_def using pre by blast
      qed
    qed
  qed
qed

lemma contains_iff: "contains pat s \<longleftrightarrow> (\<exists>a b. s = a @ pat @ b)"
proof (induction s)
  case Nil
  then show ?case by (auto simp: contains_def)
next
  case (Cons x xs)
  show ?case
  proof
    assume "contains pat (x # xs)"
    then have "prefix pat (x # xs) \<or> contains pat xs" by (auto simp: contains_def split: if_splits)
    then show "\<exists>a b. x # xs = a @ pat @ b"
    proof
      assume "prefix pat (x # xs)"
      then obtain b where "x # xs = pat @ b" by (auto simp: prefix_def)
      then show ?thesis by (intro exI [of _ "[]"] exI [of _ b]) simp
    next
      assume "contains pat xs"
      then obtain a b where "xs = a @ pat @ b" using Cons.IH by blast
      then show ?thesis by (intro exI [of _ "x # a"] exI [of _ b]) simp
    qed
  next
    assume "\<exists>a b. x # xs = a @ pat @ b"
    then obtain a b where ab: "x # xs = a @ pat @ b" by blast
    show "contains pat (x # xs)"
    proof (cases a)
      case Nil
      with ab have "prefix pat (x # xs)" by simp
      then show ?thesis by (simp add: contains_def)
    next
      case (Cons y a')
      with ab have "xs = a' @ pat @ b" by simp
      then have "contains pat xs" using Cons.IH by blast
      then show ?thesis by (simp add: contains_def)
    qed
  qed
qed

lemma read_request_line:
  assumes line: "concat cs = line @ rest" and ne: "[] \<notin> set cs" and plain: "CR \<notin> set line" and len: "length line < 4095"
  shows "prefix line (read_request cs [])"
proof -
  define g where "g = read_request cs []"
  have g: "prefix (line @ rest) g \<or> prefix g (line @ rest)"
    "g = line @ rest \<or> 4095 \<le> length g \<or> contains (crlf @ crlf) (c_str g)"
    using read_request_prefix [OF line ne, of "[]"] by (simp_all add: g_def Let_def)
  show ?thesis
  proof (cases "prefix line g")
    case True
    then show ?thesis by (simp add: g_def)
  next
    case False
    with g(1) have "prefix g line" by (meson prefix_append prefix_order.trans prefix_same_cases prefixI)
    then have "set g \<subseteq> set line" "length g \<le> length line" by (auto dest: set_mono_prefix prefix_length_le)
    moreover have "\<not> contains (crlf @ crlf) (c_str g)"
    proof
      assume "contains (crlf @ crlf) (c_str g)"
      then obtain a b where "c_str g = a @ (crlf @ crlf) @ b" by (auto simp: contains_iff)
      then have "CR \<in> set (c_str g)" by (simp add: crlf_def)
      moreover have "set (c_str g) \<subseteq> set g" by (auto simp: c_str_def dest: set_takeWhileD)
      ultimately show False using \<open>set g \<subseteq> set line\<close> plain by blast
    qed
    ultimately show ?thesis using g(2) len False by auto
  qed
qed

lemma c_str_append: "CHR 0x00 \<notin> set xs \<Longrightarrow> c_str (xs @ ys) = xs @ c_str ys"
  by (induction xs) (auto simp: c_str_def)

lemma c_str_Cons: "c \<noteq> CHR 0x00 \<Longrightarrow> c_str (c # ys) = c # c_str ys"
  by (simp add: c_str_def)

lemma request_line_eq:
  assumes "prefix (verb @ BLANK # target @ [BLANK]) buf"
    and "CHR 0x00 \<notin> set verb" "BLANK \<notin> set verb" "CHR 0x00 \<notin> set target" "BLANK \<notin> set target"
  shows "request_line buf = Some (verb, target)"
proof -
  obtain z where buf: "buf = verb @ BLANK # target @ BLANK # z" using assms(1) by (auto simp: prefix_def)
  have "c_str buf = verb @ BLANK # target @ BLANK # c_str z"
    using assms(2,4) unfolding buf by (simp add: c_str_append c_str_Cons)
  then show ?thesis
    using find_char_append_here [OF assms(3), of "target @ BLANK # c_str z"] find_char_append_here [OF assms(5), of "c_str z"]
    by (simp add: request_line_def)
qed

lemma strip_query_id: "CHR ''?'' \<notin> set t \<Longrightarrow> strip_query t = t"
  by (auto simp: strip_query_def find_char_Some_iff split: option.splits) (metis nth_mem)

definition error_replies :: "(int \<times> bytes) set" where
  "error_replies = {(400, ''Bad Request''), (404, ''Not Found''), (405, ''Method Not Allowed''), (503, ''Service Unavailable'')}"

text \<open>C22: the server gives away nothing but covers. Without the debug variable, whatever bytes
  arrive in whatever pieces, the answer is cut from one of the four error texts, or it is header
  and contents of a file of the cover directory whose name is a plain cover name without a
  separator and without two dots in a row.\<close>

theorem serves_only_covers:
  assumes "getenv ''OBN_COVER_DEBUG_FILE'' = None"
  shows "(\<exists>code reason k. (code, reason) \<in> error_replies \<and>
        handle_one getenv tmp reads ns disk_at = take k (status_text code reason)) \<or>
    (\<exists>base i j a b. safe_basename base \<and> om_get (disk_at i) (path_join (temp_dir getenv tmp) base) \<noteq> None \<and>
       (let body = read_file (disk_at j) (path_join (temp_dir getenv tmp) base) in
        handle_one getenv tmp reads ns disk_at = take a (ok_header (length body)) @ take b body))"
proof -
  let ?reply = "handle_one getenv tmp reads ns disk_at"
  have errors: "(400, ''Bad Request'') \<in> error_replies" "(404, ''Not Found'') \<in> error_replies"
    "(405, ''Method Not Allowed'') \<in> error_replies" "(503, ''Service Unavailable'') \<in> error_replies"
    by (simp_all add: error_replies_def)
  have error: ?thesis if "?reply = fst (send_all ns (status_text code reason))" "(code, reason) \<in> error_replies" for code reason
  proof -
    obtain k where "fst (send_all ns (status_text code reason)) = take k (status_text code reason)"
      using send_all_take by blast
    with that show ?thesis by (intro disjI1 exI [of _ code] exI [of _ reason] exI [of _ k] conjI) (simp_all only:)
  qed
  show ?thesis
  proof (cases "request_line (read_request reads [])")
    case None
    then have "?reply = fst (send_all ns (status_text 400 ''Bad Request''))" by (simp only: handle_one_def option.case)
    then show ?thesis by (rule error [OF _ errors(1)])
  next
    case (Some vr)
    obtain verb raw where vr: "vr = (verb, raw)" by force
    let ?base = "drop (length ''/cover/'') (strip_query raw)"
    note h = handle_one_def [of getenv tmp reads ns disk_at, unfolded Some vr option.case prod.case Let_def]
    show ?thesis
    proof (cases "verb \<noteq> ''GET'' \<and> verb \<noteq> ''HEAD''")
      case True
      show ?thesis by (rule error [OF _ errors(3)]) (simp only: h True simp_thms if_True)
    next
      case verb: False
      show ?thesis
      proof (cases "starts_with ''/cover/'' (strip_query raw) \<and> safe_basename ?base")
        case False
        then have "?reply = fst (send_all ns (status_text 404 ''Not Found''))"
          unfolding h if_not_P [OF verb] by (simp only: if_cancel simp_thms split: if_split) blast
        then show ?thesis by (rule error [OF _ errors(2)])
      next
        case good: True
        define full where "full = path_join (temp_dir getenv tmp) ?base"
        have f: "cover_file getenv tmp ?base = full" by (simp only: cover_file_def assms option.case Let_def full_def)
        have r: "?reply = serve_file ns disk_at verb full"
          unfolding h f if_not_P [OF verb] using good by (simp only: simp_thms if_False)
        define i where "i = await_file (\<lambda>i. om_get (disk_at i) full \<noteq> None) 0 150"
        show ?thesis
        proof (cases "om_get (disk_at i) full = None")
          case True
          then have "?reply = fst (send_all ns (status_text 503 ''Service Unavailable''))"
            unfolding r by (simp only: serve_file_def Let_def i_def [symmetric] simp_thms if_True)
          then show ?thesis by (rule error [OF _ errors(4)])
        next
          case False
          let ?body = "read_file (disk_at (Suc i)) full"
          obtain sent ns' where s: "send_all ns (ok_header (length ?body)) = (sent, ns')" by force
          obtain a where a: "sent = take a (ok_header (length ?body))" using send_all_take [of ns "ok_header (length ?body)"] s by auto
          obtain b where b: "fst (send_all ns' ?body) = take b ?body" using send_all_take by blast
          have "?reply = (if verb = ''GET'' then sent @ fst (send_all ns' ?body) else sent)"
            unfolding r serve_file_def Let_def i_def [symmetric] s prod.case using False by (simp only: simp_thms if_False)
          then have "?reply = take a (ok_header (length ?body)) @ take (if verb = ''GET'' then b else 0) ?body"
            unfolding a b by (simp only: take_0 append_Nil2 split: if_split) blast
          with good False show ?thesis unfolding full_def Let_def by blast
        qed
      qed
    qed
  qed
qed

section \<open>The address of a cover\<close>

lemma filename_append:
  assumes "SLASH \<notin> set base" and "d = [] \<or> last d = SLASH"
  shows "filename (d @ base) = base"
proof (cases d rule: rev_cases)
  case Nil
  have all: "takeWhile (\<lambda>c. c \<noteq> SLASH) (rev base) = rev base" using assms(1) by (subst takeWhile_eq_all_conv) auto
  show ?thesis unfolding Nil filename_def append_Nil all by simp
next
  case (snoc d' x)
  then have x: "x = SLASH" using assms(2) by simp
  have "takeWhile (\<lambda>c. c \<noteq> SLASH) (rev base @ SLASH # rev d') = rev base"
    using assms(1) by (subst takeWhile_append2) auto
  then show ?thesis unfolding snoc x filename_def by simp
qed

lemma path_join_split: "\<exists>d. path_join dir base = d @ base \<and> (d = [] \<or> last d = SLASH)"
proof (cases "dir = []")
  case True
  then show ?thesis by (intro exI [of _ "[]"]) (simp add: path_join_def)
next
  case False
  show ?thesis
    by (rule exI [of _ "if last dir = SLASH then dir else dir @ [SLASH]"]) (simp add: path_join_def False)
qed

lemma filename_join: "SLASH \<notin> set base \<Longrightarrow> filename (path_join dir base) = base"
  using path_join_split [of dir base] filename_append [of base] by force

lemma plain_not: "list_all plain_char s \<Longrightarrow> \<not> plain_char c \<Longrightarrow> c \<notin> set s"
  by (auto simp: list_all_iff)

lemma odd_chars_not_plain:
  "\<not> plain_char BSLASH" "\<not> plain_char CHR 0x00" "\<not> plain_char BLANK" "\<not> plain_char CR" "\<not> plain_char CHR ''?''"
  by (simp_all add: plain_char_def is_digit_def)

lemma no_two_dots:
  assumes "plate < 2 ^ 31"
  shows "\<not> contains ''..'' (cover_basename name plate version)"
proof
  assume "contains ''..'' (cover_basename name plate version)"
  then obtain a b where ab: "cover_basename name plate version = a @ ''..'' @ b" by (auto simp: contains_iff)
  define n where "n = (if plate > 0 then nat plate else 1)"
  let ?h = "show_hex_fixed 8 (unat (fnv1a_32 (cover_key name version)))"
  have dot: "CHR ''.'' \<notin> set ?h" "CHR ''.'' \<notin> set (show_nat n)"
  proof -
    have "\<not> is_digit CHR ''.''" by (simp add: is_digit_def)
    then show "CHR ''.'' \<notin> set (show_nat n)" using show_nat_all_digits by blast
    show "CHR ''.'' \<notin> set ?h" by (rule hex_no_dot)
  qed
  have none: "CHR ''.'' \<notin> set xs \<Longrightarrow> filter (\<lambda>c. c = CHR ''.'') xs = []" for xs :: bytes
    by (induction xs) auto
  have "filter (\<lambda>c. c = CHR ''.'') (cover_basename name plate version) = [CHR ''.'']"
    using none [OF dot(1)] none [OF dot(2)] by (simp add: cover_basename_eq [OF assms] n_def [symmetric])
  moreover have "length (filter (\<lambda>c. c = CHR ''.'') (cover_basename name plate version)) \<ge> 2"
    unfolding ab by simp
  ultimately show False by simp
qed

lemma cover_basename_safe:
  assumes "plate < 2 ^ 31"
  shows "safe_basename (cover_basename name plate version)"
proof -
  note facts = cover_basename_facts [OF assms, of name version]
  have "4 \<le> length (cover_basename name plate version)" using facts(2) by (simp add: ends_with_def)
  moreover have "BSLASH \<notin> set (cover_basename name plate version)"
    by (rule plain_not [OF cover_basename_plain [OF assms] odd_chars_not_plain(1)])
  ultimately show ?thesis
    using facts no_two_dots [OF assms] by (auto simp: safe_basename_def)
qed

definition complete_reply :: "bytes \<Rightarrow> bytes" where
  "complete_reply body = ok_header (length body) @ body"

lemma serve_file_present:
  assumes "\<forall>i. om_get (disk_at i) full = Some img" and "length (complete_reply img) \<le> length ns" and "\<forall>n \<in> set ns. 0 < n"
  shows "serve_file ns disk_at ''GET'' full = complete_reply img"
proof -
  let ?h = "ok_header (length img)"
  obtain us ns' where s: "send_all ns ?h = (?h, ns')" "ns = us @ ns'" "length us \<le> length ?h"
    using send_all_complete [of ?h ns] assms(2,3) by (auto simp: complete_reply_def)
  have "length img \<le> length ns'" "\<forall>n \<in> set ns'. 0 < n" using s(2,3) assms(2,3) by (auto simp: complete_reply_def)
  from send_all_complete [OF this] have "fst (send_all ns' img) = img" by auto
  with s(1) assms(1) show ?thesis by (simp add: serve_file_def read_file_def complete_reply_def Let_def)
qed

text \<open>A minted address works. The URL the server gives out for a print is its own address
  followed by a target; a GET request for this target, whatever follows in the request and
  however it is cut into pieces, is answered with exactly the file the cache keeps for the
  print.\<close>

lemma url_served:
  assumes "0 < sv_port s" and "name \<noteq> []" and "plate < 2 ^ 31"
    and "getenv ''OBN_COVER_DEBUG_FILE'' = None"
    and "\<forall>i. om_get (disk_at i) (path_for (temp_dir getenv tmp) name plate version) = Some img"
    and "length (complete_reply img) \<le> length ns" and "\<forall>n \<in> set ns. 0 < n"
  shows "\<exists>target. url_for (temp_dir getenv tmp) name plate version s = ''http://127.0.0.1:'' @ show_int (sv_port s) @ target \<and>
    (\<forall>reads rest. concat reads = ''GET '' @ target @ BLANK # rest \<and> [] \<notin> set reads \<longrightarrow>
       handle_one getenv tmp reads ns disk_at = complete_reply img)"
proof -
  define base where "base = cover_basename name plate version"
  let ?target = "''/cover/'' @ base"
  let ?dir = "temp_dir getenv tmp"
  note plain = cover_basename_plain [OF assms(3), of name version, folded base_def]
  note facts = cover_basename_facts [OF assms(3), of name version, folded base_def]
  have path: "path_for ?dir name plate version = path_join ?dir base" using assms(2) by (simp add: path_for_def base_def)
  have "path_join ?dir base \<noteq> []" using facts(1) by (auto simp: path_join_def starts_with_def)
  then have url: "url_for ?dir name plate version s = ''http://127.0.0.1:'' @ show_int (sv_port s) @ ?target"
    using assms(1,2) filename_join [OF facts(4)] by (simp add: url_for_def path Let_def)
  have "handle_one getenv tmp reads ns disk_at = complete_reply img"
    if reads: "concat reads = ''GET '' @ ?target @ BLANK # rest" "[] \<notin> set reads" for reads rest
  proof -
    let ?line = "''GET'' @ BLANK # ?target @ [BLANK]"
    have l: "concat reads = ?line @ rest" using reads(1) by simp
    have "length ?line < 4095" using facts(3) by simp
    moreover have "CR \<notin> set ?line" using plain_not [OF plain odd_chars_not_plain(4)] by simp
    ultimately have "prefix ?line (read_request reads [])" using read_request_line [OF l reads(2)] by blast
    then have "request_line (read_request reads []) = Some (''GET'', ?target)"
      by (rule request_line_eq) (use plain_not [OF plain odd_chars_not_plain(2)] plain_not [OF plain odd_chars_not_plain(3)] in simp_all)
    moreover have "strip_query ?target = ?target"
      by (rule strip_query_id) (use plain_not [OF plain odd_chars_not_plain(5)] in simp)
    moreover have "starts_with ''/cover/'' ?target" "drop (length ''/cover/'') ?target = base" by (simp_all add: starts_with_def)
    moreover have "safe_basename base" using cover_basename_safe [OF assms(3)] by (simp add: base_def)
    moreover have "cover_file getenv tmp base = path_join ?dir base" using assms(4) by (simp add: cover_file_def)
    ultimately have "handle_one getenv tmp reads ns disk_at = serve_file ns disk_at ''GET'' (path_join ?dir base)"
      unfolding handle_one_def by (simp only: option.case prod.case Let_def simp_thms if_False if_True)
    with serve_file_present [OF _ assms(6,7)] assms(5) show ?thesis by (simp add: path)
  qed
  with url show ?thesis by blast
qed

section \<open>A request\<close>

abbreviation no_env :: "bytes \<Rightarrow> bytes option" where "no_env \<equiv> \<lambda>_. None"

definition cube_disk :: "nat \<Rightarrow> disk" where
  "cube_disk i = [(path_for (temp_dir no_env None) ''cube'' 1 ''7'', png_bytes)]"

definition up_server :: server where
  "up_server = snd (server_start (Inr 40001) new_server)"

theorem serves_only_covers_witness:
  "(\<exists>code reason k. (code, reason) \<in> error_replies \<and>
        handle_one no_env None [''GET /../etc/passwd HTTP/1.1''] [1000] cube_disk = take k (status_text code reason)) \<or>
    (\<exists>base i j a b. safe_basename base \<and> om_get (cube_disk i) (path_join (temp_dir no_env None) base) \<noteq> None \<and>
       (let body = read_file (cube_disk j) (path_join (temp_dir no_env None) base) in
        handle_one no_env None [''GET /../etc/passwd HTTP/1.1''] [1000] cube_disk = take a (ok_header (length body)) @ take b body))"
  by (rule serves_only_covers [of no_env]) simp

lemma up_facts: "sv_port up_server = 40001" "show_int 40001 = ''40001''"
  "length (complete_reply png_bytes) \<le> length (replicate 200 (1::int))"
  by (simp_all add: up_server_def server_start_def new_server_def show_int_def digit_char_def char_of_def bit_0
      complete_reply_def ok_header_def png_bytes_def crlf_def show_nat.simps)

end
