(* ===== verification/Ssdp.thy ===== *)
theory Ssdp
  imports Json_Text
begin

text \<open>
  LAN discovery, \<open>src/ssdp.cpp\<close>: the headers of a datagram, their rendering as the JSON text
  that Studio and the bind code read, and what the listener does with one datagram. The socket
  calls are not modelled; their outcome is an argument.
\<close>

section \<open>Headers\<close>

type_synonym headers = "(bytes, bytes) omap"

definition header_lower :: "bytes \<Rightarrow> bytes" where
  "header_lower s = map (\<lambda>c. if 65 \<le> code_of c \<and> code_of c \<le> (90::nat) then char_of (code_of c - 65 + (97::nat)) else c) s"

definition header_blank :: "char \<Rightarrow> bool" where
  "header_blank c \<longleftrightarrow> c = BLANK \<or> c = TAB \<or> c = CR \<or> c = LF"

definition header_trim :: "bytes \<Rightarrow> bytes" where
  "header_trim s = rtrim_by header_blank (ltrim_by header_blank s)"

text \<open>\<open>emplace\<close>: the first value of a key stays.\<close>

definition header_set :: "bytes \<Rightarrow> bytes \<Rightarrow> headers \<Rightarrow> headers" where
  "header_set key val h = om_emplace (header_lower key) val h"

definition header_get :: "headers \<Rightarrow> bytes \<Rightarrow> bytes option" where
  "header_get h key = om_get h key"

definition header_value :: "headers \<Rightarrow> bytes \<Rightarrow> bytes" where
  "header_value h key = (case header_get h key of None \<Rightarrow> [] | Some v \<Rightarrow> v)"

definition header_line :: "bytes \<Rightarrow> headers \<Rightarrow> headers" where
  "header_line line h =
     (case find_char CHR '':'' line of
        None \<Rightarrow> h
      | Some colon \<Rightarrow>
          (let k = header_trim (take colon line); v = header_trim (drop (colon + 1) line) in
           if k \<noteq> [] then header_set k v h else h))"

text \<open>The lines from a position on, up to the first empty one.\<close>

function header_lines :: "bytes \<Rightarrow> headers \<Rightarrow> headers" where
  "header_lines rest h =
     (if rest = [] then h
      else
        let raw = takeWhile (\<lambda>c. c \<noteq> LF) rest;
            line = (if raw \<noteq> [] \<and> last raw = CR then butlast raw else raw) in
        if line = [] then h else header_lines (drop (length raw + 1) rest) (header_line line h))"
  by pat_completeness auto
termination
  by (relation "measure (\<lambda>(rest, h). length rest)") auto

declare header_lines.simps [simp del]

definition parse_headers :: "bytes \<Rightarrow> headers option" where
  "parse_headers msg =
     (if length msg < 4 then None
      else case (case find_sub [CR, LF] msg of Some i \<Rightarrow> Some i | None \<Rightarrow> find_char LF msg) of
          None \<Rightarrow> None
        | Some sol_end \<Rightarrow>
            (if \<not> contains ''HTTP/1.'' (take sol_end msg) then None
             else Some (header_lines (drop (if msg ! sol_end = CR then sol_end + 2 else sol_end + 1) msg) [])))"

section \<open>The device information\<close>

definition ssdp_escape_char :: "char \<Rightarrow> bytes" where
  "ssdp_escape_char c =
     (if c = QUOTE then [BSLASH, QUOTE]
      else if c = BSLASH then [BSLASH, BSLASH]
      else if c = CHR 0x08 then BSLASH # ''b''
      else if c = CHR 0x0C then BSLASH # ''f''
      else if c = LF then BSLASH # ''n''
      else if c = CR then BSLASH # ''r''
      else if c = TAB then BSLASH # ''t''
      else if code_of c < (0x20::nat) then BSLASH # CHR ''u'' # show_hex_fixed 4 (code_of c)
      else [c])"

definition ssdp_json_escape :: "bytes \<Rightarrow> bytes" where
  "ssdp_json_escape s = QUOTE # concat (map ssdp_escape_char s) @ [QUOTE]"

text \<open>The fields of the text with the header each comes from; the signal is always empty.\<close>

definition device_fields :: "headers \<Rightarrow> (bytes \<times> bytes) list" where
  "device_fields h =
     [(''dev_name'', header_value h ''devname.bambu.com''),
      (''dev_id'', header_value h ''usn''),
      (''dev_ip'', header_value h ''location''),
      (''dev_type'', header_value h ''devmodel.bambu.com''),
      (''dev_signal'', []),
      (''connect_type'', header_value h ''devconnect.bambu.com''),
      (''bind_state'', header_value h ''devbind.bambu.com''),
      (''sec_link'', header_value h ''devseclink.bambu.com''),
      (''ssdp_version'', header_value h ''devversion.bambu.com''),
      (''connection_name'', header_value h ''devinf.bambu.com'')]"

definition to_device_info_json :: "headers \<Rightarrow> bytes" where
  "to_device_info_json h =
     ''{'' @ join '','' (map (\<lambda>(k, v). QUOTE # k @ [QUOTE, CHR '':''] @ ssdp_json_escape v) (device_fields h)) @ ''}''"

section \<open>The listener\<close>

text \<open>One datagram and the address it came from; the text handed to the callback, if any.\<close>

definition handle_datagram :: "bytes \<Rightarrow> bytes \<Rightarrow> bytes option" where
  "handle_datagram src data =
     (case parse_headers data of
        None \<Rightarrow> None
      | Some h \<Rightarrow>
          (case (header_get h ''usn'', header_get h ''devmodel.bambu.com'') of
             (Some usn, Some model) \<Rightarrow>
               (if usn = [] \<or> model = [] then None
                else
                  let h' = (if header_get h ''location'' = None then header_set ''Location'' src h else h) in
                  Some (to_device_info_json h'))
           | _ \<Rightarrow> None))"

text \<open>
  \<open>di_running\<close> is the flag, \<open>di_listening\<close> whether the worker still receives. The worker ends on
  a receive error without clearing the flag.
\<close>

record discovery =
  di_running :: bool
  di_listening :: bool
  di_callback :: bool

definition new_discovery :: discovery where
  "new_discovery = \<lparr>di_running = False, di_listening = False, di_callback = False\<rparr>"

definition discovery_start :: "bool \<Rightarrow> discovery \<Rightarrow> bool \<times> discovery" where
  "discovery_start bound d =
     (if di_running d then (True, d\<lparr>di_callback := True\<rparr>)
      else if \<not> bound then (False, d\<lparr>di_callback := True\<rparr>)
      else (True, \<lparr>di_running = True, di_listening = True, di_callback = True\<rparr>))"

definition discovery_stop :: "discovery \<Rightarrow> discovery" where
  "discovery_stop d = (if \<not> di_running d then d else \<lparr>di_running = False, di_listening = False, di_callback = False\<rparr>)"

text \<open>A datagram with its source; or \<open>recvfrom\<close> was interrupted or failed. An empty datagram gives
  the count 0, which the code takes for a failure.\<close>

datatype udp_receive = Datagram bytes bytes | Interrupted | Receive_error

definition discovery_receive :: "udp_receive \<Rightarrow> discovery \<Rightarrow> bytes option \<times> discovery" where
  "discovery_receive r d =
     (if \<not> di_listening d then (None, d)
      else case r of
          Datagram src data \<Rightarrow> (if data = [] then (None, d\<lparr>di_listening := False\<rparr>)
            else (if di_callback d then handle_datagram src (take 4096 data) else None, d))
        | Interrupted \<Rightarrow> (None, d)
        | Receive_error \<Rightarrow> (None, d\<lparr>di_listening := False\<rparr>))"

section \<open>Laws\<close>

lemma ssdp_escape_eq: "ssdp_json_escape s = escape s"
proof -
  have "ssdp_escape_char = escape_char" by (rule ext) (simp add: ssdp_escape_char_def escape_char_def)
  then show ?thesis by (simp add: ssdp_json_escape_def escape_def)
qed

definition device_members :: "headers \<Rightarrow> (member \<times> json) list" where
  "device_members h = map (\<lambda>(k, v). (([], k, [], escape v, []), String v)) (device_fields h)"

lemma device_text: "to_device_info_json h = ''{'' @ members_text (device_members h) @ ''}''"
  by (simp add: to_device_info_json_def device_members_def device_fields_def ssdp_escape_eq escape_plain escape_char_def)

definition device_fields_json :: "headers \<Rightarrow> (bytes \<times> json) list" where
  "device_fields_json h = map (\<lambda>(k, v). (k, String v)) (device_fields h)"

lemma parse_device_text:
  "parse (to_device_info_json h) = Inr (Object (emplace_all (device_fields_json h) []))"
proof -
  have "reads_as (''{'' @ members_text (device_members h) @ ''}'') (Object (emplace_all (map member_val (device_members h)) []))"
    by (rule reads_as_object) (auto simp: device_members_def device_fields_def reads_as_escape)
  note p = parse_as [OF this, of "[]" "[]"]
  have "map member_val (device_members h) = device_fields_json h"
    by (auto simp: device_members_def device_fields_json_def device_fields_def)
  with p show ?thesis by (simp add: device_text)
qed

lemma device_field:
  assumes "map_of (device_fields h) k = Some v" and "plain_key k"
  shows "jfind (Object (emplace_all (device_fields_json h) [])) k = String v"
proof -
  have "map_of (device_fields_json h) k = Some (String v)"
    using assms(1) by (simp add: device_fields_json_def map_of_map)
  then show ?thesis
    using assms(2) emplace_all_get [of "[]" "device_fields_json h" k] by (simp add: jfind_key jget_def)
qed

lemma device_values:
  "jfind (Object (emplace_all (device_fields_json h) [])) ''dev_id'' = String (header_value h ''usn'')"
  "jfind (Object (emplace_all (device_fields_json h) [])) ''dev_ip'' = String (header_value h ''location'')"
  "jfind (Object (emplace_all (device_fields_json h) [])) ''dev_name'' = String (header_value h ''devname.bambu.com'')"
  "jfind (Object (emplace_all (device_fields_json h) [])) ''dev_type'' = String (header_value h ''devmodel.bambu.com'')"
  "jfind (Object (emplace_all (device_fields_json h) [])) ''ssdp_version'' = String (header_value h ''devversion.bambu.com'')"
  "jfind (Object (emplace_all (device_fields_json h) [])) ''bind_state'' = String (header_value h ''devbind.bambu.com'')"
  "jfind (Object (emplace_all (device_fields_json h) [])) ''connect_type'' = String (header_value h ''devconnect.bambu.com'')"
  by (rule device_field; simp add: device_fields_def plain_key_def key_stop_def)+

section \<open>A discovery that has ended\<close>

datatype discovery_ev = Start_again bool | Received udp_receive

fun discovery_run :: "discovery_ev list \<Rightarrow> discovery \<Rightarrow> bool list \<times> bytes list \<times> discovery" where
  "discovery_run [] d = ([], [], d)"
| "discovery_run (Start_again bound # evs) d =
     (let (r, d1) = discovery_start bound d; (rs, ms, d2) = discovery_run evs d1 in (r # rs, ms, d2))"
| "discovery_run (Received r # evs) d =
     (let (m, d1) = discovery_receive r d; (rs, ms, d2) = discovery_run evs d1 in
      (rs, (case m of None \<Rightarrow> [] | Some j \<Rightarrow> [j]) @ ms, d2))"

lemma deaf_run:
  "di_running d \<Longrightarrow> \<not> di_listening d \<Longrightarrow> discovery_run evs d = (rs, ms, d') \<Longrightarrow> list_all (\<lambda>r. r) rs \<and> ms = []"
proof (induction evs arbitrary: d rs ms d')
  case (Cons ev evs)
  show ?case
  proof (cases ev)
    case (Start_again bound)
    obtain rs1 ms1 d1 where u: "discovery_run evs (d\<lparr>di_callback := True\<rparr>) = (rs1, ms1, d1)" by (metis surj_pair)
    from Cons.IH [OF _ _ u] u Cons.prems Start_again show ?thesis by (auto simp: discovery_start_def Let_def)
  next
    case (Received r)
    obtain rs1 ms1 d1 where u: "discovery_run evs d = (rs1, ms1, d1)" by (metis surj_pair)
    from Cons.IH [OF _ _ u] u Cons.prems Received show ?thesis by (auto simp: discovery_receive_def Let_def)
  qed
qed simp

text \<open>One empty datagram silences discovery. When the listener receives an empty datagram (or a
  receive fails for another reason than an interrupt), every later start still reports success,
  yet no datagram is delivered any more, whatever arrives, until discovery is stopped.\<close>

theorem empty_datagram_silences:
  assumes "di_running d" and "r = Datagram src [] \<or> r = Receive_error"
    and "discovery_run evs (snd (discovery_receive r d)) = (rs, ms, d')"
  shows "list_all (\<lambda>r. r) rs \<and> ms = []"
proof (rule deaf_run [OF _ _ assms(3)])
  show "di_running (snd (discovery_receive r d))" "\<not> di_listening (snd (discovery_receive r d))"
    using assms(1,2) by (auto simp: discovery_receive_def)
qed

theorem empty_datagram_silences_witness:
  "fst (snd (discovery_run [Start_again True, Received (Datagram ''10.0.0.9'' ''NOTIFY'')]
     (snd (discovery_receive (Datagram ''10.0.0.9'' []) (snd (discovery_start True new_discovery)))))) = []"
proof -
  let ?d = "snd (discovery_start True new_discovery)"
  have "di_running ?d" by (simp add: discovery_start_def new_discovery_def)
  moreover obtain rs ms d' where run: "discovery_run [Start_again True, Received (Datagram ''10.0.0.9'' ''NOTIFY'')]
     (snd (discovery_receive (Datagram ''10.0.0.9'' []) ?d)) = (rs, ms, d')" by (metis surj_pair)
  ultimately have "ms = []" using empty_datagram_silences [OF _ _ run] by blast
  then show ?thesis unfolding run by (simp only: fst_conv snd_conv)
qed

end
