(* ===== verification/Agent.thy ===== *)
theory Agent
  imports Cloud_Session Cover_Server Firmware Ssdp
begin

text \<open>
  The state of the class \<open>Agent\<close> of \<open>src/agent.cpp\<close>, its setters and look-ups, the
  callbacks it makes into Studio, and the discovery cache used for binding. The two other
  theories of the class hold the printer session and the cloud side.

  Every method takes the mutex for its accesses; a method is one step here. Callbacks are
  values: \<open>Queued\<close> through Studio's main-thread queue, \<open>Called\<close> on the spot.
\<close>

section \<open>State\<close>

datatype callback =
    On_ssdp_msg | On_user_login | On_printer_connected | On_server_connected | On_http_error
  | Get_country_code | On_subscribe_failure | On_message | On_user_message | On_local_connect
  | On_local_message | Queue_on_main | Server_err

datatype notice =
    Ssdp_notice bytes
  | Login_notice int bytes
  | Printer_notice bytes
  | Server_notice int int
  | Subscribe_failure_notice bytes
  | Message_notice bytes bytes
  | Local_connect_notice connect_status bytes bytes
  | Local_message_notice bytes bytes

datatype event = Queued notice | Called notice

record subtask =
  sb_name :: bytes
  sb_plate :: int
  sb_version :: bytes

record agent =
  ag_config_dir :: bytes
  ag_cert_folder :: bytes
  ag_cert_filename :: bytes
  ag_country :: bytes
  ag_machine :: bytes
  ag_headers :: "(bytes, bytes) omap"
  ag_lan :: "lan_session option"
  ag_discovery :: "discovery option"
  ag_cloud :: "cloud_session option"
  ag_server :: "server option"
  ag_subtasks :: "(bytes, subtask) omap"
  ag_firmware :: "(bytes, device_fw) omap"
  ag_cloud_devs :: "bytes oset"
  ag_auth :: "store option"
  ag_certified :: "bytes oset"
  ag_snapshots :: "bytes oset"
  ag_cooldown :: "(bytes, int) omap"
  ag_ssdp :: "(bytes, bytes) omap"
  ag_codes :: "(bytes, bytes) omap"
  ag_presets :: "(bytes, (bytes, bytes) omap) omap"
  ag_callbacks :: "callback \<Rightarrow> bool"
  ag_cloud_callbacks :: "callback \<Rightarrow> bool"
  ag_ftp_ssl :: bool

definition new_agent :: agent where
  "new_agent = \<lparr>ag_config_dir = [], ag_cert_folder = [], ag_cert_filename = [], ag_country = ''US'', ag_machine = [],
     ag_headers = [], ag_lan = None, ag_discovery = None, ag_cloud = None, ag_server = None, ag_subtasks = [],
     ag_firmware = [], ag_cloud_devs = [], ag_auth = None, ag_certified = [], ag_snapshots = [], ag_cooldown = [],
     ag_ssdp = [], ag_codes = [], ag_presets = [], ag_callbacks = (\<lambda>_. False),
     ag_cloud_callbacks = (\<lambda>_. False), ag_ftp_ssl = True\<rparr>"

text \<open>A callback through the queue when Studio registered one, or on the spot.\<close>

definition post :: "agent \<Rightarrow> callback \<Rightarrow> notice \<Rightarrow> event list" where
  "post ag cb n = (if \<not> ag_callbacks ag cb then [] else if ag_callbacks ag Queue_on_main then [Queued n] else [Called n])"

definition call_now :: "agent \<Rightarrow> callback \<Rightarrow> notice \<Rightarrow> event list" where
  "call_now ag cb n = (if ag_callbacks ag cb then [Called n] else [])"

section \<open>Setters and look-ups\<close>

definition set_callback :: "callback \<Rightarrow> bool \<Rightarrow> agent \<Rightarrow> agent" where
  "set_callback cb given ag = ag\<lparr>ag_callbacks := (ag_callbacks ag)(cb := given)\<rparr>"

definition set_country_code :: "bytes \<Rightarrow> agent \<Rightarrow> agent" where
  "set_country_code code ag = ag\<lparr>ag_country := code\<rparr>"

definition set_extra_http_headers :: "(bytes, bytes) omap \<Rightarrow> agent \<Rightarrow> agent" where
  "set_extra_http_headers hs ag = ag\<lparr>ag_headers := hs\<rparr>"

definition set_user_selected_machine :: "bytes \<Rightarrow> agent \<Rightarrow> agent" where
  "set_user_selected_machine dev ag = ag\<lparr>ag_machine := dev\<rparr>"

definition cloud_region :: "agent \<Rightarrow> bytes" where
  "cloud_region ag = (if ag_country ag = ''CN'' then ''CN'' else ''GLOBAL'')"

definition bambu_ca_bundle_path :: "agent \<Rightarrow> disk \<Rightarrow> bytes" where
  "bambu_ca_bundle_path ag d =
     (let folder = ag_cert_folder ag in
      if folder = [] then []
      else
        let stripped = (if last folder = SLASH \<or> last folder = BSLASH then butlast folder else folder);
            path = path_join stripped ''printer.cer'' in
        if om_get d path \<noteq> None then path else [])"

definition set_cert_file :: "bytes \<Rightarrow> bytes \<Rightarrow> bool \<Rightarrow> agent \<Rightarrow> process \<Rightarrow> agent \<times> process" where
  "set_cert_file folder file ok ag p =
     (let ag' = ag\<lparr>ag_cert_folder := folder, ag_cert_filename := file\<rparr> in
      (ag', registry_set_ca_file (bambu_ca_bundle_path ag' (pr_disk p)) ok p))"

definition cloud_user_id :: "agent \<Rightarrow> bytes" where
  "cloud_user_id ag = (case ag_auth ag of None \<Rightarrow> [] | Some st \<Rightarrow> si_user_id (st_session st))"

definition user_logged_in :: "agent \<Rightarrow> bool" where
  "user_logged_in ag = (case ag_auth ag of None \<Rightarrow> False | Some st \<Rightarrow> logged_in (st_session st))"

definition cloud_api_http_headers :: "agent \<Rightarrow> (bytes, bytes) omap" where
  "cloud_api_http_headers ag =
     (let s = (case ag_auth ag of None \<Rightarrow> fresh_session | Some st \<Rightarrow> st_session st);
          h0 = fold (\<lambda>(k, v). om_put k v) (ag_headers ag) [];
          h1 = (if si_access_token s \<noteq> [] then om_put ''Authorization'' (''Bearer '' @ si_access_token s) h0 else h0) in
      om_put ''Content-Type'' ''application/json'' (om_put ''Accept'' ''application/json'' h1))"

definition lan_access_code_for :: "bytes \<Rightarrow> agent \<Rightarrow> bytes" where
  "lan_access_code_for dev_id ag =
     (case om_get (ag_codes ag) dev_id of
        Some code \<Rightarrow> code
      | None \<Rightarrow>
          (case ag_lan ag of
             None \<Rightarrow> []
           | Some ls \<Rightarrow> if ls_dev_id ls = dev_id then ls_password ls else []))"

subsection \<open>The preset cache\<close>

definition preset_cache_reset :: "agent \<Rightarrow> agent" where
  "preset_cache_reset ag = ag\<lparr>ag_presets := []\<rparr>"

definition preset_cache_put :: "bytes \<Rightarrow> (bytes, bytes) omap \<Rightarrow> agent \<Rightarrow> agent" where
  "preset_cache_put name vals ag = ag\<lparr>ag_presets := om_put name vals (ag_presets ag)\<rparr>"

definition preset_cache_drain :: "agent \<Rightarrow> (bytes, (bytes, bytes) omap) omap \<times> agent" where
  "preset_cache_drain ag = (ag_presets ag, ag\<lparr>ag_presets := []\<rparr>)"

subsection \<open>Covers\<close>

record subtask_cover =
  sc_name :: bytes
  sc_plate :: int
  sc_url :: bytes

definition lookup_synthetic_subtask :: "bytes \<Rightarrow> bytes \<Rightarrow> agent \<Rightarrow> subtask_cover option" where
  "lookup_synthetic_subtask cover_dir subtask_id ag =
     (case om_get (ag_subtasks ag) subtask_id of
        None \<Rightarrow> None
      | Some sb \<Rightarrow> Some \<lparr>sc_name = sb_name sb, sc_plate = sb_plate sb,
          sc_url = (case ag_server ag of None \<Rightarrow> []
                    | Some sv \<Rightarrow> url_for cover_dir (sb_name sb) (sb_plate sb) (sb_version sb) sv)\<rparr>)"

text \<open>
  The branch of \<open>bambu_network_get_subtask_info\<close> (\<open>src/abi_http.cpp\<close>) that answers for a known
  subtask with a cover address.
\<close>

definition get_subtask_info :: "bytes \<Rightarrow> bytes \<Rightarrow> agent \<Rightarrow> bytes option" where
  "get_subtask_info cover_dir subtask_id ag =
     (case lookup_synthetic_subtask cover_dir subtask_id ag of
        None \<Rightarrow> None
      | Some sc \<Rightarrow>
          (if sc_url sc = [] then None
           else
             let obj = (\<lambda>kvs. Object (emplace_all kvs []));
                 plate = obj [(''index'', Number (of_int (sc_plate sc))), (''thumbnail'', obj [(''url'', String (sc_url sc))])];
                 inner = obj [(''info'', obj [(''plate_idx'', Number (of_int (sc_plate sc)))])] in
             Some (dump (obj [(''context'', obj [(''plates'', Array [plate])]), (''content'', String (dump inner))]))))"

section \<open>Discovery\<close>

definition trim_ip_string :: "bytes \<Rightarrow> bytes" where
  "trim_ip_string s =
     ltrim_by (\<lambda>c. c = BLANK \<or> c = TAB) (rtrim_by (\<lambda>c. c = BLANK \<or> c = TAB \<or> c = CR \<or> c = LF) s)"

definition cache_ssdp_json_for_bind :: "bool \<Rightarrow> bytes \<Rightarrow> agent \<Rightarrow> process \<Rightarrow> agent \<times> process" where
  "cache_ssdp_json_for_bind ok js ag p =
     (case parse_opt js of
        None \<Rightarrow> (ag, p)
      | Some doc \<Rightarrow>
          (let ip = trim_ip_string (as_string (jfind doc ''dev_ip'')) in
           if ip = [] then (ag, p)
           else
             let dev_id = as_string (jfind doc ''dev_id'');
                 p' = (if dev_id \<noteq> [] then registry_put_ip_serial ip dev_id ok p else p) in
             (ag\<lparr>ag_ssdp := om_put ip js (ag_ssdp ag)\<rparr>, p')))"

text \<open>The callback given to the listener.\<close>

definition on_ssdp :: "bool \<Rightarrow> bytes \<Rightarrow> agent \<Rightarrow> process \<Rightarrow> agent \<times> process \<times> event list" where
  "on_ssdp ok js ag p =
     (let (ag', p') = cache_ssdp_json_for_bind ok js ag p in (ag', p', post ag' On_ssdp_msg (Ssdp_notice js)))"

definition start_discovery :: "bool \<Rightarrow> bool \<Rightarrow> agent \<Rightarrow> bool \<times> agent" where
  "start_discovery bound enable ag =
     (if \<not> enable then (False, ag\<lparr>ag_discovery := None\<rparr>)
      else
        let d = (case ag_discovery ag of None \<Rightarrow> new_discovery | Some d \<Rightarrow> d);
            (r, d') = discovery_start bound d in
        (r, ag\<lparr>ag_discovery := Some d'\<rparr>))"

record detect =
  de_result_msg :: bytes
  de_command :: bytes
  de_dev_id :: bytes
  de_model_id :: bytes
  de_dev_name :: bytes
  de_version :: bytes
  de_bind_state :: bytes
  de_connect_type :: bytes

text \<open>
  \<open>seen i\<close> is the cache at the \<open>i\<close>-th look and \<open>looks\<close> the number of looks before the deadline
  has passed; there is always a first one.
\<close>

fun await_ssdp :: "(nat \<Rightarrow> (bytes, bytes) omap) \<Rightarrow> bytes \<Rightarrow> nat \<Rightarrow> nat \<Rightarrow> bytes option" where
  "await_ssdp seen want i 0 = None"
| "await_ssdp seen want i (Suc n) =
     (case om_get (seen i) want of
        None \<Rightarrow> await_ssdp seen want (Suc i) n
      | Some js \<Rightarrow> if js \<noteq> [] then Some js else await_ssdp seen want (Suc i) n)"

definition lookup_bind_detect :: "(nat \<Rightarrow> (bytes, bytes) omap) \<Rightarrow> bytes \<Rightarrow> nat \<Rightarrow> detect \<Rightarrow> int \<times> detect" where
  "lookup_bind_detect seen dev_ip looks out =
     (let want = trim_ip_string dev_ip in
      if want = [] then (- 1, out)
      else case await_ssdp seen want 0 looks of
          None \<Rightarrow> (- 3, out)
        | Some js \<Rightarrow>
            (case parse_opt js of
               None \<Rightarrow> (- 1, out)
             | Some doc \<Rightarrow>
                 (let str = (\<lambda>k. as_string (jfind doc k));
                      out' = \<lparr>de_result_msg = ''ok'', de_command = ''bind_detect'', de_dev_id = str ''dev_id'',
                              de_model_id = str ''dev_type'', de_dev_name = str ''dev_name'',
                              de_version = str ''ssdp_version'', de_bind_state = str ''bind_state'',
                              de_connect_type = str ''connect_type''\<rparr> in
                  (if de_dev_id out' = [] then - 1 else 0, out'))))"

definition device_display_name_for_ip :: "bytes \<Rightarrow> agent \<Rightarrow> bytes" where
  "device_display_name_for_ip dev_ip ag =
     (case om_get (ag_ssdp ag) (trim_ip_string dev_ip) of
        None \<Rightarrow> []
      | Some js \<Rightarrow> (case parse_opt js of None \<Rightarrow> [] | Some doc \<Rightarrow> as_string (jfind doc ''dev_name'')))"

section \<open>From the broadcast to the bind dialogue\<close>

lemma put_serial_lookup:
  "om_ok (pr_serials p) \<Longrightarrow> ip \<noteq> [] \<Longrightarrow> serial \<noteq> [] \<Longrightarrow>
   registry_lookup_serial ip (registry_put_ip_serial ip serial ok p) = Some serial"
  by (auto simp: registry_lookup_serial_def registry_put_ip_serial_def write_state_file_locked_def sync_ip_env_locked_def
      setenv_def)

definition location_of :: "bytes \<Rightarrow> headers \<Rightarrow> bytes" where
  "location_of src h = (case header_get h ''location'' of None \<Rightarrow> src | Some l \<Rightarrow> l)"

definition detect_of :: "headers \<Rightarrow> detect" where
  "detect_of h = \<lparr>de_result_msg = ''ok'', de_command = ''bind_detect'', de_dev_id = header_value h ''usn'',
     de_model_id = header_value h ''devmodel.bambu.com'', de_dev_name = header_value h ''devname.bambu.com'',
     de_version = header_value h ''devversion.bambu.com'', de_bind_state = header_value h ''devbind.bambu.com'',
     de_connect_type = header_value h ''devconnect.bambu.com''\<rparr>"

lemma header_lines_ok: "om_ok h \<Longrightarrow> om_ok (header_lines rest h)"
proof (induction rest h rule: header_lines.induct)
  case (1 rest h)
  have line: "om_ok (header_line l h)" for l
    using 1(2) by (auto simp: header_line_def header_set_def om_emplace_def Let_def split: option.splits)
  show ?case
    by (subst header_lines.simps) (use 1(2) 1(1) line in \<open>auto simp: Let_def\<close>)
qed

lemma parse_headers_ok: "parse_headers data = Some h \<Longrightarrow> om_ok h"
  by (auto simp: parse_headers_def header_lines_ok split: option.splits if_splits)

lemma header_set_location:
  assumes "om_ok h" and "header_get h ''location'' = None"
  shows "header_value (header_set ''Location'' src h) k = (if k = ''location'' then src else header_value h k)"
proof -
  have key: "header_lower ''Location'' = ''location''" by (simp add: header_lower_def char_of_def bit_0)
  show ?thesis
    using om_get_emplace [OF assms(1), of "''location''" src k] assms(2)
    by (simp add: header_value_def header_get_def header_set_def key)
qed

lemma datagram_facts:
  assumes "handle_datagram src data = Some js"
  obtains h h' where "parse_headers data = Some h" "js = to_device_info_json h'" "header_value h ''usn'' \<noteq> []"
    "\<And>k. header_value h' k = (if k = ''location'' then location_of src h else header_value h k)"
proof -
  obtain h where h: "parse_headers data = Some h" using assms by (auto simp: handle_datagram_def split: option.splits)
  let ?h' = "if header_get h ''location'' = None then header_set ''Location'' src h else h"
  have "js = to_device_info_json ?h' \<and> header_value h ''usn'' \<noteq> []"
    using assms h by (auto simp: handle_datagram_def header_value_def Let_def split: option.splits if_splits)
  moreover have "header_value ?h' k = (if k = ''location'' then location_of src h else header_value h k)" for k
    using header_set_location [OF parse_headers_ok [OF h]]
    by (auto simp: location_of_def header_value_def split: option.splits)
  ultimately show ?thesis using that [OF h] by blast
qed

text \<open>A printer that announces itself can be bound. When a datagram is passed on, the cache
  entry it leaves answers the bind dialogue for the printer's address at the first look with
  exactly the headers' serial, name, model, version, bind state and connection; and the TLS
  registry then knows the serial for the address.\<close>

theorem announced_printer_binds:
  assumes "handle_datagram src data = Some js" and "parse_headers data = Some h"
    and "trim_ip_string (location_of src h) = ip" and "ip \<noteq> []" and "trim_ip_string addr = ip"
    and "om_ok (ag_ssdp ag)" and "om_ok (pr_serials p)"
    and "cache_ssdp_json_for_bind ok js ag p = (ag', p')"
  shows "lookup_bind_detect (\<lambda>_. ag_ssdp ag') addr (Suc n) out = (0, detect_of h) \<and>
    registry_lookup_serial ip p' = Some (header_value h ''usn'') \<and>
    device_display_name_for_ip addr ag' = header_value h ''devname.bambu.com''"
proof -
  obtain h0 h' where f: "parse_headers data = Some h0" "js = to_device_info_json h'" "header_value h0 ''usn'' \<noteq> []"
    "\<And>k. header_value h' k = (if k = ''location'' then location_of src h0 else header_value h0 k)"
    using datagram_facts [OF assms(1)] by metis
  then have h: "h0 = h" using assms(2) by simp
  let ?doc = "Object (emplace_all (device_fields_json h') [])"
  have p: "parse_opt js = Some ?doc" using parse_device_text by (simp add: f(2) parse_opt_def)
  have vals: "as_string (jfind ?doc ''dev_id'') = header_value h ''usn''"
    "as_string (jfind ?doc ''dev_ip'') = location_of src h"
    "as_string (jfind ?doc ''dev_name'') = header_value h ''devname.bambu.com''"
    "as_string (jfind ?doc ''dev_type'') = header_value h ''devmodel.bambu.com''"
    "as_string (jfind ?doc ''ssdp_version'') = header_value h ''devversion.bambu.com''"
    "as_string (jfind ?doc ''bind_state'') = header_value h ''devbind.bambu.com''"
    "as_string (jfind ?doc ''connect_type'') = header_value h ''devconnect.bambu.com''"
    by (simp_all add: device_values f(4) h)
  have ag': "ag' = ag\<lparr>ag_ssdp := om_put ip js (ag_ssdp ag)\<rparr>" "p' = registry_put_ip_serial ip (header_value h ''usn'') ok p"
    using assms(8,3,4) f(3) h by (simp_all add: cache_ssdp_json_for_bind_def p vals)
  have "om_get (ag_ssdp ag') ip = Some js" using assms(6) by (simp add: ag')
  moreover have "js \<noteq> []" by (simp add: f(2) to_device_info_json_def)
  ultimately have look: "await_ssdp (\<lambda>_. ag_ssdp ag') ip 0 (Suc n) = Some js"
    and get: "om_get (ag_ssdp ag') ip = Some js" by simp_all
  have "lookup_bind_detect (\<lambda>_. ag_ssdp ag') addr (Suc n) out = (0, detect_of h)"
    using assms(4) f(3) h
    unfolding lookup_bind_detect_def Let_def assms(5) look option.case p vals by (simp add: detect_of_def)
  moreover have "registry_lookup_serial ip p' = Some (header_value h ''usn'')"
    using put_serial_lookup [OF assms(7,4)] f(3) h by (simp add: ag'(2))
  moreover have "device_display_name_for_ip addr ag' = header_value h ''devname.bambu.com''"
    by (simp add: device_display_name_for_ip_def assms(5) get p vals)
  ultimately show ?thesis by blast
qed

text \<open>A datagram.\<close>

definition announce :: bytes where
  "announce = ''NOTIFY * HTTP/1.1'' @ [LF] @ ''usn: S1'' @ [LF] @ ''devmodel.bambu.com: C11'' @ [LF]"

lemma lower_usn: "header_lower ''usn'' = ''usn''" "header_lower ''devmodel.bambu.com'' = ''devmodel.bambu.com''"
  by (simp_all add: header_lower_def)

lemma l1: "header_line ''usn: S1'' h = header_set ''usn'' ''S1'' h"
  by (simp add: header_line_def header_trim_def header_blank_def ltrim_by_def rtrim_by_def)

lemma l2: "header_line ''devmodel.bambu.com: C11'' h = header_set ''devmodel.bambu.com'' ''C11'' h"
  by (simp add: header_line_def header_trim_def header_blank_def ltrim_by_def rtrim_by_def)

lemma pa: "parse_headers announce = Some (header_set ''devmodel.bambu.com'' ''C11'' (header_set ''usn'' ''S1'' []))"
proof -
  have start: "drop 18 announce = ''usn: S1'' @ [LF] @ ''devmodel.bambu.com: C11'' @ [LF]" "announce ! 17 = LF"
    "find_sub [CR, LF] announce = None" "find_char LF announce = Some 17" "contains ''HTTP/1.'' (take 17 announce)" "4 \<le> length announce"
    by (simp_all add: announce_def contains_def eval_nat_numeral)
  have "header_lines (''usn: S1'' @ [LF] @ ''devmodel.bambu.com: C11'' @ [LF]) [] = header_lines (''devmodel.bambu.com: C11'' @ [LF]) (header_line ''usn: S1'' [])"
    by (subst header_lines.simps) simp
  also have "\<dots> = header_line ''devmodel.bambu.com: C11'' (header_line ''usn: S1'' [])"
    by (subst header_lines.simps, simp) (subst header_lines.simps, simp)
  finally show ?thesis using start by (simp add: parse_headers_def l1 l2)
qed
definition announced :: headers where
  "announced = header_set ''devmodel.bambu.com'' ''C11'' (header_set ''usn'' ''S1'' [])"

theorem announced_printer_binds_witness:
  "\<exists>js ag'. handle_datagram ''10.0.0.2'' announce = Some js \<and>
     fst (cache_ssdp_json_for_bind True js new_agent quiet_process) = ag' \<and>
     fst (lookup_bind_detect (\<lambda>_. ag_ssdp ag') ''10.0.0.2'' 1 (detect_of [])) = 0 \<and>
     de_dev_id (snd (lookup_bind_detect (\<lambda>_. ag_ssdp ag') ''10.0.0.2'' 1 (detect_of []))) = ''S1''"
proof -
  have get: "header_get announced ''usn'' = Some ''S1''" "header_get announced ''devmodel.bambu.com'' = Some ''C11''"
    "header_get announced ''location'' = None"
    by (simp_all add: announced_def header_get_def header_set_def lower_usn om_emplace_def om_get_Cons)
  have h: "parse_headers announce = Some announced" by (simp add: announced_def pa)
  obtain js where js: "handle_datagram ''10.0.0.2'' announce = Some js" by (simp add: handle_datagram_def h get)
  obtain ag' p' where c: "cache_ssdp_json_for_bind True js new_agent quiet_process = (ag', p')" by force
  have ip: "trim_ip_string (location_of ''10.0.0.2'' announced) = ''10.0.0.2''" "trim_ip_string ''10.0.0.2'' = ''10.0.0.2''"
    by (simp_all add: location_of_def get trim_ip_string_def ltrim_by_def rtrim_by_def)
  from announced_printer_binds [OF js h ip(1) _ ip(2) _ _ c, of 0 "detect_of []"]
  show ?thesis using js c get
    by (auto simp: new_agent_def quiet_process_def detect_of_def header_value_def)
qed

section \<open>From the subtask id to the image\<close>

lemma int_number: "\<bar>i\<bar> \<le> 2 ^ 31 \<Longrightarrow> dumpable (Number (of_int i))"
proof -
  assume i: "\<bar>i\<bar> \<le> 2 ^ 31"
  then have "of_int (- 9223372036854774784) \<le> (of_int i :: rat)" "(of_int i :: rat) \<le> of_int 9223372036854774784"
    unfolding of_int_le_iff by simp_all
  then show ?thesis using i to_double_small [of i] by (simp add: trunc_rat_of_int)
qed

lemma subtask_info_parses:
  assumes "get_subtask_info dir sid ag = Some body" and "lookup_synthetic_subtask dir sid ag = Some sc"
    and "\<bar>sc_plate sc\<bar> \<le> 2 ^ 31"
  shows "\<exists>v. parse body = Inr v \<and> jfind v ''context.plates[0].thumbnail.url'' = String (sc_url sc)"
proof -
  let ?obj = "\<lambda>kvs. Object (emplace_all kvs [])"
  let ?thumb = "?obj [(''url'', String (sc_url sc))]"
  let ?plate = "?obj [(''index'', Number (of_int (sc_plate sc))), (''thumbnail'', ?thumb)]"
  let ?inner = "?obj [(''info'', ?obj [(''plate_idx'', Number (of_int (sc_plate sc)))])]"
  let ?v = "?obj [(''context'', ?obj [(''plates'', Array [?plate])]), (''content'', String (dump ?inner))]"
  have body: "body = dump ?v" using assms(1,2) by (simp add: get_subtask_info_def Let_def split: if_splits)
  have "dumpable ?v" using int_number [OF assms(3)] by (simp add: om_emplace_def om_get_def om_ok_def)
  then have "parse body = Inr ?v" unfolding body by (rule parse_dump)
  moreover have "jfind ?v ''context.plates[0].thumbnail.url'' = String (sc_url sc)"
  proof -
    have k: "plain_key ''context''" "plain_key ''plates''" "plain_key ''thumbnail''" "plain_key ''url''"
      by (simp_all add: plain_key_def key_stop_def)
    have path: "''context.plates[0].thumbnail.url'' =
      ''context'' @ CHR ''.'' # ''plates'' @ CHR ''['' # show_nat 0 @ CHR '']'' # CHR ''.'' # ''thumbnail'' @ CHR ''.'' # ''url''"
      by (simp add: show_nat.simps digit_char_def char_of_def bit_0)
    have 1: "jget ?v ''context'' = ?obj [(''plates'', Array [?plate])]" by (simp add: jget_def om_emplace_def om_get_def)
    have 2: "jget (?obj [(''plates'', Array [?plate])]) ''plates'' = Array [?plate]" by (simp add: jget_def om_emplace_def om_get_def)
    have 3: "jget ?plate ''thumbnail'' = ?thumb" by (simp add: jget_def om_emplace_def om_get_def)
    have 4: "jget ?thumb ''url'' = String (sc_url sc)" by (simp add: jget_def om_emplace_def om_get_def)
    have dot: "skip_dot (CHR ''.'' # p) = p" for p by (simp add: skip_dot_def)
    have elem: "jfind (Array [?plate]) (CHR ''['' # show_nat 0 @ CHR '']'' # p) = jfind ?plate (skip_dot p)" for p
      using jfind_index [of 0 "[?plate]" p] by simp
    show ?thesis
      unfolding path jfind_dot [OF k(1)] 1 jfind_bracket [OF k(2)] 2 elem dot jfind_dot [OF k(3)] 3 jfind_key [OF k(4)] 4 ..
  qed
  ultimately show ?thesis by blast
qed

text \<open>C11: the subtask id leads to the image. For a print the agent knows, the document it answers for
  the id parses, and the address it holds under \<open>context.plates[0].thumbnail.url\<close> is that of
  the cover server; a GET request for it, in whatever pieces it arrives, is answered with exactly
  the image the cache keeps for this name, plate and version.\<close>

theorem subtask_id_leads_to_image:
  assumes "get_subtask_info (temp_dir getenv tmp) sid ag = Some body"
    and "om_get (ag_subtasks ag) sid = Some sb" and "ag_server ag = Some sv"
    and "0 < sv_port sv" and "sb_name sb \<noteq> []" and "\<bar>sb_plate sb\<bar> < 2 ^ 31"
    and "getenv ''OBN_COVER_DEBUG_FILE'' = None"
    and "\<forall>i. om_get (disk_at i) (path_for (temp_dir getenv tmp) (sb_name sb) (sb_plate sb) (sb_version sb)) = Some img"
    and "length (complete_reply img) \<le> length ns" and "\<forall>n \<in> set ns. 0 < n"
  shows "\<exists>v target. parse body = Inr v \<and>
    jfind v ''context.plates[0].thumbnail.url'' = String (''http://127.0.0.1:'' @ show_int (sv_port sv) @ target) \<and>
    (\<forall>reads rest. concat reads = ''GET '' @ target @ BLANK # rest \<and> [] \<notin> set reads \<longrightarrow>
       handle_one getenv tmp reads ns disk_at = complete_reply img)"
proof -
  let ?sc = "\<lparr>sc_name = sb_name sb, sc_plate = sb_plate sb,
      sc_url = url_for (temp_dir getenv tmp) (sb_name sb) (sb_plate sb) (sb_version sb) sv\<rparr>"
  have sc: "lookup_synthetic_subtask (temp_dir getenv tmp) sid ag = Some ?sc"
    using assms(2,3) by (simp add: lookup_synthetic_subtask_def)
  obtain v where v: "parse body = Inr v" "jfind v ''context.plates[0].thumbnail.url'' = String (sc_url ?sc)"
    using subtask_info_parses [OF assms(1) sc] assms(6) by auto
  have plate: "sb_plate sb < 2 ^ 31" using assms(6) by linarith
  from url_served [OF assms(4,5) plate assms(7,8,9,10)] v show ?thesis by auto
qed

definition printing_agent :: agent where
  "printing_agent = new_agent\<lparr>ag_server := Some up_server,
     ag_subtasks := [(''lan-1'', \<lparr>sb_name = ''cube'', sb_plate = 1, sb_version = ''7''\<rparr>)]\<rparr>"

theorem subtask_id_leads_to_image_witness:
  "\<exists>body v target. get_subtask_info (temp_dir no_env None) ''lan-1'' printing_agent = Some body \<and> parse body = Inr v \<and>
     jfind v ''context.plates[0].thumbnail.url'' = String (''http://127.0.0.1:40001'' @ target) \<and>
     handle_one no_env None [''GET '' @ target @ '' HTTP/1.1''] (replicate 200 1) cube_disk = complete_reply png_bytes"
proof -
  let ?sb = "\<lparr>sb_name = ''cube'', sb_plate = 1, sb_version = ''7''\<rparr>"
  have sb: "om_get (ag_subtasks printing_agent) ''lan-1'' = Some ?sb" "ag_server printing_agent = Some up_server"
    by (simp_all add: printing_agent_def om_get_Cons)
  have "url_for (temp_dir no_env None) ''cube'' 1 ''7'' up_server \<noteq> []"
    using cover_basename_facts(1) [of 1 "''cube''" "''7''"]
    by (auto simp: url_for_def path_for_def path_join_def up_facts starts_with_def Let_def)
  then obtain body where b: "get_subtask_info (temp_dir no_env None) ''lan-1'' printing_agent = Some body"
    using sb by (simp add: get_subtask_info_def lookup_synthetic_subtask_def Let_def del: emplace_all_simps)
  have "\<forall>i. om_get (cube_disk i) (path_for (temp_dir no_env None) (sb_name ?sb) (sb_plate ?sb) (sb_version ?sb)) = Some png_bytes"
    by (simp add: cube_disk_def om_get_Cons)
  from subtask_id_leads_to_image [OF b sb _ _ _ _ this up_facts(3)] up_facts obtain v target where t:
    "parse body = Inr v" "jfind v ''context.plates[0].thumbnail.url'' = String (''http://127.0.0.1:'' @ show_int 40001 @ target)"
    "\<And>reads rest. concat reads = ''GET '' @ target @ BLANK # rest \<Longrightarrow> [] \<notin> set reads \<Longrightarrow>
       handle_one no_env None reads (replicate 200 1) cube_disk = complete_reply png_bytes" by auto
  from t(3) [of "[''GET '' @ target @ '' HTTP/1.1'']" "''HTTP/1.1''"] t(1,2) b up_facts(2) show ?thesis by auto
qed

end
