(* ===== verification/Agent_Lan.thy ===== *)
theory Agent_Lan
  imports Agent
begin

text \<open>
  The printer side of \<open>src/agent.cpp\<close>: connecting to and disconnecting from the one LAN
  printer, sending to it, what happens to its messages on their way to Studio, and the device
  certificate. A host is the MQTT world with the in-flight set and workers of the cover cache.

  Taking the peer's certificate is network code (\<open>src/cert_store.cpp\<close>): its return value and
  what it leaves in the file are arguments.
\<close>

section \<open>The printer session\<close>

definition device_cert_path :: "bytes \<Rightarrow> bytes \<Rightarrow> bytes" where
  "device_cert_path config_dir dev_id =
     (if config_dir \<noteq> [] \<and> last config_dir = SLASH then butlast config_dir else config_dir) @ ''/certs/'' @ dev_id @ ''.pem''"

text \<open>\<open>captured\<close> is the result of the capture, \<open>written\<close> what it put into the file.\<close>

definition capture_peer_cert_pem :: "bool \<Rightarrow> bytes option \<Rightarrow> bytes \<Rightarrow> process \<Rightarrow> bool \<times> process" where
  "capture_peer_cert_pem captured written path p =
     (captured, case written of None \<Rightarrow> p | Some pem \<Rightarrow> p\<lparr>pr_disk := om_put path pem (pr_disk p)\<rparr>)"

definition has_file :: "process \<Rightarrow> bytes \<Rightarrow> bool" where
  "has_file p path = (om_get (pr_disk p) path \<noteq> None)"

text \<open>The peer certificate part of \<open>connect_printer\<close>.\<close>

definition prepare_peer_cert ::
  "settings \<Rightarrow> bool \<Rightarrow> bytes option \<Rightarrow> bool \<Rightarrow> bytes \<Rightarrow> bytes \<Rightarrow> bool \<Rightarrow> agent \<Rightarrow> process \<Rightarrow> agent \<times> process" where
  "prepare_peer_cert s captured written ok dev_id dev_ip use_ssl ag p =
     (if ag_config_dir ag = [] then (ag, p)
      else
        let peer = device_cert_path (ag_config_dir ag) dev_id;
            (ag1, p1) =
              (if use_ssl \<and> verify_enabled s p \<and> \<not> has_file p peer then
                 (let (good, p') = capture_peer_cert_pem captured written peer p in
                  (if good \<and> has_file p' peer then ag\<lparr>ag_certified := oset_insert dev_id (ag_certified ag)\<rparr> else ag, p'))
               else (ag, p)) in
        (ag1, if has_file p1 peer then registry_set_peer_cert dev_ip peer ok p1 else p1))"

definition connect_printer ::
  "start_env \<Rightarrow> settings \<Rightarrow> bool \<Rightarrow> bytes option \<Rightarrow> bool \<Rightarrow> bytes \<Rightarrow> bytes \<Rightarrow> bytes \<Rightarrow> bytes \<Rightarrow> bool \<Rightarrow> agent \<Rightarrow> world
   \<Rightarrow> int \<times> agent \<times> world" where
  "connect_printer e s captured written ok dev_id dev_ip usr pw use_ssl ag w =
     (let w1 = (case ag_lan ag of None \<Rightarrow> w | Some prev \<Rightarrow> snd (snd (lan_disconnect prev w)));
          switching = (case ag_lan ag of None \<Rightarrow> False | Some prev \<Rightarrow> ls_dev_id prev \<noteq> dev_id);
          ag1 = ag\<lparr>ag_lan := None, ag_certified := (if switching then [] else ag_certified ag)\<rparr>;
          ca_file = bambu_ca_bundle_path ag1 (pr_disk (wo_proc w1));
          p1 = registry_put_ip_serial dev_ip dev_id ok (registry_set_ca_file ca_file ok (wo_proc w1));
          (ag2, p2) = prepare_peer_cert s captured written ok dev_id dev_ip use_ssl ag1 p1;
          ls = new_lan_session dev_id dev_ip usr pw use_ssl ca_file;
          (rc, ls', w2) = lan_start e s ls (w1\<lparr>wo_proc := p2\<rparr>) in
      if rc = net_success then
        (rc, ag2\<lparr>ag_codes := om_put dev_id (ls_password ls') (ag_codes ag2), ag_lan := Some ls'\<rparr>, w2)
      else (rc, ag2, snd (snd (lan_disconnect ls' w2))))"

definition disconnect_printer :: "agent \<Rightarrow> world \<Rightarrow> int \<times> agent \<times> world" where
  "disconnect_printer ag w =
     (net_success, ag\<lparr>ag_ftp_ssl := True, ag_lan := None\<rparr>,
      case ag_lan ag of None \<Rightarrow> w | Some ls \<Rightarrow> snd (snd (lan_disconnect ls w)))"

definition send_message_to_printer :: "(mqtt_call \<Rightarrow> int) \<Rightarrow> bytes \<Rightarrow> bytes \<Rightarrow> int \<Rightarrow> agent \<Rightarrow> world \<Rightarrow> int \<times> world" where
  "send_message_to_printer rc dev_id js qos ag w =
     (case ag_lan ag of
        None \<Rightarrow> (net_err_invalid_handle, w)
      | Some ls \<Rightarrow> if ls_dev_id ls = dev_id then lan_publish_json rc js qos ls w else (net_err_invalid_handle, w))"

definition notify_local_connected :: "connect_status \<Rightarrow> bytes \<Rightarrow> bytes \<Rightarrow> agent \<Rightarrow> event list" where
  "notify_local_connected status dev_id msg ag = post ag On_local_connect (Local_connect_notice status dev_id msg)"

section \<open>Messages from the printer\<close>

record host =
  ho_world :: world
  ho_inflight :: "bytes oset"
  ho_workers :: "cover_job list"

definition peek :: "bytes \<Rightarrow> bytes \<Rightarrow> bytes" where
  "peek payload key = (case json_peek_string_field payload key of None \<Rightarrow> [] | Some v \<Rightarrow> v)"

definition print_version :: "bytes \<Rightarrow> bytes" where
  "print_version payload =
     (let v = peek payload ''task_id'' in
      if v = [] \<or> v = ''0'' then peek payload ''gcode_start_time'' else v)"

text \<open>The message as passed on, and the subtask id with its cover when the frame belongs to a print.\<close>

definition cover_request :: "bytes \<Rightarrow> bytes \<times> (bytes \<times> subtask) option" where
  "cover_request js =
     (let version = print_version js;
          (patched, synth) = try_rewrite_print_ids js version;
          name = peek patched ''subtask_name'';
          real_id = peek patched ''subtask_id'';
          by_real = (if real_id \<noteq> [] \<and> real_id \<noteq> ''0'' then Some (real_id, \<lparr>sb_name = name, sb_plate = 1, sb_version = []\<rparr>) else None) in
      (patched,
       if name = [] \<or> name = ''-1'' then None
       else case synth of
           None \<Rightarrow> by_real
         | Some sid \<Rightarrow> if sid \<noteq> [] then Some (sid, \<lparr>sb_name = name, sb_plate = 1, sb_version = version\<rparr>) else by_real))"

definition cap_subtasks :: "(bytes, subtask) omap \<Rightarrow> (bytes, subtask) omap" where
  "cap_subtasks m = drop (length m - 16) m"

definition start_cover_server :: "int + int \<Rightarrow> server option \<Rightarrow> server option" where
  "start_cover_server sock sv =
     (case sv of
        Some s \<Rightarrow> Some s
      | None \<Rightarrow> (let (rc, s) = server_start sock new_server in if rc \<noteq> 0 then None else Some s))"

definition ensure_cover :: "bytes \<Rightarrow> bytes \<Rightarrow> lan_session option \<Rightarrow> subtask \<Rightarrow> host \<Rightarrow> host" where
  "ensure_cover dir dev_id lan sb h =
     (case lan of
        None \<Rightarrow> h
      | Some ls \<Rightarrow>
          (if ls_dev_ip ls = [] then h
           else
             let st = ensure dir (ls_dev_ip ls) dev_id (ls_username ls) (ls_password ls) (sb_name sb) (sb_plate sb) (sb_version sb)
                        \<lparr>cv_disk = pr_disk (wo_proc (ho_world h)), cv_inflight = ho_inflight h, cv_workers = ho_workers h\<rparr> in
             h\<lparr>ho_inflight := cv_inflight st, ho_workers := cv_workers st\<rparr>))"

definition notify_local_message :: "bytes \<Rightarrow> int + int \<Rightarrow> bytes \<Rightarrow> bytes \<Rightarrow> agent \<Rightarrow> host \<Rightarrow> agent \<times> host \<times> event list" where
  "notify_local_message dir sock dev_id js ag h =
     (let (patched, req) = cover_request js;
          (ag1, h1) =
            (case req of
               None \<Rightarrow> (ag, h)
             | Some (cover_id, sb) \<Rightarrow>
                 (ag\<lparr>ag_subtasks := cap_subtasks (om_put cover_id sb (ag_subtasks ag)),
                     ag_server := start_cover_server sock (ag_server ag)\<rparr>,
                  ensure_cover dir dev_id (ag_lan ag) sb h));
          fw = (case om_get (ag_firmware ag1) dev_id of None \<Rightarrow> [] | Some fw \<Rightarrow> fw);
          ag2 = ag1\<lparr>ag_firmware := om_put dev_id (update_fw_state fw patched) (ag_firmware ag1)\<rparr> in
      (ag2, h1, call_now ag On_local_message (Local_message_notice dev_id patched)))"

section \<open>The device certificate\<close>

text \<open>
  \<open>install_device_cert\<close> takes the lock several times: the fast checks, the file that is already
  there, and the launch of the worker. The result says whether the worker is launched, with the
  address it connects to.
\<close>

definition cert_wanted :: "bytes \<Rightarrow> int \<Rightarrow> agent \<Rightarrow> bytes option" where
  "cert_wanted dev_id now ag =
     (if oset_mem dev_id (ag_certified ag) \<or> oset_mem dev_id (ag_snapshots ag) then None
      else if (case om_get (ag_cooldown ag) dev_id of None \<Rightarrow> False | Some t \<Rightarrow> now < t) then None
      else case ag_lan ag of
          None \<Rightarrow> None
        | Some ls \<Rightarrow>
            (if ls_dev_id ls = dev_id \<and> ls_dev_ip ls \<noteq> [] \<and> ag_config_dir ag \<noteq> [] then Some (ls_dev_ip ls) else None))"

definition cert_launch :: "bytes \<Rightarrow> bytes \<Rightarrow> agent \<Rightarrow> agent \<times> bytes option" where
  "cert_launch dev_id ip ag =
     (case ag_lan ag of
        Some ls \<Rightarrow> if ls_dev_id ls = dev_id then (ag, None)
          else (ag\<lparr>ag_snapshots := oset_insert dev_id (ag_snapshots ag)\<rparr>, Some ip)
      | None \<Rightarrow> (ag\<lparr>ag_snapshots := oset_insert dev_id (ag_snapshots ag)\<rparr>, Some ip))"

definition install_device_cert :: "bytes \<Rightarrow> bool \<Rightarrow> int \<Rightarrow> bool \<Rightarrow> agent \<Rightarrow> process \<Rightarrow> agent \<times> process \<times> bytes option" where
  "install_device_cert dev_id lan_only now ok ag p =
     (if \<not> lan_only then (ag, p, None)
      else case cert_wanted dev_id now ag of
          None \<Rightarrow> (ag, p, None)
        | Some ip \<Rightarrow>
            (let out_path = device_cert_path (ag_config_dir ag) dev_id in
             if has_file p out_path then
               (ag\<lparr>ag_certified := oset_insert dev_id (ag_certified ag)\<rparr>, registry_set_peer_cert ip out_path ok p, None)
             else let (ag', launched) = cert_launch dev_id ip ag in (ag', p, launched)))"

definition cert_worker :: "bool \<Rightarrow> bytes option \<Rightarrow> int \<Rightarrow> bool \<Rightarrow> bytes \<Rightarrow> bytes \<Rightarrow> bytes \<Rightarrow> agent \<Rightarrow> process \<Rightarrow> agent \<times> process" where
  "cert_worker captured written now ok dev_id ip config_dir ag p =
     (let out_path = device_cert_path config_dir dev_id;
          (good, p1) = capture_peer_cert_pem captured written out_path p;
          ag1 = ag\<lparr>ag_snapshots := oset_erase dev_id (ag_snapshots ag)\<rparr> in
      if good then
        (ag1\<lparr>ag_certified := oset_insert dev_id (ag_certified ag1), ag_cooldown := om_del dev_id (ag_cooldown ag1)\<rparr>,
         registry_set_peer_cert ip out_path ok p1)
      else (ag1\<lparr>ag_cooldown := om_put dev_id (now + 60 * nanos) (ag_cooldown ag1)\<rparr>, p1))"

section \<open>Laws\<close>

lemma cert_not_launched: "snd (snd (install_device_cert dev_id lan_only now ok ag p)) = None"
proof (cases "cert_wanted dev_id now ag")
  case (Some ip)
  then obtain ls where "ag_lan ag = Some ls" "ls_dev_id ls = dev_id"
    by (auto simp: cert_wanted_def split: if_splits option.splits)
  with Some show ?thesis by (simp add: install_device_cert_def cert_launch_def Let_def)
qed (simp add: install_device_cert_def)

lemma cap_subtasks_id: "length m \<le> 16 \<Longrightarrow> cap_subtasks m = m"
  by (simp add: cap_subtasks_def)

lemma length_om_put: "om_ok m \<Longrightarrow> length (om_put k v m) = (if om_get m k = None then Suc (length m) else length m)"
  by (induction k v m rule: om_put.induct) (auto simp: om_get_Cons om_ok_Cons om_get_None_iff)

lemma om_put_first: "om_ok m \<Longrightarrow> \<forall>k' \<in> fst ` set m. k < k' \<Longrightarrow> om_put k v m = (k, v) # m"
  by (cases m) auto

lemma drop_one_get:
  assumes "om_ok m" and "length m = 17"
  shows "om_get (drop 1 m) k = (if m \<noteq> [] \<and> k = fst (hd m) then None else om_get m k)"
  using assms by (cases m) (auto simp: om_get_Cons om_ok_Cons om_get_None_iff, fastforce)

text \<open>What the cap does to the entry just made.\<close>

lemma cap_put_get:
  assumes "om_ok m" and "length m \<le> 16"
  shows "om_get (cap_subtasks (om_put k v m)) k =
    (if length m = 16 \<and> (\<forall>k' \<in> fst ` set m. k < k') then None else Some v)"
proof (cases "length m = 16 \<and> om_get m k = None")
  case False
  then have "length (om_put k v m) \<le> 16" using assms length_om_put [OF assms(1), of k v] by auto
  then have "om_get (cap_subtasks (om_put k v m)) k = Some v" using assms(1) by (simp add: cap_subtasks_id)
  moreover have "\<not> (length m = 16 \<and> (\<forall>k' \<in> fst ` set m. k < k'))"
    using False by (auto simp: om_get_None_iff)
  ultimately show ?thesis by simp
next
  case True
  then have len: "length (om_put k v m) = 17" using length_om_put [OF assms(1), of k v] by simp
  then have cap: "cap_subtasks (om_put k v m) = drop 1 (om_put k v m)" by (simp add: cap_subtasks_def)
  have get: "om_get (drop 1 (om_put k v m)) k = (if k = fst (hd (om_put k v m)) then None else Some v)"
    using drop_one_get [OF _ len, of k] assms(1) len by auto
  have "k = fst (hd (om_put k v m)) \<longleftrightarrow> (\<forall>k' \<in> fst ` set m. k < k')"
  proof
    assume h: "k = fst (hd (om_put k v m))"
    have ok: "om_ok (om_put k v m)" using assms(1) by simp
    obtain k0 v0 m' where m': "om_put k v m = (k0, v0) # m'" using len by (cases "om_put k v m") auto
    then have "k0 = k" using h by simp
    then have "\<forall>k' \<in> fst ` set (om_put k v m). k \<le> k'" using ok m' by (auto simp: om_ok_Cons)
    moreover have "k \<notin> fst ` set m" using True by (simp add: om_get_None_iff)
    ultimately show "\<forall>k' \<in> fst ` set m. k < k'" by (metis insertI2 keys_om_put order_le_imp_less_or_eq)
  next
    assume "\<forall>k' \<in> fst ` set m. k < k'"
    then show "k = fst (hd (om_put k v m))" using om_put_first [OF assms(1)] by simp
  qed
  with True cap get show ?thesis by simp
qed

text \<open>Which print's id the agent knows. After a message of a print has been handled, Studio's
  question for the id the agent derived from it finds name, plate and version, except in one case:
  when sixteen prints are listed and the new id comes before all of theirs, the cap throws out
  the entry just made.\<close>

theorem print_listed:
  assumes "notify_local_message dir sock dev_id js ag h = (ag', h', evs)"
    and "snd (cover_request js) = Some (cover_id, sb)"
    and "om_ok (ag_subtasks ag)" and "length (ag_subtasks ag) \<le> 16"
  shows "om_get (ag_subtasks ag') cover_id =
    (if length (ag_subtasks ag) = 16 \<and> (\<forall>k \<in> fst ` set (ag_subtasks ag). cover_id < k) then None else Some sb)"
proof -
  obtain patched where c: "cover_request js = (patched, Some (cover_id, sb))"
    using assms(2) by (cases "cover_request js") auto
  have "ag_subtasks ag' = cap_subtasks (om_put cover_id sb (ag_subtasks ag))"
    using assms(1) by (auto simp: notify_local_message_def c Let_def)
  with cap_put_get [OF assms(3,4)] show ?thesis by simp
qed

definition cloud_frame :: bytes where
  "cloud_frame = QUOTE # ''subtask_name'' @ [QUOTE, CHR '':'', QUOTE] @ ''cube'' @ [QUOTE, CHR '','', QUOTE] @
     ''subtask_id'' @ [QUOTE, CHR '':'', QUOTE] @ ''77'' @ [QUOTE]"

lemma cloud_frame_fields:
  "json_peek_string_field cloud_frame ''subtask_name'' = Some ''cube''"
  "json_peek_string_field cloud_frame ''subtask_id'' = Some ''77''"
  "json_peek_string_field cloud_frame ''task_id'' = None"
  "json_peek_string_field cloud_frame ''gcode_start_time'' = None"
  "patch_string_zero_to cloud_frame ''project_id'' v = (cloud_frame, False)"
  "patch_string_zero_to cloud_frame ''profile_id'' v = (cloud_frame, False)"
  "patch_string_zero_to cloud_frame ''task_id'' v = (cloud_frame, False)"
  "patch_string_zero_to cloud_frame ''subtask_id'' v = (cloud_frame, False)"
  by (simp_all add: cloud_frame_def json_peek_string_field_def patch_string_zero_to_def field_needle_def)

lemma cloud_frame_request:
  "cover_request cloud_frame = (cloud_frame, Some (''77'', \<lparr>sb_name = ''cube'', sb_plate = 1, sb_version = []\<rparr>))"
  by (simp add: cover_request_def print_version_def peek_def try_rewrite_print_ids_def patch_ids_def cloud_frame_fields Let_def)

definition quiet_host :: host where
  "quiet_host = \<lparr>ho_world = quiet_world, ho_inflight = [], ho_workers = []\<rparr>"

theorem print_listed_witness:
  "om_get (ag_subtasks (fst (notify_local_message ''/c'' (Inr 40001) ''S1'' cloud_frame new_agent quiet_host))) ''77'' =
     Some \<lparr>sb_name = ''cube'', sb_plate = 1, sb_version = []\<rparr>"
proof -
  obtain ag' h' evs where n: "notify_local_message ''/c'' (Inr 40001) ''S1'' cloud_frame new_agent quiet_host = (ag', h', evs)"
    by (metis surj_pair)
  have "snd (cover_request cloud_frame) = Some (''77'', \<lparr>sb_name = ''cube'', sb_plate = 1, sb_version = []\<rparr>)"
    by (simp add: cloud_frame_request)
  from print_listed [OF n this] have "om_get (ag_subtasks ag') ''77'' = Some \<lparr>sb_name = ''cube'', sb_plate = 1, sb_version = []\<rparr>"
    by (simp add: new_agent_def)
  then show ?thesis unfolding n by simp
qed

text \<open>
  A frame that has a real subtask id but a zero project id: the rewriting counts as done, the
  cover is listed under a synthetic id, yet Studio reads the real id, which is not listed.
\<close>

definition mixed_frame :: bytes where
  "mixed_frame = QUOTE # ''project_id'' @ [QUOTE, CHR '':'', QUOTE] @ ''0'' @ [QUOTE, CHR '','' ] @ cloud_frame"

definition mixed_patched :: bytes where
  "mixed_patched = QUOTE # ''project_id'' @ [QUOTE, CHR '':'', QUOTE] @ ''lan'' @ [QUOTE, CHR '','' ] @ cloud_frame"

lemma mixed_frame_fields:
  "json_peek_string_field mixed_frame ''subtask_name'' = Some ''cube''"
  "json_peek_string_field mixed_frame ''task_id'' = None"
  "json_peek_string_field mixed_frame ''gcode_start_time'' = None"
  "patch_string_zero_to mixed_frame ''project_id'' ''lan'' = (mixed_patched, True)"
  by (simp_all add: mixed_frame_def mixed_patched_def cloud_frame_def json_peek_string_field_def patch_string_zero_to_def field_needle_def)

lemma mixed_patched_fields:
  "json_peek_string_field mixed_patched ''subtask_name'' = Some ''cube''"
  "json_peek_string_field mixed_patched ''subtask_id'' = Some ''77''"
  "patch_string_zero_to mixed_patched ''profile_id'' v = (mixed_patched, False)"
  "patch_string_zero_to mixed_patched ''task_id'' v = (mixed_patched, False)"
  "patch_string_zero_to mixed_patched ''subtask_id'' v = (mixed_patched, False)"
  by (simp_all add: mixed_patched_def cloud_frame_def json_peek_string_field_def patch_string_zero_to_def field_needle_def)

lemma mixed_ids_unmapped:
  "\<exists>sid sb. cover_request mixed_frame = (mixed_patched, Some (sid, sb)) \<and>
     peek mixed_patched ''subtask_id'' = ''77'' \<and> sid \<noteq> ''77''"
  by (simp add: cover_request_def print_version_def peek_def try_rewrite_print_ids_def patch_ids_def mixed_frame_fields
      mixed_patched_fields synthetic_subtask_id_def Let_def)

end
