(* ===== verification/Agent_Cloud.thy ===== *)
theory Agent_Cloud
  imports Agent_Lan
begin

text \<open>
  The cloud side of \<open>src/agent.cpp\<close>: the login with its session file, the cloud MQTT session
  and what its callbacks tell Studio. The two HTTP calls (token refresh and profile) are
  arguments, as are the clock and the fate of each write of the session file.
\<close>

section \<open>Login\<close>

record auth_result =
  ar_ok :: bool
  ar_access_token :: bytes
  ar_refresh_token :: bytes
  ar_expires_in :: int

record profile_result =
  pf_ok :: bool
  pf_user_id :: bytes
  pf_user_name :: bytes
  pf_nick_name :: bytes
  pf_avatar :: bytes

definition default_lifetime :: int where "default_lifetime = 3 * 30 * 24 * 3600"

definition margin_seconds :: int where "margin_seconds = 600"

definition hydrate_session :: "int \<Rightarrow> auth_result \<Rightarrow> persist_outcome \<Rightarrow> agent \<Rightarrow> disk \<Rightarrow> agent \<times> disk" where
  "hydrate_session now r out ag d =
     (case ag_auth ag of
        None \<Rightarrow> (ag, d)
      | Some st \<Rightarrow>
          (let s = st_session st in
           if \<not> logged_in s \<or> \<not> needs_refresh now margin_seconds st \<or> si_refresh_token s = [] \<or> \<not> ar_ok r then (ag, d)
           else
             let (st', d') = update_tokens now (ar_access_token r)
                               (if ar_refresh_token r = [] then si_refresh_token s else ar_refresh_token r)
                               (if ar_expires_in r > 0 then ar_expires_in r else default_lifetime) out d st in
             (ag\<lparr>ag_auth := Some st'\<rparr>, d')))"

definition auth_path :: "bytes \<Rightarrow> bytes" where
  "auth_path cfg = cfg @ ''/obn.auth.json''"

definition set_config_dir ::
  "int \<Rightarrow> auth_result \<Rightarrow> persist_outcome \<Rightarrow> bool \<Rightarrow> bytes \<Rightarrow> agent \<Rightarrow> process \<Rightarrow> agent \<times> process" where
  "set_config_dir now r out ok dir ag p =
     (let ag1 = ag\<lparr>ag_config_dir := dir\<rparr> in
      if dir = [] then (ag1, p)
      else
        let p1 = registry_set_config_dir dir ok p;
            st = load (pr_disk p1) (new_store (auth_path dir));
            (ag2, d) = hydrate_session now r out (ag1\<lparr>ag_auth := Some st\<rparr>) (pr_disk p1) in
        (ag2, p1\<lparr>pr_disk := d\<rparr>))"

definition read_int_or_str :: "json \<Rightarrow> int" where
  "read_int_or_str v =
     (if is_number v then as_int 0 v
      else if as_string v = [] then 0
      else case stoll (as_string v) of None \<Rightarrow> 0 | Some n \<Rightarrow> n)"

record login_info =
  lg_access_token :: bytes
  lg_refresh_token :: bytes
  lg_expires_in :: int
  lg_account :: bytes
  lg_user_id :: bytes
  lg_user_name :: bytes
  lg_nick_name :: bytes
  lg_avatar :: bytes
  lg_inline :: bool

text \<open>The two shapes of the login text: the envelope Studio builds, or the plain answer of the API.\<close>

definition read_login :: "json \<Rightarrow> login_info" where
  "read_login doc =
     (let str = (\<lambda>k. as_string (jfind doc k));
          account = str ''data.user.account'';
          user_id = str ''data.user.uid'';
          user_name = str ''data.user.name'';
          avatar = str ''data.user.avatar'';
          plain = (str ''data.token'' = []) in
      \<lparr>lg_access_token = (if plain then str ''accessToken'' else str ''data.token''),
       lg_refresh_token = (if plain then str ''refreshToken'' else str ''data.refresh_token''),
       lg_expires_in = (if plain then read_int_or_str (jfind doc ''expiresIn'') else read_int_or_str (jfind doc ''data.expires_in'')),
       lg_account = (if plain then str ''account'' else account),
       lg_user_id = user_id, lg_user_name = user_name, lg_nick_name = str ''data.user.nickname'', lg_avatar = avatar,
       lg_inline = (user_id \<noteq> [] \<or> user_name \<noteq> [] \<or> avatar \<noteq> [] \<or> account \<noteq> [])\<rparr>)"

definition login_session :: "int \<Rightarrow> bytes \<Rightarrow> login_info \<Rightarrow> session_info \<Rightarrow> session_info" where
  "login_session now region l s =
     s\<lparr>si_region := region,
       si_access_token := lg_access_token l,
       si_refresh_token := (if lg_refresh_token l \<noteq> [] then lg_refresh_token l else si_refresh_token s),
       si_account := (if lg_account l \<noteq> [] then lg_account l else si_account s),
       si_expires_at := after_seconds now (if lg_expires_in l > 0 then lg_expires_in l else default_lifetime)\<rparr>"

definition apply_login_info ::
  "int \<Rightarrow> profile_result \<Rightarrow> persist_outcome \<Rightarrow> persist_outcome \<Rightarrow> bytes \<Rightarrow> agent \<Rightarrow> disk \<Rightarrow> int \<times> agent \<times> disk \<times> event list" where
  "apply_login_info now prof out1 out2 login_text ag d =
     (case ag_auth ag of
        None \<Rightarrow> (net_err_invalid_handle, ag, d, [])
      | Some st \<Rightarrow>
          (case parse_opt login_text of
             None \<Rightarrow> (net_err_invalid_result, ag, d, [])
           | Some doc \<Rightarrow>
               (let l = read_login doc in
                if lg_access_token l = [] then (net_err_invalid_result, ag, d, [])
                else
                  let (st1, d1) = set_session (login_session now (cloud_region ag) l (st_session st)) out1 d st;
                      (st2, d2) =
                        (if lg_inline l
                         then update_profile (lg_user_id l) (lg_user_name l) (lg_nick_name l) (lg_avatar l) out2 d1 st1
                         else if pf_ok prof
                         then update_profile (pf_user_id prof) (pf_user_name prof) (pf_nick_name prof) (pf_avatar prof) out2 d1 st1
                         else (st1, d1)) in
                  (net_success, ag\<lparr>ag_auth := Some st2\<rparr>, d2, call_now ag On_user_login (Login_notice 0 ''ok'')))))"

definition clear_session :: "agent \<Rightarrow> disk \<Rightarrow> agent \<times> disk \<times> event list" where
  "clear_session ag d =
     (let (auth, d') = (case ag_auth ag of None \<Rightarrow> (None, d)
                        | Some st \<Rightarrow> (let (st', d') = clear_store d st in (Some st', d'))) in
      (ag\<lparr>ag_auth := auth\<rparr>, d', call_now ag On_user_login (Login_notice 1 ''logout'')))"

section \<open>The cloud session\<close>

text \<open>\<open>start\<close> takes the callbacks over unless the session is already started.\<close>

definition connect_cloud :: "start_env \<Rightarrow> settings \<Rightarrow> agent \<Rightarrow> world \<Rightarrow> int \<times> agent \<times> world" where
  "connect_cloud e s ag w =
     (let cs0 = (case ag_cloud ag of None \<Rightarrow> new_cloud_session | Some cs \<Rightarrow> cs);
          ag1 = ag\<lparr>ag_cloud := Some cs0\<rparr> in
      case ag_auth ag of
        None \<Rightarrow> (net_err_invalid_handle, ag1, w)
      | Some st \<Rightarrow>
          (if \<not> logged_in (st_session st) then (net_err_invalid_handle, ag1, w)
           else
             let cs1 = cloud_configure (cloud_region ag) (si_user_id (st_session st)) (si_access_token (st_session st)) [] cs0;
                 (rc, cs2, w') = cloud_start e s cs1 w in
             (rc, ag1\<lparr>ag_cloud := Some cs2,
                      ag_cloud_callbacks := (if cs_started cs0 then ag_cloud_callbacks ag else ag_callbacks ag)\<rparr>, w')))"

text \<open>\<open>stop\<close>, then the destructor, which drops a client that was never started.\<close>

definition disconnect_cloud :: "agent \<Rightarrow> world \<Rightarrow> int \<times> agent \<times> world" where
  "disconnect_cloud ag w =
     (net_success, ag\<lparr>ag_cloud := None, ag_cloud_devs := []\<rparr>,
      case ag_cloud ag of
        None \<Rightarrow> w
      | Some cs \<Rightarrow> (let (cs', w') = cloud_stop cs w in drop_client (cs_client cs') w'))"

definition cloud_connected :: "agent \<Rightarrow> bool" where
  "cloud_connected ag = (case ag_cloud ag of None \<Rightarrow> False | Some cs \<Rightarrow> cs_connected cs)"

definition cloud_refresh :: "start_env \<Rightarrow> settings \<Rightarrow> agent \<Rightarrow> world \<Rightarrow> int \<times> agent \<times> world" where
  "cloud_refresh e s ag w =
     (if cloud_connected ag then (net_success, ag, w)
      else let (_, ag', w') = disconnect_cloud ag w in connect_cloud e s ag' w')"

definition agent_add_subscribe :: "(mqtt_call \<Rightarrow> int) \<Rightarrow> bytes list \<Rightarrow> agent \<Rightarrow> world \<Rightarrow> int \<times> agent \<times> world \<times> cloud_report list" where
  "agent_add_subscribe rc dev_ids ag w =
     (case ag_cloud ag of
        None \<Rightarrow> (net_err_invalid_handle, ag, w, [])
      | Some cs \<Rightarrow>
          (let (cs', calls, reports) = cloud_add_subscribe rc dev_ids cs in
           (net_success, ag\<lparr>ag_cloud := Some cs'\<rparr>, log_calls calls w, reports)))"

definition agent_del_subscribe :: "bytes list \<Rightarrow> agent \<Rightarrow> world \<Rightarrow> int \<times> agent \<times> world" where
  "agent_del_subscribe dev_ids ag w =
     (let ag1 = ag\<lparr>ag_cloud_devs := fold oset_erase dev_ids (ag_cloud_devs ag)\<rparr> in
      case ag_cloud ag of
        None \<Rightarrow> (net_success, ag1, w)
      | Some cs \<Rightarrow>
          (let (cs', calls) = cloud_del_subscribe dev_ids cs in
           (net_success, ag1\<lparr>ag_cloud := Some cs'\<rparr>, log_calls calls w)))"

definition cloud_send_message :: "(mqtt_call \<Rightarrow> int) \<Rightarrow> bytes \<Rightarrow> bytes \<Rightarrow> int \<Rightarrow> agent \<Rightarrow> world \<Rightarrow> int \<times> world" where
  "cloud_send_message rc dev_id js qos ag w =
     (case ag_cloud ag of
        None \<Rightarrow> (net_err_send_msg_failed, w)
      | Some cs \<Rightarrow> (let (r, calls) = cloud_publish rc dev_id js qos cs in (r, log_calls calls w)))"

section \<open>What the cloud session tells Studio\<close>

definition queued_if :: "bool \<Rightarrow> notice \<Rightarrow> event" where
  "queued_if q n = (if q then Queued n else Called n)"

definition on_cloud_connected :: "int \<Rightarrow> int \<Rightarrow> agent \<Rightarrow> event list" where
  "on_cloud_connected status reason ag =
     (if ag_cloud_callbacks ag On_server_connected
      then [queued_if (ag_cloud_callbacks ag Queue_on_main) (Server_notice status reason)] else [])"

definition on_cloud_message :: "bytes \<Rightarrow> bytes \<Rightarrow> agent \<Rightarrow> agent \<times> event list" where
  "on_cloud_message dev_id js ag =
     (let is_first = (\<not> oset_mem dev_id (ag_cloud_devs ag)) in
      (ag\<lparr>ag_cloud_devs := oset_insert dev_id (ag_cloud_devs ag)\<rparr>,
       (if is_first \<and> ag_cloud_callbacks ag On_printer_connected
        then [queued_if (ag_callbacks ag Queue_on_main) (Printer_notice (''tunnel/'' @ dev_id))] else []) @
       (if ag_cloud_callbacks ag On_message then [Called (Message_notice dev_id js)] else [])))"

definition on_cloud_subscribe_failed :: "bytes \<Rightarrow> agent \<Rightarrow> event list" where
  "on_cloud_subscribe_failed dev_id ag =
     (if ag_cloud_callbacks ag On_subscribe_failure
      then [queued_if (ag_callbacks ag Queue_on_main) (Subscribe_failure_notice dev_id)] else [])"

section \<open>A login and a restart\<close>

definition login_json :: bytes where
  "login_json = dump (Object [(''accessToken'', String ''tok''), (''refreshToken'', String ''ref'')])"

lemma update_profile_facts:
  assumes "update_profile u n k v out d st = (st', d')"
  shows "st_path st' = st_path st \<and> si_access_token (st_session st') = si_access_token (st_session st) \<and>
    si_expires_at (st_session st') = si_expires_at (st_session st) \<and> d' = persist out d st'"
  using assms by (auto simp: update_profile_def set_session_def Let_def)

lemma apply_login_facts:
  assumes "apply_login_info now prof out1 out2 login ag d = (net_success, ag', d', evs)" and "ag_auth ag = Some st"
  obtains doc st' out d0 where "parse_opt login = Some doc" "ag_auth ag' = Some st'" "d' = persist out d0 st'"
    "d0 = d \<and> out = out1 \<or> (\<exists>st1. d0 = persist out1 d st1 \<and> st_path st1 = st_path st \<and> out = out2)" "st_path st' = st_path st"
    "si_access_token (st_session st') = lg_access_token (read_login doc)" "lg_access_token (read_login doc) \<noteq> []"
    "\<not> lg_inline (read_login doc) \<Longrightarrow> \<not> pf_ok prof \<Longrightarrow> si_user_id (st_session st') = si_user_id (st_session st)"
proof -
  obtain doc where doc: "parse_opt login = Some doc"
    using assms by (auto simp: apply_login_info_def net_codes split: option.splits)
  let ?l = "read_login doc"
  have tok: "lg_access_token ?l \<noteq> []"
    using assms doc by (auto simp: apply_login_info_def net_codes Let_def split: if_splits)
  let ?s1 = "login_session now (cloud_region ag) ?l (st_session st)"
  let ?st1 = "st\<lparr>st_session := ?s1\<rparr>"
  let ?d1 = "persist out1 d ?st1"
  have s1: "set_session ?s1 out1 d st = (?st1, ?d1)" by (simp add: set_session_def Let_def)
  have t1: "si_access_token ?s1 = lg_access_token ?l" "si_user_id ?s1 = si_user_id (st_session st)" by (simp_all add: login_session_def)
  show ?thesis
  proof (cases "lg_inline ?l \<or> pf_ok prof")
    case False
    then have "ag' = ag\<lparr>ag_auth := Some ?st1\<rparr>" "d' = ?d1"
      using assms doc tok by (simp_all add: apply_login_info_def s1 Let_def)
    then show ?thesis by (intro that [OF doc, of ?st1 out1 d]) (use t1 tok False in simp_all)
  next
    case True
    show ?thesis
    proof (cases "lg_inline ?l")
      case inline: True
      obtain st2 d2 where u: "update_profile (lg_user_id ?l) (lg_user_name ?l) (lg_nick_name ?l) (lg_avatar ?l) out2 ?d1 ?st1 = (st2, d2)"
        by (metis surj_pair)
      then have e: "d' = d2" "ag' = ag\<lparr>ag_auth := Some st2\<rparr>"
        using assms doc tok inline by (simp_all add: apply_login_info_def s1 Let_def)
      show ?thesis
        by (rule that [OF doc, of st2 out2 ?d1])
          (use update_profile_facts [OF u] e t1 tok inline in \<open>auto intro!: exI [of _ ?st1]\<close>)
    next
      case outline: False
      obtain st2 d2 where u: "update_profile (pf_user_id prof) (pf_user_name prof) (pf_nick_name prof) (pf_avatar prof) out2 ?d1 ?st1 = (st2, d2)"
        by (metis surj_pair)
      then have e: "d' = d2" "ag' = ag\<lparr>ag_auth := Some st2\<rparr>"
        using assms doc tok outline True by (simp_all add: apply_login_info_def s1 Let_def)
      show ?thesis
        by (rule that [OF doc, of st2 out2 ?d1])
          (use update_profile_facts [OF u] e t1 tok outline True in \<open>auto intro!: exI [of _ ?st1]\<close>)
    qed
  qed
qed

text \<open>C17: a login is kept. A login text without a token, or one that does not parse, changes nothing
  and tells Studio nothing; a successful login puts the text's token in the session, and when both
  writes of the session file succeed, an agent started afterwards loads exactly this session.\<close>

theorem login_survives_restart:
  assumes "apply_login_info now prof Persisted Persisted login ag d = (rc, ag', d', evs)"
    and "ag_auth ag = Some st" and "st_path st \<noteq> []" and "om_ok d"
  shows "(rc \<noteq> net_success \<longrightarrow> ag' = ag \<and> d' = d \<and> evs = []) \<and>
    (rc = net_success \<longrightarrow> (\<exists>doc st'. parse_opt login = Some doc \<and> ag_auth ag' = Some st' \<and>
       si_access_token (st_session st') = lg_access_token (read_login doc) \<and> si_access_token (st_session st') \<noteq> [] \<and>
       (0 \<le> si_expires_at (st_session st') \<and> si_expires_at (st_session st') < 2 ^ 63 \<longrightarrow>
        st_session (load d' (new_store (st_path st))) = on_disk (st_session st'))))"
proof (cases "rc = net_success")
  case False
  then show ?thesis
    using assms(1,2) by (auto simp: apply_login_info_def net_codes Let_def split: option.splits if_splits prod.splits)
next
  case True
  obtain doc st' out d0 where f: "parse_opt login = Some doc" "ag_auth ag' = Some st'" "d' = persist out d0 st'"
    "d0 = d \<and> out = Persisted \<or> (\<exists>st1. d0 = persist Persisted d st1 \<and> st_path st1 = st_path st \<and> out = Persisted)"
    "st_path st' = st_path st" "si_access_token (st_session st') = lg_access_token (read_login doc)" "lg_access_token (read_login doc) \<noteq> []"
    using apply_login_facts [OF assms(1) [unfolded True] assms(2)] by metis
  then have "out = Persisted" "om_ok d0" using assms(4) persist_ok by auto
  then have "om_get d' (st_path st) = Some (session_text (st_session st'))"
    using persist_get [of d0 st' Persisted] f(3,5) assms(3) by simp
  then have "st_session (load d' (new_store (st_path st))) = on_disk (st_session st')"
    if "0 \<le> si_expires_at (st_session st')" "si_expires_at (st_session st') < 2 ^ 63"
    using read_session_text [OF that] assms(3) by (simp add: load_def new_store_def)
  with f True show ?thesis by metis
qed

text \<open>
  A login whose text carries no profile, when the profile cannot be fetched either, keeps the user
  id of the session before it: after a change of account the new token goes with the old user.
\<close>

lemma login_keeps_old_user:
  assumes "apply_login_info now prof out1 out2 login ag d = (net_success, ag', d', evs)" and "ag_auth ag = Some st"
    and "parse_opt login = Some doc" and "\<not> lg_inline (read_login doc)" and "\<not> pf_ok prof"
  shows "\<exists>st'. ag_auth ag' = Some st' \<and> si_user_id (st_session st') = si_user_id (st_session st) \<and>
    si_access_token (st_session st') = lg_access_token (read_login doc)"
  using apply_login_facts [OF assms(1,2)] assms(3-5) by (metis option.inject)

definition account_agent :: agent where
  "account_agent = new_agent\<lparr>ag_auth := Some (new_store ''f'')\<rparr>"

definition no_profile :: profile_result where
  "no_profile = \<lparr>pf_ok = False, pf_user_id = [], pf_user_name = [], pf_nick_name = [], pf_avatar = []\<rparr>"

lemma parse_login_json: "parse_opt login_json = Some (Object [(''accessToken'', String ''tok''), (''refreshToken'', String ''ref'')])"
proof -
  have "dumpable (Object [(''accessToken'', String ''tok''), (''refreshToken'', String ''ref'')])" by (simp add: om_ok_def)
  from parse_dump [OF this] show ?thesis by (simp add: parse_opt_def login_json_def)
qed

theorem login_survives_restart_witness:
  "\<exists>rc ag' d' evs doc st'. apply_login_info 0 no_profile Persisted Persisted login_json account_agent [] = (rc, ag', d', evs) \<and>
     rc = net_success \<and> parse_opt login_json = Some doc \<and> ag_auth ag' = Some st' \<and>
     si_access_token (st_session st') = lg_access_token (read_login doc)"
proof -
  let ?doc = "Object [(''accessToken'', String ''tok''), (''refreshToken'', String ''ref'')]"
  obtain rc ag' d' evs where r: "apply_login_info 0 no_profile Persisted Persisted login_json account_agent [] = (rc, ag', d', evs)"
    by (metis surj_pair)
  have k: "plain_key ''accessToken''" "plain_key ''data''" by (simp_all add: plain_key_def key_stop_def)
  have "jfind ?doc ''data.token'' = Null" using jfind_dot [OF k(2), of ?doc "''token''"] by (simp add: jget_def om_get_def)
  then have "lg_access_token (read_login ?doc) = ''tok''"
    using jfind_key [OF k(1), of ?doc] by (simp add: read_login_def jget_def om_get_def Let_def)
  then have "rc = net_success"
    using r by (auto simp: apply_login_info_def account_agent_def parse_login_json net_codes Let_def split: prod.splits if_splits)
  moreover have "ag_auth account_agent = Some (new_store ''f'')" "st_path (new_store ''f'') \<noteq> []"
    by (simp_all add: account_agent_def new_store_def)
  ultimately show ?thesis using login_survives_restart [OF r] r by (metis om_ok_Nil)
qed

end
