(* ===== verification/Agent_Run.thy ===== *)
theory Agent_Run
  imports Agent_Cloud
begin

text \<open>
  The agent as a whole: any sequence of the calls Studio makes and of the callbacks of the two
  MQTT sessions. What is proved of it: the MQTT library is initialised exactly while a client
  exists, and no client is ever lost.
\<close>

section \<open>Counting initialisations\<close>

definition lib_count :: "mqtt_call list \<Rightarrow> int" where
  "lib_count t = int (count_list t Lib_init) - int (count_list t Lib_cleanup)"

definition lib_ok :: "world \<Rightarrow> bool" where
  "lib_ok w \<longleftrightarrow> 0 \<le> wo_refs w \<and> lib_count (wo_calls w) = (if 0 < wo_refs w then 1 else 0)"

definition no_lib :: "mqtt_call list \<Rightarrow> bool" where
  "no_lib t \<longleftrightarrow> Lib_init \<notin> set t \<and> Lib_cleanup \<notin> set t"

lemma lib_count_append [simp]: "lib_count (t @ u) = lib_count t + lib_count u"
  by (simp add: lib_count_def)

lemma lib_count_none: "no_lib t \<Longrightarrow> lib_count t = 0"
  by (simp add: no_lib_def lib_count_def count_list_0_iff)

lemma lib_count_simps [simp]:
  "lib_count [] = 0" "lib_count (Lib_init # t) = 1 + lib_count t" "lib_count (Lib_cleanup # t) = lib_count t - 1"
  by (simp_all add: lib_count_def)

lemma run_calls_no_lib: "run_calls rc cs = (t, r) \<Longrightarrow> no_lib cs \<Longrightarrow> no_lib t"
  using run_calls_subset unfolding no_lib_def by blast

lemma no_lib_append [simp]: "no_lib (t @ u) \<longleftrightarrow> no_lib t \<and> no_lib u"
  by (auto simp: no_lib_def)

lemma finish_connect_no_lib:
  assumes "finish_connect rc cfg mc p done = (r, mc', p', t)" and "no_lib done"
  shows "no_lib t"
proof -
  obtain u r' where u: "run_calls rc (start_calls cfg) = (u, r')" by force
  have "no_lib (start_calls cfg)" by (simp add: start_calls_def no_lib_def)
  with run_calls_no_lib [OF u] assms u show ?thesis by (auto simp: finish_connect_def)
qed

lemma mqtt_connect_no_lib:
  assumes "mqtt_connect rc s out ok cfg mc p = (r, mc', p', t)"
  shows "no_lib t"
proof -
  define h where "h = (if lan_hostname_verify cfg \<and> \<not> skip_verify s p cfg
      then [Tls_verify_hostname_set (cc_tls_verify_hostname cfg)] else [])"
  obtain t1 r1 where 1: "run_calls rc (auth_calls cfg) = (t1, r1)" by force
  obtain t2 r2 where 2: "run_calls rc h = (t2, r2)" by force
  have n1: "no_lib t1" by (rule run_calls_no_lib [OF 1]) (simp add: auth_calls_def no_lib_def)
  have n2: "no_lib t2" by (rule run_calls_no_lib [OF 2]) (simp add: h_def no_lib_def)
  show ?thesis
  proof (cases "r1 \<noteq> mosq_err_success \<or> \<not> cc_use_tls cfg \<or> r2 \<noteq> mosq_err_success")
    case True
    then show ?thesis
      using assms n1 n2 1 2 finish_connect_no_lib [of rc cfg mc p t1]
      by (auto simp: mqtt_connect_def Let_def h_def [symmetric] split: if_splits)
  next
    case False
    show ?thesis
    proof (cases "trust_anchors (skip_verify s p cfg) out ok cfg mc p")
      case None
      with False assms n1 n2 1 2 show ?thesis by (auto simp: mqtt_connect_def Let_def h_def [symmetric])
    next
      case (Some a)
      obtain cafile capath vp mc1 p1 where a: "a = (cafile, capath, vp, mc1, p1)" by (metis surj_pair)
      define cs where "cs = Tls_set cafile capath # Tls_opts_set vp # (if skip_verify s p cfg then [Tls_insecure_set True] else [])"
      obtain t3 r3 where 3: "run_calls rc cs = (t3, r3)" by force
      have n3: "no_lib t3" by (rule run_calls_no_lib [OF 3]) (simp add: cs_def no_lib_def)
      have "(r, mc', p', t) = (if r3 \<noteq> mosq_err_success then (r3, mc1, p1, t1 @ t2 @ t3) else finish_connect rc cfg mc1 p1 (t1 @ t2 @ t3))"
        using False assms Some a 1 2 3 by (simp add: mqtt_connect_def Let_def h_def [symmetric] cs_def [symmetric] del: run_calls.simps)
      then show ?thesis
        using n1 n2 n3 finish_connect_no_lib [of rc cfg mc1 p1 "t1 @ t2 @ t3" r mc' p' t] by (auto split: if_splits)
    qed
  qed
qed

section \<open>The reference count\<close>

abbreviation has_client :: "mqtt_client option \<Rightarrow> int" where
  "has_client c \<equiv> (if c = None then 0 else 1)"

lemma lib_ok_log: "lib_ok w \<Longrightarrow> no_lib t \<Longrightarrow> lib_ok (log_calls t w)"
  by (simp add: lib_ok_def lib_count_none)

lemma lib_ok_proc: "lib_ok (w\<lparr>wo_proc := p\<rparr>) = lib_ok w"
  by (simp add: lib_ok_def)

lemma new_client_refs:
  assumes "new_client created cid (wo_refs w) = (c, refs, t)" and "lib_ok w"
  shows "lib_ok (log_calls t (w\<lparr>wo_refs := refs\<rparr>)) \<and> refs = wo_refs w + has_client c"
  using assms by (auto simp: new_client_def global_init_def global_cleanup_def lib_ok_def log_calls_def split: if_splits)

lemma destroy_refs:
  assumes "destroy_client mc p (wo_refs w) = (p', refs, t)" and "lib_ok w" and "1 \<le> wo_refs w"
  shows "lib_ok (log_calls t (w\<lparr>wo_proc := q, wo_refs := refs\<rparr>)) \<and> refs = wo_refs w - 1"
  using assms
  by (auto simp: destroy_client_def global_cleanup_def lib_ok_def log_calls_def lib_count_def Let_def split: if_splits)

lemma drop_client_refs:
  assumes "lib_ok w" and "has_client c \<le> wo_refs w"
  shows "lib_ok (drop_client c w) \<and> wo_refs (drop_client c w) = wo_refs w - has_client c"
proof (cases c)
  case (Some mc)
  obtain p refs t where d: "destroy_client mc (wo_proc w) (wo_refs w) = (p, refs, t)" by (metis surj_pair)
  from destroy_refs [OF d assms(1), of p] assms(2) Some show ?thesis by (auto simp: drop_client_def d)
qed (use assms in \<open>simp add: drop_client_def\<close>)

lemma lan_disconnect_refs:
  assumes "lib_ok w" and "has_client (ls_client ls) \<le> wo_refs w"
  shows "lib_ok (snd (snd (lan_disconnect ls w))) \<and>
    wo_refs (snd (snd (lan_disconnect ls w))) = wo_refs w - has_client (ls_client ls)"
proof (cases "ls_client ls")
  case (Some mc)
  obtain mc1 p1 t1 where 1: "mqtt_disconnect mc (wo_proc w) = (mc1, p1, t1)" by (metis surj_pair)
  obtain p2 refs t2 where 2: "destroy_client mc1 p1 (wo_refs w) = (p2, refs, t2)" by (metis surj_pair)
  have n1: "no_lib t1" using 1 by (auto simp: mqtt_disconnect_def no_lib_def)
  let ?w = "log_calls t1 w"
  have d: "destroy_client mc1 p1 (wo_refs ?w) = (p2, refs, t2)" using 2 by simp
  have pos: "1 \<le> wo_refs ?w" using assms(2) Some by simp
  note f = destroy_refs [OF d lib_ok_log [OF assms(1) n1] pos, of p2]
  have "lib_ok (log_calls t2 (?w\<lparr>wo_proc := p2, wo_refs := refs\<rparr>))" "refs = wo_refs w - 1"
    using f by (blast, simp)
  moreover have "snd (snd (lan_disconnect ls w)) = log_calls t2 (?w\<lparr>wo_proc := p2, wo_refs := refs\<rparr>)"
    by (simp add: lan_disconnect_def Some 1 2 log_calls_def)
  ultimately show ?thesis using Some by (simp only: log_calls_simps) simp
qed (use assms in \<open>simp add: lan_disconnect_def\<close>)

lemma lan_start_refs:
  assumes "lan_start e s ls w = (r, ls', w')" and "ls_client ls = None" and "lib_ok w"
  shows "lib_ok w' \<and> wo_refs w' = wo_refs w + has_client (ls_client ls') \<and> ls_dev_id ls' = ls_dev_id ls \<and>
    ls_password ls' = ls_password ls \<and> (r = net_success \<longrightarrow> ls_client ls' \<noteq> None)"
proof -
  obtain c refs t0 where n: "new_client (se_created e) (se_client_id e) (wo_refs w) = (c, refs, t0)" by (metis surj_pair)
  let ?w0 = "log_calls t0 (w\<lparr>wo_refs := refs\<rparr>)"
  note w0 = new_client_refs [OF n assms(3)]
  show ?thesis
  proof (cases c)
    case None
    with assms n w0 show ?thesis by (auto simp: lan_start_def net_codes)
  next
    case (Some mc)
    obtain rr mc' p' t where m: "mqtt_connect (se_rc e) s (se_bundle e) (se_bundle_ok e) (lan_config s (wo_proc ?w0) ls) mc (wo_proc ?w0)
        = (rr, mc', p', t)" by (metis surj_pair)
    have l: "lib_ok (log_calls t (?w0\<lparr>wo_proc := p'\<rparr>))"
      by (rule lib_ok_log [OF _ mqtt_connect_no_lib [OF m]]) (unfold lib_ok_proc, rule w0 [THEN conjunct1])
    have "w' = ?w0 \<and> ls' = ls\<lparr>ls_client := Some mc\<rparr> \<and> r = net_err_connect_failed \<or>
        w' = log_calls t (?w0\<lparr>wo_proc := p'\<rparr>) \<and> ls' = ls\<lparr>ls_client := Some mc'\<rparr>"
      using assms n Some m by (auto simp: lan_start_def drop_client_def Let_def split: if_splits)
    with l w0 Some show ?thesis by (auto simp: net_codes)
  qed
qed

lemma cloud_start_refs:
  assumes "cloud_start e s cs w = (r, cs', w')" and "lib_ok w" and "has_client (cs_client cs) \<le> wo_refs w"
  shows "lib_ok w' \<and> wo_refs w' = wo_refs w + has_client (cs_client cs') - has_client (cs_client cs)"
proof (cases "cs_started cs \<or> cs_user_id cs = [] \<or> cs_access_token cs = []")
  case True
  then have "w' = w \<and> cs' = cs" using assms(1) by (auto simp: cloud_start_def split: if_splits)
  with assms show ?thesis by simp
next
  case False
  obtain c refs t0 where n: "new_client (se_created e) (se_client_id e) (wo_refs w) = (c, refs, t0)" by (metis surj_pair)
  let ?w0 = "log_calls t0 (w\<lparr>wo_refs := refs\<rparr>)"
  note w0 = new_client_refs [OF n assms(2)]
  show ?thesis
  proof (cases c)
    case None
    with False n assms w0 show ?thesis by (auto simp: cloud_start_def)
  next
    case (Some mc)
    define wd where "wd = drop_client (cs_client cs) ?w0"
    have d: "lib_ok wd \<and> wo_refs wd = wo_refs ?w0 - has_client (cs_client cs)"
      unfolding wd_def using w0 assms(3) Some by (intro drop_client_refs) auto
    obtain rr mc' p' t where m: "mqtt_connect (se_rc e) s (se_bundle e) (se_bundle_ok e) (cloud_config s cs) mc (wo_proc wd) = (rr, mc', p', t)"
      by (metis surj_pair)
    have l: "lib_ok (log_calls t (wd\<lparr>wo_proc := p'\<rparr>))"
      using lib_ok_log [OF _ mqtt_connect_no_lib [OF m]] d by (simp add: lib_ok_proc)
    have "w' = log_calls t (wd\<lparr>wo_proc := p'\<rparr>) \<and> cs_client cs' = Some mc'"
      using False n Some m assms by (auto simp: cloud_start_def wd_def [symmetric] Let_def split: if_splits)
    with l d w0 Some show ?thesis by simp
  qed
qed

lemma cloud_stop_refs:
  assumes "cloud_stop cs w = (cs', w')" and "lib_ok w" and "has_client (cs_client cs) \<le> wo_refs w"
  shows "lib_ok w' \<and> wo_refs w' = wo_refs w + has_client (cs_client cs') - has_client (cs_client cs)"
proof (cases "cs_started cs \<and> cs_client cs \<noteq> None")
  case False
  with assms show ?thesis by (auto simp: cloud_stop_def Let_def split: if_splits)
next
  case True
  then obtain mc where mc: "cs_client cs = Some mc" by blast
  let ?ls = "(new_lan_session [] [] [] [] True [])\<lparr>ls_client := Some mc\<rparr>"
  have "w' = snd (snd (lan_disconnect ?ls w)) \<and> cs_client cs' = None"
    using assms(1) True mc by (auto simp: cloud_stop_def lan_disconnect_def Let_def split: prod.splits)
  with lan_disconnect_refs [of w ?ls] assms(2,3) mc show ?thesis by simp
qed

section \<open>Operations\<close>

datatype agent_op =
    Op_connect_printer start_env bool "bytes option" bool bytes bytes bytes bytes bool
  | Op_disconnect_printer
  | Op_send "mqtt_call \<Rightarrow> int" bytes bytes int
  | Op_lan_connack "mqtt_call \<Rightarrow> int" int
  | Op_lan_lost int
  | Op_connect_cloud start_env
  | Op_disconnect_cloud
  | Op_refresh start_env
  | Op_cloud_connack "mqtt_call \<Rightarrow> int" int
  | Op_cloud_lost int
  | Op_add "mqtt_call \<Rightarrow> int" "bytes list"
  | Op_del "bytes list"
  | Op_cloud_send "mqtt_call \<Rightarrow> int" bytes bytes int
  | Op_install_cert bytes bool int bool
  | Op_config_dir int auth_result persist_outcome bool bytes
  | Op_login int profile_result persist_outcome persist_outcome bytes
  | Op_logout

text \<open>The callbacks of a session act on it only while it exists.\<close>

definition lan_callback :: "(lan_session \<Rightarrow> world \<Rightarrow> lan_session \<times> world) \<Rightarrow> agent \<times> world \<Rightarrow> agent \<times> world" where
  "lan_callback f aw =
     (let (ag, w) = aw in
      case ag_lan ag of None \<Rightarrow> (ag, w) | Some ls \<Rightarrow> (let (ls', w') = f ls w in (ag\<lparr>ag_lan := Some ls'\<rparr>, w')))"

definition cloud_callback :: "(cloud_session \<Rightarrow> world \<Rightarrow> cloud_session \<times> world) \<Rightarrow> agent \<times> world \<Rightarrow> agent \<times> world" where
  "cloud_callback f aw =
     (let (ag, w) = aw in
      case ag_cloud ag of None \<Rightarrow> (ag, w) | Some cs \<Rightarrow> (let (cs', w') = f cs w in (ag\<lparr>ag_cloud := Some cs'\<rparr>, w')))"

definition with_disk :: "(agent \<Rightarrow> disk \<Rightarrow> agent \<times> disk) \<Rightarrow> agent \<times> world \<Rightarrow> agent \<times> world" where
  "with_disk f aw =
     (let (ag, w) = aw; (ag', d) = f ag (pr_disk (wo_proc w)) in
      (ag', w\<lparr>wo_proc := (wo_proc w)\<lparr>pr_disk := d\<rparr>\<rparr>))"

fun agent_step :: "settings \<Rightarrow> agent_op \<Rightarrow> agent \<times> world \<Rightarrow> agent \<times> world" where
  "agent_step s (Op_connect_printer e cap wrt ok dev ip usr pw ssl) aw =
     snd (connect_printer e s cap wrt ok dev ip usr pw ssl (fst aw) (snd aw))"
| "agent_step s Op_disconnect_printer aw = snd (disconnect_printer (fst aw) (snd aw))"
| "agent_step s (Op_send rc dev js qos) aw = (fst aw, snd (send_message_to_printer rc dev js qos (fst aw) (snd aw)))"
| "agent_step s (Op_lan_connack rc r) aw = lan_callback (\<lambda>ls w. snd (lan_on_connect rc r ls w)) aw"
| "agent_step s (Op_lan_lost r) aw = lan_callback (\<lambda>ls w. (snd (lan_on_disconnect (\<lambda>_. []) r ls), w)) aw"
| "agent_step s (Op_connect_cloud e) aw = snd (connect_cloud e s (fst aw) (snd aw))"
| "agent_step s Op_disconnect_cloud aw = snd (disconnect_cloud (fst aw) (snd aw))"
| "agent_step s (Op_refresh e) aw = snd (cloud_refresh e s (fst aw) (snd aw))"
| "agent_step s (Op_cloud_connack rc r) aw =
     cloud_callback (\<lambda>cs w. let (cs', calls, reports) = cloud_connack_rest rc (\<lambda>_. []) r (cloud_connack_flag r cs) in
       (cs', log_calls calls w)) aw"
| "agent_step s (Op_cloud_lost r) aw = cloud_callback (\<lambda>cs w. (fst (cloud_on_disconnect (\<lambda>_. []) r cs), w)) aw"
| "agent_step s (Op_add rc ids) aw = (let (r, ag, w, reports) = agent_add_subscribe rc ids (fst aw) (snd aw) in (ag, w))"
| "agent_step s (Op_del ids) aw = snd (agent_del_subscribe ids (fst aw) (snd aw))"
| "agent_step s (Op_cloud_send rc dev js qos) aw = (fst aw, snd (cloud_send_message rc dev js qos (fst aw) (snd aw)))"
| "agent_step s (Op_install_cert dev lan_only now ok) aw =
     (let (ag, p, launched) = install_device_cert dev lan_only now ok (fst aw) (wo_proc (snd aw)) in
      (ag, (snd aw)\<lparr>wo_proc := p\<rparr>))"
| "agent_step s (Op_config_dir now r out ok dir) aw =
     (let (ag, p) = set_config_dir now r out ok dir (fst aw) (wo_proc (snd aw)) in (ag, (snd aw)\<lparr>wo_proc := p\<rparr>))"
| "agent_step s (Op_login now prof o1 o2 txt) aw =
     with_disk (\<lambda>ag d. let (r, ag', d', evs) = apply_login_info now prof o1 o2 txt ag d in (ag', d')) aw"
| "agent_step s Op_logout aw = with_disk (\<lambda>ag d. let (ag', d', evs) = clear_session ag d in (ag', d')) aw"

definition agent_run :: "settings \<Rightarrow> agent_op list \<Rightarrow> agent \<times> world \<Rightarrow> agent \<times> world" where
  "agent_run s ops aw = fold (agent_step s) ops aw"

section \<open>The invariant\<close>

definition lan_clients :: "agent \<Rightarrow> int" where
  "lan_clients ag = (case ag_lan ag of None \<Rightarrow> 0 | Some ls \<Rightarrow> has_client (ls_client ls))"

definition cloud_clients :: "agent \<Rightarrow> int" where
  "cloud_clients ag = (case ag_cloud ag of None \<Rightarrow> 0 | Some cs \<Rightarrow> has_client (cs_client cs))"

definition lan_recorded :: "agent \<Rightarrow> bool" where
  "lan_recorded ag = (case ag_lan ag of None \<Rightarrow> True
     | Some ls \<Rightarrow> ls_client ls \<noteq> None \<and> om_get (ag_codes ag) (ls_dev_id ls) = Some (ls_password ls))"

definition agent_ok :: "agent \<times> world \<Rightarrow> bool" where
  "agent_ok aw \<longleftrightarrow> (let (ag, w) = aw in
     lib_ok w \<and> wo_refs w = lan_clients ag + cloud_clients ag \<and> lan_recorded ag \<and> om_ok (ag_codes ag))"

lemma clients_nonneg [simp]: "0 \<le> lan_clients ag" "0 \<le> cloud_clients ag"
  by (simp_all add: lan_clients_def cloud_clients_def split: option.split)

lemma lan_recorded_cong: "ag_lan ag' = ag_lan ag \<Longrightarrow> ag_codes ag' = ag_codes ag \<Longrightarrow> lan_recorded ag' = lan_recorded ag"
  by (cases "ag_lan ag") (simp_all add: lan_recorded_def)

lemma cloud_fields [simp]:
  "lan_recorded (ag\<lparr>ag_cloud := c\<rparr>) = lan_recorded ag" "lan_clients (ag\<lparr>ag_cloud := c\<rparr>) = lan_clients ag"
  "lan_recorded (ag\<lparr>ag_cloud_callbacks := cb\<rparr>) = lan_recorded ag" "lan_clients (ag\<lparr>ag_cloud_callbacks := cb\<rparr>) = lan_clients ag"
  "lan_recorded (ag\<lparr>ag_cloud_devs := devs\<rparr>) = lan_recorded ag" "lan_clients (ag\<lparr>ag_cloud_devs := devs\<rparr>) = lan_clients ag"
  "cloud_clients (ag\<lparr>ag_cloud_callbacks := cb\<rparr>) = cloud_clients ag" "cloud_clients (ag\<lparr>ag_cloud_devs := devs\<rparr>) = cloud_clients ag"
  "cloud_clients (ag\<lparr>ag_cloud := Some cs\<rparr>) = has_client (cs_client cs)" "cloud_clients (ag\<lparr>ag_cloud := None\<rparr>) = 0"
  by (auto simp: lan_clients_def cloud_clients_def intro!: lan_recorded_cong)

lemma prepare_peer_cert_keeps:
  assumes "prepare_peer_cert s captured written ok dev ip ssl ag p = (ag', p')"
  shows "ag_lan ag' = ag_lan ag \<and> ag_cloud ag' = ag_cloud ag \<and> ag_codes ag' = ag_codes ag"
  using assms by (auto simp: prepare_peer_cert_def Let_def split: if_splits prod.splits)

lemma connect_printer_ok:
  assumes "agent_ok (ag, w)"
  shows "agent_ok (snd (connect_printer e s cap wrt ok dev ip usr pw ssl ag w))"
proof -
  define w1 where "w1 = (case ag_lan ag of None \<Rightarrow> w | Some prev \<Rightarrow> snd (snd (lan_disconnect prev w)))"
  have both: "lib_ok w1 \<and> wo_refs w1 = cloud_clients ag"
  proof (cases "ag_lan ag")
    case None
    with assms show ?thesis by (simp add: w1_def agent_ok_def lan_clients_def)
  next
    case (Some prev)
    have "has_client (ls_client prev) \<le> wo_refs w"
      using assms Some clients_nonneg(2) [of ag] by (simp add: agent_ok_def lan_clients_def)
    moreover have "lib_ok w" using assms by (simp add: agent_ok_def)
    ultimately have "lib_ok w1 \<and> wo_refs w1 = wo_refs w - has_client (ls_client prev)"
      using lan_disconnect_refs by (simp add: w1_def Some)
    with assms Some show ?thesis by (simp add: agent_ok_def lan_clients_def)
  qed
  note w1 = both [THEN conjunct1] both [THEN conjunct2]
  define ag1 where "ag1 = ag\<lparr>ag_lan := None,
     ag_certified := (if case ag_lan ag of None \<Rightarrow> False | Some prev \<Rightarrow> ls_dev_id prev \<noteq> dev then [] else ag_certified ag)\<rparr>"
  define ca where "ca = bambu_ca_bundle_path ag1 (pr_disk (wo_proc w1))"
  define p1 where "p1 = registry_put_ip_serial ip dev ok (registry_set_ca_file ca ok (wo_proc w1))"
  obtain ag2 p2 where pp: "prepare_peer_cert s cap wrt ok dev ip ssl ag1 p1 = (ag2, p2)" by force
  define ls where "ls = new_lan_session dev ip usr pw ssl ca"
  obtain rc ls' w2 where st: "lan_start e s ls (w1\<lparr>wo_proc := p2\<rparr>) = (rc, ls', w2)" by (metis surj_pair)
  have eq: "snd (connect_printer e s cap wrt ok dev ip usr pw ssl ag w) =
      (if rc = net_success then (ag2\<lparr>ag_codes := om_put dev (ls_password ls') (ag_codes ag2), ag_lan := Some ls'\<rparr>, w2)
       else (ag2, snd (snd (lan_disconnect ls' w2))))"
    unfolding connect_printer_def Let_def w1_def [symmetric] ag1_def [symmetric] ca_def [symmetric] p1_def [symmetric] pp
      ls_def [symmetric] prod.case st by simp
  have keeps: "ag_lan ag2 = None" "ag_cloud ag2 = ag_cloud ag" "ag_codes ag2 = ag_codes ag"
    using prepare_peer_cert_keeps [OF pp] by (simp_all add: ag1_def)
  have "ls_client ls = None" "lib_ok (w1\<lparr>wo_proc := p2\<rparr>)" using w1(1) by (simp_all add: ls_def new_lan_session_def lib_ok_proc)
  from lan_start_refs [OF st this] have w2: "lib_ok w2" "wo_refs w2 = cloud_clients ag + has_client (ls_client ls')"
    "ls_dev_id ls' = dev" "ls_password ls' = pw" "rc = net_success \<longrightarrow> ls_client ls' \<noteq> None"
    using w1(2) by (simp_all add: ls_def new_lan_session_def)
  show ?thesis
  proof (cases "rc = net_success")
    case True
    with assms w2 keeps show ?thesis
      by (auto simp: eq agent_ok_def lan_clients_def cloud_clients_def lan_recorded_def)
  next
    case False
    have "has_client (ls_client ls') \<le> wo_refs w2" using w2(2) clients_nonneg(2) [of ag] by simp
    from lan_disconnect_refs [OF w2(1) this] w2 keeps assms False show ?thesis
      by (auto simp: eq agent_ok_def lan_clients_def cloud_clients_def lan_recorded_def)
  qed
qed

lemma disconnect_printer_ok: "agent_ok (ag, w) \<Longrightarrow> agent_ok (snd (disconnect_printer ag w))"
proof (cases "ag_lan ag")
  case (Some ls)
  assume ok: "agent_ok (ag, w)"
  then have "has_client (ls_client ls) \<le> wo_refs w" "lib_ok w"
    using Some clients_nonneg(2) [of ag] by (simp_all add: agent_ok_def lan_clients_def)
  from lan_disconnect_refs [OF this(2,1)] ok Some show ?thesis
    by (auto simp: disconnect_printer_def agent_ok_def lan_clients_def cloud_clients_def lan_recorded_def)
qed (simp add: disconnect_printer_def agent_ok_def lan_clients_def cloud_clients_def lan_recorded_def)

lemma connect_cloud_ok:
  assumes "agent_ok (ag, w)"
  shows "agent_ok (snd (connect_cloud e s ag w))"
proof -
  define cs0 where "cs0 = (case ag_cloud ag of None \<Rightarrow> new_cloud_session | Some cs \<Rightarrow> cs)"
  have cs0: "has_client (cs_client cs0) = cloud_clients ag"
    by (simp add: cs0_def cloud_clients_def new_cloud_session_def split: option.split)
  show ?thesis
  proof (cases "ag_auth ag")
    case None
    with assms cs0 show ?thesis
      by (simp add: connect_cloud_def cs0_def [symmetric] Let_def agent_ok_def)
  next
    case (Some st)
    define cs1 where "cs1 = cloud_configure (cloud_region ag) (si_user_id (st_session st)) (si_access_token (st_session st)) [] cs0"
    obtain rc cs2 w' where st: "cloud_start e s cs1 w = (rc, cs2, w')" by (metis surj_pair)
    have c1: "cs_client cs1 = cs_client cs0" by (simp add: cs1_def cloud_configure_def)
    have pre: "lib_ok w" "has_client (cs_client cs1) \<le> wo_refs w"
      using assms cs0 c1 clients_nonneg(1) [of ag] by (simp_all add: agent_ok_def)
    note refs = cloud_start_refs [OF st pre]
    show ?thesis
      using assms cs0 c1 refs Some st
      by (simp add: connect_cloud_def cs0_def [symmetric] cs1_def [symmetric] Let_def agent_ok_def)
  qed
qed

lemma disconnect_cloud_ok: "agent_ok (ag, w) \<Longrightarrow> agent_ok (snd (disconnect_cloud ag w))"
proof (cases "ag_cloud ag")
  case (Some cs)
  assume ok: "agent_ok (ag, w)"
  obtain cs' w' where st: "cloud_stop cs w = (cs', w')" by force
  have pre: "lib_ok w" "has_client (cs_client cs) \<le> wo_refs w"
    using ok Some clients_nonneg(1) [of ag] by (simp_all add: agent_ok_def cloud_clients_def)
  note refs = cloud_stop_refs [OF st pre]
  have "has_client (cs_client cs') \<le> wo_refs w'"
    using refs pre(2) by linarith
  from drop_client_refs [OF conjunct1 [OF refs] this] refs ok Some show ?thesis
    by (simp add: disconnect_cloud_def st agent_ok_def cloud_clients_def)
qed (simp add: disconnect_cloud_def agent_ok_def cloud_clients_def)

lemma cloud_refresh_ok: "agent_ok (ag, w) \<Longrightarrow> agent_ok (snd (cloud_refresh e s ag w))"
  using disconnect_cloud_ok [of ag w] connect_cloud_ok
  by (auto simp: cloud_refresh_def split: prod.split)

lemma lan_callback_ok:
  assumes "agent_ok aw"
    and "\<And>ls w ls' w'. f ls w = (ls', w') \<Longrightarrow> lib_ok w \<Longrightarrow> lib_ok w' \<and> wo_refs w' = wo_refs w \<and>
      (ls_client ls' = None \<longleftrightarrow> ls_client ls = None) \<and> ls_dev_id ls' = ls_dev_id ls \<and> ls_password ls' = ls_password ls"
  shows "agent_ok (lan_callback f aw)"
proof -
  obtain ag w where aw: "aw = (ag, w)" by force
  show ?thesis
  proof (cases "ag_lan ag")
    case (Some ls)
    obtain ls' w' where f: "f ls w = (ls', w')" by force
    from assms(2) [OF f] assms(1) aw Some f show ?thesis
      by (auto simp: lan_callback_def agent_ok_def lan_clients_def cloud_clients_def lan_recorded_def)
  qed (use assms(1) aw in \<open>simp add: lan_callback_def\<close>)
qed

lemma cloud_callback_ok:
  assumes "agent_ok aw"
    and "\<And>cs w cs' w'. f cs w = (cs', w') \<Longrightarrow> lib_ok w \<Longrightarrow> lib_ok w' \<and> wo_refs w' = wo_refs w \<and>
      (cs_client cs' = None \<longleftrightarrow> cs_client cs = None)"
  shows "agent_ok (cloud_callback f aw)"
proof -
  obtain ag w where aw: "aw = (ag, w)" by force
  show ?thesis
  proof (cases "ag_cloud ag")
    case (Some cs)
    obtain cs' w' where f: "f cs w = (cs', w')" by force
    have "cloud_clients ag = has_client (cs_client cs)" by (simp add: cloud_clients_def Some)
    with assms(2) [OF f] assms(1) aw Some f show ?thesis
      by (auto simp: cloud_callback_def agent_ok_def)
  qed (use assms(1) aw in \<open>simp add: cloud_callback_def\<close>)
qed

lemma apply_subs_no_lib:
  "apply_subscriptions_locked rc cs = (cs', calls, reports) \<Longrightarrow> no_lib calls \<and> cs_client cs' = cs_client cs"
  by (auto simp: apply_subscriptions_locked_def no_lib_def sub_call_def Let_def split: if_splits)

lemma del_subs_no_lib:
  "fold del_one ids (cs, calls) = (cs', calls') \<Longrightarrow> no_lib calls \<Longrightarrow> no_lib calls' \<and> cs_client cs' = cs_client cs"
proof (induction ids arbitrary: cs calls)
  case (Cons d ids)
  obtain cs1 calls1 where d: "del_one d (cs, calls) = (cs1, calls1)" by force
  then have "no_lib calls1" "cs_client cs1 = cs_client cs"
    using Cons.prems(2) by (auto simp: del_one_def unsub_call_def no_lib_def Let_def split: if_splits)
  with Cons.IH [of cs1 calls1] Cons.prems(1) d show ?case by simp
qed simp

text \<open>Steps that change neither a client nor the reference count.\<close>

definition same_sessions :: "agent \<Rightarrow> agent \<Rightarrow> bool" where
  "same_sessions ag ag' \<longleftrightarrow> ag_lan ag' = ag_lan ag \<and> cloud_clients ag' = cloud_clients ag \<and> ag_codes ag' = ag_codes ag"

lemma same_sessions_ok:
  "agent_ok (ag, w) \<Longrightarrow> same_sessions ag ag' \<Longrightarrow> lib_ok w' \<Longrightarrow> wo_refs w' = wo_refs w \<Longrightarrow> agent_ok (ag', w')"
  using lan_recorded_cong [of ag' ag] by (simp add: agent_ok_def same_sessions_def lan_clients_def)

lemma with_disk_ok:
  assumes "agent_ok aw" and "\<And>ag d ag' d'. f ag d = (ag', d') \<Longrightarrow> same_sessions ag ag'"
  shows "agent_ok (with_disk f aw)"
proof -
  obtain ag w where aw: "aw = (ag, w)" by force
  obtain ag' d' where f: "f ag (pr_disk (wo_proc w)) = (ag', d')" by force
  have "lib_ok w" using assms(1) aw by (simp add: agent_ok_def)
  then show ?thesis
    using same_sessions_ok [OF _ assms(2) [OF f]] assms(1) by (simp add: aw with_disk_def f lib_ok_proc)
qed

lemma install_device_cert_keeps: "install_device_cert dev lan_only now ok ag p = (ag', p', l) \<Longrightarrow> same_sessions ag ag'"
  by (auto simp: install_device_cert_def cert_launch_def same_sessions_def cloud_clients_def Let_def
      split: if_splits option.splits)

lemma set_config_dir_keeps: "set_config_dir now r out ok dir ag p = (ag', p') \<Longrightarrow> same_sessions ag ag'"
  by (auto simp: set_config_dir_def hydrate_session_def same_sessions_def cloud_clients_def Let_def
      split: if_splits option.splits prod.splits)

lemma apply_login_info_keeps: "apply_login_info now prof o1 o2 txt ag d = (r, ag', d', evs) \<Longrightarrow> same_sessions ag ag'"
  by (auto simp: apply_login_info_def same_sessions_def cloud_clients_def Let_def split: if_splits option.splits prod.splits)

lemma clear_session_keeps: "clear_session ag d = (ag', d', evs) \<Longrightarrow> same_sessions ag ag'"
  by (auto simp: clear_session_def same_sessions_def cloud_clients_def Let_def split: option.splits prod.splits)

lemma agent_step_ok: "agent_ok aw \<Longrightarrow> agent_ok (agent_step s op aw)"
proof (induction s op aw rule: agent_step.induct)
  case (3 s rc dev js qos aw)
  then show ?case
    by (cases aw) (auto simp: send_message_to_printer_def lan_publish_json_def mqtt_publish_def agent_ok_def no_lib_def
        intro!: lib_ok_log split: option.split)
next
  case (4 s rc r aw)
  then show ?case
    by (simp, intro lan_callback_ok)
      (auto simp: lan_on_connect_def mqtt_subscribe_def no_lib_def Let_def intro!: lib_ok_log split: if_splits)
next
  case (5 s r aw)
  then show ?case by (simp, intro lan_callback_ok) (auto simp: lan_on_disconnect_def)
next
  case (9 s rc r aw)
  have "lib_ok w' \<and> wo_refs w' = wo_refs w \<and> (cs_client cs' = None \<longleftrightarrow> cs_client cs = None)"
    if step: "(let (cs', calls, reports) = cloud_connack_rest rc (\<lambda>_. []) r (cloud_connack_flag r cs) in (cs', log_calls calls w)) = (cs', w')"
      and ok: "lib_ok w" for cs w cs' w'
  proof -
    obtain calls reports where c: "cloud_connack_rest rc (\<lambda>_. []) r (cloud_connack_flag r cs) = (cs', calls, reports)" "w' = log_calls calls w"
      using step by (auto split: prod.splits)
    then have "no_lib calls \<and> cs_client cs' = cs_client cs"
      by (auto simp: cloud_connack_rest_def cloud_connack_flag_def no_lib_def [of "[]"] Let_def
          split: if_splits prod.splits dest!: apply_subs_no_lib)
    with ok c(2) show ?thesis by (auto intro: lib_ok_log)
  qed
  with "9.prems" show ?case unfolding agent_step.simps by (intro cloud_callback_ok)
next
  case (10 s r aw)
  then show ?case by (simp, intro cloud_callback_ok) (auto simp: cloud_on_disconnect_def)
next
  case (11 s rc ids aw)
  obtain ag w where aw: "aw = (ag, w)" by force
  show ?case
  proof (cases "ag_cloud ag")
    case (Some cs)
    obtain cs' calls reports where c: "cloud_add_subscribe rc ids cs = (cs', calls, reports)" by (metis surj_pair)
    then have "no_lib calls \<and> cs_client cs' = cs_client cs"
      by (auto simp: cloud_add_subscribe_def no_lib_def [of "[]"] Let_def split: if_splits dest!: apply_subs_no_lib)
    then show ?thesis
      using 11 aw Some c by (auto simp: agent_add_subscribe_def agent_ok_def cloud_clients_def intro: lib_ok_log)
  qed (use 11 aw in \<open>simp add: agent_add_subscribe_def\<close>)
next
  case (12 s ids aw)
  obtain ag w where aw: "aw = (ag, w)" by force
  show ?case
  proof (cases "ag_cloud ag")
    case (Some cs)
    obtain cs' calls where c: "cloud_del_subscribe ids cs = (cs', calls)" by force
    then have "no_lib calls \<and> cs_client cs' = cs_client cs"
      using del_subs_no_lib [of ids cs "[]" cs' calls] by (simp add: cloud_del_subscribe_def no_lib_def)
    then show ?thesis
      using 12 aw Some c by (auto simp: agent_del_subscribe_def agent_ok_def cloud_clients_def Let_def intro: lib_ok_log)
  qed (use 12 aw in \<open>simp add: agent_del_subscribe_def agent_ok_def Let_def\<close>)
next
  case (13 s rc dev js qos aw)
  obtain ag w where aw: "aw = (ag, w)" by force
  have "cloud_publish rc dev js qos cs = (r, t) \<Longrightarrow> no_lib t" for cs r t
    by (auto simp: cloud_publish_def mqtt_publish_def no_lib_def split: if_splits)
  with 13 aw show ?case
    by (auto simp: cloud_send_message_def agent_ok_def intro!: lib_ok_log split: option.split prod.split)
next
  case (14 s dev lan_only now ok aw)
  obtain ag w where aw: "aw = (ag, w)" by force
  obtain ag' p l where c: "install_device_cert dev lan_only now ok ag (wo_proc w) = (ag', p, l)" by (metis surj_pair)
  with 14 aw same_sessions_ok [OF _ install_device_cert_keeps [OF c], of w "w\<lparr>wo_proc := p\<rparr>"]
  show ?case by (simp add: lib_ok_proc) (simp add: agent_ok_def)
next
  case (15 s now r out ok dir aw)
  obtain ag w where aw: "aw = (ag, w)" by force
  obtain ag' p where c: "set_config_dir now r out ok dir ag (wo_proc w) = (ag', p)" by force
  with 15 aw same_sessions_ok [OF _ set_config_dir_keeps [OF c], of w "w\<lparr>wo_proc := p\<rparr>"]
  show ?case by (simp add: lib_ok_proc) (simp add: agent_ok_def)
next
  case (16 s now prof o1 o2 login aw)
  then show ?case
    unfolding agent_step.simps
    by (intro with_disk_ok) (auto split: prod.splits dest!: apply_login_info_keeps)
next
  case (17 s aw)
  then show ?case
    unfolding agent_step.simps
    by (intro with_disk_ok) (auto split: prod.splits dest!: clear_session_keeps)
qed (auto simp: connect_printer_ok disconnect_printer_ok connect_cloud_ok disconnect_cloud_ok cloud_refresh_ok)

lemma agent_run_ok: "agent_ok aw \<Longrightarrow> agent_ok (agent_run s ops aw)"
  unfolding agent_run_def by (induction ops arbitrary: aw) (simp_all add: agent_step_ok)

text \<open>C14: no MQTT client is lost and the library is initialised just as long as needed. After any
  sequence of calls and callbacks, successful or not, the library's reference count is the number
  of sessions that hold a client, it has been initialised once more than cleaned up exactly when
  there is such a session, and a printer session holds a client and has its access code recorded
  under its serial.\<close>

theorem mqtt_clients_balanced:
  assumes "agent_run s ops (new_agent, w) = (ag, w')" and "lib_ok w" and "wo_refs w = 0"
  shows "wo_refs w' = lan_clients ag + cloud_clients ag \<and>
    lib_count (wo_calls w') = (if lan_clients ag + cloud_clients ag > 0 then 1 else 0) \<and>
    (\<forall>ls. ag_lan ag = Some ls \<longrightarrow> ls_client ls \<noteq> None \<and> lan_access_code_for (ls_dev_id ls) ag = ls_password ls)"
proof -
  have "agent_ok (new_agent, w)"
    using assms(2,3) by (simp add: agent_ok_def new_agent_def lan_clients_def cloud_clients_def lan_recorded_def)
  then have "agent_ok (ag, w')" using agent_run_ok assms(1) by metis
  then show ?thesis
    by (auto simp: agent_ok_def lib_ok_def lan_recorded_def lan_access_code_for_def)
qed

definition sample_ops :: "agent_op list" where
  "sample_ops = [Op_connect_printer quiet_env False None True ''S1'' ''10.0.0.2'' ''bblp'' ''code'' False, Op_disconnect_printer]"

lemma quiet_lib_ok: "lib_ok quiet_world" "wo_refs quiet_world = 0"
  by (simp_all add: lib_ok_def quiet_world_def)

theorem mqtt_clients_balanced_witness:
  "wo_refs (snd (agent_run default_settings sample_ops (new_agent, quiet_world))) = 0"
proof -
  obtain ag w' where r: "agent_run default_settings sample_ops (new_agent, quiet_world) = (ag, w')" by force
  obtain ag1 w1 where c: "agent_step default_settings (hd sample_ops) (new_agent, quiet_world) = (ag1, w1)" by force
  have "ag_cloud ag1 = None"
    using c prepare_peer_cert_keeps
    by (auto simp: sample_ops_def connect_printer_def new_agent_def Let_def split: prod.splits if_splits)
  then have "ag_lan ag = None" "ag_cloud ag = None"
    using r c by (auto simp: agent_run_def sample_ops_def disconnect_printer_def)
  with mqtt_clients_balanced [OF r quiet_lib_ok] show ?thesis
    by (simp add: r lan_clients_def cloud_clients_def)
qed

section \<open>Refreshing the cloud connection\<close>

text \<open>A refresh before the connection is made forgets the subscriptions. When Studio's periodic
  refresh finds the session not connected (just started, or the link lost and not yet back), it
  replaces it by a new one with nothing subscribed: the connection that follows subscribes to
  nothing, whatever Studio had asked for.\<close>

theorem refresh_forgets_subscriptions:
  assumes "cloud_refresh e s ag w = (rc, ag', w')" and "\<not> cloud_connected ag"
  shows "\<exists>cs. ag_cloud ag' = Some cs \<and> cs_subscribed cs = [] \<and>
    fst (snd (cloud_connack_rest rcf err 0 (cloud_connack_flag 0 cs))) = []"
proof -
  have "\<exists>cs. ag_cloud ag' = Some cs \<and> cs_subscribed cs = []"
  proof (cases "ag_auth ag")
    case None
    with assms show ?thesis
      by (auto simp: cloud_refresh_def disconnect_cloud_def connect_cloud_def new_cloud_session_def Let_def)
  next
    case (Some st)
    show ?thesis
    proof (cases "logged_in (st_session st)")
      case False
      with assms Some show ?thesis
        by (auto simp: cloud_refresh_def disconnect_cloud_def connect_cloud_def new_cloud_session_def Let_def)
    next
      case True
      define cs1 where "cs1 = cloud_configure (cloud_region ag) (si_user_id (st_session st)) (si_access_token (st_session st)) [] new_cloud_session"
      define wd where "wd = (case ag_cloud ag of None \<Rightarrow> w
        | Some cs \<Rightarrow> (let (cs', w') = cloud_stop cs w in drop_client (cs_client cs') w'))"
      obtain r cs2 w2 where st: "cloud_start e s cs1 wd = (r, cs2, w2)" by (metis surj_pair)
      have "cs_subscribed cs2 = cs_subscribed cs1"
        using start_session [OF st] by auto
      then have "cs_subscribed cs2 = []" by (simp add: cs1_def cloud_configure_def new_cloud_session_def)
      moreover have "cloud_region (ag\<lparr>ag_cloud := None, ag_cloud_devs := []\<rparr>) = cloud_region ag" by (simp add: cloud_region_def)
      then have "ag_cloud ag' = Some cs2"
        using assms Some True st
        by (simp add: cloud_refresh_def disconnect_cloud_def connect_cloud_def wd_def [symmetric] cs1_def [symmetric] Let_def) auto
      ultimately show ?thesis by blast
    qed
  qed
  then obtain cs where cs: "ag_cloud ag' = Some cs" "cs_subscribed cs = []" by blast
  have "fst (snd (cloud_connack_rest rcf err 0 (cloud_connack_flag 0 cs))) = []"
    using cs(2) by (simp add: cloud_connack_rest_def cloud_connack_flag_def map_connack_to_status_def
        apply_subscriptions_locked_def oset_list_def Let_def split: prod.split)
  with cs show ?thesis by blast
qed

definition subscribed_agent :: agent where
  "subscribed_agent = new_agent\<lparr>ag_cloud := Some (new_cloud_session\<lparr>cs_subscribed := [(''S1'', ())]\<rparr>)\<rparr>"

theorem refresh_forgets_subscriptions_witness:
  "\<exists>cs. ag_cloud (fst (snd (cloud_refresh quiet_env default_settings subscribed_agent quiet_world))) = Some cs \<and> cs_subscribed cs = []"
proof -
  obtain rc ag' w' where r: "cloud_refresh quiet_env default_settings subscribed_agent quiet_world = (rc, ag', w')" by (metis surj_pair)
  have "\<not> cloud_connected subscribed_agent" by (simp add: subscribed_agent_def cloud_connected_def new_cloud_session_def)
  from refresh_forgets_subscriptions [OF r this] r show ?thesis by auto
qed

section \<open>Devices coming online\<close>

fun cloud_messages :: "(bytes \<times> bytes) list \<Rightarrow> agent \<Rightarrow> agent \<times> event list" where
  "cloud_messages [] ag = (ag, [])"
| "cloud_messages ((dev, js) # ms) ag =
     (let (ag1, e1) = on_cloud_message dev js ag; (ag2, e2) = cloud_messages ms ag1 in (ag2, e1 @ e2))"

fun online_of :: "event \<Rightarrow> bytes list" where
  "online_of (Queued (Printer_notice d)) = [d]"
| "online_of (Called (Printer_notice d)) = [d]"
| "online_of _ = []"

text \<open>The devices in the order of their first message.\<close>

fun first_seen :: "bytes set \<Rightarrow> bytes list \<Rightarrow> bytes list" where
  "first_seen seen [] = []"
| "first_seen seen (d # ds) = (if d \<in> seen then first_seen seen ds else d # first_seen (insert d seen) ds)"

lemma online_messages:
  assumes "ag_cloud_callbacks ag On_printer_connected" and "om_ok (ag_cloud_devs ag)"
  shows "concat (map online_of (snd (cloud_messages ms ag))) =
    map (\<lambda>d. ''tunnel/'' @ d) (first_seen (oset_abs (ag_cloud_devs ag)) (map fst ms))"
  using assms
proof (induction ms arbitrary: ag)
  case (Cons m ms)
  obtain dev js where m: "m = (dev, js)" by force
  let ?ag = "ag\<lparr>ag_cloud_devs := oset_insert dev (ag_cloud_devs ag)\<rparr>"
  have e: "on_cloud_message dev js ag = (?ag,
      (if \<not> oset_mem dev (ag_cloud_devs ag) then [queued_if (ag_callbacks ag Queue_on_main) (Printer_notice (''tunnel/'' @ dev))] else []) @
      (if ag_cloud_callbacks ag On_message then [Called (Message_notice dev js)] else []))"
    using Cons.prems(1) by (simp add: on_cloud_message_def Let_def)
  have IH: "concat (map online_of (snd (cloud_messages ms ?ag))) =
      map (\<lambda>d. ''tunnel/'' @ d) (first_seen (insert dev (oset_abs (ag_cloud_devs ag))) (map fst ms))"
    using Cons.IH [of ?ag] Cons.prems by (simp add: oset.ok_insert oset.abs_insert)
  obtain ag2 e2 where r: "cloud_messages ms ?ag = (ag2, e2)" by force
  show ?case
    using IH Cons.prems
    by (cases "dev \<in> oset_abs (ag_cloud_devs ag)") (auto simp: m e r oset.mem_abs queued_if_def insert_absorb)
qed simp

text \<open>Each device comes online once. From a disconnect on, whatever messages arrive, Studio is
  told that a device is online exactly once for each device that sends, at its first message and
  in the order of the first messages.\<close>

theorem online_once:
  assumes "disconnect_cloud ag0 w = (rc, ag, w')" and "ag_cloud_callbacks ag On_printer_connected"
  shows "concat (map online_of (snd (cloud_messages ms ag))) = map (\<lambda>d. ''tunnel/'' @ d) (first_seen {} (map fst ms)) \<and>
    distinct (first_seen {} (map fst ms)) \<and> set (first_seen {} (map fst ms)) = set (map fst ms)"
proof -
  have "ag_cloud_devs ag = []" using assms(1) by (auto simp: disconnect_cloud_def)
  then have "concat (map online_of (snd (cloud_messages ms ag))) = map (\<lambda>d. ''tunnel/'' @ d) (first_seen {} (map fst ms))"
    using online_messages [OF assms(2)] by (simp add: oset_abs_def)
  moreover have "distinct (first_seen S ds) \<and> set (first_seen S ds) = set ds - S" for S ds
    by (induction ds arbitrary: S) auto
  ultimately show ?thesis by simp
qed

theorem online_once_witness:
  "concat (map online_of (snd (cloud_messages [(''A'', ''x''), (''B'', ''y''), (''A'', ''z'')]
     (new_agent\<lparr>ag_cloud_callbacks := (\<lambda>_. True)\<rparr>)))) = [''tunnel/A'', ''tunnel/B'']"
proof -
  let ?ag = "new_agent\<lparr>ag_cloud_callbacks := (\<lambda>_. True)\<rparr>"
  have "disconnect_cloud ?ag quiet_world = (net_success, ?ag, quiet_world)"
    by (simp add: disconnect_cloud_def new_agent_def)
  from online_once [OF this, of "[(''A'', ''x''), (''B'', ''y''), (''A'', ''z'')]"] show ?thesis by simp
qed

end
