(* ===== verification/Http.thy ===== *)
theory Http
  imports Lan_Tls
begin

text \<open>
  The HTTP client of \<open>src/http_client.cpp\<close> and \<open>include/obn/http_client.hpp\<close>.

  libcurl is the environment: the state of the web holds the outcomes of the next requests, in
  order, and the requests made so far as libcurl was asked to send them. An exhausted script is a
  timeout. \<open>wb_agent\<close> is the product name with the version of the build.
\<close>

datatype http_method = GET | POST | PUT | DEL | PATCH

record http_request =
  hq_method :: http_method
  hq_url :: bytes
  hq_headers :: "(bytes, bytes) omap"
  hq_body :: bytes
  hq_ca_file :: bytes
  hq_insecure :: bool
  hq_no_content_type :: bool
  hq_no_accept :: bool

definition new_request :: http_request where
  "new_request = \<lparr>hq_method = GET, hq_url = [], hq_headers = [], hq_body = [], hq_ca_file = [], hq_insecure = False,
     hq_no_content_type = False, hq_no_accept = False\<rparr>"

record http_response =
  hr_status :: int
  hr_body :: bytes
  hr_content_type :: bytes
  hr_cookies :: "bytes list"
  hr_error :: bytes

definition new_response :: http_response where
  "new_response = \<lparr>hr_status = 0, hr_body = [], hr_content_type = [], hr_cookies = [], hr_error = []\<rparr>"

section \<open>Requests\<close>

text \<open>What libcurl is told: the verb, the URL, the header list, the body if there is one, the trust.\<close>

record wire_request =
  wq_verb :: bytes
  wq_url :: bytes
  wq_lines :: "bytes list"
  wq_body :: "bytes option"
  wq_insecure :: bool
  wq_ca_file :: "bytes option"

definition method_verb :: "http_method \<Rightarrow> bytes" where
  "method_verb m = (case m of GET \<Rightarrow> ''GET'' | POST \<Rightarrow> ''POST'' | PUT \<Rightarrow> ''PUT'' | DEL \<Rightarrow> ''DELETE'' | PATCH \<Rightarrow> ''PATCH'')"

definition http_lower :: "bytes \<Rightarrow> bytes" where
  "http_lower s = map to_lower_char s"

definition header_text :: "bytes \<times> bytes \<Rightarrow> bytes" where
  "header_text kv = (let (k, v) = kv in c_str (if v = [] then k @ '':'' else k @ '': '' @ v))"

definition has_header :: "bytes \<Rightarrow> http_request \<Rightarrow> bool" where
  "has_header name rq = list_ex (\<lambda>(k, v). http_lower k = name) (hq_headers rq)"

definition sends_body :: "http_method \<Rightarrow> bool" where
  "sends_body m = (m = POST \<or> m = PUT \<or> m = PATCH)"

definition wire_of :: "bytes \<Rightarrow> http_request \<Rightarrow> wire_request" where
  "wire_of product rq =
     \<lparr>wq_verb = method_verb (hq_method rq), wq_url = c_str (hq_url rq),
      wq_lines = map header_text (hq_headers rq) @
        (if has_header ''user-agent'' rq then [] else [''User-Agent: '' @ product]) @
        (if has_header ''accept'' rq \<or> hq_no_accept rq then [] else [''Accept: application/json'']) @
        (if sends_body (hq_method rq) \<and> \<not> has_header ''content-type'' rq \<and> \<not> hq_no_content_type rq
         then [''Content-Type: application/json''] else []),
      wq_body = (if sends_body (hq_method rq) then Some (hq_body rq) else None),
      wq_insecure = hq_insecure rq,
      wq_ca_file = (if \<not> hq_insecure rq \<and> hq_ca_file rq \<noteq> [] then Some (hq_ca_file rq) else None)\<rparr>"

section \<open>Responses\<close>

text \<open>\<open>on_header\<close>: one line of a response, of any response when redirects are followed.\<close>

definition header_prefixed :: "bytes \<Rightarrow> bytes \<Rightarrow> bool" where
  "header_prefixed p s = (length p \<le> length s \<and> http_lower (take (length p) s) = http_lower p)"

definition header_rest :: "bytes \<Rightarrow> bytes" where
  "header_rest l = ltrim_by (\<lambda>c. c = BLANK) (case find_char CHR '':'' l of None \<Rightarrow> [] | Some i \<Rightarrow> drop (Suc i) l)"

definition on_header :: "bytes \<Rightarrow> http_response \<Rightarrow> http_response" where
  "on_header raw resp =
     (let l = rtrim_by (\<lambda>c. c = CR \<or> c = LF) raw in
      if header_prefixed ''content-type:'' l then resp\<lparr>hr_content_type := header_rest l\<rparr>
      else if header_prefixed ''set-cookie:'' l then resp\<lparr>hr_cookies := hr_cookies resp @ [header_rest l]\<rparr>
      else resp)"

text \<open>What becomes of a request: no handle; an error, with what had arrived; a response.\<close>

datatype http_outcome = No_handle | Transport_error bytes "bytes list" bytes | Responded int "bytes list" bytes

definition response_of :: "http_outcome \<Rightarrow> http_response" where
  "response_of out =
     (case out of
        No_handle \<Rightarrow> new_response\<lparr>hr_error := ''curl_easy_init failed''\<rparr>
      | Transport_error e hs body \<Rightarrow> (fold on_header hs new_response)\<lparr>hr_body := body, hr_error := e\<rparr>
      | Responded status hs body \<Rightarrow> (fold on_header hs new_response)\<lparr>hr_body := body, hr_status := status\<rparr>)"

section \<open>The web\<close>

record web =
  wb_agent :: bytes
  wb_next :: "http_outcome list"
  wb_sent :: "wire_request list"

definition perform :: "http_request \<Rightarrow> web \<Rightarrow> http_response \<times> web" where
  "perform rq wb =
     (case wb_next wb of
        [] \<Rightarrow> (response_of (Transport_error ''Timeout was reached'' [] []), wb\<lparr>wb_sent := wb_sent wb @ [wire_of (wb_agent wb) rq]\<rparr>)
      | out # outs \<Rightarrow>
          (response_of out,
           if out = No_handle then wb\<lparr>wb_next := outs\<rparr>
           else wb\<lparr>wb_next := outs, wb_sent := wb_sent wb @ [wire_of (wb_agent wb) rq]\<rparr>))"

definition get_json :: "bytes \<Rightarrow> (bytes, bytes) omap \<Rightarrow> web \<Rightarrow> http_response \<times> web" where
  "get_json url hdrs = perform (new_request\<lparr>hq_url := url, hq_headers := hdrs\<rparr>)"

definition post_json :: "bytes \<Rightarrow> bytes \<Rightarrow> (bytes, bytes) omap \<Rightarrow> web \<Rightarrow> http_response \<times> web" where
  "post_json url body hdrs = perform (new_request\<lparr>hq_method := POST, hq_url := url, hq_body := body, hq_headers := hdrs\<rparr>)"

text \<open>The test every caller makes: no transport error, and a status from 200 to 299.\<close>

definition status_ok :: "int \<Rightarrow> bool" where
  "status_ok code = (200 \<le> code \<and> code < 300)"

definition answered :: "http_response \<Rightarrow> bool" where
  "answered resp = (hr_error resp = [] \<and> status_ok (hr_status resp))"

section \<open>URL components\<close>

definition unreserved :: "char \<Rightarrow> bool" where
  "unreserved c =
     (CHR ''A'' \<le> c \<and> c \<le> CHR ''Z'' \<or> CHR ''a'' \<le> c \<and> c \<le> CHR ''z'' \<or> is_digit c \<or>
      c = CHR ''-'' \<or> c = CHR ''_'' \<or> c = CHR ''.'' \<or> c = CHR ''~'')"

definition hex_digit :: "nat \<Rightarrow> char" where
  "hex_digit n = ''0123456789ABCDEF'' ! n"

definition url_char :: "char \<Rightarrow> bytes" where
  "url_char c = (if unreserved c then [c] else [CHR ''%'', hex_digit (code_of c div 16), hex_digit (code_of c mod 16)])"

definition url_encode :: "bytes \<Rightarrow> bytes" where
  "url_encode s = concat (map url_char s)"

section \<open>Laws\<close>

lemma perform_sent: "perform rq wb = (resp, wb') \<Longrightarrow> hr_error resp = [] \<Longrightarrow>
    wb_sent wb' = wb_sent wb @ [wire_of (wb_agent wb) rq] \<and> wb_agent wb' = wb_agent wb"
  by (auto simp: perform_def response_of_def split: list.splits)

lemma perform_log: "perform rq wb = (resp, wb') \<Longrightarrow>
    (wb_sent wb' = wb_sent wb \<or> wb_sent wb' = wb_sent wb @ [wire_of (wb_agent wb) rq]) \<and> wb_agent wb' = wb_agent wb"
  by (auto simp: perform_def split: list.splits if_splits)

text \<open>Requests that look the same to libcurl have the same outcome.\<close>

lemma perform_same_wire: "wire_of (wb_agent wb) rq = wire_of (wb_agent wb) rq' \<Longrightarrow> perform rq wb = perform rq' wb"
  by (simp add: perform_def split: list.split)

text \<open>\<open>sends P wb wb'\<close>: from \<open>wb\<close> to \<open>wb'\<close> only requests with the property were made.\<close>

definition sends :: "(wire_request \<Rightarrow> bool) \<Rightarrow> web \<Rightarrow> web \<Rightarrow> bool" where
  "sends P wb wb' = (wb_agent wb' = wb_agent wb \<and> (\<exists>ws. wb_sent wb' = wb_sent wb @ ws \<and> list_all P ws))"

lemma sends_refl [simp, intro]: "sends P wb wb"
  by (simp add: sends_def)

lemma sends_trans: "sends P wb wb1 \<Longrightarrow> sends P wb1 wb2 \<Longrightarrow> sends P wb wb2"
  by (auto simp: sends_def)

lemma sends_perform: "perform rq wb = (resp, wb') \<Longrightarrow> P (wire_of (wb_agent wb) rq) \<Longrightarrow> sends P wb wb'"
  using perform_log [of rq wb resp wb'] by (auto simp: sends_def)

lemma sends_keeps: "sends P wb wb' \<Longrightarrow> set (wb_sent wb) \<subseteq> set (wb_sent wb')"
  by (auto simp: sends_def)

end
