(* ===== verification/Cloud_Auth.thy ===== *)
theory Cloud_Auth
  imports Http Agent_Cloud
begin

text \<open>
  The authentication calls of \<open>src/cloud_auth.cpp\<close> and the account functions Studio calls,
  \<open>src/abi_user.cpp\<close>. \<open>s\<close> are the settings in force.
\<close>

section \<open>The service\<close>

record auth_answer = auth_result +
  aa_status :: int
  aa_raw_body :: bytes
  aa_login_type :: bytes
  aa_tfa_key :: bytes
  aa_error :: bytes

record profile_answer = profile_result +
  pa_status :: int
  pa_raw_body :: bytes
  pa_account :: bytes
  pa_error :: bytes

definition no_auth :: auth_answer where
  "no_auth = \<lparr>ar_ok = False, ar_access_token = [], ar_refresh_token = [], ar_expires_in = 0,
     aa_status = 0, aa_raw_body = [], aa_login_type = [], aa_tfa_key = [], aa_error = []\<rparr>"

definition no_profile_answer :: profile_answer where
  "no_profile_answer = \<lparr>pf_ok = False, pf_user_id = [], pf_user_name = [], pf_nick_name = [], pf_avatar = [],
     pa_status = 0, pa_raw_body = [], pa_account = [], pa_error = []\<rparr>"

definition api_host :: "settings \<Rightarrow> bytes \<Rightarrow> bytes" where
  "api_host s region = cloud_api_host_for s region"

definition web_host :: "settings \<Rightarrow> bytes \<Rightarrow> bytes" where
  "web_host s region = cloud_web_host_for s region"

definition refresh_body :: "bytes \<Rightarrow> bytes" where
  "refresh_body token = CHR ''{'' # QUOTE # ''refreshToken'' @ [QUOTE, CHR '':''] @ escape token @ ''}''"

definition ticket_body :: "bytes \<Rightarrow> bytes" where
  "ticket_body ticket = CHR ''{'' # QUOTE # ''ticket'' @ [QUOTE, CHR '':''] @ escape ticket @ ''}''"

definition or_string :: "bytes \<Rightarrow> bytes \<Rightarrow> bytes" where
  "or_string a b = (if a \<noteq> [] then a else b)"

definition fill_auth_fields :: "json \<Rightarrow> auth_answer \<Rightarrow> auth_answer" where
  "fill_auth_fields doc r =
     r\<lparr>ar_access_token := as_string (jfind doc ''accessToken''), ar_refresh_token := as_string (jfind doc ''refreshToken''),
       ar_expires_in := as_int 0 (jfind doc ''expiresIn''), aa_login_type := as_string (jfind doc ''loginType''),
       aa_tfa_key := or_string (as_string (jfind doc ''tfaKey'')) (as_string (jfind doc ''tfa_key''))\<rparr>"

definition api_error :: "json \<Rightarrow> int \<Rightarrow> bytes" where
  "api_error doc status =
     or_string (or_string (as_string (jfind doc ''message'')) (as_string (jfind doc ''error''))) (''http '' @ show_int status)"

text \<open>The common end of the two token calls.\<close>

definition perr_text :: "parse_error \<Rightarrow> bytes" where
  "perr_text e = (case e of Perr m \<Rightarrow> m | Fuel_out \<Rightarrow> [])"

definition auth_of :: "http_response \<Rightarrow> auth_answer" where
  "auth_of resp =
     (let r = no_auth\<lparr>aa_status := hr_status resp, aa_raw_body := hr_body resp\<rparr> in
      if hr_error resp \<noteq> [] then r\<lparr>aa_error := hr_error resp\<rparr>
      else case Json_Lite.parse (hr_body resp) of
          Inl e \<Rightarrow> r\<lparr>aa_error := ''bad JSON: '' @ perr_text e\<rparr>
        | Inr doc \<Rightarrow>
            (let r1 = fill_auth_fields doc r in
             if ar_access_token r1 \<noteq> [] then r1\<lparr>ar_ok := True\<rparr> else r1\<lparr>aa_error := api_error doc (hr_status resp)\<rparr>))"

definition login_with_ticket :: "settings \<Rightarrow> bytes \<Rightarrow> bytes \<Rightarrow> web \<Rightarrow> auth_answer \<times> web" where
  "login_with_ticket s region ticket wb =
     (if ticket = [] then (no_auth\<lparr>aa_error := ''empty ticket''\<rparr>, wb)
      else
        let (resp, wb') = post_json (api_host s region @ ''/v1/user-service/user/ticket/'' @ ticket) (ticket_body ticket) [] wb in
        (auth_of resp, wb'))"

definition refresh_token :: "settings \<Rightarrow> bytes \<Rightarrow> bytes \<Rightarrow> web \<Rightarrow> auth_answer \<times> web" where
  "refresh_token s region token wb =
     (let (resp, wb') = post_json (api_host s region @ ''/v1/user-service/user/refreshtoken'') (refresh_body token) [] wb in
      (auth_of resp, wb'))"

definition profile_fields :: "json \<Rightarrow> profile_answer \<Rightarrow> profile_answer" where
  "profile_fields doc r =
     (let str = (\<lambda>k. as_string (jfind doc k)); uid = as_int 0 (jfind doc ''uid'') in
      r\<lparr>pf_user_id := (if str ''uidStr'' = [] \<and> uid \<noteq> 0 then show_int uid else str ''uidStr''),
        pf_user_name := str ''name'', pf_nick_name := or_string (str ''nickname'') (str ''nickName''),
        pf_avatar := str ''avatar'', pa_account := str ''account'', pf_ok := True\<rparr>)"

definition get_profile :: "settings \<Rightarrow> bytes \<Rightarrow> bytes \<Rightarrow> web \<Rightarrow> profile_answer \<times> web" where
  "get_profile s region token wb =
     (let (resp, wb') = get_json (api_host s region @ ''/v1/user-service/my/profile'') [(''Authorization'', ''Bearer '' @ token)] wb;
          r = no_profile_answer\<lparr>pa_status := hr_status resp, pa_raw_body := hr_body resp\<rparr> in
      (if hr_error resp \<noteq> [] then r\<lparr>pa_error := hr_error resp\<rparr>
       else if hr_status resp \<noteq> 200 then r\<lparr>pa_error := ''http '' @ show_int (hr_status resp)\<rparr>
       else case Json_Lite.parse (hr_body resp) of
           Inl e \<Rightarrow> r\<lparr>pa_error := ''bad JSON: '' @ perr_text e\<rparr>
         | Inr doc \<Rightarrow> profile_fields doc r, wb'))"

section \<open>The account functions\<close>

text \<open>
  \<open>bambu_network_change_user\<close>: the profile is fetched when the login text has a token but no
  profile of its own.
\<close>

definition wants_profile :: "agent \<Rightarrow> bytes \<Rightarrow> bool" where
  "wants_profile ag info =
     (ag_auth ag \<noteq> None \<and> (case parse_opt info of None \<Rightarrow> False
        | Some doc \<Rightarrow> lg_access_token (read_login doc) \<noteq> [] \<and> \<not> lg_inline (read_login doc)))"

definition login_token :: "bytes \<Rightarrow> bytes" where
  "login_token info = (case parse_opt info of None \<Rightarrow> [] | Some doc \<Rightarrow> lg_access_token (read_login doc))"

definition change_user ::
  "settings \<Rightarrow> int \<Rightarrow> persist_outcome \<Rightarrow> persist_outcome \<Rightarrow> bytes \<Rightarrow> agent \<Rightarrow> disk \<Rightarrow> web \<Rightarrow> int \<times> agent \<times> disk \<times> event list \<times> web" where
  "change_user s now out1 out2 info ag d wb =
     (if info = [] \<or> info = ''{}'' then (let (ag', d', evs) = clear_session ag d in (net_success, ag', d', evs, wb))
      else
        let (prof, wb') = (if wants_profile ag info then get_profile s (cloud_region ag) (login_token info) wb
                           else (no_profile_answer, wb));
            (rc, ag', d', evs) = apply_login_info now (profile_result.truncate prof) out1 out2 info ag d in
        (rc, ag', d', evs, wb'))"

definition user_logout :: "agent \<Rightarrow> disk \<Rightarrow> int \<times> agent \<times> disk \<times> event list" where
  "user_logout ag d = (net_success, clear_session ag d)"

definition is_user_login :: "agent \<Rightarrow> bool" where
  "is_user_login ag = user_logged_in ag"

definition session_of :: "agent \<Rightarrow> session_info" where
  "session_of ag = (case ag_auth ag of None \<Rightarrow> fresh_session | Some st \<Rightarrow> st_session st)"

definition get_user_nickname :: "agent \<Rightarrow> bytes" where
  "get_user_nickname ag = (let s = session_of ag in if si_nick_name s = [] then si_user_name s else si_nick_name s)"

text \<open>The members of \<open>data\<close> in the message to Studio's web view.\<close>

definition session_fields :: "agent \<Rightarrow> (bytes \<times> bytes) list" where
  "session_fields ag =
     (let s = session_of ag in
      [(''avatar'', si_avatar s), (''name'', get_user_nickname ag), (''user_id'', si_user_id s), (''user_name'', si_user_name s),
       (''nickname'', si_nick_name s), (''account'', si_account s), (''token'', si_access_token s), (''refresh'', si_refresh_token s)])"

definition build_session_cmd :: "agent \<Rightarrow> bool \<Rightarrow> bytes" where
  "build_session_cmd ag logout =
     ''{'' @ [QUOTE] @ ''sequence_id'' @ [QUOTE, CHR '':'', QUOTE] @ ''0'' @ [QUOTE, CHR '',''] @
     [QUOTE] @ ''command'' @ [QUOTE, CHR '':'', QUOTE] @ (if logout then ''studio_useroffline'' else ''studio_userlogin'') @ [QUOTE, CHR '',''] @
     [QUOTE] @ ''data'' @ [QUOTE] @ '':{'' @
     join '','' (map (\<lambda>(k, v). QUOTE # k @ [QUOTE, CHR '':''] @ escape v) (session_fields ag)) @ ''}}''"

text \<open>\<open>bambu_network_get_my_profile\<close> and \<open>bambu_network_get_my_token\<close>: result, HTTP status and body.\<close>

definition get_my_profile :: "settings \<Rightarrow> agent \<Rightarrow> bytes \<Rightarrow> web \<Rightarrow> (int \<times> int \<times> bytes) \<times> web" where
  "get_my_profile s ag token wb =
     (let t = (if token = [] then si_access_token (session_of ag) else token) in
      if t = [] then ((net_err_invalid_result, 0, []), wb)
      else
        let (r, wb') = get_profile s (cloud_region ag) t wb in
        ((if pf_ok r then net_success else net_err_invalid_result, pa_status r, pa_raw_body r), wb'))"

definition get_my_token :: "settings \<Rightarrow> agent \<Rightarrow> bytes \<Rightarrow> web \<Rightarrow> (int \<times> int \<times> bytes) \<times> web" where
  "get_my_token s ag ticket wb =
     (let (r, wb') = login_with_ticket s (cloud_region ag) ticket wb in
      ((if ar_ok r then net_success else net_err_invalid_result, aa_status r, aa_raw_body r), wb'))"

definition get_user_info :: "agent \<Rightarrow> int" where
  "get_user_info ag =
     (if user_logged_in ag then (case stoll (si_user_id (session_of ag)) of None \<Rightarrow> 0 | Some v \<Rightarrow> narrow_i32 v) else 0)"

definition get_bambulab_host :: "settings \<Rightarrow> agent \<Rightarrow> bytes" where
  "get_bambulab_host s ag = web_host s (cloud_region ag)"


section \<open>Laws\<close>

text \<open>The message to the web view reads back as what it was built from, whatever bytes the fields hold.\<close>

definition session_json :: "agent \<Rightarrow> bool \<Rightarrow> json" where
  "session_json ag logout = Object (emplace_all
     [(''sequence_id'', String ''0''), (''command'', String (if logout then ''studio_useroffline'' else ''studio_userlogin'')),
      (''data'', Object (emplace_all (map (\<lambda>(k, v). (k, String v)) (session_fields ag)) []))] [])"

lemma session_fields_read:
  "list_all2 same_field (map (\<lambda>(k, v). (k, escape v)) (session_fields ag)) (map (\<lambda>(k, v). (k, String v)) (session_fields ag))"
  by (simp add: session_fields_def Let_def same_field_def escape_def escape_char_def reads_as_escape [unfolded escape_def])

lemma session_cmd_reads: "reads_as (build_session_cmd ag logout) (session_json ag logout)"
proof -
  let ?data = "''{'' @ join '','' (map (\<lambda>(k, v). QUOTE # k @ [QUOTE, CHR '':''] @ escape v) (session_fields ag)) @ ''}''"
  let ?cmd = "if logout then ''studio_useroffline'' else ''studio_userlogin''"
  have "session_fields ag \<noteq> []" by (simp add: session_fields_def Let_def)
  with fields_read [OF session_fields_read [of ag]]
  have d: "reads_as ?data (Object (emplace_all (map (\<lambda>(k, v). (k, String v)) (session_fields ag)) []))"
    by (simp add: case_prod_beta' comp_def)
  have q: "escape ?cmd = QUOTE # ?cmd @ [QUOTE]" "escape ''0'' = [QUOTE, CHR ''0'', QUOTE]"
    by (simp_all add: escape_def escape_char_def)
  have "list_all2 same_field [(''sequence_id'', escape ''0''), (''command'', escape ?cmd), (''data'', ?data)]
     [(''sequence_id'', String ''0''), (''command'', String ?cmd),
      (''data'', Object (emplace_all (map (\<lambda>(k, v). (k, String v)) (session_fields ag)) []))]"
    using d by (simp only: list_all2_Cons list_all2_Nil) (intro conjI same_fieldI reads_as_escape; simp add: plain_text_def escape_char_def)
  from fields_read [OF this] show ?thesis
    unfolding q by (simp add: build_session_cmd_def session_json_def)
qed


lemma parse_session_cmd: "parse (build_session_cmd ag logout) = Inr (session_json ag logout)"
  using parse_as [OF session_cmd_reads, of "[]" "[]"] by simp

lemma session_cmd_field:
  assumes "map_of (session_fields ag) k = Some v" and "plain_key k"
  shows "jfind (session_json ag logout) (''data.'' @ k) = String v"
proof -
  let ?vs = "map (\<lambda>(k, v). (k, String v)) (session_fields ag)"
  have "map_of ?vs k = Some (String v)" using assms(1) by (simp add: map_of_map)
  from emplaced_field [OF this assms(2)] show ?thesis
    using emplace_all_get [of "[]" _ "''data''"] jfind_dot [of "''data''"]
    by (simp add: session_json_def jget_def plain_key_def key_stop_def)
qed


lemma session_cmd_data: "list_all (\<lambda>(k, v). jfind (session_json ag logout) (''data.'' @ k) = String v) (session_fields ag)"
proof -
  have "distinct (map fst (session_fields ag))" "list_all (\<lambda>(k, v). plain_key k) (session_fields ag)"
    by (simp_all add: session_fields_def Let_def plain_key_def key_stop_def)
  then show ?thesis
    unfolding list_all_iff using session_cmd_field [of ag _ _ logout] map_of_is_SomeI by fastforce
qed

text \<open>What the web view reads.\<close>

theorem session_cmd_document:
  "\<exists>doc. parse (build_session_cmd ag logout) = Inr doc \<and>
     jfind doc ''command'' = String (if logout then ''studio_useroffline'' else ''studio_userlogin'') \<and>
     list_all (\<lambda>(k, v). jfind doc (''data.'' @ k) = String v) (session_fields ag)"
proof -
  have "jfind (session_json ag logout) ''command'' = String (if logout then ''studio_useroffline'' else ''studio_userlogin'')"
    unfolding session_json_def by (rule emplaced_field) (simp_all add: plain_key_def key_stop_def)
  with parse_session_cmd [of ag logout] session_cmd_data [of ag logout] show ?thesis by blast
qed

text \<open>A ticket that is answered with a token logs in.\<close>

lemma auth_of_ok:
  assumes "auth_of resp = r" and "ar_ok r"
  shows "hr_error resp = [] \<and> aa_raw_body r = hr_body resp \<and>
    (\<exists>doc. parse_opt (hr_body resp) = Some doc \<and> as_string (jfind doc ''accessToken'') = ar_access_token r \<and> ar_access_token r \<noteq> [])"
  using assms by (auto simp: auth_of_def no_auth_def fill_auth_fields_def parse_opt_def Let_def split: if_splits sum.splits)

lemma read_login_token:
  assumes "as_string (jfind doc ''accessToken'') = tok" and "tok \<noteq> []"
  shows "lg_access_token (read_login doc) \<noteq> [] \<and> (as_string (jfind doc ''data.token'') = [] \<longrightarrow> lg_access_token (read_login doc) = tok)"
  using assms by (simp add: read_login_def Let_def)

lemma apply_login_ok:
  assumes "ag_auth ag = Some st" and "parse_opt login = Some doc" and "lg_access_token (read_login doc) \<noteq> []"
  shows "fst (apply_login_info now prof out1 out2 login ag d) = net_success"
  using assms by (simp add: apply_login_info_def Let_def split: prod.splits)


lemma token_text_nonempty:
  assumes "parse_opt body = Some doc" and "as_string (jfind doc ''accessToken'') \<noteq> []"
  shows "body \<noteq> [] \<and> body \<noteq> ''{}''"
proof -
  have "body \<noteq> []" using assms(1) by (auto simp: parse_opt_def parse_def split: sum.splits)
  have "reads_as ''{}'' (Object [])" using reads_as_dump [of "Object []"] by simp
  then have "parse_opt ''{}'' = Some (Object [])" by (rule parse_opt_as)
  moreover have "jfind (Object []) ''accessToken'' = Null"
    using jfind_key [of "''accessToken''" "Object []"] by (simp add: plain_key_def key_stop_def jget_def om_get_def)
  ultimately show ?thesis using assms \<open>body \<noteq> []\<close> by auto
qed

text \<open>Signing in with a ticket. The ticket is sent to the API host of the region; when the answer has
  a token, the answer given back as login text logs in, with that token (unless the answer also has
  the envelope's \<open>data.token\<close>). One request goes out for the ticket and, when a profile
  is wanted, one for the profile, which bears the new token; nothing else is sent.
\<close>

theorem ticket_logs_in:
  assumes "get_my_token s ag ticket wb = ((net_success, code, body), wb1)"
    and "change_user s now out1 out2 body ag d wb1 = (rc, ag', d', evs, wb2)"
    and "ag_auth ag = Some st" and "No_handle \<notin> set (wb_next wb)"
  shows "rc = net_success \<and> (\<exists>doc st'. parse_opt body = Some doc \<and> ag_auth ag' = Some st' \<and>
      si_access_token (st_session st') = login_token body \<and> login_token body \<noteq> [] \<and>
      (as_string (jfind doc ''data.token'') = [] \<longrightarrow> login_token body = as_string (jfind doc ''accessToken''))) \<and>
    map wq_url (wb_sent wb2) = map wq_url (wb_sent wb) @
      [c_str (api_host s (cloud_region ag) @ ''/v1/user-service/user/ticket/'' @ ticket)] @
      (if wants_profile ag body then [c_str (api_host s (cloud_region ag) @ ''/v1/user-service/my/profile'')] else []) \<and>
    (wants_profile ag body \<longrightarrow> c_str (''Authorization: Bearer '' @ login_token body) \<in> set (wq_lines (last (wb_sent wb2))))"
proof -
  obtain r where l: "login_with_ticket s (cloud_region ag) ticket wb = (r, wb1)" and r: "ar_ok r" "body = aa_raw_body r"
    using assms(1) by (auto simp: get_my_token_def net_codes split: prod.splits if_splits)
  have tne: "ticket \<noteq> []" using l r by (auto simp: login_with_ticket_def no_auth_def)
  let ?rq = "new_request\<lparr>hq_method := POST, hq_url := api_host s (cloud_region ag) @ ''/v1/user-service/user/ticket/'' @ ticket,
    hq_body := ticket_body ticket, hq_headers := []\<rparr>"
  obtain resp where p: "perform ?rq wb = (resp, wb1)" and a: "auth_of resp = r"
    using l tne by (auto simp: login_with_ticket_def post_json_def split: prod.splits)
  obtain doc where doc: "hr_error resp = []" "body = hr_body resp" "parse_opt body = Some doc"
    "as_string (jfind doc ''accessToken'') = ar_access_token r" "ar_access_token r \<noteq> []"
    using auth_of_ok [OF a r(1)] r(2) by auto
  have sent1: "wb_sent wb1 = wb_sent wb @ [wire_of (wb_agent wb) ?rq]" using perform_sent [OF p doc(1)] by simp
  have nh: "No_handle \<notin> set (wb_next wb1)" using p assms(4) by (auto simp: perform_def split: list.splits if_splits)
  have tok: "lg_access_token (read_login doc) \<noteq> []"
    "as_string (jfind doc ''data.token'') = [] \<longrightarrow> lg_access_token (read_login doc) = as_string (jfind doc ''accessToken'')"
    using read_login_token [OF doc(4,5)] doc(4) by auto
  have lt: "login_token body = lg_access_token (read_login doc)" using doc(3) by (simp add: login_token_def)
  have ne: "body \<noteq> []" "body \<noteq> ''{}''" using token_text_nonempty [OF doc(3)] doc(4,5) by auto
  obtain prof wb2' where q: "(if wants_profile ag body then get_profile s (cloud_region ag) (login_token body) wb1 else (no_profile_answer, wb1)) = (prof, wb2')"
    by (metis surj_pair)
  obtain rc' ag2 d2 evs2 where ap: "apply_login_info now (profile_result.truncate prof) out1 out2 body ag d = (rc', ag2, d2, evs2)" by (metis surj_pair)
  have e: "rc' = rc" "ag2 = ag'" "wb2' = wb2" using assms(2) ne q ap by (auto simp: change_user_def)
  have rc: "rc = net_success" using apply_login_ok [OF assms(3) doc(3) tok(1)] ap e by (metis fst_conv)
  obtain st' where st': "ag_auth ag' = Some st'" "si_access_token (st_session st') = lg_access_token (read_login doc)"
    using apply_login_facts [OF ap [unfolded e rc] assms(3)] doc(3) by (metis option.inject)
  let ?pq = "new_request\<lparr>hq_url := api_host s (cloud_region ag) @ ''/v1/user-service/my/profile'',
    hq_headers := [(''Authorization'', ''Bearer '' @ login_token body)]\<rparr>"
  have sent2: "wb_sent wb2 = wb_sent wb1 @ (if wants_profile ag body then [wire_of (wb_agent wb1) ?pq] else [])"
  proof (cases "wants_profile ag body")
    case True
    then obtain resp2 where "perform ?pq wb1 = (resp2, wb2)"
      using q e by (auto simp: get_profile_def get_json_def Let_def split: prod.splits)
    then show ?thesis using True nh by (auto simp: perform_def split: list.splits if_splits)
  qed (use q e in auto)
  have "wants_profile ag body \<longrightarrow> c_str (''Authorization: Bearer '' @ login_token body) \<in> set (wq_lines (last (wb_sent wb2)))"
    using sent2 by (simp add: wire_of_def new_request_def header_text_def)
  then show ?thesis
    using rc doc(3) st' lt tok sent1 sent2 by (auto simp: wire_of_def new_request_def)
qed


definition ticket_web :: web where
  "ticket_web = \<lparr>wb_agent = ''OBN/1'', wb_next = [Responded 200 [] login_json, Responded 500 [] []], wb_sent = []\<rparr>"

theorem ticket_logs_in_witness:
  "\<exists>code wb1 rc ag' d' evs wb2 st'. get_my_token default_settings account_agent ''T1'' ticket_web = ((net_success, code, login_json), wb1) \<and>
     change_user default_settings 0 Persisted Persisted login_json account_agent [] wb1 = (rc, ag', d', evs, wb2) \<and>
     rc = net_success \<and> ag_auth ag' = Some st' \<and> si_access_token (st_session st') = ''tok''"
proof -
  let ?doc = "Object [(''accessToken'', String ''tok''), (''refreshToken'', String ''ref'')]"
  have k: "plain_key ''accessToken''" "plain_key ''data''" by (simp_all add: plain_key_def key_stop_def)
  have dt: "jfind ?doc ''data.token'' = Null" using jfind_dot [OF k(2), of ?doc "''token''"] by (simp add: jget_def om_get_def)
  have at: "jfind ?doc ''accessToken'' = String ''tok''" using jfind_key [OF k(1), of ?doc] by (simp add: jget_def om_get_def)
  have p: "parse login_json = Inr ?doc" using parse_login_json by (auto simp: parse_opt_def split: sum.splits)
  have "ar_ok (auth_of (new_response\<lparr>hr_body := login_json, hr_status := 200\<rparr>))" "aa_raw_body (auth_of (new_response\<lparr>hr_body := login_json, hr_status := 200\<rparr>)) = login_json"
    by (simp_all add: auth_of_def new_response_def p fill_auth_fields_def at no_auth_def Let_def)
  then obtain code wb1 where g: "get_my_token default_settings account_agent ''T1'' ticket_web = ((net_success, code, login_json), wb1)"
    by (simp add: get_my_token_def login_with_ticket_def post_json_def perform_def ticket_web_def response_of_def)
  obtain rc ag' d' evs wb2 where c: "change_user default_settings 0 Persisted Persisted login_json account_agent [] wb1 = (rc, ag', d', evs, wb2)"
    by (metis prod_cases5)
  have a: "ag_auth account_agent = Some (new_store ''f'')" "No_handle \<notin> set (wb_next ticket_web)" by (simp_all add: account_agent_def ticket_web_def)
  have "login_token login_json = ''tok''"
    using parse_login_json dt at by (simp add: login_token_def read_login_def Let_def)
  then show ?thesis using ticket_logs_in [OF g c a] g c by auto
qed

text \<open>
  The portal base Studio is given ends without a slash unless the settings name one that has it;
  the header demands one, since Studio appends paths without a leading slash.
\<close>

lemma portal_without_slash: "get_bambulab_host default_settings ag = (if cloud_region ag = ''CN'' then ''https://bambulab.cn'' else ''https://bambulab.com'')"
  by (simp add: get_bambulab_host_def web_host_def cloud_web_host_for_def is_cn_region_def default_settings_def pick_or_default_def cloud_region_def)

end
