(* ===== verification/Cloud_Filament.thy ===== *)
theory Cloud_Filament
  imports Cloud_Auth
begin

text \<open>
  The filament manager's calls of \<open>src/cloud_filament.cpp\<close>, which \<open>src/abi_filament.cpp\<close>
  hands on to Studio. Each takes the settings in force, the agent and the web, and returns its result
  code, the body it stores for Studio and the web.
\<close>

record filament_query =
  fq_category :: bytes
  fq_status :: bytes
  fq_spool_id :: bytes
  fq_rfid :: bytes
  fq_offset :: int
  fq_limit :: int

record filament_delete =
  fd_ids :: "bytes list"
  fd_rfids :: "bytes list"

definition net_err_get_filaments_failed :: int where "net_err_get_filaments_failed = - 27"
definition net_err_create_filament_failed :: int where "net_err_create_filament_failed = - 28"
definition net_err_update_filament_failed :: int where "net_err_update_filament_failed = - 29"
definition net_err_delete_filament_failed :: int where "net_err_delete_filament_failed = - 30"
definition net_err_get_filament_config_failed :: int where "net_err_get_filament_config_failed = - 31"

lemmas filament_codes = net_err_get_filaments_failed_def net_err_create_filament_failed_def net_err_update_filament_failed_def
  net_err_delete_filament_failed_def net_err_get_filament_config_failed_def

definition base_v2 :: "settings \<Rightarrow> agent \<Rightarrow> bytes" where
  "base_v2 s ag = api_host s (cloud_region ag) @ ''/v1/design-user-service/my/filament/v2''"

definition base_config :: "settings \<Rightarrow> agent \<Rightarrow> bytes" where
  "base_config s ag = api_host s (cloud_region ag) @ ''/v1/design-user-service/filament/config''"

definition build_list_query :: "filament_query \<Rightarrow> bytes" where
  "build_list_query p =
     (let texts = filter (\<lambda>(k, v). v \<noteq> []) [(''category'', fq_category p), (''status'', fq_status p),
            (''ids'', fq_spool_id p), (''RFIDs'', fq_rfid p)] in
      CHR ''?'' # join ''&'' (map (\<lambda>(k, v). k @ ''='' @ v)
        ([(''offset'', show_int (fq_offset p)), (''limit'', show_int (fq_limit p))] @ map (\<lambda>(k, v). (k, url_encode v)) texts)))"

definition json_str_char :: "char \<Rightarrow> bytes" where
  "json_str_char c =
     (if c = BSLASH then [BSLASH, BSLASH]
      else if c = QUOTE then [BSLASH, QUOTE]
      else if c = LF then BSLASH # ''n''
      else if c = CR then BSLASH # ''r''
      else if c = TAB then BSLASH # ''t''
      else if code_of c < (0x20::nat) then BSLASH # CHR ''u'' # show_hex_fixed 4 (code_of c)
      else [c])"

definition json_str :: "bytes \<Rightarrow> bytes" where
  "json_str s = QUOTE # concat (map json_str_char s) @ [QUOTE]"

definition build_delete_body :: "filament_delete \<Rightarrow> bytes" where
  "build_delete_body p =
     ''{'' @ join '','' (map (\<lambda>(k, vs). QUOTE # k @ [QUOTE, CHR '':'', CHR ''[''] @ join '','' (map json_str vs) @ '']'')
        (filter (\<lambda>(k, vs). vs \<noteq> []) [(''ids'', fd_ids p), (''RFIDs'', fd_rfids p)])) @ ''}''"

text \<open>\<open>None\<close>: no session to take a token from.\<close>

definition prepare :: "agent \<Rightarrow> (bytes, bytes) omap option" where
  "prepare ag =
     (let hdrs = cloud_api_http_headers ag in
      if om_get hdrs ''Authorization'' = None then None else Some hdrs)"

definition filament_result :: "int \<Rightarrow> http_response \<Rightarrow> int \<times> bytes" where
  "filament_result err resp = (if answered resp then net_success else err, hr_body resp)"

definition filament_list :: "settings \<Rightarrow> agent \<Rightarrow> filament_query \<Rightarrow> web \<Rightarrow> (int \<times> bytes) \<times> web" where
  "filament_list s ag p wb =
     (case prepare ag of
        None \<Rightarrow> ((net_err_get_filaments_failed, []), wb)
      | Some hdrs \<Rightarrow>
          (let (resp, wb') = get_json (base_v2 s ag @ build_list_query p) (om_del ''Content-Type'' hdrs) wb in
           (filament_result net_err_get_filaments_failed resp, wb')))"

definition filament_create :: "settings \<Rightarrow> agent \<Rightarrow> bytes \<Rightarrow> web \<Rightarrow> (int \<times> bytes) \<times> web" where
  "filament_create s ag body wb =
     (case prepare ag of
        None \<Rightarrow> ((net_err_create_filament_failed, []), wb)
      | Some hdrs \<Rightarrow>
          (let (resp, wb') = post_json (base_v2 s ag) body hdrs wb in
           (filament_result net_err_create_filament_failed resp, wb')))"

text \<open>The spool id is only logged.\<close>

definition filament_update :: "settings \<Rightarrow> agent \<Rightarrow> bytes \<Rightarrow> bytes \<Rightarrow> web \<Rightarrow> (int \<times> bytes) \<times> web" where
  "filament_update s ag spool_id body wb =
     (case prepare ag of
        None \<Rightarrow> ((net_err_update_filament_failed, []), wb)
      | Some hdrs \<Rightarrow>
          (let (resp, wb') = perform (new_request\<lparr>hq_method := PUT, hq_url := base_v2 s ag, hq_headers := hdrs, hq_body := body\<rparr>) wb in
           (filament_result net_err_update_filament_failed resp, wb')))"

definition batch_delete :: "settings \<Rightarrow> agent \<Rightarrow> filament_delete \<Rightarrow> web \<Rightarrow> (int \<times> bytes) \<times> web" where
  "batch_delete s ag p wb =
     (case prepare ag of
        None \<Rightarrow> ((net_err_delete_filament_failed, []), wb)
      | Some hdrs \<Rightarrow>
          (if fd_ids p = [] \<and> fd_rfids p = [] then ((net_err_delete_filament_failed, []), wb)
           else
             let (resp, wb') = perform (new_request\<lparr>hq_method := DEL, hq_url := base_v2 s ag @ ''/batch'', hq_headers := hdrs,
                                 hq_body := build_delete_body p\<rparr>) wb in
             (filament_result net_err_delete_filament_failed resp, wb')))"

definition filament_config :: "settings \<Rightarrow> agent \<Rightarrow> web \<Rightarrow> (int \<times> bytes) \<times> web" where
  "filament_config s ag wb =
     (case prepare ag of
        None \<Rightarrow> ((net_err_get_filament_config_failed, []), wb)
      | Some hdrs \<Rightarrow>
          (let (resp, wb') = get_json (base_config s ag) (om_del ''Content-Type'' hdrs) wb in
           (filament_result net_err_get_filament_config_failed resp, wb')))"

section \<open>Laws\<close>

lemma string_body_json_str: "string_body (json_str_char c @ q) = prepend [c] (string_body q)"
proof (cases "c = CHR 0x08 \<or> c = CHR 0x0C")
  case True
  then have "json_str_char c = BSLASH # CHR ''u'' # show_hex_fixed 4 (code_of c)" "code_of c < (0x80 :: nat)"
    by (auto simp: json_str_char_def)
  then show ?thesis using unicode_escape_ascii [of "code_of c" q] by (subst string_body.simps) simp
next
  case False
  then have "json_str_char c = escape_char c" by (simp add: json_str_char_def escape_char_def)
  then show ?thesis by (simp add: string_body_escape_char)
qed

text \<open>The private string printer agrees with the reader of the JSON library.\<close>

lemma reads_as_json_str: "reads_as (json_str s) (String s)"
proof -
  have b: "string_body (concat (map json_str_char s) @ QUOTE # r) = Inr (s, r)" for r
    by (induction s) (simp_all add: string_body_json_str)
  show ?thesis unfolding reads_as_def
  proof (intro allI impI)
    fix n r assume "2 * length (json_str s) + 1 \<le> n"
    then obtain m where "n = Suc m" by (cases n) auto
    then show "parse_value n (json_str s @ r) = Inr (String s, r)"
      using b [of r] by (simp add: json_str_def parse_string_def is_ws_def)
  qed
qed


lemma json_str_hd: "json_str s \<noteq> [] \<and> \<not> is_ws (hd (json_str s)) \<and> hd (json_str s) \<noteq> CHR '']''"
  by (simp add: json_str_def is_ws_def)

lemma reads_as_strings: "reads_as (''['' @ join '','' (map json_str vs) @ '']'') (Array (map String vs))"
  using reads_as_array [of "map (\<lambda>v. (json_str v, String v)) vs"] reads_as_json_str json_str_hd
  by (simp add: list_all_iff comp_def)

text \<open>The document built for a deletion names the ids, whatever bytes they hold.\<close>

definition delete_json :: "filament_delete \<Rightarrow> json" where
  "delete_json p = Object (emplace_all (map (\<lambda>(k, vs). (k, Array (map String vs)))
     (filter (\<lambda>(k, vs). vs \<noteq> []) [(''ids'', fd_ids p), (''RFIDs'', fd_rfids p)])) [])"

lemma delete_body_reads:
  assumes "fd_ids p \<noteq> [] \<or> fd_rfids p \<noteq> []"
  shows "reads_as (build_delete_body p) (delete_json p)"
proof -
  let ?fs = "filter (\<lambda>(k, vs). vs \<noteq> []) [(''ids'', fd_ids p), (''RFIDs'', fd_rfids p)]"
  have "list_all2 same_field (map (\<lambda>(k, vs). (k, ''['' @ join '','' (map json_str vs) @ '']'')) ?fs)
      (map (\<lambda>(k, vs). (k, Array (map String vs))) ?fs)"
    using reads_as_strings by (auto intro!: same_fieldI simp: plain_text_def escape_char_def)
  from fields_read [OF this] show ?thesis
    using assms by (auto simp: build_delete_body_def delete_json_def case_prod_beta' comp_def split: if_splits)
qed

text \<open>Which spools are to be deleted does not matter.\<close>

theorem batch_delete_ignores_ids:
  assumes "fd_ids p \<noteq> [] \<or> fd_rfids p \<noteq> []" and "fd_ids q \<noteq> [] \<or> fd_rfids q \<noteq> []"
  shows "batch_delete s ag p wb = batch_delete s ag q wb"
proof -
  have eq: "perform (new_request\<lparr>hq_method := DEL, hq_url := u, hq_headers := h, hq_body := build_delete_body p\<rparr>) wb =
      perform (new_request\<lparr>hq_method := DEL, hq_url := u, hq_headers := h, hq_body := build_delete_body q\<rparr>) wb" for u h
    by (rule perform_same_wire) (simp add: wire_of_def has_header_def sends_body_def)
  have "\<not> (fd_ids p = [] \<and> fd_rfids p = [])" "\<not> (fd_ids q = [] \<and> fd_rfids q = [])" using assms by auto
  then show ?thesis by (simp only: batch_delete_def eq if_False)
qed

theorem batch_delete_ignores_ids_witness:
  "batch_delete default_settings (new_agent\<lparr>ag_headers := [(''Authorization'', ''Bearer t'')]\<rparr>) \<lparr>fd_ids = [''1''], fd_rfids = []\<rparr>
     \<lparr>wb_agent = ''OBN/1'', wb_next = [Responded 200 [] ''{}''], wb_sent = []\<rparr> =
   batch_delete default_settings (new_agent\<lparr>ag_headers := [(''Authorization'', ''Bearer t'')]\<rparr>) \<lparr>fd_ids = [''2'', ''3''], fd_rfids = [''R'']\<rparr>
     \<lparr>wb_agent = ''OBN/1'', wb_next = [Responded 200 [] ''{}''], wb_sent = []\<rparr>"
  by (rule batch_delete_ignores_ids) simp_all

end
