(* ===== verification/Cloud_Bind.thy ===== *)
theory Cloud_Bind
  imports Cloud_Filament
begin

text \<open>
  Binding printers to the account: \<open>src/bind_cloud.cpp\<close>, which \<open>src/abi_bind.cpp\<close> hands on to
  Studio. What Studio's status callback is told is a list, in order.
\<close>

definition net_err_bind_failed :: int where "net_err_bind_failed = - 5"
definition net_err_unbind_failed :: int where "net_err_unbind_failed = - 6"
definition net_err_query_bind_info_failed :: int where "net_err_query_bind_info_failed = - 12"
definition net_err_modify_printer_name_failed :: int where "net_err_modify_printer_name_failed = - 13"
definition net_err_bind_socket_connect_failed :: int where "net_err_bind_socket_connect_failed = - 1020"
definition net_err_bind_post_ticket_to_cloud_failed :: int where "net_err_bind_post_ticket_to_cloud_failed = - 1060"

lemmas bind_codes = net_err_bind_failed_def net_err_unbind_failed_def net_err_query_bind_info_failed_def
  net_err_modify_printer_name_failed_def net_err_bind_socket_connect_failed_def net_err_bind_post_ticket_to_cloud_failed_def

datatype bind_stage = LoginStageConnect | LoginStageLogin | LoginStageWaitForLogin | LoginStageGetIdentify
  | LoginStageWaitAuth | LoginStageFinished

type_synonym bind_update = "bind_stage \<times> int \<times> bytes"

definition api_base :: "settings \<Rightarrow> agent \<Rightarrow> bytes" where
  "api_base s ag = api_host s (cloud_region ag)"

definition http_patch :: "bytes \<Rightarrow> bytes \<Rightarrow> (bytes, bytes) omap \<Rightarrow> web \<Rightarrow> http_response \<times> web" where
  "http_patch url body hdrs = perform (new_request\<lparr>hq_method := PATCH, hq_url := url, hq_body := body, hq_headers := hdrs\<rparr>)"

definition http_delete :: "bytes \<Rightarrow> (bytes, bytes) omap \<Rightarrow> web \<Rightarrow> http_response \<times> web" where
  "http_delete url hdrs = perform (new_request\<lparr>hq_method := DEL, hq_url := url, hq_headers := hdrs\<rparr>)"

definition http_json_success :: "bytes \<Rightarrow> int \<Rightarrow> bool" where
  "http_json_success body status =
     (status_ok status \<and>
      (body = [] \<or>
       (case parse_opt body of
          None \<Rightarrow> status = 200
        | Some doc \<Rightarrow>
            as_string (jfind doc ''message'') = ''success'' \<or>
            is_number (jfind doc ''code'') \<and> as_int 0 (jfind doc ''code'') = 0 \<or>
            is_string (jfind doc ''code'') \<and> as_string (jfind doc ''code'') = ''0'' \<or>
            jfind doc ''devices'' \<noteq> Null)))"

definition extract_ticket_from_json :: "bytes \<Rightarrow> bytes" where
  "extract_ticket_from_json body =
     (case parse_opt body of
        None \<Rightarrow> []
      | Some doc \<Rightarrow> or_string (or_string (as_string (jfind doc ''ticket'')) (as_string (jfind doc ''data.ticket'')))
                     (as_string (jfind doc ''data.bind_ticket'')))"

definition bind_url :: "settings \<Rightarrow> agent \<Rightarrow> bytes" where
  "bind_url s ag = api_base s ag @ ''/v1/iot-service/api/user/bind''"

section \<open>Operations\<close>

text \<open>\<open>ping_bind\<close>: the keys are tried in order until one is accepted.\<close>

fun ping_keys :: "bytes list \<Rightarrow> bytes \<Rightarrow> bytes \<Rightarrow> (bytes, bytes) omap \<Rightarrow> web \<Rightarrow> int \<times> web" where
  "ping_keys [] url code hdrs wb = (net_err_bind_failed, wb)"
| "ping_keys (k # ks) url code hdrs wb =
     (let (resp, wb') = post_json url (CHR ''{'' # QUOTE # k @ [QUOTE, CHR '':''] @ escape code @ ''}'') hdrs wb in
      if hr_error resp = [] \<and> http_json_success (hr_body resp) (hr_status resp) then (net_success, wb')
      else ping_keys ks url code hdrs wb')"

definition ping_bind :: "settings \<Rightarrow> agent \<Rightarrow> bytes \<Rightarrow> web \<Rightarrow> int \<times> web" where
  "ping_bind s ag ping_code wb =
     (if \<not> user_logged_in ag then (net_err_bind_failed, wb)
      else case prepare ag of
          None \<Rightarrow> (net_err_bind_failed, wb)
        | Some hdrs \<Rightarrow> ping_keys [''ping'', ''pin_code'', ''bind_pin'', ''code'', ''bind_code''] (bind_url s ag) ping_code hdrs wb)"

definition bind_fields :: "bytes \<Rightarrow> bytes \<Rightarrow> bytes \<Rightarrow> bytes \<Rightarrow> bool \<Rightarrow> (bytes \<times> bytes) list" where
  "bind_fields dev_id dev_name access timezone improved =
     [(''device_id'', escape dev_id), (''device_name'', escape dev_name), (''bind_code'', escape access),
      (''timezone'', escape timezone), (''notice'', if improved then ''true'' else ''false'')]"

definition json_of_fields :: "(bytes \<times> bytes) list \<Rightarrow> bytes" where
  "json_of_fields fs = ''{'' @ join '','' (map (\<lambda>(k, t). QUOTE # k @ [QUOTE, CHR '':''] @ t) fs) @ ''}''"

definition no_access_code :: bytes where
  "no_access_code = ''no LAN access code '' @ [CHR 0xE2, CHR 0x80, CHR 0x94] @
     '' connect to this printer once (Device tab) so the plugin can cache the access code, then retry Bind.''"

definition bind_lan_to_account ::
  "settings \<Rightarrow> agent \<Rightarrow> bytes \<Rightarrow> bytes \<Rightarrow> bytes \<Rightarrow> bool \<Rightarrow> web \<Rightarrow> int \<times> bind_update list \<times> web" where
  "bind_lan_to_account s ag dev_ip dev_id timezone improved wb =
     (let ups0 = [(LoginStageConnect, 0, [])];
          failed = (\<lambda>ups rc msg. (rc, ups @ [(LoginStageFinished, rc, msg)]));
          access = lan_access_code_for dev_id ag in
      if \<not> user_logged_in ag then (let (rc, ups) = failed ups0 net_err_bind_failed ''not logged in'' in (rc, ups, wb))
      else if access = [] then (let (rc, ups) = failed ups0 net_err_bind_failed no_access_code in (rc, ups, wb))
      else
        let ups1 = ups0 @ [(LoginStageLogin, 0, [])];
            dev_name = (if device_display_name_for_ip dev_ip ag = [] then ''Printer'' else device_display_name_for_ip dev_ip ag) in
        (case prepare ag of
           None \<Rightarrow> (let (rc, ups) = failed ups1 net_err_bind_failed ''missing bearer token'' in (rc, ups, wb))
         | Some hdrs \<Rightarrow>
             (let ups2 = ups1 @ [(LoginStageWaitForLogin, 0, []), (LoginStageGetIdentify, 0, []), (LoginStageWaitAuth, 0, [])];
                  (resp, wb') = post_json (bind_url s ag) (json_of_fields (bind_fields dev_id dev_name access timezone improved)) hdrs wb in
              if hr_error resp \<noteq> [] then
                (let (rc, ups) = failed ups2 net_err_bind_socket_connect_failed (hr_error resp) in (rc, ups, wb'))
              else if \<not> http_json_success (hr_body resp) (hr_status resp) then
                (let (rc, ups) = failed ups2 net_err_bind_post_ticket_to_cloud_failed (hr_body resp) in (rc, ups, wb'))
              else (net_success, ups2 @ [(LoginStageFinished, 0, [])], wb'))))"

text \<open>\<open>query_bind_status\<close>: one entry per queried device the account has, in the order of the query.\<close>

definition bind_entry :: "agent \<Rightarrow> bytes \<Rightarrow> bytes" where
  "bind_entry ag qdev = json_of_fields
     [(''dev_id'', escape qdev), (''user_id'', escape (si_user_id (session_of ag))), (''user_name'', escape (get_user_nickname ag))]"

definition bound_devices :: "bytes \<Rightarrow> json list" where
  "bound_devices body = (case parse_opt body of None \<Rightarrow> [] | Some doc \<Rightarrow> as_array (jfind doc ''devices''))"

definition bind_list_text :: "agent \<Rightarrow> bytes list \<Rightarrow> bytes \<Rightarrow> bytes" where
  "bind_list_text ag query_list body =
     ''{'' @ [QUOTE] @ ''bind_list'' @ [QUOTE] @ '':['' @
     join '','' (map (bind_entry ag) (filter (\<lambda>q. list_ex (\<lambda>dv. as_string (jfind dv ''dev_id'') = q) (bound_devices body)) query_list)) @
     '']}''"

definition query_bind_status :: "settings \<Rightarrow> agent \<Rightarrow> bytes list \<Rightarrow> web \<Rightarrow> (int \<times> int option \<times> bytes option) \<times> web" where
  "query_bind_status s ag query_list wb =
     (if \<not> user_logged_in ag then ((net_err_query_bind_info_failed, None, None), wb)
      else
        let (resp, wb') = get_json (bind_url s ag) (cloud_api_http_headers ag) wb in
        (if answered resp then (net_success, Some (hr_status resp), Some (bind_list_text ag query_list (hr_body resp)))
         else (net_err_query_bind_info_failed, Some (hr_status resp), Some (hr_body resp)), wb'))"

definition modify_printer_name :: "settings \<Rightarrow> agent \<Rightarrow> bytes \<Rightarrow> bytes \<Rightarrow> web \<Rightarrow> int \<times> web" where
  "modify_printer_name s ag dev_id dev_name wb =
     (if \<not> user_logged_in ag then (net_err_modify_printer_name_failed, wb)
      else
        let (resp, wb') = http_patch (api_base s ag @ ''/v1/iot-service/api/user/device/info'')
                            (json_of_fields [(''dev_id'', escape dev_id), (''name'', escape dev_name)]) (cloud_api_http_headers ag) wb in
        (if hr_error resp = [] \<and> http_json_success (hr_body resp) (hr_status resp) then net_success
         else net_err_modify_printer_name_failed, wb'))"

definition unbind_device :: "settings \<Rightarrow> agent \<Rightarrow> bytes \<Rightarrow> web \<Rightarrow> int \<times> web" where
  "unbind_device s ag dev_id wb =
     (if \<not> user_logged_in ag then (net_err_unbind_failed, wb)
      else
        let (resp, wb') = http_delete (bind_url s ag @ ''?dev_id='' @ url_encode dev_id) (cloud_api_http_headers ag) wb in
        (if hr_error resp = [] \<and> http_json_success (hr_body resp) (hr_status resp) then net_success else net_err_unbind_failed, wb'))"

text \<open>\<open>request_web_sso_ticket\<close>: three POSTs, then a GET, until one has a ticket.\<close>

fun ticket_paths :: "bytes list \<Rightarrow> settings \<Rightarrow> agent \<Rightarrow> web \<Rightarrow> (int \<times> bytes) \<times> web" where
  "ticket_paths [] s ag wb =
     (let (resp, wb') = get_json (api_base s ag @ ''/v1/user-service/user/ticket'') (cloud_api_http_headers ag) wb;
          t = extract_ticket_from_json (hr_body resp) in
      (if hr_error resp = [] \<and> hr_status resp = 200 \<and> t \<noteq> [] then (net_success, t) else (net_err_invalid_result, []), wb'))"
| "ticket_paths (path # ps) s ag wb =
     (let (resp, wb') = post_json (api_base s ag @ path) ''{}'' (cloud_api_http_headers ag) wb;
          t = extract_ticket_from_json (hr_body resp) in
      if answered resp \<and> t \<noteq> [] then ((net_success, t), wb') else ticket_paths ps s ag wb')"

definition request_web_sso_ticket :: "settings \<Rightarrow> agent \<Rightarrow> web \<Rightarrow> (int \<times> bytes) \<times> web" where
  "request_web_sso_ticket s ag wb =
     (if \<not> user_logged_in ag then ((net_err_invalid_result, []), wb)
      else ticket_paths [''/v1/user-service/user/ticket/web'', ''/v1/user-service/user/web-ticket'', ''/v1/user-service/user/slicer/ticket''] s ag wb)"


section \<open>Laws\<close>

fun stage_no :: "bind_stage \<Rightarrow> nat" where
  "stage_no LoginStageConnect = 0"
| "stage_no LoginStageLogin = 1"
| "stage_no LoginStageWaitForLogin = 2"
| "stage_no LoginStageGetIdentify = 3"
| "stage_no LoginStageWaitAuth = 4"
| "stage_no LoginStageFinished = 5"

text \<open>What the bind dialogue is told. The stages come in their order, each at most once; the last one is
  \<open>Finished\<close> with the result the call returns, and only it can carry an error. A success
  means that one request was made, that it was answered and accepted, and that its document names
  the device and the access code the plugin keeps for it.
\<close>

theorem bind_reports:
  assumes "bind_lan_to_account s ag dev_ip dev_id timezone improved wb = (rc, ups, wb')"
  shows "sorted_wrt (<) (map (stage_no \<circ> fst) ups) \<and>
    (\<exists>pre msg. ups = pre @ [(LoginStageFinished, rc, msg)] \<and> list_all (\<lambda>(st, code, m). st \<noteq> LoginStageFinished \<and> code = 0) pre) \<and>
    (rc = net_success \<longrightarrow> lan_access_code_for dev_id ag \<noteq> [] \<and>
      (\<exists>name hdrs resp. post_json (bind_url s ag)
         (json_of_fields (bind_fields dev_id name (lan_access_code_for dev_id ag) timezone improved)) hdrs wb = (resp, wb') \<and>
         hr_error resp = [] \<and> http_json_success (hr_body resp) (hr_status resp)))"
  using assms
  by (auto simp: bind_lan_to_account_def Let_def net_codes bind_codes split: if_splits option.splits prod.splits)

definition bind_agent :: agent where
  "bind_agent = new_agent\<lparr>ag_auth := Some ((new_store ''f'')\<lparr>st_session := fresh_session\<lparr>si_user_id := ''u'', si_access_token := ''tok''\<rparr>\<rparr>),
     ag_codes := [(''D'', ''1234'')]\<rparr>"

lemma bind_agent_session: "user_logged_in bind_agent" "lan_access_code_for ''D'' bind_agent = ''1234''" "\<exists>hdrs. prepare bind_agent = Some hdrs"
  by (simp_all add: bind_agent_def user_logged_in_def logged_in_def lan_access_code_for_def om_get_def prepare_def
      cloud_api_http_headers_def new_agent_def new_store_def fresh_session_def Let_def)

theorem bind_reports_witness:
  "\<exists>ups wb'. bind_lan_to_account default_settings bind_agent ''10.0.0.2'' ''D'' ''UTC'' True
       \<lparr>wb_agent = [], wb_next = [Responded 200 [] []], wb_sent = []\<rparr> = (net_success, ups, wb') \<and>
     (\<exists>pre msg. ups = pre @ [(LoginStageFinished, net_success, msg)]) \<and> sorted_wrt (<) (map (stage_no \<circ> fst) ups)"
proof -
  let ?wb = "\<lparr>wb_agent = [], wb_next = [Responded 200 [] []], wb_sent = []\<rparr>"
  obtain hdrs where h: "prepare bind_agent = Some hdrs" using bind_agent_session(3) by blast
  have "fst (post_json u b hs ?wb) = new_response\<lparr>hr_body := [], hr_status := 200\<rparr>" for u b hs
    by (simp add: post_json_def perform_def response_of_def)
  then have p: "hr_error (fst (post_json u b hs ?wb)) = []" "hr_status (fst (post_json u b hs ?wb)) = 200" "hr_body (fst (post_json u b hs ?wb)) = []"
    for u b hs by (simp_all add: new_response_def)
  obtain rc ups wb' where r: "bind_lan_to_account default_settings bind_agent ''10.0.0.2'' ''D'' ''UTC'' True ?wb = (rc, ups, wb')"
    by (metis surj_pair)
  have "rc = net_success"
    using r unfolding bind_lan_to_account_def Let_def h option.case case_prod_beta'
    by (simp add: bind_agent_session p http_json_success_def status_ok_def)
  then show ?thesis using bind_reports [OF r] r by blast
qed

lemma json_of_fields_reads:
  "list_all2 same_field fs vs \<Longrightarrow> fs \<noteq> [] \<Longrightarrow> reads_as (json_of_fields fs) (Object (emplace_all vs []))"
  unfolding json_of_fields_def by (rule fields_read)

definition bind_entry_json :: "agent \<Rightarrow> bytes \<Rightarrow> json" where
  "bind_entry_json ag qdev = Object (emplace_all
     [(''dev_id'', String qdev), (''user_id'', String (si_user_id (session_of ag))), (''user_name'', String (get_user_nickname ag))] [])"

lemma bind_entry_reads: "reads_as (bind_entry ag qdev) (bind_entry_json ag qdev)"
  unfolding bind_entry_def bind_entry_json_def
  by (rule json_of_fields_reads) (auto intro!: same_fieldI simp: plain_text_def escape_char_def)

lemma bind_entry_field:
  "jfind (bind_entry_json ag q) ''dev_id'' = String q" "jfind (bind_entry_json ag q) ''user_id'' = String (si_user_id (session_of ag))"
  unfolding bind_entry_json_def by (rule emplaced_field; simp add: plain_key_def key_stop_def)+

text \<open>The binding list. The document Studio reads has one entry per device of its query that the account
  has, in the order of the query, each with the id and the name of the logged-in user.
\<close>

theorem bind_list_document:
  "\<exists>doc es. parse_opt (bind_list_text ag query_list body) = Some doc \<and> jfind doc ''bind_list'' = Array es \<and>
     map (\<lambda>e. as_string (jfind e ''dev_id'')) es =
       filter (\<lambda>q. \<exists>dv \<in> set (bound_devices body). as_string (jfind dv ''dev_id'') = q) query_list \<and>
     list_all (\<lambda>e. jfind e ''user_id'' = String (si_user_id (session_of ag))) es"
proof -
  define qs where "qs = filter (\<lambda>q. list_ex (\<lambda>dv. as_string (jfind dv ''dev_id'') = q) (bound_devices body)) query_list"
  define es where "es = map (bind_entry_json ag) qs"
  have "list_all (\<lambda>(t, v). reads_as t v \<and> t \<noteq> [] \<and> \<not> is_ws (hd t) \<and> hd t \<noteq> CHR '']'') (map (\<lambda>q. (bind_entry ag q, bind_entry_json ag q)) qs)"
    using bind_entry_reads by (auto simp: list_all_iff bind_entry_def json_of_fields_def is_ws_def)
  from reads_as_array [OF this] have a: "reads_as (''['' @ join '','' (map (bind_entry ag) qs) @ '']'') (Array es)"
    by (simp add: es_def comp_def)
  have "list_all2 same_field [(''bind_list'', ''['' @ join '','' (map (bind_entry ag) qs) @ '']'')] [(''bind_list'', Array es)]"
    using same_fieldI [OF _ a, of "''bind_list''"] by (simp add: plain_text_def escape_char_def)
  from json_of_fields_reads [OF this]
  have "reads_as (bind_list_text ag query_list body) (Object (emplace_all [(''bind_list'', Array es)] []))"
    by (simp add: bind_list_text_def json_of_fields_def qs_def)
  moreover have "jfind (Object (emplace_all [(''bind_list'', Array es)] [])) ''bind_list'' = Array es"
    by (rule emplaced_field) (simp_all add: plain_key_def key_stop_def)
  moreover have "map (\<lambda>e. as_string (jfind e ''dev_id'')) es = filter (\<lambda>q. \<exists>dv \<in> set (bound_devices body). as_string (jfind dv ''dev_id'') = q) query_list"
    by (simp add: es_def qs_def bind_entry_field comp_def list_ex_iff)
  moreover have "list_all (\<lambda>e. jfind e ''user_id'' = String (si_user_id (session_of ag))) es"
    by (simp add: es_def list_all_iff bind_entry_field)
  ultimately show ?thesis using parse_opt_as by blast
qed

end
