(* ===== verification/Ftps.thy ===== *)
theory Ftps
  imports Codec Calendar Lan_Tls
begin

text \<open>
  The FTP client of \<open>src/ftps.cpp\<close> and \<open>include/obn/ftps.hpp\<close>: control and data channels
  over TLS or plain TCP, replies, login, passive data connections and the transfer commands.

  Sockets and OpenSSL are the environment: a channel carries the outcomes of the next reads
  and writes, in order, and the bytes written so far; what the next data connections will do
  is a list in the client. An exhausted script waits until the poll times out. The texts of
  \<open>strerror\<close> and of the OpenSSL error queue are one argument, the field \<open>ftp_err\<close>.
\<close>

section \<open>Channels\<close>

text \<open>
  \<open>Rd_want b\<close> and \<open>Wr_want b\<close>: the call would block, and the poll that follows finds the
  socket ready iff \<open>b\<close>. On a plain socket the poll comes first, and a call that would still
  block is an error.
\<close>

datatype chan_read = Rd_bytes bytes | Rd_want bool | Rd_end | Rd_fail

datatype chan_write = Wr_some nat | Wr_want bool | Wr_fail

record channel =
  ch_rd :: "chan_read list"
  ch_wr :: "chan_write list"
  ch_tx :: bytes

datatype chunk = Chunk bytes | Chunk_end | Chunk_fail

fun script_size :: "chan_read list \<Rightarrow> nat" where
  "script_size [] = 0"
| "script_size (Rd_bytes bs # rs) = Suc (length bs) + script_size rs"
| "script_size (_ # rs) = Suc (script_size rs)"

text \<open>A read of at most \<open>cap\<close> bytes; an empty piece is the end of the stream.\<close>

definition take_chunk :: "nat \<Rightarrow> bytes \<Rightarrow> chan_read list \<Rightarrow> channel \<Rightarrow> chunk \<times> channel" where
  "take_chunk cap bs rs ch =
     (if bs = [] then (Chunk_end, ch\<lparr>ch_rd := rs\<rparr>)
      else if length bs \<le> cap then (Chunk bs, ch\<lparr>ch_rd := rs\<rparr>)
      else (Chunk (take cap bs), ch\<lparr>ch_rd := Rd_bytes (drop cap bs) # rs\<rparr>))"

function ssl_read_some :: "nat \<Rightarrow> channel \<Rightarrow> chunk \<times> channel" where
  "ssl_read_some cap ch =
     (case ch_rd ch of
        [] \<Rightarrow> (Chunk_fail, ch)
      | r # rs \<Rightarrow>
          (case r of
             Rd_bytes bs \<Rightarrow> take_chunk cap bs rs ch
           | Rd_end \<Rightarrow> (Chunk_end, ch\<lparr>ch_rd := rs\<rparr>)
           | Rd_want True \<Rightarrow> ssl_read_some cap (ch\<lparr>ch_rd := rs\<rparr>)
           | Rd_want False \<Rightarrow> (Chunk_fail, ch\<lparr>ch_rd := rs\<rparr>)
           | Rd_fail \<Rightarrow> (Chunk_fail, ch\<lparr>ch_rd := rs\<rparr>)))"
  by pat_completeness auto
termination
  by (relation "measure (\<lambda>(cap, ch). length (ch_rd ch))") auto

declare ssl_read_some.simps [simp del]

definition plain_read_some :: "nat \<Rightarrow> channel \<Rightarrow> chunk \<times> channel" where
  "plain_read_some cap ch =
     (case ch_rd ch of
        [] \<Rightarrow> (Chunk_fail, ch)
      | r # rs \<Rightarrow>
          (case r of
             Rd_bytes bs \<Rightarrow> take_chunk cap bs rs ch
           | Rd_end \<Rightarrow> (Chunk_end, ch\<lparr>ch_rd := rs\<rparr>)
           | _ \<Rightarrow> (Chunk_fail, ch\<lparr>ch_rd := rs\<rparr>)))"

definition chan_read_some :: "bool \<Rightarrow> nat \<Rightarrow> channel \<Rightarrow> chunk \<times> channel" where
  "chan_read_some tls cap ch = (if tls then ssl_read_some cap ch else plain_read_some cap ch)"

text \<open>Both write loops: over TLS a write that would block waits, on a plain socket it fails.\<close>

function chan_write_all :: "bool \<Rightarrow> bytes \<Rightarrow> channel \<Rightarrow> bool \<times> channel" where
  "chan_write_all tls buf ch =
     (if buf = [] then (True, ch)
      else case ch_wr ch of
        [] \<Rightarrow> (True, ch\<lparr>ch_tx := ch_tx ch @ buf\<rparr>)
      | w # ws \<Rightarrow>
          (case w of
             Wr_some n \<Rightarrow>
               (let k = max 1 (min n (length buf)) in
                chan_write_all tls (drop k buf) (ch\<lparr>ch_wr := ws, ch_tx := ch_tx ch @ take k buf\<rparr>))
           | Wr_want b \<Rightarrow> if tls \<and> b then chan_write_all tls buf (ch\<lparr>ch_wr := ws\<rparr>) else (False, ch\<lparr>ch_wr := ws\<rparr>)
           | Wr_fail \<Rightarrow> (False, ch\<lparr>ch_wr := ws\<rparr>)))"
  by pat_completeness auto
termination
  by (relation "measure (\<lambda>(tls, buf, ch). length (ch_wr ch))") auto

declare chan_write_all.simps [simp del]

text \<open>\<open>drive_ssl\<close> on \<open>SSL_connect\<close>; \<open>Hs_want b\<close> as above.\<close>

datatype hs_event = Hs_done | Hs_want bool | Hs_fail

fun drive_ssl :: "hs_event list \<Rightarrow> bool" where
  "drive_ssl [] = False"
| "drive_ssl (Hs_done # es) = True"
| "drive_ssl (Hs_want b # es) = (b \<and> drive_ssl es)"
| "drive_ssl (Hs_fail # es) = False"

section \<open>The client\<close>

text \<open>What the next data connection does: the TCP connect, \<open>SSL_new\<close>, the handshake.\<close>

record data_dial =
  dd_tcp :: "bytes + channel"
  dd_ssl :: bool
  dd_handshake :: "hs_event list"

record ftp =
  ftp_tls :: bool
  ftp_ctx :: bool
  ftp_ssl :: bool
  ftp_ctrl :: "channel option"
  ftp_buf :: bytes
  ftp_host :: bytes
  ftp_verify :: bytes
  ftp_err :: bytes
  ftp_dials :: "data_dial list"
  ftp_ports :: "int list"       \<comment> \<open>ports dialled for data\<close>
  ftp_moved :: "bytes list"     \<comment> \<open>bytes written to data channels that were closed\<close>
  ftp_closed :: "bytes list"    \<comment> \<open>bytes written to control channels that were closed\<close>

definition new_ftp :: "bytes \<Rightarrow> data_dial list \<Rightarrow> ftp" where
  "new_ftp e dials = \<lparr>ftp_tls = True, ftp_ctx = False, ftp_ssl = False, ftp_ctrl = None, ftp_buf = [], ftp_host = [],
     ftp_verify = [], ftp_err = e, ftp_dials = dials, ftp_ports = [], ftp_moved = [], ftp_closed = []\<rparr>"

definition ctrl_read :: "nat \<Rightarrow> ftp \<Rightarrow> chunk \<times> ftp" where
  "ctrl_read cap f =
     (case ftp_ctrl f of
        None \<Rightarrow> (Chunk_fail, f)
      | Some ch \<Rightarrow>
          (if ftp_tls f \<and> \<not> ftp_ssl f then (Chunk_fail, f)
           else let (r, ch') = chan_read_some (ftp_tls f) cap ch in (r, f\<lparr>ftp_ctrl := Some ch'\<rparr>)))"

definition ctrl_write :: "bytes \<Rightarrow> ftp \<Rightarrow> bool \<times> ftp" where
  "ctrl_write buf f =
     (case ftp_ctrl f of
        None \<Rightarrow> (False, f)
      | Some ch \<Rightarrow>
          (if ftp_tls f \<and> \<not> ftp_ssl f then (False, f)
           else let (r, ch') = chan_write_all (ftp_tls f) buf ch in (r, f\<lparr>ftp_ctrl := Some ch'\<rparr>)))"

text \<open>What the control channel still holds.\<close>

definition ctrl_script :: "ftp \<Rightarrow> nat" where
  "ctrl_script f = (case ftp_ctrl f of None \<Rightarrow> 0 | Some ch \<Rightarrow> script_size (ch_rd ch))"

lemma ctrl_script_buf [simp]: "ctrl_script (f\<lparr>ftp_buf := b\<rparr>) = ctrl_script f"
  by (simp add: ctrl_script_def)

lemma take_chunk_size: "take_chunk cap bs rs ch = (Chunk got, ch') \<Longrightarrow> 0 < cap \<Longrightarrow>
    got \<noteq> [] \<and> length got + script_size (ch_rd ch') \<le> script_size (Rd_bytes bs # rs)"
  by (auto simp: take_chunk_def split: if_splits)

lemma ssl_read_size: "ssl_read_some cap ch = (Chunk got, ch') \<Longrightarrow> 0 < cap \<Longrightarrow>
    got \<noteq> [] \<and> length got + script_size (ch_rd ch') \<le> script_size (ch_rd ch)"
proof (induction cap ch rule: ssl_read_some.induct)
  case (1 cap ch)
  show ?case
  proof (cases "ch_rd ch")
    case Nil
    with 1(2) show ?thesis by (simp add: ssl_read_some.simps)
  next
    case (Cons r rs)
    show ?thesis
    proof (cases r)
      case (Rd_bytes bs)
      with 1(2,3) Cons show ?thesis
        using take_chunk_size [of cap bs rs ch got ch'] by (simp add: ssl_read_some.simps [of cap ch])
    next
      case (Rd_want b)
      with 1 Cons show ?thesis by (cases b) (fastforce simp: ssl_read_some.simps [of cap ch])+
    qed (use 1(2) Cons in \<open>simp_all add: ssl_read_some.simps [of cap ch]\<close>)
  qed
qed

lemma chan_read_size: "chan_read_some tls cap ch = (Chunk got, ch') \<Longrightarrow> 0 < cap \<Longrightarrow>
    got \<noteq> [] \<and> length got + script_size (ch_rd ch') \<le> script_size (ch_rd ch)"
  using ssl_read_size take_chunk_size
  by (fastforce simp: chan_read_some_def plain_read_some_def split: if_splits list.splits chan_read.splits)

lemma ctrl_read_size: "ctrl_read cap f = (Chunk got, f') \<Longrightarrow> 0 < cap \<Longrightarrow>
    got \<noteq> [] \<and> length got + ctrl_script f' \<le> ctrl_script f \<and> ftp_buf f' = ftp_buf f"
  using chan_read_size by (fastforce simp: ctrl_read_def ctrl_script_def split: option.splits if_splits prod.splits)

text \<open>\<open>read_line\<close>: a line without its line end, or \<open>None\<close> on a timeout or an error.\<close>

definition chop_cr :: "bytes \<Rightarrow> bytes" where
  "chop_cr l = (if l \<noteq> [] \<and> last l = CR then butlast l else l)"

function read_line :: "ftp \<Rightarrow> bytes option \<times> ftp" where
  "read_line f =
     (case find_char LF (ftp_buf f) of
        Some i \<Rightarrow> (Some (chop_cr (take i (ftp_buf f))), f\<lparr>ftp_buf := drop (Suc i) (ftp_buf f)\<rparr>)
      | None \<Rightarrow>
          (case ctrl_read 512 f of
             (Chunk bs, f') \<Rightarrow> read_line (f'\<lparr>ftp_buf := ftp_buf f' @ bs\<rparr>)
           | (_, f') \<Rightarrow> (None, f')))"
  by pat_completeness auto
termination
proof (relation "measure ctrl_script", goal_cases)
  case (2 f x y bs)
  from ctrl_read_size [of 512 f bs y] 2 show ?case by (cases bs) auto
qed simp

declare read_line.simps [simp del]

text \<open>The last line of a reply: three digits and a blank.\<close>

definition final_line :: "bytes \<Rightarrow> bool" where
  "final_line l = (4 \<le> length l \<and> is_digit (l ! 0) \<and> is_digit (l ! 1) \<and> is_digit (l ! 2) \<and> l ! 3 = BLANK)"

definition add_line :: "bytes \<Rightarrow> bytes \<Rightarrow> bytes" where
  "add_line acc l = (if acc = [] then l else acc @ LF # l)"

lemma read_line_size:
  "read_line f = (Some l, f') \<Longrightarrow> length (ftp_buf f') + ctrl_script f' < length (ftp_buf f) + ctrl_script f"
proof (induction f rule: read_line.induct)
  case (1 f)
  show ?case
  proof (cases "find_char LF (ftp_buf f)")
    case None
    obtain c f1 where c: "ctrl_read 512 f = (c, f1)" by force
    show ?thesis
    proof (cases c)
      case (Chunk bs)
      have "read_line (f1\<lparr>ftp_buf := ftp_buf f1 @ bs\<rparr>) = (Some l, f')"
        using 1(2) None c Chunk by (simp add: read_line.simps [of f])
      from 1(1) [OF None c [symmetric] Chunk this] ctrl_read_size [of 512 f bs f1] c Chunk
      show ?thesis by simp
    qed (use 1(2) None c in \<open>simp_all add: read_line.simps [of f]\<close>)
  next
    case (Some i)
    then show ?thesis
      using 1(2) find_char_length [OF Some] by (auto simp: read_line.simps [of f])
  qed
qed

function read_reply_from :: "bytes \<Rightarrow> ftp \<Rightarrow> (int \<times> bytes) option \<times> ftp" where
  "read_reply_from acc f =
     (case read_line f of
        (None, f') \<Rightarrow> (None, f')
      | (Some l, f') \<Rightarrow>
          (let acc' = add_line acc l in
           if final_line l then (Some (atoi (take 3 l), acc'), f') else read_reply_from acc' f'))"
  by pat_completeness auto
termination
proof (relation "measure (\<lambda>(acc, f). length (ftp_buf f) + ctrl_script f)", goal_cases)
  case (2 acc f x y l)
  from read_line_size [of f l y] 2 show ?case by simp
qed simp

declare read_reply_from.simps [simp del]

text \<open>The reply code with the text, or \<open>None\<close> for the code \<open>-1\<close> of an error.\<close>

definition read_reply :: "ftp \<Rightarrow> (int \<times> bytes) option \<times> ftp" where
  "read_reply f = read_reply_from [] f"

definition send_cmd :: "bytes \<Rightarrow> ftp \<Rightarrow> (int \<times> bytes) \<times> ftp" where
  "send_cmd cmd f =
     (let (ok, f1) = ctrl_write (cmd @ [CR, LF]) f in
      if \<not> ok then ((- 1, []), f1)
      else case read_reply f1 of
          (None, f2) \<Rightarrow> ((- 1, []), f2)
        | (Some (code, body), f2) \<Rightarrow> ((code, body), f2))"


section \<open>Connecting\<close>

record ftp_config =
  fcf_host :: bytes
  fcf_port :: int
  fcf_username :: bytes
  fcf_password :: bytes
  fcf_use_tls :: bool
  fcf_verify_hostname :: bytes
  fcf_ca_file :: bytes

text \<open>
  What OpenSSL answers while the control channel is set up; \<open>te_setup\<close> is
  \<open>configure_lan_ssl_verify\<close> on the CA file and the pinned certificate, \<open>te_name\<close> the check
  of the peer's name; both give an error text or nothing.
\<close>

record tls_env =
  te_ctx :: bool
  te_setup :: "bytes \<Rightarrow> bytes \<Rightarrow> bytes option"
  te_ssl :: bool
  te_handshake :: "hs_event list"
  te_name :: "bytes \<Rightarrow> bytes option"

definition want_verify :: "settings \<Rightarrow> process \<Rightarrow> ftp_config \<Rightarrow> bool" where
  "want_verify s p cfg = (verify_enabled s p \<and> fcf_verify_hostname cfg \<noteq> [])"

text \<open>The TLS part of \<open>connect_transport\<close>: an error text, or \<open>[]\<close>.\<close>

definition ctrl_handshake :: "settings \<Rightarrow> tls_env \<Rightarrow> ftp_config \<Rightarrow> ftp \<Rightarrow> process \<Rightarrow> bytes \<times> ftp \<times> process" where
  "ctrl_handshake s te cfg f p =
     (let want = want_verify s p cfg in
      if verify_enabled s p \<and> fcf_verify_hostname cfg = [] then (''TLS verify requires printer serial (tls_verify_hostname)'', f, p)
      else if want \<and> fcf_ca_file cfg = [] then (''TLS verify requires ca_file (printer.cer)'', f, p)
      else if \<not> te_ctx te then (''SSL_CTX_new: '' @ ftp_err f, f, p)
      else
        let f1 = f\<lparr>ftp_ctx := True\<rparr>;
            (peer, p1) = (if want then peer_cert_path_for_ip (fcf_host cfg) p else (None, p));
            setup = (if want then te_setup te (fcf_ca_file cfg) (case peer of None \<Rightarrow> [] | Some path \<Rightarrow> path) else None) in
        case setup of
          Some e \<Rightarrow> (''TLS verify setup: '' @ e, f1, p1)
        | None \<Rightarrow>
            (if \<not> te_ssl te then (''SSL_new: '' @ ftp_err f, f1, p1)
             else
               let f2 = f1\<lparr>ftp_ssl := True\<rparr> in
               if \<not> drive_ssl (te_handshake te) then (''TLS handshake: '' @ ftp_err f, f2, p1)
               else case (if want then te_name te (fcf_verify_hostname cfg) else None) of
                   Some e \<Rightarrow> (''TLS verify: '' @ e, f2, p1)
                 | None \<Rightarrow> ([], f2, p1)))"

text \<open>\<open>tcp\<close> is the outcome of the TCP connect: an error text or the channel.\<close>

definition connect_transport ::
  "settings \<Rightarrow> bytes + channel \<Rightarrow> tls_env \<Rightarrow> ftp_config \<Rightarrow> ftp \<Rightarrow> process \<Rightarrow> bytes \<times> ftp \<times> process" where
  "connect_transport s tcp te cfg f p =
     (let f1 = f\<lparr>ftp_host := fcf_host cfg, ftp_verify := fcf_verify_hostname cfg, ftp_tls := fcf_use_tls cfg, ftp_buf := []\<rparr> in
      case tcp of
        Inl e \<Rightarrow> (''tcp: '' @ e, f1, p)
      | Inr ch \<Rightarrow>
          (let f2 = f1\<lparr>ftp_ctrl := Some ch\<rparr>;
               (e, f3, p') = (if fcf_use_tls cfg then ctrl_handshake s te cfg f2 p else ([], f2, p)) in
           if e \<noteq> [] then (e, f3, p')
           else
             let (r, f4) = read_reply f3;
                 (code, banner) = (case r of None \<Rightarrow> (- 1, []) | Some x \<Rightarrow> x) in
             (if code \<noteq> 220 then ''no 220 banner (got '' @ show_int code @ ''): '' @ banner else [], f4, p')))"

text \<open>A command that must be answered by one of the codes; the error text names it.\<close>

definition must_answer :: "int list \<Rightarrow> bytes \<Rightarrow> bytes \<Rightarrow> ftp \<Rightarrow> bytes \<times> ftp" where
  "must_answer codes cmd what f =
     (let ((code, _), f') = send_cmd cmd f in
      (if code \<in> set codes then [] else what @ '' rejected: code='' @ show_int code, f'))"

definition login_password :: "ftp_config \<Rightarrow> ftp \<Rightarrow> bytes \<times> ftp" where
  "login_password cfg f =
     (let ((code, _), f') = send_cmd (''USER '' @ fcf_username cfg) f in
      if code = 331 then must_answer [230] (''PASS '' @ fcf_password cfg) ''PASS'' f'
      else if code = 230 then ([], f')
      else (''USER rejected: code='' @ show_int code, f'))"

definition login :: "ftp_config \<Rightarrow> ftp \<Rightarrow> bytes \<times> ftp" where
  "login cfg f =
     (let (e, f1) = login_password cfg f in
      if e \<noteq> [] then (e, f1)
      else
        let (e, f2) = must_answer [200] ''TYPE I'' ''TYPE I'' f1 in
        if e \<noteq> [] \<or> \<not> ftp_tls f2 then (e, f2)
        else
          let (e, f3) = must_answer [200] ''PBSZ 0'' ''PBSZ'' f2 in
          if e \<noteq> [] then (e, f3) else must_answer [200] ''PROT P'' ''PROT P'' f3)"

definition ftp_connect ::
  "settings \<Rightarrow> bytes + channel \<Rightarrow> tls_env \<Rightarrow> ftp_config \<Rightarrow> ftp \<Rightarrow> process \<Rightarrow> bytes \<times> ftp \<times> process" where
  "ftp_connect s tcp te cfg f p =
     (let (e, f1, p') = connect_transport s tcp te cfg f p in
      if e \<noteq> [] then (e, f1, p') else let (e', f2) = login cfg f1 in (e', f2, p'))"

section \<open>Data connections\<close>

definition pasv_address :: "bytes \<Rightarrow> bytes + bytes" where
  "pasv_address body =
     (case (find_char CHR ''('' body, find_char CHR '')'' body) of
        (Some lp, Some rp) \<Rightarrow>
          if rp \<le> lp then Inl (''PASV bad body: '' @ body) else Inr (take (rp - lp - 1) (drop (lp + 1) body))
      | _ \<Rightarrow> Inl (''PASV bad body: '' @ body))"

definition pasv_port :: "bytes \<Rightarrow> bytes + int" where
  "pasv_port addr =
     (case scan_fields '',,,,,'' (c_str addr) of
        Some [h1, h2, h3, h4, p1, p2] \<Rightarrow> Inr (narrow_i32 (p1 * 256 + p2))
      | _ \<Rightarrow> Inl (''PASV parse: '' @ addr))"

text \<open>The next data connection: to the control host, whatever address the reply names.\<close>

definition dial_data :: "int \<Rightarrow> ftp \<Rightarrow> (bytes + data_dial \<times> channel) \<times> ftp" where
  "dial_data port f =
     (let f1 = f\<lparr>ftp_ports := ftp_ports f @ [port]\<rparr> in
      case ftp_dials f of
        [] \<Rightarrow> (Inl ''data tcp: connect: timeout'', f1)
      | d # ds \<Rightarrow> (case dd_tcp d of Inl e \<Rightarrow> Inl (''data tcp: '' @ e) | Inr ch \<Rightarrow> Inr (d, ch), f1\<lparr>ftp_dials := ds\<rparr>))"

definition open_data_tcp :: "ftp \<Rightarrow> (bytes + data_dial \<times> channel) \<times> ftp" where
  "open_data_tcp f =
     (let ((code, body), f1) = send_cmd ''PASV'' f in
      if code \<noteq> 227 then (Inl (''PASV rejected: code='' @ show_int code), f1)
      else case pasv_address body of
          Inl e \<Rightarrow> (Inl e, f1)
        | Inr addr \<Rightarrow> (case pasv_port addr of Inl e \<Rightarrow> (Inl e, f1) | Inr port \<Rightarrow> dial_data port f1))"

definition wrap_data_tls :: "data_dial \<Rightarrow> ftp \<Rightarrow> bytes" where
  "wrap_data_tls d f =
     (if \<not> dd_ssl d then ''data SSL_new''
      else if \<not> drive_ssl (dd_handshake d) then ''data TLS handshake: '' @ ftp_err f
      else [])"

definition close_data :: "channel \<Rightarrow> ftp \<Rightarrow> ftp" where
  "close_data ch f = f\<lparr>ftp_moved := ftp_moved f @ [ch_tx ch]\<rparr>"

text \<open>Passive connection, command, preliminary reply, handshake: what every transfer begins with.\<close>

definition open_transfer :: "bytes \<Rightarrow> bytes \<Rightarrow> ftp \<Rightarrow> (bytes + channel) \<times> ftp" where
  "open_transfer verb cmd f =
     (let (r, f1) = open_data_tcp f in
      case r of
        Inl e \<Rightarrow> (Inl e, f1)
      | Inr (d, ch) \<Rightarrow>
          (let ((code, _), f2) = send_cmd cmd f1 in
           if code \<noteq> 150 \<and> code \<noteq> 125 then (Inl (verb @ '' rejected: code='' @ show_int code), close_data ch f2)
           else
             let e = (if ftp_tls f2 then wrap_data_tls d f2 else []) in
             if e \<noteq> [] then (Inl e, close_data ch f2) else (Inr ch, f2)))"

section \<open>Transfers\<close>

text \<open>
  \<open>stor\<close>: the rest of what the local file still delivers goes out in pieces of 64 KiB. The
  progress callback is called on every change of the percentage; \<open>go n sent fsize\<close> is the
  answer of its n-th call. The calls made are part of the result.
\<close>

definition stor_pct :: "nat \<Rightarrow> nat \<Rightarrow> int" where
  "stor_pct sent fsize = (if fsize > 0 then int (sent * 100 mod 2 ^ 64 div fsize) else - 1)"

function stor_loop :: "bool \<Rightarrow> (nat \<Rightarrow> nat \<Rightarrow> nat \<Rightarrow> bool) option \<Rightarrow> bytes \<Rightarrow> nat \<Rightarrow> bytes \<Rightarrow> nat \<Rightarrow> int \<Rightarrow> (nat \<times> nat) list \<Rightarrow> channel
    \<Rightarrow> bytes \<times> nat \<times> (nat \<times> nat) list \<times> channel" where
  "stor_loop tls progress err fsize rest sent last_pct calls ch =
     (if rest = [] then ([], sent, calls, ch)
      else
        let buf = take 65536 rest; (ok, ch') = chan_write_all tls buf ch; sent' = sent + length buf in
        if \<not> ok then (''data write: '' @ err, sent, calls, ch')
        else case progress of
            None \<Rightarrow> stor_loop tls progress err fsize (drop 65536 rest) sent' last_pct calls ch'
          | Some go \<Rightarrow>
              (let pct = stor_pct sent' fsize in
               if pct = last_pct then stor_loop tls progress err fsize (drop 65536 rest) sent' last_pct calls ch'
               else if \<not> go (length calls) sent' fsize then (''upload cancelled'', sent', calls @ [(sent', fsize)], ch')
               else stor_loop tls progress err fsize (drop 65536 rest) sent' pct (calls @ [(sent', fsize)]) ch'))"
  by pat_completeness auto
termination
  by (relation "measure (\<lambda>(tls, progress, err, fsize, rest, sent, last_pct, calls, ch). length rest)") auto

declare stor_loop.simps [simp del]

text \<open>
  The local file: \<open>None\<close> when it cannot be opened, or its bytes and how many of them the reads
  deliver before one of them fails.
\<close>

definition stor :: "(bytes \<times> nat) option \<Rightarrow> bytes \<Rightarrow> bytes \<Rightarrow> (nat \<Rightarrow> nat \<Rightarrow> nat \<Rightarrow> bool) option \<Rightarrow> ftp
    \<Rightarrow> bytes \<times> (nat \<times> nat) list \<times> ftp" where
  "stor file local_path remote_path progress f =
     (case file of
        None \<Rightarrow> (''open '' @ local_path @ '': '' @ ftp_err f, [], f)
      | Some (content, readable) \<Rightarrow>
          (let fsize = length content; (r, f1) = open_transfer ''STOR'' (''STOR '' @ remote_path) f in
           case r of
             Inl e \<Rightarrow> (e, [], f1)
           | Inr ch \<Rightarrow>
               (let (e, sent, calls, ch') = stor_loop (ftp_tls f1) progress (ftp_err f1) fsize (take readable content) 0 (- 1) [] ch;
                    f2 = close_data ch' f1 in
                if e \<noteq> [] then (e, calls, f2)
                else
                  let (reply, f3) = read_reply f2; (code, body) = (case reply of None \<Rightarrow> (- 1, []) | Some x \<Rightarrow> x) in
                  if code \<noteq> 226 \<and> code \<noteq> 250 then (''STOR finish code='' @ show_int code @ '': '' @ body, calls, f3)
                  else ([], case progress of None \<Rightarrow> calls | Some _ \<Rightarrow> calls @ [(sent, fsize)], f3))))"

text \<open>Reading a data channel to its end; an error ends it as well.\<close>

function read_all :: "bool \<Rightarrow> channel \<Rightarrow> bytes \<times> channel" where
  "read_all tls ch =
     (case chan_read_some tls 1024 ch of
        (Chunk bs, ch') \<Rightarrow> (let (rest, ch'') = read_all tls ch' in (bs @ rest, ch''))
      | (_, ch') \<Rightarrow> ([], ch'))"
  by pat_completeness auto
termination
proof (relation "measure (\<lambda>(tls, ch). script_size (ch_rd ch))", goal_cases)
  case (2 tls ch x y bs)
  from chan_read_size [of tls 1024 ch bs y] 2 show ?case by (cases bs) auto
qed simp

declare read_all.simps [simp del]

text \<open>\<open>list\<close>, and the first half of \<open>list_entries\<close>: the error text and the raw listing.\<close>

definition list_body :: "bytes \<Rightarrow> ftp \<Rightarrow> (bytes + bytes) \<times> ftp" where
  "list_body path f =
     (let (r, f1) = open_transfer ''LIST'' (if path = [] then ''LIST'' else ''LIST '' @ path) f in
      case r of
        Inl e \<Rightarrow> (Inl e, f1)
      | Inr ch \<Rightarrow>
          (let (body, ch') = read_all (ftp_tls f1) ch;
               (reply, f2) = read_reply (close_data ch' f1);
               code = (case reply of None \<Rightarrow> - 1 | Some (c, _) \<Rightarrow> c) in
           if code \<noteq> 226 \<and> code \<noteq> 250 then (Inl (''LIST finish code='' @ show_int code), f2) else (Inr body, f2)))"

text \<open>\<open>retr\<close>: the sink sees each piece and may stop the transfer at its n-th call.\<close>

function retr_loop :: "bool \<Rightarrow> (nat \<Rightarrow> bool) \<Rightarrow> bytes \<Rightarrow> bytes list \<Rightarrow> channel \<Rightarrow> bytes \<times> bytes list \<times> channel" where
  "retr_loop tls sink err got ch =
     (case chan_read_some tls 65536 ch of
        (Chunk_fail, ch') \<Rightarrow> (''data read: '' @ err, got, ch')
      | (Chunk_end, ch') \<Rightarrow> ([], got, ch')
      | (Chunk bs, ch') \<Rightarrow>
          if sink (length got) then retr_loop tls sink err (got @ [bs]) ch'
          else (''download cancelled'', got @ [bs], ch'))"
  by pat_completeness auto
termination
proof (relation "measure (\<lambda>(tls, sink, err, got, ch). script_size (ch_rd ch))", goal_cases)
  case (2 tls sink err got ch x y bs)
  from chan_read_size [of tls 65536 ch bs y] 2 show ?case by (cases bs) auto
qed simp

declare retr_loop.simps [simp del]

definition retr :: "bytes \<Rightarrow> (nat \<Rightarrow> bool) \<Rightarrow> ftp \<Rightarrow> bytes \<times> bytes list \<times> ftp" where
  "retr remote_path sink f =
     (let (r, f1) = open_transfer ''RETR'' (''RETR '' @ remote_path) f in
      case r of
        Inl e \<Rightarrow> (e, [], f1)
      | Inr ch \<Rightarrow>
          (let (e, got, ch') = retr_loop (ftp_tls f1) sink (ftp_err f1) [] ch;
               (reply, f2) = read_reply (close_data ch' f1);
               (code, body) = (case reply of None \<Rightarrow> (- 1, []) | Some x \<Rightarrow> x) in
           (if e \<noteq> [] then e
            else if code \<noteq> 226 \<and> code \<noteq> 250 then ''RETR finish code='' @ show_int code @ '': '' @ body else [], got, f2)))"

section \<open>Short commands and the end\<close>

definition dele :: "bytes \<Rightarrow> ftp \<Rightarrow> bytes \<times> ftp" where
  "dele remote_path f =
     (let ((code, _), f') = send_cmd (''DELE '' @ remote_path) f in
      (if code \<noteq> 250 \<and> code \<noteq> 200 then ''DELE code='' @ show_int code else [], f'))"

definition size_of_reply :: "bytes \<Rightarrow> bytes" where
  "size_of_reply body =
     dropWhile (\<lambda>c. c = BLANK \<or> c = TAB) (dropWhile is_digit (dropWhile (\<lambda>c. \<not> is_digit c) (c_str body)))"

definition ftp_size :: "bytes \<Rightarrow> ftp \<Rightarrow> (bytes + u64) \<times> ftp" where
  "ftp_size remote_path f =
     (let ((code, body), f') = send_cmd (''SIZE '' @ remote_path) f; s = size_of_reply body in
      (if code \<noteq> 213 then Inl (''SIZE code='' @ show_int code)
       else if int_prefix s = None then Inl (''SIZE parse: '' @ body)
       else Inr (strtoull s), f'))"

definition cwd :: "bytes \<Rightarrow> ftp \<Rightarrow> bytes \<times> ftp" where
  "cwd path f =
     (let ((code, _), f') = send_cmd (''CWD '' @ path) f in
      (if code = 250 \<or> code = 200 then [] else ''CWD '' @ path @ '' code='' @ show_int code, f'))"

definition quit :: "ftp \<Rightarrow> ftp" where
  "quit f =
     (case ftp_ctrl f of
        None \<Rightarrow> f\<lparr>ftp_ssl := False, ftp_ctx := False\<rparr>
      | Some _ \<Rightarrow>
          (let (_, f1) = ctrl_write (''QUIT'' @ [CR, LF]) f; (_, f2) = read_reply f1 in
           f2\<lparr>ftp_closed := (case ftp_ctrl f2 of None \<Rightarrow> ftp_closed f2 | Some ch \<Rightarrow> ftp_closed f2 @ [ch_tx ch]),
              ftp_ssl := False, ftp_ctrl := None, ftp_ctx := False\<rparr>))"

end
