(* ===== verification/Ftp_Laws.thy ===== *)
theory Ftp_Laws
  imports Ftps Lan_Session
begin

text \<open>
  What holds of the FTP client: replies do not depend on how the network cuts the control
  stream, an upload puts exactly the file on one data channel, and what a failed local read
  does to it.
\<close>

section \<open>The control stream\<close>

text \<open>The bytes a channel still delivers before it ends, fails or stays silent.\<close>

fun chan_incoming :: "bool \<Rightarrow> chan_read list \<Rightarrow> bytes" where
  "chan_incoming tls [] = []"
| "chan_incoming tls (Rd_bytes bs # rs) = (if bs = [] then [] else bs @ chan_incoming tls rs)"
| "chan_incoming tls (Rd_want b # rs) = (if tls \<and> b then chan_incoming tls rs else [])"
| "chan_incoming tls (_ # rs) = []"

definition ctrl_rest :: "ftp \<Rightarrow> bytes" where
  "ctrl_rest f =
     (case ftp_ctrl f of
        None \<Rightarrow> []
      | Some ch \<Rightarrow> if ftp_tls f \<and> \<not> ftp_ssl f then [] else chan_incoming (ftp_tls f) (ch_rd ch))"

definition ctrl_stream :: "ftp \<Rightarrow> bytes" where
  "ctrl_stream f = ftp_buf f @ ctrl_rest f"

lemma ctrl_rest_buf [simp]: "ctrl_rest (f\<lparr>ftp_buf := b\<rparr>) = ctrl_rest f"
  by (cases "ftp_ctrl f") (simp_all add: ctrl_rest_def)

text \<open>The write side: the bytes sent, and what the next writes will do.\<close>

definition ctrl_out :: "ftp \<Rightarrow> (bytes \<times> chan_write list) option" where
  "ctrl_out f = map_option (\<lambda>ch. (ch_tx ch, ch_wr ch)) (ftp_ctrl f)"

definition ctrl_tx :: "ftp \<Rightarrow> bytes" where
  "ctrl_tx f = (case ctrl_out f of None \<Rightarrow> [] | Some (sent, _) \<Rightarrow> sent)"

text \<open>Everything but the control channel and its buffer.\<close>

definition same_outside :: "ftp \<Rightarrow> ftp \<Rightarrow> bool" where
  "same_outside f f' = (f'\<lparr>ftp_ctrl := ftp_ctrl f, ftp_buf := ftp_buf f\<rparr> = f)"

lemma same_outside_refl [simp]: "same_outside f f"
  by (simp add: same_outside_def)

lemma same_outside_trans: "same_outside f g \<Longrightarrow> same_outside g h \<Longrightarrow> same_outside f h"
  by (cases f; cases g; cases h) (simp add: same_outside_def)

lemma same_outsideD: "same_outside f f' \<Longrightarrow> ftp_tls f' = ftp_tls f \<and> ftp_ssl f' = ftp_ssl f \<and> ftp_err f' = ftp_err f \<and>
    ftp_dials f' = ftp_dials f \<and> ftp_moved f' = ftp_moved f \<and> ftp_closed f' = ftp_closed f \<and> ftp_ports f' = ftp_ports f"
  by (cases f; cases f') (simp add: same_outside_def)

definition incoming_after :: "bool \<Rightarrow> chunk \<Rightarrow> channel \<Rightarrow> bytes" where
  "incoming_after tls c ch = (case c of Chunk bs \<Rightarrow> bs @ chan_incoming tls (ch_rd ch) | _ \<Rightarrow> [])"

lemma take_chunk_incoming:
  "take_chunk cap bs rs ch = (c, ch') \<Longrightarrow> 0 < cap \<Longrightarrow>
   chan_incoming tls (Rd_bytes bs # rs) = incoming_after tls c ch' \<and> ch_tx ch' = ch_tx ch \<and> ch_wr ch' = ch_wr ch"
  by (auto simp: take_chunk_def incoming_after_def split: if_splits)

lemma ssl_read_incoming:
  "ssl_read_some cap ch = (c, ch') \<Longrightarrow> 0 < cap \<Longrightarrow>
   chan_incoming True (ch_rd ch) = incoming_after True c ch' \<and> ch_tx ch' = ch_tx ch \<and> ch_wr ch' = ch_wr ch"
proof (induction cap ch rule: ssl_read_some.induct)
  case (1 cap ch)
  show ?case
  proof (cases "ch_rd ch")
    case Nil
    with 1(2) show ?thesis by (auto simp: ssl_read_some.simps incoming_after_def)
  next
    case (Cons r rs)
    show ?thesis
    proof (cases r)
      case (Rd_bytes bs)
      with 1(2,3) Cons show ?thesis
        using take_chunk_incoming [of cap bs rs ch c ch' True] by (simp add: ssl_read_some.simps [of cap ch])
    next
      case (Rd_want b)
      with 1 Cons show ?thesis
        by (cases b) (fastforce simp: ssl_read_some.simps [of cap ch] incoming_after_def)+
    qed (use 1(2) Cons in \<open>auto simp: ssl_read_some.simps [of cap ch] incoming_after_def\<close>)
  qed
qed

lemma chan_read_incoming:
  assumes "chan_read_some tls cap ch = (c, ch')" and "0 < cap"
  shows "chan_incoming tls (ch_rd ch) = incoming_after tls c ch' \<and> ch_tx ch' = ch_tx ch \<and> ch_wr ch' = ch_wr ch"
proof (cases tls)
  case True
  then show ?thesis using ssl_read_incoming assms by (simp add: chan_read_some_def)
next
  case False
  then show ?thesis
    using assms take_chunk_incoming [where tls = False]
    by (auto simp: chan_read_some_def plain_read_some_def incoming_after_def
        split: list.splits chan_read.splits prod.splits)
qed

lemma ctrl_read_stream:
  assumes "ctrl_read cap f = (c, f')" and "0 < cap"
  shows "same_outside f f'" and "ctrl_out f' = ctrl_out f" and "ftp_buf f' = ftp_buf f"
    and "ctrl_rest f = (case c of Chunk bs \<Rightarrow> bs @ ctrl_rest f' | _ \<Rightarrow> [])"
  using assms chan_read_incoming [OF _ assms(2)]
  by (auto simp: ctrl_read_def ctrl_rest_def ctrl_out_def same_outside_def incoming_after_def
      split: option.splits if_splits prod.splits chunk.splits)

section \<open>Lines and replies\<close>

definition take_line :: "bytes \<Rightarrow> (bytes \<times> bytes) option" where
  "take_line b = map_option (\<lambda>i. (chop_cr (take i b), drop (Suc i) b)) (find_char LF b)"

lemma take_line_shrinks: "take_line b = Some (l, r) \<Longrightarrow> length r < length b"
  using find_char_length by (fastforce simp: take_line_def)

lemma take_line_extend: "take_line b = Some (l, r) \<Longrightarrow> take_line (b @ c) = Some (l, r @ c)"
proof -
  assume "take_line b = Some (l, r)"
  then obtain i where i: "find_char LF b = Some i" "l = chop_cr (take i b)" "r = drop (Suc i) b"
    by (auto simp: take_line_def)
  then have "b = take i b @ LF # drop (Suc i) b" "LF \<notin> set (take i b)" "i < length b"
    using id_take_nth_drop by (fastforce simp: find_char_Some_iff)+
  then have "find_char LF (b @ c) = Some i"
    by (metis append.assoc append_Cons find_char_append_here length_take min.absorb4)
  with i \<open>i < length b\<close> show ?thesis by (simp add: take_line_def)
qed

lemma read_line_stream:
  assumes "read_line f = (x, f')"
  shows "same_outside f f' \<and> ctrl_out f' = ctrl_out f \<and>
    (case x of None \<Rightarrow> take_line (ctrl_stream f) = None | Some l \<Rightarrow> take_line (ctrl_stream f) = Some (l, ctrl_stream f'))"
  using assms
proof (induction f rule: read_line.induct)
  case (1 f)
  show ?case
  proof (cases "find_char LF (ftp_buf f)")
    case (Some i)
    then have t: "take_line (ftp_buf f) = Some (chop_cr (take i (ftp_buf f)), drop (Suc i) (ftp_buf f))"
      by (simp add: take_line_def)
    have "x = Some (chop_cr (take i (ftp_buf f)))" "f' = f\<lparr>ftp_buf := drop (Suc i) (ftp_buf f)\<rparr>"
      using "1.prems" Some by (simp_all add: read_line.simps [of f])
    then show ?thesis
      using take_line_extend [OF t] t by (simp add: ctrl_stream_def same_outside_def ctrl_out_def)
  next
    case None
    obtain c f1 where c: "ctrl_read 512 f = (c, f1)" by force
    note s = ctrl_read_stream [OF c, simplified]
    show ?thesis
    proof (cases "\<exists>bs. c = Chunk bs")
      case True
      then obtain bs where bs: "c = Chunk bs" by blast
      let ?g = "f1\<lparr>ftp_buf := ftp_buf f1 @ bs\<rparr>"
      have g: "ctrl_stream ?g = ctrl_stream f" "same_outside f ?g" "ctrl_out ?g = ctrl_out f"
        using s bs by (auto simp: ctrl_stream_def same_outside_def ctrl_out_def)
      have "read_line ?g = (x, f')" using "1.prems" None c bs by (simp add: read_line.simps [of f])
      from "1.IH" [OF None c [symmetric] bs this, unfolded g(1,3)] g(2) show ?thesis by (meson same_outside_trans)
    next
      case False
      then have "x = None" "f' = f1" "ctrl_stream f = ftp_buf f"
        using "1.prems" None c s by (cases c; simp add: read_line.simps [of f] ctrl_stream_def)+
      then show ?thesis using None s by (simp add: take_line_def)
    qed
  qed
qed

function take_reply :: "bytes \<Rightarrow> (bytes list \<times> bytes) option" where
  "take_reply b =
     (case take_line b of
        None \<Rightarrow> None
      | Some (l, r) \<Rightarrow> if final_line l then Some ([l], r) else map_option (\<lambda>(ls, r'). (l # ls, r')) (take_reply r))"
  by pat_completeness auto
termination
  by (relation "measure length") (use take_line_shrinks in auto)

declare take_reply.simps [simp del]

definition reply_of :: "bytes list \<Rightarrow> int \<times> bytes" where
  "reply_of ls = (atoi (take 3 (last ls)), foldl add_line [] ls)"

lemma take_reply_nonempty: "take_reply b = Some (ls, r) \<Longrightarrow> ls \<noteq> []"
  by (subst (asm) take_reply.simps) (auto split: option.splits if_splits)

lemma read_reply_from_stream:
  assumes "read_reply_from acc f = (x, f')"
  shows "same_outside f f' \<and> ctrl_out f' = ctrl_out f \<and>
    (case x of
       None \<Rightarrow> take_reply (ctrl_stream f) = None
     | Some (code, body) \<Rightarrow> \<exists>ls. take_reply (ctrl_stream f) = Some (ls, ctrl_stream f') \<and>
         code = atoi (take 3 (last ls)) \<and> body = foldl add_line acc ls)"
  using assms
proof (induction acc f rule: read_reply_from.induct)
  case (1 acc f)
  obtain y f1 where y: "read_line f = (y, f1)" by force
  note s = read_line_stream [OF y]
  show ?case
  proof (cases y)
    case None
    then show ?thesis using "1.prems" y s by (simp add: read_reply_from.simps [of acc f] take_reply.simps [of "ctrl_stream f"])
  next
    case (Some l)
    show ?thesis
    proof (cases "final_line l")
      case True
      then show ?thesis
        using "1.prems" y s Some by (auto simp: read_reply_from.simps [of acc f] take_reply.simps [of "ctrl_stream f"])
    next
      case False
      then have "read_reply_from (add_line acc l) f1 = (x, f')"
        using "1.prems" y Some by (simp add: read_reply_from.simps [of acc f])
      from "1.IH" [OF y [symmetric] Some refl False this] False s Some show ?thesis
        using take_reply_nonempty
        by (fastforce simp: take_reply.simps [of "ctrl_stream f"] intro: same_outside_trans split: option.splits prod.splits)
    qed
  qed
qed

text \<open>The control channel refines the stream of its bytes.\<close>

lemma read_reply_stream:
  assumes "read_reply f = (x, f')"
  shows "same_outside f f'" and "ctrl_out f' = ctrl_out f"
    and "x = map_option (\<lambda>(ls, r). reply_of ls) (take_reply (ctrl_stream f))"
    and "take_reply (ctrl_stream f) = Some (ls, r) \<Longrightarrow> ctrl_stream f' = r"
  using read_reply_from_stream [of "[]" f x f'] assms
  by (auto simp: read_reply_def reply_of_def split: option.splits prod.splits)


section \<open>Replies are self-delimiting\<close>

definition reply_bytes :: "bytes list \<Rightarrow> bytes" where
  "reply_bytes ls = concat (map (\<lambda>l. l @ [CR, LF]) ls)"

definition reply_ok :: "bytes list \<Rightarrow> bool" where
  "reply_ok ls = (ls \<noteq> [] \<and> list_all (\<lambda>l. LF \<notin> set l) ls \<and> final_line (last ls) \<and>
     list_all (\<lambda>l. \<not> final_line l) (butlast ls))"

lemma take_line_frame: "LF \<notin> set l \<Longrightarrow> take_line (l @ CR # LF # r) = Some (l, r)"
proof -
  assume "LF \<notin> set l"
  then have "find_char LF ((l @ [CR]) @ LF # r) = Some (length (l @ [CR]))" by (intro find_char_append_here) simp
  then show ?thesis by (simp add: take_line_def chop_cr_def)
qed

lemma take_line_partial: "LF \<notin> set p \<Longrightarrow> take_line p = None"
  by (simp add: take_line_def)

lemma reply_ok_cases:
  "reply_ok ls \<longleftrightarrow> (\<exists>l ls'. ls = l # ls' \<and> LF \<notin> set l \<and> (if ls' = [] then final_line l else \<not> final_line l \<and> reply_ok ls'))"
  by (cases ls) (auto simp: reply_ok_def)

lemma take_reply_frame: "reply_ok ls \<Longrightarrow> take_reply (reply_bytes ls @ r) = Some (ls, r)"
proof (induction ls)
  case (Cons l ls)
  have "reply_bytes (l # ls) @ r = l @ CR # LF # reply_bytes ls @ r" by (simp add: reply_bytes_def)
  moreover have "LF \<notin> set l" using Cons.prems by (simp add: reply_ok_def)
  ultimately have "take_line (reply_bytes (l # ls) @ r) = Some (l, reply_bytes ls @ r)" by (simp add: take_line_frame)
  then show ?case
    using Cons by (subst take_reply.simps) (auto simp: reply_ok_cases [of "l # ls"] reply_bytes_def split: if_splits)
qed (simp add: reply_ok_def)

lemma take_reply_extend: "take_reply b = Some (ls, r) \<Longrightarrow> take_reply (b @ c) = Some (ls, r @ c)"
proof (induction b arbitrary: ls rule: take_reply.induct)
  case (1 b)
  obtain l s where l: "take_line b = Some (l, s)"
    using "1.prems" by (subst (asm) take_reply.simps) (auto split: option.splits)
  note e = take_line_extend [OF l, of c]
  show ?case
  proof (cases "final_line l")
    case True
    then show ?thesis using "1.prems" l e by (auto simp: take_reply.simps [of b] take_reply.simps [of "b @ c"])
  next
    case False
    then obtain ls' where "take_reply s = Some (ls', r)" "ls = l # ls'"
      using "1.prems" l by (auto simp: take_reply.simps [of b])
    with "1.IH" [OF l refl False] e False show ?thesis by (simp add: take_reply.simps [of "b @ c"])
  qed
qed

lemma take_reply_shrinks: "take_reply b = Some (ls, r) \<Longrightarrow> length r < length b"
proof (induction b arbitrary: ls rule: take_reply.induct)
  case (1 b)
  obtain l s where l: "take_line b = Some (l, s)"
    using "1.prems" by (subst (asm) take_reply.simps) (auto split: option.splits)
  show ?case
  proof (cases "final_line l")
    case True
    then show ?thesis using "1.prems" l take_line_shrinks [OF l] by (simp add: take_reply.simps [of b])
  next
    case False
    then obtain ls' where "take_reply s = Some (ls', r)"
      using "1.prems" l by (auto simp: take_reply.simps [of b])
    with "1.IH" [OF l refl False] take_line_shrinks [OF l] show ?thesis by fastforce
  qed
qed

lemma take_reply_partial: "reply_ok ls \<Longrightarrow> strict_prefix p (reply_bytes ls) \<Longrightarrow> take_reply p = None"
proof (induction ls arbitrary: p)
  case (Cons l ls)
  have l: "LF \<notin> set l" using Cons.prems(1) by (simp add: reply_ok_def)
  have e: "reply_bytes (l # ls) = l @ CR # LF # reply_bytes ls" by (simp add: reply_bytes_def)
  show ?case
  proof (cases "take_line p")
    case None
    then show ?thesis by (simp add: take_reply.simps [of p])
  next
    case (Some mr)
    obtain m r where mr: "mr = (m, r)" by force
    obtain q where q: "reply_bytes (l # ls) = p @ q" "q \<noteq> []" using Cons.prems(2) by (auto elim: strict_prefixE')
    have "take_line (p @ q) = Some (m, r @ q)" using take_line_extend [of p m r q] Some mr by simp
    then have m: "m = l" "reply_bytes ls = r @ q"
      using take_line_frame [OF l, of "reply_bytes ls"] by (simp_all add: q(1) [symmetric] e)
    show ?thesis
    proof (cases "ls = []")
      case True
      then show ?thesis using m(2) q(2) by (simp add: reply_bytes_def)
    next
      case False
      then have "\<not> final_line l" "reply_ok ls" using Cons.prems(1) by (auto simp: reply_ok_cases [of "l # ls"])
      then show ?thesis
        using Cons.IH [of r] m q(2) Some mr by (simp add: take_reply.simps [of p] strict_prefix_def)
    qed
  qed
qed (simp add: reply_ok_def)

interpretation replies: self_delimiting reply_bytes reply_ok take_reply
  by unfold_locales (rule take_reply_frame take_reply_partial take_reply_extend take_reply_shrinks; assumption)+

text \<open>Reading replies until none is left.\<close>

fun read_replies :: "nat \<Rightarrow> ftp \<Rightarrow> (int \<times> bytes) option list" where
  "read_replies 0 f = []"
| "read_replies (Suc n) f = (let (x, f') = read_reply f in x # read_replies n f')"

lemma read_replies_drain:
  "drain take_reply (ctrl_stream f) = (rs, p) \<Longrightarrow> read_replies (Suc (length rs)) f = map (Some \<circ> reply_of) rs @ [None]"
proof (induction rs arbitrary: f)
  case Nil
  then have "take_reply (ctrl_stream f) = None"
    using replies.drain_Some by (cases "take_reply (ctrl_stream f)") fastforce+
  then show ?case using read_reply_stream(3) [of f] by (auto split: prod.split)
next
  case (Cons r rs)
  obtain b where b: "take_reply (ctrl_stream f) = Some (r, b)" "drain take_reply b = (rs, p)"
    using Cons.prems replies.drain_None [of "ctrl_stream f"] replies.drain_Some [of "ctrl_stream f"]
    by (cases "take_reply (ctrl_stream f)") (auto simp: prod_eq_iff)
  obtain x f' where f': "read_reply f = (x, f')" by force
  have "x = Some (reply_of r)" "ctrl_stream f' = b"
    using read_reply_stream(3,4) [OF f'] b(1) by simp_all
  then show ?case using Cons.IH [of f'] b(2) f' by simp
qed

text \<open>Replies do not depend on the network. However the control connection cuts the replies
  of the printer into pieces, and wherever it waits between them, \<open>read_reply\<close> returns them one by
  one, with their code and all their lines, and only then waits in vain.\<close>

theorem replies_any_cut:
  assumes "ftp_buf f = []" and "ftp_ctrl f = Some ch" and "ftp_tls f \<longrightarrow> ftp_ssl f"
    and "chan_incoming (ftp_tls f) (ch_rd ch) = concat (map reply_bytes rs) @ p"
    and "list_all reply_ok rs" and "reply_ok r" and "strict_prefix p (reply_bytes r)"
  shows "read_replies (Suc (length rs)) f = map (Some \<circ> reply_of) rs @ [None]"
proof (rule read_replies_drain)
  have "ctrl_stream f = concat (map reply_bytes rs) @ p"
    using assms(1-4) by (cases "ftp_tls f") (simp_all add: ctrl_stream_def ctrl_rest_def)
  then show "drain take_reply (ctrl_stream f) = (rs, p)"
    using replies.drain_frames [OF assms(5) take_reply_partial [OF assms(6,7)]] by simp
qed

lemmas reply_value = reply_of_def add_line_def atoi_def strtol_def int_prefix_def split_sign_def is_space_def is_digit_def
  read_nat_def digit_val_def signed_of_def narrow_i32_def

definition banner_channel :: channel where
  "banner_channel = \<lparr>ch_rd = [Rd_bytes ''22'', Rd_want True, Rd_bytes (''0-hi'' @ [CR]), Rd_bytes ([LF] @ ''220 ok'' @ [CR, LF]), Rd_bytes ''2''],
     ch_wr = [], ch_tx = []\<rparr>"

definition banner_client :: ftp where
  "banner_client = (new_ftp [] [])\<lparr>ftp_tls := True, ftp_ssl := True, ftp_ctrl := Some banner_channel\<rparr>"

theorem replies_any_cut_witness:
  "read_replies 2 banner_client = [Some (220, ''220-hi'' @ [LF] @ ''220 ok''), None]"
proof -
  have ok: "reply_ok [''220-hi'', ''220 ok'']" by (simp add: reply_ok_def final_line_def is_digit_def)
  have "read_replies (Suc (length [[''220-hi'', ''220 ok'']])) banner_client =
      map (Some \<circ> reply_of) [[''220-hi'', ''220 ok'']] @ [None]"
    by (rule replies_any_cut [where r = "[''220-hi'', ''220 ok'']" and p = "''2''" and ch = banner_channel])
      (use ok in \<open>simp_all add: banner_client_def banner_channel_def new_ftp_def reply_bytes_def strict_prefix_def\<close>)
  then show ?thesis
    by (simp add: reply_value numeral_2_eq_2)
qed

text \<open>A line of another code ends a multi-line reply: the reply \<open>211-\<close> is taken to be \<open>550\<close>.\<close>

lemma reply_ends_at_other_code:
  "take_reply (''211-Features'' @ [LF] @ ''550 blocks'' @ [LF] @ ''211 End'' @ [LF]) =
     Some ([''211-Features'', ''550 blocks''], ''211 End'' @ [LF])"
  by (simp add: take_reply.simps take_line_def chop_cr_def final_line_def is_digit_def eval_nat_numeral)

section \<open>Uploads\<close>

lemma chan_write_all_Nil [simp]: "chan_write_all tls [] ch = (True, ch)"
  by (simp add: chan_write_all.simps)

lemma chan_write_facts:
  "chan_write_all tls buf ch = (ok, ch') \<Longrightarrow>
   ch_rd ch' = ch_rd ch \<and> (\<exists>p q. buf = p @ q \<and> ch_tx ch' = ch_tx ch @ p \<and> (ok \<longleftrightarrow> q = []))"
proof (induction tls buf ch arbitrary: ok ch' rule: chan_write_all.induct)
  case (1 tls buf ch)
  show ?case
  proof (cases "buf = []")
    case True
    then show ?thesis using "1.prems" by simp
  next
    case ne: False
    show ?thesis
    proof (cases "ch_wr ch")
      case Nil
      then show ?thesis using "1.prems" ne by (auto simp: chan_write_all.simps [of tls buf ch])
    next
      case (Cons w ws)
      show ?thesis
      proof (cases w)
        case (Wr_some n)
        define k where "k = max 1 (min n (length buf))"
        have "chan_write_all tls (drop k buf) (ch\<lparr>ch_wr := ws, ch_tx := ch_tx ch @ take k buf\<rparr>) = (ok, ch')"
          using "1.prems" ne Cons Wr_some by (simp add: chan_write_all.simps [of tls buf ch] k_def Let_def)
        from "1.IH"(1) [OF ne Cons Wr_some k_def this] obtain p q where
          "drop k buf = p @ q" "ch_tx ch' = ch_tx ch @ take k buf @ p" "ok \<longleftrightarrow> q = []" "ch_rd ch' = ch_rd ch" by auto
        then show ?thesis by (metis append.assoc append_take_drop_id)
      next
        case (Wr_want b)
        show ?thesis
        proof (cases "tls \<and> b")
          case True
          then have "chan_write_all tls buf (ch\<lparr>ch_wr := ws\<rparr>) = (ok, ch')"
            using "1.prems" ne Cons Wr_want chan_write_all.simps [of tls buf ch] by simp
          from "1.IH"(2) [OF ne Cons Wr_want True this] show ?thesis by simp
        next
          case False
          then show ?thesis using "1.prems" ne Cons Wr_want by (auto simp: chan_write_all.simps [of tls buf ch])
        qed
      next
        case Wr_fail
        then show ?thesis using "1.prems" ne Cons by (auto simp: chan_write_all.simps [of tls buf ch])
      qed
    qed
  qed
qed

lemma ctrl_write_facts:
  assumes "ctrl_write buf f = (ok, f')"
  shows "same_outside f f'" and "ok \<Longrightarrow> ctrl_tx f' = ctrl_tx f @ buf" and "\<exists>p. prefix p buf \<and> ctrl_tx f' = ctrl_tx f @ p"
  using assms chan_write_facts
  by (fastforce simp: ctrl_write_def same_outside_def ctrl_tx_def ctrl_out_def split: option.splits if_splits prod.splits)+

lemma send_cmd_facts:
  assumes "send_cmd cmd f = ((code, body), f')"
  shows "same_outside f f'" and "code \<noteq> - 1 \<Longrightarrow> ctrl_tx f' = ctrl_tx f @ cmd @ [CR, LF]"
proof -
  obtain ok f1 where w: "ctrl_write (cmd @ [CR, LF]) f = (ok, f1)" by force
  obtain x f2 where r: "read_reply f1 = (x, f2)" by force
  note facts = ctrl_write_facts(1,2) [OF w] read_reply_stream(1,2) [OF r]
  have c: "f' = (if ok then f2 else f1)" "code \<noteq> - 1 \<Longrightarrow> ok"
    using assms w r by (auto simp: send_cmd_def split: if_splits option.splits)
  show "same_outside f f'" using facts same_outside_trans by (cases ok) (auto simp: c)
  show "ctrl_tx f' = ctrl_tx f @ cmd @ [CR, LF]" if "code \<noteq> - 1"
    using c(2) [OF that] facts by (simp add: c(1) ctrl_tx_def)
qed

lemma open_data_tcp_ok:
  assumes "open_data_tcp f = (Inr (d, ch), f')"
  shows "ctrl_tx f' = ctrl_tx f @ ''PASV'' @ [CR, LF]" and "\<exists>ds. ftp_dials f = d # ds" and "dd_tcp d = Inr ch"
    and "ftp_moved f' = ftp_moved f" and "ftp_tls f' = ftp_tls f"
proof -
  obtain code body f1 where s: "send_cmd ''PASV'' f = ((code, body), f1)" by (metis surj_pair)
  then obtain port where p: "code = 227" "dial_data port f1 = (Inr (d, ch), f')"
    using assms by (auto simp: open_data_tcp_def split: if_splits sum.splits)
  note o = same_outsideD [OF send_cmd_facts(1) [OF s]]
  show "ctrl_tx f' = ctrl_tx f @ ''PASV'' @ [CR, LF]"
    using send_cmd_facts(2) [OF s] p by (auto simp: dial_data_def ctrl_tx_def ctrl_out_def Let_def split: list.splits)
  show "\<exists>ds. ftp_dials f = d # ds" "dd_tcp d = Inr ch" "ftp_moved f' = ftp_moved f" "ftp_tls f' = ftp_tls f"
    using p o by (auto simp: dial_data_def Let_def split: list.splits sum.splits)
qed

lemma open_transfer_ok:
  assumes "open_transfer verb cmd f = (Inr ch, f')"
  shows "ctrl_tx f' = ctrl_tx f @ ''PASV'' @ [CR, LF] @ cmd @ [CR, LF]" and "\<exists>d ds. ftp_dials f = d # ds \<and> dd_tcp d = Inr ch"
    and "ftp_moved f' = ftp_moved f"
proof -
  obtain d c f1 where o: "open_data_tcp f = (Inr (d, c), f1)"
    using assms by (auto simp: open_transfer_def split: sum.splits prod.splits)
  obtain code body f2 where s: "send_cmd cmd f1 = ((code, body), f2)" by (metis surj_pair)
  have x: "code \<noteq> - 1" "c = ch" "f2 = f'"
    using assms o s by (auto simp: open_transfer_def Let_def split: if_splits)
  note f = open_data_tcp_ok [OF o] same_outsideD [OF send_cmd_facts(1) [OF s]]
  show "ctrl_tx f' = ctrl_tx f @ ''PASV'' @ [CR, LF] @ cmd @ [CR, LF]"
    using send_cmd_facts(2) [OF s x(1)] f(1) x(3) by simp
  show "\<exists>d ds. ftp_dials f = d # ds \<and> dd_tcp d = Inr ch" "ftp_moved f' = ftp_moved f"
    using f x by auto
qed

lemma stor_loop_ok:
  "stor_loop tls progress err fsize rest sent last_pct calls ch = ([], sent', calls', ch') \<Longrightarrow>
   ch_tx ch' = ch_tx ch @ rest \<and> sent' = sent + length rest"
proof (induction tls progress err fsize rest sent last_pct calls ch rule: stor_loop.induct)
  case (1 tls progress err fsize rest sent last_pct calls ch)
  let ?buf = "take 65536 rest"
  show ?case
  proof (cases "rest = []")
    case True
    then show ?thesis using "1.prems" by (simp add: stor_loop.simps)
  next
    case False
    obtain ok c1 where w: "chan_write_all tls ?buf ch = (ok, c1)" by force
    have ok: "ok" using "1.prems" False w by (subst (asm) stor_loop.simps) (auto simp: Let_def split: if_splits)
    have tx: "ch_tx c1 = ch_tx ch @ ?buf" using chan_write_facts [OF w] ok by auto
    have step: "stor_loop tls progress err fsize rest sent last_pct calls ch =
        (case progress of
            None \<Rightarrow> stor_loop tls progress err fsize (drop 65536 rest) (sent + length ?buf) last_pct calls c1
          | Some go \<Rightarrow>
              (let pct = stor_pct (sent + length ?buf) fsize in
               if pct = last_pct then stor_loop tls progress err fsize (drop 65536 rest) (sent + length ?buf) last_pct calls c1
               else if \<not> go (length calls) (sent + length ?buf) fsize then (''upload cancelled'', sent + length ?buf, calls @ [(sent + length ?buf, fsize)], c1)
               else stor_loop tls progress err fsize (drop 65536 rest) (sent + length ?buf) pct (calls @ [(sent + length ?buf, fsize)]) c1))"
      by (subst stor_loop.simps) (simp add: False w ok Let_def)
    have fin: "ch_tx c1 @ drop 65536 rest = ch_tx ch @ rest" "sent + length ?buf + length (drop 65536 rest) = sent + length rest"
      by (simp_all add: tx)
    show ?thesis
    proof (cases progress)
      case None
      then show ?thesis
        using "1.IH"(1) [OF False refl w [symmetric] refl refl _ None] "1.prems" ok fin step None by (simp add: add.assoc)
    next
      case (Some go)
      let ?pct = "stor_pct (sent + length ?buf) fsize"
      show ?thesis
      proof (cases "?pct = last_pct")
        case True
        then show ?thesis
          using "1.IH"(2) [OF False refl w [symmetric] refl refl _ Some refl] "1.prems" ok fin step Some True by (simp add: add.assoc)
      next
        case ne: False
        then have "go (length calls) (sent + length ?buf) fsize"
          using "1.prems" Some step by (auto split: if_splits)
        then show ?thesis
          using "1.IH"(3) [OF False refl w [symmetric] refl refl _ Some refl ne] "1.prems" ok fin step Some ne by (simp add: add.assoc)
      qed
    qed
  qed
qed


lemma pasv_error: "pasv_address body = Inl e \<Longrightarrow> e \<noteq> []" "pasv_port addr = Inl e \<Longrightarrow> e \<noteq> []"
  by (auto simp: pasv_address_def split: option.splits if_splits)
    (cases "scan_fields '',,,,,'' (c_str addr)"; simp add: pasv_port_def split: list.splits)

lemma dial_error: "dial_data port f = (Inl e, f') \<Longrightarrow> e \<noteq> []"
  by (auto simp: dial_data_def Let_def split: list.splits sum.splits)

lemma open_data_tcp_error: "open_data_tcp f = (Inl e, f') \<Longrightarrow> e \<noteq> []"
  using pasv_error dial_error
  by (auto simp: open_data_tcp_def Let_def split: prod.splits if_splits sum.splits)

lemma open_transfer_error: "open_transfer verb cmd f = (Inl e, f') \<Longrightarrow> e \<noteq> []"
  by (auto simp: open_transfer_def wrap_data_tls_def Let_def split: prod.splits if_splits sum.splits
      dest: open_data_tcp_error)

lemma stor_parts:
  assumes "stor (Some (content, readable)) local_path remote_path progress f = ([], calls, f')"
  obtains f1 ch sent calls1 ch' reply where
    "open_transfer ''STOR'' (''STOR '' @ remote_path) f = (Inr ch, f1)"
    "stor_loop (ftp_tls f1) progress (ftp_err f1) (length content) (take readable content) 0 (- 1) [] ch = ([], sent, calls1, ch')"
    "read_reply (close_data ch' f1) = (reply, f')"
proof -
  obtain r f1 where o: "open_transfer ''STOR'' (''STOR '' @ remote_path) f = (r, f1)" by force
  then obtain ch where ch: "r = Inr ch"
    using assms open_transfer_error [of "''STOR''" "''STOR '' @ remote_path" f] by (cases r) (auto simp: stor_def)
  obtain e sent calls1 ch' where l: "stor_loop (ftp_tls f1) progress (ftp_err f1) (length content) (take readable content) 0 (- 1) [] ch = (e, sent, calls1, ch')"
    by (metis surj_pair)
  obtain reply f3 where r: "read_reply (close_data ch' f1) = (reply, f3)" by force
  have "e = []" "f3 = f'"
    using assms o ch l r by (auto simp: stor_def Let_def split: if_splits prod.splits)
  then show ?thesis using that o ch l r by blast
qed

text \<open>
  An upload that succeeds has asked for one passive connection, sent one \<open>STOR\<close> for the remote
  path, and put on that one data connection exactly the bytes the local file delivered.
\<close>

lemma stor_delivers:
  assumes "stor (Some (content, readable)) local_path remote_path progress f = ([], calls, f')"
    and "\<forall>d ch. d \<in> set (ftp_dials f) \<longrightarrow> dd_tcp d = Inr ch \<longrightarrow> ch_tx ch = []"
  shows "ftp_moved f' = ftp_moved f @ [take readable content]"
    and "ctrl_tx f' = ctrl_tx f @ ''PASV'' @ [CR, LF] @ ''STOR '' @ remote_path @ [CR, LF]"
proof -
  obtain f1 ch sent calls1 ch' reply where s: "open_transfer ''STOR'' (''STOR '' @ remote_path) f = (Inr ch, f1)"
    "stor_loop (ftp_tls f1) progress (ftp_err f1) (length content) (take readable content) 0 (- 1) [] ch = ([], sent, calls1, ch')"
    "read_reply (close_data ch' f1) = (reply, f')"
    by (rule stor_parts [OF assms(1)])
  note o = open_transfer_ok [OF s(1)] and r = read_reply_stream(1,2) [OF s(3)]
  have "ch_tx ch = []" using o(2) assms(2) by auto
  then show "ftp_moved f' = ftp_moved f @ [take readable content]"
    using stor_loop_ok [OF s(2)] o(3) same_outsideD [OF r(1)] by (simp add: close_data_def)
  show "ctrl_tx f' = ctrl_tx f @ ''PASV'' @ [CR, LF] @ ''STOR '' @ remote_path @ [CR, LF]"
    using o(1) r(2) by (simp add: close_data_def ctrl_tx_def ctrl_out_def)
qed

lemma open_data_tcp_closed: "open_data_tcp f = (r, f') \<Longrightarrow> ftp_closed f' = ftp_closed f"
  using send_cmd_facts(1) same_outsideD
  by (fastforce simp: open_data_tcp_def dial_data_def Let_def split: prod.splits if_splits sum.splits list.splits)

lemma open_transfer_closed:
  assumes "open_transfer verb cmd f = (r, f')" shows "ftp_closed f' = ftp_closed f"
proof -
  obtain r1 f1 where o: "open_data_tcp f = (r1, f1)" by force
  obtain code body f2 where s: "send_cmd cmd f1 = ((code, body), f2)" by (metis surj_pair)
  show ?thesis
    using assms o s open_data_tcp_closed [OF o] same_outsideD [OF send_cmd_facts(1) [OF s]]
    by (auto simp: open_transfer_def close_data_def Let_def split: sum.splits if_splits)
qed

lemma stor_closed:
  assumes "stor local local_path remote_path progress f = (e, calls, f')" shows "ftp_closed f' = ftp_closed f"
proof (cases local)
  case (Some cr)
  obtain content readable where cr: "cr = (content, readable)" by force
  obtain r f1 where o: "open_transfer ''STOR'' (''STOR '' @ remote_path) f = (r, f1)" by force
  note c = open_transfer_closed [OF o]
  show ?thesis
  proof (cases r)
    case (Inr ch)
    obtain e1 sent calls1 ch' where l: "stor_loop (ftp_tls f1) progress (ftp_err f1) (length content) (take readable content) 0 (- 1) [] ch = (e1, sent, calls1, ch')"
      by (metis surj_pair)
    obtain reply f3 where rr: "read_reply (close_data ch' f1) = (reply, f3)" by force
    have "ftp_closed f3 = ftp_closed f1"
      using same_outsideD [OF read_reply_stream(1) [OF rr]] by (simp add: close_data_def)
    moreover have "f' = close_data ch' f1 \<or> f' = f3"
      using assms Some cr o Inr l rr by (auto simp: stor_def Let_def split: if_splits prod.splits)
    ultimately show ?thesis using c by (auto simp: close_data_def)
  qed (use assms Some cr o c in \<open>simp add: stor_def\<close>)
qed (use assms in \<open>simp add: stor_def\<close>)

definition agrees :: "(nat \<Rightarrow> nat \<Rightarrow> nat \<Rightarrow> bool) option \<Rightarrow> bool" where
  "agrees progress = (case progress of None \<Rightarrow> True | Some go \<Rightarrow> \<forall>i sent fsize. go i sent fsize)"

text \<open>What an upload does apart from the progress calls, as a loop of its own.\<close>

function send_pieces :: "bool \<Rightarrow> bytes \<Rightarrow> bytes \<Rightarrow> nat \<Rightarrow> channel \<Rightarrow> bytes \<times> nat \<times> channel" where
  "send_pieces tls err rest sent ch =
     (if rest = [] then ([], sent, ch)
      else
        let buf = take 65536 rest; (ok, ch') = chan_write_all tls buf ch in
        if \<not> ok then (''data write: '' @ err, sent, ch')
        else send_pieces tls err (drop 65536 rest) (sent + length buf) ch')"
  by pat_completeness auto
termination
  by (relation "measure (\<lambda>(tls, err, rest, sent, ch). length rest)") auto

declare send_pieces.simps [simp del]

lemma stor_loop_pieces:
  assumes "agrees progress"
  shows "\<exists>calls'. stor_loop tls progress err fsize rest sent last_pct calls ch =
     (let (e, sent', ch') = send_pieces tls err rest sent ch in (e, sent', calls', ch'))"
proof (induction tls err rest sent ch arbitrary: last_pct calls rule: send_pieces.induct)
  case (1 tls err rest sent ch)
  show ?case
  proof (cases "rest = []")
    case True
    then show ?thesis by (simp add: stor_loop.simps send_pieces.simps)
  next
    case False
    obtain ok c1 where w: "chan_write_all tls (take 65536 rest) ch = (ok, c1)" by force
    show ?thesis
    proof (cases ok)
      case True
      have go: "\<forall>go. progress = Some go \<longrightarrow> go i a b" for i a b using assms by (auto simp: agrees_def)
      have "send_pieces tls err rest sent ch = send_pieces tls err (drop 65536 rest) (sent + length (take 65536 rest)) c1"
        using False w True by (simp add: send_pieces.simps [of tls err rest] Let_def)
      moreover have "\<exists>lp cs. stor_loop tls progress err fsize rest sent last_pct calls ch =
          stor_loop tls progress err fsize (drop 65536 rest) (sent + length (take 65536 rest)) lp cs c1"
        using False w True go
        by (subst stor_loop.simps) (auto simp: Let_def split: option.splits)
      ultimately show ?thesis using "1.IH" [OF False refl w [symmetric]] True by fastforce
    next
      case no: False
      then show ?thesis using False w by (simp add: stor_loop.simps [of tls progress err fsize rest] send_pieces.simps [of tls err rest] Let_def)
    qed
  qed
qed

text \<open>C26: a local read that fails is not noticed. An upload of a file whose reads stop early ends, as
  long as the progress callback does not cancel it, exactly as the upload of the shorter file does:
  with the same result, the same bytes on the data connection and the same commands.\<close>

theorem short_read_unnoticed:
  assumes "agrees progress"
    and "stor (Some (content, readable)) local_path remote_path progress f = (e, calls, f')"
  shows "\<exists>calls'. stor (Some (take readable content, readable)) local_path remote_path progress f = (e, calls', f')"
proof -
  obtain r f1 where o: "open_transfer ''STOR'' (''STOR '' @ remote_path) f = (r, f1)" by force
  show ?thesis
  proof (cases r)
    case (Inl x)
    then show ?thesis using assms(2) o by (simp add: stor_def)
  next
    case (Inr ch)
    obtain e1 sent ch' where p: "send_pieces (ftp_tls f1) (ftp_err f1) (take readable content) 0 ch = (e1, sent, ch')" by (metis surj_pair)
    have l: "\<exists>cs. stor_loop (ftp_tls f1) progress (ftp_err f1) n (take readable content) 0 (- 1) [] ch = (e1, sent, cs, ch')" for n
      using stor_loop_pieces [OF assms(1), of "ftp_tls f1" "ftp_err f1" n "take readable content" 0 "- 1" "[]" ch] p by simp
    obtain cs where c1: "stor_loop (ftp_tls f1) progress (ftp_err f1) (length content) (take readable content) 0 (- 1) [] ch = (e1, sent, cs, ch')"
      using l by blast
    obtain cs2 where c2: "stor_loop (ftp_tls f1) progress (ftp_err f1) (length (take readable content)) (take readable content) 0 (- 1) [] ch = (e1, sent, cs2, ch')"
      using l by blast
    have "take readable (take readable content) = take readable content" by simp
    with assms(2) o Inr c1 c2 show ?thesis
      by (auto simp: stor_def Let_def simp del: take_take split: if_splits prod.splits)
  qed
qed



section \<open>A printer that answers\<close>

text \<open>Nothing is in the way of the next writes, and the stream holds the answers to come.\<close>

definition answering :: "bytes \<Rightarrow> ftp \<Rightarrow> bool" where
  "answering s f = ((ftp_tls f \<longrightarrow> ftp_ssl f) \<and> (\<exists>sent. ctrl_out f = Some (sent, [])) \<and> ctrl_stream f = s)"

lemma answering_cong:
  assumes "ftp_ctrl g = ftp_ctrl f" "ftp_tls g = ftp_tls f" "ftp_ssl g = ftp_ssl f" "ftp_buf g = ftp_buf f"
  shows "answering s g \<longleftrightarrow> answering s f"
  by (cases "ftp_ctrl f") (simp_all add: assms answering_def ctrl_out_def ctrl_stream_def ctrl_rest_def)

lemma chan_write_free: "ch_wr ch = [] \<Longrightarrow> chan_write_all tls buf ch = (True, if buf = [] then ch else ch\<lparr>ch_tx := ch_tx ch @ buf\<rparr>)"
  by (simp add: chan_write_all.simps)

lemma read_reply_answering:
  assumes "answering (reply_bytes ls @ s) f" and "reply_ok ls"
  obtains f' where "read_reply f = (Some (reply_of ls), f')" "answering s f'" "same_outside f f'"
proof -
  obtain x f' where r: "read_reply f = (x, f')" by force
  have t: "take_reply (ctrl_stream f) = Some (ls, s)"
    using assms take_reply_frame by (simp add: answering_def)
  show ?thesis
    using that [of f'] read_reply_stream [OF r] t r assms(1) same_outsideD [OF read_reply_stream(1) [OF r]]
    by (simp add: answering_def)
qed

lemma send_cmd_answering:
  assumes "answering (reply_bytes ls @ s) f" and "reply_ok ls"
  obtains f' where "send_cmd cmd f = (reply_of ls, f')" "answering s f'" "same_outside f f'"
proof -
  obtain ch where ch: "ftp_ctrl f = Some ch" "ch_wr ch = []" using assms(1) by (auto simp: answering_def ctrl_out_def)
  let ?ch = "ch\<lparr>ch_tx := ch_tx ch @ cmd @ [CR, LF]\<rparr>"
  let ?f = "f\<lparr>ftp_ctrl := Some ?ch\<rparr>"
  have w: "ctrl_write (cmd @ [CR, LF]) f = (True, ?f)"
    using ch assms(1) by (auto simp: ctrl_write_def chan_write_free answering_def)
  have "answering (reply_bytes ls @ s) ?f"
    using assms(1) ch by (cases "ftp_tls f"; cases "ftp_ssl f") (simp_all add: answering_def ctrl_out_def ctrl_stream_def ctrl_rest_def)
  then obtain f' where r: "read_reply ?f = (Some (reply_of ls), f')" "answering s f'" "same_outside ?f f'"
    using read_reply_answering [OF _ assms(2)] by metis
  have "same_outside f ?f" by (simp add: same_outside_def)
  then show ?thesis
    using that [of f'] w r same_outside_trans [of f ?f f'] by (simp add: send_cmd_def reply_of_def)
qed

lemma stor_loop_free:
  "ch_wr ch = [] \<Longrightarrow> send_pieces tls err rest sent ch =
     ([], sent + length rest, if rest = [] then ch else ch\<lparr>ch_tx := ch_tx ch @ rest\<rparr>)"
proof (induction tls err rest sent ch rule: send_pieces.induct)
  case (1 tls err rest sent ch)
  show ?case
  proof (cases "rest = []")
    case False
    let ?buf = "take 65536 rest" and ?c = "ch\<lparr>ch_tx := ch_tx ch @ take 65536 rest\<rparr>"
    have w: "chan_write_all tls ?buf ch = (True, ?c)" using "1.prems" False by (simp add: chan_write_free)
    show ?thesis
      using "1.IH" [OF False refl w [symmetric]] "1.prems" False w
      by (subst send_pieces.simps) (auto simp: Let_def)
  qed (simp add: send_pieces.simps)
qed

text \<open>A data connection comes up when the printer answers \<open>227\<close> with an address and \<open>150\<close>.\<close>

lemma open_transfer_answering:
  assumes "answering (reply_bytes pasv @ reply_bytes opening @ s) f"
    and "reply_ok pasv" and "reply_of pasv = (227, body)" and "pasv_address body = Inr addr" and "pasv_port addr = Inr port"
    and "reply_ok opening" and "fst (reply_of opening) = 150"
    and "ftp_dials f = d # ds" and "dd_tcp d = Inr ch"
    and "ftp_tls f \<longrightarrow> dd_ssl d \<and> drive_ssl (dd_handshake d)"
  obtains f' where "open_transfer verb cmd f = (Inr ch, f')" "answering s f'" "ftp_tls f' = ftp_tls f"
proof -
  obtain o_body where code: "reply_of opening = (150, o_body)" using assms(7) by (metis prod.collapse)
  obtain f1 where f1: "send_cmd ''PASV'' f = ((227, body), f1)" "answering (reply_bytes opening @ s) f1"
    "same_outside f f1"
    using send_cmd_answering [OF assms(1,2)] assms(3) by metis
  let ?g = "f1\<lparr>ftp_ports := ftp_ports f1 @ [port], ftp_dials := ds\<rparr>"
  have dial: "open_data_tcp f = (Inr (d, ch), ?g)"
    using f1 assms(4,5,8,9) same_outsideD [OF f1(3)] by (simp add: open_data_tcp_def dial_data_def Let_def)
  have "answering (reply_bytes opening @ s) ?g" using f1(2) answering_cong [of ?g f1] by simp
  then obtain f2 where f2: "send_cmd cmd ?g = ((150, o_body), f2)" "answering s f2" "same_outside ?g f2"
    using send_cmd_answering [OF _ assms(6)] code by metis
  have "open_transfer verb cmd f = (Inr ch, f2)"
    using dial f2 assms(10) same_outsideD [OF f2(3)] same_outsideD [OF f1(3)]
    by (simp add: open_transfer_def wrap_data_tls_def Let_def)
  moreover have "ftp_tls f2 = ftp_tls f" using same_outsideD [OF f2(3)] same_outsideD [OF f1(3)] by simp
  ultimately show ?thesis using that f2(2) by blast
qed

text \<open>
  An upload arrives: when the printer answers the three commands with \<open>227\<close> and an address,
  \<open>150\<close> and \<open>226\<close>, in whatever pieces, the data connection comes up and accepts what is written,
  and nobody cancels, then \<open>stor\<close> succeeds.
\<close>

lemma stor_completes:
  assumes "answering (reply_bytes pasv @ reply_bytes opening @ reply_bytes closing @ s) f"
    and "reply_ok pasv" and "reply_of pasv = (227, body)" and "pasv_address body = Inr addr" and "pasv_port addr = Inr port"
    and "reply_ok opening" and "fst (reply_of opening) = 150"
    and "reply_ok closing" and "fst (reply_of closing) = 226"
    and "ftp_dials f = d # ds" and "dd_tcp d = Inr ch" and "ch_wr ch = []"
    and "ftp_tls f \<longrightarrow> dd_ssl d \<and> drive_ssl (dd_handshake d)" and "agrees progress"
  shows "\<exists>calls f'. stor (Some (content, readable)) local_path remote_path progress f = ([], calls, f') \<and> answering s f'"
proof -
  obtain c_body where code: "reply_of closing = (226, c_body)" using assms(9) by (metis prod.collapse)
  obtain f2 where tr: "open_transfer ''STOR'' (''STOR '' @ remote_path) f = (Inr ch, f2)"
    and f2: "answering (reply_bytes closing @ s) f2"
    using open_transfer_answering [OF assms(1-7,10,11,13)] by metis
  define ch' where "ch' = (if take readable content = [] then ch else ch\<lparr>ch_tx := ch_tx ch @ take readable content\<rparr>)"
  obtain calls where l: "stor_loop (ftp_tls f2) progress (ftp_err f2) (length content) (take readable content) 0 (- 1) [] ch =
      ([], length (take readable content), calls, ch')"
    using stor_loop_pieces [OF assms(14), of "ftp_tls f2" "ftp_err f2" "length content" "take readable content" 0 "- 1" "[]" ch]
      stor_loop_free [OF assms(12)] by (auto simp: ch'_def)
  have "answering (reply_bytes closing @ s) (close_data ch' f2)"
    using f2 answering_cong [of "close_data ch' f2" f2] by (simp add: close_data_def)
  then obtain f3 where f3: "read_reply (close_data ch' f2) = (Some (226, c_body), f3)" "answering s f3"
    using read_reply_answering [OF _ assms(8)] code by metis
  have "\<exists>calls'. stor (Some (content, readable)) local_path remote_path progress f = ([], calls', f3)"
    using tr l f3(1) by (simp add: stor_def Let_def)
  then show ?thesis using f3(2) by blast
qed

text \<open>Commands that get the answer they need, and a login that gets all of them.\<close>

lemma must_answer_answering:
  assumes "answering (reply_bytes ls @ s) f" and "reply_ok ls" and "fst (reply_of ls) \<in> set codes"
  obtains f' where "must_answer codes cmd what f = ([], f')" "answering s f'" "same_outside f f'"
proof -
  obtain f' where "send_cmd cmd f = (reply_of ls, f')" "answering s f'" "same_outside f f'"
    using send_cmd_answering [OF assms(1,2)] by metis
  then show ?thesis using that assms(3) by (cases "reply_of ls") (simp add: must_answer_def)
qed

definition answers :: "int list \<Rightarrow> bytes list list \<Rightarrow> bool" where
  "answers codes rs = list_all2 (\<lambda>c ls. reply_ok ls \<and> fst (reply_of ls) = c) codes rs"

abbreviation replies_text :: "bytes list list \<Rightarrow> bytes" where
  "replies_text rs \<equiv> concat (map reply_bytes rs)"

definition login_codes :: "bool \<Rightarrow> int list" where
  "login_codes tls = [331, 230, 200] @ (if tls then [200, 200] else [])"

lemma login_answering:
  assumes "answering (replies_text rs @ s) f" and "answers (login_codes (ftp_tls f)) rs"
  obtains f' where "login cfg f = ([], f')" "answering s f'" "same_outside f f'"
proof -
  obtain u pw ty zs where rs: "rs = [u, pw, ty] @ zs" and ok: "reply_ok u" "reply_ok pw" "reply_ok ty"
    and c: "fst (reply_of u) = 331" "fst (reply_of pw) = 230" "fst (reply_of ty) = 200"
    and zs: "answers (if ftp_tls f then [200, 200] else []) zs"
    using assms(2) by (auto simp: answers_def login_codes_def list_all2_Cons1 list_all2_append1)
  have a: "answering (reply_bytes u @ reply_bytes pw @ reply_bytes ty @ replies_text zs @ s) f" using assms(1) rs by simp
  obtain f1 where f1: "send_cmd (''USER '' @ fcf_username cfg) f = (reply_of u, f1)"
    "answering (reply_bytes pw @ reply_bytes ty @ replies_text zs @ s) f1" "same_outside f f1"
    using send_cmd_answering [OF a ok(1)] by metis
  obtain f2 where f2: "must_answer [230] (''PASS '' @ fcf_password cfg) ''PASS'' f1 = ([], f2)"
    "answering (reply_bytes ty @ replies_text zs @ s) f2" "same_outside f1 f2"
    using must_answer_answering [OF f1(2) ok(2), of "[230]"] c(2) by (metis list.set_intros(1))
  obtain f3 where f3: "must_answer [200] ''TYPE I'' ''TYPE I'' f2 = ([], f3)" "answering (replies_text zs @ s) f3" "same_outside f2 f3"
    using must_answer_answering [OF f2(2) ok(3), of "[200]"] c(3) by (metis list.set_intros(1))
  have lp: "login_password cfg f = ([], f2)" using f1 f2 c(1) by (cases "reply_of u") (simp add: login_password_def)
  have o3: "same_outside f f3" using f1(3) f2(3) f3(3) same_outside_trans by blast
  have tls: "ftp_tls f3 = ftp_tls f" using same_outsideD [OF o3] by simp
  show ?thesis
  proof (cases "ftp_tls f")
    case False
    then show ?thesis using that [of f3] lp f3 o3 tls zs by (simp add: login_def answers_def)
  next
    case True
    obtain z q where z: "zs = [z, q]" "reply_ok z" "reply_ok q" "fst (reply_of z) = 200" "fst (reply_of q) = 200"
      using zs True by (auto simp: answers_def list_all2_Cons1)
    obtain f4 where f4: "must_answer [200] ''PBSZ 0'' ''PBSZ'' f3 = ([], f4)" "answering (reply_bytes q @ s) f4" "same_outside f3 f4"
      using must_answer_answering [OF _ z(2), of "reply_bytes q @ s" f3 "[200]"] f3(2) z by auto
    obtain f5 where f5: "must_answer [200] ''PROT P'' ''PROT P'' f4 = ([], f5)" "answering s f5" "same_outside f4 f5"
      using must_answer_answering [OF f4(2) z(3), of "[200]"] z(5) by (metis list.set_intros(1))
    have "same_outside f f5" using o3 f4(3) f5(3) same_outside_trans by blast
    then show ?thesis using that [of f5] lp f3 f4 f5 tls True by (simp add: login_def)
  qed
qed



section \<open>Connecting\<close>

definition tls_checked :: "tls_env \<Rightarrow> ftp_config \<Rightarrow> process \<Rightarrow> bool" where
  "tls_checked te cfg p =
     (fcf_verify_hostname cfg \<noteq> [] \<and> fcf_ca_file cfg \<noteq> [] \<and> drive_ssl (te_handshake te) \<and> te_name te (fcf_verify_hostname cfg) = None \<and>
      te_setup te (fcf_ca_file cfg) (case fst (peer_cert_path_for_ip (fcf_host cfg) p) of None \<Rightarrow> [] | Some path \<Rightarrow> path) = None)"

lemma ctrl_handshake_ctrl: "ctrl_handshake s te cfg f p = (e, f', p') \<Longrightarrow> ftp_ctrl f' = ftp_ctrl f \<and> ftp_tls f' = ftp_tls f"
  by (auto simp: ctrl_handshake_def Let_def split: if_splits prod.splits option.splits)

lemma ctrl_handshake_checked:
  assumes "ctrl_handshake s te cfg f p = ([], f', p')" and "verify_enabled s p"
  shows "tls_checked te cfg p"
proof -
  have n: "fcf_verify_hostname cfg \<noteq> []" using assms by (auto simp: ctrl_handshake_def)
  then have w: "want_verify s p cfg" using assms(2) by (simp add: want_verify_def)
  then show ?thesis
    using assms n by (auto simp: ctrl_handshake_def tls_checked_def Let_def split: if_splits prod.splits option.splits)
qed

definition tls_up :: "settings \<Rightarrow> tls_env \<Rightarrow> ftp_config \<Rightarrow> process \<Rightarrow> bool" where
  "tls_up s te cfg p =
     (te_ctx te \<and> te_ssl te \<and> drive_ssl (te_handshake te) \<and> (verify_enabled s p \<longrightarrow> tls_checked te cfg p))"

lemma ctrl_handshake_up:
  assumes "tls_up s te cfg p"
  shows "\<exists>p'. ctrl_handshake s te cfg f p = ([], f\<lparr>ftp_ctx := True, ftp_ssl := True\<rparr>, p')"
proof (cases "verify_enabled s p")
  case True
  then show ?thesis
    using assms by (auto simp: tls_up_def tls_checked_def ctrl_handshake_def want_verify_def Let_def split: prod.splits)
next
  case False
  then show ?thesis using assms by (simp add: tls_up_def ctrl_handshake_def want_verify_def Let_def)
qed

lemma ftp_connect_answering:
  assumes "ch_wr ch = []" and "chan_incoming (fcf_use_tls cfg) (ch_rd ch) = replies_text (banner # rs) @ rest"
    and "reply_ok banner" and "fst (reply_of banner) = 220" and "answers (login_codes (fcf_use_tls cfg)) rs"
    and "fcf_use_tls cfg \<longrightarrow> tls_up s te cfg p"
  obtains f' p' where "ftp_connect s (Inr ch) te cfg f p = ([], f', p')" "answering rest f'" "ftp_tls f' = fcf_use_tls cfg"
    "ftp_dials f' = ftp_dials f"
proof -
  let ?f = "f\<lparr>ftp_host := fcf_host cfg, ftp_verify := fcf_verify_hostname cfg, ftp_tls := fcf_use_tls cfg, ftp_buf := [], ftp_ctrl := Some ch\<rparr>"
  obtain f3 ph where h: "(if fcf_use_tls cfg then ctrl_handshake s te cfg ?f p else ([], ?f, p)) = ([], f3, ph)"
    "f3 = (if fcf_use_tls cfg then ?f\<lparr>ftp_ctx := True, ftp_ssl := True\<rparr> else ?f)"
    using ctrl_handshake_up [of s te cfg p ?f] assms(6) by (cases "fcf_use_tls cfg") auto
  have a: "answering (reply_bytes banner @ replies_text rs @ rest) f3"
    using h(2) assms(1,2) by (auto simp: answering_def ctrl_out_def ctrl_stream_def ctrl_rest_def)
  have f3: "ftp_tls f3 = fcf_use_tls cfg" "ftp_dials f3 = ftp_dials f" using h(2) by simp_all
  obtain f4 where f4: "read_reply f3 = (Some (reply_of banner), f4)" "answering (replies_text rs @ rest) f4" "same_outside f3 f4"
    using read_reply_answering [OF a assms(3)] by metis
  have o4: "ftp_tls f4 = fcf_use_tls cfg" "ftp_dials f4 = ftp_dials f" using same_outsideD [OF f4(3)] f3 by simp_all
  obtain f5 where f5: "login cfg f4 = ([], f5)" "answering rest f5" "same_outside f4 f5"
    using login_answering [OF f4(2), where cfg = cfg] assms(5) unfolding o4(1) by blast
  have "connect_transport s (Inr ch) te cfg f p = ([], f4, ph)"
    using h(1) f4(1) assms(4) by (cases "reply_of banner") (simp add: connect_transport_def)
  then have "ftp_connect s (Inr ch) te cfg f p = ([], f5, ph)" using f5(1) by (simp add: ftp_connect_def)
  then show ?thesis using that f5 same_outsideD [OF f5(3)] o4 by simp
qed

lemma must_answer_facts:
  assumes "must_answer codes cmd what f = (e, f')" and "- 1 \<notin> set codes"
  shows "same_outside f f'" and "e = [] \<Longrightarrow> ctrl_tx f' = ctrl_tx f @ cmd @ [CR, LF]"
proof -
  obtain code body where s: "send_cmd cmd f = ((code, body), f')"
    using assms(1) by (auto simp: must_answer_def split: prod.splits)
  show "same_outside f f'" by (rule send_cmd_facts(1) [OF s])
  show "ctrl_tx f' = ctrl_tx f @ cmd @ [CR, LF]" if "e = []"
    using send_cmd_facts(2) [OF s] assms s that by (auto simp: must_answer_def split: if_splits)
qed

definition login_bytes :: "ftp_config \<Rightarrow> bytes list" where
  "login_bytes cfg =
     (let user = ''USER '' @ fcf_username cfg @ [CR, LF]; pass = ''PASS '' @ fcf_password cfg @ [CR, LF];
          rest = ''TYPE I'' @ [CR, LF] @ (if fcf_use_tls cfg then ''PBSZ 0'' @ [CR, LF] @ ''PROT P'' @ [CR, LF] else []) in
      [user @ pass @ rest, user @ rest])"

lemma login_password_ok:
  assumes "login_password cfg f = ([], f')"
  shows "same_outside f f'" and "ctrl_tx f' = ctrl_tx f @ ''USER '' @ fcf_username cfg @ [CR, LF] \<or>
    ctrl_tx f' = ctrl_tx f @ ''USER '' @ fcf_username cfg @ [CR, LF] @ ''PASS '' @ fcf_password cfg @ [CR, LF]"
proof -
  obtain code body f1 where s: "send_cmd (''USER '' @ fcf_username cfg) f = ((code, body), f1)" by (metis surj_pair)
  note u = send_cmd_facts [OF s]
  show "same_outside f f'"
    using assms s u(1) must_answer_facts(1) same_outside_trans
    by (fastforce simp: login_password_def split: if_splits)
  show "ctrl_tx f' = ctrl_tx f @ ''USER '' @ fcf_username cfg @ [CR, LF] \<or>
    ctrl_tx f' = ctrl_tx f @ ''USER '' @ fcf_username cfg @ [CR, LF] @ ''PASS '' @ fcf_password cfg @ [CR, LF]"
  proof (cases "code = 331")
    case True
    then show ?thesis
      using assms s u(2) must_answer_facts(2) [of "[230]" "''PASS '' @ fcf_password cfg" "''PASS''" f1 "[]" f']
      by (simp add: login_password_def)
  next
    case False
    then show ?thesis using assms s u(2) by (simp add: login_password_def split: if_splits)
  qed
qed

lemma login_ok:
  assumes "login cfg f = ([], f')" and "ftp_tls f = fcf_use_tls cfg"
  shows "\<exists>cmds \<in> set (login_bytes cfg). ctrl_tx f' = ctrl_tx f @ cmds"
proof -
  obtain f1 where p: "login_password cfg f = ([], f1)"
    using assms(1) by (auto simp: login_def split: prod.splits if_splits)
  obtain f2 where t: "must_answer [200] ''TYPE I'' ''TYPE I'' f1 = ([], f2)"
    using assms(1) p by (auto simp: login_def split: prod.splits if_splits)
  note lp = login_password_ok [OF p] and ty = must_answer_facts [OF t, simplified]
  have tls: "ftp_tls f2 = fcf_use_tls cfg"
    using same_outsideD [OF lp(1)] same_outsideD [OF ty(1)] assms(2) by simp
  show ?thesis
  proof (cases "fcf_use_tls cfg")
    case True
    obtain f3 where z: "must_answer [200] ''PBSZ 0'' ''PBSZ'' f2 = ([], f3)" "must_answer [200] ''PROT P'' ''PROT P'' f3 = ([], f')"
      using assms(1) p t tls True by (auto simp: login_def split: prod.splits if_splits)
    show ?thesis
      using lp(2) ty(2) must_answer_facts(2) [OF z(1), simplified] must_answer_facts(2) [OF z(2), simplified] True
      by (auto simp: login_bytes_def Let_def)
  next
    case False
    then have "f' = f2" using assms(1) p t tls by (auto simp: login_def)
    then show ?thesis using lp(2) ty(2) False by (auto simp: login_bytes_def Let_def)
  qed
qed

text \<open>C24: the access code goes only to the checked printer. With TLS and the certificate check on,
  nothing is written to the control connection (neither user name nor access code) unless the trust
  store was set up from the CA file, the handshake succeeded and the certificate carries the
  printer's serial; and a successful connect has sent exactly the login commands.\<close>

theorem ftp_connect_verified:
  assumes "ftp_connect s (Inr ch) te cfg f p = (e, f', p')" and "fcf_use_tls cfg" and "verify_enabled s p" and "ch_tx ch = []"
  shows "(ctrl_tx f' \<noteq> [] \<longrightarrow> tls_checked te cfg p) \<and> (e = [] \<longrightarrow> ctrl_tx f' \<in> set (login_bytes cfg))"
proof -
  let ?f = "f\<lparr>ftp_host := fcf_host cfg, ftp_verify := fcf_verify_hostname cfg, ftp_tls := True, ftp_buf := [], ftp_ctrl := Some ch\<rparr>"
  obtain eh f3 ph where h: "ctrl_handshake s te cfg ?f p = (eh, f3, ph)" by (metis surj_pair)
  have c3: "ctrl_tx f3 = []" "ftp_tls f3" using ctrl_handshake_ctrl [OF h] assms(4) by (simp_all add: ctrl_tx_def ctrl_out_def)
  obtain r f4 where r: "read_reply f3 = (r, f4)" by force
  obtain code banner where code: "(case r of None \<Rightarrow> (- 1, []) | Some x \<Rightarrow> x) = (code, banner)" by force
  have c4: "ctrl_tx f4 = []" "ftp_tls f4"
    using read_reply_stream(1,2) [OF r] c3 same_outsideD [of f3 f4] by (simp_all add: ctrl_tx_def)
  obtain et where t: "connect_transport s (Inr ch) te cfg f p = (et, if eh = [] then f4 else f3, ph)" "eh \<noteq> [] \<longrightarrow> et = eh"
  proof (cases "eh = []")
    case True
    then show ?thesis using that assms(2) h r code by (simp add: connect_transport_def)
  next
    case False
    then show ?thesis using that [of eh] assms(2) h by (simp add: connect_transport_def)
  qed
  show ?thesis
  proof (cases "et = []")
    case True
    then have eh: "eh = []" using t(2) by auto
    then have l: "login cfg f4 = (e, f')" using assms(1) t True by (simp add: ftp_connect_def split: prod.splits)
    have "tls_checked te cfg p" using ctrl_handshake_checked h eh assms(3) by blast
    moreover have "e = [] \<longrightarrow> ctrl_tx f' \<in> set (login_bytes cfg)"
      using login_ok [of cfg f4 f'] l c4 assms(2) by auto
    ultimately show ?thesis by blast
  next
    case False
    then have "f' = (if eh = [] then f4 else f3)" "e \<noteq> []" using assms(1) t(1) by (auto simp: ftp_connect_def)
    then show ?thesis using c3 c4 by simp
  qed
qed

section \<open>Witnesses\<close>

definition tiny_dial :: data_dial where
  "tiny_dial = \<lparr>dd_tcp = Inr \<lparr>ch_rd = [], ch_wr = [], ch_tx = []\<rparr>, dd_ssl = True, dd_handshake = [Hs_want True, Hs_done]\<rparr>"

definition tiny_tls :: tls_env where
  "tiny_tls = \<lparr>te_ctx = True, te_setup = (\<lambda>_ _. None), te_ssl = True, te_handshake = [Hs_done], te_name = (\<lambda>_. None)\<rparr>"

definition tiny_config :: ftp_config where
  "tiny_config = \<lparr>fcf_host = ''h'', fcf_port = 990, fcf_username = ''u'', fcf_password = ''p'', fcf_use_tls = True,
     fcf_verify_hostname = ''S1'', fcf_ca_file = ''ca''\<rparr>"

definition tiny_replies :: "bytes list list" where
  "tiny_replies = [[''220 ''], [''331 ''], [''230 ''], [''200 ''], [''200 ''], [''200 '']]"

lemma tiny_answers: "answers (login_codes True) (tl tiny_replies)" "reply_ok (hd tiny_replies)" "fst (reply_of (hd tiny_replies)) = 220"
  by (simp_all add: tiny_replies_def answers_def login_codes_def reply_ok_def final_line_def reply_value)

definition tiny_channel :: "bytes \<Rightarrow> channel" where
  "tiny_channel s = \<lparr>ch_rd = [Rd_bytes (replies_text tiny_replies @ s)], ch_wr = [], ch_tx = []\<rparr>"

lemma tiny_connect:
  "\<exists>f' p'. ftp_connect default_settings (Inr (tiny_channel s)) tiny_tls tiny_config (new_ftp [] ds) quiet_process = ([], f', p') \<and>
     answering s f' \<and> ftp_tls f' \<and> ftp_dials f' = ds"
proof -
  have tls: "fcf_use_tls tiny_config = True" by (simp add: tiny_config_def)
  have w: "ch_wr (tiny_channel s) = []" by (simp add: tiny_channel_def)
  have i: "chan_incoming True (ch_rd (tiny_channel s)) = replies_text (hd tiny_replies # tl tiny_replies) @ s"
    by (simp add: tiny_channel_def tiny_replies_def reply_bytes_def)
  have u: "True \<longrightarrow> tls_up default_settings tiny_tls tiny_config quiet_process"
    by (simp add: tls_up_def tls_checked_def tiny_tls_def tiny_config_def)
  have d: "ftp_dials (new_ftp [] ds) = ds" by (simp add: new_ftp_def)
  show ?thesis
    using ftp_connect_answering [where cfg = tiny_config, unfolded tls, OF w i tiny_answers(2,3,1) u, of "new_ftp [] ds"]
    unfolding d by blast
qed

theorem ftp_connect_verified_witness:
  "\<exists>f' p'. ftp_connect default_settings (Inr (tiny_channel [])) tiny_tls tiny_config (new_ftp [] []) quiet_process = ([], f', p') \<and>
     ctrl_tx f' \<in> set (login_bytes tiny_config)"
proof -
  obtain f' p' where c: "ftp_connect default_settings (Inr (tiny_channel [])) tiny_tls tiny_config (new_ftp [] []) quiet_process = ([], f', p')"
    using tiny_connect by blast
  have "fcf_use_tls tiny_config" "ch_tx (tiny_channel []) = []" by (simp_all add: tiny_config_def tiny_channel_def)
  with ftp_connect_verified [OF c _ quiet_verify] c show ?thesis by blast
qed

definition pasv_line :: bytes where
  "pasv_line = ''227 (10,0,0,2,4,1)''"

lemma pasv_line_ok: "reply_ok [pasv_line]" "reply_of [pasv_line] = (227, pasv_line)"
  by (simp_all add: pasv_line_def reply_ok_def final_line_def reply_value)

lemma pasv_line_address: "pasv_address pasv_line = Inr ''10,0,0,2,4,1''"
  by (simp add: pasv_line_def pasv_address_def eval_nat_numeral)

lemma pasv_line_port: "pasv_port ''10,0,0,2,4,1'' = Inr 1025"
  by (simp add: pasv_port_def scan_int_def scan_char_def c_str_def reply_value)

lemmas pasv_line_facts = pasv_line_ok pasv_line_address pasv_line_port

theorem short_read_unnoticed_witness:
  "\<exists>f calls calls' f'. stor (Some (''DATA'', 2)) ''/m'' ''/r'' None f = ([], calls, f') \<and>
     stor (Some (''DA'', 2)) ''/m'' ''/r'' None f = ([], calls', f')"
proof -
  let ?s = "reply_bytes [pasv_line] @ reply_bytes [''150 ''] @ reply_bytes [''226 ''] @ []"
  obtain f where f: "answering ?s f" "ftp_dials f = [tiny_dial]" using tiny_connect [of ?s "[tiny_dial]"] by blast
  have ok: "reply_ok [''150 '']" "fst (reply_of [''150 '']) = 150" "reply_ok [''226 '']" "fst (reply_of [''226 '']) = 226"
    by (simp_all add: reply_ok_def final_line_def reply_value)
  have ag: "agrees None" by (simp add: agrees_def)
  obtain calls f' where st: "stor (Some (''DATA'', 2)) ''/m'' ''/r'' None f = ([], calls, f')"
    using stor_completes [OF f(1) pasv_line_facts ok f(2), of "\<lparr>ch_rd = [], ch_wr = [], ch_tx = []\<rparr>" None "''DATA''" 2 "''/m''" "''/r''"] ag
    by (auto simp: tiny_dial_def)
  from short_read_unnoticed [OF ag st] st show ?thesis by (simp add: eval_nat_numeral) blast
qed

end
