(* ===== verification/Print_Job.thy ===== *)
theory Print_Job
  imports Ftp_Laws Agent_Lan Tunnel_Connection
begin

text \<open>
  Printing over the LAN: the names and paths of \<open>src/print_job_naming.cpp\<close>, the upload over
  FTP, the \<open>project_file\<close> command and the three jobs of \<open>src/print_job.cpp\<close>.

  The parameters of a job are those of \<open>BBL::PrintParams\<close>. Its environment holds the clock,
  the local file, what the connections do, and the answers of Studio's cancel callback: at the
  first poll, at the polls during the upload, at the poll after it. The calls of Studio's update
  callback are part of the result; when Studio passes none, nothing else changes. \<open>abi\<close> is
  the macro \<open>ABI_VERSION\<close>.
\<close>

section \<open>Parameters\<close>

record print_params =
  pp_dev_id :: bytes
  pp_task_name :: bytes
  pp_project_name :: bytes
  pp_filename :: bytes
  pp_config_filename :: bytes
  pp_plate_index :: int
  pp_ftp_folder :: bytes
  pp_ftp_file_md5 :: bytes
  pp_nozzle_mapping :: bytes
  pp_ams_mapping :: bytes
  pp_ams_mapping2 :: bytes
  pp_ams_mapping_info :: bytes
  pp_nozzles_info :: bytes
  pp_origin_profile_id :: int
  pp_origin_model_id :: bytes
  pp_dst_file :: bytes
  pp_dev_ip :: bytes
  pp_use_ssl_for_ftp :: bool
  pp_username :: bytes
  pp_password :: bytes
  pp_bed_leveling :: bool
  pp_flow_cali :: bool
  pp_vibration_cali :: bool
  pp_layer_inspect :: bool
  pp_record_timelapse :: bool
  pp_timelapse_internal :: bool
  pp_use_ams :: bool
  pp_bed_type :: bytes
  pp_auto_bed_leveling :: int
  pp_auto_flow_cali :: int
  pp_auto_offset_cali :: int
  pp_extruder_cali_manual :: int
  pp_try_emmc_print :: bool

datatype job_stage = Stage_create | Stage_upload | Stage_waiting | Stage_sending | Stage_record
  | Stage_wait_printer | Stage_finished | Stage_error

type_synonym update = "job_stage \<times> int \<times> bytes"

definition net_err_file_not_exist :: int where "net_err_file_not_exist = - 14"
definition net_err_canceled :: int where "net_err_canceled = - 18"
definition net_err_lp_file_over_size :: int where "net_err_lp_file_over_size = - 4010"
definition net_err_lp_upload_ftp_failed :: int where "net_err_lp_upload_ftp_failed = - 4020"
definition net_err_lp_publish_failed :: int where "net_err_lp_publish_failed = - 4030"
definition net_err_sg_upload_ftp_failed :: int where "net_err_sg_upload_ftp_failed = - 5010"
definition net_err_connection_to_printer :: int where "net_err_connection_to_printer = - 6010"

lemmas job_codes = net_err_file_not_exist_def net_err_canceled_def net_err_lp_file_over_size_def
  net_err_lp_upload_ftp_failed_def net_err_lp_publish_failed_def net_err_sg_upload_ftp_failed_def
  net_err_connection_to_printer_def

section \<open>Names\<close>

text \<open>The part after the last slash or backslash.\<close>

definition basename_of :: "bytes \<Rightarrow> bytes" where
  "basename_of path = rev (takeWhile (\<lambda>c. c \<noteq> SLASH \<and> c \<noteq> BSLASH) (rev path))"

definition sanitize_char :: "char \<Rightarrow> char" where
  "sanitize_char c = (if code_of c < (0x20 :: nat) \<or> c = SLASH \<or> c = BSLASH then CHR ''_'' else c)"

definition sanitize_remote_name :: "bytes \<Rightarrow> bytes" where
  "sanitize_remote_name name =
     map sanitize_char (rtrim_by (\<lambda>c. c = BLANK \<or> c = CHR ''.'')
       (ltrim_by (\<lambda>c. c = CHR ''.'' \<or> c = SLASH \<or> c = BSLASH \<or> c = BLANK) name))"

definition strip_3mf_extension :: "bytes \<Rightarrow> bytes" where
  "strip_3mf_extension name =
     (if ends_with ''.gcode.3mf'' name then take (length name - 10) name
      else if ends_with ''.3mf'' name then take (length name - 4) name else name)"

definition pick_remote_name :: "print_params \<Rightarrow> bytes" where
  "pick_remote_name p =
     (let project = strip_3mf_extension (sanitize_remote_name
            (if pp_project_name p = [] then pp_task_name p else pp_project_name p)) in
      if project \<noteq> [] then project @ ''.gcode.3mf''
      else
        let name = sanitize_remote_name (basename_of (pp_filename p)) in
        if name \<noteq> [] then name else ''print.gcode.3mf'')"

definition dest_name_for_send_gcode :: "print_params \<Rightarrow> bytes" where
  "dest_name_for_send_gcode p = (if pp_project_name p = [] then [] else sanitize_remote_name (pp_project_name p))"

definition strip_leading_slash :: "bytes \<Rightarrow> bytes" where
  "strip_leading_slash s = (if s \<noteq> [] \<and> hd s = SLASH then tl s else s)"

definition build_brtc_emmc_url :: "bytes \<Rightarrow> bytes" where
  "build_brtc_emmc_url name = ''brtc://emmc/'' @ strip_leading_slash name"

definition build_file_url :: "bytes \<Rightarrow> bytes" where
  "build_file_url path = ''file://'' @ (if path = [] \<or> hd path \<noteq> SLASH then SLASH # path else path)"

definition build_ftp_url :: "bytes \<Rightarrow> bytes" where
  "build_ftp_url path = ''ftp://'' @ strip_leading_slash path"

text \<open>The remote path of a job: the folder with one slash at its end and none at its start.\<close>

definition remote_path_for :: "print_params \<Rightarrow> bytes \<Rightarrow> bytes" where
  "remote_path_for p name =
     (let f1 = (if pp_ftp_folder p \<noteq> [] \<and> last (pp_ftp_folder p) \<noteq> SLASH then pp_ftp_folder p @ [SLASH] else pp_ftp_folder p);
          f2 = (if f1 \<noteq> [] \<and> hd f1 = SLASH then tl f1 else f1) in
      SLASH # f2 @ name)"

section \<open>The upload over FTP\<close>

definition path_under :: "bytes \<Rightarrow> bytes \<Rightarrow> bool" where
  "path_under path pre = (length pre + 1 < length path \<and> starts_with pre path \<and> path ! length pre = SLASH)"

fun probe_storage :: "bytes list \<Rightarrow> ftp \<Rightarrow> bytes option \<times> ftp" where
  "probe_storage [] f = (None, f)"
| "probe_storage (cand # cands) f =
     (let (e, f') = cwd cand f in if e \<noteq> [] then probe_storage cands f' else (Some cand, f'))"

definition adjust_storage_path :: "bytes \<Rightarrow> ftp \<Rightarrow> bytes \<times> ftp" where
  "adjust_storage_path remote_path f =
     (let under_sdcard = path_under remote_path ''/sdcard''; under_usb = path_under remote_path ''/usb'';
          filename = (case find_char SLASH (drop 1 remote_path) of None \<Rightarrow> [] | Some i \<Rightarrow> drop (i + 2) remote_path) in
      if \<not> under_sdcard \<and> \<not> under_usb \<or> filename = [] then (remote_path, f)
      else
        case probe_storage (if under_sdcard then [''/sdcard'', ''/usb'', ''/''] else [''/usb'', ''/sdcard'', ''/'']) f of
          (None, f') \<Rightarrow> (remote_path, f')
        | (Some cand, f') \<Rightarrow> (if cand = ''/'' then SLASH # filename else cand @ SLASH # filename, f'))"

record job_env =
  je_now :: int
  je_stat :: "nat option"                       \<comment> \<open>the size of the local file\<close>
  je_file :: "(bytes \<times> nat) option"            \<comment> \<open>the local file as reads deliver it\<close>
  je_tcp :: "bytes + channel"
  je_tls :: tls_env
  je_dials :: "data_dial list"
  je_err :: bytes
  je_tunnel :: "bytes + conn"
  je_uuid :: bytes
  je_version :: bytes
  je_seed :: u32
  je_first :: bool
  je_during :: "nat \<Rightarrow> bool"
  je_late :: bool

definition ftp_config_for :: "print_params \<Rightarrow> bytes \<Rightarrow> ftp_config" where
  "ftp_config_for p ca_file =
     \<lparr>fcf_host = pp_dev_ip p, fcf_port = (if pp_use_ssl_for_ftp p then 990 else 21),
      fcf_username = (if pp_username p = [] then ''bblp'' else pp_username p), fcf_password = pp_password p,
      fcf_use_tls = pp_use_ssl_for_ftp p, fcf_verify_hostname = pp_dev_id p, fcf_ca_file = ca_file\<rparr>"

text \<open>The update calls made by the progress callback; a call that finds the job cancelled makes none.\<close>

definition upload_update :: "nat \<times> nat \<Rightarrow> update" where
  "upload_update st =
     (let (sent, fsize) = st; pct = (if fsize > 0 then narrow_i32 (int (sent * 100 mod 2 ^ 64 div fsize)) else 0);
          capped = (if pct > 100 then 100 else pct) in
      (Stage_upload, capped, show_int capped @ ''%''))"

definition upload_updates :: "(nat \<Rightarrow> bool) \<Rightarrow> (nat \<times> nat) list \<Rightarrow> update list" where
  "upload_updates during calls = concat (map (\<lambda>(i, st). if during i then [] else [upload_update st]) (List.enumerate 0 calls))"

record ftp_job =
  fj_rc :: int
  fj_updates :: "update list"
  fj_path :: "bytes option"
  fj_ftp :: ftp
  fj_proc :: process

definition ftp_upload :: "settings \<Rightarrow> job_env \<Rightarrow> print_params \<Rightarrow> bytes \<Rightarrow> bytes \<Rightarrow> int \<Rightarrow> process \<Rightarrow> ftp_job" where
  "ftp_upload s je p remote_path ca_file err_code pr =
     (let f0 = new_ftp (je_err je) (je_dials je);
          failed = (\<lambda>code msg f pr'. \<lparr>fj_rc = code, fj_updates = [(Stage_error, code, msg)], fj_path = None, fj_ftp = f, fj_proc = pr'\<rparr>) in
      case je_stat je of
        None \<Rightarrow> failed net_err_file_not_exist ''file not found'' f0 pr
      | Some sz \<Rightarrow>
          (if sz > 1073741824 then failed net_err_lp_file_over_size ''file over 1 GB'' f0 pr
           else
             let (e, f1, pr1) = ftp_connect s (je_tcp je) (je_tls je) (ftp_config_for p ca_file) f0 pr in
             if e \<noteq> [] then failed err_code e (quit f1) pr1
             else
               let (path, f2) = adjust_storage_path remote_path f1;
                   (e, calls, f3) = stor (je_file je) (pp_filename p) path (Some (\<lambda>i _ _. \<not> je_during je i)) f2;
                   ups = upload_updates (je_during je) calls in
               if e \<noteq> [] then
                 (let code = (if e = ''upload cancelled'' then net_err_canceled else err_code) in
                  \<lparr>fj_rc = code, fj_updates = ups @ [(Stage_error, code, e)], fj_path = Some path, fj_ftp = quit f3, fj_proc = pr1\<rparr>)
               else \<lparr>fj_rc = 0, fj_updates = ups, fj_path = Some path, fj_ftp = quit f3, fj_proc = pr1\<rparr>))"

section \<open>The project file command\<close>

definition job_json_escape :: "bytes \<Rightarrow> bytes" where
  "job_json_escape s = QUOTE # concat (map (\<lambda>c.
     if c = QUOTE then [BSLASH, QUOTE]
     else if c = BSLASH then [BSLASH, BSLASH]
     else if c = CHR 0x08 then BSLASH # ''b''
     else if c = CHR 0x0C then BSLASH # ''f''
     else if c = LF then BSLASH # ''n''
     else if c = CR then BSLASH # ''r''
     else if c = TAB then BSLASH # ''t''
     else if code_of c < (0x20::nat) then BSLASH # CHR ''u'' # show_hex_fixed 4 (code_of c)
     else [c]) s) @ [QUOTE]"

definition to_bool :: "bool \<Rightarrow> bytes" where
  "to_bool v = (if v then ''true'' else ''false'')"

text \<open>\<open>md5_of_file\<close>: the digest of what the reads deliver, in upper-case hex.\<close>

definition hex_upper :: "nat \<Rightarrow> char" where
  "hex_upper n = ''0123456789ABCDEF'' ! n"

definition md5_of_file :: "(bytes \<Rightarrow> u8 list) \<Rightarrow> (bytes \<times> nat) option \<Rightarrow> bytes" where
  "md5_of_file digest file =
     (case file of
        None \<Rightarrow> []
      | Some (content, readable) \<Rightarrow>
          concat (map (\<lambda>b. [hex_upper (unat b div 16), hex_upper (unat b mod 16)]) (digest (take readable content))))"

definition mapping_blank :: "char \<Rightarrow> bool" where
  "mapping_blank c = (c = BLANK \<or> c = TAB \<or> c = CR \<or> c = LF)"

definition token_trim :: "bytes \<Rightarrow> bytes" where
  "token_trim s = rtrim_by (\<lambda>c. c = BLANK \<or> c = TAB) (ltrim_by (\<lambda>c. c = BLANK \<or> c = TAB) s)"

text \<open>The parts between commas.\<close>

fun split_commas :: "bytes \<Rightarrow> bytes list" where
  "split_commas [] = [[]]"
| "split_commas (c # cs) =
     (if c = CHR '','' then [] # split_commas cs
      else case split_commas cs of [] \<Rightarrow> [[c]] | t # ts \<Rightarrow> (c # t) # ts)"

definition format_ams_mapping :: "bytes \<Rightarrow> bool \<Rightarrow> bytes" where
  "format_ams_mapping mapping use_ams =
     (let s = rtrim_by mapping_blank (ltrim_by mapping_blank mapping) in
      if s = [] then (if use_ams then ''[0]'' else ''[]'')
      else if hd s = CHR ''['' then s
      else ''['' @ join '','' (filter (\<lambda>t. t \<noteq> []) (map token_trim (split_commas s))) @ '']'')"

record project_opts =
  po_file_path :: bytes
  po_url :: bytes
  po_md5 :: bytes
  po_project_id :: bytes
  po_profile_id :: bytes
  po_task_id :: bytes
  po_subtask_id :: bytes

definition lan_opts :: "bytes \<Rightarrow> bytes \<Rightarrow> bytes \<Rightarrow> project_opts" where
  "lan_opts path url md5 = \<lparr>po_file_path = path, po_url = url, po_md5 = md5, po_project_id = ''0'',
     po_profile_id = ''0'', po_task_id = ''0'', po_subtask_id = ''0''\<rparr>"

definition cfg_bits :: "nat \<Rightarrow> settings \<Rightarrow> print_params \<Rightarrow> int" where
  "cfg_bits abi s p = (if 0x020503 \<le> abi \<and> pp_timelapse_internal p \<and> \<not> set_force_timelapse_external s then 4 else 0)"

text \<open>The members of the command with their texts, in the order the code writes them.\<close>

definition project_fields :: "nat \<Rightarrow> settings \<Rightarrow> int \<Rightarrow> print_params \<Rightarrow> project_opts \<Rightarrow> (bytes \<times> bytes) list" where
  "project_fields abi s now p opts =
     [(''sequence_id'', job_json_escape (show_int now)),
      (''command'', [QUOTE] @ ''project_file'' @ [QUOTE]),
      (''param'', job_json_escape (''Metadata/plate_'' @ show_int (if pp_plate_index p \<le> 0 then 1 else pp_plate_index p) @ ''.gcode'')),
      (''project_id'', job_json_escape (po_project_id opts)),
      (''profile_id'', job_json_escape (po_profile_id opts)),
      (''task_id'', job_json_escape (po_task_id opts)),
      (''subtask_id'', job_json_escape (po_subtask_id opts)),
      (''subtask_name'', job_json_escape (if pp_project_name p = [] then pp_task_name p else pp_project_name p)),
      (''file'', job_json_escape (strip_leading_slash (po_file_path opts))),
      (''url'', job_json_escape (po_url opts)),
      (''md5'', job_json_escape (po_md5 opts)),
      (''bed_type'', job_json_escape (if pp_bed_type p = [] then ''auto'' else pp_bed_type p)),
      (''bed_leveling'', to_bool (pp_bed_leveling p)),
      (''flow_cali'', to_bool (pp_flow_cali p)),
      (''vibration_cali'', to_bool (pp_vibration_cali p)),
      (''layer_inspect'', to_bool (pp_layer_inspect p)),
      (''timelapse'', to_bool (pp_record_timelapse p)),
      (''use_ams'', to_bool (pp_use_ams p)),
      (''ams_mapping'', format_ams_mapping (pp_ams_mapping p) (pp_use_ams p)),
      (''ams_mapping2'', if pp_ams_mapping2 p = [] then ''[]'' else pp_ams_mapping2 p)] @
     (if pp_nozzle_mapping p \<noteq> [] then [(''nozzle_mapping'', pp_nozzle_mapping p)] else []) @
     [(''auto_bed_leveling'', show_int (pp_auto_bed_leveling p)),
      (''nozzle_offset_cali'', show_int (pp_auto_offset_cali p))] @
     (if 0x020400 \<le> abi \<and> pp_extruder_cali_manual p \<ge> 0
      then [(''extrude_cali_manual_mode'', show_int (pp_extruder_cali_manual p))] else []) @
     [(''cfg'', [QUOTE] @ show_int (cfg_bits abi s p) @ [QUOTE]),
      (''extrude_cali_flag'', show_int (pp_auto_flow_cali p))]"

definition build_project_file_json :: "nat \<Rightarrow> settings \<Rightarrow> int \<Rightarrow> print_params \<Rightarrow> project_opts \<Rightarrow> bytes" where
  "build_project_file_json abi s now p opts =
     ''{'' @ [QUOTE] @ ''print'' @ [QUOTE] @ '':{'' @
     join '','' (map (\<lambda>(k, t). QUOTE # k @ [QUOTE, CHR '':''] @ t) (project_fields abi s now p opts)) @ ''}}''"

section \<open>The jobs\<close>

text \<open>
  The result of a job: return code, update calls, agent and world, and the FTP client as it was
  left, when there was one. \<open>je_tunnel\<close> is the outcome of the TLS dial to port 6000.
\<close>

record job_result =
  jr_rc :: int
  jr_updates :: "update list"
  jr_agent :: agent
  jr_world :: world
  jr_ftp :: "ftp option"

definition fail_job :: "int \<Rightarrow> bytes \<Rightarrow> update list \<Rightarrow> agent \<Rightarrow> world \<Rightarrow> job_result" where
  "fail_job code msg ups ag w =
     \<lparr>jr_rc = code, jr_updates = ups @ [(Stage_error, code, msg)], jr_agent = ag, jr_world = w, jr_ftp = None\<rparr>"

definition set_use_ssl_for_ftp :: "bool \<Rightarrow> agent \<Rightarrow> agent" where
  "set_use_ssl_for_ftp v ag = ag\<lparr>ag_ftp_ssl := v\<rparr>"

text \<open>The last part of the two print jobs: the message, and the final update.\<close>

definition publish_job :: "(mqtt_call \<Rightarrow> int) \<Rightarrow> bytes \<Rightarrow> bytes \<Rightarrow> bytes \<Rightarrow> update list \<Rightarrow> agent \<Rightarrow> world \<Rightarrow> job_result" where
  "publish_job rc dev_id js failure ups ag w =
     (let (pub, w') = send_message_to_printer rc dev_id js 0 ag w in
      if pub \<noteq> 0 then fail_job net_err_lp_publish_failed failure ups ag w'
      else \<lparr>jr_rc = 0, jr_updates = ups @ [(Stage_finished, 0, ''3'')], jr_agent = ag, jr_world = w', jr_ftp = None\<rparr>)"

text \<open>
  The part of \<open>run_local_print_job\<close> after the upload: \<open>stored\<close> is the path the upload chose.
\<close>

definition finish_local_print :: "nat \<Rightarrow> settings \<Rightarrow> (bytes \<Rightarrow> u8 list) \<Rightarrow> (mqtt_call \<Rightarrow> int) \<Rightarrow> job_env \<Rightarrow> print_params
    \<Rightarrow> bytes \<Rightarrow> bytes \<Rightarrow> update list \<Rightarrow> agent \<Rightarrow> world \<Rightarrow> job_result" where
  "finish_local_print abi s digest rc je p remote_name stored ups ag w =
     (if je_late je then fail_job net_err_canceled ''cancelled'' ups ag w
      else
        let url = (if pp_try_emmc_print p then build_brtc_emmc_url remote_name else build_ftp_url stored);
            md5 = (if pp_ftp_file_md5 p = [] then md5_of_file digest (je_file je) else pp_ftp_file_md5 p);
            js = build_project_file_json abi s (je_now je) p (lan_opts stored url md5) in
        publish_job rc (pp_dev_id p) js ''MQTT publish failed'' (ups @ [(Stage_sending, 0, [])]) ag w)"

definition tunnel_upload_request :: "job_env \<Rightarrow> print_params \<Rightarrow> bytes \<Rightarrow> upload_request" where
  "tunnel_upload_request je p name =
     \<lparr>ur_local = map_option fst (je_file je), ur_local_path = pp_filename p, ur_dest_storage = ''emmc'', ur_dest_name = name\<rparr>"

definition run_local_print_job :: "nat \<Rightarrow> settings \<Rightarrow> (bytes \<Rightarrow> u8 list) \<Rightarrow> (bytes \<Rightarrow> bytes) \<Rightarrow> (mqtt_call \<Rightarrow> int) \<Rightarrow> job_env
    \<Rightarrow> print_params \<Rightarrow> agent \<Rightarrow> world \<Rightarrow> job_result io" where
  "run_local_print_job abi s digest md5 rc je p ag w =
     (let ag1 = set_use_ssl_for_ftp (pp_use_ssl_for_ftp p) ag;
          create = (Stage_create, 0, []) in
      if pp_dev_ip p = [] \<or> pp_password p = [] then Ret (fail_job net_err_connection_to_printer ''no dev_ip/access_code'' [] ag1 w)
      else if pp_filename p = [] then Ret (fail_job net_err_file_not_exist ''empty filename'' [] ag1 w)
      else if je_first je then Ret \<lparr>jr_rc = net_err_canceled, jr_updates = [create], jr_agent = ag1, jr_world = w, jr_ftp = None\<rparr>
      else
        let remote_name = pick_remote_name p;
            remote_path = remote_path_for p remote_name;
            ca_file = bambu_ca_bundle_path ag1 (pr_disk (wo_proc w)) in
        if pp_try_emmc_print p then
          io_bind (upload_file md5 (je_during je)
              (session_cfg (je_uuid je) (je_version je) (connect_params_from_print (pp_dev_ip p) (pp_dev_id p) (pp_password p)))
              (je_seed je) (je_tunnel je) (tunnel_upload_request je p remote_name) net_err_lp_upload_ftp_failed)
            (\<lambda>(code, out, pcts).
               let ups = create # map (\<lambda>pct. (Stage_upload, pct, [])) pcts in
               Ret (if code \<noteq> 0 then \<lparr>jr_rc = code, jr_updates = ups, jr_agent = ag1, jr_world = w, jr_ftp = None\<rparr>
                    else finish_local_print abi s digest rc je p remote_name remote_name ups ag1 w))
        else
          let fj = ftp_upload s je p remote_path ca_file net_err_lp_upload_ftp_failed (wo_proc w);
              w1 = w\<lparr>wo_proc := fj_proc fj\<rparr>;
              ups = create # fj_updates fj;
              stored = (case fj_path fj of None \<Rightarrow> [] | Some path \<Rightarrow> path) in
          Ret ((if fj_rc fj \<noteq> 0 then \<lparr>jr_rc = fj_rc fj, jr_updates = ups, jr_agent = ag1, jr_world = w1, jr_ftp = None\<rparr>
                else finish_local_print abi s digest rc je p remote_name stored ups ag1 w1)\<lparr>jr_ftp := Some (fj_ftp fj)\<rparr>))"

definition run_sdcard_print_job :: "nat \<Rightarrow> settings \<Rightarrow> (mqtt_call \<Rightarrow> int) \<Rightarrow> job_env \<Rightarrow> print_params \<Rightarrow> agent \<Rightarrow> world \<Rightarrow> job_result" where
  "run_sdcard_print_job abi s rc je p ag w =
     (let ag1 = set_use_ssl_for_ftp (pp_use_ssl_for_ftp p) ag in
      if pp_dev_id p = [] then fail_job net_err_connection_to_printer ''no dev_id'' [] ag1 w
      else if pp_dst_file p = [] then fail_job net_err_file_not_exist ''no dst_file'' [] ag1 w
      else if je_first je then \<lparr>jr_rc = net_err_canceled, jr_updates = [], jr_agent = ag1, jr_world = w, jr_ftp = None\<rparr>
      else
        let remote_path = (if hd (pp_dst_file p) \<noteq> SLASH then SLASH # pp_dst_file p else pp_dst_file p);
            js = build_project_file_json abi s (je_now je) p (lan_opts remote_path (build_file_url remote_path) []) in
        publish_job rc (pp_dev_id p) js ''MQTT publish failed (no LAN session)''
          [(Stage_create, 0, []), (Stage_sending, 0, [])] ag1 w)"

definition run_send_gcode_to_sdcard :: "settings \<Rightarrow> job_env \<Rightarrow> print_params \<Rightarrow> agent \<Rightarrow> world \<Rightarrow> job_result" where
  "run_send_gcode_to_sdcard s je p ag w =
     (let ag1 = set_use_ssl_for_ftp (pp_use_ssl_for_ftp p) ag; create = (Stage_create, 0, []) in
      if pp_dev_ip p = [] \<or> pp_password p = [] then fail_job net_err_connection_to_printer ''no dev_ip/access_code'' [] ag1 w
      else
        let remote_name = dest_name_for_send_gcode p in
        if remote_name = [] then fail_job net_err_sg_upload_ftp_failed ''empty project_name'' [create] ag1 w
        else
          let fj = ftp_upload s je p (remote_path_for p remote_name) (bambu_ca_bundle_path ag1 (pr_disk (wo_proc w)))
                     net_err_sg_upload_ftp_failed (wo_proc w);
              w1 = w\<lparr>wo_proc := fj_proc fj\<rparr>; ups = create # fj_updates fj in
          if fj_rc fj \<noteq> 0 then \<lparr>jr_rc = fj_rc fj, jr_updates = ups, jr_agent = ag1, jr_world = w1, jr_ftp = Some (fj_ftp fj)\<rparr>
          else \<lparr>jr_rc = 0, jr_updates = ups @ [(Stage_finished, 0, ''3'')], jr_agent = ag1, jr_world = w1, jr_ftp = Some (fj_ftp fj)\<rparr>)"

end
