(* ===== verification/Cloud_Presets.thy ===== *)
theory Cloud_Presets
  imports Cloud_Bind Print_Job
begin

text \<open>
  The user's presets in the cloud: \<open>src/cloud_presets.cpp\<close>, and the catalogue synchronisation
  of \<open>src/abi_presets.cpp\<close>, which fills the agent's preset cache for Studio.
\<close>

definition net_err_put_setting_failed :: int where "net_err_put_setting_failed = - 8"
definition net_err_get_setting_list_failed :: int where "net_err_get_setting_list_failed = - 9"
definition net_err_del_setting_failed :: int where "net_err_del_setting_failed = - 10"

type_synonym preset_values = "(bytes, bytes) omap"

definition settings_base :: "settings \<Rightarrow> agent \<Rightarrow> bytes" where
  "settings_base s ag = api_base s ag @ ''/v1/iot-service/api/slicer/setting''"

definition json_scalar_to_string :: "json \<Rightarrow> bytes" where
  "json_scalar_to_string v =
     (case v of
        Null \<Rightarrow> []
      | Bool b \<Rightarrow> if b then ''1'' else ''0''
      | String t \<Rightarrow> t
      | Number x \<Rightarrow> if of_int (cast_i64 x) = x then show_int (cast_i64 x) else fmt_g17 x
      | Array _ \<Rightarrow> dump v
      | Object _ \<Rightarrow> dump v)"

section \<open>Time stamps\<close>

text \<open>\<open>%wd\<close>: the width counts the sign, not the blanks before it.\<close>

definition scan_width :: "nat \<Rightarrow> bytes \<Rightarrow> (int \<times> bytes) option" where
  "scan_width w s =
     (let r = dropWhile is_space s in
      map_option (\<lambda>(i, rest). (i, rest @ drop w r)) (scan_int (take w r)))"

text \<open>The fields with the character that follows each; a blank in the format matches any run of blanks.\<close>

fun scan_widths :: "(nat \<times> char option) list \<Rightarrow> bytes \<Rightarrow> int list option" where
  "scan_widths [] s = Some []"
| "scan_widths ((w, c) # fs) s =
     (case scan_width w s of
        None \<Rightarrow> None
      | Some (i, r) \<Rightarrow>
          (case c of
             None \<Rightarrow> map_option ((#) i) (scan_widths fs r)
           | Some c' \<Rightarrow>
               (case scan_char c' r of None \<Rightarrow> None | Some r' \<Rightarrow> map_option ((#) i) (scan_widths fs r'))))"

definition iso_format :: "(nat \<times> char option) list" where
  "iso_format = [(4, Some (CHR ''-'')), (2, Some (CHR ''-'')), (2, None), (2, Some (CHR '':'')), (2, Some (CHR '':'')), (2, None)]"

definition parse_iso_utc :: "bytes \<Rightarrow> int" where
  "parse_iso_utc s =
     (if s = [] then 0
      else case scan_widths iso_format (c_str s) of
          Some [y, mo, d, h, mi, se] \<Rightarrow>
            (let tt = timegm \<lparr>tm_year = y - 1900, tm_mon = mo - 1, tm_mday = d, tm_hour = h, tm_min = mi, tm_sec = se\<rparr> in
             if tt = - 1 then 0 else tt)
        | _ \<Rightarrow> 0)"

section \<open>Documents\<close>

definition parse_body :: "bytes \<Rightarrow> json" where
  "parse_body body = (case parse_opt body of None \<Rightarrow> Object [] | Some v \<Rightarrow> v)"

definition propagate_error_code :: "json \<Rightarrow> preset_values \<Rightarrow> preset_values" where
  "propagate_error_code doc vals =
     (let c = jfind doc ''code'' in
      if is_number c then (if as_int 0 c \<noteq> 0 then om_put ''code'' (show_int (as_int 0 c)) vals else vals)
      else if is_string c \<and> as_string c \<noteq> [] then om_put ''code'' (as_string c) vals
      else vals)"

definition get_or :: "preset_values \<Rightarrow> bytes \<Rightarrow> bytes" where
  "get_or vals k = (case om_get vals k of None \<Rightarrow> [] | Some v \<Rightarrow> v)"

text \<open>Keys of the map that do not go inside \<open>setting\<close>.\<close>

definition envelope_keys :: "bytes list" where
  "envelope_keys = [''version'', ''type'', ''base_id'', ''code'', ''name'', ''setting_id'', ''user_id'', ''public'']"

definition setting_text :: "preset_values \<Rightarrow> bytes" where
  "setting_text vals =
     ''{'' @ join '','' (map (\<lambda>(k, v). escape k @ '':'' @ escape v) (filter (\<lambda>(k, v). k \<notin> set envelope_keys) vals)) @ ''}''"

definition upload_fields :: "bytes \<Rightarrow> preset_values \<Rightarrow> bool \<Rightarrow> (bytes \<times> bytes) list" where
  "upload_fields name vals is_create =
     (let bid = get_or vals ''base_id''; typ = get_or vals ''type''; ver = get_or vals ''version'' in
      (if \<not> is_create \<and> bid \<noteq> [] then [(''base_id'', escape bid)] else []) @
      [(''name'', escape name)] @
      (if is_create then [(''public'', ''false'')] else []) @
      [(''setting'', setting_text vals)] @
      (if is_create \<or> typ \<noteq> [] then [(''type'', escape typ)] else []) @
      (if is_create \<or> ver \<noteq> [] then [(''version'', escape ver)] else []) @
      (if is_create \<and> bid \<noteq> [] then [(''base_id'', escape bid)] else []))"

definition build_upload_body :: "bytes \<Rightarrow> preset_values \<Rightarrow> bool \<Rightarrow> bytes" where
  "build_upload_body name vals is_create = json_of_fields (upload_fields name vals is_create)"

definition copy_str :: "json \<Rightarrow> bytes \<Rightarrow> preset_values \<Rightarrow> preset_values" where
  "copy_str doc key out =
     (let v = jfind doc key in
      if is_string v then om_put key (as_string v) out
      else if is_number v then om_put key (show_int (as_int 0 v)) out
      else out)"

definition copied_keys :: "bytes list" where
  "copied_keys = [''name'', ''type'', ''version'', ''setting_id'', ''base_id'', ''filament_id'']"

definition update_stamp :: "json \<Rightarrow> bytes" where
  "update_stamp doc = or_string (as_string (jfind doc ''update_time'')) (as_string (jfind doc ''updated_time''))"

definition setting_members :: "json \<Rightarrow> (bytes, json) omap" where
  "setting_members doc = (case jfind doc ''setting'' of Object m \<Rightarrow> m | _ \<Rightarrow> [])"

definition fill_values_from_full :: "json \<Rightarrow> bytes \<Rightarrow> preset_values" where
  "fill_values_from_full doc user_id =
     (let out1 = fold (copy_str doc) copied_keys [];
          out2 = fold (\<lambda>(k, v). om_put k (json_scalar_to_string v)) (setting_members doc) out1;
          ts = parse_iso_utc (update_stamp doc);
          out3 = om_put ''updated_time'' (show_int (if ts = 0 then 1 else ts)) out2;
          out4 = (if om_get out3 ''base_id'' = None then om_put ''base_id'' [] out3 else out3) in
      if user_id \<noteq> [] then om_put ''user_id'' user_id out4 else out4)"

section \<open>Requests\<close>

record preset_meta =
  pm_type :: bytes
  pm_setting_id :: bytes
  pm_name :: bytes
  pm_version :: bytes
  pm_base_id :: bytes
  pm_filament_id :: bytes
  pm_inherits :: bytes
  pm_update_time :: bytes
  pm_updated_time_unix :: int
  pm_is_public :: bool

definition meta_of :: "bytes \<Rightarrow> json \<Rightarrow> preset_meta" where
  "meta_of type item =
     (let str = (\<lambda>k. as_string (jfind item k)) in
      \<lparr>pm_type = type, pm_setting_id = str ''setting_id'', pm_name = str ''name'', pm_version = str ''version'',
       pm_base_id = str ''base_id'', pm_filament_id = str ''filament_id'', pm_inherits = str ''inherits'',
       pm_update_time = str ''update_time'', pm_updated_time_unix = parse_iso_utc (str ''update_time''), pm_is_public = False\<rparr>)"

definition catalogue :: "json \<Rightarrow> preset_meta list" where
  "catalogue doc =
     filter (\<lambda>m. pm_setting_id m \<noteq> [] \<and> pm_name m \<noteq> [])
       (concat (map (\<lambda>type. map (meta_of type) (as_array (jfind doc (type @ ''.private'')))) [''print'', ''printer'', ''filament'']))"

definition preset_list :: "settings \<Rightarrow> agent \<Rightarrow> bytes \<Rightarrow> web \<Rightarrow> (int \<times> preset_meta list) \<times> web" where
  "preset_list s ag bundle_version wb =
     (case prepare ag of
        None \<Rightarrow> ((net_err_get_setting_list_failed, []), wb)
      | Some hdrs \<Rightarrow>
          (let url = settings_base s ag @ ''?public=false'' @
                     (if bundle_version \<noteq> [] then ''&version='' @ url_encode bundle_version else []);
               (resp, wb') = get_json url (om_del ''Content-Type'' hdrs) wb in
           (if answered resp then (net_success, catalogue (parse_body (hr_body resp)))
            else (net_err_get_setting_list_failed, []), wb')))"

definition get_full :: "settings \<Rightarrow> agent \<Rightarrow> bytes \<Rightarrow> web \<Rightarrow> (int \<times> preset_values) \<times> web" where
  "get_full s ag setting_id wb =
     (if setting_id = [] then ((net_err_invalid_handle, []), wb)
      else case prepare ag of
          None \<Rightarrow> ((net_err_get_setting_list_failed, []), wb)
        | Some hdrs \<Rightarrow>
            (let (resp, wb') = get_json (settings_base s ag @ ''/'' @ url_encode setting_id) (om_del ''Content-Type'' hdrs) wb in
             (if hr_status resp = 400 \<or> \<not> answered resp then (net_err_get_setting_list_failed, [])
              else (net_success, fill_values_from_full (parse_body (hr_body resp)) (cloud_user_id ag)), wb')))"

text \<open>What both uploads do with an answer: the error code, and the time stamp of a success.\<close>

definition stamped :: "json \<Rightarrow> preset_values \<Rightarrow> preset_values" where
  "stamped doc vals =
     (let ts = parse_iso_utc (update_stamp doc) in if ts > 0 then om_put ''updated_time'' (show_int ts) vals else vals)"

text \<open>Result: the new id, the values as Studio finds them afterwards, the HTTP status.\<close>

definition preset_create :: "settings \<Rightarrow> agent \<Rightarrow> bytes \<Rightarrow> preset_values \<Rightarrow> web \<Rightarrow> (bytes \<times> preset_values \<times> int) \<times> web" where
  "preset_create s ag name vals wb =
     (case prepare ag of
        None \<Rightarrow> (([], vals, 0), wb)
      | Some hdrs \<Rightarrow>
          (let (resp, wb') = post_json (settings_base s ag) (build_upload_body name vals True) hdrs wb;
               doc = parse_body (hr_body resp);
               vals1 = propagate_error_code doc vals in
           (if answered resp then (as_string (jfind doc ''setting_id''), stamped doc vals1, hr_status resp)
            else ([], vals1, hr_status resp), wb')))"

definition preset_update :: "settings \<Rightarrow> agent \<Rightarrow> bytes \<Rightarrow> bytes \<Rightarrow> preset_values \<Rightarrow> web \<Rightarrow> (int \<times> preset_values \<times> int) \<times> web" where
  "preset_update s ag setting_id name vals wb =
     (if setting_id = [] then ((net_err_put_setting_failed, vals, 0), wb)
      else case prepare ag of
          None \<Rightarrow> ((net_err_put_setting_failed, vals, 0), wb)
        | Some hdrs \<Rightarrow>
            (let (resp, wb') = perform (new_request\<lparr>hq_method := PATCH, hq_url := settings_base s ag @ ''/'' @ url_encode setting_id,
                                 hq_body := build_upload_body name vals False, hq_headers := hdrs\<rparr>) wb;
                 doc = parse_body (hr_body resp);
                 vals1 = propagate_error_code doc vals in
             (if answered resp then (net_success, stamped doc vals1, hr_status resp)
              else (net_err_put_setting_failed, vals1, hr_status resp), wb')))"

definition preset_del :: "settings \<Rightarrow> agent \<Rightarrow> bytes \<Rightarrow> web \<Rightarrow> int \<times> web" where
  "preset_del s ag setting_id wb =
     (if setting_id = [] then (net_err_del_setting_failed, wb)
      else case prepare ag of
          None \<Rightarrow> (net_err_del_setting_failed, wb)
        | Some hdrs \<Rightarrow>
            (let (resp, wb') = http_delete (settings_base s ag @ ''/'' @ url_encode setting_id) (om_del ''Content-Type'' hdrs) wb in
             (if answered resp then net_success else net_err_del_setting_failed, wb')))"

section \<open>Synchronisation\<close>

definition meta_to_check_map :: "preset_meta \<Rightarrow> preset_values" where
  "meta_to_check_map m =
     om_put ''updated_time'' (show_int (pm_updated_time_unix m))
       (om_put ''setting_id'' (pm_setting_id m) (om_put ''name'' (pm_name m) (om_put ''type'' (pm_type m) [])))"

definition put_if :: "bool \<Rightarrow> bytes \<Rightarrow> bytes \<Rightarrow> preset_values \<Rightarrow> preset_values" where
  "put_if c k v vals = (if c then om_put k v vals else vals)"

definition meta_to_minimal_values_map :: "preset_meta \<Rightarrow> bytes \<Rightarrow> preset_values" where
  "meta_to_minimal_values_map m user_id =
     (let v0 = om_put ''updated_time'' (show_int (pm_updated_time_unix m))
                 (om_put ''setting_id'' (pm_setting_id m) (om_put ''name'' (pm_name m) (om_put ''type'' (pm_type m) [])));
          v1 = put_if (pm_update_time m \<noteq> []) ''update_time'' (pm_update_time m) v0;
          v2 = put_if (pm_version m \<noteq> []) ''version'' (pm_version m) v1;
          v3 = put_if (pm_base_id m \<noteq> []) ''base_id'' (pm_base_id m) v2;
          v4 = put_if (pm_inherits m \<noteq> []) ''inherits'' (pm_inherits m) v3;
          v5 = put_if (pm_type m = ''filament'' \<and> pm_filament_id m \<noteq> []) ''filament_id'' (pm_filament_id m) v4 in
      put_if (user_id \<noteq> []) ''user_id'' user_id v5)"

text \<open>Fill a field in that is missing or empty.\<close>

definition fill_in :: "bytes \<Rightarrow> bytes \<Rightarrow> preset_values \<Rightarrow> preset_values" where
  "fill_in k v vals = put_if (get_or vals k = []) k v vals"

definition completed :: "preset_meta \<Rightarrow> preset_values \<Rightarrow> preset_values" where
  "completed m vals =
     (let v1 = fill_in ''version'' (pm_version m)
                 (fill_in ''name'' (pm_name m) (fill_in ''setting_id'' (pm_setting_id m) (fill_in ''type'' (pm_type m) vals)));
          v2 = (if pm_inherits m \<noteq> [] then fill_in ''inherits'' (pm_inherits m) v1 else v1) in
      if pm_type m = ''filament'' \<and> pm_filament_id m \<noteq> [] then fill_in ''filament_id'' (pm_filament_id m) v2 else v2)"

text \<open>One entry of the catalogue: downloaded if Studio wants it, otherwise its metadata.\<close>

definition sync_one :: "settings \<Rightarrow> (preset_values \<Rightarrow> bool) option \<Rightarrow> bytes \<Rightarrow> preset_meta \<Rightarrow> agent \<Rightarrow> web \<Rightarrow> agent \<times> web" where
  "sync_one s chk user_id m ag wb =
     (if (case chk of None \<Rightarrow> True | Some f \<Rightarrow> f (meta_to_check_map m)) then
        (let ((rc, vals), wb') = get_full s ag (pm_setting_id m) wb in
         (preset_cache_put (pm_name m)
            (if rc = net_success \<and> vals \<noteq> [] then completed m vals else meta_to_minimal_values_map m user_id) ag, wb'))
      else (preset_cache_put (pm_name m) (meta_to_minimal_values_map m user_id) ag, wb))"

text \<open>\<open>cancelled n\<close>: the answer of Studio's poll after \<open>n\<close> entries.\<close>

fun sync_loop ::
  "settings \<Rightarrow> (preset_values \<Rightarrow> bool) option \<Rightarrow> (nat \<Rightarrow> bool) \<Rightarrow> bytes \<Rightarrow> nat \<Rightarrow> nat \<Rightarrow> preset_meta list \<Rightarrow> agent \<Rightarrow> web \<Rightarrow>
   (int \<times> int list) \<times> agent \<times> web" where
  "sync_loop s chk cancelled user_id total_n done_n [] ag wb = ((net_success, [100]), ag, wb)"
| "sync_loop s chk cancelled user_id total_n done_n (m # ms) ag wb =
     (if cancelled done_n then ((net_err_canceled, []), ag, wb)
      else
        let (ag1, wb1) = sync_one s chk user_id m ag wb;
            ((rc, ps), ag2, wb2) = sync_loop s chk cancelled user_id total_n (Suc done_n) ms ag1 wb1 in
        ((rc, min 99 (int (Suc done_n * 100 div total_n)) # ps), ag2, wb2))"

definition sync_user_presets ::
  "settings \<Rightarrow> bytes \<Rightarrow> (preset_values \<Rightarrow> bool) option \<Rightarrow> (nat \<Rightarrow> bool) \<Rightarrow> agent \<Rightarrow> web \<Rightarrow> (int \<times> int list) \<times> agent \<times> web" where
  "sync_user_presets s bundle_version chk cancelled ag wb =
     (let ((rc, metas), wb1) = preset_list s ag bundle_version wb in
      if rc \<noteq> net_success then ((rc, [100]), ag, wb1)
      else
        let ag1 = preset_cache_reset ag in
        if metas = [] then ((net_success, [100]), ag1, wb1)
        else sync_loop s chk cancelled (cloud_user_id ag1) (length metas) 0 metas ag1 wb1)"

definition get_user_presets :: "agent \<Rightarrow> (bytes, preset_values) omap \<times> agent" where
  "get_user_presets ag = preset_cache_drain ag"

end
