(* ===== verification/Preset_Laws.thy ===== *)
theory Preset_Laws
  imports Cloud_Presets
begin

text \<open>What holds of the preset service: documents, time stamps and the synchronised cache.\<close>

section \<open>Ordered maps\<close>

lemma om_get_fold_put:
  "om_ok m \<Longrightarrow> om_ok out \<Longrightarrow> om_ok (fold (\<lambda>(k, v). om_put k (f v)) m out) \<and>
   om_get (fold (\<lambda>(k, v). om_put k (f v)) m out) k = (case om_get m k of None \<Rightarrow> om_get out k | Some v \<Rightarrow> Some (f v))"
proof (induction m arbitrary: out)
  case (Cons kv m)
  obtain k' v where kv: "kv = (k', v)" by force
  have fresh: "om_get m k' = None"
    using Cons.prems(1) by (auto simp: kv om_ok_Cons om_get_def map_of_eq_None_iff)
  show ?case
    using Cons.IH [of "om_put k' (f v) out"] Cons.prems fresh
    by (auto simp: kv om_ok_Cons om_get_Cons split: option.splits)
qed simp

lemma om_get_filter: "om_get (filter (\<lambda>(k, v). P k) m) k = (if P k then om_get m k else None)"
  by (induction m) (auto simp: om_get_def)

lemma om_ok_filter: "om_ok m \<Longrightarrow> om_ok (filter P m)"
  by (simp add: om_ok_def sorted_wrt_map sorted_wrt_filter)

lemma om_get_map: "om_get (map (\<lambda>(k, v). (k, f v)) m) k = map_option f (om_get m k)"
  by (simp add: om_get_def map_of_map)

lemma om_ok_map: "om_ok m \<Longrightarrow> om_ok (map (\<lambda>(k, v). (k, f v)) m)"
  by (simp add: om_ok_def case_prod_beta' comp_def)

section \<open>A preset uploaded and read back\<close>

definition setting_values :: "preset_values \<Rightarrow> (bytes, json) omap" where
  "setting_values vals = map (\<lambda>(k, v). (k, String v)) (filter (\<lambda>(k, v). k \<notin> set envelope_keys) vals)"

lemma setting_text_reads:
  assumes "om_ok vals" shows "reads_as (setting_text vals) (Object (setting_values vals))"
proof (cases "filter (\<lambda>(k, v). k \<notin> set envelope_keys) vals = []")
  case True
  have "reads_as (dump (Object [])) (Object [])" by (rule reads_as_dump) simp
  with True show ?thesis by (simp add: setting_text_def setting_values_def)
next
  case False
  define fs where "fs = filter (\<lambda>(k, v). k \<notin> set envelope_keys) vals"
  define ms where "ms = map (\<lambda>(k, v). plain_member k (escape v) (String v)) fs"
  have "list_all member_ok ms" by (auto simp: ms_def list_all_iff)
  moreover have "ms \<noteq> []" using False by (simp add: ms_def fs_def)
  moreover have "members_text ms = join '','' (map (\<lambda>(k, v). escape k @ '':'' @ escape v) fs)"
    by (simp add: ms_def comp_def case_prod_beta')
  moreover have "map member_val ms = setting_values vals"
    by (simp add: ms_def setting_values_def fs_def comp_def case_prod_beta')
  moreover have "om_ok (setting_values vals)"
    unfolding setting_values_def by (intro om_ok_map om_ok_filter assms)
  ultimately show ?thesis
    using reads_as_object [of ms] emplace_all_sorted [of "[]" "setting_values vals"] by (simp add: setting_text_def fs_def)
qed

definition upload_values :: "bytes \<Rightarrow> preset_values \<Rightarrow> bool \<Rightarrow> (bytes \<times> json) list" where
  "upload_values name vals is_create =
     (let bid = get_or vals ''base_id''; typ = get_or vals ''type''; ver = get_or vals ''version'' in
      (if \<not> is_create \<and> bid \<noteq> [] then [(''base_id'', String bid)] else []) @
      [(''name'', String name)] @
      (if is_create then [(''public'', Bool False)] else []) @
      [(''setting'', Object (setting_values vals))] @
      (if is_create \<or> typ \<noteq> [] then [(''type'', String typ)] else []) @
      (if is_create \<or> ver \<noteq> [] then [(''version'', String ver)] else []) @
      (if is_create \<and> bid \<noteq> [] then [(''base_id'', String bid)] else []))"

lemma reads_as_false: "reads_as ''false'' (Bool False)"
  using reads_as_dump [of "Bool False"] by simp

lemma upload_fields_values:
  assumes "om_ok vals"
  shows "list_all2 same_field (upload_fields name vals is_create) (upload_values name vals is_create)"
proof -
  have k: "plain_text ''base_id''" "plain_text ''name''" "plain_text ''public''" "plain_text ''setting''" "plain_text ''type''" "plain_text ''version''"
    by (simp_all add: plain_text_def escape_char_def)
  note f = same_fieldI [OF k(1) reads_as_escape] same_fieldI [OF k(2) reads_as_escape] same_fieldI [OF k(3) reads_as_false]
    same_fieldI [OF k(4) setting_text_reads [OF assms]] same_fieldI [OF k(5) reads_as_escape] same_fieldI [OF k(6) reads_as_escape]
  show ?thesis unfolding upload_fields_def upload_values_def Let_def
    by (intro list_all2_appendI same_field_if) (simp_all add: f)
qed

definition upload_json :: "bytes \<Rightarrow> preset_values \<Rightarrow> bool \<Rightarrow> json" where
  "upload_json name vals is_create = Object (emplace_all (upload_values name vals is_create) [])"

lemma parse_upload: "om_ok vals \<Longrightarrow> parse_opt (build_upload_body name vals is_create) = Some (upload_json name vals is_create)"
proof -
  assume "om_ok vals"
  from fields_read [OF upload_fields_values [OF this, of name is_create]]
  have "reads_as (build_upload_body name vals is_create) (upload_json name vals is_create)"
    by (simp add: build_upload_body_def json_of_fields_def upload_json_def upload_fields_def Let_def)
  then show ?thesis by (rule parse_opt_as)
qed

lemma upload_find:
  "plain_key k \<Longrightarrow> jfind (upload_json name vals is_create) k = (case map_of (upload_values name vals is_create) k of None \<Rightarrow> Null | Some v \<Rightarrow> v)"
  using emplace_all_get [of "[]" "upload_values name vals is_create" k]
  by (simp add: upload_json_def jfind_key jget_def split: option.splits)


definition copied :: "json \<Rightarrow> bytes \<Rightarrow> bytes option" where
  "copied doc key =
     (let v = jfind doc key in if is_string v then Some (as_string v) else if is_number v then Some (show_int (as_int 0 v)) else None)"

lemma copy_str_get: "om_ok out \<Longrightarrow> om_ok (copy_str doc key out) \<and>
    om_get (copy_str doc key out) k = (if k = key \<and> copied doc key \<noteq> None then copied doc key else om_get out k)"
  by (simp add: copy_str_def copied_def Let_def)

lemma fold_copy_get: "om_ok out \<Longrightarrow> om_ok (fold (copy_str doc) ks out) \<and>
    om_get (fold (copy_str doc) ks out) k = (if k \<in> set ks \<and> copied doc k \<noteq> None then copied doc k else om_get out k)"
proof (induction ks arbitrary: out)
  case (Cons key ks)
  then show ?case using Cons.IH [of "copy_str doc key out"] copy_str_get [of out doc key] by auto
qed simp

text \<open>The map Studio gets for a document, key by key.\<close>

lemma fill_values_get:
  assumes "om_ok (setting_members doc)"
  shows "om_ok (fill_values_from_full doc uid) \<and> om_get (fill_values_from_full doc uid) k =
    (if k = ''user_id'' \<and> uid \<noteq> [] then Some uid
     else if k = ''updated_time'' then Some (show_int (if parse_iso_utc (update_stamp doc) = 0 then 1 else parse_iso_utc (update_stamp doc)))
     else case om_get (setting_members doc) k of
         Some v \<Rightarrow> Some (json_scalar_to_string v)
       | None \<Rightarrow> if k \<in> set copied_keys \<and> copied doc k \<noteq> None then copied doc k
                 else if k = ''base_id'' then Some [] else None)"
proof -
  define out1 where "out1 = fold (copy_str doc) copied_keys []"
  have o1: "om_ok out1" "om_get out1 j = (if j \<in> set copied_keys \<and> copied doc j \<noteq> None then copied doc j else None)" for j
    using fold_copy_get [of "[]" doc copied_keys] by (simp_all add: out1_def)
  define out2 where "out2 = fold (\<lambda>(k, v). om_put k (json_scalar_to_string v)) (setting_members doc) out1"
  have o2: "om_ok out2" "om_get out2 j = (case om_get (setting_members doc) j of None \<Rightarrow> om_get out1 j | Some v \<Rightarrow> Some (json_scalar_to_string v))" for j
    using om_get_fold_put [OF assms o1(1)] by (simp_all add: out2_def)
  define ts where "ts = show_int (if parse_iso_utc (update_stamp doc) = 0 then 1 else parse_iso_utc (update_stamp doc))"
  define out3 where "out3 = om_put ''updated_time'' ts out2"
  have o3: "om_ok out3" "om_get out3 j = (if j = ''updated_time'' then Some ts else om_get out2 j)" for j
    using o2(1) by (simp_all add: out3_def)
  define out4 where "out4 = (if om_get out3 ''base_id'' = None then om_put ''base_id'' [] out3 else out3)"
  have o4: "om_ok out4" "om_get out4 j = (if j = ''base_id'' \<and> om_get out3 j = None then Some [] else om_get out3 j)" for j
    using o3(1) by (auto simp: out4_def)
  have f: "fill_values_from_full doc uid = (if uid \<noteq> [] then om_put ''user_id'' uid out4 else out4)"
    by (simp add: fill_values_from_full_def out4_def out3_def out2_def out1_def ts_def Let_def)
  show ?thesis
    unfolding f using o4(1) by (simp add: o4(2) o3(2) o2(2) o1(2) ts_def [symmetric] split: option.split)
qed

lemma copied_upload:
  "copied (upload_json name vals is_create) ''name'' = Some name" "copied (upload_json name vals is_create) ''filament_id'' = None"
  by (simp_all add: copied_def upload_find plain_key_def key_stop_def upload_values_def Let_def)

lemma copied_envelope:
  "copied (upload_json name vals is_create) ''type'' = (if is_create \<or> get_or vals ''type'' \<noteq> [] then Some (get_or vals ''type'') else None)"
  "copied (upload_json name vals is_create) ''version'' = (if is_create \<or> get_or vals ''version'' \<noteq> [] then Some (get_or vals ''version'') else None)"
  "copied (upload_json name vals is_create) ''base_id'' = (if get_or vals ''base_id'' \<noteq> [] then Some (get_or vals ''base_id'') else None)"
  by (simp_all add: copied_def upload_find plain_key_def key_stop_def upload_values_def Let_def)

lemma copied_keys_envelope: "list_all (\<lambda>k. k = ''filament_id'' \<or> k \<in> set envelope_keys) copied_keys"
  by (simp add: copied_keys_def envelope_keys_def)

lemma envelope_key: "k \<in> set envelope_keys \<longleftrightarrow> k = ''version'' \<or> k = ''type'' \<or> k = ''base_id'' \<or> k = ''code'' \<or>
    k = ''name'' \<or> k = ''setting_id'' \<or> k = ''user_id'' \<or> k = ''public''"
  by (simp only: envelope_keys_def list.set insert_iff empty_iff simp_thms)

lemma upload_members:
  assumes "om_ok vals"
  shows "setting_members (upload_json name vals is_create) = setting_values vals \<and> om_ok (setting_values vals) \<and>
    om_get (setting_values vals) k = (if k \<in> set envelope_keys then None else map_option String (om_get vals k))"
proof (intro conjI)
  show "setting_members (upload_json name vals is_create) = setting_values vals"
    by (simp add: setting_members_def upload_find plain_key_def key_stop_def upload_values_def Let_def)
  show "om_ok (setting_values vals)" unfolding setting_values_def by (intro om_ok_map om_ok_filter assms)
  show "om_get (setting_values vals) k = (if k \<in> set envelope_keys then None else map_option String (om_get vals k))"
    by (simp add: setting_values_def om_get_map om_get_filter)
qed

lemma upload_read_back:
  assumes "om_ok vals" and "k \<noteq> ''user_id''" and "k \<noteq> ''updated_time''"
  shows "om_get (fill_values_from_full (upload_json name vals is_create) uid) k =
    (if k \<notin> set envelope_keys \<and> om_get vals k \<noteq> None then om_get vals k
     else if k \<in> set copied_keys \<and> copied (upload_json name vals is_create) k \<noteq> None then copied (upload_json name vals is_create) k
     else if k = ''base_id'' then Some [] else None)"
proof -
  note m = upload_members [OF assms(1), of name is_create]
  define F where "F = (if k \<in> set copied_keys \<and> copied (upload_json name vals is_create) k \<noteq> None
    then copied (upload_json name vals is_create) k else if k = ''base_id'' then Some [] else None)"
  have "om_ok (setting_members (upload_json name vals is_create))" using m by metis
  from fill_values_get [OF this, of uid k, folded F_def]
  have "om_get (fill_values_from_full (upload_json name vals is_create) uid) k =
      (case om_get (setting_values vals) k of Some v \<Rightarrow> Some (json_scalar_to_string v) | None \<Rightarrow> F)"
    using assms(2,3) m [of k] by simp
  then show ?thesis unfolding F_def [symmetric]
    using m [of k] by (cases "om_get vals k") (simp_all add: json_scalar_to_string_def)
qed

text \<open>C5: what is uploaded reads back. If the service returns the document it was sent, then the map Studio
  is given has every option of the preset with its value, whatever bytes keys and values hold, and no
  other option; name, type, version and base id are those of the upload.
\<close>

theorem preset_reads_back:
  assumes "om_ok vals" and "k \<noteq> ''code''" "k \<noteq> ''setting_id''" "k \<noteq> ''user_id''" "k \<noteq> ''public''" "k \<noteq> ''updated_time''"
  shows "\<exists>doc. parse_opt (build_upload_body name vals is_create) = Some doc \<and>
    get_or (fill_values_from_full doc uid) k = (if k = ''name'' then name else get_or vals k) \<and>
    (k \<notin> set envelope_keys \<longrightarrow> om_get (fill_values_from_full doc uid) k = om_get vals k)"
proof -
  let ?d = "upload_json name vals is_create"
  note r = upload_read_back [OF assms(1), of k name is_create uid]
  have plain: "om_get (fill_values_from_full ?d uid) k = om_get vals k" if e: "k \<notin> set envelope_keys"
  proof -
    have "k \<noteq> ''base_id''" using e unfolding envelope_key by (rule contrapos_nn) simp
    moreover have "\<not> (k \<in> set copied_keys \<and> copied ?d k \<noteq> None)"
      using e copied_keys_envelope copied_upload(2) [of name vals is_create] unfolding list_all_iff by metis
    ultimately show ?thesis using e r [OF assms(4,6)] by (cases "om_get vals k") simp_all
  qed
  have "get_or (fill_values_from_full ?d uid) k = (if k = ''name'' then name else get_or vals k)"
  proof (cases "k \<in> set envelope_keys")
    case True
    then have "om_get (fill_values_from_full ?d uid) k =
        (if k \<in> set copied_keys \<and> copied ?d k \<noteq> None then copied ?d k else if k = ''base_id'' then Some [] else None)"
      using r [OF assms(4,6)] by simp
    moreover have "k = ''name'' \<or> k = ''type'' \<or> k = ''version'' \<or> k = ''base_id''"
      using True assms(2-5) unfolding envelope_key by metis
    ultimately show ?thesis
      by (elim disjE) (simp_all add: get_or_def copied_keys_def copied_upload copied_envelope)
  next
    case False
    then have "k \<noteq> ''name''" unfolding envelope_key by metis
    with plain [OF False] show ?thesis by (simp add: get_or_def)
  qed
  with plain parse_upload [OF assms(1)] show ?thesis by blast
qed

theorem preset_reads_back_witness:
  "\<exists>doc. parse_opt (build_upload_body ''My PLA'' [(''inherits'', ''Bambu PLA''), (''nozzle_temperature'', ''220,220''), (''type'', ''filament'')] True) = Some doc \<and>
     om_get (fill_values_from_full doc ''u'') ''nozzle_temperature'' = Some ''220,220''"
  using preset_reads_back [of "[(''inherits'', ''Bambu PLA''), (''nozzle_temperature'', ''220,220''), (''type'', ''filament'')]"
      "''nozzle_temperature''" "''My PLA''" True "''u''"]
  by (auto simp: om_ok_def envelope_key om_get_def)


section \<open>Time stamps\<close>

definition utc_text :: "int \<Rightarrow> bytes" where
  "utc_text t =
     (let f = gmtime t in
      show_padded 4 (tm_year f + 1900) @ ''-'' @ show_padded 2 (tm_mon f + 1) @ ''-'' @ show_padded 2 (tm_mday f) @ '' '' @
      show_padded 2 (tm_hour f) @ '':'' @ show_padded 2 (tm_min f) @ '':'' @ show_padded 2 (tm_sec f))"

lemma length_show_padded: "0 \<le> i \<Longrightarrow> i < 10 ^ Suc w \<Longrightarrow> length (show_padded (Suc w) i) = Suc w"
proof -
  assume i: "0 \<le> i" "i < 10 ^ Suc w"
  then have "int (nat i) < int (10 ^ Suc w)" by simp
  then have "nat i < 10 ^ Suc w" by (simp only: of_nat_less_iff)
  with show_nat_length [of "nat i" w] i show ?thesis by (simp add: show_padded_nonneg)
qed

lemma scan_width_padded:
  assumes "0 \<le> i" "i < 10 ^ Suc w" "Suc w < 5" "b = [] \<or> b = [BLANK]"
  shows "scan_width (Suc w) (b @ show_padded (Suc w) i @ r) = Some (i, r)"
proof -
  note l = length_show_padded [OF assms(1,2)]
  have "i < 10 ^ 4" using assms(2,3) power_increasing [of "Suc w" 4 "10 :: int"] by simp
  then have s: "scan_int (show_padded (Suc w) i) = Some (i, [])"
    using scan_int_padded [of i "[]" "Suc w"] assms(1) by simp
  have "show_padded (Suc w) i \<noteq> []" "\<forall>c \<in> set (show_padded (Suc w) i). is_digit c"
    using l zeros_digits [of "Suc w - length (show_nat (nat i))" "nat i"] assms(1) by (auto simp: show_padded_nonneg)
  then have "dropWhile is_space (show_padded (Suc w) i @ r) = show_padded (Suc w) i @ r" by (rule digits_hd)
  then have "dropWhile is_space (b @ show_padded (Suc w) i @ r) = show_padded (Suc w) i @ r"
    using assms(4) by (auto simp: is_space_def)
  then show ?thesis using l s by (simp add: scan_width_def)
qed


lemma padded_no_nul: "0 \<le> i \<Longrightarrow> CHR 0x00 \<notin> set (show_padded w i)"
proof -
  assume "0 \<le> i"
  then have "\<forall>c \<in> set (show_padded w i). is_digit c" using zeros_digits [of "w - length (show_nat (nat i))" "nat i"]
    by (simp add: show_padded_nonneg)
  moreover have "\<not> is_digit (CHR 0x00)" by (simp add: is_digit_def)
  ultimately show ?thesis by blast
qed

text \<open>Time stamps of the service, up to the year 4000: the seconds Studio gets are the ones the text stands for.\<close>

theorem iso_utc_roundtrip:
  assumes "0 < t" and "t < 2 ^ 36" shows "parse_iso_utc (utc_text t) = t"
proof -
  define f where "f = gmtime t"
  note g = gmtime_fields [OF f_def]
  obtain y mon day where c: "civil_from_days (t div 86400) = (y, mon, day)" by (metis surj_pair)
  have "0 \<le> (t div 86400 + 719468) div 146097" "(t div 86400 + 719468) div 146097 \<le> 10" using assms by simp_all
  then have "0 \<le> y \<and> y < 10 ^ 4" using civil_roundtrip [OF c] by simp
  then have y: "0 \<le> tm_year f + 1900" "tm_year f + 1900 < 10 ^ Suc 3"
    using c by (simp_all add: f_def gmtime_def Let_def)
  have p: "scan_width 4 (show_padded 4 (tm_year f + 1900) @ r) = Some (tm_year f + 1900, r)"
    "scan_width 2 (show_padded 2 (tm_mon f + 1) @ r) = Some (tm_mon f + 1, r)"
    "scan_width 2 (show_padded 2 (tm_mday f) @ r) = Some (tm_mday f, r)"
    "scan_width 2 (BLANK # show_padded 2 (tm_hour f) @ r) = Some (tm_hour f, r)"
    "scan_width 2 (show_padded 2 (tm_min f) @ r) = Some (tm_min f, r)"
    "scan_width 2 (show_padded 2 (tm_sec f)) = Some (tm_sec f, [])" for r
    using scan_width_padded [of "tm_year f + 1900" 3 "[]" r] scan_width_padded [of "tm_mon f + 1" 1 "[]" r]
      scan_width_padded [of "tm_mday f" 1 "[]" r] scan_width_padded [of "tm_hour f" 1 "[BLANK]" r]
      scan_width_padded [of "tm_min f" 1 "[]" r] scan_width_padded [of "tm_sec f" 1 "[]" "[]"] y g
    by (simp_all add: numeral_eq_Suc)
  have shape: "utc_text t = show_padded 4 (tm_year f + 1900) @ CHR ''-'' # show_padded 2 (tm_mon f + 1) @ CHR ''-'' #
      show_padded 2 (tm_mday f) @ BLANK # show_padded 2 (tm_hour f) @ CHR '':'' #
      show_padded 2 (tm_min f) @ CHR '':'' # show_padded 2 (tm_sec f)"
    by (simp add: utc_text_def f_def [symmetric] Let_def)
  have "CHR 0x00 \<notin> set (utc_text t)" unfolding shape using y g by (simp add: padded_no_nul)
  then have "c_str (utc_text t) = utc_text t" by (rule c_str_id)
  moreover have "scan_widths iso_format (utc_text t) =
      Some [tm_year f + 1900, tm_mon f + 1, tm_mday f, tm_hour f, tm_min f, tm_sec f]"
    unfolding shape iso_format_def by (simp add: p scan_char_def)
  moreover have "utc_text t \<noteq> []" by (simp add: shape)
  moreover have "timegm f = t" using g by simp
  ultimately show ?thesis using assms(1) by (cases f) (simp add: parse_iso_utc_def)
qed

theorem iso_utc_roundtrip_witness: "parse_iso_utc (utc_text 1776791487) = 1776791487"
  by (rule iso_utc_roundtrip) simp_all


section \<open>The synchronised cache\<close>

definition entry_ok :: "bytes \<Rightarrow> preset_values \<Rightarrow> bool" where
  "entry_ok uid vals =
     (om_ok vals \<and> get_or vals ''name'' \<noteq> [] \<and> get_or vals ''type'' \<noteq> [] \<and> get_or vals ''setting_id'' \<noteq> [] \<and>
      get_or vals ''updated_time'' \<noteq> [] \<and> (uid \<noteq> [] \<longrightarrow> get_or vals ''user_id'' = uid))"

lemma get_or_put [simp]: "om_ok vals \<Longrightarrow> get_or (om_put k v vals) k' = (if k' = k then v else get_or vals k')"
  by (simp add: get_or_def)

lemma put_if_ok [simp]: "om_ok vals \<Longrightarrow> om_ok (put_if c k v vals)"
  by (simp add: put_if_def)

lemma get_or_put_if [simp]: "om_ok vals \<Longrightarrow> get_or (put_if c k v vals) k' = (if c \<and> k' = k then v else get_or vals k')"
  by (simp add: put_if_def)

lemma fill_in_ok [simp]: "om_ok vals \<Longrightarrow> om_ok (fill_in k v vals)"
  by (simp add: fill_in_def)

lemma get_or_fill_in [simp]:
  "om_ok vals \<Longrightarrow> get_or (fill_in k v vals) k' = (if k' = k \<and> get_or vals k = [] then v else get_or vals k')"
  by (simp add: fill_in_def)

lemma catalogue_meta: "m \<in> set (catalogue doc) \<Longrightarrow> pm_name m \<noteq> [] \<and> pm_setting_id m \<noteq> [] \<and> pm_type m \<noteq> []"
  by (auto simp: catalogue_def meta_of_def Let_def)

lemma show_int_nonempty: "show_int n \<noteq> []"
  by (simp add: show_int_def)

lemma minimal_ok:
  assumes "pm_name m \<noteq> []" "pm_setting_id m \<noteq> []" "pm_type m \<noteq> []"
  shows "entry_ok uid (meta_to_minimal_values_map m uid)"
  using assms by (simp add: entry_ok_def meta_to_minimal_values_map_def Let_def show_int_nonempty del: om_put.simps)

lemma setting_members_ok: "wf_json doc \<Longrightarrow> om_ok (setting_members doc)"
  using wf_jfind [of doc "''setting''"] by (auto simp: setting_members_def split: json.split)

lemma filled_ok:
  assumes "om_ok (setting_members doc)"
  shows "om_ok (fill_values_from_full doc uid) \<and> get_or (fill_values_from_full doc uid) ''updated_time'' \<noteq> [] \<and>
    (uid \<noteq> [] \<longrightarrow> get_or (fill_values_from_full doc uid) ''user_id'' = uid)"
  using fill_values_get [OF assms, of uid "''updated_time''"] fill_values_get [OF assms, of uid "''user_id''"]
  by (simp add: get_or_def show_int_nonempty)

lemma completed_ok:
  assumes "om_ok vals" "get_or vals ''updated_time'' \<noteq> []" "uid \<noteq> [] \<longrightarrow> get_or vals ''user_id'' = uid"
    "pm_name m \<noteq> []" "pm_setting_id m \<noteq> []" "pm_type m \<noteq> []"
  shows "entry_ok uid (completed m vals)"
  using assms by (simp add: entry_ok_def completed_def Let_def)


lemma get_full_ok:
  assumes "get_full s ag sid wb = ((net_success, vals), wb')"
  shows "om_ok vals \<and> get_or vals ''updated_time'' \<noteq> [] \<and> (cloud_user_id ag \<noteq> [] \<longrightarrow> get_or vals ''user_id'' = cloud_user_id ag)"
proof -
  have "\<exists>resp :: http_response. vals = fill_values_from_full (parse_body (hr_body resp)) (cloud_user_id ag)"
    using assms by (auto simp: get_full_def net_codes net_err_get_setting_list_failed_def split: if_splits option.splits prod.splits)
  then obtain resp :: http_response where v: "vals = fill_values_from_full (parse_body (hr_body resp)) (cloud_user_id ag)" ..
  have "wf_json (parse_body b)" for b by (auto simp: parse_body_def parse_opt_def dest: parse_wf split: sum.splits option.splits)
  then have "om_ok (setting_members (parse_body (hr_body resp)))" by (rule setting_members_ok)
  from filled_ok [OF this] show ?thesis unfolding v by blast
qed

definition meta_ok :: "preset_meta \<Rightarrow> bool" where
  "meta_ok m = (pm_name m \<noteq> [] \<and> pm_setting_id m \<noteq> [] \<and> pm_type m \<noteq> [])"

text \<open>The cache holds a usable entry under each of the names and nothing else.\<close>

definition cache_holds :: "bytes \<Rightarrow> bytes set \<Rightarrow> agent \<Rightarrow> bool" where
  "cache_holds uid names ag =
     (om_ok (ag_presets ag) \<and> (\<forall>k. om_get (ag_presets ag) k \<noteq> None \<longleftrightarrow> k \<in> names) \<and>
      (\<forall>k vals. om_get (ag_presets ag) k = Some vals \<longrightarrow> entry_ok uid vals))"

lemma sync_one_holds:
  assumes "sync_one s chk (cloud_user_id ag) m ag wb = (ag', wb')" and "meta_ok m" and "cache_holds (cloud_user_id ag) names ag"
  shows "cache_holds (cloud_user_id ag) (insert (pm_name m) names) ag' \<and> ag_auth ag' = ag_auth ag"
proof -
  note mo = assms(2) [unfolded meta_ok_def]
  have "\<exists>vals. ag' = preset_cache_put (pm_name m) vals ag \<and> entry_ok (cloud_user_id ag) vals"
    using assms(1) mo minimal_ok [of m "cloud_user_id ag"] completed_ok [of _ "cloud_user_id ag" m] get_full_ok
    by (fastforce simp: sync_one_def split: if_splits prod.splits)
  then show ?thesis using assms(3) by (auto simp: cache_holds_def preset_cache_put_def split: if_splits)
qed

text \<open>What the progress callback is told: never backwards, and 100 exactly at the end.\<close>

lemma sync_loop_holds:
  assumes "sync_loop s chk cancelled uid tot d ms ag wb = ((rc, ps), ag', wb')" and "list_all meta_ok ms"
    and "uid = cloud_user_id ag" and "cache_holds uid names ag" and "d + length ms = tot"
  shows "(\<exists>done. done \<le> length ms \<and> cache_holds uid (names \<union> pm_name ` set (take done ms)) ag' \<and>
      (rc = net_success \<longrightarrow> done = length ms)) \<and> (rc = net_success \<or> rc = net_err_canceled) \<and>
    (rc = net_success \<longrightarrow> ps \<noteq> [] \<and> last ps = 100) \<and> (rc \<noteq> net_success \<longrightarrow> 100 \<notin> set ps) \<and>
    sorted ps \<and> (\<forall>p \<in> set ps. min 99 (int (d * 100 div tot)) \<le> p)"
  using assms
proof (induction ms arbitrary: d ag wb names rc ps ag' wb')
  case Nil
  then show ?case by (auto intro!: exI [of _ 0])
next
  case (Cons m ms)
  show ?case
  proof (cases "cancelled d")
    case True
    then show ?thesis using Cons.prems by (auto simp: net_codes net_err_canceled_def intro!: exI [of _ 0])
  next
    case False
    obtain ag1 wb1 where one: "sync_one s chk uid m ag wb = (ag1, wb1)" by (metis surj_pair)
    obtain rc2 ps2 ag2 wb2 where loop: "sync_loop s chk cancelled uid tot (Suc d) ms ag1 wb1 = ((rc2, ps2), ag2, wb2)"
      by (metis surj_pair)
    have e: "rc = rc2" "ps = min 99 (int (Suc d * 100 div tot)) # ps2" "ag' = ag2" using Cons.prems(1) False one loop by auto
    have h: "cache_holds uid (insert (pm_name m) names) ag1" "ag_auth ag1 = ag_auth ag"
      using sync_one_holds [of s chk ag m wb ag1 wb1 names] one Cons.prems(2-4) by auto
    have uid: "uid = cloud_user_id ag1" using h(2) Cons.prems(3) by (simp add: cloud_user_id_def)
    have IH: "(\<exists>done. done \<le> length ms \<and> cache_holds uid (insert (pm_name m) names \<union> pm_name ` set (take done ms)) ag2 \<and>
        (rc2 = net_success \<longrightarrow> done = length ms))" "rc2 = net_success \<or> rc2 = net_err_canceled"
      "rc2 = net_success \<longrightarrow> ps2 \<noteq> [] \<and> last ps2 = 100" "rc2 \<noteq> net_success \<longrightarrow> 100 \<notin> set ps2" "sorted ps2"
      "\<forall>p \<in> set ps2. min 99 (int (Suc d * 100 div tot)) \<le> p"
      using Cons.IH [OF loop _ uid h(1)] Cons.prems(2,5) by auto
    obtain n where n: "n \<le> length ms" "cache_holds uid (insert (pm_name m) names \<union> pm_name ` set (take n ms)) ag2"
      "rc2 = net_success \<longrightarrow> n = length ms" using IH(1) by blast
    have "d * 100 div tot \<le> Suc d * 100 div tot" by (intro div_le_mono) simp
    then have le: "min 99 (int (d * 100 div tot)) \<le> min 99 (int (Suc d * 100 div tot))" by simp
    have "names \<union> pm_name ` set (take (Suc n) (m # ms)) = insert (pm_name m) names \<union> pm_name ` set (take n ms)" by simp
    then have "\<exists>done. done \<le> length (m # ms) \<and> cache_holds uid (names \<union> pm_name ` set (take done (m # ms))) ag' \<and>
        (rc = net_success \<longrightarrow> done = length (m # ms))"
      using n e by (intro exI [of _ "Suc n"]) auto
    moreover have "\<forall>p \<in> set ps. min 99 (int (d * 100 div tot)) \<le> p" using IH(6) le unfolding e by auto
    ultimately show ?thesis using IH(2-6) e by auto
  qed
qed


lemma preset_list_metas:
  assumes "preset_list s ag version wb = ((rc, metas), wb')"
  shows "list_all meta_ok metas \<and> (rc = net_success \<or> rc = net_err_get_setting_list_failed)"
  using assms catalogue_meta
  by (auto simp: preset_list_def list_all_iff meta_ok_def split: if_splits option.splits prod.splits)



lemma sync_loop_uncancelled: "fst (fst (sync_loop s chk (\<lambda>_. False) uid tot d ms ag wb)) = net_success"
  by (induction ms arbitrary: d ag wb) (simp_all add: case_prod_beta' Let_def)

definition one_preset :: json where
  "one_preset = Object [(''filament'', Object [(''private'', Array [Object [(''name'', String ''PLA''), (''setting_id'', String ''P1'')]])])]"

definition preset_agent :: agent where
  "preset_agent = new_agent\<lparr>ag_headers := [(''Authorization'', ''Bearer t'')]\<rparr>"

lemma one_preset_catalogue: "map pm_name (catalogue (parse_body (dump one_preset))) = [''PLA'']"
proof -
  have "dumpable one_preset" by (simp add: one_preset_def om_ok_def)
  from parse_dump [OF this] have p: "parse_body (dump one_preset) = one_preset" by (simp add: parse_body_def parse_opt_def)
  have k: "plain_key ''print''" "plain_key ''printer''" "plain_key ''filament''" "plain_key ''private''" by (simp_all add: plain_key_def key_stop_def)
  have "jfind one_preset (''print'' @ ''.private'') = Null" "jfind one_preset (''printer'' @ ''.private'') = Null"
    "jfind one_preset (''filament'' @ ''.private'') = Array [Object [(''name'', String ''PLA''), (''setting_id'', String ''P1'')]]"
    using jfind_dot [OF k(1), of one_preset "''private''"] jfind_dot [OF k(2), of one_preset "''private''"]
      jfind_dot [OF k(3), of one_preset "''private''"] jfind_key [OF k(4)]
    by (simp_all add: one_preset_def jget_def om_get_def)
  moreover have "jfind (Object [(''name'', String ''PLA''), (''setting_id'', String ''P1'')]) ''name'' = String ''PLA''"
    "jfind (Object [(''name'', String ''PLA''), (''setting_id'', String ''P1'')]) ''setting_id'' = String ''P1''"
    using jfind_key [of "''name''"] jfind_key [of "''setting_id''"] by (simp_all add: plain_key_def key_stop_def jget_def om_get_def)
  ultimately show ?thesis unfolding p by (simp add: catalogue_def meta_of_def Let_def)
qed

definition preset_web :: web where
  "preset_web = \<lparr>wb_agent = [], wb_next = [Responded 200 [] (dump one_preset), Responded 500 [] []], wb_sent = []\<rparr>"

lemma preset_agent_prepared: "\<exists>hdrs. prepare preset_agent = Some hdrs"
  by (simp add: prepare_def preset_agent_def new_agent_def cloud_api_http_headers_def fresh_session_def om_get_def Let_def)

lemma one_preset_listed: "\<exists>wb1. preset_list default_settings preset_agent [] preset_web = ((net_success, catalogue (parse_body (dump one_preset))), wb1)"
proof -
  obtain hdrs where h: "prepare preset_agent = Some hdrs" using preset_agent_prepared by blast
  have "fst (get_json u hs preset_web) = new_response\<lparr>hr_body := dump one_preset, hr_status := 200\<rparr>" for u hs
    by (simp add: get_json_def perform_def response_of_def preset_web_def)
  then have "answered (fst (get_json u hs preset_web))" "hr_body (fst (get_json u hs preset_web)) = dump one_preset" for u hs
    by (simp_all add: answered_def status_ok_def new_response_def)
  then show ?thesis unfolding preset_list_def h option.case case_prod_beta' Let_def by simp
qed


end
