(* ===== verification/Cloud_Calls.thy ===== *)
theory Cloud_Calls
  imports Preset_Laws
begin

text \<open>
  What the account calls of the filament, bind and preset services share: whatever they are asked and
  whatever the service answers, they send the user's token or nothing. The contract is the locale
  \<open>account_call\<close>; each operation is an instance.
\<close>

definition authorised :: "agent \<Rightarrow> wire_request \<Rightarrow> bool" where
  "authorised ag w = (\<exists>v. om_get (cloud_api_http_headers ag) ''Authorization'' = Some v \<and>
     header_text (''Authorization'', v) \<in> set (wq_lines w))"

locale account_call =
  fixes call :: "agent \<Rightarrow> web \<Rightarrow> web"
  assumes authorised_only: "sends (authorised ag) wb (call ag wb)"
begin

lemma silent: "om_get (cloud_api_http_headers ag) ''Authorization'' = None \<Longrightarrow> wb_sent (call ag wb) = wb_sent wb"
  using authorised_only [of ag wb] by (auto simp: sends_def authorised_def list_all_iff)

end

section \<open>The operations\<close>

lemma wire_header: "(k, v) \<in> set (hq_headers rq) \<Longrightarrow> header_text (k, v) \<in> set (wq_lines (wire_of a rq))"
  by (auto simp: wire_of_def)

lemma authorised_wire:
  assumes "om_get (cloud_api_http_headers ag) ''Authorization'' = Some v" and "om_get (hq_headers rq) ''Authorization'' = Some v"
  shows "authorised ag (wire_of a rq)"
  using assms wire_header [OF om_get_in_set [OF assms(2)]] by (auto simp: authorised_def)

lemma prepared: "prepare ag = Some hdrs \<Longrightarrow> hdrs = cloud_api_http_headers ag \<and> (\<exists>v. om_get hdrs ''Authorization'' = Some v)"
  by (auto simp: prepare_def Let_def split: if_splits)

lemma logged_in_token:
  assumes "user_logged_in ag"
  shows "om_get (cloud_api_http_headers ag) ''Authorization'' = Some (''Bearer '' @ si_access_token (session_of ag))"
proof -
  have "om_ok m \<Longrightarrow> om_ok (fold (\<lambda>(k, v). om_put k v) kvs m)" for kvs :: "(bytes \<times> bytes) list" and m
    by (induction kvs arbitrary: m) (auto split: prod.split)
  then have "om_ok (fold (\<lambda>(k, v). om_put k v) (ag_headers ag) [])" by simp
  then show ?thesis
    using assms by (auto simp: cloud_api_http_headers_def session_of_def user_logged_in_def logged_in_def Let_def split: option.splits)
qed

text \<open>Each way of making a request with headers that keep the token.\<close>

definition keeps_token :: "agent \<Rightarrow> (bytes, bytes) omap \<Rightarrow> bool" where
  "keeps_token ag hdrs = (\<exists>v. om_get (cloud_api_http_headers ag) ''Authorization'' = Some v \<and> om_get hdrs ''Authorization'' = Some v)"

lemma keeps_prepared [intro]:
  "prepare ag = Some hdrs \<Longrightarrow> keeps_token ag hdrs" "prepare ag = Some hdrs \<Longrightarrow> keeps_token ag (om_del ''Content-Type'' hdrs)"
  using prepared [of ag hdrs] by (auto simp: keeps_token_def)

lemma keeps_logged_in [intro]: "user_logged_in ag \<Longrightarrow> keeps_token ag (cloud_api_http_headers ag)"
  using logged_in_token [of ag] by (simp add: keeps_token_def)

lemma perform_authorised: "perform rq wb = (resp, wb') \<Longrightarrow> keeps_token ag (hq_headers rq) \<Longrightarrow> sends (authorised ag) wb wb'"
  by (erule sends_perform) (auto simp: keeps_token_def intro: authorised_wire)

lemma requests_authorised:
  "get_json url hdrs wb = (resp, wb') \<Longrightarrow> keeps_token ag hdrs \<Longrightarrow> sends (authorised ag) wb wb'"
  "post_json url body hdrs wb = (resp, wb') \<Longrightarrow> keeps_token ag hdrs \<Longrightarrow> sends (authorised ag) wb wb'"
  "http_patch url body hdrs wb = (resp, wb') \<Longrightarrow> keeps_token ag hdrs \<Longrightarrow> sends (authorised ag) wb wb'"
  "http_delete url hdrs wb = (resp, wb') \<Longrightarrow> keeps_token ag hdrs \<Longrightarrow> sends (authorised ag) wb wb'"
  unfolding get_json_def post_json_def http_patch_def http_delete_def
  by (erule perform_authorised, simp add: new_request_def)+

lemmas call_authorised = requests_authorised perform_authorised keeps_prepared keeps_logged_in

text \<open>The filament manager.\<close>

interpretation spool_list: account_call "\<lambda>ag wb. snd (filament_list s ag q wb)" for s q
  by unfold_locales (auto simp: filament_list_def split: option.split prod.split intro: call_authorised)

interpretation spool_create: account_call "\<lambda>ag wb. snd (filament_create s ag body wb)" for s body
  by unfold_locales (auto simp: filament_create_def split: option.split prod.split intro: call_authorised)

interpretation spool_update: account_call "\<lambda>ag wb. snd (filament_update s ag sid body wb)" for s sid body
  by unfold_locales (auto simp: filament_update_def new_request_def split: option.split prod.split intro!: perform_authorised)

interpretation spool_delete: account_call "\<lambda>ag wb. snd (batch_delete s ag p wb)" for s p
  by unfold_locales (auto simp: batch_delete_def new_request_def split: option.split prod.split intro!: perform_authorised)

interpretation spool_config: account_call "\<lambda>ag wb. snd (filament_config s ag wb)" for s
  by unfold_locales (auto simp: filament_config_def split: option.split prod.split intro: call_authorised)

text \<open>Binding.\<close>

lemma ping_keys_authorised: "keeps_token ag hdrs \<Longrightarrow> sends (authorised ag) wb (snd (ping_keys ks url code hdrs wb))"
proof (induction ks arbitrary: wb)
  case (Cons k ks)
  obtain resp wb1 where p: "post_json url (CHR ''{'' # QUOTE # k @ [QUOTE, CHR '':''] @ escape code @ ''}'') hdrs wb = (resp, wb1)"
    by (metis surj_pair)
  from sends_trans [OF requests_authorised(2) [OF p Cons.prems] Cons.IH [OF Cons.prems]] requests_authorised(2) [OF p Cons.prems]
  show ?case using p by simp
qed simp

interpretation ping: account_call "\<lambda>ag wb. snd (ping_bind s ag code wb)" for s code
  by unfold_locales (auto simp: ping_bind_def split: option.split intro!: ping_keys_authorised simp del: ping_keys.simps)

interpretation bind: account_call "\<lambda>ag wb. snd (snd (bind_lan_to_account s ag ip dev tz improved wb))" for s ip dev tz improved
  by unfold_locales (auto simp: bind_lan_to_account_def Let_def split: option.split prod.split intro: call_authorised)

interpretation bind_status: account_call "\<lambda>ag wb. snd (query_bind_status s ag devs wb)" for s devs
  by unfold_locales (auto simp: query_bind_status_def split: prod.split intro: call_authorised)

interpretation rename: account_call "\<lambda>ag wb. snd (modify_printer_name s ag dev name wb)" for s dev name
  by unfold_locales (auto simp: modify_printer_name_def split: prod.split intro: call_authorised)

interpretation unbind: account_call "\<lambda>ag wb. snd (unbind_device s ag dev wb)" for s dev
  by unfold_locales (auto simp: unbind_device_def split: prod.split intro: call_authorised)

lemma ticket_paths_authorised: "user_logged_in ag \<Longrightarrow> sends (authorised ag) wb (snd (ticket_paths ps s ag wb))"
proof (induction ps arbitrary: wb)
  case Nil
  then show ?case by (auto simp: Let_def split: prod.split intro: call_authorised)
next
  case (Cons path ps)
  obtain resp wb1 where p: "post_json (api_base s ag @ path) ''{}'' (cloud_api_http_headers ag) wb = (resp, wb1)" by (metis surj_pair)
  from sends_trans [OF requests_authorised(2) [OF p keeps_logged_in] Cons.IH] requests_authorised(2) [OF p keeps_logged_in]
  show ?case using p Cons.prems by (simp add: Let_def)
qed

interpretation sso: account_call "\<lambda>ag wb. snd (request_web_sso_ticket s ag wb)" for s
  by unfold_locales (auto simp: request_web_sso_ticket_def intro!: ticket_paths_authorised simp del: ticket_paths.simps)

text \<open>Presets.\<close>

interpretation preset_listing: account_call "\<lambda>ag wb. snd (preset_list s ag version wb)" for s version
  by unfold_locales (auto simp: preset_list_def Let_def split: option.split prod.split intro: call_authorised)

interpretation preset_download: account_call "\<lambda>ag wb. snd (get_full s ag sid wb)" for s sid
  by unfold_locales (auto simp: get_full_def split: option.split prod.split intro: call_authorised)

interpretation preset_creation: account_call "\<lambda>ag wb. snd (preset_create s ag name vals wb)" for s name vals
  by unfold_locales (auto simp: preset_create_def Let_def split: option.split prod.split intro: call_authorised)

interpretation preset_change: account_call "\<lambda>ag wb. snd (preset_update s ag sid name vals wb)" for s sid name vals
  by unfold_locales (auto simp: preset_update_def new_request_def Let_def split: option.split prod.split intro!: perform_authorised)

interpretation preset_removal: account_call "\<lambda>ag wb. snd (preset_del s ag sid wb)" for s sid
  by unfold_locales (auto simp: preset_del_def split: option.split prod.split intro: call_authorised)


lemma cache_keeps_headers [simp]:
  "cloud_api_http_headers (preset_cache_put k vals ag) = cloud_api_http_headers ag"
  "cloud_api_http_headers (preset_cache_reset ag) = cloud_api_http_headers ag"
  by (simp_all add: cloud_api_http_headers_def preset_cache_put_def preset_cache_reset_def)

lemma authorised_cong: "cloud_api_http_headers ag' = cloud_api_http_headers ag \<Longrightarrow> authorised ag' = authorised ag"
  by (rule ext) (simp add: authorised_def)

lemma sync_one_authorised:
  "sync_one s chk uid m ag wb = (ag', wb') \<Longrightarrow> sends (authorised ag) wb wb' \<and> cloud_api_http_headers ag' = cloud_api_http_headers ag"
  using preset_download.authorised_only [of ag wb s "pm_setting_id m"]
  by (auto simp: sync_one_def split: if_splits prod.splits)

lemma sync_loop_authorised:
  "sync_loop s chk cancelled uid tot d ms ag wb = (r, ag', wb') \<Longrightarrow>
   sends (authorised ag) wb wb' \<and> cloud_api_http_headers ag' = cloud_api_http_headers ag"
proof (induction ms arbitrary: d ag wb r ag' wb')
  case (Cons m ms)
  show ?case
  proof (cases "cancelled d")
    case False
    obtain ag1 wb1 where one: "sync_one s chk uid m ag wb = (ag1, wb1)" by (metis surj_pair)
    obtain r2 ag2 wb2 where loop: "sync_loop s chk cancelled uid tot (Suc d) ms ag1 wb1 = (r2, ag2, wb2)" by (metis surj_pair)
    have "ag' = ag2" "wb' = wb2" using Cons.prems False one loop by (auto split: prod.splits)
    with sync_one_authorised [OF one] Cons.IH [OF loop] authorised_cong sends_trans show ?thesis by metis
  qed (use Cons.prems in auto)
qed auto

lemma sync_authorised:
  assumes "sync_user_presets s version chk cancelled ag wb = (r, ag', wb')"
  shows "sends (authorised ag) wb wb' \<and> cloud_api_http_headers ag' = cloud_api_http_headers ag"
proof -
  obtain lrc metas wb1 where l: "preset_list s ag version wb = ((lrc, metas), wb1)" by (metis surj_pair)
  then have 1: "sends (authorised ag) wb wb1" using preset_listing.authorised_only [of ag wb s version] by simp
  show ?thesis
  proof (cases "lrc = net_success \<and> metas \<noteq> []")
    case True
    then have "sync_loop s chk cancelled (cloud_user_id (preset_cache_reset ag)) (length metas) 0 metas (preset_cache_reset ag) wb1 = (r, ag', wb')"
      using assms l by (simp add: sync_user_presets_def Let_def)
    from sync_loop_authorised [OF this] show ?thesis
      using sends_trans [OF 1] by (simp add: authorised_cong [of "preset_cache_reset ag" ag])
  next
    case False
    then show ?thesis using assms l 1 by (auto simp: sync_user_presets_def Let_def split: if_splits)
  qed
qed

lemma sync_state_authorised: "snd (sync_user_presets s version chk cancelled ag wb) = (ag', wb') \<Longrightarrow>
    sends (authorised ag) wb wb' \<and> cloud_api_http_headers ag' = cloud_api_http_headers ag"
  by (rule sync_authorised [of s version chk cancelled ag wb "fst (sync_user_presets s version chk cancelled ag wb)"])
    (metis prod.collapse)

interpretation preset_sync: account_call "\<lambda>ag wb. snd (snd (sync_user_presets s version chk cancelled ag wb))" for s version chk cancelled
  using sync_authorised by unfold_locales (metis prod.collapse)

section \<open>Any sequence of calls\<close>

datatype account_request =
    List_spools filament_query | Create_spool bytes | Update_spool bytes bytes | Delete_spools filament_delete | Spool_config
  | Ping bytes | Bind bytes bytes bytes bool | Bind_status "bytes list" | Rename bytes bytes | Unbind bytes | Sso_ticket
  | Create_preset bytes preset_values | Update_preset bytes bytes preset_values | Delete_preset bytes
  | Sync_presets bytes "(preset_values \<Rightarrow> bool) option" "nat \<Rightarrow> bool"

fun run_request :: "settings \<Rightarrow> account_request \<Rightarrow> agent \<Rightarrow> web \<Rightarrow> agent \<times> web" where
  "run_request s (List_spools q) ag wb = (ag, snd (filament_list s ag q wb))"
| "run_request s (Create_spool body) ag wb = (ag, snd (filament_create s ag body wb))"
| "run_request s (Update_spool sid body) ag wb = (ag, snd (filament_update s ag sid body wb))"
| "run_request s (Delete_spools p) ag wb = (ag, snd (batch_delete s ag p wb))"
| "run_request s Spool_config ag wb = (ag, snd (filament_config s ag wb))"
| "run_request s (Ping code) ag wb = (ag, snd (ping_bind s ag code wb))"
| "run_request s (Bind ip dev tz improved) ag wb = (ag, snd (snd (bind_lan_to_account s ag ip dev tz improved wb)))"
| "run_request s (Bind_status devs) ag wb = (ag, snd (query_bind_status s ag devs wb))"
| "run_request s (Rename dev name) ag wb = (ag, snd (modify_printer_name s ag dev name wb))"
| "run_request s (Unbind dev) ag wb = (ag, snd (unbind_device s ag dev wb))"
| "run_request s Sso_ticket ag wb = (ag, snd (request_web_sso_ticket s ag wb))"
| "run_request s (Create_preset name vals) ag wb = (ag, snd (preset_create s ag name vals wb))"
| "run_request s (Update_preset sid name vals) ag wb = (ag, snd (preset_update s ag sid name vals wb))"
| "run_request s (Delete_preset sid) ag wb = (ag, snd (preset_del s ag sid wb))"
| "run_request s (Sync_presets version chk cancelled) ag wb = snd (sync_user_presets s version chk cancelled ag wb)"

fun run_requests :: "settings \<Rightarrow> account_request list \<Rightarrow> agent \<Rightarrow> web \<Rightarrow> agent \<times> web" where
  "run_requests s [] ag wb = (ag, wb)"
| "run_requests s (r # rs) ag wb = (let (ag', wb') = run_request s r ag wb in run_requests s rs ag' wb')"

lemma run_request_authorised:
  "run_request s r ag wb = (ag', wb') \<Longrightarrow> sends (authorised ag) wb wb' \<and> cloud_api_http_headers ag' = cloud_api_http_headers ag"
  using spool_list.authorised_only spool_create.authorised_only spool_update.authorised_only spool_delete.authorised_only
    spool_config.authorised_only ping.authorised_only bind.authorised_only bind_status.authorised_only rename.authorised_only
    unbind.authorised_only sso.authorised_only preset_creation.authorised_only preset_change.authorised_only
    preset_removal.authorised_only sync_state_authorised
  by (cases r) auto

lemma run_requests_authorised:
  "run_requests s rs ag wb = (ag', wb') \<Longrightarrow> sends (authorised ag) wb wb' \<and> cloud_api_http_headers ag' = cloud_api_http_headers ag"
proof (induction rs arbitrary: ag wb)
  case (Cons r rs)
  obtain ag1 wb1 where one: "run_request s r ag wb = (ag1, wb1)" by (metis surj_pair)
  have rest: "run_requests s rs ag1 wb1 = (ag', wb')" using Cons.prems one by simp
  with run_request_authorised [OF one] Cons.IH [OF rest] authorised_cong sends_trans show ?case by metis
qed auto



end
