(* ===== verification/Print_Laws.thy ===== *)
theory Print_Laws
  imports Print_Job Ssdp Firmware
begin

text \<open>
  What holds of a print over the LAN: the names it uses, the document it publishes, and that the
  message names a file only after the upload of that very file.
\<close>

section \<open>Names\<close>

definition clean_char :: "char \<Rightarrow> bool" where
  "clean_char c = ((0x20 :: nat) \<le> code_of c \<and> c \<noteq> SLASH \<and> c \<noteq> BSLASH)"

definition clean_name :: "bytes \<Rightarrow> bool" where
  "clean_name n = (n \<noteq> [] \<and> list_all clean_char n \<and> hd n \<noteq> CHR ''.'' \<and> hd n \<noteq> BLANK)"

lemma clean_sanitize_char: "clean_char (sanitize_char c)"
  by (cases "code_of c < (0x20 :: nat) \<or> c = SLASH \<or> c = BSLASH") (simp_all add: clean_char_def sanitize_char_def)

lemma sanitize_char_start: "c \<noteq> CHR ''.'' \<Longrightarrow> c \<noteq> BLANK \<Longrightarrow> sanitize_char c \<noteq> CHR ''.'' \<and> sanitize_char c \<noteq> BLANK"
  by (simp add: sanitize_char_def)

lemma prefix_hd: "prefix xs ys \<Longrightarrow> xs \<noteq> [] \<Longrightarrow> ys \<noteq> [] \<and> hd ys = hd xs"
  by (auto simp: prefix_def)

lemma clean_name_map:
  assumes "r \<noteq> []" and "hd r \<noteq> CHR ''.''" and "hd r \<noteq> BLANK"
  shows "clean_name (map sanitize_char r)"
  unfolding clean_name_def using assms clean_sanitize_char sanitize_char_start
  by (simp add: hd_map list_all_iff)

lemma sanitize_head:
  assumes "rtrim_by Q (ltrim_by P n) \<noteq> []"
  shows "\<not> P (hd (rtrim_by Q (ltrim_by P n)))"
proof -
  from prefix_hd [OF rtrim_by_prefix assms]
  have "ltrim_by P n \<noteq> []" and h: "hd (ltrim_by P n) = hd (rtrim_by Q (ltrim_by P n))" by simp_all
  then have "\<not> P (hd (ltrim_by P n))" using ltrim_by_hd [of P n] by blast
  then show ?thesis by (simp only: h not_False_eq_True)
qed

lemma sanitize_clean: "sanitize_remote_name n = [] \<or> clean_name (sanitize_remote_name n)"
proof (cases "sanitize_remote_name n = []")
  case False
  let ?P = "\<lambda>c. c = CHR ''.'' \<or> c = SLASH \<or> c = BSLASH \<or> c = BLANK"
  let ?r = "rtrim_by (\<lambda>c. c = BLANK \<or> c = CHR ''.'') (ltrim_by ?P n)"
  have r: "?r \<noteq> []" using False by (simp add: sanitize_remote_name_def)
  from sanitize_head [OF r] have "hd ?r \<noteq> CHR ''.''" and "hd ?r \<noteq> BLANK" by simp_all
  from clean_name_map [OF r this] show ?thesis by (simp only: sanitize_remote_name_def simp_thms)
qed simp

lemma clean_name_extend:
  assumes "n \<noteq> []" and "prefix n m" and "clean_name m"
  shows "clean_name (n @ ''.gcode.3mf'')"
proof -
  have "list_all clean_char n" using assms(2,3) by (auto simp: clean_name_def prefix_def)
  moreover have "list_all clean_char ''.gcode.3mf''" by (simp add: clean_char_def)
  ultimately show ?thesis
    using assms(1,3) prefix_hd [OF assms(2,1)] unfolding clean_name_def by (simp only: list_all_append hd_append2) simp
qed

lemma strip_3mf_prefix: "prefix (strip_3mf_extension n) n"
  by (auto simp: strip_3mf_extension_def take_is_prefix)

lemma pick_remote_clean: "clean_name (pick_remote_name p)"
proof -
  define s where "s = sanitize_remote_name (if pp_project_name p = [] then pp_task_name p else pp_project_name p)"
  define b where "b = sanitize_remote_name (basename_of (pp_filename p))"
  have pick: "pick_remote_name p = (if strip_3mf_extension s \<noteq> [] then strip_3mf_extension s @ ''.gcode.3mf''
      else if b \<noteq> [] then b else ''print.gcode.3mf'')"
    unfolding pick_remote_name_def Let_def s_def b_def by (rule refl)
  have b: "b = [] \<or> clean_name b" unfolding b_def by (rule sanitize_clean)
  have d: "clean_name ''print.gcode.3mf''" by (simp add: clean_name_def clean_char_def)
  have p: "clean_name (strip_3mf_extension s @ ''.gcode.3mf'')" if "strip_3mf_extension s \<noteq> []"
  proof -
    have "s \<noteq> []" using prefix_hd [OF strip_3mf_prefix that] by blast
    then have "clean_name s" using sanitize_clean unfolding s_def by blast
    then show ?thesis by (rule clean_name_extend [OF that strip_3mf_prefix])
  qed
  show ?thesis unfolding pick using b d p by (cases "strip_3mf_extension s = []"; cases "b = []") simp_all
qed

lemma clean_name_line: "clean_name n \<Longrightarrow> CR \<notin> set n \<and> LF \<notin> set n"
  unfolding clean_name_def list_all_iff clean_char_def by fastforce

text \<open>C32: the name of an uploaded file is safe, whatever names Studio passes: it is not empty, has no
  slash, backslash or control character, and does not start with a dot or a blank. So without a
  folder the \<open>STOR\<close> command of a job is a single line that stays in the root directory.\<close>

theorem remote_name_safe:
  "clean_name (pick_remote_name p) \<and>
   (pp_ftp_folder p = [] \<longrightarrow> remote_path_for p (pick_remote_name p) = SLASH # pick_remote_name p \<and>
      CR \<notin> set (remote_path_for p (pick_remote_name p)) \<and> LF \<notin> set (remote_path_for p (pick_remote_name p)))"
  using pick_remote_clean [of p] clean_name_line [OF pick_remote_clean [of p]]
  by (simp add: remote_path_for_def)

section \<open>The command as the printer reads it\<close>

lemma job_escape_eq: "job_json_escape s = escape s"
proof -
  have "(\<lambda>c. if c = QUOTE then [BSLASH, QUOTE] else if c = BSLASH then [BSLASH, BSLASH] else if c = CHR 0x08 then BSLASH # ''b''
     else if c = CHR 0x0C then BSLASH # ''f'' else if c = LF then BSLASH # ''n'' else if c = CR then BSLASH # ''r''
     else if c = TAB then BSLASH # ''t'' else if code_of c < (0x20::nat) then BSLASH # CHR ''u'' # show_hex_fixed 4 (code_of c)
     else [c]) = escape_char"
    by (rule ext) (simp only: escape_char_def)
  then show ?thesis by (simp only: job_json_escape_def escape_def)
qed

lemma reads_as_bool: "reads_as (to_bool b) (Bool b)"
  using reads_as_dump [of "Bool b"] by (cases b) (simp_all add: to_bool_def)

lemma reads_as_empty: "reads_as ''[]'' (Array [])"
  using reads_as_array [of "[]"] by simp

text \<open>The values behind the texts: \<open>am\<close>, \<open>am2\<close> and \<open>noz\<close> are what the mappings stand for.\<close>

definition project_values :: "nat \<Rightarrow> settings \<Rightarrow> int \<Rightarrow> print_params \<Rightarrow> project_opts \<Rightarrow> json \<Rightarrow> json \<Rightarrow> json \<Rightarrow> (bytes \<times> json) list" where
  "project_values abi s now p opts am am2 noz =
     [(''sequence_id'', String (show_int now)),
      (''command'', String ''project_file''),
      (''param'', String (''Metadata/plate_'' @ show_int (if pp_plate_index p \<le> 0 then 1 else pp_plate_index p) @ ''.gcode'')),
      (''project_id'', String (po_project_id opts)),
      (''profile_id'', String (po_profile_id opts)),
      (''task_id'', String (po_task_id opts)),
      (''subtask_id'', String (po_subtask_id opts)),
      (''subtask_name'', String (if pp_project_name p = [] then pp_task_name p else pp_project_name p)),
      (''file'', String (strip_leading_slash (po_file_path opts))),
      (''url'', String (po_url opts)),
      (''md5'', String (po_md5 opts)),
      (''bed_type'', String (if pp_bed_type p = [] then ''auto'' else pp_bed_type p)),
      (''bed_leveling'', Bool (pp_bed_leveling p)),
      (''flow_cali'', Bool (pp_flow_cali p)),
      (''vibration_cali'', Bool (pp_vibration_cali p)),
      (''layer_inspect'', Bool (pp_layer_inspect p)),
      (''timelapse'', Bool (pp_record_timelapse p)),
      (''use_ams'', Bool (pp_use_ams p)),
      (''ams_mapping'', am),
      (''ams_mapping2'', am2)] @
     (if pp_nozzle_mapping p \<noteq> [] then [(''nozzle_mapping'', noz)] else []) @
     [(''auto_bed_leveling'', Number (of_int (pp_auto_bed_leveling p))),
      (''nozzle_offset_cali'', Number (of_int (pp_auto_offset_cali p)))] @
     (if 0x020400 \<le> abi \<and> pp_extruder_cali_manual p \<ge> 0
      then [(''extrude_cali_manual_mode'', Number (of_int (pp_extruder_cali_manual p)))] else []) @
     [(''cfg'', String (show_int (cfg_bits abi s p))),
      (''extrude_cali_flag'', Number (of_int (pp_auto_flow_cali p)))]"

definition project_readable :: "print_params \<Rightarrow> json \<Rightarrow> json \<Rightarrow> json \<Rightarrow> bool" where
  "project_readable p am am2 noz =
     (reads_as (format_ams_mapping (pp_ams_mapping p) (pp_use_ams p)) am \<and>
      reads_as (if pp_ams_mapping2 p = [] then ''[]'' else pp_ams_mapping2 p) am2 \<and>
      (pp_nozzle_mapping p \<noteq> [] \<longrightarrow> reads_as (pp_nozzle_mapping p) noz) \<and>
      small_int (pp_auto_bed_leveling p) \<and> small_int (pp_auto_offset_cali p) \<and>
      small_int (pp_extruder_cali_manual p) \<and> small_int (pp_auto_flow_cali p))"

lemma show_cfg: "show_int 0 = ''0''" "show_int 4 = ''4''"
  by (simp_all add: show_int_def show_nat.simps [of 0] show_nat.simps [of 4] digit_char_def char_of_def bit_0)

lemma cfg_text: "[QUOTE] @ show_int (cfg_bits abi s p) @ [QUOTE] = escape (show_int (cfg_bits abi s p))"
  by (simp add: cfg_bits_def show_cfg escape_def escape_char_def)

lemma command_text: "[QUOTE] @ ''project_file'' @ [QUOTE] = escape ''project_file''"
  by (simp add: escape_def escape_char_def)

lemma project_fields_values:
  assumes "project_readable p am am2 noz"
  shows "list_all2 same_field (project_fields abi s now p opts) (project_values abi s now p opts am am2 noz)"
  unfolding project_fields_def project_values_def job_escape_eq cfg_text command_text
  by (intro list_all2_appendI same_field_if list.rel_intros same_fieldI reads_as_escape reads_as_bool reads_as_int)
    (use assms in \<open>simp_all add: project_readable_def plain_text_def escape_char_def\<close>)

definition project_json :: "nat \<Rightarrow> settings \<Rightarrow> int \<Rightarrow> print_params \<Rightarrow> project_opts \<Rightarrow> json \<Rightarrow> json \<Rightarrow> json \<Rightarrow> json" where
  "project_json abi s now p opts am am2 noz =
     Object [(''print'', Object (emplace_all (project_values abi s now p opts am am2 noz) []))]"

lemma parse_project:
  assumes "project_readable p am am2 noz"
  shows "parse (build_project_file_json abi s now p opts) = Inr (project_json abi s now p opts am am2 noz)"
proof -
  let ?t = "''{'' @ join '','' (map (\<lambda>(k, t). QUOTE # k @ [QUOTE, CHR '':''] @ t) (project_fields abi s now p opts)) @ ''}''"
  let ?v = "Object (emplace_all (project_values abi s now p opts am am2 noz) [])"
  have "reads_as ?t ?v" by (rule fields_read [OF project_fields_values [OF assms]]) (simp add: project_fields_def)
  then have "reads_as (''{'' @ members_text [plain_member ''print'' ?t ?v] @ ''}'') (Object (emplace_all (map member_val [plain_member ''print'' ?t ?v]) []))"
    by (intro reads_as_object) simp_all
  from parse_as [OF this, of "[]" "[]"] show ?thesis
    by (simp add: build_project_file_json_def project_json_def escape_plain escape_char_def om_emplace_def om_get_def)
qed

lemma project_field:
  assumes "map_of (project_values abi s now p opts am am2 noz) k = Some v" and "plain_key k"
  shows "jfind (project_json abi s now p opts am am2 noz) (''print.'' @ k) = v"
proof -
  have "om_get (emplace_all (project_values abi s now p opts am am2 noz) []) k = Some v"
    using emplace_all_get [of "[]" "project_values abi s now p opts am am2 noz" k] assms(1) by simp
  then show ?thesis
    using assms(2) jfind_dot [of "''print''" "project_json abi s now p opts am am2 noz" k]
    by (simp add: jfind_key jget_def project_json_def plain_key_def key_stop_def om_get_def)
qed


section \<open>What the upload leaves behind\<close>

definition same_data :: "ftp \<Rightarrow> ftp \<Rightarrow> bool" where
  "same_data f f' = (ftp_moved f' = ftp_moved f \<and> ftp_dials f' = ftp_dials f \<and> ftp_closed f' = ftp_closed f)"

lemma same_data_trans: "same_data f g \<Longrightarrow> same_data g h \<Longrightarrow> same_data f h"
  by (simp add: same_data_def)

lemma same_outside_data: "same_outside f f' \<Longrightarrow> same_data f f'"
  using same_outsideD by (simp add: same_data_def)

lemma must_answer_outside: "must_answer codes cmd what f = (e, f') \<Longrightarrow> same_outside f f'"
  using send_cmd_facts(1) by (fastforce simp: must_answer_def split: prod.splits)

lemma login_outside:
  assumes "login cfg f = (e, f')" shows "same_outside f f'"
proof -
  obtain code body f0 where u: "send_cmd (''USER '' @ fcf_username cfg) f = ((code, body), f0)" by (metis surj_pair)
  obtain e1 f1 where p: "login_password cfg f = (e1, f1)" by force
  obtain e2 f2 where t: "must_answer [200] ''TYPE I'' ''TYPE I'' f1 = (e2, f2)" by force
  obtain e3 f3 where z: "must_answer [200] ''PBSZ 0'' ''PBSZ'' f2 = (e3, f3)" by force
  obtain e4 f4 where q: "must_answer [200] ''PROT P'' ''PROT P'' f3 = (e4, f4)" by force
  have "same_outside f f1"
    using p u send_cmd_facts(1) [OF u] must_answer_outside [of "[230]" "''PASS '' @ fcf_password cfg" "''PASS''" f0 e1 f1]
      same_outside_trans [of f f0 f1] by (auto simp: login_password_def split: if_splits)
  moreover note must_answer_outside [OF t] must_answer_outside [OF z] must_answer_outside [OF q]
  moreover have "f' = f1 \<or> f' = f2 \<or> f' = f3 \<or> f' = f4"
    using assms p t z q by (auto simp: login_def split: if_splits)
  ultimately show ?thesis by (meson same_outside_trans)
qed

lemma ctrl_handshake_data: "ctrl_handshake s te cfg f p = (e, f', p') \<Longrightarrow> same_data f f'"
  by (auto simp: ctrl_handshake_def same_data_def Let_def split: if_splits prod.splits option.splits)

lemma connect_transport_data:
  assumes "connect_transport s tcp te cfg f p = (e, f', p')" shows "same_data f f'"
proof (cases tcp)
  case (Inl x)
  then show ?thesis using assms by (auto simp: connect_transport_def same_data_def Let_def)
next
  case (Inr ch)
  let ?f = "f\<lparr>ftp_host := fcf_host cfg, ftp_verify := fcf_verify_hostname cfg, ftp_tls := fcf_use_tls cfg, ftp_buf := [], ftp_ctrl := Some ch\<rparr>"
  obtain eh f3 ph where h: "(if fcf_use_tls cfg then ctrl_handshake s te cfg ?f p else ([], ?f, p)) = (eh, f3, ph)"
    by (metis surj_pair)
  obtain r f4 where r: "read_reply f3 = (r, f4)" by force
  have "same_data f ?f" by (simp add: same_data_def)
  moreover have "same_data ?f f3" using h ctrl_handshake_data by (auto simp: same_data_def split: if_splits)
  moreover have "same_data f3 f4" by (rule same_outside_data [OF read_reply_stream(1) [OF r]])
  moreover have "f' = f3 \<or> f' = f4" using assms Inr h r by (auto simp: connect_transport_def Let_def split: if_splits prod.splits)
  ultimately show ?thesis by (meson same_data_trans)
qed

lemma ftp_connect_data:
  assumes "ftp_connect s tcp te cfg f p = (e, f', p')" shows "same_data f f'"
proof -
  obtain e1 f1 p1 where c: "connect_transport s tcp te cfg f p = (e1, f1, p1)" by (metis surj_pair)
  obtain e2 f2 where l: "login cfg f1 = (e2, f2)" by force
  have "f' = f1 \<or> f' = f2" using assms c l by (auto simp: ftp_connect_def split: if_splits)
  then show ?thesis
    using connect_transport_data [OF c] same_outside_data [OF login_outside [OF l]] same_data_trans by blast
qed

lemma probe_storage_outside: "probe_storage cands f = (c, f') \<Longrightarrow> same_outside f f'"
proof (induction cands arbitrary: f)
  case (Cons cand cands)
  obtain code body f1 where s: "send_cmd (''CWD '' @ cand) f = ((code, body), f1)" by (metis surj_pair)
  note o = send_cmd_facts(1) [OF s]
  show ?case
    using Cons s o same_outside_trans [OF o] by (auto simp: cwd_def split: if_splits)
qed simp

lemma adjust_outside: "adjust_storage_path path f = (path', f') \<Longrightarrow> same_outside f f'"
  using probe_storage_outside
  by (auto simp: adjust_storage_path_def Let_def simp del: probe_storage.simps split: if_splits option.splits prod.splits)

lemma quit_facts:
  assumes "ctrl_tx f \<noteq> []"
  shows "ftp_moved (quit f) = ftp_moved f" and "\<exists>p. ftp_closed (quit f) = ftp_closed f @ [ctrl_tx f @ p]"
proof -
  obtain ch where ch: "ftp_ctrl f = Some ch" using assms by (auto simp: ctrl_tx_def ctrl_out_def split: option.splits)
  obtain ok f1 where w: "ctrl_write (''QUIT'' @ [CR, LF]) f = (ok, f1)" by force
  obtain r f2 where r: "read_reply f1 = (r, f2)" by force
  obtain p where p: "ctrl_tx f1 = ctrl_tx f @ p" using ctrl_write_facts(3) [OF w] by blast
  have tx: "ctrl_tx f2 = ctrl_tx f @ p" using read_reply_stream(2) [OF r] p by (simp add: ctrl_tx_def)
  then obtain ch2 where ch2: "ftp_ctrl f2 = Some ch2" "ch_tx ch2 = ctrl_tx f @ p"
    using assms by (auto simp: ctrl_tx_def ctrl_out_def split: option.splits)
  note d = same_outsideD [OF ctrl_write_facts(1) [OF w]] same_outsideD [OF read_reply_stream(1) [OF r]]
  show "ftp_moved (quit f) = ftp_moved f" "\<exists>p. ftp_closed (quit f) = ftp_closed f @ [ctrl_tx f @ p]"
    using ch w r ch2 d by (simp_all add: quit_def)
qed

definition fresh_dials :: "data_dial list \<Rightarrow> bool" where
  "fresh_dials ds = (\<forall>d ch. d \<in> set ds \<longrightarrow> dd_tcp d = Inr ch \<longrightarrow> ch_tx ch = [])"

text \<open>What an upload of these bytes to this path leaves in the closed client.\<close>

definition uploaded :: "bytes \<Rightarrow> bytes \<Rightarrow> ftp \<Rightarrow> bool" where
  "uploaded content path f =
     (ftp_moved f = [content] \<and> (\<exists>sent. ftp_closed f = [sent] \<and> sublist (''STOR '' @ path @ [CR, LF]) sent))"

lemma ftp_upload_ok:
  assumes "fj_rc (ftp_upload s je p remote_path ca_file err_code pr) = 0" and "err_code \<noteq> 0" and "fresh_dials (je_dials je)"
  shows "\<exists>content readable path. je_file je = Some (content, readable) \<and>
    fj_path (ftp_upload s je p remote_path ca_file err_code pr) = Some path \<and>
    uploaded (take readable content) path (fj_ftp (ftp_upload s je p remote_path ca_file err_code pr))"
proof -
  obtain sz where sz: "je_stat je = Some sz" "sz \<le> 1073741824"
    using assms(1) by (auto simp: ftp_upload_def Let_def job_codes split: option.splits if_splits)
  obtain e f1 pr1 where c: "ftp_connect s (je_tcp je) (je_tls je) (ftp_config_for p ca_file) (new_ftp (je_err je) (je_dials je)) pr = (e, f1, pr1)"
    by (metis surj_pair)
  have e: "e = []" using assms(1,2) sz c by (auto simp: ftp_upload_def Let_def split: if_splits)
  obtain path f2 where a: "adjust_storage_path remote_path f1 = (path, f2)" by force
  obtain e2 calls f3 where st: "stor (je_file je) (pp_filename p) path (Some (\<lambda>i _ _. \<not> je_during je i)) f2 = (e2, calls, f3)"
    by (metis surj_pair)
  have e2: "e2 = []"
    using assms(1,2) sz c e a st by (auto simp: ftp_upload_def Let_def job_codes split: if_splits)
  have d: "same_data (new_ftp (je_err je) (je_dials je)) f2"
    using ftp_connect_data [OF c] same_outside_data [OF adjust_outside [OF a]] same_data_trans by blast
  obtain content readable where fl: "je_file je = Some (content, readable)"
    using st e2 by (cases "je_file je") (auto simp: stor_def)
  have fresh: "\<forall>d ch. d \<in> set (ftp_dials f2) \<longrightarrow> dd_tcp d = Inr ch \<longrightarrow> ch_tx ch = []"
    using d assms(3) by (simp add: same_data_def new_ftp_def fresh_dials_def)
  note s = stor_delivers [OF st [unfolded fl e2] fresh]
  have tx: "ctrl_tx f3 \<noteq> []" using s(2) by simp
  obtain q where q: "ftp_closed (quit f3) = ftp_closed f3 @ [ctrl_tx f3 @ q]" using quit_facts(2) [OF tx] by blast
  have cl: "ftp_closed f3 = []" "ftp_moved f2 = []"
    using stor_closed [OF st] d by (simp_all add: same_data_def new_ftp_def)
  have "sublist (''STOR '' @ path @ [CR, LF]) (ctrl_tx f3 @ q)"
    unfolding s(2) sublist_def by (rule exI [of _ "ctrl_tx f2 @ ''PASV'' @ [CR, LF]"], rule exI [of _ q]) simp
  then have "uploaded (take readable content) path (quit f3)"
    using s(1) cl q quit_facts(1) [OF tx] by (simp add: uploaded_def)
  moreover have "fj_path (ftp_upload s je p remote_path ca_file err_code pr) = Some path"
    "fj_ftp (ftp_upload s je p remote_path ca_file err_code pr) = quit f3"
    using sz c e a st e2 by (simp_all add: ftp_upload_def Let_def)
  ultimately show ?thesis using fl by simp
qed

section \<open>From the file to the command\<close>

definition job_md5 :: "(bytes \<Rightarrow> u8 list) \<Rightarrow> job_env \<Rightarrow> print_params \<Rightarrow> bytes" where
  "job_md5 digest je p = (if pp_ftp_file_md5 p = [] then md5_of_file digest (je_file je) else pp_ftp_file_md5 p)"

lemma publish_job_facts:
  assumes "publish_job rc dev_id js failure ups ag w = r"
  shows "jr_rc r \<noteq> 0 \<and> wo_calls (jr_world r) = wo_calls w \<or>
    wo_calls (jr_world r) = wo_calls w @ [Publish_call (request_topic dev_id) js 0 False]"
  using assms
  by (auto simp: publish_job_def send_message_to_printer_def lan_publish_json_def mqtt_publish_def log_calls_def fail_job_def
      net_err_invalid_handle_def job_codes Let_def split: option.splits if_splits prod.splits)

lemma finish_local_facts:
  assumes "finish_local_print abi s digest rc je p remote_name stored ups ag w = r" and "\<not> pp_try_emmc_print p"
  shows "jr_rc r \<noteq> 0 \<and> wo_calls (jr_world r) = wo_calls w \<or>
    wo_calls (jr_world r) = wo_calls w @ [Publish_call (request_topic (pp_dev_id p))
      (build_project_file_json abi s (je_now je) p (lan_opts stored (build_ftp_url stored) (job_md5 digest je p))) 0 False]"
proof (cases "je_late je")
  case True
  then show ?thesis using assms(1) by (auto simp: finish_local_print_def fail_job_def job_codes)
next
  case False
  let ?js = "build_project_file_json abi s (je_now je) p (lan_opts stored (build_ftp_url stored) (job_md5 digest je p))"
  have "publish_job rc (pp_dev_id p) ?js ''MQTT publish failed'' (ups @ [(Stage_sending, 0, [])]) ag w = r"
    using assms False by (simp add: finish_local_print_def job_md5_def Let_def cong: if_cong)
  from publish_job_facts [OF this] show ?thesis .
qed

text \<open>C2: only what was uploaded is printed. A print over FTP either fails without a message, or it
  sends the printer exactly one, and then one data connection has carried exactly what the local
  file delivered, the control connection has stored it under the path that the message names (as
  file and as URL), and the digest in the message is the caller's or that of the local file.\<close>

theorem local_print_prints_upload:
  assumes "run_local_print_job abi s digest md5 rc je p ag w = Ret r" and "\<not> pp_try_emmc_print p"
    and "fresh_dials (je_dials je)"
  shows "jr_rc r \<noteq> 0 \<and> wo_calls (jr_world r) = wo_calls w \<or>
    (\<exists>content readable path f. je_file je = Some (content, readable) \<and> jr_ftp r = Some f \<and>
       uploaded (take readable content) path f \<and>
       wo_calls (jr_world r) = wo_calls w @ [Publish_call (request_topic (pp_dev_id p))
         (build_project_file_json abi s (je_now je) p (lan_opts path (build_ftp_url path) (job_md5 digest je p))) 0 False])"
proof (cases "pp_dev_ip p = [] \<or> pp_password p = [] \<or> pp_filename p = [] \<or> je_first je")
  case True
  then show ?thesis
    using assms(1) by (auto simp: run_local_print_job_def fail_job_def job_codes Let_def split: if_splits)
next
  case False
  let ?fj = "ftp_upload s je p (remote_path_for p (pick_remote_name p))
      (bambu_ca_bundle_path (set_use_ssl_for_ftp (pp_use_ssl_for_ftp p) ag) (pr_disk (wo_proc w))) net_err_lp_upload_ftp_failed (wo_proc w)"
  let ?w = "w\<lparr>wo_proc := fj_proc ?fj\<rparr>"
  let ?ag = "set_use_ssl_for_ftp (pp_use_ssl_for_ftp p) ag"
  let ?ups = "(Stage_create, 0, []) # fj_updates ?fj"
  let ?stored = "case fj_path ?fj of None \<Rightarrow> [] | Some path \<Rightarrow> path"
  have r: "r = (if fj_rc ?fj \<noteq> 0 then \<lparr>jr_rc = fj_rc ?fj, jr_updates = ?ups, jr_agent = ?ag, jr_world = ?w, jr_ftp = None\<rparr>
      else finish_local_print abi s digest rc je p (pick_remote_name p) ?stored ?ups ?ag ?w)\<lparr>jr_ftp := Some (fj_ftp ?fj)\<rparr>"
    using assms(1,2) False unfolding run_local_print_job_def Let_def by simp
  show ?thesis
  proof (cases "fj_rc ?fj = 0")
    case True
    then obtain content readable path where u: "je_file je = Some (content, readable)" "fj_path ?fj = Some path"
      "uploaded (take readable content) path (fj_ftp ?fj)"
      using ftp_upload_ok [OF _ _ assms(3)] by (metis net_err_lp_upload_ftp_failed_def neg_equal_0_iff_equal zero_neq_numeral)
    have "jr_rc r = jr_rc (finish_local_print abi s digest rc je p (pick_remote_name p) path ?ups ?ag ?w)"
      "jr_world r = jr_world (finish_local_print abi s digest rc je p (pick_remote_name p) path ?ups ?ag ?w)"
      "jr_ftp r = Some (fj_ftp ?fj)"
      using r True u(2) by simp_all
    then show ?thesis using u finish_local_facts [OF refl assms(2), of abi s digest rc je "pick_remote_name p" path ?ups ?ag ?w] by auto
  qed (simp add: r)
qed

section \<open>A print that succeeds\<close>

lemma plain_path_adjust:
  assumes "SLASH \<notin> set n"
  shows "adjust_storage_path (SLASH # n) f = (SLASH # n, f)"
proof -
  have "\<not> path_under (SLASH # n) (SLASH # d)" if "length d > 0" for d
  proof
    assume u: "path_under (SLASH # n) (SLASH # d)"
    then have "n ! length d = SLASH" "length d < length n" by (simp_all add: path_under_def)
    then show False using assms nth_mem by metis
  qed
  from this [of "''sdcard''"] this [of "''usb''"] show ?thesis by (simp add: adjust_storage_path_def Let_def)
qed

text \<open>
  A printer and a network in which nothing goes wrong: it answers every command as it should, the
  pieces in which the answers come do not matter, both connections come up and take every byte.
\<close>

definition session_codes :: "bool \<Rightarrow> int list" where
  "session_codes tls = login_codes tls @ [227, 150, 226]"

definition good_printer :: "settings \<Rightarrow> job_env \<Rightarrow> ftp_config \<Rightarrow> process \<Rightarrow> bool" where
  "good_printer s je cfg pr =
     (\<exists>ch d ds dch banner rs rest addr port.
        je_tcp je = Inr ch \<and> ch_wr ch = [] \<and>
        chan_incoming (fcf_use_tls cfg) (ch_rd ch) = replies_text (banner # rs) @ rest \<and>
        reply_ok banner \<and> fst (reply_of banner) = 220 \<and> answers (session_codes (fcf_use_tls cfg)) rs \<and>
        pasv_address (snd (reply_of (rs ! length (login_codes (fcf_use_tls cfg))))) = Inr addr \<and> pasv_port addr = Inr port \<and>
        je_dials je = d # ds \<and> dd_tcp d = Inr dch \<and> ch_wr dch = [] \<and>
        (fcf_use_tls cfg \<longrightarrow> tls_up s (je_tls je) cfg pr \<and> dd_ssl d \<and> drive_ssl (dd_handshake d)))"

lemma ftp_upload_completes:
  assumes "good_printer s je (ftp_config_for p ca_file) pr" and "je_stat je = Some sz" and "sz \<le> 1073741824"
    and "je_file je = Some (content, length content)" and "\<forall>i. \<not> je_during je i" and "SLASH \<notin> set n"
  shows "fj_rc (ftp_upload s je p (SLASH # n) ca_file err_code pr) = 0"
proof -
  let ?cfg = "ftp_config_for p ca_file" and ?f = "new_ftp (je_err je) (je_dials je)"
  obtain ch d ds dch banner rs rest addr port where g:
    "je_tcp je = Inr ch" "ch_wr ch = []" "chan_incoming (fcf_use_tls ?cfg) (ch_rd ch) = replies_text (banner # rs) @ rest"
    "reply_ok banner" "fst (reply_of banner) = 220" "answers (session_codes (fcf_use_tls ?cfg)) rs"
    "pasv_address (snd (reply_of (rs ! length (login_codes (fcf_use_tls ?cfg))))) = Inr addr" "pasv_port addr = Inr port"
    "je_dials je = d # ds" "dd_tcp d = Inr dch" "ch_wr dch = []"
    "fcf_use_tls ?cfg \<longrightarrow> tls_up s (je_tls je) ?cfg pr \<and> dd_ssl d \<and> drive_ssl (dd_handshake d)"
    using assms(1) unfolding good_printer_def by blast
  obtain ls pasv prelim closing where rs: "rs = ls @ [pasv, prelim, closing]" "answers (login_codes (fcf_use_tls ?cfg)) ls"
    and ok: "reply_ok pasv" "reply_ok prelim" "reply_ok closing"
    and c: "fst (reply_of pasv) = 227" "fst (reply_of prelim) = 150" "fst (reply_of closing) = 226"
    using g(6) by (auto simp: answers_def session_codes_def list_all2_Cons1 list_all2_append1)
  have len: "length ls = length (login_codes (fcf_use_tls ?cfg))"
    using rs(2) by (simp add: answers_def list_all2_lengthD)
  obtain body where pasv: "reply_of pasv = (227, body)" "pasv_address body = Inr addr"
    using c(1) g(7) rs(1) len [symmetric] by (cases "reply_of pasv") simp
  have "chan_incoming (fcf_use_tls ?cfg) (ch_rd ch) =
      replies_text (banner # ls) @ reply_bytes pasv @ reply_bytes prelim @ reply_bytes closing @ rest"
    using g(3) rs(1) by simp
  then obtain f1 pr1 where f1: "ftp_connect s (Inr ch) (je_tls je) ?cfg ?f pr = ([], f1, pr1)"
    "answering (reply_bytes pasv @ reply_bytes prelim @ reply_bytes closing @ rest) f1"
    "ftp_tls f1 = fcf_use_tls ?cfg" "ftp_dials f1 = d # ds"
    using ftp_connect_answering [OF g(2) _ g(4,5) rs(2), of "reply_bytes pasv @ reply_bytes prelim @ reply_bytes closing @ rest" s "je_tls je" pr ?f]
      g(9,12) by (auto simp: new_ftp_def)
  have ag: "agrees (Some (\<lambda>i _ _. \<not> je_during je i))" using assms(5) by (simp add: agrees_def)
  obtain calls f3 where st: "stor (Some (content, length content)) (pp_filename p) (SLASH # n) (Some (\<lambda>i _ _. \<not> je_during je i)) f1 = ([], calls, f3)"
    using stor_completes [OF f1(2) ok(1) pasv g(8) ok(2) c(2) ok(3) c(3) f1(4) g(10,11) _ ag] g(12) f1(3) by blast
  show ?thesis
    using assms(2-4) g(1) f1(1) st plain_path_adjust [OF assms(6)]
    by (simp add: ftp_upload_def Let_def)
qed

text \<open>
  With such a printer the job gets to the message; \<open>ready\<close> collects what Studio and the host
  contribute.
\<close>

definition ready :: "settings \<Rightarrow> job_env \<Rightarrow> print_params \<Rightarrow> agent \<Rightarrow> world \<Rightarrow> bool" where
  "ready s je p ag w =
     (pp_dev_ip p \<noteq> [] \<and> pp_password p \<noteq> [] \<and> pp_filename p \<noteq> [] \<and> pp_ftp_folder p = [] \<and> \<not> pp_try_emmc_print p \<and>
      \<not> je_first je \<and> (\<forall>i. \<not> je_during je i) \<and> \<not> je_late je \<and>
      (\<exists>sz content. je_stat je = Some sz \<and> sz \<le> 1073741824 \<and> je_file je = Some (content, length content)) \<and>
      good_printer s je (ftp_config_for p (bambu_ca_bundle_path ag (pr_disk (wo_proc w)))) (wo_proc w))"

lemma local_print_runs:
  assumes "ready s je p ag w"
  obtains stored ups w' f where "run_local_print_job abi s digest md5 rc je p ag w =
    Ret ((finish_local_print abi s digest rc je p (pick_remote_name p) stored ups (set_use_ssl_for_ftp (pp_use_ssl_for_ftp p) ag) w')\<lparr>jr_ftp := f\<rparr>)"
proof -
  obtain sz content where c: "je_stat je = Some sz" "sz \<le> 1073741824" "je_file je = Some (content, length content)"
    and d: "\<forall>i. \<not> je_during je i"
    and g: "good_printer s je (ftp_config_for p (bambu_ca_bundle_path ag (pr_disk (wo_proc w)))) (wo_proc w)"
    using assms unfolding ready_def by blast
  let ?ag = "set_use_ssl_for_ftp (pp_use_ssl_for_ftp p) ag"
  have ca: "bambu_ca_bundle_path ?ag x = bambu_ca_bundle_path ag x" for x
    by (simp add: bambu_ca_bundle_path_def set_use_ssl_for_ftp_def)
  have path: "remote_path_for p (pick_remote_name p) = SLASH # pick_remote_name p"
    using assms by (simp add: remote_path_for_def ready_def)
  have "SLASH \<notin> set (pick_remote_name p)"
    using pick_remote_clean [of p] by (auto simp: clean_name_def clean_char_def list_all_iff)
  note u = ftp_upload_completes [OF g c d this, of net_err_lp_upload_ftp_failed]
  show ?thesis
    using that assms u unfolding run_local_print_job_def Let_def ca path ready_def by simp
qed

text \<open>C3: a print arrives. When the printer answers as it should (in whatever pieces), nobody cancels,
  the file can be read and is at most a gigabyte, and the session to that printer takes the message,
  the job ends with success and its last report to Studio is the final stage: whatever the names of
  the print, with TLS and without.\<close>

theorem local_print_succeeds:
  assumes "ready s je p ag w"
    and "ag_lan ag = Some ls" and "ls_dev_id ls = pp_dev_id p" and "ls_client ls \<noteq> None"
    and "\<forall>js. rc (Publish_call (request_topic (pp_dev_id p)) js 0 False) = mosq_err_success"
  shows "\<exists>r. run_local_print_job abi s digest md5 rc je p ag w = Ret r \<and> jr_rc r = 0 \<and> last (jr_updates r) = (Stage_finished, 0, ''3'')"
proof -
  let ?ag = "set_use_ssl_for_ftp (pp_use_ssl_for_ftp p) ag"
  have late: "\<not> je_late je" using assms(1) by (simp add: ready_def)
  have "jr_rc (finish_local_print abi s digest rc je p name stored ups ?ag w') = 0 \<and>
      last (jr_updates (finish_local_print abi s digest rc je p name stored ups ?ag w')) = (Stage_finished, 0, ''3'')" for name stored ups w'
    using assms(2-5) late
    by (auto simp: finish_local_print_def publish_job_def send_message_to_printer_def lan_publish_json_def mqtt_publish_def
        set_use_ssl_for_ftp_def net_success_def Let_def)
  then show ?thesis by (rule_tac local_print_runs [OF assms(1), of abi digest md5 rc]) auto
qed

text \<open>A job cancelled at its first poll reports no error stage.\<close>

lemma first_cancel_silent:
  assumes "pp_dev_ip p \<noteq> []" and "pp_password p \<noteq> []" and "pp_filename p \<noteq> []" and "je_first je"
  shows "\<exists>r. run_local_print_job abi s digest md5 rc je p ag w = Ret r \<and> jr_rc r = net_err_canceled \<and> jr_updates r = [(Stage_create, 0, [])]"
  using assms by (simp add: run_local_print_job_def Let_def)

section \<open>One print\<close>

definition cube_params :: print_params where
  "cube_params = \<lparr>pp_dev_id = ''S1'', pp_task_name = [], pp_project_name = ''Cube'', pp_filename = ''/m.3mf'', pp_config_filename = [], pp_plate_index = 2,
     pp_ftp_folder = [], pp_ftp_file_md5 = ''AB'', pp_nozzle_mapping = [], pp_ams_mapping = [], pp_ams_mapping2 = [],
     pp_ams_mapping_info = [], pp_nozzles_info = [], pp_origin_profile_id = 0, pp_origin_model_id = [],
     pp_dst_file = [], pp_dev_ip = ''10.0.0.2'', pp_use_ssl_for_ftp = False, pp_username = [], pp_password = ''1234'',
     pp_bed_leveling = True, pp_flow_cali = False, pp_vibration_cali = False, pp_layer_inspect = False,
     pp_record_timelapse = False, pp_timelapse_internal = False, pp_use_ams = False, pp_bed_type = [],
     pp_auto_bed_leveling = 1, pp_auto_flow_cali = 1, pp_auto_offset_cali = 0, pp_extruder_cali_manual = - 1,
     pp_try_emmc_print = False\<rparr>"

definition cube_replies :: "bytes list list" where
  "cube_replies = [[''220 ok''], [''331 ok''], [''230 ok''], [''200 ok''], [pasv_line], [''150 ok''], [''226 ok'']]"

definition cube_dial :: data_dial where
  "cube_dial = \<lparr>dd_tcp = Inr \<lparr>ch_rd = [], ch_wr = [], ch_tx = []\<rparr>, dd_ssl = False, dd_handshake = []\<rparr>"

definition cube_env :: job_env where
  "cube_env = \<lparr>je_now = 7, je_stat = Some 4, je_file = Some (''DATA'', 4),
     je_tcp = Inr \<lparr>ch_rd = [Rd_bytes (replies_text cube_replies)], ch_wr = [], ch_tx = []\<rparr>,
     je_tls = \<lparr>te_ctx = False, te_setup = (\<lambda>_ _. None), te_ssl = False, te_handshake = [], te_name = (\<lambda>_. None)\<rparr>,
     je_dials = [cube_dial], je_err = [], je_tunnel = Inl [], je_uuid = [], je_version = [], je_seed = 0,
     je_first = False, je_during = (\<lambda>_. False), je_late = False\<rparr>"

definition cube_agent :: agent where
  "cube_agent = new_agent\<lparr>ag_lan := Some ((new_lan_session ''S1'' ''10.0.0.2'' ''bblp'' ''1234'' True [])
     \<lparr>ls_client := Some \<lparr>mc_client_id = [], mc_connected = True, mc_loop_started = True, mc_merged_trust_path = []\<rparr>\<rparr>)\<rparr>"

lemma cube_answers: "answers (session_codes False) (tl cube_replies)" "reply_ok (hd cube_replies)" "fst (reply_of (hd cube_replies)) = 220"
  by (simp_all add: cube_replies_def answers_def session_codes_def login_codes_def reply_ok_def final_line_def reply_value pasv_line_def)

lemma cube_ready: "ready default_settings cube_env cube_params cube_agent quiet_world"
proof -
  let ?ch = "\<lparr>ch_rd = [Rd_bytes (replies_text cube_replies)], ch_wr = [], ch_tx = []\<rparr>"
  let ?dch = "\<lparr>ch_rd = [], ch_wr = [], ch_tx = []\<rparr> :: channel"
  have tls: "fcf_use_tls (ftp_config_for cube_params ca) = False" for ca by (simp add: ftp_config_for_def cube_params_def)
  have "replies_text cube_replies \<noteq> []" by (simp add: cube_replies_def reply_bytes_def)
  then have inc: "chan_incoming False (ch_rd ?ch) = replies_text (hd cube_replies # tl cube_replies) @ []"
    by (simp add: cube_replies_def)
  have nth: "tl cube_replies ! length (login_codes False) = [pasv_line]"
    by (simp add: cube_replies_def login_codes_def eval_nat_numeral)
  have "good_printer default_settings cube_env (ftp_config_for cube_params ca) pr" for ca pr
    unfolding good_printer_def tls
    by (rule exI [of _ ?ch], rule exI [of _ cube_dial], rule exI [of _ "[]"], rule exI [of _ ?dch],
        rule exI [of _ "hd cube_replies"], rule exI [of _ "tl cube_replies"], rule exI [of _ "[]"],
        rule exI [of _ "''10,0,0,2,4,1''"], rule exI [of _ 1025])
      (use inc cube_answers pasv_line_facts nth in \<open>simp add: cube_env_def cube_dial_def\<close>)
  then show ?thesis by (simp add: ready_def cube_params_def cube_env_def)
qed

lemma cube_run:
  "\<exists>r. run_local_print_job 0 default_settings digest md5 (\<lambda>_. 0) cube_env cube_params cube_agent quiet_world = Ret r \<and> jr_rc r = 0"
proof -
  obtain stored ups w' f where r: "run_local_print_job 0 default_settings digest md5 (\<lambda>_. 0) cube_env cube_params cube_agent quiet_world =
      Ret ((finish_local_print 0 default_settings digest (\<lambda>_. 0) cube_env cube_params (pick_remote_name cube_params) stored ups
        (set_use_ssl_for_ftp (pp_use_ssl_for_ftp cube_params) cube_agent) w')\<lparr>jr_ftp := f\<rparr>)"
    using local_print_runs [OF cube_ready] by metis
  have "ls_dev_id (the (ag_lan cube_agent)) = pp_dev_id cube_params"
    by (simp add: cube_agent_def cube_params_def new_lan_session_def)
  then have "jr_rc (finish_local_print 0 default_settings digest (\<lambda>_. 0) cube_env cube_params name stored ups
      (set_use_ssl_for_ftp v cube_agent) w') = 0" for name v
    by (simp add: finish_local_print_def publish_job_def send_message_to_printer_def lan_publish_json_def mqtt_publish_def
        set_use_ssl_for_ftp_def net_success_def cube_agent_def cube_env_def mosq_err_success_def Let_def)
  then show ?thesis using r by simp
qed

theorem local_print_succeeds_witness:
  "\<exists>r. run_local_print_job 0 default_settings (\<lambda>_. []) (\<lambda>_. []) (\<lambda>_. 0) cube_env cube_params cube_agent quiet_world = Ret r \<and>
     jr_rc r = 0 \<and> last (jr_updates r) = (Stage_finished, 0, ''3'')"
  by (rule local_print_succeeds [OF cube_ready, where ls = "the (ag_lan cube_agent)"])
    (simp_all add: cube_agent_def cube_params_def new_lan_session_def mosq_err_success_def)

theorem local_print_prints_upload_witness:
  "\<exists>r f. run_local_print_job 0 default_settings (\<lambda>_. []) (\<lambda>_. []) (\<lambda>_. 0) cube_env cube_params cube_agent quiet_world = Ret r \<and>
     jr_rc r = 0 \<and> jr_ftp r = Some f \<and> ftp_moved f = [''DATA'']"
proof -
  obtain r where r: "run_local_print_job 0 default_settings (\<lambda>_. []) (\<lambda>_. []) (\<lambda>_. 0) cube_env cube_params cube_agent quiet_world = Ret r"
    "jr_rc r = 0" using cube_run by blast
  have "\<not> pp_try_emmc_print cube_params" "fresh_dials (je_dials cube_env)" "je_file cube_env = Some (''DATA'', 4)"
    by (simp_all add: cube_params_def cube_env_def cube_dial_def fresh_dials_def)
  with local_print_prints_upload [OF r(1)] r show ?thesis by (auto simp: uploaded_def)
qed

theorem remote_name_safe_witness:
  "remote_path_for cube_params (pick_remote_name cube_params) = SLASH # pick_remote_name cube_params"
  using remote_name_safe [of cube_params] by (simp add: cube_params_def)


end
