(* ===== verification/Cloud_Print.thy ===== *)
theory Cloud_Print
  imports Cloud_Bind Print_Laws
begin

text \<open>
  The cloud print of \<open>src/cloud_print.cpp\<close>: the steps [A] to [J] of its header comment. A step
  returns its value or the error code it ends the job with, the calls of Studio's update callback
  and the web. The environment of a job is that of a LAN job with the readable part of the config
  file and the answers of the cancel callback while the upload is polled.
\<close>

definition net_err_wr_request_project_id_failed :: int where "net_err_wr_request_project_id_failed = - 2010"
definition net_err_wr_upload_config_failed :: int where "net_err_wr_upload_config_failed = - 2030"
definition net_err_wr_put_notification_failed :: int where "net_err_wr_put_notification_failed = - 2050"
definition net_err_wr_get_notification_timeout :: int where "net_err_wr_get_notification_timeout = - 2060"
definition net_err_wr_patch_project_failed :: int where "net_err_wr_patch_project_failed = - 2080"
definition net_err_wr_upload_3mf_failed :: int where "net_err_wr_upload_3mf_failed = - 2110"
definition net_err_wr_post_task_failed :: int where "net_err_wr_post_task_failed = - 2120"
definition net_err_wr_get_user_upload_failed :: int where "net_err_wr_get_user_upload_failed = - 2140"

lemmas wr_codes = net_err_wr_request_project_id_failed_def net_err_wr_upload_config_failed_def
  net_err_wr_put_notification_failed_def net_err_wr_get_notification_timeout_def net_err_wr_patch_project_failed_def
  net_err_wr_upload_3mf_failed_def net_err_wr_post_task_failed_def net_err_wr_get_user_upload_failed_def

record cloud_env = job_env +
  ce_config :: "(bytes \<times> nat) option"
  ce_polls :: "nat \<Rightarrow> bool"

section \<open>Files and mappings\<close>

text \<open>
  \<open>slurp_file\<close>: the bytes the reads deliver. The stream's own state does not see a read error of
  its buffer, so a file that stops early is returned short, without an error.
\<close>

definition slurp_file :: "(bytes \<times> nat) option \<Rightarrow> bytes" where
  "slurp_file file = (case file of None \<Rightarrow> [] | Some (content, readable) \<Rightarrow> take readable content)"

definition trim_mapping :: "bytes \<Rightarrow> bytes" where
  "trim_mapping s = rtrim_by mapping_blank (ltrim_by mapping_blank s)"

definition json_or_default :: "bytes \<Rightarrow> bytes \<Rightarrow> bytes" where
  "json_or_default raw fallback =
     (let s = trim_mapping raw in
      if s \<noteq> [] \<and> (hd s = CHR ''['' \<or> hd s = CHR ''{'') then s else fallback)"

definition ams_slot_pair :: "int \<times> int \<Rightarrow> bytes" where
  "ams_slot_pair pr = json_of_fields [(''amsId'', show_int (fst pr)), (''slotId'', show_int (snd pr))]"

definition flat_slot :: "json \<Rightarrow> int \<times> int" where
  "flat_slot v = (let idx = cast_i32 (as_number 0 v) in if idx < 0 then (255, 255) else (idx div 4, idx mod 4))"

definition number_field :: "json \<Rightarrow> bytes \<Rightarrow> bytes \<Rightarrow> int" where
  "number_field item camel snake =
     (let v = (if is_number (jfind item camel) then jfind item camel else jfind item snake) in
      if is_number v then cast_i32 (as_number 0 v) else 255)"

definition item_slot :: "json \<Rightarrow> int \<times> int" where
  "item_slot item = (number_field item ''amsId'' ''ams_id'', number_field item ''slotId'' ''slot_id'')"

definition slots_text :: "(int \<times> int) list \<Rightarrow> bytes" where
  "slots_text prs = ''['' @ join '','' (map ams_slot_pair prs) @ '']''"

definition derived_from_flat :: "bytes \<Rightarrow> bytes" where
  "derived_from_flat mapping =
     (case parse_opt mapping of
        Some (Array vs) \<Rightarrow> slots_text (map flat_slot (filter is_number vs))
      | _ \<Rightarrow> ''[]'')"

definition ams_mapping2_for_cloud :: "print_params \<Rightarrow> bytes" where
  "ams_mapping2_for_cloud p =
     (let raw = trim_mapping (pp_ams_mapping2 p) in
      if raw = [] \<or> raw = ''[]'' then derived_from_flat (pp_ams_mapping p)
      else case parse_opt raw of
          Some (Array items) \<Rightarrow> slots_text (map item_slot items)
        | _ \<Rightarrow> derived_from_flat (pp_ams_mapping p))"

section \<open>Steps\<close>

type_synonym 'a step = "(int + 'a) \<times> update list \<times> web"

definition then_step :: "'a step \<Rightarrow> ('a \<Rightarrow> web \<Rightarrow> 'b step) \<Rightarrow> 'b step" where
  "then_step st f =
     (case st of
        (Inl code, ups, wb) \<Rightarrow> (Inl code, ups, wb)
      | (Inr x, ups, wb) \<Rightarrow> (let (r, ups', wb') = f x wb in (r, ups @ ups', wb')))"

definition bbl_headers :: "bytes \<Rightarrow> bytes \<Rightarrow> (bytes, bytes) omap" where
  "bbl_headers token user_id =
     (let h = fold (\<lambda>(k, v). om_put k v)
        [(''Authorization'', ''Bearer '' @ token), (''Content-Type'', ''application/json''), (''Accept'', ''application/json''),
         (''X-BBL-Client-Name'', ''OpenBambooNetworking''), (''X-BBL-Client-Type'', ''slicer''), (''X-BBL-OS-Type'', ''linux''),
         (''X-BBL-Agent-OS-Type'', ''linux''), (''X-BBL-Language'', ''en-US''), (''X-BBL-Executable-info'', ''{}'')] [] in
      if user_id \<noteq> [] then om_put ''X-BBL-Client-ID'' (''slicer:'' @ user_id @ '':obn0'') h else h)"

definition fail_detail :: "bytes \<Rightarrow> http_response \<Rightarrow> bytes" where
  "fail_detail what resp =
     what @ (if hr_error resp \<noteq> [] then '': '' @ hr_error resp
             else if hr_status resp \<noteq> 0 then '': HTTP '' @ show_int (hr_status resp) else [])"

definition fail_stage :: "int \<Rightarrow> bytes \<Rightarrow> http_response \<Rightarrow> update list \<Rightarrow> web \<Rightarrow> 'a step" where
  "fail_stage code what resp ups wb = (Inl code, ups @ [(Stage_error, code, fail_detail what resp)], wb)"

record project_info =
  pi_project_id :: bytes
  pi_model_id :: bytes
  pi_profile_id :: bytes
  pi_upload_url :: bytes
  pi_upload_ticket :: bytes

definition info_of :: "json \<Rightarrow> project_info" where
  "info_of doc =
     (let str = (\<lambda>k. as_string (jfind doc k)) in
      \<lparr>pi_project_id = str ''project_id'', pi_model_id = str ''model_id'', pi_profile_id = str ''profile_id'',
       pi_upload_url = str ''upload_url'', pi_upload_ticket = str ''upload_ticket''\<rparr>)"

definition create_project :: "bytes \<Rightarrow> bytes \<Rightarrow> bytes \<Rightarrow> bytes \<Rightarrow> web \<Rightarrow> project_info step" where
  "create_project api token user_id name wb =
     (let (resp, wb') = perform (new_request\<lparr>hq_method := POST, hq_url := api @ ''/v1/iot-service/api/user/project'',
                          hq_headers := bbl_headers token user_id, hq_body := json_of_fields [(''name'', escape name)]\<rparr>) wb;
          err = net_err_wr_request_project_id_failed in
      if \<not> answered resp then fail_stage err ''create_project'' resp [] wb'
      else case parse_opt (hr_body resp) of
          None \<Rightarrow> (Inl err, [(Stage_error, err, ''bad JSON'')], wb')
        | Some doc \<Rightarrow>
            if pi_project_id (info_of doc) = [] \<or> pi_upload_url (info_of doc) = [] then (Inl err, [(Stage_error, err, ''missing fields'')], wb')
            else (Inr (info_of doc), [], wb'))"

definition percent_update :: "int \<Rightarrow> update list" where
  "percent_update pct = (if pct \<ge> 0 then [(Stage_upload, pct, show_int pct @ ''%'')] else [])"

definition s3_put :: "bytes \<Rightarrow> bytes \<Rightarrow> int \<Rightarrow> int \<Rightarrow> int \<Rightarrow> web \<Rightarrow> unit step" where
  "s3_put url body start_pct end_pct err_code wb =
     (let (resp, wb') = perform (new_request\<lparr>hq_method := PUT, hq_url := url, hq_no_content_type := True, hq_no_accept := True,
                          hq_headers := [(''Content-Type'', []), (''Expect'', [])], hq_body := body\<rparr>) wb in
      if \<not> answered resp then fail_stage err_code ''s3 PUT'' resp (percent_update start_pct) wb'
      else (Inr (), percent_update start_pct @ percent_update end_pct, wb'))"

definition notify_upload :: "bytes \<Rightarrow> bytes \<Rightarrow> bytes \<Rightarrow> bytes \<Rightarrow> bytes \<Rightarrow> web \<Rightarrow> unit step" where
  "notify_upload api token user_id ticket origin_name wb =
     (let (resp, wb') = perform (new_request\<lparr>hq_method := PUT, hq_url := api @ ''/v1/iot-service/api/user/notification'',
                          hq_headers := bbl_headers token user_id,
                          hq_body := json_of_fields [(''upload'', json_of_fields
                            [(''origin_file_name'', escape origin_name), (''ticket'', escape ticket)])]\<rparr>) wb in
      if \<not> answered resp then fail_stage net_err_wr_put_notification_failed ''notify_upload'' resp [] wb'
      else (Inr (), [], wb'))"

text \<open>\<open>poll_upload\<close> with the number of attempts left.\<close>

fun poll_loop :: "(nat \<Rightarrow> bool) \<Rightarrow> bytes \<Rightarrow> (bytes, bytes) omap \<Rightarrow> nat \<Rightarrow> nat \<Rightarrow> web \<Rightarrow> unit step" where
  "poll_loop cancelled url hdrs i 0 wb =
     (Inl net_err_wr_get_notification_timeout, [(Stage_error, net_err_wr_get_notification_timeout, ''upload poll timeout'')], wb)"
| "poll_loop cancelled url hdrs i (Suc n) wb =
     (if cancelled i then (Inl net_err_canceled, [], wb)
      else
        let (resp, wb') = get_json url hdrs wb in
        if answered resp then (Inr (), [], wb') else poll_loop cancelled url hdrs (Suc i) n wb')"

definition poll_upload :: "bytes \<Rightarrow> bytes \<Rightarrow> bytes \<Rightarrow> bytes \<Rightarrow> (nat \<Rightarrow> bool) \<Rightarrow> web \<Rightarrow> unit step" where
  "poll_upload api token user_id ticket cancelled wb =
     poll_loop cancelled (api @ ''/v1/iot-service/api/user/notification?action=upload&ticket='' @ url_encode ticket)
       (om_del ''Content-Type'' (bbl_headers token user_id)) 0 20 wb"

definition plate_no :: "int \<Rightarrow> int" where
  "plate_no i = (if i \<le> 0 then 1 else i)"

definition patch_body :: "bytes \<Rightarrow> bytes \<Rightarrow> int \<Rightarrow> bytes \<Rightarrow> bytes" where
  "patch_body profile_id md5 plate_idx url =
     json_of_fields [(''profile_id'', escape profile_id),
       (''profile_print_3mf'', ''['' @ json_of_fields [(''md5'', escape md5), (''plate_idx'', show_int (plate_no plate_idx)), (''url'', escape url)] @ '']'')]"

definition patch_project :: "bytes \<Rightarrow> bytes \<Rightarrow> bytes \<Rightarrow> bytes \<Rightarrow> bytes \<Rightarrow> bytes \<Rightarrow> int \<Rightarrow> bytes \<Rightarrow> web \<Rightarrow> unit step" where
  "patch_project api token user_id project_id profile_id md5 plate_idx url wb =
     (let (resp, wb') = perform (new_request\<lparr>hq_method := PATCH, hq_url := api @ ''/v1/iot-service/api/user/project/'' @ project_id,
                          hq_headers := bbl_headers token user_id, hq_body := patch_body profile_id md5 plate_idx url\<rparr>) wb in
      if \<not> answered resp then fail_stage net_err_wr_patch_project_failed ''patch_project'' resp [] wb'
      else (Inr (), [], wb'))"

definition get_upload_url :: "bytes \<Rightarrow> bytes \<Rightarrow> bytes \<Rightarrow> bytes \<Rightarrow> web \<Rightarrow> bytes step" where
  "get_upload_url api token user_id model_slot wb =
     (let (resp, wb') = get_json (api @ ''/v1/iot-service/api/user/upload?models='' @ url_encode model_slot)
                          (om_del ''Content-Type'' (bbl_headers token user_id)) wb;
          failed = (\<lambda>what. fail_stage net_err_wr_get_user_upload_failed what resp [] wb') in
      if \<not> answered resp then failed ''get_upload_url''
      else case parse_opt (hr_body resp) of
          None \<Rightarrow> failed ''bad get_upload_url JSON''
        | Some doc \<Rightarrow>
            (case as_array (jfind doc ''urls'') of
               [] \<Rightarrow> failed ''get_upload_url empty''
             | u # us \<Rightarrow>
                 if as_string (jfind u ''url'') = [] then failed ''get_upload_url missing url''
                 else (Inr (as_string (jfind u ''url'')), [], wb')))"

section \<open>The task record\<close>

definition task_fields :: "nat \<Rightarrow> settings \<Rightarrow> print_params \<Rightarrow> bytes \<Rightarrow> bytes \<Rightarrow> bool \<Rightarrow> (bytes \<times> bytes) list" where
  "task_fields abi s p model_id profile_id use_lan =
     [(''amsDetailMapping'', json_or_default (pp_ams_mapping_info p) ''[]''),
      (''amsMapping'', json_or_default (pp_ams_mapping p) ''[-1]''),
      (''amsMapping2'', ams_mapping2_for_cloud p)] @
     (if pp_nozzle_mapping p \<noteq> [] then [(''nozzleMapping'', pp_nozzle_mapping p)] else []) @
     [(''autoBedLeveling'', show_int (pp_auto_bed_leveling p)),
      (''bedLeveling'', to_bool (pp_bed_leveling p)),
      (''bedType'', escape (if pp_bed_type p = [] then ''auto'' else pp_bed_type p)),
      (''cfg'', [QUOTE] @ show_int (cfg_bits abi s p) @ [QUOTE]),
      (''cover'', [QUOTE, QUOTE]),
      (''deviceId'', escape (pp_dev_id p)),
      (''extrudeCaliFlag'', show_int (pp_auto_flow_cali p))] @
     (if 0x020400 \<le> abi then [(''extrudeCaliManualMode'', show_int (pp_extruder_cali_manual p))] else []) @
     [(''filamentSettingIds'', ''[]''),
      (''flowCali'', to_bool (pp_flow_cali p)),
      (''layerInspect'', to_bool (pp_layer_inspect p)),
      (''mode'', [QUOTE] @ (if use_lan then ''lan_file'' else ''cloud_file'') @ [QUOTE]),
      (''modelId'', escape model_id),
      (''nozzleInfos'', json_or_default (pp_nozzles_info p) ''[]''),
      (''nozzleOffsetCali'', show_int (pp_auto_offset_cali p)),
      (''oriModelId'', escape (pp_origin_model_id p)),
      (''oriProfileId'', show_int (pp_origin_profile_id p)),
      (''plateIndex'', show_int (plate_no (pp_plate_index p))),
      (''profileId'', if profile_id = [] then ''0'' else profile_id),
      (''sequence_id'', [QUOTE] @ ''20000'' @ [QUOTE]),
      (''timelapse'', to_bool (pp_record_timelapse p)),
      (''title'', escape (if pp_project_name p = [] then pp_task_name p else pp_project_name p)),
      (''useAms'', to_bool (pp_use_ams p)),
      (''vibrationCali'', to_bool (pp_vibration_cali p))]"

definition build_task_body :: "nat \<Rightarrow> settings \<Rightarrow> print_params \<Rightarrow> bytes \<Rightarrow> bytes \<Rightarrow> bool \<Rightarrow> bytes" where
  "build_task_body abi s p model_id profile_id use_lan = json_of_fields (task_fields abi s p model_id profile_id use_lan)"

text \<open>The first run of digits after the text of the key, where the id is not a string.\<close>

definition numeric_id :: "bytes \<Rightarrow> bytes" where
  "numeric_id body =
     (case find_sub ([QUOTE] @ ''id'' @ [QUOTE]) body of
        None \<Rightarrow> []
      | Some i \<Rightarrow> takeWhile is_digit (dropWhile (\<lambda>c. \<not> is_digit c) (drop i body)))"

definition create_task :: "bytes \<Rightarrow> bytes \<Rightarrow> bytes \<Rightarrow> bytes \<Rightarrow> web \<Rightarrow> bytes step" where
  "create_task api token user_id body wb =
     (let (resp, wb') = perform (new_request\<lparr>hq_method := POST, hq_url := api @ ''/v1/user-service/my/task'',
                          hq_headers := bbl_headers token user_id, hq_body := body\<rparr>) wb in
      if \<not> answered resp then (Inr ''0'', [], wb')
      else case parse_opt (hr_body resp) of
          None \<Rightarrow> fail_stage net_err_wr_post_task_failed ''create_task bad JSON'' resp [] wb'
        | Some doc \<Rightarrow>
            (let tid = or_string (as_string (jfind doc ''id'')) (numeric_id (hr_body resp)) in
             if tid = [] then fail_stage net_err_wr_post_task_failed ''create_task missing task_id'' resp [] wb'
             else (Inr tid, [], wb')))"

section \<open>The job\<close>

definition path_filename :: "bytes \<Rightarrow> bytes" where
  "path_filename path = rev (takeWhile (\<lambda>c. c \<noteq> SLASH) (rev path))"

definition cloud_md5 :: "print_params \<Rightarrow> bytes" where
  "cloud_md5 p = (if pp_ftp_file_md5 p = [] then replicate 32 (CHR ''0'') else pp_ftp_file_md5 p)"

definition cloud_project_name :: "print_params \<Rightarrow> bytes" where
  "cloud_project_name p =
     (let n = (if pp_project_name p = [] then pp_task_name p else pp_project_name p) in if n = [] then ''untitled'' else n)"

text \<open>A file that gives no bytes ends the job.\<close>

definition read_step :: "bytes \<Rightarrow> bytes \<Rightarrow> web \<Rightarrow> bytes step" where
  "read_step content msg wb =
     (if content = [] then (Inl net_err_file_not_exist, [(Stage_error, net_err_file_not_exist, msg)], wb)
      else (Inr content, [], wb))"

text \<open>Steps [A] to [H]: the project and the URL under which the file to print was put.\<close>

definition upload_steps :: "bytes \<Rightarrow> bytes \<Rightarrow> bytes \<Rightarrow> cloud_env \<Rightarrow> print_params \<Rightarrow> web \<Rightarrow> (project_info \<times> bytes) step" where
  "upload_steps api token uid ce p wb =
     (let config_path = (if pp_config_filename p = [] then pp_filename p else pp_config_filename p);
          config_file = (if pp_config_filename p = [] then je_file ce else ce_config ce);
          ftp_url = ''ftp://'' @ pick_remote_name p in
      then_step (create_project api token uid (cloud_project_name p) wb) (\<lambda>info wb.
      then_step (read_step (slurp_file config_file) ''config_filename not readable'' wb) (\<lambda>config_bytes wb.
      then_step (s3_put (pi_upload_url info) config_bytes 0 10 net_err_wr_upload_config_failed wb) (\<lambda>_ wb.
      then_step (notify_upload api token uid (pi_upload_ticket info) (path_filename config_path) wb) (\<lambda>_ wb.
      then_step (poll_upload api token uid (pi_upload_ticket info) (ce_polls ce) wb) (\<lambda>_ wb.
      then_step (patch_project api token uid (pi_project_id info) (pi_profile_id info) (cloud_md5 p) (pp_plate_index p) ftp_url wb) (\<lambda>_ wb.
      then_step (get_upload_url api token uid
          (pi_model_id info @ ''_'' @ pi_profile_id info @ ''_'' @ show_int (plate_no (pp_plate_index p)) @ ''.3mf'') wb) (\<lambda>main_url wb.
      then_step (read_step (slurp_file (je_file ce)) ''filename not readable'' wb) (\<lambda>main_bytes wb.
      then_step (s3_put main_url main_bytes 10 95 net_err_wr_upload_3mf_failed wb) (\<lambda>_ wb.
      then_step (patch_project api token uid (pi_project_id info) (pi_profile_id info) (cloud_md5 p) (pp_plate_index p) main_url wb) (\<lambda>_ wb.
        (Inr (info, main_url), [], wb))))))))))))"

text \<open>Steps [I] and [J]; \<open>lan_path\<close> is the path of the file on the printer, when it was put there.\<close>

definition job_stop :: "int \<Rightarrow> update list \<Rightarrow> agent \<Rightarrow> world \<Rightarrow> job_result" where
  "job_stop code ups ag w = \<lparr>jr_rc = code, jr_updates = ups, jr_agent = ag, jr_world = w, jr_ftp = None\<rparr>"

definition cloud_opts :: "print_params \<Rightarrow> bytes \<Rightarrow> bytes \<Rightarrow> bytes \<Rightarrow> bytes option \<Rightarrow> bytes \<Rightarrow> project_opts" where
  "cloud_opts p project_id profile_id task_id lan_path main_url =
     \<lparr>po_file_path = (case lan_path of Some path \<Rightarrow> path | None \<Rightarrow> pick_remote_name p),
      po_url = (case lan_path of
          Some path \<Rightarrow> if pp_try_emmc_print p then build_brtc_emmc_url (pick_remote_name p) else build_ftp_url path
        | None \<Rightarrow> main_url),
      po_md5 = cloud_md5 p, po_project_id = project_id, po_profile_id = profile_id, po_task_id = task_id, po_subtask_id = ''0''\<rparr>"

definition finish_cloud_print ::
  "nat \<Rightarrow> settings \<Rightarrow> (mqtt_call \<Rightarrow> int) \<Rightarrow> cloud_env \<Rightarrow> print_params \<Rightarrow> bytes \<Rightarrow> bytes \<Rightarrow> bytes \<Rightarrow> project_info \<times> bytes \<Rightarrow> bytes option
    \<Rightarrow> update list \<Rightarrow> agent \<Rightarrow> world \<Rightarrow> web \<Rightarrow> job_result \<times> web" where
  "finish_cloud_print abi s rc ce p api token uid up lan_path ups ag w wb =
     (let (info, main_url) = up;
          ups1 = ups @ [(Stage_sending, 0, [])];
          body = build_task_body abi s p (pi_model_id info) (pi_profile_id info) (lan_path \<noteq> None);
          (r, ups2, wb') = create_task api token uid body wb in
      case r of
        Inl code \<Rightarrow> (job_stop code (ups1 @ ups2) ag w, wb')
      | Inr task_id \<Rightarrow>
          (let js = build_project_file_json abi s (je_now ce) p
                      (cloud_opts p (pi_project_id info) (pi_profile_id info) task_id lan_path main_url);
               (pub, w') = (if lan_path \<noteq> None then send_message_to_printer rc (pp_dev_id p) js 0 ag w
                            else cloud_send_message rc (pp_dev_id p) js 0 ag w) in
           if pub \<noteq> 0 then (fail_job net_err_lp_publish_failed ''MQTT publish failed'' (ups1 @ ups2) ag w', wb')
           else (job_stop 0 (ups1 @ ups2 @ [(Stage_finished, 0, ''3'')]) ag w', wb')))"

definition run_cloud_print_job ::
  "nat \<Rightarrow> settings \<Rightarrow> (bytes \<Rightarrow> bytes) \<Rightarrow> (mqtt_call \<Rightarrow> int) \<Rightarrow> cloud_env \<Rightarrow> print_params \<Rightarrow> bool \<Rightarrow> agent \<Rightarrow> world \<Rightarrow> web
    \<Rightarrow> (job_result \<times> web) io" where
  "run_cloud_print_job abi s md5 rc ce p use_lan ag w wb =
     (let sess = session_of ag; token = si_access_token sess; uid = si_user_id sess;
          api = api_host s (cloud_region ag); create = (Stage_create, 0, []) in
      if pp_filename p = [] then Ret (fail_job net_err_file_not_exist ''empty filename'' [] ag w, wb)
      else if token = [] \<or> uid = [] then Ret (fail_job net_err_invalid_handle ''not logged in'' [] ag w, wb)
      else if je_first ce then Ret (job_stop net_err_canceled [create] ag w, wb)
      else
        case upload_steps api token uid ce p wb of
          (Inl code, ups, wb1) \<Rightarrow> Ret (job_stop code (create # ups) ag w, wb1)
        | (Inr up, ups, wb1) \<Rightarrow>
            (let finish = finish_cloud_print abi s rc ce p api token uid up; name = pick_remote_name p in
             if \<not> use_lan \<or> pp_dev_ip p = [] \<or> pp_password p = [] then Ret (finish None (create # ups) ag w wb1)
             else if pp_try_emmc_print p then
               io_bind (upload_file md5 (je_during ce)
                   (session_cfg (je_uuid ce) (je_version ce) (connect_params_from_print (pp_dev_ip p) (pp_dev_id p) (pp_password p)))
                   (je_seed ce) (je_tunnel ce) (tunnel_upload_request (job_env.truncate ce) p name) net_err_lp_upload_ftp_failed)
                 (\<lambda>(code, out, pcts).
                    let ups' = create # ups @ map (\<lambda>pct. (Stage_upload, pct, [])) pcts in
                    Ret (if code \<noteq> 0 then (job_stop code ups' ag w, wb1) else finish (Some name) ups' ag w wb1))
             else
               let ag1 = set_use_ssl_for_ftp (pp_use_ssl_for_ftp p) ag;
                   remote_path = remote_path_for p name;
                   fj = ftp_upload s (job_env.truncate ce) p remote_path (bambu_ca_bundle_path ag1 (pr_disk (wo_proc w)))
                          net_err_lp_upload_ftp_failed (wo_proc w);
                   w1 = w\<lparr>wo_proc := fj_proc fj\<rparr>;
                   ups' = create # ups @ fj_updates fj;
                   path = (case fj_path fj of None \<Rightarrow> remote_path | Some path \<Rightarrow> if path \<noteq> [] then path else remote_path);
                   (jr, wb2) = (if fj_rc fj \<noteq> 0 then (job_stop (fj_rc fj) ups' ag1 w1, wb1) else finish (Some path) ups' ag1 w1 wb1) in
               Ret (jr\<lparr>jr_ftp := Some (fj_ftp fj)\<rparr>, wb2)))"

end
