(* ===== verification/Cloud_Print_Laws.thy ===== *)
theory Cloud_Print_Laws
  imports Cloud_Print
begin

text \<open>What holds of a cloud print: what it sends where, and what the printer is told.\<close>

section \<open>Steps\<close>

lemma then_step_ok:
  assumes "then_step st f = (Inr y, ups, wb')"
  obtains x u1 wb1 u2 where "st = (Inr x, u1, wb1)" "f x wb1 = (Inr y, u2, wb')" "ups = u1 @ u2"
  using assms by (auto simp: then_step_def split: prod.splits sum.splits)

definition step_sends :: "(wire_request \<Rightarrow> bool) \<Rightarrow> web \<Rightarrow> 'a step \<Rightarrow> bool" where
  "step_sends P wb st = sends P wb (snd (snd st))"

lemma step_sends_Inl [simp]: "step_sends P wb (r, u, wb)"
  by (simp add: step_sends_def)

lemma step_sends_then:
  assumes "step_sends P wb st" and "\<And>x wb1. step_sends P wb1 (f x wb1)"
  shows "step_sends P wb (then_step st f)"
proof -
  obtain r u wb1 where st: "st = (r, u, wb1)" by (metis surj_pair)
  then have 1: "sends P wb wb1" using assms(1) by (simp add: step_sends_def)
  show ?thesis
  proof (cases r)
    case (Inr x)
    then show ?thesis
      using sends_trans [OF 1 assms(2) [unfolded step_sends_def, of wb1 x]]
      by (auto simp: step_sends_def then_step_def st split: prod.split)
  qed (use 1 in \<open>simp add: step_sends_def then_step_def st\<close>)
qed

text \<open>A request of the job: to the API host, or without the token.\<close>

definition no_token :: "wire_request \<Rightarrow> bool" where
  "no_token w = list_all (\<lambda>l. \<not> prefix ''Authorization'' l) (wq_lines w)"

definition confined :: "bytes \<Rightarrow> wire_request \<Rightarrow> bool" where
  "confined api w = ((\<exists>rest. wq_url w = c_str (api @ rest)) \<or> no_token w)"

lemma confined_api: "hq_url rq = api @ rest \<Longrightarrow> confined api (wire_of a rq)"
  by (auto simp: confined_def wire_of_def)

lemma step_fail [simp]: "snd (snd (fail_stage code what resp ups wb)) = wb"
  by (simp add: fail_stage_def)

lemma create_project_sends: "step_sends (confined api) wb (create_project api token uid name wb)"
  unfolding create_project_def step_sends_def Let_def
  by (auto simp: new_request_def confined_api split: prod.split option.split intro!: sends_perform)

lemma s3_headers: "no_token (wire_of a (new_request\<lparr>hq_method := PUT, hq_url := url, hq_no_content_type := True, hq_no_accept := True,
    hq_headers := [(''Content-Type'', []), (''Expect'', [])], hq_body := body\<rparr>))"
  by (simp add: no_token_def wire_of_def new_request_def header_text_def c_str_def has_header_def http_lower_def to_lower_char_def)

lemma s3_put_sends: "step_sends (confined api) wb (s3_put url body a b err wb)"
  unfolding s3_put_def step_sends_def Let_def
  by (auto simp: confined_def s3_headers split: prod.split intro!: sends_perform)

lemma notify_upload_sends: "step_sends (confined api) wb (notify_upload api token uid ticket name wb)"
  unfolding notify_upload_def step_sends_def Let_def
  by (auto simp: new_request_def confined_api split: prod.split intro!: sends_perform)

lemma get_json_sends: "get_json (api @ rest) hdrs wb = (resp, wb') \<Longrightarrow> sends (confined api) wb wb'"
  unfolding get_json_def by (erule sends_perform) (simp add: confined_api new_request_def)

lemma poll_loop_sends: "step_sends (confined api) wb (poll_loop cancelled (api @ rest) hdrs i n wb)"
proof (induction n arbitrary: i wb)
  case (Suc n)
  obtain resp wb' where g: "get_json (api @ rest) hdrs wb = (resp, wb')" by (metis surj_pair)
  show ?case using get_json_sends [OF g] Suc.IH [of wb' "Suc i"] g sends_trans by (auto simp: step_sends_def)
qed simp

lemma patch_project_sends: "step_sends (confined api) wb (patch_project api token uid pid prof md5 plate url wb)"
  unfolding patch_project_def step_sends_def Let_def
  by (auto simp: new_request_def confined_api split: prod.split intro!: sends_perform)

lemma get_upload_url_sends: "step_sends (confined api) wb (get_upload_url api token uid slot wb)"
  unfolding get_upload_url_def step_sends_def Let_def
  by (auto split: prod.split option.split list.split intro: get_json_sends)

lemma create_task_sends: "step_sends (confined api) wb (create_task api token uid body wb)"
  unfolding create_task_def step_sends_def Let_def
  by (auto simp: new_request_def confined_api split: prod.split option.split intro!: sends_perform)

lemma read_step_sends [simp]: "step_sends P wb (read_step content msg wb)"
  by (simp add: read_step_def)

lemmas steps_send = step_sends_then create_project_sends s3_put_sends notify_upload_sends patch_project_sends
  get_upload_url_sends create_task_sends read_step_sends

lemma upload_steps_send: "step_sends (confined api) wb (upload_steps api token uid ce p wb)"
  unfolding upload_steps_def Let_def poll_upload_def
  by (intro steps_send poll_loop_sends step_sends_Inl)


section \<open>The file that is printed\<close>

lemma s3_put_ok:
  assumes "s3_put url body a b err wb = (Inr x, ups, wb')"
  shows "\<exists>w. w \<in> set (wb_sent wb') \<and> wq_verb w = ''PUT'' \<and> wq_url w = c_str url \<and> wq_body w = Some body \<and> no_token w"
proof -
  let ?rq = "new_request\<lparr>hq_method := PUT, hq_url := url, hq_no_content_type := True, hq_no_accept := True,
    hq_headers := [(''Content-Type'', []), (''Expect'', [])], hq_body := body\<rparr>"
  obtain resp where p: "perform ?rq wb = (resp, wb')" and "answered resp"
    using assms by (auto simp: s3_put_def fail_stage_def split: prod.splits if_splits)
  then have "wb_sent wb' = wb_sent wb @ [wire_of (wb_agent wb) ?rq]"
    using perform_sent [OF p] by (simp add: answered_def)
  then have "wire_of (wb_agent wb) ?rq \<in> set (wb_sent wb')" by simp
  moreover have "wq_verb (wire_of (wb_agent wb) ?rq) = ''PUT''" "wq_url (wire_of (wb_agent wb) ?rq) = c_str url"
    "wq_body (wire_of (wb_agent wb) ?rq) = Some body"
    by (simp_all add: wire_of_def method_verb_def sends_body_def)
  ultimately show ?thesis using s3_headers by blast
qed

lemma patch_project_keeps: "patch_project api token uid pid prof md5 plate url wb = (r, ups, wb') \<Longrightarrow> set (wb_sent wb) \<subseteq> set (wb_sent wb')"
  using patch_project_sends [of api wb token uid pid prof md5 plate url] sends_keeps by (simp add: step_sends_def)

text \<open>\<open>gives Q st\<close>: if the step succeeds, its value and the web satisfy \<open>Q\<close>.\<close>

definition gives :: "('a \<Rightarrow> web \<Rightarrow> bool) \<Rightarrow> 'a step \<Rightarrow> bool" where
  "gives Q st = (\<forall>x ups wb. st = (Inr x, ups, wb) \<longrightarrow> Q x wb)"

lemma gives_then: "gives R st \<Longrightarrow> (\<And>x wb. R x wb \<Longrightarrow> gives Q (f x wb)) \<Longrightarrow> gives Q (then_step st f)"
  unfolding gives_def using then_step_ok by metis

lemma gives_any: "(\<And>x wb. gives Q (f x wb)) \<Longrightarrow> gives Q (then_step st f)"
  by (rule gives_then [of "\<lambda>_ _. True"]) (simp_all add: gives_def)

definition put_under :: "bytes \<Rightarrow> bytes \<Rightarrow> web \<Rightarrow> bool" where
  "put_under url content wb =
     (\<exists>w \<in> set (wb_sent wb). wq_verb w = ''PUT'' \<and> wq_url w = c_str url \<and> wq_body w = Some content \<and> no_token w)"

lemma s3_put_gives: "gives (\<lambda>_. put_under url body) (s3_put url body a b err wb)"
  unfolding gives_def put_under_def using s3_put_ok by blast

lemma patch_project_gives: "put_under url' content wb \<Longrightarrow>
    gives (\<lambda>_. put_under url' content) (patch_project api token uid pid prof md5 plate url wb)"
  unfolding gives_def put_under_def using patch_project_keeps by blast

lemma read_step_gives: "gives (\<lambda>c _. c = content \<and> content \<noteq> []) (read_step content msg wb)"
  by (simp add: gives_def read_step_def)

lemma upload_steps_ok:
  "gives (\<lambda>(info, url) wb'. slurp_file (je_file ce) \<noteq> [] \<and> put_under url (slurp_file (je_file ce)) wb') (upload_steps api token uid ce p wb)"
proof -
  let ?Q = "\<lambda>(info :: project_info, url) wb'. slurp_file (je_file ce) \<noteq> [] \<and> put_under url (slurp_file (je_file ce)) wb'"
  have tail: "gives ?Q
     (then_step (read_step (slurp_file (je_file ce)) ''filename not readable'' wb) (\<lambda>main_bytes wb.
      then_step (s3_put main_url main_bytes 10 95 net_err_wr_upload_3mf_failed wb) (\<lambda>_ wb.
      then_step (patch_project api token uid pid prof md5 plate main_url wb) (\<lambda>_ wb.
        (Inr (info, main_url), [], wb)))))" for main_url pid prof md5 plate info wb
    by (rule gives_then [OF read_step_gives], rule gives_then [OF s3_put_gives], rule gives_then [OF patch_project_gives])
      (simp_all add: gives_def)
  show ?thesis
    unfolding upload_steps_def Let_def
    by (rule gives_any, rule gives_any, rule gives_any, rule gives_any, rule gives_any, rule gives_any, rule gives_any, rule tail)
qed


text \<open>A step that fails has an error code.\<close>

definition fails_properly :: "'a step \<Rightarrow> bool" where
  "fails_properly st = (\<forall>code ups wb. st = (Inl code, ups, wb) \<longrightarrow> code \<noteq> 0)"

lemma fails_then: "fails_properly st \<Longrightarrow> (\<And>x wb. fails_properly (f x wb)) \<Longrightarrow> fails_properly (then_step st f)"
  unfolding fails_properly_def then_step_def by (auto split: prod.splits sum.splits) blast

lemma fails_Inr [simp]: "fails_properly (Inr x, ups, wb)"
  by (simp add: fails_properly_def)

lemma fails_stage [simp]: "code \<noteq> 0 \<Longrightarrow> fails_properly (fail_stage code what resp ups wb)"
  by (simp add: fails_properly_def fail_stage_def)

lemma fails_Inl [simp]: "fails_properly (Inl code, ups, wb) \<longleftrightarrow> code \<noteq> 0"
  by (simp add: fails_properly_def)

lemma poll_loop_fails: "fails_properly (poll_loop cancelled url hdrs i n wb)"
  by (induction n arbitrary: i wb) (simp_all add: wr_codes job_codes split: prod.split)

lemma steps_fail:
  "fails_properly (create_project api token uid name wb)" "err \<noteq> 0 \<Longrightarrow> fails_properly (s3_put url body a b err wb)"
  "fails_properly (notify_upload api token uid ticket name wb)" "fails_properly (poll_upload api token uid ticket cancelled wb)"
  "fails_properly (patch_project api token uid pid prof md5 plate url wb)" "fails_properly (get_upload_url api token uid slot wb)"
  "fails_properly (create_task api token uid body wb)" "fails_properly (read_step content msg wb)"
  by (simp_all add: create_project_def s3_put_def notify_upload_def poll_upload_def poll_loop_fails patch_project_def get_upload_url_def
      create_task_def read_step_def wr_codes job_codes Let_def split: prod.split option.split list.split)

lemma upload_steps_fail: "fails_properly (upload_steps api token uid ce p wb)"
  unfolding upload_steps_def Let_def by (intro fails_then steps_fail fails_Inr; simp add: wr_codes)

lemma finish_web:
  assumes "finish_cloud_print abi s rc ce p api token uid up lan ups ag w wb = (jr, wb')"
  shows "sends (confined api) wb wb'"
  using assms create_task_sends [of api wb token uid]
  by (auto simp: finish_cloud_print_def step_sends_def Let_def split: prod.splits sum.splits if_splits) (metis snd_conv)+

lemma finish_ok:
  assumes "finish_cloud_print abi s rc ce p api token uid (info, url) None ups ag w wb = (jr, wb')" and "jr_rc jr = 0"
  shows "\<exists>task_id. cloud_send_message rc (pp_dev_id p) (build_project_file_json abi s (je_now ce) p
      (cloud_opts p (pi_project_id info) (pi_profile_id info) task_id None url)) 0 ag w = (0, jr_world jr) \<and>
    last (jr_updates jr) = (Stage_finished, 0, ''3'')"
proof -
  obtain r ups2 wb2 where c: "create_task api token uid (build_task_body abi s p (pi_model_id info) (pi_profile_id info) False) wb = (r, ups2, wb2)"
    by (metis surj_pair)
  show ?thesis
  proof (cases r)
    case (Inl code)
    then have "code \<noteq> 0" using c steps_fail(7) [of api token uid] by (metis fails_Inl)
    then show ?thesis using assms c Inl by (auto simp: finish_cloud_print_def job_stop_def Let_def)
  next
    case (Inr tid)
    then show ?thesis using assms c
      by (auto simp: finish_cloud_print_def job_stop_def fail_job_def net_err_lp_publish_failed_def Let_def split: prod.splits if_splits)
  qed
qed



text \<open>C9: the token stays with the API. Whatever becomes of a cloud print and whichever channel it uses, every
  request it makes goes to the API host of the region or carries no \<open>Authorization\<close> header; so
  the storage addresses the service hands out never see the user's token.
\<close>

theorem cloud_print_confines_token:
  assumes "run_cloud_print_job abi s md5 rc ce p use_lan ag w wb = Ret (jr, wb')"
  shows "sends (confined (api_host s (cloud_region ag))) wb wb'"
proof -
  define token where "token = si_access_token (session_of ag)"
  define uid where "uid = si_user_id (session_of ag)"
  define api where "api = api_host s (cloud_region ag)"
  obtain r ups wb1 where u: "upload_steps api token uid ce p wb = (r, ups, wb1)" by (metis surj_pair)
  then have s1: "sends (confined api) wb wb1" using upload_steps_send [of api wb token uid ce p] by (simp add: step_sends_def)
  have fin: "sends (confined api) wb wb2"
    if "finish_cloud_print abi s rc ce p api token uid up lan ups ag' w' wb1 = (j, wb2)" for up lan ups ag' w' j wb2
    using sends_trans [OF s1 finish_web [OF that]] .
  show ?thesis
    using assms u s1 fin unfolding run_cloud_print_job_def Let_def token_def [symmetric] uid_def [symmetric] api_def [symmetric]
    by (auto simp: io_bind_Ret_iff split: if_splits sum.splits prod.splits)
qed


section \<open>A service that answers\<close>

definition ok_outcome :: "http_outcome \<Rightarrow> bool" where
  "ok_outcome out = answered (response_of out)"

definition project_answer :: "http_outcome \<Rightarrow> bool" where
  "project_answer out = (ok_outcome out \<and> (\<exists>doc. parse_opt (hr_body (response_of out)) = Some doc \<and>
     pi_project_id (info_of doc) \<noteq> [] \<and> pi_upload_url (info_of doc) \<noteq> []))"

definition urls_answer :: "http_outcome \<Rightarrow> bool" where
  "urls_answer out = (ok_outcome out \<and> (\<exists>doc u us. parse_opt (hr_body (response_of out)) = Some doc \<and>
     as_array (jfind doc ''urls'') = u # us \<and> as_string (jfind u ''url'') \<noteq> []))"

text \<open>The task call may be refused; if it is not, its answer must have an id.\<close>

definition task_answer :: "http_outcome \<Rightarrow> bool" where
  "task_answer out = (ok_outcome out \<longrightarrow> (\<exists>doc. parse_opt (hr_body (response_of out)) = Some doc \<and>
     or_string (as_string (jfind doc ''id'')) (numeric_id (hr_body (response_of out))) \<noteq> []))"

definition succeeds :: "http_outcome list \<Rightarrow> 'a step \<Rightarrow> bool" where
  "succeeds outs st = (\<exists>x ups wb. st = (Inr x, ups, wb) \<and> wb_next wb = outs)"

lemma succeeds_then:
  assumes "succeeds outs1 st" and "\<And>x wb. wb_next wb = outs1 \<Longrightarrow> succeeds outs2 (f x wb)"
  shows "succeeds outs2 (then_step st f)"
proof -
  obtain x ups wb where st: "st = (Inr x, ups, wb)" "wb_next wb = outs1" using assms(1) by (auto simp: succeeds_def)
  from assms(2) [OF st(2), of x] show ?thesis
    by (auto simp: succeeds_def then_step_def st(1) split: prod.split)
qed

lemma perform_next: "wb_next wb = out # outs \<Longrightarrow> \<exists>wb'. perform rq wb = (response_of out, wb') \<and> wb_next wb' = outs"
  by (simp add: perform_def)

lemma steps_succeed:
  assumes "wb_next wb = out # outs" and "ok_outcome out"
  shows "succeeds outs (s3_put url body a b err wb)" "succeeds outs (notify_upload api token uid ticket name wb)"
    "succeeds outs (patch_project api token uid pid prof md5 plate url wb)"
    "\<not> cancelled 0 \<Longrightarrow> succeeds outs (poll_upload api token uid ticket cancelled wb)"
    "project_answer out \<Longrightarrow> succeeds outs (create_project api token uid name wb)"
    "urls_answer out \<Longrightarrow> succeeds outs (get_upload_url api token uid slot wb)"
proof -
  note o = assms(2) [unfolded ok_outcome_def]
  obtain nx where p: "perform rq wb = (response_of out, nx rq)" "wb_next (nx rq) = outs" for rq
    using perform_next [OF assms(1)] by metis
  show "succeeds outs (s3_put url body a b err wb)" "succeeds outs (notify_upload api token uid ticket name wb)"
    "succeeds outs (patch_project api token uid pid prof md5 plate url wb)"
    by (simp_all add: s3_put_def notify_upload_def patch_project_def succeeds_def p o)
  show "succeeds outs (poll_upload api token uid ticket cancelled wb)" if "\<not> cancelled 0"
    using that by (simp add: poll_upload_def get_json_def succeeds_def p o eval_nat_numeral)
  show "succeeds outs (create_project api token uid name wb)" if "project_answer out"
    using that by (auto simp: create_project_def project_answer_def succeeds_def p o)
  show "succeeds outs (get_upload_url api token uid slot wb)" if "urls_answer out"
    using that by (auto simp: get_upload_url_def get_json_def urls_answer_def succeeds_def p o Let_def)
qed

lemma read_step_succeeds: "content \<noteq> [] \<Longrightarrow> wb_next wb = outs \<Longrightarrow> succeeds outs (read_step content msg wb)"
  by (simp add: read_step_def succeeds_def)

lemma create_task_succeeds:
  assumes "wb_next wb = out # outs" and "task_answer out" shows "succeeds outs (create_task api token uid body wb)"
proof -
  obtain nx where p: "perform rq wb = (response_of out, nx rq)" "wb_next (nx rq) = outs" for rq
    using perform_next [OF assms(1)] by metis
  show ?thesis
    using assms(2) by (cases "ok_outcome out") (auto simp: create_task_def task_answer_def ok_outcome_def succeeds_def p Let_def)
qed

lemma upload_steps_succeed:
  assumes "wb_next wb = [o1, o2, o3, o4, o5, o6, o7, o8, o9]"
    and "project_answer o1" "ok_outcome o2" "ok_outcome o3" "ok_outcome o4" "ok_outcome o5" "urls_answer o6" "ok_outcome o7" "ok_outcome o8"
    and "slurp_file (if pp_config_filename p = [] then je_file ce else ce_config ce) \<noteq> []" "slurp_file (je_file ce) \<noteq> []"
    and "\<not> ce_polls ce 0"
  shows "succeeds [o9] (upload_steps api token uid ce p wb)"
proof -
  have k: "ok_outcome o1" "ok_outcome o6" using assms(2,7) by (simp_all add: project_answer_def urls_answer_def)
  have poll: "succeeds outs (poll_upload api token uid ticket (ce_polls ce) wb)" if "wb_next wb = o4 # outs" for outs ticket wb
    by (rule steps_succeed(4) [OF that assms(5)]) (rule assms(12))
  show ?thesis
    unfolding upload_steps_def Let_def
    apply (rule succeeds_then [OF steps_succeed(5) [OF assms(1) k(1) assms(2)]])
    apply (rule succeeds_then [OF read_step_succeeds [OF assms(10)]], assumption)
    apply (rule succeeds_then [OF steps_succeed(1) [OF _ assms(3)]], assumption)
    apply (rule succeeds_then [OF steps_succeed(2) [OF _ assms(4)]], assumption)
    apply (rule succeeds_then [OF poll], assumption)
    apply (rule succeeds_then [OF steps_succeed(3) [OF _ assms(6)]], assumption)
    apply (rule succeeds_then [OF steps_succeed(6) [OF _ k(2) assms(7)]], assumption)
    apply (rule succeeds_then [OF read_step_succeeds [OF assms(11)]], assumption)
    apply (rule succeeds_then [OF steps_succeed(1) [OF _ assms(8)]], assumption)
    apply (rule succeeds_then [OF steps_succeed(3) [OF _ assms(9)]], assumption)
    apply (simp add: succeeds_def)
    done
qed


text \<open>What a cloud print needs of its surroundings.\<close>

definition cloud_ready :: "(mqtt_call \<Rightarrow> int) \<Rightarrow> cloud_env \<Rightarrow> print_params \<Rightarrow> agent \<Rightarrow> web \<Rightarrow> bool" where
  "cloud_ready rc ce p ag wb =
     (pp_filename p \<noteq> [] \<and> si_access_token (session_of ag) \<noteq> [] \<and> si_user_id (session_of ag) \<noteq> [] \<and>
      \<not> je_first ce \<and> \<not> ce_polls ce 0 \<and>
      slurp_file (if pp_config_filename p = [] then je_file ce else ce_config ce) \<noteq> [] \<and> slurp_file (je_file ce) \<noteq> [] \<and>
      (\<exists>o1 o2 o3 o4 o5 o6 o7 o8 o9. wb_next wb = [o1, o2, o3, o4, o5, o6, o7, o8, o9] \<and>
         project_answer o1 \<and> list_all ok_outcome [o2, o3, o4, o5] \<and> urls_answer o6 \<and> list_all ok_outcome [o7, o8] \<and> task_answer o9) \<and>
      (\<exists>cs. ag_cloud ag = Some cs \<and> cs_client cs \<noteq> None \<and> cs_connected cs) \<and> (\<forall>c. rc c = mosq_err_success))"

lemma cloud_send_ok:
  assumes "ag_cloud ag = Some cs" "cs_client cs \<noteq> None" "cs_connected cs" "\<forall>c. rc c = mosq_err_success"
  shows "fst (cloud_send_message rc dev js qos ag w) = 0"
  using assms by (simp add: cloud_send_message_def cloud_publish_def mqtt_publish_def net_codes split: prod.split)

lemma cloud_ready_runs:
  assumes "cloud_ready rc ce p ag wb" and "\<not> use_lan"
  shows "\<exists>jr wb'. run_cloud_print_job abi s md5 rc ce p use_lan ag w wb = Ret (jr, wb') \<and> jr_rc jr = 0 \<and>
    hd (jr_updates jr) = (Stage_create, 0, [])"
proof -
  define token where "token = si_access_token (session_of ag)"
  define uid where "uid = si_user_id (session_of ag)"
  define api where "api = api_host s (cloud_region ag)"
  obtain o1 o2 o3 o4 o5 o6 o7 o8 o9 where outs: "wb_next wb = [o1, o2, o3, o4, o5, o6, o7, o8, o9]" "project_answer o1"
    "ok_outcome o2" "ok_outcome o3" "ok_outcome o4" "ok_outcome o5" "urls_answer o6" "ok_outcome o7" "ok_outcome o8" "task_answer o9"
    using assms(1) unfolding cloud_ready_def by auto
  have "succeeds [o9] (upload_steps api token uid ce p wb)"
    by (rule upload_steps_succeed [OF outs(1-9)]) (use assms(1) in \<open>auto simp: cloud_ready_def\<close>)
  then obtain info url ups wb1 where u: "upload_steps api token uid ce p wb = (Inr (info, url), ups, wb1)" "wb_next wb1 = [o9]"
    by (auto simp: succeeds_def)
  have task: "succeeds [] (create_task api token uid body wb1)" for body by (rule create_task_succeeds [OF u(2) outs(10)])
  obtain tid ups2 wb2 where t: "create_task api token uid (build_task_body abi s p (pi_model_id info) (pi_profile_id info) False) wb1 = (Inr tid, ups2, wb2)"
    using task [unfolded succeeds_def] by metis
  obtain cs where cs: "ag_cloud ag = Some cs" "cs_client cs \<noteq> None" "cs_connected cs" "\<forall>c. rc c = mosq_err_success"
    using assms(1) unfolding cloud_ready_def by auto
  have "\<exists>jr wb'. finish_cloud_print abi s rc ce p api token uid (info, url) None ((Stage_create, 0, []) # ups) ag w wb1 = (jr, wb') \<and>
      jr_rc jr = 0 \<and> hd (jr_updates jr) = (Stage_create, 0, [])"
    using cloud_send_ok [OF cs] by (simp add: finish_cloud_print_def t job_stop_def case_prod_beta' Let_def)
  then show ?thesis
    using assms u(1) unfolding run_cloud_print_job_def Let_def token_def [symmetric] uid_def [symmetric] api_def [symmetric]
    by (auto simp: cloud_ready_def token_def uid_def)
qed

text \<open>C6: a cloud print succeeds. When the user is logged in and the cloud session is connected, nobody
  cancels, both files can be read and the service answers each call, then the job returns success; the
  task record may be refused.
\<close>

theorem cloud_print_succeeds:
  assumes "cloud_ready rc ce p ag wb"
  shows "\<exists>jr wb'. run_cloud_print_job abi s md5 rc ce p False ag w wb = Ret (jr, wb') \<and> jr_rc jr = 0 \<and>
    hd (jr_updates jr) = (Stage_create, 0, [])"
  by (rule cloud_ready_runs [OF assms]) simp

text \<open>A small cloud print.\<close>

definition project_doc :: json where
  "project_doc = Object [(''project_id'', String ''7''), (''upload_url'', String ''https://s3/c'')]"

definition urls_doc :: json where
  "urls_doc = Object [(''urls'', Array [Object [(''url'', String ''https://s3/m'')]])]"

definition cloud_cube_web :: web where
  "cloud_cube_web = \<lparr>wb_agent = ''OBN/1'', wb_next = [Responded 200 [] (dump project_doc), Responded 200 [] [], Responded 200 [] [],
     Responded 200 [] [], Responded 200 [] [], Responded 200 [] (dump urls_doc), Responded 200 [] [], Responded 200 [] [],
     Responded 403 [] []], wb_sent = []\<rparr>"

definition cloud_cube_agent :: agent where
  "cloud_cube_agent = bind_agent\<lparr>ag_cloud := Some (new_cloud_session\<lparr>cs_client := fst (new_client True [] 0), cs_connected := True\<rparr>)\<rparr>"

definition cloud_cube_env :: cloud_env where
  "cloud_cube_env = job_env.extend cube_env \<lparr>ce_config = None, ce_polls = (\<lambda>_. False)\<rparr>"

lemma ok_plain: "answered (response_of (Responded 200 [] body)) \<and> hr_body (response_of (Responded 200 [] body)) = body"
  by (simp add: answered_def response_of_def new_response_def status_ok_def)

lemma cloud_cube_ready: "cloud_ready (\<lambda>_. mosq_err_success) cloud_cube_env cube_params cloud_cube_agent cloud_cube_web"
proof -
  have k: "plain_key ''project_id''" "plain_key ''upload_url''" "plain_key ''urls''" "plain_key ''url''" by (simp_all add: plain_key_def key_stop_def)
  have "dumpable project_doc" "dumpable urls_doc" by (simp_all add: project_doc_def urls_doc_def om_ok_def)
  then have p: "parse_opt (dump project_doc) = Some project_doc" "parse_opt (dump urls_doc) = Some urls_doc"
    by (simp_all add: parse_opt_def parse_dump)
  have "pi_project_id (info_of project_doc) \<noteq> []" "pi_upload_url (info_of project_doc) \<noteq> []"
    using jfind_key [OF k(1), of project_doc] jfind_key [OF k(2), of project_doc]
    by (simp_all add: info_of_def project_doc_def jget_def om_get_def Let_def)
  then have "project_answer (Responded 200 [] (dump project_doc))" by (simp add: project_answer_def ok_outcome_def ok_plain p)
  moreover have "as_array (jfind urls_doc ''urls'') = [Object [(''url'', String ''https://s3/m'')]]"
    "as_string (jfind (Object [(''url'', String ''https://s3/m'')]) ''url'') \<noteq> []"
    using jfind_key [OF k(3), of urls_doc] jfind_key [OF k(4)] by (simp_all add: urls_doc_def jget_def om_get_def)
  then have "urls_answer (Responded 200 [] (dump urls_doc))" by (auto simp: urls_answer_def ok_outcome_def ok_plain p)
  moreover have "task_answer (Responded 403 [] [])" by (simp add: task_answer_def ok_outcome_def answered_def response_of_def status_ok_def)
  moreover have "ok_outcome (Responded 200 [] [])" by (simp add: ok_outcome_def ok_plain)
  ultimately show ?thesis
    by (simp add: cloud_ready_def cloud_cube_web_def cloud_cube_agent_def cloud_cube_env_def cube_params_def cube_env_def
        job_env.defs slurp_file_def session_of_def bind_agent_def new_client_def global_init_def)
qed

theorem cloud_print_succeeds_witness:
  "\<exists>jr wb'. run_cloud_print_job 0x020600 default_settings rev (\<lambda>_. mosq_err_success) cloud_cube_env cube_params False cloud_cube_agent
     quiet_world cloud_cube_web = Ret (jr, wb') \<and> jr_rc jr = 0"
  using cloud_print_succeeds [OF cloud_cube_ready] by blast


theorem cloud_print_confines_token_witness:
  "\<exists>jr wb'. run_cloud_print_job 0x020600 default_settings rev (\<lambda>_. mosq_err_success) cloud_cube_env cube_params False cloud_cube_agent
     quiet_world cloud_cube_web = Ret (jr, wb') \<and> sends (confined (api_host default_settings ''GLOBAL'')) cloud_cube_web wb'"
proof -
  obtain jr wb' where r: "run_cloud_print_job 0x020600 default_settings rev (\<lambda>_. mosq_err_success) cloud_cube_env cube_params False
      cloud_cube_agent quiet_world cloud_cube_web = Ret (jr, wb')"
    using cloud_ready_runs [OF cloud_cube_ready, of False] by blast
  moreover have "cloud_region cloud_cube_agent = ''GLOBAL''"
    by (simp add: cloud_region_def cloud_cube_agent_def bind_agent_def new_agent_def)
  ultimately show ?thesis using cloud_print_confines_token [OF r] by auto
qed


section \<open>Mappings and files\<close>

definition slot_json :: "int \<times> int \<Rightarrow> json" where
  "slot_json pr = Object (emplace_all [(''amsId'', Number (of_int (fst pr))), (''slotId'', Number (of_int (snd pr)))] [])"

lemma slots_read:
  assumes "list_all (\<lambda>pr. small_int (fst pr) \<and> small_int (snd pr)) prs"
  shows "reads_as (slots_text prs) (Array (map slot_json prs))"
proof -
  have one: "reads_as (ams_slot_pair pr) (slot_json pr)" if "small_int (fst pr)" "small_int (snd pr)" for pr
    unfolding ams_slot_pair_def slot_json_def
    by (rule json_of_fields_reads) (use that reads_as_int in \<open>auto intro!: same_fieldI simp: plain_text_def escape_char_def\<close>)
  have "list_all (\<lambda>(t, v). reads_as t v \<and> t \<noteq> [] \<and> \<not> is_ws (hd t) \<and> hd t \<noteq> CHR '']'') (map (\<lambda>pr. (ams_slot_pair pr, slot_json pr)) prs)"
    using assms one by (auto simp: list_all_iff ams_slot_pair_def json_of_fields_def is_ws_def)
  from reads_as_array [OF this] show ?thesis by (simp add: slots_text_def comp_def)
qed

lemma small_cast: "small_int (cast_i32 x)"
  by (auto simp: small_int_def cast_i32_def Let_def abs_if)

text \<open>The AMS mapping of the task record. Where Studio passes the detailed mapping as a list that is not
  empty, the service reads a list of the same length in the same order whose entries have, under the
  service's own key names, the unit and slot numbers of Studio's entries.
\<close>

theorem ams_mapping_renamed:
  assumes "parse_opt (trim_mapping (pp_ams_mapping2 p)) = Some (Array items)" and "items \<noteq> []"
  shows "\<exists>es. parse_opt (ams_mapping2_for_cloud p) = Some (Array es) \<and>
    map (\<lambda>e. (jfind e ''amsId'', jfind e ''slotId'')) es =
    map (\<lambda>item. (Number (of_int (number_field item ''amsId'' ''ams_id'')), Number (of_int (number_field item ''slotId'' ''slot_id'')))) items"
proof -
  have e: "parse_opt ''[]'' = Some (Array [])" by (rule parse_opt_as [OF reads_as_empty])
  have "trim_mapping (pp_ams_mapping2 p) \<noteq> []" using assms(1) by (auto simp: parse_opt_def parse_def split: sum.splits)
  moreover have "trim_mapping (pp_ams_mapping2 p) \<noteq> ''[]''" using assms e by auto
  ultimately have t: "ams_mapping2_for_cloud p = slots_text (map item_slot items)"
    using assms(1) by (simp add: ams_mapping2_for_cloud_def Let_def)
  have "list_all (\<lambda>pr. small_int (fst pr) \<and> small_int (snd pr)) (map item_slot items)"
    using small_cast by (auto simp: list_all_iff item_slot_def number_field_def small_int_def Let_def)
  then have "parse_opt (ams_mapping2_for_cloud p) = Some (Array (map slot_json (map item_slot items)))"
    unfolding t by (rule parse_opt_as [OF slots_read])
  moreover have "jfind (slot_json pr) ''amsId'' = Number (of_int (fst pr))" "jfind (slot_json pr) ''slotId'' = Number (of_int (snd pr))" for pr
    unfolding slot_json_def by (rule emplaced_field; simp add: plain_key_def key_stop_def)+
  ultimately show ?thesis by (simp add: item_slot_def)
qed

theorem ams_mapping_renamed_witness:
  "\<exists>es. parse_opt (ams_mapping2_for_cloud (cube_params\<lparr>pp_ams_mapping2 := dump (Array [Object [(''ams_id'', Number 1), (''slot_id'', Number 2)]])\<rparr>)) =
      Some (Array es) \<and> length es = 1"
proof -
  let ?v = "Array [Object [(''ams_id'', Number 1), (''slot_id'', Number 2)]]"
  let ?p = "cube_params\<lparr>pp_ams_mapping2 := dump ?v\<rparr>"
  have "to_double 1 = 1" "to_double 2 = 2" "trunc_rat 1 = 1" "trunc_rat 2 = 2"
    using to_double_small [of 1] to_double_small [of 2] trunc_rat_of_int [of 1] trunc_rat_of_int [of 2] by simp_all
  then have "dumpable ?v" by (simp add: om_ok_def)
  then have "parse_opt (dump ?v) = Some ?v" by (simp only: parse_opt_def parse_dump sum.case)
  moreover have "trim_mapping (dump ?v) = dump ?v"
    by (simp add: trim_mapping_def ltrim_by_def rtrim_by_def mapping_blank_def)
  ultimately have "parse_opt (trim_mapping (pp_ams_mapping2 ?p)) = Some ?v" by (simp del: dump.simps)
  from ams_mapping_renamed [OF this] obtain es where "parse_opt (ams_mapping2_for_cloud ?p) = Some (Array es)"
    "length (map (\<lambda>e. (jfind e ''amsId'', jfind e ''slotId'')) es) = 1" by (auto dest: arg_cong [of _ _ length])
  then show ?thesis by (intro exI [of _ es]) simp
qed

text \<open>
  Studio leaves the digest empty. The LAN job then computes it; the cloud job sends zeros, also to
  the printer, whose firmware refuses a job on a mismatch according to \<open>print_job.cpp\<close>.
\<close>

lemma cloud_md5_zeros: "pp_ftp_file_md5 p = [] \<Longrightarrow> po_md5 (cloud_opts p pid prof tid lan url) = replicate 32 (CHR ''0'')"
  by (simp add: cloud_opts_def cloud_md5_def)

text \<open>A file whose reads stop early is indistinguishable from the shorter file.\<close>

lemma slurp_short_unnoticed: "slurp_file (Some (content, n)) = slurp_file (Some (take n content, length content))"
  by (cases "n \<le> length content") (simp_all add: slurp_file_def)

end
