(* ===== verification/Rtsp_Text.thy ===== *)
theory Rtsp_Text
  imports Cxx_Num
begin

text \<open>
  The text handling of the camera's RTSP client, \<open>src/stubs/rtsp_client.cpp\<close>: base64, the
  parameters of an authentication challenge, control addresses, and the session description (SDP).
\<close>

section \<open>Base64\<close>

definition kB64Alphabet :: bytes where
  "kB64Alphabet = ''ABCDEFGHIJKLMNOPQRSTUVWXYZabcdefghijklmnopqrstuvwxyz0123456789+/''"

definition b64_char :: "nat \<Rightarrow> char" where
  "b64_char v = kB64Alphabet ! (v mod 64)"

fun base64_encode :: "bytes \<Rightarrow> bytes" where
  "base64_encode (a # b # c # s) =
     (let v = code_of a * 2 ^ 16 + code_of b * 2 ^ 8 + code_of c in
      b64_char (v div 2 ^ 18) # b64_char (v div 2 ^ 12) # b64_char (v div 2 ^ 6) # b64_char v # base64_encode s)"
| "base64_encode [a, b] =
     (let v = code_of a * 2 ^ 16 + code_of b * 2 ^ 8 in
      [b64_char (v div 2 ^ 18), b64_char (v div 2 ^ 12), b64_char (v div 2 ^ 6), CHR ''=''])"
| "base64_encode [a] =
     (let v = code_of a * 2 ^ 16 in [b64_char (v div 2 ^ 18), b64_char (v div 2 ^ 12), CHR ''='', CHR ''=''])"
| "base64_encode [] = []"

definition b64_val :: "char \<Rightarrow> nat option" where
  "b64_val c =
     (let n = code_of c in
      if 65 \<le> n \<and> n \<le> 90 then Some (n - 65)
      else if 97 \<le> n \<and> n \<le> 122 then Some (n - 97 + 26)
      else if 48 \<le> n \<and> n \<le> 57 then Some (n - 48 + 52)
      else if c = CHR ''+'' then Some 62
      else if c = CHR ''/'' then Some 63
      else None)"

text \<open>The loop of \<open>base64_decode\<close> with its 32-bit accumulator.\<close>

fun b64_loop :: "nat \<Rightarrow> nat \<Rightarrow> bytes \<Rightarrow> bytes option" where
  "b64_loop buf bits [] = Some []"
| "b64_loop buf bits (c # s) =
     (if c = CHR ''='' then Some []
      else if c = CR \<or> c = LF \<or> c = BLANK then b64_loop buf bits s
      else case b64_val c of
        None \<Rightarrow> None
      | Some v \<Rightarrow>
          let buf' = (buf * 2 ^ 6 + v) mod 2 ^ 32; bits' = bits + 6 in
          if 8 \<le> bits' then
            map_option (\<lambda>r. char_of (buf' div 2 ^ (bits' - 8) mod 256) # r) (b64_loop buf' (bits' - 8) s)
          else b64_loop buf' bits' s)"

definition base64_decode :: "bytes \<Rightarrow> bytes option" where
  "base64_decode s = b64_loop 0 0 s"

section \<open>Strings\<close>

definition lc :: "bytes \<Rightarrow> bytes" where
  "lc s = map to_lower_char s"

definition rtsp_trim :: "bytes \<Rightarrow> bytes" where
  "rtsp_trim s = rtrim_by is_space (ltrim_by is_space s)"

text \<open>\<open>md5\<close> is the raw digest of the library.\<close>

definition md5_hex :: "(bytes \<Rightarrow> bytes) \<Rightarrow> bytes \<Rightarrow> bytes" where
  "md5_hex md5 s = concat (map (\<lambda>c. [hex_char (code_of c div 16), hex_char (code_of c mod 16)]) (md5 s))"

text \<open>A quoted value: what stands before the closing quote, and the rest from the quote on.\<close>

fun quoted_value :: "bytes \<Rightarrow> bytes \<times> bytes" where
  "quoted_value [] = ([], [])"
| "quoted_value [c] = (if c = QUOTE then ([], [c]) else ([c], []))"
| "quoted_value (c # d # s) =
     (if c = QUOTE then ([], c # d # s)
      else if c = BSLASH then (let (v, r) = quoted_value s in (c # d # v, r))
      else let (v, r) = quoted_value (d # s) in (c # v, r))"

definition auth_value :: "bytes \<Rightarrow> bytes \<times> bytes" where
  "auth_value s =
     (case s of
        q # r \<Rightarrow>
          if q = QUOTE then (let (v, r1) = quoted_value r in (v, if r1 \<noteq> [] \<and> hd r1 = QUOTE then tl r1 else r1))
          else (takeWhile (\<lambda>c. c \<noteq> CHR '','') s, dropWhile (\<lambda>c. c \<noteq> CHR '','') s)
      | [] \<Rightarrow> ([], []))"

definition auth_param :: "bytes \<Rightarrow> (bytes \<times> bytes) \<times> bytes" where
  "auth_param s =
     (let k = takeWhile (\<lambda>c. c \<noteq> CHR ''='' \<and> c \<noteq> CHR '','') s;
          r = dropWhile (\<lambda>c. c \<noteq> CHR ''='' \<and> c \<noteq> CHR '','') s;
          (v, r') = (if r \<noteq> [] \<and> hd r = CHR ''='' then auth_value (tl r) else ([], r))
      in ((lc (rtsp_trim k), rtsp_trim v), r'))"

definition auth_sep :: "char \<Rightarrow> bool" where
  "auth_sep c = (c = BLANK \<or> c = CHR '','' \<or> c = TAB)"

lemma quoted_value_length: "length (snd (quoted_value s)) \<le> length s"
  by (induction s rule: quoted_value.induct) (auto split: prod.splits)

lemma auth_value_length: "length (snd (auth_value s)) \<le> length s"
proof (cases s)
  case (Cons q r)
  then show ?thesis
    using quoted_value_length [of r] length_dropWhile_le [of "\<lambda>c. c \<noteq> CHR '',''" s]
    by (auto simp: auth_value_def split: prod.splits simp del: dropWhile.simps)
qed (simp add: auth_value_def)

lemma auth_param_shorter:
  assumes "s \<noteq> []" and "\<not> auth_sep (hd s)"
  shows "length (snd (auth_param s)) < length s"
proof -
  define r where "r = dropWhile (\<lambda>c. c \<noteq> CHR ''='' \<and> c \<noteq> CHR '','') s"
  have r: "length r \<le> length s" by (simp add: r_def length_dropWhile_le)
  show ?thesis
  proof (cases "r \<noteq> [] \<and> hd r = CHR ''=''")
    case True
    then have "length (snd (auth_value (tl r))) < length r"
      using auth_value_length [of "tl r"] by (cases r) auto
    with True r show ?thesis by (auto simp: auth_param_def Let_def simp flip: r_def split: prod.splits)
  next
    case False
    have "hd s \<noteq> CHR '',''" using assms(2) by (auto simp: auth_sep_def)
    with False assms(1) have "length r < length s"
      by (cases s) (auto simp: r_def split: if_splits intro: le_imp_less_Suc length_dropWhile_le)
    with False show ?thesis by (auto simp: auth_param_def Let_def simp flip: r_def)
  qed
qed

function parse_auth_params :: "bytes \<Rightarrow> (bytes \<times> bytes) list" where
  "parse_auth_params s =
     (let s1 = dropWhile auth_sep s in
      if s1 = [] then [] else fst (auth_param s1) # parse_auth_params (snd (auth_param s1)))"
  by pat_completeness auto
termination
proof (relation "measure length", simp)
  fix s s1
  assume "s1 = dropWhile auth_sep s" and "s1 \<noteq> []"
  then have "length (snd (auth_param s1)) < length s1" "length s1 \<le> length s"
    by (auto simp: auth_param_shorter hd_dropWhile length_dropWhile_le)
  then show "(snd (auth_param s1), s) \<in> measure length" by simp
qed

declare parse_auth_params.simps [simp del]

section \<open>Addresses\<close>

record rtsp_url =
  ru_host :: bytes
  ru_port :: int
  ru_user :: bytes
  ru_passwd :: bytes
  ru_path :: bytes
  ru_device :: bytes
  ru_tls :: bool

definition resolve_control :: "bytes \<Rightarrow> bytes \<Rightarrow> bytes" where
  "resolve_control base control =
     (if control = [] \<or> control = ''*'' then base
      else if starts_with ''rtsp://'' control \<or> starts_with ''rtsps://'' control then control
      else if hd control = SLASH then
        (case find_sub ''://'' base of
           None \<Rightarrow> base @ control
         | Some p \<Rightarrow>
             (case find_from SLASH base (p + 3) of
                None \<Rightarrow> base @ control
              | Some slash \<Rightarrow> take slash base @ control))
      else if base \<noteq> [] \<and> last base = SLASH then base @ control
      else base @ ''/'' @ control)"

definition base_url :: "rtsp_url \<Rightarrow> bytes" where
  "base_url u =
     (if ru_tls u then ''rtsps://'' else ''rtsp://'') @ ru_host u @ '':'' @ show_int (ru_port u) @
     (if ru_path u \<noteq> [] \<and> hd (ru_path u) \<noteq> SLASH then ''/'' else []) @ ru_path u"

section \<open>Session descriptions\<close>

record h264_track =
  tr_sps :: bytes
  tr_pps :: bytes
  tr_clock_rate :: u32
  tr_rtp_pt :: int

definition new_track :: h264_track where
  "new_track = \<lparr>tr_sps = [], tr_pps = [], tr_clock_rate = 90000, tr_rtp_pt = 96\<rparr>"

definition nal_type :: "char \<Rightarrow> nat" where
  "nal_type c = code_of c mod 32"

text \<open>Splitting at a character, as the loops over \<open>find\<close> do it: no empty last piece.\<close>

function split_at :: "char \<Rightarrow> bytes \<Rightarrow> bytes list" where
  "split_at d s =
     (if s = [] then []
      else case find_char d s of
        None \<Rightarrow> [s]
      | Some q \<Rightarrow> take q s # split_at d (drop (q + 1) s))"
  by pat_completeness auto
termination
  by (relation "measure (\<lambda>(d, s). length s)") auto

declare split_at.simps [simp del]

definition take_nal :: "bytes \<Rightarrow> h264_track \<Rightarrow> h264_track" where
  "take_nal b64 t =
     (case base64_decode b64 of
        None \<Rightarrow> t
      | Some nal \<Rightarrow>
          if nal = [] then t
          else if nal_type (hd nal) = 7 \<and> tr_sps t = [] then t\<lparr>tr_sps := nal\<rparr>
          else if nal_type (hd nal) = 8 \<and> tr_pps t = [] then t\<lparr>tr_pps := nal\<rparr>
          else t)"

definition take_param :: "bytes \<Rightarrow> h264_track \<Rightarrow> h264_track" where
  "take_param kv t =
     (case find_char (CHR ''='') kv of
        None \<Rightarrow> t
      | Some eq \<Rightarrow>
          if lc (rtsp_trim (take eq kv)) = ''sprop-parameter-sets''
          then fold take_nal (split_at (CHR '','') (rtsp_trim (drop (eq + 1) kv))) t
          else t)"

record sdp_state =
  sd_track :: h264_track
  sd_control :: bytes
  sd_in_video :: bool
  sd_seen_rtpmap :: bool
  sd_video_pt :: int

definition sdp_media :: "bytes \<Rightarrow> sdp_state \<Rightarrow> sdp_state" where
  "sdp_media val s =
     (if starts_with ''video '' val then
        let pt = (case rfind_char BLANK val of None \<Rightarrow> sd_video_pt s | Some i \<Rightarrow> atoi (drop (i + 1) val)) in
        s\<lparr>sd_in_video := True, sd_video_pt := pt, sd_track := (sd_track s)\<lparr>tr_rtp_pt := pt\<rparr>\<rparr>
      else s\<lparr>sd_in_video := False\<rparr>)"

text \<open>\<open>a=rtpmap\<close>; \<open>None\<close> is the refusal of a codec other than H.264.\<close>

definition sdp_rtpmap :: "bytes \<Rightarrow> sdp_state \<Rightarrow> sdp_state option" where
  "sdp_rtpmap rest s =
     (case find_char BLANK rest of
        None \<Rightarrow> Some s
      | Some sp \<Rightarrow>
          let enc = drop (sp + 1) rest in
          if atoi (take sp rest) \<noteq> sd_video_pt s then Some s
          else (case find_char SLASH enc of
            None \<Rightarrow> Some s
          | Some slash \<Rightarrow>
              if lc (take slash enc) \<noteq> ''h264'' then None
              else let rate = word_of_int (atoi (drop (slash + 1) enc)) in
                Some (s\<lparr>sd_seen_rtpmap := True,
                  sd_track := (sd_track s)\<lparr>tr_clock_rate := (if rate = 0 then 90000 else rate)\<rparr>\<rparr>)))"

definition sdp_fmtp :: "bytes \<Rightarrow> sdp_state \<Rightarrow> sdp_state" where
  "sdp_fmtp rest s =
     (case find_char BLANK rest of
        None \<Rightarrow> s
      | Some sp \<Rightarrow>
          if atoi (take sp rest) \<noteq> sd_video_pt s then s
          else s\<lparr>sd_track := fold take_param (split_at (CHR '';'') (drop (sp + 1) rest)) (sd_track s)\<rparr>)"

definition strip_cr :: "bytes \<Rightarrow> bytes" where
  "strip_cr s = (if s \<noteq> [] \<and> last s = CR then butlast s else s)"

definition sdp_line :: "bytes \<Rightarrow> sdp_state \<Rightarrow> sdp_state option" where
  "sdp_line raw s =
     (let line = strip_cr raw in
      if length line < 2 \<or> line ! 1 \<noteq> CHR ''='' then Some s
      else
        let val = drop 2 line in
        if hd line = CHR ''m'' then Some (sdp_media val s)
        else if sd_in_video s \<and> hd line = CHR ''a'' then
          if starts_with ''control:'' val then
            Some (if sd_control s = [] then s\<lparr>sd_control := rtsp_trim (drop 8 val)\<rparr> else s)
          else if starts_with ''rtpmap:'' val then sdp_rtpmap (drop 7 val) s
          else if starts_with ''fmtp:'' val then Some (sdp_fmtp (drop 5 val) s)
          else Some s
        else Some s)"

fun sdp_lines :: "bytes list \<Rightarrow> sdp_state \<Rightarrow> sdp_state option" where
  "sdp_lines [] s = Some s"
| "sdp_lines (l # ls) s = (case sdp_line l s of None \<Rightarrow> None | Some s' \<Rightarrow> sdp_lines ls s')"

text \<open>The track and the control attribute of the first usable H.264 track.\<close>

definition parse_sdp :: "bytes \<Rightarrow> (h264_track \<times> bytes) option" where
  "parse_sdp sdp =
     (case sdp_lines (split_at LF sdp)
        \<lparr>sd_track = \<lparr>tr_sps = [], tr_pps = [], tr_clock_rate = 90000, tr_rtp_pt = -1\<rparr>, sd_control = [],
         sd_in_video = False, sd_seen_rtpmap = False, sd_video_pt = -1\<rparr> of
        None \<Rightarrow> None
      | Some s \<Rightarrow> if sd_seen_rtpmap s then Some (sd_track s, sd_control s) else None)"

text \<open>Of several payload types the description lists, the last one is taken.\<close>

lemma sdp_last_payload_type:
  "BLANK \<notin> set pt \<Longrightarrow> tr_rtp_pt (sd_track (sdp_media (''video '' @ l @ [BLANK] @ pt) s)) = atoi pt"
  using rfind_char_append_here [of BLANK pt "''video '' @ l"]
  by (simp add: sdp_media_def Let_def starts_with_def del: rfind_char.simps)

end
