(* ===== verification/Rtp.thy ===== *)
theory Rtp
  imports Rtsp_Text
begin

text \<open>
  The H.264 depacketiser of \<open>src/stubs/rtsp_client.cpp\<close> (\<open>decode_rtp_h264\<close>, RFC 6184), the
  sender's side of the three packings it reads, and the round trip between them.
\<close>

section \<open>The depacketiser\<close>

record nalu =
  nu_data :: bytes
  nu_ts :: u32
  nu_au_end :: bool

record depack =
  dp_queue :: "nalu list"
  dp_fu_buf :: bytes
  dp_fu_ts :: u32
  dp_fu_au_end :: bool

definition new_depack :: depack where
  "new_depack = \<lparr>dp_queue = [], dp_fu_buf = [], dp_fu_ts = 0, dp_fu_au_end = False\<rparr>"

definition be16 :: "bytes \<Rightarrow> nat" where
  "be16 s = code_of (s ! 0) * 256 + code_of (s ! 1)"

definition be32 :: "bytes \<Rightarrow> u32" where
  "be32 s = word_of_nat (code_of (s ! 0) * 2 ^ 24 + code_of (s ! 1) * 2 ^ 16 + code_of (s ! 2) * 2 ^ 8 + code_of (s ! 3))"

text \<open>A bit of a byte.\<close>

definition bit_set :: "nat \<Rightarrow> char \<Rightarrow> bool" where
  "bit_set k c = odd (code_of c div 2 ^ k :: nat)"

text \<open>The units of an aggregation packet (STAP-A), after its first byte.\<close>

function stap_units :: "u32 \<Rightarrow> bool \<Rightarrow> bytes \<Rightarrow> nalu list" where
  "stap_units ts m s =
     (if length s < 2 then []
      else let k = be16 s; r = drop 2 s in
        if k = 0 \<or> length r < k then []
        else \<lparr>nu_data = take k r, nu_ts = ts, nu_au_end = (m \<and> length r = k)\<rparr> # stap_units ts m (drop k r))"
  by pat_completeness auto
termination
  by (relation "measure (\<lambda>(ts, m, s). length s)") (auto simp: Let_def)

declare stap_units.simps [simp del]

text \<open>A fragment (FU-A): collected from its start to its end bit.\<close>

definition take_fragment :: "u32 \<Rightarrow> bool \<Rightarrow> bytes \<Rightarrow> depack \<Rightarrow> depack" where
  "take_fragment ts m p d =
     (if length p < 2 then d
      else
        let ind = p ! 0; hdr = p ! 1; first = bit_set 7 hdr; fin = bit_set 6 hdr in
        if \<not> first \<and> dp_fu_buf d = [] then d
        else
          let d1 = (if first
                    then d\<lparr>dp_fu_buf := char_of (code_of ind div 32 * 32 + nal_type hdr) # drop 2 p,
                           dp_fu_ts := ts, dp_fu_au_end := m\<rparr>
                    else d\<lparr>dp_fu_buf := dp_fu_buf d @ drop 2 p, dp_fu_au_end := (m \<or> dp_fu_au_end d)\<rparr>)
          in if fin
             then d1\<lparr>dp_queue := dp_queue d1 @ [\<lparr>nu_data = dp_fu_buf d1, nu_ts = dp_fu_ts d1, nu_au_end = dp_fu_au_end d1\<rparr>],
                     dp_fu_buf := [], dp_fu_au_end := False\<rparr>
             else d1)"

definition take_payload :: "u32 \<Rightarrow> bool \<Rightarrow> bytes \<Rightarrow> depack \<Rightarrow> depack" where
  "take_payload ts m p d =
     (let t = nal_type (hd p) in
      if 1 \<le> t \<and> t \<le> 23 then d\<lparr>dp_queue := dp_queue d @ [\<lparr>nu_data = p, nu_ts = ts, nu_au_end = m\<rparr>]\<rparr>
      else if t = 24 then d\<lparr>dp_queue := dp_queue d @ stap_units ts m (tl p)\<rparr>
      else if t = 28 then take_fragment ts m p d
      else d)"

text \<open>Where the payload starts: behind the sources and the extension; \<open>None\<close> drops the packet.\<close>

definition payload_offset :: "bytes \<Rightarrow> nat option" where
  "payload_offset rtp =
     (let off = 12 + 4 * (code_of (rtp ! 0) mod 16) in
      if bit_set 4 (rtp ! 0) then
        (if length rtp < off + 4 then None else Some (off + 4 + be16 (drop (off + 2) rtp) * 4))
      else Some off)"

definition decode_rtp_h264 :: "int \<Rightarrow> bytes \<Rightarrow> depack \<Rightarrow> depack" where
  "decode_rtp_h264 pt rtp d =
     (if length rtp < 12 \<or> code_of (rtp ! 0) div 64 \<noteq> (2 :: nat) \<or> int (code_of (rtp ! 1) mod 128) \<noteq> pt then d
      else case payload_offset rtp of
        None \<Rightarrow> d
      | Some off \<Rightarrow>
          if length rtp \<le> off then d
          else take_payload (be32 (drop 4 rtp)) (bit_set 7 (rtp ! 1)) (drop off rtp) d)"

section \<open>The sender\<close>

text \<open>An RTP packet of version 2 without padding, extension or contributing sources.\<close>

definition rtp_packet :: "nat \<Rightarrow> bool \<Rightarrow> nat \<Rightarrow> nat \<Rightarrow> nat \<Rightarrow> bytes \<Rightarrow> bytes" where
  "rtp_packet pt m sq ts ssrc payload =
     [char_of (128 :: nat), char_of ((if m then 128 else 0) + pt), char_of (sq div 2 ^ 8), char_of sq,
      char_of (ts div 2 ^ 24), char_of (ts div 2 ^ 16), char_of (ts div 2 ^ 8), char_of ts,
      char_of (ssrc div 2 ^ 24), char_of (ssrc div 2 ^ 16), char_of (ssrc div 2 ^ 8), char_of ssrc] @ payload"

datatype packing =
    Single bytes
  | Aggregate "bytes list"
  | Fragmented bytes "bytes list"

text \<open>\<open>Fragmented nal ps\<close>: the unit cut behind its first byte into the pieces \<open>ps\<close>.\<close>

fun packing_ok :: "packing \<Rightarrow> bool" where
  "packing_ok (Single nal) = (nal \<noteq> [] \<and> 1 \<le> nal_type (hd nal) \<and> nal_type (hd nal) \<le> 23)"
| "packing_ok (Aggregate nals) = list_all (\<lambda>nal. nal \<noteq> [] \<and> length nal < 2 ^ 16) nals"
| "packing_ok (Fragmented nal ps) = (nal \<noteq> [] \<and> ps \<noteq> [] \<and> concat ps = tl nal)"

fun packed_nals :: "packing \<Rightarrow> bytes list" where
  "packed_nals (Single nal) = [nal]"
| "packed_nals (Aggregate nals) = nals"
| "packed_nals (Fragmented nal ps) = [nal]"

definition fu_packet :: "char \<Rightarrow> bool \<Rightarrow> bool \<Rightarrow> bytes \<Rightarrow> bytes" where
  "fu_packet h first fin piece =
     char_of (code_of h div 32 * 32 + 28 :: nat) #
     char_of ((if first then 128 else 0) + (if fin then 64 else 0) + nal_type h) # piece"

fun fu_rest :: "char \<Rightarrow> bytes list \<Rightarrow> bytes list" where
  "fu_rest h [] = []"
| "fu_rest h (p # ps) = fu_packet h False (ps = []) p # fu_rest h ps"

text \<open>The payloads of a packing; the access unit ends with the last one iff \<open>m\<close>.\<close>

fun payloads :: "packing \<Rightarrow> bytes list" where
  "payloads (Single nal) = [nal]"
| "payloads (Aggregate nals) =
     [char_of (24 :: nat) # concat (map (\<lambda>nal. [char_of (length nal div 256), char_of (length nal mod 256)] @ nal) nals)]"
| "payloads (Fragmented nal ps) = fu_packet (hd nal) True (tl ps = []) (hd ps) # fu_rest (hd nal) (tl ps)"

text \<open>The packets of a packing with the time stamp \<open>ts\<close>; only the last carries the marker.\<close>

fun rtp_packets :: "nat \<Rightarrow> bool \<Rightarrow> nat \<Rightarrow> nat \<Rightarrow> nat \<Rightarrow> bytes list \<Rightarrow> bytes list" where
  "rtp_packets pt m sq ts ssrc [] = []"
| "rtp_packets pt m sq ts ssrc (p # ps) =
     rtp_packet pt (m \<and> ps = []) sq ts ssrc p # rtp_packets pt m (sq + 1) ts ssrc ps"

fun nalus_of :: "u32 \<Rightarrow> bool \<Rightarrow> bytes list \<Rightarrow> nalu list" where
  "nalus_of ts m [] = []"
| "nalus_of ts m (x # xs) = \<lparr>nu_data = x, nu_ts = ts, nu_au_end = (m \<and> xs = [])\<rparr> # nalus_of ts m xs"

section \<open>The round trip\<close>

definition push_units :: "nalu list \<Rightarrow> depack \<Rightarrow> depack" where
  "push_units ns d = d\<lparr>dp_queue := dp_queue d @ ns\<rparr>"

lemma be32_bytes:
  assumes "ts < 2 ^ 32"
  shows "be32 (char_of (ts div 2 ^ 24) # char_of (ts div 2 ^ 16) # char_of (ts div 2 ^ 8) # char_of ts # s) = word_of_nat ts"
proof -
  have e: "ts div 2 ^ 24 mod 256 * 2 ^ 24 + ts div 2 ^ 16 mod 256 * 2 ^ 16 + ts div 2 ^ 8 mod 256 * 2 ^ 8 + ts mod 256 = ts"
    using assms mod_mult2_eq [of ts 256 256] mod_mult2_eq [of ts 65536 256] div_mult_mod_eq [of ts "2 ^ 24"] by simp
  then show ?thesis using arg_cong [OF e, of "word_of_nat :: nat \<Rightarrow> u32"] by (simp add: be32_def of_char_of)
qed

lemma decode_packet:
  assumes "pt < 128" and "ts < 2 ^ 32" and "payload \<noteq> []"
  shows "decode_rtp_h264 (int pt) (rtp_packet pt m sq ts ssrc payload) d = take_payload (word_of_nat ts) m payload d"
proof -
  let ?r = "rtp_packet pt m sq ts ssrc payload"
  have b1: "code_of (?r ! 1) = (if m then 128 else 0) + pt" using assms(1) by (simp add: rtp_packet_def of_char_of)
  have b0: "code_of (?r ! 0) = (128 :: nat)" by (simp add: rtp_packet_def of_char_of)
  have "payload_offset ?r = Some 12" by (simp add: payload_offset_def b0 bit_set_def)
  moreover have "be32 (drop 4 ?r) = word_of_nat ts" using be32_bytes [OF assms(2)] by (simp add: rtp_packet_def)
  moreover have "drop 12 ?r = payload" "length ?r = 12 + length payload" by (simp_all add: rtp_packet_def)
  moreover have "code_of (?r ! 1) mod 128 = pt" "bit_set 7 (?r ! 1) = m"
    using b1 assms(1) by (simp_all add: bit_set_def)
  ultimately show ?thesis using assms(3) by (simp add: decode_rtp_h264_def b0)
qed

lemma stap_units_nals:
  "list_all (\<lambda>nal. nal \<noteq> [] \<and> length nal < 2 ^ 16) nals \<Longrightarrow>
   stap_units ts m (concat (map (\<lambda>nal. [char_of (length nal div 256), char_of (length nal mod 256)] @ nal) nals)) = nalus_of ts m nals"
proof (induction nals)
  case Nil
  then show ?case by (simp add: stap_units.simps)
next
  case (Cons nal nals)
  let ?f = "\<lambda>nal. [char_of (length nal div 256), char_of (length nal mod 256)] @ nal"
  have "be16 (concat (map ?f (nal # nals))) = length nal"
    using Cons.prems div_mult_mod_eq [of "length nal" 256] by (simp add: be16_def of_char_of div_less_iff_less_mult)
  moreover have "concat (map ?f nals) = [] \<longleftrightarrow> nals = []" by auto
  ultimately show ?case
    using Cons by (subst stap_units.simps) (simp add: Let_def)
qed

text \<open>Fragments: what is collected so far, until the piece with the end bit.\<close>

definition collecting :: "u32 \<Rightarrow> bytes \<Rightarrow> depack \<Rightarrow> depack" where
  "collecting ts b d = d\<lparr>dp_fu_buf := b, dp_fu_ts := ts, dp_fu_au_end := False\<rparr>"

definition fu_flags :: "bool \<Rightarrow> bool \<Rightarrow> nat \<Rightarrow> nat" where
  "fu_flags first fin k = (if first then 128 else 0) + (if fin then 64 else 0) + k"

lemma fu_flags_bits:
  assumes "k < 32"
  shows "odd (fu_flags a b k div 128) = a" "odd (fu_flags a b k div 64) = b" "fu_flags a b k mod 32 = k" "fu_flags a b k < 256"
proof -
  have q: "(128 + 64 + k) div 128 = 1" "(128 + k) div 128 = 1" "(64 + k) div 128 = 0" "k div 128 = 0"
    "(128 + 64 + k) div 64 = 3" "(128 + k) div 64 = 2" "(64 + k) div 64 = 1" "k div 64 = 0"
    "(128 + 64 + k) mod 32 = k" "(128 + k) mod 32 = k" "(64 + k) mod 32 = k" "k mod 32 = k"
    using assms by (auto intro!: div_nat_eqI mod_nat_eqI)
  show "odd (fu_flags a b k div 128) = a" unfolding fu_flags_def by (cases a; cases b; simp only: if_True if_False add_0 add_0_right q) simp_all
  show "odd (fu_flags a b k div 64) = b" unfolding fu_flags_def by (cases a; cases b; simp only: if_True if_False add_0 add_0_right q) simp_all
  show "fu_flags a b k mod 32 = k" unfolding fu_flags_def by (cases a; cases b; simp only: if_True if_False add_0 add_0_right q)
  show "fu_flags a b k < 256" using assms by (simp add: fu_flags_def)
qed

lemma fu_packet_bytes:
  "fu_packet h first fin piece = char_of (code_of h div 32 * 32 + 28 :: nat) # char_of (fu_flags first fin (nal_type h)) # piece"
  by (simp add: fu_packet_def fu_flags_def)

lemma fu_packet_codes:
  "code_of (fu_packet h first fin piece ! 0) = (code_of h div 32 * 32 + 28 :: nat)"
  "code_of (fu_packet h first fin piece ! 1) = fu_flags first fin (nal_type h)"
proof -
  have "(code_of h :: nat) < 8 * 32" by simp
  then have "(code_of h :: nat) div 32 < 8" by (rule less_mult_imp_div_less)
  then have "code_of h div 32 * 32 + 28 < (256 :: nat)" by linarith
  then show "code_of (fu_packet h first fin piece ! 0) = (code_of h div 32 * 32 + 28 :: nat)"
    by (simp add: fu_packet_bytes of_char_of)
  have "nal_type h < 32" by (simp add: nal_type_def)
  from fu_flags_bits(4) [OF this] show "code_of (fu_packet h first fin piece ! 1) = fu_flags first fin (nal_type h)"
    by (simp add: fu_packet_bytes of_char_of)
qed

lemma fu_packet_header:
  "nal_type (hd (fu_packet h first fin piece)) = 28"
  "bit_set 7 (fu_packet h first fin piece ! 1) = first"
  "bit_set 6 (fu_packet h first fin piece ! 1) = fin"
  "char_of (code_of (fu_packet h first fin piece ! 0) div 32 * 32 + nal_type (fu_packet h first fin piece ! 1) :: nat) = h"
  "drop 2 (fu_packet h first fin piece) = piece"
  "length (fu_packet h first fin piece) = 2 + length piece"
proof -
  have k: "nal_type h < 32" by (simp add: nal_type_def)
  show "bit_set 7 (fu_packet h first fin piece ! 1) = first" "bit_set 6 (fu_packet h first fin piece ! 1) = fin"
    unfolding bit_set_def fu_packet_codes using fu_flags_bits(1,2) [OF k, of first fin] by simp_all
  have t: "nal_type (fu_packet h first fin piece ! 1) = nal_type h"
    unfolding nal_type_def [of "_ ! _"] fu_packet_codes by (rule fu_flags_bits(3) [OF k])
  have "((code_of h :: nat) div 32 * 32 + 28) div 32 = code_of h div 32" by (rule div_nat_eqI) simp_all
  then show "char_of (code_of (fu_packet h first fin piece ! 0) div 32 * 32 + nal_type (fu_packet h first fin piece ! 1) :: nat) = h"
    unfolding fu_packet_codes t by (simp add: nal_type_def)
  have "((code_of h :: nat) div 32 * 32 + 28) mod 32 = 28" by (rule mod_nat_eqI) simp_all
  moreover have "hd (fu_packet h first fin piece) = fu_packet h first fin piece ! 0" by (simp add: fu_packet_def)
  ultimately show "nal_type (hd (fu_packet h first fin piece)) = 28"
    using fu_packet_codes(1) by (simp add: nal_type_def)
qed (simp_all add: fu_packet_def)

lemma take_fragment_packet:
  "take_fragment ts m (fu_packet h first fin piece) d =
     (if \<not> first \<and> dp_fu_buf d = [] then d
      else
        let d1 = (if first then d\<lparr>dp_fu_buf := h # piece, dp_fu_ts := ts, dp_fu_au_end := m\<rparr>
                  else d\<lparr>dp_fu_buf := dp_fu_buf d @ piece, dp_fu_au_end := (m \<or> dp_fu_au_end d)\<rparr>)
        in if fin then d1\<lparr>dp_queue := dp_queue d1 @ [\<lparr>nu_data = dp_fu_buf d1, nu_ts = dp_fu_ts d1, nu_au_end = dp_fu_au_end d1\<rparr>],
                          dp_fu_buf := [], dp_fu_au_end := False\<rparr> else d1)"
  unfolding take_fragment_def Let_def fu_packet_header by simp

text \<open>The fragments after the first, with \<open>b\<close> collected so far.\<close>

lemma fragments_collected:
  assumes "pt < 128" and "ts < 2 ^ 32" and "ps \<noteq> []" and "dp_fu_buf d \<noteq> []" and "dp_fu_ts d = word_of_nat ts"
    and "\<not> dp_fu_au_end d"
  shows "fold (decode_rtp_h264 (int pt)) (rtp_packets pt m sq ts ssrc (fu_rest h ps)) d =
    d\<lparr>dp_queue := dp_queue d @ [\<lparr>nu_data = dp_fu_buf d @ concat ps, nu_ts = word_of_nat ts, nu_au_end = m\<rparr>],
      dp_fu_buf := [], dp_fu_au_end := False\<rparr>"
  using assms
proof (induction ps arbitrary: d sq)
  case (Cons p ps)
  have r: "fu_rest h ps = [] \<longleftrightarrow> ps = []" by (cases ps) simp_all
  have "fu_packet h False (ps = []) p \<noteq> []" by (simp add: fu_packet_def)
  then have step: "decode_rtp_h264 (int pt) (rtp_packet pt (m \<and> ps = []) sq ts ssrc (fu_packet h False (ps = []) p)) d =
      take_fragment (word_of_nat ts) (m \<and> ps = []) (fu_packet h False (ps = []) p) d"
    using decode_packet [OF Cons.prems(1,2)] fu_packet_header(1) [of h False "ps = []" p] by (simp add: take_payload_def)
  show ?case
  proof (cases "ps = []")
    case True
    with step Cons.prems show ?thesis by (simp add: r take_fragment_packet)
  next
    case False
    with step Cons.prems Cons.IH [of "d\<lparr>dp_fu_buf := dp_fu_buf d @ p, dp_fu_au_end := False\<rparr>" "sq + 1"] show ?thesis
      by (simp add: r take_fragment_packet)
  qed
qed simp

lemma packing_decoded:
  assumes "packing_ok pk" and "pt < 128" and "ts < 2 ^ 32" and "dp_fu_buf d = []" and "\<not> dp_fu_au_end d"
  shows "\<exists>d'. fold (decode_rtp_h264 (int pt)) (rtp_packets pt m sq ts ssrc (payloads pk)) d = d' \<and>
    dp_queue d' = dp_queue d @ nalus_of (word_of_nat ts) m (packed_nals pk) \<and> dp_fu_buf d' = [] \<and> \<not> dp_fu_au_end d'"
proof (cases pk)
  case (Single nal)
  then show ?thesis using assms by (simp add: decode_packet take_payload_def)
next
  case (Aggregate nals)
  have "nal_type (char_of (24 :: nat)) = 24" by (simp add: nal_type_def of_char_of)
  with Aggregate show ?thesis
    using assms stap_units_nals [of nals] by (simp add: decode_packet take_payload_def)
next
  case (Fragmented nal ps)
  then obtain h r where nal: "nal = h # r" and ps: "ps \<noteq> []" "concat ps = r" using assms(1) by (cases nal) auto
  define p qs where "p = hd ps" and "qs = tl ps"
  have ps': "ps = p # qs" using ps by (simp add: p_def qs_def)
  have r': "fu_rest h qs = [] \<longleftrightarrow> qs = []" by (cases qs) simp_all
  let ?d1 = "d\<lparr>dp_fu_buf := h # p, dp_fu_ts := word_of_nat ts, dp_fu_au_end := False\<rparr>"
  have "fu_packet h True (qs = []) p \<noteq> []" by (simp add: fu_packet_def)
  then have step: "decode_rtp_h264 (int pt) (rtp_packet pt (m \<and> qs = []) sq ts ssrc (fu_packet h True (qs = []) p)) d =
      take_fragment (word_of_nat ts) (m \<and> qs = []) (fu_packet h True (qs = []) p) d"
    using decode_packet [OF assms(2,3)] fu_packet_header(1) [of h True "qs = []" p] by (simp add: take_payload_def)
  show ?thesis
  proof (cases "qs = []")
    case True
    with step show ?thesis using Fragmented nal ps ps' by (simp add: take_fragment_packet)
  next
    case False
    then have "decode_rtp_h264 (int pt) (rtp_packet pt False sq ts ssrc (fu_packet h True False p)) d = ?d1"
      using step by (simp add: take_fragment_packet)
    with False show ?thesis
      using fragments_collected [OF assms(2,3) False, of ?d1 m "Suc sq" ssrc h] Fragmented nal ps ps' r' by simp
  qed
qed

text \<open>A stream: access units, each a list of packings with a time stamp and a first sequence number.\<close>

type_synonym stream = "(nat \<times> nat \<times> bool \<times> packing) list"

definition stream_packets :: "nat \<Rightarrow> nat \<Rightarrow> stream \<Rightarrow> bytes list" where
  "stream_packets pt ssrc s = concat (map (\<lambda>(sq, ts, m, pk). rtp_packets pt m sq ts ssrc (payloads pk)) s)"

definition stream_nalus :: "stream \<Rightarrow> nalu list" where
  "stream_nalus s = concat (map (\<lambda>(sq, ts, m, pk). nalus_of (word_of_nat ts) m (packed_nals pk)) s)"

definition stream_ok :: "stream \<Rightarrow> bool" where
  "stream_ok s = list_all (\<lambda>(sq, ts, m, pk). ts < 2 ^ 32 \<and> packing_ok pk) s"

lemma stream_decoded:
  assumes "stream_ok s" and "pt < 128" and "dp_fu_buf d = []" and "\<not> dp_fu_au_end d"
  shows "dp_queue (fold (decode_rtp_h264 (int pt)) (stream_packets pt ssrc s) d) = dp_queue d @ stream_nalus s"
  using assms
proof (induction s arbitrary: d)
  case (Cons x s)
  obtain sq ts m pk where x: "x = (sq, ts, m, pk)" by (metis prod_cases4)
  from Cons.prems x have pk: "packing_ok pk" "ts < 2 ^ 32" "stream_ok s" by (simp_all add: stream_ok_def)
  obtain d' where "fold (decode_rtp_h264 (int pt)) (rtp_packets pt m sq ts ssrc (payloads pk)) d = d'"
    "dp_queue d' = dp_queue d @ nalus_of (word_of_nat ts) m (packed_nals pk)" "dp_fu_buf d' = []" "\<not> dp_fu_au_end d'"
    using packing_decoded [OF pk(1) Cons.prems(2) pk(2) Cons.prems(3,4)] by blast
  then show ?case
    using Cons.IH [OF pk(3) Cons.prems(2), of d'] by (simp add: stream_packets_def stream_nalus_def x)
qed (simp add: stream_packets_def stream_nalus_def)

text \<open>The depacketiser returns what a camera packed: for every stream of H.264 units, sent one per packet,
  aggregated or cut into fragments in any way, the queue holds exactly those units, with their
  time stamps and the ends of the access units.\<close>

theorem rtp_units_recovered:
  assumes "stream_ok s" and "pt < 128"
  shows "dp_queue (fold (decode_rtp_h264 (int pt)) (stream_packets pt ssrc s) new_depack) = stream_nalus s"
  using stream_decoded [OF assms, of new_depack ssrc] by (simp add: new_depack_def)

theorem rtp_units_recovered_witness:
  "dp_queue (fold (decode_rtp_h264 96) (stream_packets 96 7
      [(0, 90000, False, Single ''A1''), (1, 90000, True, Fragmented ''Bxyz'' [''x'', ''yz''])]) new_depack)
   = [\<lparr>nu_data = ''A1'', nu_ts = 90000, nu_au_end = False\<rparr>, \<lparr>nu_data = ''Bxyz'', nu_ts = 90000, nu_au_end = True\<rparr>]"
  using rtp_units_recovered [of "[(0, 90000, False, Single ''A1''), (1, 90000, True, Fragmented ''Bxyz'' [''x'', ''yz''])]" 96 7]
  by (simp add: stream_ok_def stream_nalus_def nal_type_def)

end
