(* ===== verification/Tls_Lines.thy ===== *)
theory Tls_Lines
  imports Tunnel_Upload
begin

text \<open>
  Reading a TLS stream byte by byte: \<open>ssl_read_line\<close> of \<open>src/tls_dial.cpp\<close>. Results are
  those of \<open>ssl_read_full\<close>: \<open>0\<close>, \<open>1\<close> on an orderly close, \<open>-1\<close> on an error; a
  wait without end is \<open>Blocked\<close>. The lemmas describe what is read by the bytes still to
  come, however the stream is cut into records.
\<close>

definition read_full :: "nat \<Rightarrow> conn \<Rightarrow> (int \<times> bytes \<times> conn) io" where
  "read_full n c = (case ssl_read_full n [] c of None \<Rightarrow> Blocked | Some r \<Rightarrow> Ret r)"

text \<open>
  The byte loop: it ends with \<open>0\<close> behind CR LF, which it strips, or with \<open>2\<close> when
  \<open>max_len\<close> bytes are collected.
\<close>

function line_loop :: "nat \<Rightarrow> bytes \<Rightarrow> conn \<Rightarrow> (int \<times> bytes \<times> conn) io" where
  "line_loop max_len line c =
     (if max_len \<le> length line then Ret (2, line, c)
      else case ssl_read_full 1 [] c of
        None \<Rightarrow> Blocked
      | Some (rc, b, c') \<Rightarrow>
          if rc \<noteq> 0 then Ret (rc, line, c')
          else if line \<noteq> [] \<and> last line = CR \<and> hd b = LF then Ret (0, butlast line, c')
          else line_loop max_len (line @ [hd b]) c')"
  by pat_completeness auto
termination
  by (relation "measure (\<lambda>(m, line, c). m - length line)") auto

declare line_loop.simps [simp del]

definition ssl_read_line :: "conn \<Rightarrow> (int \<times> bytes \<times> conn) io" where
  "ssl_read_line c =
     io_bind (line_loop 8192 [] c) (\<lambda>(rc, line, c'). Ret (if rc = 2 then -1 else rc, line, c'))"

section \<open>What is left to read\<close>

fun incoming :: "ssl_read list \<Rightarrow> bytes" where
  "incoming [] = []"
| "incoming (Rdata bs # rs) = bs @ incoming rs"
| "incoming (_ # rs) = incoming rs"

text \<open>A script that neither closes nor fails.\<close>

definition clean :: "ssl_read list \<Rightarrow> bool" where
  "clean rs = list_all (\<lambda>r. case r of Rdata bs \<Rightarrow> bs \<noteq> [] | Rwant \<Rightarrow> True | Rclosed \<Rightarrow> False | Rerror \<Rightarrow> False) rs"

lemma clean_simps [simp]:
  "clean []" "clean (Rdata bs # rs) = (bs \<noteq> [] \<and> clean rs)" "clean (Rwant # rs) = clean rs"
  "\<not> clean (Rclosed # rs)" "\<not> clean (Rerror # rs)"
  by (simp_all add: clean_def)

lemma incoming_unread: "length (incoming rs) \<le> unread rs"
  by (induction rs rule: incoming.induct) auto

text \<open>A full read of bytes that will come takes them off, whatever the records are.\<close>

lemma read_full_incoming:
  assumes "clean (rd c)" and "n - length got \<le> length (incoming (rd c))" and "length got \<le> n"
  shows "\<exists>c'. ssl_read_full n got c = Some (0, got @ take (n - length got) (incoming (rd c)), c') \<and> clean (rd c') \<and>
    incoming (rd c') = drop (n - length got) (incoming (rd c)) \<and> wr c' = wr c \<and> tx c' = tx c"
  using assms
proof (induction n got c rule: ssl_read_full.induct)
  case (1 n got c)
  show ?case
  proof (cases "n \<le> length got")
    case True
    with 1 show ?thesis by (simp add: ssl_read_full.simps [of n got c])
  next
    case False
    then obtain r rs where rd: "rd c = r # rs" using 1(4) by (cases "rd c") auto
    show ?thesis
    proof (cases r)
      case (Rdata bs)
      then have bs: "bs \<noteq> []" "clean rs" using 1(3) rd by simp_all
      show ?thesis
      proof (cases "length bs \<le> n - length got")
        case True
        have "\<exists>c'. ssl_read_full n (got @ bs) (c\<lparr>rd := rs\<rparr>) =
            Some (0, (got @ bs) @ take (n - length (got @ bs)) (incoming rs), c') \<and> clean (rd c') \<and>
            incoming (rd c') = drop (n - length (got @ bs)) (incoming rs) \<and> wr c' = wr c \<and> tx c' = tx c"
          using 1(1) [OF False rd Rdata bs(1) True] bs(2) 1(4,5) True rd Rdata by simp
        then show ?thesis
          using False rd Rdata bs(1) True by (simp add: ssl_read_full.simps [of n got c])
      next
        case False': False
        then show ?thesis
          using False rd Rdata bs by (auto simp: ssl_read_full.simps [of n got c])
      qed
    next
      case Rwant
      then show ?thesis
        using 1(2) [OF False rd Rwant] 1(3-5) False rd by (simp add: ssl_read_full.simps [of n got c])
    qed (use 1(3) rd in simp_all)
  qed
qed

lemma read_full_clean:
  assumes "clean (rd c)" and "n \<le> length (incoming (rd c))"
  obtains c' where "read_full n c = Ret (0, take n (incoming (rd c)), c')" and "clean (rd c')"
    and "incoming (rd c') = drop n (incoming (rd c))" and "wr c' = wr c" and "tx c' = tx c"
  using read_full_incoming [of c n "[]"] assms by (auto simp: read_full_def)

lemma read_full_done: "ssl_read_full n got c = Some (0, s, c') \<Longrightarrow> length got < n \<Longrightarrow> unread (rd c') < unread (rd c)"
proof (induction n got c rule: ssl_read_full.induct)
  case (1 n got c)
  obtain r rs where rd: "rd c = r # rs" using 1(3,4) by (subst (asm) ssl_read_full.simps) (auto split: list.splits)
  show ?case
  proof (cases r)
    case (Rdata bs)
    with 1(3,4) rd show ?thesis
      using 1(1) [OF _ rd Rdata]
      by (cases "length (got @ bs) < n") (auto simp: ssl_read_full.simps [of n] split: if_splits)
  next
    case Rwant
    with 1(3,4) rd show ?thesis using 1(2) [OF _ rd Rwant] by (auto simp: ssl_read_full.simps [of n got c])
  qed (use 1(3,4) rd in \<open>auto simp: ssl_read_full.simps [of n got c]\<close>)
qed

lemma read_full_unread: "ssl_read_full n got c = Some (rc, s, c') \<Longrightarrow> unread (rd c') \<le> unread (rd c)"
proof (induction n got c rule: ssl_read_full.induct)
  case (1 n got c)
  then show ?case
    by (subst (asm) (3) ssl_read_full.simps) (fastforce split: if_splits list.splits ssl_read.splits)
qed

lemma line_loop_unread: "line_loop m line c = Ret (rc, l, c') \<Longrightarrow> unread (rd c') \<le> unread (rd c) \<and> (rc = 0 \<longrightarrow> unread (rd c') < unread (rd c))"
proof (induction m line c rule: line_loop.induct)
  case (1 m line c)
  show ?case
  proof (cases "m \<le> length line")
    case True
    with 1(2) show ?thesis by (simp add: line_loop.simps [of m line c])
  next
    case False
    obtain rc1 b c1 where r: "ssl_read_full 1 [] c = Some (rc1, b, c1)"
      using 1(2) False by (auto simp: line_loop.simps [of m line c] split: option.splits)
    show ?thesis
    proof (cases "rc1 = 0")
      case True
      then have "unread (rd c1) < unread (rd c)" using read_full_done [of 1 "[]" c] r by simp
      then show ?thesis
        using 1(1) [OF False r refl refl] 1(2) False r True
        by (cases "line \<noteq> [] \<and> last line = CR \<and> hd b = LF") (auto simp: line_loop.simps [of m line c])
    next
      case rc1: False
      then show ?thesis using 1(2) False r read_full_unread [OF r] by (auto simp: line_loop.simps [of m line c])
    qed
  qed
qed

lemma ssl_read_line_unread: "ssl_read_line c = Ret (0, l, c') \<Longrightarrow> unread (rd c') < unread (rd c)"
  by (auto simp: ssl_read_line_def io_bind_Ret_iff split: if_splits dest!: line_loop_unread)

lemma line_loop_step:
  assumes "clean (rd c)" and "incoming (rd c) = b # r" and "length line < m"
  obtains c' where "clean (rd c')" and "incoming (rd c') = r" and "wr c' = wr c" and "tx c' = tx c"
    and "line_loop m line c = (if line \<noteq> [] \<and> last line = CR \<and> b = LF then Ret (0, butlast line, c') else line_loop m (line @ [b]) c')"
proof -
  obtain c' where "ssl_read_full 1 [] c = Some (0, [b], c')" "clean (rd c')" "incoming (rd c') = r" "wr c' = wr c" "tx c' = tx c"
    using read_full_incoming [of c 1 "[]"] assms by auto
  with assms(3) show thesis using that by (simp add: line_loop.simps [of m line c])
qed

lemma line_loop_clean:
  assumes "clean (rd c)" and "incoming (rd c) = l @ CR # LF # r" and "LF \<notin> set l" and "length line + length l + 1 < m"
  shows "\<exists>c'. line_loop m line c = Ret (0, line @ l, c') \<and> clean (rd c') \<and> incoming (rd c') = r \<and> wr c' = wr c \<and> tx c' = tx c"
  using assms
proof (induction l arbitrary: line c)
  case Nil
  have "incoming (rd c) = CR # LF # r" "length line < m" using Nil.prems by simp_all
  then obtain c1 where c1: "clean (rd c1)" "incoming (rd c1) = LF # r" "wr c1 = wr c" "tx c1 = tx c"
    "line_loop m line c = (if line \<noteq> [] \<and> last line = CR \<and> CR = LF then Ret (0, butlast line, c1) else line_loop m (line @ [CR]) c1)"
    by (rule line_loop_step [OF Nil.prems(1)])
  have "length (line @ [CR]) < m" using Nil.prems(4) by simp
  then obtain c2 where c2: "clean (rd c2)" "incoming (rd c2) = r" "wr c2 = wr c1" "tx c2 = tx c1"
    "line_loop m (line @ [CR]) c1 = (if line @ [CR] \<noteq> [] \<and> last (line @ [CR]) = CR \<and> LF = LF then Ret (0, butlast (line @ [CR]), c2)
       else line_loop m ((line @ [CR]) @ [LF]) c2)"
    by (rule line_loop_step [OF c1(1,2)])
  have "line_loop m line c = Ret (0, line, c2)" using c1(5) c2(5) by simp
  with c1 c2 show ?case by simp
next
  case (Cons b l)
  have b: "b \<noteq> LF" "LF \<notin> set l" using Cons.prems(3) by auto
  have "incoming (rd c) = b # (l @ CR # LF # r)" "length line < m" using Cons.prems by simp_all
  then obtain c1 where c1: "clean (rd c1)" "incoming (rd c1) = l @ CR # LF # r" "wr c1 = wr c" "tx c1 = tx c"
    "line_loop m line c = (if line \<noteq> [] \<and> last line = CR \<and> b = LF then Ret (0, butlast line, c1) else line_loop m (line @ [b]) c1)"
    by (rule line_loop_step [OF Cons.prems(1)])
  have "length (line @ [b]) + length l + 1 < m" using Cons.prems(4) by simp
  from Cons.IH [OF c1(1,2) b(2) this] c1(3-5) b(1) show ?case by simp
qed

lemma ssl_read_line_clean:
  assumes "clean (rd c)" and "incoming (rd c) = l @ CR # LF # r" and "LF \<notin> set l" and "length l < 8191"
  obtains c' where "ssl_read_line c = Ret (0, l, c')" and "clean (rd c')" and "incoming (rd c') = r"
    and "wr c' = wr c" and "tx c' = tx c"
proof -
  obtain c' where "line_loop 8192 [] c = Ret (0, l, c')" "clean (rd c')" "incoming (rd c') = r" "wr c' = wr c" "tx c' = tx c"
    using line_loop_clean [OF assms(1-3), of "[]" 8192] assms(4) by auto
  then show thesis using that by (simp add: ssl_read_line_def)
qed

end
