(* ===== verification/Rtsp_Client.thy ===== *)
theory Rtsp_Client
  imports Rtp Tls_Lines
begin

text \<open>
  The RTSP client of \<open>src/stubs/rtsp_client.cpp\<close>: responses, requests with authentication, the
  handshake OPTIONS, DESCRIBE, SETUP, PLAY, and the stream of frames and stray responses after it.
\<close>

section \<open>Responses\<close>

record rtsp_response =
  rr_status :: int
  rr_reason :: bytes
  rr_headers :: "(bytes \<times> bytes) list"
  rr_body :: bytes

definition new_rtsp_response :: rtsp_response where
  "new_rtsp_response = \<lparr>rr_status = 0, rr_reason = [], rr_headers = [], rr_body = []\<rparr>"

definition rr_header :: "bytes \<Rightarrow> rtsp_response \<Rightarrow> bytes" where
  "rr_header key r = (case map_of (rr_headers r) (lc key) of None \<Rightarrow> [] | Some v \<Rightarrow> v)"

definition kMaxResponseBody :: nat where "kMaxResponseBody = 64 * 1024"

text \<open>\<open>static_cast<std::size_t>\<close> of an \<open>int\<close>.\<close>

definition size_of_int :: "int \<Rightarrow> nat" where
  "size_of_int i = nat (i mod 2 ^ 64)"

text \<open>The header lines up to the empty one, with the last content length.\<close>

function read_headers :: "(bytes \<times> bytes) list \<Rightarrow> nat \<Rightarrow> conn \<Rightarrow> (int \<times> (bytes \<times> bytes) list \<times> nat \<times> conn) io" where
  "read_headers hs len c =
     (case ssl_read_line c of
        Overran \<Rightarrow> Overran
      | Blocked \<Rightarrow> Blocked
      | Ret (rc, line, c') \<Rightarrow>
          if rc \<noteq> 0 then Ret (rc, hs, len, c')
          else if line = [] then Ret (0, hs, len, c')
          else case find_char (CHR '':'') line of
            None \<Rightarrow> read_headers hs len c'
          | Some colon \<Rightarrow>
              let k = lc (rtsp_trim (take colon line)); v = rtsp_trim (drop (colon + 1) line) in
              read_headers (hs @ [(k, v)]) (if k = ''content-length'' then size_of_int (atoi v) else len) c')"
  by pat_completeness auto
termination
  by (relation "measure (\<lambda>(hs, len, c). unread (rd c))") (auto dest: ssl_read_line_unread)

declare read_headers.simps [simp del]

text \<open>Status line, headers and body; the second component is the error text, if one was set.\<close>

definition status_line :: "bytes \<Rightarrow> bytes + (int \<times> bytes)" where
  "status_line line =
     (if length line < 12 \<or> \<not> starts_with ''RTSP/1.'' line then Inl (''rtsp: malformed status line: '' @ line)
      else case find_from BLANK line 9 of
        None \<Rightarrow> Inl ''rtsp: status line missing reason''
      | Some sp1 \<Rightarrow> Inr (atoi (substr line 9 (sp1 - 9)), rtsp_trim (drop (sp1 + 1) line)))"

definition read_response :: "char option \<Rightarrow> conn \<Rightarrow> (int \<times> bytes \<times> rtsp_response \<times> conn) io" where
  "read_response prefetch c =
     io_bind (case prefetch of
                Some b \<Rightarrow> io_bind (line_loop 8192 [b] c) (\<lambda>(rc, line, c1). Ret (if rc = 2 then 0 else rc, line, c1))
              | None \<Rightarrow> ssl_read_line c) (\<lambda>(rc, line, c1).
       if rc \<noteq> 0 then Ret (rc, [], new_rtsp_response, c1)
       else case status_line line of
         Inl e \<Rightarrow> Ret (-1, e, new_rtsp_response, c1)
       | Inr (status, reason) \<Rightarrow>
           io_bind (read_headers [] 0 c1) (\<lambda>(hrc, hs, len, c2).
             let r = new_rtsp_response\<lparr>rr_status := status, rr_reason := reason, rr_headers := hs\<rparr> in
             if hrc \<noteq> 0 then Ret (hrc, [], r, c2)
             else if kMaxResponseBody < len then Ret (-1, ''rtsp: response body exceeds cap'', r, c2)
             else io_bind (read_full len c2) (\<lambda>(brc, body, c3). Ret (brc, [], r\<lparr>rr_body := body\<rparr>, c3))))"

section \<open>The client\<close>

datatype auth_scheme = Auth_none | Auth_basic | Auth_digest

text \<open>\<open>rt_error\<close> is the last error text of the thread.\<close>

record rtsp_client =
  rt_conn :: "conn option"
  rt_depack :: depack
  rt_cseq :: int
  rt_session :: bytes
  rt_session_id :: bytes
  rt_url_full :: bytes
  rt_url_setup :: bytes
  rt_user :: bytes
  rt_passwd :: bytes
  rt_auth :: auth_scheme
  rt_realm :: bytes
  rt_nonce :: bytes
  rt_qop :: bytes
  rt_opaque :: bytes
  rt_algorithm :: bytes
  rt_nc :: u32
  rt_keepalive :: bool
  rt_stop :: bool
  rt_track :: h264_track
  rt_error :: bytes

definition new_rtsp_client :: rtsp_client where
  "new_rtsp_client =
     \<lparr>rt_conn = None, rt_depack = new_depack, rt_cseq = 1, rt_session = [], rt_session_id = [],
      rt_url_full = [], rt_url_setup = [], rt_user = [], rt_passwd = [], rt_auth = Auth_none,
      rt_realm = [], rt_nonce = [], rt_qop = [], rt_opaque = [], rt_algorithm = [], rt_nc = 0,
      rt_keepalive = False, rt_stop = False, rt_track = new_track, rt_error = []\<rparr>"

text \<open>The digest of the library, and the random nonce of the request with a given number.\<close>

record rtsp_env =
  re_md5 :: "bytes \<Rightarrow> bytes"
  re_cnonce :: "int \<Rightarrow> bytes"

definition rt_fail :: "bytes \<Rightarrow> rtsp_client \<Rightarrow> rtsp_client" where
  "rt_fail e st = st\<lparr>rt_error := e\<rparr>"

section \<open>Authentication\<close>

definition dquote :: "bytes \<Rightarrow> bytes" where
  "dquote s = [QUOTE] @ s @ [QUOTE]"

definition rtsp_crlf :: bytes where "rtsp_crlf = [CR, LF]"

definition digest_fields :: "rtsp_env \<Rightarrow> bytes \<Rightarrow> bytes \<Rightarrow> rtsp_client \<Rightarrow> bytes \<times> rtsp_client" where
  "digest_fields env meth uri st =
     (let ha1 = md5_hex (re_md5 env) (rt_user st @ '':'' @ rt_realm st @ '':'' @ rt_passwd st);
          ha2 = md5_hex (re_md5 env) (meth @ '':'' @ uri);
          (response, extra, st') =
            (if rt_qop st \<noteq> [] then
               let cnonce = re_cnonce env (rt_cseq st); nc = rt_nc st + 1; nc_text = show_hex_fixed 8 (unat nc) in
               (md5_hex (re_md5 env) (ha1 @ '':'' @ rt_nonce st @ '':'' @ nc_text @ '':'' @ cnonce @ '':auth:'' @ ha2),
                '', qop=auth, nc='' @ nc_text @ '', cnonce='' @ dquote cnonce, st\<lparr>rt_nc := nc\<rparr>)
             else (md5_hex (re_md5 env) (ha1 @ '':'' @ rt_nonce st @ '':'' @ ha2), [], st))
      in (''Authorization: Digest username='' @ dquote (rt_user st) @ '', realm='' @ dquote (rt_realm st) @
          '', nonce='' @ dquote (rt_nonce st) @ '', uri='' @ dquote uri @ '', response='' @ dquote response @
          (if rt_opaque st \<noteq> [] then '', opaque='' @ dquote (rt_opaque st) else []) @
          (if rt_algorithm st \<noteq> [] then '', algorithm='' @ rt_algorithm st else []) @ extra @ rtsp_crlf, st'))"

definition compute_authorization :: "rtsp_env \<Rightarrow> bytes \<Rightarrow> bytes \<Rightarrow> rtsp_client \<Rightarrow> bytes \<times> rtsp_client" where
  "compute_authorization env meth uri st =
     (case rt_auth st of
        Auth_none \<Rightarrow> ([], st)
      | Auth_basic \<Rightarrow> (''Authorization: Basic '' @ base64_encode (rt_user st @ '':'' @ rt_passwd st) @ rtsp_crlf, st)
      | Auth_digest \<Rightarrow> digest_fields env meth uri st)"

definition take_challenge_field :: "bytes \<times> bytes \<Rightarrow> rtsp_client \<Rightarrow> rtsp_client" where
  "take_challenge_field kv st =
     (if fst kv = ''realm'' then st\<lparr>rt_realm := snd kv\<rparr>
      else if fst kv = ''nonce'' then st\<lparr>rt_nonce := snd kv\<rparr>
      else if fst kv = ''qop'' then st\<lparr>rt_qop := snd kv\<rparr>
      else if fst kv = ''opaque'' then st\<lparr>rt_opaque := snd kv\<rparr>
      else if fst kv = ''algorithm'' then st\<lparr>rt_algorithm := snd kv\<rparr>
      else st)"

definition adopt_challenge :: "rtsp_response \<Rightarrow> rtsp_client \<Rightarrow> bool \<times> rtsp_client" where
  "adopt_challenge resp st =
     (let www = rr_header ''www-authenticate'' resp in
      if www = [] then (False, st)
      else if lc (take 7 www) = ''digest '' then
        (let st1 = fold take_challenge_field (parse_auth_params (drop 7 www))
               (st\<lparr>rt_realm := [], rt_nonce := [], rt_qop := [], rt_opaque := [], rt_algorithm := []\<rparr>) in
         if rt_realm st1 = [] \<or> rt_nonce st1 = [] then (False, st1)
         else (True, st1\<lparr>rt_nc := 0, rt_auth := Auth_digest\<rparr>))
      else if lc (take 6 www) = ''basic '' then (True, st\<lparr>rt_auth := Auth_basic\<rparr>)
      else (False, st))"

section \<open>Requests\<close>

definition rtsp_request_line :: "bytes \<Rightarrow> bytes \<Rightarrow> rtsp_client \<Rightarrow> bytes" where
  "rtsp_request_line meth url st =
     meth @ '' '' @ url @ '' RTSP/1.0'' @ rtsp_crlf @ ''CSeq: '' @ show_int (rt_cseq st) @ rtsp_crlf @
     ''User-Agent: open-bamboo-networking/0.1'' @ rtsp_crlf @
     (if rt_session_id st = [] then [] else ''Session: '' @ rt_session_id st @ rtsp_crlf)"

definition write_tls :: "bytes \<Rightarrow> bytes \<Rightarrow> rtsp_client \<Rightarrow> int \<times> rtsp_client" where
  "write_tls e req st =
     (case rt_conn st of
        None \<Rightarrow> (-1, rt_fail ''rtsp: ssl is null'' st)
      | Some c \<Rightarrow>
          let (ok, c') = ssl_write_all req c; st' = st\<lparr>rt_conn := Some c'\<rparr> in
          if ok then (0, st') else (-1, rt_fail e st'))"

text \<open>The bodies of all requests are empty.\<close>

definition send_request :: "rtsp_env \<Rightarrow> bytes \<Rightarrow> bytes \<Rightarrow> bytes \<Rightarrow> rtsp_client \<Rightarrow> int \<times> rtsp_client" where
  "send_request env meth url extra st =
     (let line = rtsp_request_line meth url st; st1 = st\<lparr>rt_cseq := rt_cseq st + 1\<rparr> in
      if 4096 \<le> length line then (-1, rt_fail ''rtsp: request too long'' st1)
      else let (auth, st2) = compute_authorization env meth url st1 in
        write_tls ''rtsp: write failed'' (line @ auth @ extra @ rtsp_crlf) st2)"

section \<open>Frames and responses\<close>

text \<open>An interleaved frame behind its marker: the result with channel and packet.\<close>

definition frame_too_long :: bytes where "frame_too_long = ''rtsp: implausible interleaved frame length''"

definition kMaxRtpPacket :: nat where "kMaxRtpPacket = 64 * 1024"

definition read_frame :: "bool \<Rightarrow> conn \<Rightarrow> (int \<times> bytes \<times> nat \<times> bytes \<times> conn) io" where
  "read_frame allow_empty c =
     io_bind (read_full 3 c) (\<lambda>(rc, hdr, c1).
       if rc \<noteq> 0 then Ret (rc, [], 0, [], c1)
       else let plen = be16 (tl hdr) in
         if kMaxRtpPacket < plen \<or> plen = 0 \<and> \<not> allow_empty then Ret (-1, frame_too_long, 0, [], c1)
         else io_bind (read_full plen c1) (\<lambda>(rc2, rtp, c2). Ret (rc2, [], code_of (hdr ! 0), rtp, c2)))"

definition take_rtp_frame :: "nat \<Rightarrow> bytes \<Rightarrow> rtsp_client \<Rightarrow> rtsp_client" where
  "take_rtp_frame channel rtp st =
     (if channel = 0 then st\<lparr>rt_depack := decode_rtp_h264 (tr_rtp_pt (rt_track st)) rtp (rt_depack st)\<rparr> else st)"

definition set_error_if :: "bytes \<Rightarrow> rtsp_client \<Rightarrow> rtsp_client" where
  "set_error_if e st = (if e = [] then st else rt_fail e st)"

lemma read_full_ret_unread: "read_full n c = Ret (rc, s, c') \<Longrightarrow> unread (rd c') \<le> unread (rd c)"
  by (auto simp: read_full_def dest: read_full_unread split: option.splits)

lemma read_full_ret_done: "read_full n c = Ret (0, s, c') \<Longrightarrow> 0 < n \<Longrightarrow> unread (rd c') < unread (rd c)"
  by (auto simp: read_full_def dest: read_full_done split: option.splits)

lemma read_frame_unread: "read_frame b c = Ret (rc, e, ch, rtp, c') \<Longrightarrow> unread (rd c') \<le> unread (rd c)"
  by (auto simp: read_frame_def io_bind_Ret_iff Let_def dest!: read_full_ret_unread split: if_splits)

text \<open>\<open>await_response\<close>: frames ahead of the response are kept.\<close>

function await_response :: "conn \<Rightarrow> rtsp_client \<Rightarrow> (int \<times> rtsp_response \<times> rtsp_client) io" where
  "await_response c st =
     (case read_full 1 c of
        Overran \<Rightarrow> Overran
      | Blocked \<Rightarrow> Blocked
      | Ret (rc, b, c1) \<Rightarrow>
          if rc \<noteq> 0 then Ret (rc, new_rtsp_response, st\<lparr>rt_conn := Some c1\<rparr>)
          else if hd b = CHR ''$'' then
            (case read_frame True c1 of
               Overran \<Rightarrow> Overran
             | Blocked \<Rightarrow> Blocked
             | Ret (rc2, e, channel, rtp, c2) \<Rightarrow>
                 if rc2 \<noteq> 0 then Ret (rc2, new_rtsp_response, set_error_if e (st\<lparr>rt_conn := Some c2\<rparr>))
                 else await_response c2 (take_rtp_frame channel rtp st))
          else io_bind (read_response (Some (hd b)) c1) (\<lambda>(rc2, e, resp, c2).
            Ret (rc2, resp, set_error_if e (st\<lparr>rt_conn := Some c2\<rparr>))))"
  by pat_completeness auto
termination
  by (relation "measure (\<lambda>(c, st). unread (rd c))")
    (auto dest!: read_frame_unread read_full_ret_done)

declare await_response.simps [simp del]

definition await_on_conn :: "rtsp_client \<Rightarrow> (int \<times> rtsp_response \<times> rtsp_client) io" where
  "await_on_conn st = (case rt_conn st of None \<Rightarrow> Overran | Some c \<Rightarrow> await_response c st)"

definition request_with_auth :: "rtsp_env \<Rightarrow> bytes \<Rightarrow> bytes \<Rightarrow> bytes \<Rightarrow> rtsp_client
    \<Rightarrow> (int \<times> rtsp_response \<times> rtsp_client) io" where
  "request_with_auth env meth url extra st =
     (let (rc, st1) = send_request env meth url extra st in
      if rc \<noteq> 0 then Ret (-1, new_rtsp_response, st1)
      else io_bind (await_on_conn st1) (\<lambda>(rc2, out, st2).
        if rc2 \<noteq> 0 then Ret (rc2, out, st2)
        else if rr_status out \<noteq> 401 then Ret (0, out, st2)
        else
          let (ok, st3) = adopt_challenge out st2 in
          if \<not> ok then Ret (-1, out, rt_fail (''rtsp: 401 Unauthorized with no usable '' @
              ''WWW-Authenticate (Bambu access code wrong, '' @ ''or unsupported auth scheme)'') st3)
          else
            let (rc4, st4) = send_request env meth url extra st3 in
            if rc4 \<noteq> 0 then Ret (-1, out, st4)
            else io_bind (await_on_conn st4) (\<lambda>(rc5, out5, st5).
              if rc5 \<noteq> 0 then Ret (rc5, out5, st5)
              else if rr_status out5 = 401 then
                Ret (-1, out5, rt_fail (''rtsp: 401 Unauthorized after Digest retry '' @ ''-- access code rejected by printer'') st5)
              else Ret (0, out5, st5))))"

section \<open>The handshake\<close>

text \<open>The error text is cut to the 127 characters of its buffer.\<close>

definition unexpected_status :: "bytes \<Rightarrow> rtsp_response \<Rightarrow> bytes" where
  "unexpected_status meth resp =
     take 127 (''rtsp: '' @ meth @ '' returned '' @ show_int (rr_status resp) @ '' '' @ rr_reason resp)"

definition expect_ok :: "rtsp_env \<Rightarrow> bytes \<Rightarrow> bytes \<Rightarrow> bytes \<Rightarrow> rtsp_client \<Rightarrow> (int \<times> rtsp_response \<times> rtsp_client) io" where
  "expect_ok env meth url extra st =
     io_bind (request_with_auth env meth url extra st) (\<lambda>(rc, resp, st1).
       if rc \<noteq> 0 then Ret (-1, resp, st1)
       else if rr_status resp \<noteq> 200 then Ret (-1, resp, rt_fail (unexpected_status meth resp) st1)
       else Ret (0, resp, st1))"

definition do_options :: "rtsp_env \<Rightarrow> rtsp_client \<Rightarrow> (int \<times> rtsp_client) io" where
  "do_options env st =
     io_bind (expect_ok env ''OPTIONS'' (rt_url_full st) [] st) (\<lambda>(rc, resp, st1). Ret (rc, st1))"

definition do_describe :: "rtsp_env \<Rightarrow> rtsp_client \<Rightarrow> (int \<times> bytes \<times> rtsp_client) io" where
  "do_describe env st =
     io_bind (expect_ok env ''DESCRIBE'' (rt_url_full st) (''Accept: application/sdp'' @ rtsp_crlf) st)
       (\<lambda>(rc, resp, st1). Ret (rc, rr_body resp, st1))"

definition bare_session :: "bytes \<Rightarrow> bytes" where
  "bare_session s = rtsp_trim (case find_char (CHR '';'') s of None \<Rightarrow> s | Some semi \<Rightarrow> take semi s)"

definition do_setup :: "rtsp_env \<Rightarrow> rtsp_client \<Rightarrow> (int \<times> rtsp_client) io" where
  "do_setup env st =
     io_bind (expect_ok env ''SETUP'' (rt_url_setup st) (''Transport: RTP/AVP/TCP;unicast;interleaved=0-1'' @ rtsp_crlf) st)
       (\<lambda>(rc, resp, st1).
         if rc \<noteq> 0 then Ret (-1, st1)
         else
           let session = rr_header ''session'' resp; st2 = st1\<lparr>rt_session := session\<rparr> in
           if session = [] then Ret (-1, rt_fail ''rtsp: SETUP did not return a Session header'' st2)
           else Ret (0, st2\<lparr>rt_session_id := bare_session session\<rparr>))"

definition do_play :: "rtsp_env \<Rightarrow> rtsp_client \<Rightarrow> (int \<times> rtsp_client) io" where
  "do_play env st =
     io_bind (expect_ok env ''PLAY'' (rt_url_full st) (''Range: npt=0.000-'' @ rtsp_crlf) st) (\<lambda>(rc, resp, st1). Ret (rc, st1))"

definition track_of_sdp :: "bytes \<Rightarrow> rtsp_client \<Rightarrow> bool \<times> rtsp_client" where
  "track_of_sdp sdp st =
     (case parse_sdp sdp of
        None \<Rightarrow> (False, st)
      | Some (track, control) \<Rightarrow> (True, st\<lparr>rt_track := track, rt_url_setup := resolve_control (rt_url_full st) control\<rparr>))"

definition rtsp_handshake :: "rtsp_env \<Rightarrow> rtsp_client \<Rightarrow> (int \<times> rtsp_client) io" where
  "rtsp_handshake env st =
     io_bind (do_options env st) (\<lambda>(rc1, st1).
       if rc1 \<noteq> 0 then Ret (-1, st1)
       else io_bind (do_describe env st1) (\<lambda>(rc2, sdp, st2).
         if rc2 \<noteq> 0 then Ret (-1, st2)
         else let (ok, st3) = track_of_sdp sdp st2 in
           if \<not> ok then Ret (-1, st3)
           else io_bind (do_setup env st3) (\<lambda>(rc4, st4).
             if rc4 \<noteq> 0 then Ret (-1, st4)
             else io_bind (do_play env st4) (\<lambda>(rc5, st5). Ret (if rc5 \<noteq> 0 then -1 else 0, st5)))))"

text \<open>\<open>dial\<close> is the outcome of the TLS or TCP dial: the error text, or the stream.\<close>

definition rtsp_start :: "rtsp_env \<Rightarrow> rtsp_url \<Rightarrow> bytes + conn \<Rightarrow> rtsp_client \<Rightarrow> (int \<times> rtsp_client) io" where
  "rtsp_start env url dial st =
     (case dial of
        Inl e \<Rightarrow> Ret (-1, rt_fail e st)
      | Inr c \<Rightarrow>
          if \<not> ru_tls url then Ret (-1, rt_fail ''rtsp: plain rtsp:// is not supported'' st)
          else
            io_bind (rtsp_handshake env (st\<lparr>rt_conn := Some c, rt_url_full := base_url url,
                rt_user := ru_user url, rt_passwd := ru_passwd url\<rparr>)) (\<lambda>(rc, st1).
              if rc \<noteq> 0 then Ret (-1, st1\<lparr>rt_conn := None\<rparr>) else Ret (0, st1\<lparr>rt_keepalive := True\<rparr>)))"

section \<open>The stream\<close>

definition unexpected_byte :: "char \<Rightarrow> bytes" where
  "unexpected_byte b =
     ''rtsp: unexpected wire byte 0x'' @ show_hex_fixed 2 (code_of b) @ '' (expected '' @ [CHR 0x27] @ ''$'' @ [CHR 0x27] @
     '' or '' @ [CHR 0x27] @ ''R'' @ [CHR 0x27] @ '')''"

definition pull_one_message :: "conn \<Rightarrow> rtsp_client \<Rightarrow> (int \<times> rtsp_client) io" where
  "pull_one_message c st =
     io_bind (read_full 1 c) (\<lambda>(rc, b, c1).
       if rc \<noteq> 0 then Ret (rc, st\<lparr>rt_conn := Some c1\<rparr>)
       else if hd b = CHR ''$'' then
         io_bind (read_frame False c1) (\<lambda>(rc2, e, channel, rtp, c2).
           let st' = set_error_if e (st\<lparr>rt_conn := Some c2\<rparr>) in
           Ret (rc2, if rc2 \<noteq> 0 then st' else take_rtp_frame channel rtp st'))
       else if hd b = CHR ''R'' then
         io_bind (ssl_read_line c1) (\<lambda>(rc2, rest, c2).
           if rc2 \<noteq> 0 then Ret (rc2, st\<lparr>rt_conn := Some c2\<rparr>)
           else io_bind (read_headers [] 0 c2) (\<lambda>(rc3, hs, len, c3).
             if rc3 \<noteq> 0 then Ret (rc3, st\<lparr>rt_conn := Some c3\<rparr>)
             else if kMaxResponseBody < len then Ret (-1, rt_fail ''rtsp: stray response body exceeds cap'' (st\<lparr>rt_conn := Some c3\<rparr>))
             else io_bind (read_full len c3) (\<lambda>(rc4, body, c4). Ret (rc4, st\<lparr>rt_conn := Some c4\<rparr>))))
       else Ret (-1, rt_fail (unexpected_byte (hd b)) (st\<lparr>rt_conn := Some c1\<rparr>)))"

lemma ssl_read_line_le: "ssl_read_line c = Ret (rc, l, c') \<Longrightarrow> unread (rd c') \<le> unread (rd c)"
  by (auto simp: ssl_read_line_def io_bind_Ret_iff dest!: line_loop_unread)

lemma read_headers_unread: "read_headers hs n c = Ret (rc, hs', n', c') \<Longrightarrow> unread (rd c') \<le> unread (rd c)"
proof (induction hs n c rule: read_headers.induct)
  case (1 hs n c)
  from 1(3) obtain rc1 line c1 where r: "ssl_read_line c = Ret (rc1, line, c1)"
    by (subst (asm) read_headers.simps) (auto split: io.splits)
  note le = ssl_read_line_le [OF r]
  show ?case
  proof (cases "rc1 \<noteq> 0 \<or> line = []")
    case True
    with 1(3) r le show ?thesis by (subst (asm) read_headers.simps) (auto split: if_splits)
  next
    case False
    then have f: "\<not> rc1 \<noteq> 0" "line \<noteq> []" by auto
    show ?thesis
    proof (cases "find_char (CHR '':'') line")
      case None
      have "read_headers hs n c1 = Ret (rc, hs', n', c')"
        using 1(3) r f None by (subst (asm) read_headers.simps) (simp del: find_char_None_iff)
      then show ?thesis using 1(1) [OF r refl refl f None] le by simp
    next
      case (Some i)
      let ?k = "lc (rtsp_trim (take i line))" and ?v = "rtsp_trim (drop (i + 1) line)"
      have "read_headers hs n c =
          read_headers (hs @ [(?k, ?v)]) (if ?k = ''content-length'' then size_of_int (atoi ?v) else n) c1"
        using r f Some by (subst read_headers.simps) (simp add: Let_def)
      then show ?thesis using 1(3) 1(2) [OF r refl refl f Some refl refl] le by simp
    qed
  qed
qed

lemma pull_one_unread:
  assumes "pull_one_message c st = Ret (0, st')"
  shows "\<exists>c'. rt_conn st' = Some c' \<and> unread (rd c') < unread (rd c)"
proof -
  obtain b c1 where b: "read_full 1 c = Ret (0, b, c1)"
    using assms by (auto simp: pull_one_message_def io_bind_Ret_iff split: if_splits)
  have lt: "unread (rd c1) < unread (rd c)" using read_full_ret_done [OF b] by simp
  consider "hd b = CHR ''$''" | "hd b = CHR ''R''" "hd b \<noteq> CHR ''$''"
    using assms b by (auto simp: pull_one_message_def split: if_splits)
  then show ?thesis
  proof cases
    case 1
    then have "io_bind (read_frame False c1) (\<lambda>(rc2, e, channel, rtp, c2).
           let s2 = set_error_if e (st\<lparr>rt_conn := Some c2\<rparr>) in
           Ret (rc2, if rc2 \<noteq> 0 then s2 else take_rtp_frame channel rtp s2)) = Ret (0, st')"
      using assms b by (simp add: pull_one_message_def)
    then obtain e ch rtp c2 where f: "read_frame False c1 = Ret (0, e, ch, rtp, c2)"
      and st': "st' = take_rtp_frame ch rtp (set_error_if e (st\<lparr>rt_conn := Some c2\<rparr>))"
      by (cases "read_frame False c1") (auto simp: Let_def)
    have "rt_conn st' = Some c2" by (simp add: st' take_rtp_frame_def set_error_if_def rt_fail_def)
    then show ?thesis using read_frame_unread [OF f] lt by simp
  next
    case 2
    then have "io_bind (ssl_read_line c1) (\<lambda>(rc2, rest, c2).
           if rc2 \<noteq> 0 then Ret (rc2, st\<lparr>rt_conn := Some c2\<rparr>)
           else io_bind (read_headers [] 0 c2) (\<lambda>(rc3, hs, len, c3).
             if rc3 \<noteq> 0 then Ret (rc3, st\<lparr>rt_conn := Some c3\<rparr>)
             else if kMaxResponseBody < len then Ret (-1, rt_fail ''rtsp: stray response body exceeds cap'' (st\<lparr>rt_conn := Some c3\<rparr>))
             else io_bind (read_full len c3) (\<lambda>(rc4, body, c4). Ret (rc4, st\<lparr>rt_conn := Some c4\<rparr>)))) = Ret (0, st')"
      using assms b by (simp add: pull_one_message_def)
    then obtain l c2 where l: "ssl_read_line c1 = Ret (0, l, c2)"
      and r2: "io_bind (read_headers [] 0 c2) (\<lambda>(rc3, hs, len, c3).
             if rc3 \<noteq> 0 then Ret (rc3, st\<lparr>rt_conn := Some c3\<rparr>)
             else if kMaxResponseBody < len then Ret (-1, rt_fail ''rtsp: stray response body exceeds cap'' (st\<lparr>rt_conn := Some c3\<rparr>))
             else io_bind (read_full len c3) (\<lambda>(rc4, body, c4). Ret (rc4, st\<lparr>rt_conn := Some c4\<rparr>))) = Ret (0, st')"
      by (cases "ssl_read_line c1") (auto split: if_splits)
    then obtain hs len c3 where h: "read_headers [] 0 c2 = Ret (0, hs, len, c3)"
      and r3: "io_bind (read_full len c3) (\<lambda>(rc4, body, c4). Ret (rc4, st\<lparr>rt_conn := Some c4\<rparr>)) = Ret (0, st')"
      by (cases "read_headers [] 0 c2") (auto split: if_splits)
    then obtain body c4 where f: "read_full len c3 = Ret (0, body, c4)" and st': "st' = st\<lparr>rt_conn := Some c4\<rparr>"
      by (cases "read_full len c3") auto
    show ?thesis
      using ssl_read_line_le [OF l] read_headers_unread [OF h] read_full_ret_unread [OF f] lt st' by simp
  qed
qed

definition no_nalu :: nalu where
  "no_nalu = \<lparr>nu_data = [], nu_ts = 0, nu_au_end = False\<rparr>"

definition pop_nalu :: "rtsp_client \<Rightarrow> rtsp_client" where
  "pop_nalu st = st\<lparr>rt_depack := (rt_depack st)\<lparr>dp_queue := tl (dp_queue (rt_depack st))\<rparr>\<rparr>"

function read_nalu :: "rtsp_client \<Rightarrow> (int \<times> nalu \<times> rtsp_client) io" where
  "read_nalu st =
     (case dp_queue (rt_depack st) of
        n # q \<Rightarrow> Ret (0, n, pop_nalu st)
      | [] \<Rightarrow>
          if rt_stop st then Ret (-1, no_nalu, st)
          else case rt_conn st of
            None \<Rightarrow> Ret (-1, no_nalu, st)
          | Some c \<Rightarrow>
              (case pull_one_message c st of
                 Overran \<Rightarrow> Overran
               | Blocked \<Rightarrow> Blocked
               | Ret (rc, st') \<Rightarrow> if rc \<noteq> 0 then Ret (rc, no_nalu, st') else read_nalu st'))"
  by pat_completeness auto
termination
  by (relation "measure (\<lambda>st. case rt_conn st of None \<Rightarrow> 0 | Some c \<Rightarrow> unread (rd c))") (auto dest!: pull_one_unread)

declare read_nalu.simps [simp del]

section \<open>Keeping alive and stopping\<close>

definition bare_request :: "rtsp_env \<Rightarrow> bytes \<Rightarrow> rtsp_client \<Rightarrow> bytes \<times> rtsp_client" where
  "bare_request env meth st =
     (let (auth, st1) = compute_authorization env meth (rt_url_full st) (st\<lparr>rt_cseq := rt_cseq st + 1\<rparr>) in
      (meth @ '' '' @ rt_url_full st @ '' RTSP/1.0'' @ rtsp_crlf @ ''CSeq: '' @ show_int (rt_cseq st) @ rtsp_crlf @
       ''Session: '' @ rt_session_id st @ rtsp_crlf @ auth @ rtsp_crlf, st1))"

text \<open>One turn of the keepalive thread, after its wait.\<close>

definition keepalive_turn :: "rtsp_env \<Rightarrow> rtsp_client \<Rightarrow> rtsp_client" where
  "keepalive_turn env st =
     (if rt_stop st then st\<lparr>rt_keepalive := False\<rparr>
      else let (req, st1) = bare_request env ''GET_PARAMETER'' st in
        case rt_conn st1 of
          None \<Rightarrow> st1\<lparr>rt_keepalive := False\<rparr>
        | Some c \<Rightarrow>
            let (ok, c') = ssl_write_all req c in st1\<lparr>rt_conn := Some c', rt_keepalive := ok \<and> rt_keepalive st1\<rparr>)"

definition do_teardown_best_effort :: "rtsp_env \<Rightarrow> rtsp_client \<Rightarrow> rtsp_client" where
  "do_teardown_best_effort env st =
     (case rt_conn st of
        None \<Rightarrow> st
      | Some c \<Rightarrow>
          if rt_session_id st = [] then st
          else let (req, st1) = bare_request env ''TEARDOWN'' st in st1\<lparr>rt_conn := Some (snd (ssl_write_all req c))\<rparr>)"

definition rtsp_stop :: "rtsp_env \<Rightarrow> rtsp_client \<Rightarrow> rtsp_client" where
  "rtsp_stop env st =
     (if rt_stop st then st
      else (do_teardown_best_effort env (st\<lparr>rt_stop := True, rt_keepalive := False\<rparr>))\<lparr>rt_conn := None\<rparr>)"

end
