(* ===== verification/Rtsp_Laws.thy ===== *)
theory Rtsp_Laws
  imports Rtsp_Client
begin

text \<open>
  Laws of the camera's RTSP client: the base64 coder and decoder invert each other, and a Basic
  header carries the access code.
\<close>

section \<open>Base64\<close>

lemma b64_alphabet:
  "kB64Alphabet = map char_of ([65..<91] @ [97..<123] @ [48..<58] @ [43, 47 :: nat])"
  unfolding kB64Alphabet_def by (simp add: upt_rec char_of_def bit_0)

definition b64_ascii :: "nat \<Rightarrow> nat" where
  "b64_ascii w = (if w < 26 then 65 + w else if w < 52 then 71 + w else if w < 62 then w - 4 else if w = 62 then 43 else 47)"

lemma b64_ascii_nth:
  assumes "w < 64"
  shows "([65..<91] @ [97..<123] @ [48..<58] @ [43, 47 :: nat]) ! w = b64_ascii w"
proof -
  consider "w < 26" | "26 \<le> w" "w < 52" | "52 \<le> w" "w < 62" | "w = 62" | "w = 63" using assms by linarith
  then show ?thesis
  proof cases
    case 3
    then have "\<not> w - 26 < 26" "w - 52 < 10" by linarith+
    with 3 show ?thesis by (simp add: nth_append b64_ascii_def del: upt_Suc upt_rec_numeral)
  qed (simp_all add: nth_append b64_ascii_def del: upt_Suc upt_rec_numeral)
qed

lemma b64_code: "code_of (b64_char v) = b64_ascii (v mod 64)"
proof -
  have w: "v mod 64 < 64" by simp
  have "b64_ascii (v mod 64) < 256" using w unfolding b64_ascii_def by (simp split: if_split) linarith
  then show ?thesis
    unfolding b64_char_def b64_alphabet using w b64_ascii_nth [OF w] by (subst nth_map) (simp_all add: of_char_of)
qed

lemma b64_char_facts:
  "b64_val (b64_char v) = Some (v mod 64)" "b64_char v \<noteq> CHR ''=''"
  "b64_char v \<noteq> CR" "b64_char v \<noteq> LF" "b64_char v \<noteq> BLANK"
proof -
  have c: "c = CHR ''+'' \<longleftrightarrow> code_of c = (43 :: nat)" "c = CHR ''/'' \<longleftrightarrow> code_of c = (47 :: nat)"
    "c = CHR ''='' \<longleftrightarrow> code_of c = (61 :: nat)" "c = CR \<longleftrightarrow> code_of c = (13 :: nat)"
    "c = LF \<longleftrightarrow> code_of c = (10 :: nat)" "c = BLANK \<longleftrightarrow> code_of c = (32 :: nat)" for c
    using of_char_eq_iff [where 'a = nat, of c "CHR ''+''"] of_char_eq_iff [where 'a = nat, of c "CHR ''/''"]
      of_char_eq_iff [where 'a = nat, of c "CHR ''=''"] of_char_eq_iff [where 'a = nat, of c CR]
      of_char_eq_iff [where 'a = nat, of c LF] of_char_eq_iff [where 'a = nat, of c BLANK]
    by simp_all
  define w where "w = v mod 64"
  have w: "w < 64" by (simp add: w_def)
  then show "b64_val (b64_char v) = Some (v mod 64)"
    unfolding b64_val_def c b64_code Let_def w_def [symmetric] b64_ascii_def by (simp split: if_split) linarith
  show "b64_char v \<noteq> CHR ''=''" "b64_char v \<noteq> CR" "b64_char v \<noteq> LF" "b64_char v \<noteq> BLANK"
    unfolding c b64_code w_def [symmetric] b64_ascii_def by (simp split: if_split; linarith)+
qed

lemma b64_loop_char:
  "b64_loop buf bits (b64_char v # s) =
     (let buf' = (buf * 2 ^ 6 + v mod 64) mod 2 ^ 32; bits' = bits + 6 in
      if 8 \<le> bits' then map_option (\<lambda>r. char_of (buf' div 2 ^ (bits' - 8) mod 256) # r) (b64_loop buf' (bits' - 8) s)
      else b64_loop buf' bits' s)"
  by (simp only: b64_loop.simps b64_char_facts option.case if_False simp_thms)

lemma b64_steps:
  "b64_loop buf 0 (b64_char v # s) = b64_loop ((buf * 2 ^ 6 + v mod 64) mod 2 ^ 32) 6 s"
  "b64_loop buf 6 (b64_char v # s) = (let x = (buf * 2 ^ 6 + v mod 64) mod 2 ^ 32 in
     map_option (\<lambda>r. char_of (x div 2 ^ 4 mod 2 ^ 8) # r) (b64_loop x 4 s))"
  "b64_loop buf 4 (b64_char v # s) = (let x = (buf * 2 ^ 6 + v mod 64) mod 2 ^ 32 in
     map_option (\<lambda>r. char_of (x div 2 ^ 2 mod 2 ^ 8) # r) (b64_loop x 2 s))"
  "b64_loop buf 2 (b64_char v # s) = (let x = (buf * 2 ^ 6 + v mod 64) mod 2 ^ 32 in
     map_option (\<lambda>r. char_of (x div 2 ^ 0 mod 2 ^ 8) # r) (b64_loop x 0 s))"
  unfolding b64_loop_char Let_def by simp_all

lemma low_bits: "k + 8 \<le> 32 \<Longrightarrow> (x mod 2 ^ 32) div 2 ^ k mod 2 ^ 8 = x div 2 ^ k mod (2 ^ 8 :: nat)"
  unfolding take_bit_eq_mod [symmetric] drop_bit_eq_div [symmetric] drop_bit_take_bit take_bit_take_bit
  by (simp add: min_def) linarith

text \<open>Four characters carry three bytes, whatever the accumulator held.\<close>

lemma b64_accumulate: "((x mod 2 ^ 32) * 2 ^ 6 + v) mod 2 ^ 32 = (x * 2 ^ 6 + v) mod (2 ^ 32 :: nat)"
  by (metis mod_add_left_eq mod_mult_left_eq)

lemma b64_outputs:
  fixes n2 c d :: nat
  defines "n4 \<equiv> (n2 * 2 ^ 6 + c mod 64) * 2 ^ 6 + d mod 64"
  shows "n2 mod 2 ^ 32 div 2 ^ 4 mod 2 ^ 8 = n4 div 2 ^ 16 mod 2 ^ 8"
    and "(n2 * 2 ^ 6 + c mod 64) mod 2 ^ 32 div 2 ^ 2 mod 2 ^ 8 = n4 div 2 ^ 8 mod 2 ^ 8"
    and "n4 mod 2 ^ 32 div 2 ^ 0 mod 2 ^ 8 = n4 mod 2 ^ 8"
proof -
  have "n4 div 2 ^ 6 = n2 * 2 ^ 6 + c mod 64" "(n2 * 2 ^ 6 + c mod 64) div 2 ^ 6 = n2" by (simp_all add: n4_def)
  then have "n4 div 2 ^ 6 div 2 ^ 2 = (n2 * 2 ^ 6 + c mod 64) div 2 ^ 2" "n4 div 2 ^ 6 div 2 ^ 6 div 2 ^ 4 = n2 div 2 ^ 4" by simp_all
  then have d: "n2 div 2 ^ 4 = n4 div 2 ^ 16" "(n2 * 2 ^ 6 + c mod 64) div 2 ^ 2 = n4 div 2 ^ 8"
    by (simp_all flip: div_mult2_eq)
  show "n2 mod 2 ^ 32 div 2 ^ 4 mod 2 ^ 8 = n4 div 2 ^ 16 mod 2 ^ 8"
    "(n2 * 2 ^ 6 + c mod 64) mod 2 ^ 32 div 2 ^ 2 mod 2 ^ 8 = n4 div 2 ^ 8 mod 2 ^ 8"
    by (subst low_bits; simp only: d; simp)+
  show "n4 mod 2 ^ 32 div 2 ^ 0 mod 2 ^ 8 = n4 mod 2 ^ 8" by (subst low_bits) simp_all
qed

lemma b64_group4:
  "b64_loop buf 0 (b64_char a # b64_char b # b64_char c # b64_char d # s) =
     (let n = (((buf * 2 ^ 6 + a mod 64) * 2 ^ 6 + b mod 64) * 2 ^ 6 + c mod 64) * 2 ^ 6 + d mod 64 in
      map_option (\<lambda>r. char_of (n div 2 ^ 16 mod 2 ^ 8) # char_of (n div 2 ^ 8 mod 2 ^ 8) # char_of (n mod 2 ^ 8) # r)
        (b64_loop (n mod 2 ^ 32) 0 s))"
proof -
  define n1 where "n1 = buf * 2 ^ 6 + a mod 64"
  define n2 where "n2 = n1 * 2 ^ 6 + b mod 64"
  define n3 where "n3 = n2 * 2 ^ 6 + c mod 64"
  define n4 where "n4 = n3 * 2 ^ 6 + d mod 64"
  have m: "(n1 mod 2 ^ 32 * 2 ^ 6 + b mod 64) mod 2 ^ 32 = n2 mod 2 ^ 32"
    "(n2 mod 2 ^ 32 * 2 ^ 6 + c mod 64) mod 2 ^ 32 = n3 mod 2 ^ 32"
    "(n3 mod 2 ^ 32 * 2 ^ 6 + d mod 64) mod 2 ^ 32 = n4 mod 2 ^ 32"
    unfolding b64_accumulate by (simp_all only: n2_def n3_def n4_def)
  show ?thesis
    unfolding b64_steps Let_def n1_def [symmetric] m n2_def [symmetric] n3_def [symmetric] n4_def [symmetric]
    using b64_outputs [of n2 c d] by (simp only: n3_def [symmetric] n4_def [symmetric] option.map_comp comp_def)
qed

lemma b64_end: "b64_loop buf bits (CHR ''='' # s) = Some []"
  by simp

lemma b64_tail3:
  "b64_loop buf 0 (b64_char a # b64_char b # b64_char c # CHR ''='' # s) =
     (let n = (((buf * 2 ^ 6 + a mod 64) * 2 ^ 6 + b mod 64) * 2 ^ 6 + c mod 64) * 2 ^ 6 + d mod 64 in
      Some [char_of (n div 2 ^ 16 mod 2 ^ 8), char_of (n div 2 ^ 8 mod 2 ^ 8)])"
  unfolding b64_steps Let_def b64_accumulate b64_outputs [of "(buf * 2 ^ 6 + a mod 64) * 2 ^ 6 + b mod 64" c d] b64_end by (simp only: option.map)

lemma b64_tail2:
  "b64_loop buf 0 (b64_char a # b64_char b # CHR ''='' # s) =
     (let n = (((buf * 2 ^ 6 + a mod 64) * 2 ^ 6 + b mod 64) * 2 ^ 6 + c mod 64) * 2 ^ 6 + d mod 64 in
      Some [char_of (n div 2 ^ 16 mod 2 ^ 8)])"
  unfolding b64_steps Let_def b64_accumulate b64_outputs [of "(buf * 2 ^ 6 + a mod 64) * 2 ^ 6 + b mod 64" c d] b64_end by (simp only: option.map)

lemma six_sum:
  "v = v1 * 64 + r1 \<Longrightarrow> v1 = v2 * 64 + r2 \<Longrightarrow> v2 = v3 * 64 + r3 \<Longrightarrow>
    (((buf * 64 + v3) * 64 + r3) * 64 + r2) * 64 + r1 = buf * 16777216 + (v :: nat)"
  by (simp add: algebra_simps)

lemma powers_256: "(2 :: nat) ^ 8 = 256" "(2 :: nat) ^ 16 = 65536" "(2 :: nat) ^ 24 = 16777216"
  by simp_all

lemma six_bits:
  assumes "v < 2 ^ 24"
  shows "(((buf * 2 ^ 6 + v div 2 ^ 18 mod 64) * 2 ^ 6 + v div 2 ^ 12 mod 64) * 2 ^ 6 + v div 2 ^ 6 mod 64) * 2 ^ 6 + v mod 64
    = buf * 2 ^ 24 + (v :: nat)"
proof -
  have d: "v div 2 ^ 12 = v div 2 ^ 6 div 2 ^ 6" "v div 2 ^ 18 = v div 2 ^ 12 div 2 ^ 6" by (simp_all flip: div_mult2_eq)
  have "v < 2 ^ 6 * 2 ^ 18" using assms by simp
  then have "v div 2 ^ 18 < 2 ^ 6" by (rule less_mult_imp_div_less)
  then have "v div 2 ^ 18 mod 64 = v div 2 ^ 18" by simp
  moreover have "v = v div 2 ^ 6 * 64 + v mod 64" "v div 2 ^ 6 = v div 2 ^ 12 * 64 + v div 2 ^ 6 mod 64"
    "v div 2 ^ 12 = v div 2 ^ 18 * 64 + v div 2 ^ 12 mod 64"
    using d div_mult_mod_eq [of v 64] div_mult_mod_eq [of "v div 2 ^ 6" 64] div_mult_mod_eq [of "v div 2 ^ 12" 64] by simp_all
  moreover have "(2 :: nat) ^ 6 = 64" by simp
  ultimately show ?thesis using six_sum [of v "v div 2 ^ 6" "v mod 64" "v div 2 ^ 12" "v div 2 ^ 6 mod 64" "v div 2 ^ 18"] by (simp add: powers_256)
qed

lemma three_bytes:
  fixes buf :: nat
  assumes "a < 256" "b < 256" "c < (256 :: nat)"
  defines "n \<equiv> buf * 2 ^ 24 + (a * 2 ^ 16 + b * 2 ^ 8 + c)"
  shows "n div 2 ^ 16 mod 2 ^ 8 = a" "n div 2 ^ 8 mod 2 ^ 8 = b" "n mod 2 ^ 8 = c"
proof -
  have n: "n = ((buf * 2 ^ 8 + a) * 2 ^ 8 + b) * 2 ^ 8 + c" by (simp add: n_def)
  have n8: "n div 2 ^ 8 = (buf * 2 ^ 8 + a) * 2 ^ 8 + b" using assms(3) by (simp add: n)
  then have "n div 2 ^ 8 div 2 ^ 8 = buf * 2 ^ 8 + a" using assms(2) by simp
  then have "n div 2 ^ 16 = buf * 2 ^ 8 + a" by (simp flip: div_mult2_eq)
  then show "n div 2 ^ 16 mod 2 ^ 8 = a" using assms(1) by simp
  show "n div 2 ^ 8 mod 2 ^ 8 = b" unfolding n8 using assms(2) by (simp only: mod_mult_self3 mod_less power_numeral_reduce) simp
  show "n mod 2 ^ 8 = c" unfolding n using assms(3) by (simp only: mod_mult_self3 mod_less power_numeral_reduce) simp
qed

lemma b64_loop_encode: "b64_loop buf 0 (base64_encode s) = Some s"
proof (induction s arbitrary: buf rule: base64_encode.induct)
  case (1 a b c s)
  define v where "v = code_of a * 2 ^ 16 + code_of b * 2 ^ 8 + (code_of c :: nat)"
  have bounds: "code_of a < (256 :: nat)" "code_of b < (256 :: nat)" "code_of c < (256 :: nat)" by simp_all
  then have v: "v < 2 ^ 24" unfolding v_def powers_256 by linarith
  have "b64_loop buf 0 (base64_encode (a # b # c # s)) =
      (let n = buf * 2 ^ 24 + v in
       map_option (\<lambda>r. char_of (n div 2 ^ 16 mod 2 ^ 8) # char_of (n div 2 ^ 8 mod 2 ^ 8) # char_of (n mod 2 ^ 8) # r)
         (b64_loop (n mod 2 ^ 32) 0 (base64_encode s)))"
    by (simp only: base64_encode.simps Let_def v_def [symmetric] b64_group4 six_bits [OF v])
  also have "\<dots> = Some (a # b # c # s)"
    using three_bytes [OF bounds, of buf] "1.IH" by (simp only: Let_def v_def) simp
  finally show ?case .
next
  case (2 a b)
  define v where "v = code_of a * 2 ^ 16 + (code_of b :: nat) * 2 ^ 8"
  have bounds: "code_of a < (256 :: nat)" "code_of b < (256 :: nat)" "0 < (256 :: nat)" by simp_all
  then have v: "v < 2 ^ 24" unfolding v_def powers_256 by linarith
  have "b64_loop buf 0 (base64_encode [a, b]) =
      (let n = buf * 2 ^ 24 + v in Some [char_of (n div 2 ^ 16 mod 2 ^ 8), char_of (n div 2 ^ 8 mod 2 ^ 8)])"
    by (simp only: base64_encode.simps Let_def v_def [symmetric] b64_tail3 [of buf _ _ _ "[]" v] six_bits [OF v])
  also have "\<dots> = Some [a, b]"
    using three_bytes(1,2) [OF bounds, of buf] by (simp only: Let_def v_def) simp
  finally show ?case .
next
  case (3 a)
  define v where "v = code_of a * 2 ^ 16"
  have bounds: "code_of a < (256 :: nat)" "0 < (256 :: nat)" by simp_all
  then have v: "v < 2 ^ 24" unfolding v_def powers_256 by linarith
  have "b64_loop buf 0 (base64_encode [a]) = (let n = buf * 2 ^ 24 + v in Some [char_of (n div 2 ^ 16 mod 2 ^ 8)])"
    by (simp only: base64_encode.simps Let_def v_def [symmetric] b64_tail2 [of buf _ _ "CHR ''='' # []" "v div 2 ^ 6" v] six_bits [OF v])
  also have "\<dots> = Some [a]"
    using three_bytes(1) [OF bounds(1,2,2), of buf] by (simp only: Let_def v_def) simp
  finally show ?case .
qed simp

lemma base64_roundtrip: "base64_decode (base64_encode s) = Some s"
  by (simp add: base64_decode_def b64_loop_encode)

text \<open>What a printer reads from a Basic header is the user name and the access code.\<close>

lemma basic_credentials:
  assumes "rt_auth st = Auth_basic" and "compute_authorization env meth uri st = (h, st')"
  shows "\<exists>b. h = ''Authorization: Basic '' @ b @ rtsp_crlf \<and> base64_decode b = Some (rt_user st @ '':'' @ rt_passwd st)"
  using assms base64_roundtrip by (auto simp: compute_authorization_def)

end
