(* ===== verification/Camera_Stream.thy ===== *)
theory Camera_Stream
  imports Rtsp_Laws
begin

text \<open>
  The camera's stream after PLAY, from the wire to the decoded units: interleaved frames and
  responses to keepalives, read by \<open>pull_one_message\<close> however the TLS records cut them.
\<close>

section \<open>The stream\<close>

text \<open>What a printer sends after PLAY: interleaved frames, and the responses to keepalives.\<close>

datatype camera_msg = Frame nat bytes | Answer bytes "bytes list" bytes

definition length_header :: "bytes \<Rightarrow> bytes" where
  "length_header b = (if b = [] then [] else ''Content-Length: '' @ show_int (int (length b)) @ rtsp_crlf)"

fun msg_text :: "camera_msg \<Rightarrow> bytes" where
  "msg_text (Frame ch p) = [CHR ''$'', char_of ch, char_of (length p div 256), char_of (length p)] @ p"
| "msg_text (Answer l hs b) =
     ''R'' @ l @ rtsp_crlf @ concat (map (\<lambda>h. h @ rtsp_crlf) hs) @ length_header b @ rtsp_crlf @ b"

definition line_ok :: "bytes \<Rightarrow> bool" where
  "line_ok l = (LF \<notin> set l \<and> length l < 8191)"

definition is_length_key :: "bytes \<Rightarrow> bool" where
  "is_length_key h = (case find_char (CHR '':'') h of None \<Rightarrow> False
     | Some i \<Rightarrow> lc (rtsp_trim (take i h)) = ''content-length'')"

fun msg_ok :: "camera_msg \<Rightarrow> bool" where
  "msg_ok (Frame ch p) = (ch < 256 \<and> 0 < length p \<and> length p < 2 ^ 16)"
| "msg_ok (Answer l hs b) =
     (line_ok l \<and> list_all (\<lambda>h. line_ok h \<and> h \<noteq> [] \<and> \<not> is_length_key h) hs \<and> length b \<le> kMaxResponseBody)"

fun take_msg :: "camera_msg \<Rightarrow> rtsp_client \<Rightarrow> rtsp_client" where
  "take_msg (Frame ch p) st = take_rtp_frame ch p st"
| "take_msg (Answer l hs b) st = st"

lemma read_headers_step:
  assumes "ssl_read_line c = Ret (0, l, c')"
  shows "read_headers hs n c =
    (if l = [] then Ret (0, hs, n, c')
     else case find_char (CHR '':'') l of
       None \<Rightarrow> read_headers hs n c'
     | Some i \<Rightarrow> read_headers (hs @ [(lc (rtsp_trim (take i l)), rtsp_trim (drop (i + 1) l))])
         (if lc (rtsp_trim (take i l)) = ''content-length'' then size_of_int (atoi (rtsp_trim (drop (i + 1) l))) else n) c')"
proof (cases "l = [] \<or> find_char (CHR '':'') l = None")
  case True
  then show ?thesis using assms by (subst read_headers.simps) (auto simp del: find_char_None_iff)
next
  case False
  then obtain i where "find_char (CHR '':'') l = Some i" by blast
  with False show ?thesis using assms by (subst read_headers.simps) (simp add: Let_def)
qed

lemma read_line_at:
  assumes "clean (rd c)" and "incoming (rd c) = l @ rtsp_crlf @ r" and "line_ok l"
  obtains c' where "ssl_read_line c = Ret (0, l, c')" and "clean (rd c')" and "incoming (rd c') = r" and "tx c' = tx c"
  using ssl_read_line_clean [of c l r] assms by (auto simp: rtsp_crlf_def line_ok_def)

lemma skip_headers:
  assumes "clean (rd c)" and "incoming (rd c) = concat (map (\<lambda>h. h @ rtsp_crlf) hs) @ r"
    and "list_all (\<lambda>h. line_ok h \<and> h \<noteq> [] \<and> \<not> is_length_key h) hs"
  shows "\<exists>hs' c'. read_headers acc n c = read_headers hs' n c' \<and> clean (rd c') \<and> incoming (rd c') = r \<and> tx c' = tx c"
  using assms
proof (induction hs arbitrary: c acc)
  case Nil
  then show ?case by auto
next
  case (Cons h hs)
  have h: "line_ok h" "h \<noteq> []" "\<not> is_length_key h" and hs: "list_all (\<lambda>h. line_ok h \<and> h \<noteq> [] \<and> \<not> is_length_key h) hs"
    using Cons.prems(3) by simp_all
  have "incoming (rd c) = h @ rtsp_crlf @ (concat (map (\<lambda>h. h @ rtsp_crlf) hs) @ r)" using Cons.prems(2) by simp
  then obtain c' where c': "ssl_read_line c = Ret (0, h, c')" "clean (rd c')"
    "incoming (rd c') = concat (map (\<lambda>h. h @ rtsp_crlf) hs) @ r" "tx c' = tx c"
    using read_line_at [OF Cons.prems(1) _ h(1)] by blast
  obtain acc' where "read_headers acc n c = read_headers acc' n c'"
    using read_headers_step [OF c'(1), of acc n] h(2,3) by (auto simp: is_length_key_def split: option.splits)
  then show ?case using Cons.IH [OF c'(2,3) hs, of acc'] c'(4) by metis
qed

lemma size_of_length: "length b \<le> kMaxResponseBody \<Longrightarrow> size_of_int (atoi (rtsp_trim (BLANK # show_int (int (length b))))) = length b"
proof -
  assume "length b \<le> kMaxResponseBody"
  then have b: "length b \<le> 65536" by (simp add: kMaxResponseBody_def)
  have d: "show_int (int (length b)) = show_nat (length b)" by (simp add: show_int_def)
  obtain x xs where s: "show_nat (length b) = x # xs" "is_digit x" by (rule show_nat_cases)
  have blank: "is_space BLANK" by (simp add: is_space_def)
  have "is_digit (last (show_nat (length b)))" using show_nat_all_digits s(1) by (metis last_in_set list.discI)
  then have "rtsp_trim (BLANK # show_int (int (length b))) = show_nat (length b)"
    using s not_space_digit [of x] not_space_digit [of "last (show_nat (length b))"] blank
    by (simp add: rtsp_trim_def ltrim_by_def d rtrim_by_id)
  moreover have "atoi (show_nat (length b)) = int (length b)"
    using int_prefix_show_int [of "[]" "int (length b)"] b by (simp add: atoi_def strtol_def d signed_of_def)
  ultimately show ?thesis using b by (simp add: size_of_int_def)
qed

lemma length_header_key:
  "find_char (CHR '':'') (''Content-Length:'' @ s) = Some 14"
  "lc (rtsp_trim (take 14 (''Content-Length:'' @ s))) = ''content-length''"
  by (simp_all add: lc_def rtsp_trim_def ltrim_by_def rtrim_by_def is_space_def to_lower_char_def char_of_def bit_0)

lemma show_nat_digit_count: "n < 10 ^ Suc k \<Longrightarrow> length (show_nat n) \<le> Suc k"
proof (induction k arbitrary: n)
  case (Suc k)
  then have "n div 10 < 10 ^ Suc k" by (simp add: div_less_iff_less_mult)
  from Suc.IH [OF this] show ?case by (subst show_nat.simps) simp
qed (simp add: show_nat.simps)

lemma length_line_ok:
  assumes "length b \<le> kMaxResponseBody"
  shows "line_ok (''Content-Length:'' @ BLANK # show_int (int (length b)))"
proof -
  have d: "show_int (int (length b)) = show_nat (length b)" by (simp add: show_int_def)
  have "length b < 10 ^ Suc 4" using assms by (simp add: kMaxResponseBody_def)
  then have "length (show_nat (length b)) \<le> Suc 4" by (rule show_nat_digit_count)
  moreover have "LF \<notin> set (show_nat (length b))" using show_nat_all_digits [of "length b"] by (auto simp: is_digit_def)
  ultimately show ?thesis by (simp add: line_ok_def d)
qed

lemma read_headers_end:
  assumes "clean (rd c)" and "incoming (rd c) = length_header b @ rtsp_crlf @ r" and "length b \<le> kMaxResponseBody"
  shows "\<exists>hs c'. read_headers acc 0 c = Ret (0, hs, length b, c') \<and> clean (rd c') \<and> incoming (rd c') = r \<and> tx c' = tx c"
proof -
  have last: "\<exists>hs c2. read_headers a n c1 = Ret (0, hs, n, c2) \<and> clean (rd c2) \<and> incoming (rd c2) = r \<and> tx c2 = tx c1"
    if "clean (rd c1)" "incoming (rd c1) = rtsp_crlf @ r" for a n c1
  proof -
    note cl = that(1)
    have "incoming (rd c1) = [] @ rtsp_crlf @ r" "line_ok []" using that(2) by (simp_all add: line_ok_def)
    then obtain c2 where "ssl_read_line c1 = Ret (0, [], c2)" "clean (rd c2)" "incoming (rd c2) = r" "tx c2 = tx c1"
      by (rule read_line_at [OF cl])
    then show ?thesis using read_headers_step [of c1 "[]" c2 a n] by simp
  qed
  show ?thesis
  proof (cases "b = []")
    case True
    then show ?thesis using last [OF assms(1)] assms(2) by (simp add: length_header_def)
  next
    case False
    let ?l = "''Content-Length:'' @ BLANK # show_int (int (length b))"
    have "incoming (rd c) = ?l @ rtsp_crlf @ (rtsp_crlf @ r)" using False assms(2) by (simp add: length_header_def)
    from this length_line_ok [OF assms(3)]
    obtain c1 where c1: "ssl_read_line c = Ret (0, ?l, c1)" "clean (rd c1)" "incoming (rd c1) = rtsp_crlf @ r" "tx c1 = tx c"
      by (rule read_line_at [OF assms(1)])
    have "read_headers acc 0 c = read_headers (acc @ [(''content-length'', rtsp_trim (BLANK # show_int (int (length b))))]) (length b) c1"
      using read_headers_step [OF c1(1), of acc 0] length_header_key [of "BLANK # show_int (int (length b))"]
        size_of_length [OF assms(3)] by simp
    then show ?thesis using last [OF c1(2,3)] c1(4) by metis
  qed
qed

section \<open>One message\<close>

lemma read_byte:
  assumes "clean (rd c)" and "incoming (rd c) = b # r"
  obtains c' where "read_full 1 c = Ret (0, [b], c')" and "clean (rd c')" and "incoming (rd c') = r" and "tx c' = tx c"
  using read_full_clean [OF assms(1), of 1] assms(2) by auto

lemma frame_read:
  assumes "clean (rd c)" and "ch < 256" and "0 < length p" and "length p < 2 ^ 16"
    and "incoming (rd c) = [char_of ch, char_of (length p div 256), char_of (length p)] @ p @ r"
  obtains c' where "read_frame False c = Ret (0, [], ch, p, c')" and "clean (rd c')" and "incoming (rd c') = r" and "tx c' = tx c"
proof -
  let ?h = "[char_of ch, char_of (length p div 256), char_of (length p)]"
  obtain c1 where c1: "read_full 3 c = Ret (0, ?h, c1)" "clean (rd c1)" "incoming (rd c1) = p @ r" "tx c1 = tx c"
    using read_full_clean [OF assms(1), of 3] assms(5) by auto
  obtain c2 where c2: "read_full (length p) c1 = Ret (0, p, c2)" "clean (rd c2)" "incoming (rd c2) = r" "tx c2 = tx c1"
    using read_full_clean [OF c1(2), of "length p"] c1(3) by auto
  have "length p div 256 < 256" using assms(4) by (simp add: div_less_iff_less_mult)
  then have "be16 (tl ?h) = length p" using div_mult_mod_eq [of "length p" 256] by (simp add: be16_def of_char_of)
  moreover have "code_of (?h ! 0) = ch" using assms(2) by (simp add: of_char_of)
  ultimately show thesis
    using that [OF _ c2(2,3)] c1 c2 assms(3,4) by (simp add: read_frame_def kMaxRtpPacket_def)
qed

lemma pull_one_clean:
  assumes "clean (rd c)" and "incoming (rd c) = msg_text m @ r" and "msg_ok m"
  shows "\<exists>c'. pull_one_message c st = Ret (0, (take_msg m st)\<lparr>rt_conn := Some c'\<rparr>) \<and> clean (rd c') \<and>
    incoming (rd c') = r \<and> tx c' = tx c"
proof (cases m)
  case (Frame ch p)
  then have ok: "ch < 256" "0 < length p" "length p < 2 ^ 16" using assms(3) by simp_all
  have "incoming (rd c) = CHR ''$'' # ([char_of ch, char_of (length p div 256), char_of (length p)] @ p @ r)"
    using assms(2) Frame by simp
  then obtain c1 where c1: "read_full 1 c = Ret (0, [CHR ''$''], c1)" "clean (rd c1)"
    "incoming (rd c1) = [char_of ch, char_of (length p div 256), char_of (length p)] @ p @ r" "tx c1 = tx c"
    by (rule read_byte [OF assms(1)])
  obtain c2 where c2: "read_frame False c1 = Ret (0, [], ch, p, c2)" "clean (rd c2)" "incoming (rd c2) = r" "tx c2 = tx c1"
    by (rule frame_read [OF c1(2) ok c1(3)])
  have "take_rtp_frame ch p (st\<lparr>rt_conn := Some c2\<rparr>) = (take_rtp_frame ch p st)\<lparr>rt_conn := Some c2\<rparr>"
    by (simp add: take_rtp_frame_def)
  then show ?thesis using Frame c1 c2 by (auto simp: pull_one_message_def set_error_if_def)
next
  case (Answer l hs b)
  then have ok: "line_ok l" "list_all (\<lambda>h. line_ok h \<and> h \<noteq> [] \<and> \<not> is_length_key h) hs" "length b \<le> kMaxResponseBody"
    using assms(3) by simp_all
  let ?hs = "concat (map (\<lambda>h. h @ rtsp_crlf) hs)"
  have "incoming (rd c) = CHR ''R'' # (l @ rtsp_crlf @ (?hs @ (length_header b @ rtsp_crlf @ (b @ r))))" using assms(2) Answer by simp
  then obtain c1 where c1: "read_full 1 c = Ret (0, ''R'', c1)" "clean (rd c1)"
    "incoming (rd c1) = l @ rtsp_crlf @ (?hs @ (length_header b @ rtsp_crlf @ (b @ r)))" "tx c1 = tx c"
    by (rule read_byte [OF assms(1)])
  obtain c2 where c2: "ssl_read_line c1 = Ret (0, l, c2)" "clean (rd c2)"
    "incoming (rd c2) = ?hs @ (length_header b @ rtsp_crlf @ (b @ r))" "tx c2 = tx c1"
    by (rule read_line_at [OF c1(2,3) ok(1)])
  obtain hs1 c3 where c3: "read_headers [] 0 c2 = read_headers hs1 0 c3" "clean (rd c3)"
    "incoming (rd c3) = length_header b @ rtsp_crlf @ (b @ r)" "tx c3 = tx c2"
    using skip_headers [OF c2(2,3) ok(2)] by blast
  obtain hs2 c4 where c4: "read_headers hs1 0 c3 = Ret (0, hs2, length b, c4)" "clean (rd c4)"
    "incoming (rd c4) = b @ r" "tx c4 = tx c3"
    using read_headers_end [OF c3(2,3) ok(3)] by blast
  obtain c5 where c5: "read_full (length b) c4 = Ret (0, b, c5)" "clean (rd c5)" "incoming (rd c5) = r" "tx c5 = tx c4"
    using read_full_clean [OF c4(2), of "length b"] c4(3) by auto
  have "pull_one_message c st = Ret (0, st\<lparr>rt_conn := Some c5\<rparr>)"
    using c1(1) c2(1) c3(1) c4(1) c5(1) ok(3) by (simp add: pull_one_message_def)
  then show ?thesis using Answer c1(4) c2(4) c3(4) c4(4) c5(2-4) by auto
qed

section \<open>The whole stream\<close>

text \<open>The caller's loop: units are read until one more would have to wait for the printer.\<close>

fun read_nalus :: "nat \<Rightarrow> rtsp_client \<Rightarrow> (nalu list \<times> rtsp_client) io" where
  "read_nalus 0 st = Ret ([], st)"
| "read_nalus (Suc n) st =
     io_bind (read_nalu st) (\<lambda>(rc, u, st1).
       if rc \<noteq> 0 then Ret ([], st1)
       else io_bind (read_nalus n st1) (\<lambda>(us, st2). Ret (u # us, st2)))"

text \<open>The packets of the video channel, and the units they will have given when all are taken.\<close>

fun video :: "camera_msg list \<Rightarrow> bytes list" where
  "video [] = []"
| "video (Frame ch p # ms) = (if ch = 0 then p # video ms else video ms)"
| "video (Answer l hs b # ms) = video ms"

definition upcoming :: "int \<Rightarrow> camera_msg list \<Rightarrow> depack \<Rightarrow> nalu list" where
  "upcoming pt ms d = dp_queue (fold (decode_rtp_h264 pt) (video ms) d)"

text \<open>The depacketiser only appends to its queue.\<close>

lemma take_fragment_queue:
  "take_fragment ts m p (d\<lparr>dp_queue := q @ dp_queue d\<rparr>) =
     (take_fragment ts m p d)\<lparr>dp_queue := q @ dp_queue (take_fragment ts m p d)\<rparr>"
  by (simp add: take_fragment_def Let_def)

lemma take_payload_queue:
  "take_payload ts m p (d\<lparr>dp_queue := q @ dp_queue d\<rparr>) =
     (take_payload ts m p d)\<lparr>dp_queue := q @ dp_queue (take_payload ts m p d)\<rparr>"
  by (simp add: take_payload_def take_fragment_queue Let_def)

lemma decode_queue:
  "decode_rtp_h264 pt p (d\<lparr>dp_queue := q @ dp_queue d\<rparr>) =
     (decode_rtp_h264 pt p d)\<lparr>dp_queue := q @ dp_queue (decode_rtp_h264 pt p d)\<rparr>"
  by (simp add: decode_rtp_h264_def take_payload_queue split: option.split)

lemma upcoming_append: "upcoming pt ms (d\<lparr>dp_queue := q @ dp_queue d\<rparr>) = q @ upcoming pt ms d"
proof -
  have "fold (decode_rtp_h264 pt) ps (d\<lparr>dp_queue := q @ dp_queue d\<rparr>) =
      (fold (decode_rtp_h264 pt) ps d)\<lparr>dp_queue := q @ dp_queue (fold (decode_rtp_h264 pt) ps d)\<rparr>" for ps
    by (induction ps arbitrary: d) (simp_all add: decode_queue)
  then show ?thesis by (simp add: upcoming_def)
qed

lemma upcoming_queue:
  assumes "dp_queue d = u # q"
  shows "upcoming pt ms d = u # upcoming pt ms (d\<lparr>dp_queue := q\<rparr>)"
proof -
  have "d = (d\<lparr>dp_queue := q\<rparr>)\<lparr>dp_queue := [u] @ dp_queue (d\<lparr>dp_queue := q\<rparr>)\<rparr>" using assms by simp
  then show ?thesis using upcoming_append [of pt ms "[u]" "d\<lparr>dp_queue := q\<rparr>"] by simp
qed

lemma upcoming_step:
  "upcoming (tr_rtp_pt (rt_track st)) (m # ms) (rt_depack st) = upcoming (tr_rtp_pt (rt_track st)) ms (rt_depack (take_msg m st))"
  by (cases m) (simp_all add: upcoming_def take_rtp_frame_def)

lemma take_msg_keeps [simp]:
  "rt_track (take_msg m st) = rt_track st" "rt_stop (take_msg m st) = rt_stop st"
  by (cases m; simp add: take_rtp_frame_def)+

text \<open>A connection on which the messages \<open>ms\<close> are still to come, in any records.\<close>

definition feeding :: "camera_msg list \<Rightarrow> rtsp_client \<Rightarrow> bool" where
  "feeding ms st = (\<not> rt_stop st \<and> list_all msg_ok ms \<and>
     (\<exists>c. rt_conn st = Some c \<and> clean (rd c) \<and> incoming (rd c) = concat (map msg_text ms)))"

lemma read_nalu_feeding:
  assumes "feeding ms st" and "upcoming (tr_rtp_pt (rt_track st)) ms (rt_depack st) = u # us"
  shows "\<exists>ms' st'. read_nalu st = Ret (0, u, st') \<and> feeding ms' st' \<and> rt_track st' = rt_track st \<and>
    upcoming (tr_rtp_pt (rt_track st)) ms' (rt_depack st') = us"
  using assms
proof (induction ms arbitrary: st)
  case Nil
  then have q: "dp_queue (rt_depack st) = u # us" by (simp add: upcoming_def)
  then have "read_nalu st = Ret (0, u, pop_nalu st)" by (simp add: read_nalu.simps)
  moreover have "feeding [] (pop_nalu st)" "upcoming (tr_rtp_pt (rt_track st)) [] (rt_depack (pop_nalu st)) = us"
    using Nil(1) q by (simp_all add: feeding_def pop_nalu_def upcoming_def)
  ultimately show ?case by (auto simp: pop_nalu_def)
next
  case (Cons m ms)
  show ?case
  proof (cases "dp_queue (rt_depack st)")
    case (Cons v q)
    then have "v # upcoming (tr_rtp_pt (rt_track st)) (m # ms) (rt_depack (pop_nalu st)) = u # us"
      using upcoming_queue [OF Cons] Cons.prems(2) by (simp add: pop_nalu_def)
    moreover have "read_nalu st = Ret (0, v, pop_nalu st)" using Cons by (simp add: read_nalu.simps)
    moreover have "feeding (m # ms) (pop_nalu st)" using Cons.prems(1) by (simp add: feeding_def pop_nalu_def)
    ultimately show ?thesis by (auto simp: pop_nalu_def)
  next
    case Nil
    obtain c where c: "rt_conn st = Some c" "clean (rd c)" "incoming (rd c) = msg_text m @ concat (map msg_text ms)"
      using Cons.prems(1) by (auto simp: feeding_def)
    have m: "msg_ok m" "list_all msg_ok ms" "\<not> rt_stop st" using Cons.prems(1) by (simp_all add: feeding_def)
    obtain c' where p: "pull_one_message c st = Ret (0, (take_msg m st)\<lparr>rt_conn := Some c'\<rparr>)" "clean (rd c')"
      "incoming (rd c') = concat (map msg_text ms)"
      using pull_one_clean [OF c(2,3) m(1)] by blast
    let ?st = "(take_msg m st)\<lparr>rt_conn := Some c'\<rparr>"
    have "read_nalu st = read_nalu ?st" using Nil c(1) m(3) p(1) by (subst read_nalu.simps) simp
    moreover have "feeding ms ?st" using m p by (simp add: feeding_def)
    moreover have "upcoming (tr_rtp_pt (rt_track ?st)) ms (rt_depack ?st) = u # us"
      using Cons.prems(2) by (simp add: upcoming_step)
    ultimately show ?thesis using Cons.IH [of ?st] by auto
  qed
qed

lemma read_nalus_feeding:
  assumes "feeding ms st" and "n \<le> length (upcoming (tr_rtp_pt (rt_track st)) ms (rt_depack st))"
  shows "\<exists>st'. read_nalus n st = Ret (take n (upcoming (tr_rtp_pt (rt_track st)) ms (rt_depack st)), st')"
  using assms
proof (induction n arbitrary: ms st)
  case (Suc n)
  then obtain u us where u: "upcoming (tr_rtp_pt (rt_track st)) ms (rt_depack st) = u # us"
    by (cases "upcoming (tr_rtp_pt (rt_track st)) ms (rt_depack st)") auto
  obtain ms1 st1 where s: "read_nalu st = Ret (0, u, st1)" "feeding ms1 st1" "rt_track st1 = rt_track st"
    "upcoming (tr_rtp_pt (rt_track st)) ms1 (rt_depack st1) = us"
    using read_nalu_feeding [OF Suc.prems(1) u] by blast
  have "n \<le> length (upcoming (tr_rtp_pt (rt_track st1)) ms1 (rt_depack st1))" using Suc.prems(2) u s(3,4) by simp
  from Suc.IH [OF s(2) this] show ?case using s u by auto
qed simp

text \<open>Whatever records the TLS layer cuts the stream into, and whatever RTCP frames and keepalive
  responses the printer mixes into it, reading as many units as the camera packed returns exactly
  those units, in order.\<close>

theorem camera_stream_any_cut:
  assumes "stream_ok s" and "pt < 128" and "video ms = stream_packets pt ssrc s" and "feeding ms st"
    and "tr_rtp_pt (rt_track st) = int pt" and "rt_depack st = new_depack"
  shows "\<exists>st'. read_nalus (length (stream_nalus s)) st = Ret (stream_nalus s, st')"
proof -
  have "upcoming (tr_rtp_pt (rt_track st)) ms (rt_depack st) = stream_nalus s"
    using stream_decoded [OF assms(1,2), of new_depack ssrc] assms(3,5,6) by (simp add: upcoming_def new_depack_def)
  then show ?thesis using read_nalus_feeding [OF assms(4), of "length (stream_nalus s)"] by simp
qed

definition example_messages :: "camera_msg list" where
  "example_messages = [Frame 1 ''rtcp'', Frame 0 (rtp_packet 96 False 0 90000 7 ''A1''),
     Answer ''TSP/1.0 200 OK'' [''CSeq: 5''] ''ok'', Frame 0 (rtp_packet 96 True 1 90000 7 ''A2'')]"

definition example_client :: rtsp_client where
  "example_client = (let s = concat (map msg_text example_messages) in
     new_rtsp_client\<lparr>rt_conn := Some \<lparr>rd = [Rdata (take 3 s), Rwant, Rdata (drop 3 s)], wr = [], tx = []\<rparr>\<rparr>)"

lemma example_feeding: "feeding example_messages example_client"
proof -
  have "list_all msg_ok example_messages"
    by (simp add: example_messages_def line_ok_def is_length_key_def kMaxResponseBody_def rtp_packet_def lc_def
        rtsp_trim_def ltrim_by_def rtrim_by_def is_space_def to_lower_char_def char_of_def bit_0)
  then show ?thesis
    by (simp add: feeding_def example_client_def new_rtsp_client_def Let_def) (simp add: example_messages_def rtp_packet_def)
qed

theorem camera_stream_any_cut_witness:
  "\<exists>st'. read_nalus 2 example_client = Ret ([\<lparr>nu_data = ''A1'', nu_ts = 90000, nu_au_end = False\<rparr>,
     \<lparr>nu_data = ''A2'', nu_ts = 90000, nu_au_end = True\<rparr>], st')"
proof -
  let ?s = "[(0, 90000, False, Single ''A1''), (1, 90000, True, Single ''A2'')]"
  have "stream_ok ?s" by (simp add: stream_ok_def nal_type_def)
  moreover have "video example_messages = stream_packets 96 7 ?s"
    by (simp add: example_messages_def stream_packets_def)
  moreover note example_feeding
  moreover have "tr_rtp_pt (rt_track example_client) = int 96" "rt_depack example_client = new_depack"
    by (simp_all add: example_client_def Let_def new_rtsp_client_def new_track_def)
  ultimately have "\<exists>st'. read_nalus (length (stream_nalus ?s)) example_client = Ret (stream_nalus ?s, st')"
    using camera_stream_any_cut [of ?s 96 example_messages 7 example_client] by simp
  then show ?thesis by (simp add: stream_nalus_def numeral_2_eq_2 del: read_nalus.simps)
qed

end
