(* ===== verification/Rtsp_Passthrough.thy ===== *)
theory Rtsp_Passthrough
  imports Camera_Stream "HOL-Library.Sublist"
begin

text \<open>
  The access units handed to the video player: \<open>src/stubs/rtsp_passthrough.cpp\<close>. The worker
  thread collects the units of one time stamp into a sample in Annex-B framing; the caller takes
  samples from a queue that keeps the newest eight.
\<close>

section \<open>Samples\<close>

definition kFlagSync :: int where "kFlagSync = 1"

definition kMaxReadyQueue :: nat where "kMaxReadyQueue = 8"

text \<open>\<open>sm_dt\<close> is the time since the start in units of 100 ns.\<close>

record sample =
  sm_bytes :: bytes
  sm_dt :: nat
  sm_flags :: int

definition new_sample :: sample where
  "new_sample = \<lparr>sm_bytes = [], sm_dt = 0, sm_flags = 0\<rparr>"

definition append_annexb :: "bytes \<Rightarrow> bytes \<Rightarrow> bytes" where
  "append_annexb out nal = out @ [CHR 0x00, CHR 0x00, CHR 0x00, CHR 0x01] @ nal"

definition nal_is_sps :: "char \<Rightarrow> bool" where "nal_is_sps nal0 = (nal_type nal0 = 7)"

definition nal_is_pps :: "char \<Rightarrow> bool" where "nal_is_pps nal0 = (nal_type nal0 = 8)"

section \<open>The worker\<close>

text \<open>\<open>pp_au\<close> to \<open>pp_au_has_idr\<close> are the variables of the worker's function.\<close>

record passthrough =
  pp_client :: rtsp_client
  pp_stop :: bool
  pp_running :: bool
  pp_ready :: "sample list"
  pp_current :: sample
  pp_au :: bytes
  pp_au_ts :: u32
  pp_au_open :: bool
  pp_au_has_idr :: bool

definition new_passthrough :: passthrough where
  "new_passthrough =
     \<lparr>pp_client = new_rtsp_client, pp_stop = False, pp_running = False, pp_ready = [], pp_current = new_sample,
      pp_au = [], pp_au_ts = 0, pp_au_open = False, pp_au_has_idr = False\<rparr>"

text \<open>Room for one more sample: the oldest are dropped.\<close>

definition make_room :: "sample list \<Rightarrow> sample list" where
  "make_room q = drop (length q + 1 - kMaxReadyQueue) q"

text \<open>\<open>now\<close> is the time since the start in nanoseconds.\<close>

definition flush_au :: "nat \<Rightarrow> passthrough \<Rightarrow> passthrough" where
  "flush_au now p =
     (if \<not> pp_au_open p \<or> pp_au p = [] then p\<lparr>pp_au := [], pp_au_open := False, pp_au_has_idr := False\<rparr>
      else
        let s = \<lparr>sm_bytes = pp_au p, sm_dt = now div 100, sm_flags = (if pp_au_has_idr p then kFlagSync else 0)\<rparr> in
        p\<lparr>pp_au := [], pp_au_open := False, pp_au_has_idr := False, pp_ready := make_room (pp_ready p) @ [s]\<rparr>)"

definition open_au :: "u32 \<Rightarrow> passthrough \<Rightarrow> passthrough" where
  "open_au ts p = (if pp_au_open p then p else p\<lparr>pp_au_open := True, pp_au_ts := ts\<rparr>)"

definition append_unit :: "h264_track \<Rightarrow> bytes \<Rightarrow> passthrough \<Rightarrow> passthrough" where
  "append_unit tr nal p =
     (let p1 = (if nal_type (hd nal) = 5 then
            let a1 = (if tr_sps tr \<noteq> [] then append_annexb (pp_au p) (tr_sps tr) else pp_au p);
                a2 = (if tr_pps tr \<noteq> [] then append_annexb a1 (tr_pps tr) else a1)
            in p\<lparr>pp_au := a2, pp_au_has_idr := True\<rparr>
          else p)
      in p1\<lparr>pp_au := append_annexb (pp_au p1) nal\<rparr>)"

definition take_nalu :: "nat \<Rightarrow> nalu \<Rightarrow> passthrough \<Rightarrow> passthrough" where
  "take_nalu now n p =
     (if nu_data n = [] then p
      else
        let nal0 = hd (nu_data n) in
        if nal_is_sps nal0 \<or> nal_is_pps nal0 then p
        else
          let p1 = (if pp_au_open p \<and> nu_ts n \<noteq> pp_au_ts p then flush_au now p else p);
              p2 = append_unit (rt_track (pp_client p)) (nu_data n) (open_au (nu_ts n) p1)
          in if nu_au_end n then flush_au now p2 else p2)"

text \<open>The mark of the end of the stream: \<open>0x100\<close> after an orderly end or a stop, else \<open>0x200\<close>.\<close>

definition end_marker :: "int \<Rightarrow> bool \<Rightarrow> sample" where
  "end_marker rc stopping = new_sample\<lparr>sm_flags := (if rc = 1 \<or> stopping then 0x100 else 0x200)\<rparr>"

text \<open>One turn of the loop; \<open>stopping\<close> is the stop flag when the read has returned.\<close>

definition worker_turn :: "nat \<Rightarrow> bool \<Rightarrow> passthrough \<Rightarrow> passthrough io" where
  "worker_turn now stopping p =
     (if pp_stop p then Ret (p\<lparr>pp_running := False\<rparr>)
      else io_bind (read_nalu (pp_client p)) (\<lambda>(rc, n, cl).
        let p1 = p\<lparr>pp_client := cl\<rparr> in
        Ret (if rc \<noteq> 0 then p1\<lparr>pp_ready := pp_ready p1 @ [end_marker rc stopping], pp_running := False\<rparr>
             else take_nalu now n p1)))"

text \<open>The turns of the worker at the given times, as long as it runs.\<close>

fun worker_turns :: "nat list \<Rightarrow> passthrough \<Rightarrow> passthrough io" where
  "worker_turns [] p = Ret p"
| "worker_turns (t # ts) p =
     (if \<not> pp_running p then Ret p else io_bind (worker_turn t False p) (worker_turns ts))"

section \<open>The caller's side\<close>

definition passthrough_start :: "rtsp_env \<Rightarrow> rtsp_url \<Rightarrow> bytes + conn \<Rightarrow> passthrough \<Rightarrow> (int \<times> passthrough) io" where
  "passthrough_start env url dial p =
     io_bind (rtsp_start env url dial (pp_client p)) (\<lambda>(rc, cl).
       let p1 = p\<lparr>pp_client := cl\<rparr> in
       Ret (if rc \<noteq> 0 then (-1, p1)
            else (0, p1\<lparr>pp_stop := False, pp_running := True, pp_au := [], pp_au_ts := 0, pp_au_open := False,
                        pp_au_has_idr := False\<rparr>)))"

datatype pull_result = Pull_Ok bytes nat int | Pull_StreamEnd | Pull_WouldBlock | Pull_Error

definition flag_set :: "nat \<Rightarrow> sample \<Rightarrow> bool" where
  "flag_set k s = odd (sm_flags s div 2 ^ k)"

definition try_pull :: "passthrough \<Rightarrow> pull_result \<times> passthrough" where
  "try_pull p =
     (case pp_ready p of
        [] \<Rightarrow> (Pull_WouldBlock, p)
      | s # q \<Rightarrow>
          let p1 = p\<lparr>pp_current := s, pp_ready := q\<rparr> in
          if flag_set 8 s then (Pull_StreamEnd, p1)
          else if flag_set 9 s then (Pull_Error, p1)
          else (Pull_Ok (sm_bytes s) (sm_dt s) (sm_flags s), p1))"

text \<open>\<open>reading\<close>: the worker waits in a read, which the shutdown of the socket ends.\<close>

definition passthrough_stop :: "rtsp_env \<Rightarrow> bool \<Rightarrow> passthrough \<Rightarrow> passthrough" where
  "passthrough_stop env reading p =
     (if pp_stop p then p
      else
        let p1 = p\<lparr>pp_stop := True\<rparr>;
            p2 = (if pp_running p \<and> reading then p1\<lparr>pp_ready := pp_ready p1 @ [end_marker (-1) True]\<rparr> else p1)
        in p2\<lparr>pp_running := False, pp_client := rtsp_stop env (pp_client p2)\<rparr>)"

section \<open>Access units\<close>

text \<open>What a sample must hold: the units of the access unit without in-band parameter sets, with
  those of the session description before each IDR slice.\<close>

definition annexb :: "bytes list \<Rightarrow> bytes" where
  "annexb nals = concat (map (\<lambda>nal. [CHR 0x00, CHR 0x00, CHR 0x00, CHR 0x01] @ nal) nals)"

definition parameter_sets :: "h264_track \<Rightarrow> bytes list" where
  "parameter_sets tr = filter (\<lambda>x. x \<noteq> []) [tr_sps tr, tr_pps tr]"

definition parameter_nal :: "bytes \<Rightarrow> bool" where
  "parameter_nal nal = (nal_is_sps (hd nal) \<or> nal_is_pps (hd nal))"

definition idr_nal :: "bytes \<Rightarrow> bool" where "idr_nal nal = (nal_type (hd nal) = 5)"

definition sample_nals :: "h264_track \<Rightarrow> bytes list \<Rightarrow> bytes list" where
  "sample_nals tr nals = concat (map (\<lambda>nal. if parameter_nal nal then [] else if idr_nal nal then parameter_sets tr @ [nal] else [nal]) nals)"

lemma annexb_append [simp]: "annexb (xs @ ys) = annexb xs @ annexb ys"
  by (simp add: annexb_def)

lemma annexb_Nil [simp]: "annexb [] = []"
  by (simp add: annexb_def)

lemma append_annexb: "append_annexb out nal = out @ annexb [nal]"
  by (simp add: append_annexb_def annexb_def)

lemma annexb_eq_Nil [simp]: "annexb xs = [] \<longleftrightarrow> xs = []"
  by (cases xs) (simp_all add: annexb_def)

lemma annexb_Cons2 [simp]: "annexb (x # y # xs) = annexb [x] @ annexb (y # xs)"
  by (simp add: annexb_def)

text \<open>
  The worker without its bound: the samples produced so far, without their times, and the access
  unit under construction.
\<close>

type_synonym made = "(bytes \<times> int) list \<times> (u32 \<times> bytes list \<times> bool) option"

definition sample_key :: "sample \<Rightarrow> bytes \<times> int" where
  "sample_key s = (sm_bytes s, sm_flags s)"

definition key_of :: "bytes list \<Rightarrow> bool \<Rightarrow> bytes \<times> int" where
  "key_of xs idr = (annexb xs, if idr then kFlagSync else 0)"

definition cut_made :: "u32 \<Rightarrow> made \<Rightarrow> made" where
  "cut_made ts st = (case st of
     (ks, Some (t, xs, idr)) \<Rightarrow> if t = ts then st else (ks @ [key_of xs idr], None)
   | (ks, None) \<Rightarrow> st)"

definition add_made :: "h264_track \<Rightarrow> nalu \<Rightarrow> made \<Rightarrow> made" where
  "add_made tr n st =
     (let (ks, u) = st; (xs, idr) = (case u of None \<Rightarrow> ([], False) | Some (t, xs, idr) \<Rightarrow> (xs, idr));
          xs' = xs @ sample_nals tr [nu_data n]; idr' = (idr \<or> idr_nal (nu_data n)) in
      if nu_au_end n then (ks @ [key_of xs' idr'], None) else (ks, Some (nu_ts n, xs', idr')))"

definition take_made :: "h264_track \<Rightarrow> nalu \<Rightarrow> made \<Rightarrow> made" where
  "take_made tr n st =
     (if nu_data n = [] \<or> parameter_nal (nu_data n) then st else add_made tr n (cut_made (nu_ts n) st))"

text \<open>How the worker's variables hold the access unit under construction.\<close>

definition au_holds :: "(u32 \<times> bytes list \<times> bool) option \<Rightarrow> passthrough \<Rightarrow> bool" where
  "au_holds u p = (case u of
     None \<Rightarrow> pp_au p = [] \<and> \<not> pp_au_open p \<and> \<not> pp_au_has_idr p
   | Some (ts, xs, idr) \<Rightarrow> xs \<noteq> [] \<and> pp_au p = annexb xs \<and> pp_au_ts p = ts \<and> pp_au_open p \<and> pp_au_has_idr p = idr)"

definition push_sample :: "sample \<Rightarrow> sample list \<Rightarrow> sample list" where
  "push_sample s q = make_room q @ [s]"

definition pushed :: "(bytes \<times> int) list \<Rightarrow> passthrough \<Rightarrow> passthrough \<Rightarrow> bool" where
  "pushed ks p p' = (pp_client p' = pp_client p \<and> pp_stop p' = pp_stop p \<and> pp_running p' = pp_running p \<and>
     pp_current p' = pp_current p \<and> (\<exists>ss. map sample_key ss = ks \<and> pp_ready p' = fold push_sample ss (pp_ready p)))"

lemma pushed_trans: "pushed ks p p1 \<Longrightarrow> pushed ks' p1 p2 \<Longrightarrow> pushed (ks @ ks') p p2"
  by (fastforce simp: pushed_def intro: exI [of _ "_ @ _"])

lemma pushed_refl: "pushed [] p p"
  by (simp add: pushed_def)

lemma flush_holds:
  assumes "au_holds (Some (ts, xs, idr)) p"
  shows "au_holds None (flush_au now p)" and "pushed [key_of xs idr] p (flush_au now p)"
  using assms by (simp_all add: au_holds_def flush_au_def)
    (auto simp: pushed_def sample_key_def key_of_def push_sample_def intro!: exI [of _ "[_]"])

lemma add_holds:
  assumes "au_holds u p" and "nal \<noteq> []" and "\<not> parameter_nal nal" and "\<And>t xs idr. u = Some (t, xs, idr) \<Longrightarrow> t = ts"
  defines "xs \<equiv> (case u of None \<Rightarrow> [] | Some (t, xs, idr) \<Rightarrow> xs)" and "idr \<equiv> (case u of None \<Rightarrow> False | Some (t, xs, idr) \<Rightarrow> idr)"
  shows "au_holds (Some (ts, xs @ sample_nals tr [nal], idr \<or> idr_nal nal)) (append_unit tr nal (open_au ts p))"
    and "pushed [] p (append_unit tr nal (open_au ts p))"
proof -
  have "sample_nals tr [nal] \<noteq> []" using assms(3) by (simp add: sample_nals_def)
  moreover have "pp_au (append_unit tr nal (open_au ts p)) = pp_au p @ annexb (sample_nals tr [nal])"
    using assms(3) by (simp add: append_unit_def open_au_def sample_nals_def idr_nal_def parameter_sets_def append_annexb Let_def)
  moreover have "pp_au_has_idr (append_unit tr nal (open_au ts p)) = (pp_au_has_idr p \<or> idr_nal nal)"
    by (simp add: append_unit_def open_au_def idr_nal_def Let_def)
  moreover have "pp_au_open (append_unit tr nal (open_au ts p))" "pp_au_ts (append_unit tr nal (open_au ts p)) = (if pp_au_open p then pp_au_ts p else ts)"
    by (simp_all add: append_unit_def open_au_def Let_def)
  ultimately show "au_holds (Some (ts, xs @ sample_nals tr [nal], idr \<or> idr_nal nal)) (append_unit tr nal (open_au ts p))"
    using assms(1,4) unfolding xs_def idr_def by (auto simp: au_holds_def split: option.splits)
  show "pushed [] p (append_unit tr nal (open_au ts p))"
    by (simp add: pushed_def append_unit_def open_au_def Let_def)
qed

lemma cut_holds:
  assumes "au_holds u p" and "cut_made ts (ks, u) = (ks', u')"
  shows "\<exists>added. ks' = ks @ added \<and> au_holds u' (if pp_au_open p \<and> ts \<noteq> pp_au_ts p then flush_au now p else p) \<and>
    pushed added p (if pp_au_open p \<and> ts \<noteq> pp_au_ts p then flush_au now p else p) \<and>
    (\<forall>t xs idr. u' = Some (t, xs, idr) \<longrightarrow> t = ts)"
proof (cases u)
  case None
  with assms show ?thesis by (auto simp: cut_made_def au_holds_def pushed_refl)
next
  case (Some a)
  obtain t xs idr where a: "a = (t, xs, idr)" by (cases a) auto
  have o: "pp_au_open p" "pp_au_ts p = t" using assms(1) Some a by (simp_all add: au_holds_def)
  show ?thesis
  proof (cases "t = ts")
    case True
    then show ?thesis using assms o Some a by (auto simp: cut_made_def pushed_refl)
  next
    case False
    then have "ks' = ks @ [key_of xs idr]" "u' = None" using assms(2) Some a by (auto simp: cut_made_def)
    then show ?thesis using flush_holds [of t xs idr p now] assms(1) o False Some a by simp
  qed
qed

lemma take_nalu_made:
  assumes "au_holds u p" and "take_made (rt_track (pp_client p)) n (ks, u) = (ks', u')"
  shows "\<exists>added. ks' = ks @ added \<and> au_holds u' (take_nalu now n p) \<and> pushed added p (take_nalu now n p)"
proof (cases "nu_data n = [] \<or> parameter_nal (nu_data n)")
  case True
  then show ?thesis using assms by (auto simp: take_made_def take_nalu_def parameter_nal_def pushed_refl)
next
  case False
  define p1 where "p1 = (if pp_au_open p \<and> nu_ts n \<noteq> pp_au_ts p then flush_au now p else p)"
  define p2 where "p2 = append_unit (rt_track (pp_client p)) (nu_data n) (open_au (nu_ts n) p1)"
  have t: "take_nalu now n p = (if nu_au_end n then flush_au now p2 else p2)"
    using False by (simp add: take_nalu_def parameter_nal_def p1_def p2_def Let_def)
  obtain k1 u1 where c: "cut_made (nu_ts n) (ks, u) = (k1, u1)" by force
  obtain m1 where m1: "k1 = ks @ m1" "au_holds u1 p1" "pushed m1 p p1" "\<And>t xs idr. u1 = Some (t, xs, idr) \<Longrightarrow> t = nu_ts n"
    using cut_holds [OF assms(1) c, of now] unfolding p1_def by blast
  obtain xs idr where u1: "(case u1 of None \<Rightarrow> [] | Some (t, xs, idr) \<Rightarrow> xs) = xs"
    "(case u1 of None \<Rightarrow> False | Some (t, xs, idr) \<Rightarrow> idr) = idr" by blast
  define xs' where "xs' = xs @ sample_nals (rt_track (pp_client p)) [nu_data n]"
  define idr' where "idr' = (idr \<or> idr_nal (nu_data n))"
  have h2: "au_holds (Some (nu_ts n, xs', idr')) p2" "pushed [] p1 p2"
    using add_holds [OF m1(2) _ _ m1(4)] False u1 unfolding p2_def xs'_def idr'_def by auto
  have p02: "pushed m1 p p2" using pushed_trans [OF m1(3) h2(2)] by simp
  have "take_made (rt_track (pp_client p)) n (ks, u) =
      (if nu_au_end n then (k1 @ [key_of xs' idr'], None) else (k1, Some (nu_ts n, xs', idr')))"
    using False c u1 by (cases u1) (auto simp: take_made_def add_made_def xs'_def idr'_def Let_def)
  with assms(2) have r: "(ks', u') = (if nu_au_end n then (k1 @ [key_of xs' idr'], None) else (k1, Some (nu_ts n, xs', idr')))" by simp
  show ?thesis
  proof (cases "nu_au_end n")
    case True
    then show ?thesis
      using r m1(1) flush_holds [OF h2(1), of now] pushed_trans [OF p02 flush_holds(2) [OF h2(1)]] t by auto
  next
    case False
    then show ?thesis using r m1(1) h2(1) p02 t by auto
  qed
qed

section \<open>The newest samples\<close>

definition newest :: "nat \<Rightarrow> 'a list \<Rightarrow> 'a list" where
  "newest k xs = drop (length xs - k) xs"

lemma push_newest: "q = newest kMaxReadyQueue xs \<Longrightarrow> push_sample s q = newest kMaxReadyQueue (xs @ [s])"
proof -
  assume q: "q = newest kMaxReadyQueue xs"
  have "length xs - (length xs - 8 + 7) + (length xs - 8) = length xs - 7" by linarith
  then show ?thesis by (simp add: q push_sample_def make_room_def newest_def kMaxReadyQueue_def)
qed

lemma newest_newest: "newest k (newest k xs @ ys) = newest k (xs @ ys)"
proof (cases "length xs \<le> k")
  case False
  then have "length (newest k xs) = k" "length xs + length ys - k = length ys + (length xs - k)"
    "length ys + (length xs - k) - length xs = length ys - k" by (simp_all add: newest_def)
  then show ?thesis by (simp add: newest_def)
qed (simp add: newest_def)

lemma push_all_newest: "q = newest kMaxReadyQueue xs \<Longrightarrow> fold push_sample ss q = newest kMaxReadyQueue (xs @ ss)"
proof (induction ss arbitrary: q xs)
  case (Cons s ss)
  then show ?case using push_newest [OF Cons.prems, of s] Cons.IH [of "push_sample s q" "xs @ [s]"] by simp
qed simp

lemma map_newest: "map f (newest k xs) = newest k (map f xs)"
  by (simp add: newest_def drop_map)

lemma pushed_newest:
  assumes "pushed added p p'" and "map sample_key (pp_ready p) = newest kMaxReadyQueue ks" and "length (pp_ready p) \<le> kMaxReadyQueue"
  shows "map sample_key (pp_ready p') = newest kMaxReadyQueue (ks @ added)"
proof -
  obtain ss where ss: "map sample_key ss = added" "pp_ready p' = fold push_sample ss (pp_ready p)"
    using assms(1) by (auto simp: pushed_def)
  have "pp_ready p = newest kMaxReadyQueue (pp_ready p)" using assms(3) by (simp add: newest_def)
  from push_all_newest [OF this, of ss] have "pp_ready p' = newest kMaxReadyQueue (pp_ready p @ ss)"
    by (simp only: ss(2))
  then have "map sample_key (pp_ready p') = newest kMaxReadyQueue (newest kMaxReadyQueue ks @ added)"
    by (simp only: map_newest map_append assms(2) ss(1))
  then show ?thesis by (simp only: newest_newest)
qed

end
