(* ===== verification/Camera_Source.thy ===== *)
theory Camera_Source
  imports Rtsp_Passthrough Lan_Tls
begin

text \<open>
  The camera source library of \<open>src/stubs/BambuSource.cpp\<close>: the URLs, the tunnel, its JPEG stream
  on port 6000, the H.264 stream behind it, and the control channel with its worker thread. Each
  exported function is a function of the tunnel; a dial of the network is its outcome, given as
  an argument. \<open>ct_error\<close> is the last error text of the caller's thread.
\<close>

section \<open>URLs\<close>

datatype cam_scheme = Scheme_local | Scheme_rtsps | Scheme_rtsp

record camera_url =
  cu_scheme :: cam_scheme
  cu_host :: bytes
  cu_port :: int
  cu_user :: bytes
  cu_passwd :: bytes
  cu_device :: bytes
  cu_cli_id :: bytes
  cu_cli_ver :: bytes
  cu_net_ver :: bytes
  cu_path :: bytes

definition new_camera_url :: camera_url where
  "new_camera_url =
     \<lparr>cu_scheme = Scheme_local, cu_host = [], cu_port = 6000, cu_user = ''bblp'', cu_passwd = [], cu_device = [],
      cu_cli_id = [], cu_cli_ver = [], cu_net_ver = [], cu_path = ''/streaming/live/1''\<rparr>"

definition plus_blank :: "char \<Rightarrow> char" where
  "plus_blank c = (if c = CHR ''+'' then BLANK else c)"

fun url_decode :: "bytes \<Rightarrow> bytes" where
  "url_decode (c # h # l # s) =
     (if c = CHR ''%'' then
        (case (hex_val h, hex_val l) of
           (Some a, Some b) \<Rightarrow> char_of (16 * a + b) # url_decode s
         | _ \<Rightarrow> plus_blank c # url_decode (h # l # s))
      else plus_blank c # url_decode (h # l # s))"
| "url_decode (c # s) = plus_blank c # url_decode s"
| "url_decode [] = []"

text \<open>The prefix decides on the scheme and the default port.\<close>

definition url_scheme :: "bytes \<Rightarrow> cam_scheme \<times> int \<times> bytes" where
  "url_scheme url =
     (if starts_with ''bambu:///local/'' url then (Scheme_local, 6000, drop 15 url)
      else if starts_with ''bambu:///rtsps___'' url then (Scheme_rtsps, 322, drop 17 url)
      else if starts_with ''bambu:///rtsp___'' url then (Scheme_rtsp, 554, drop 16 url)
      else (Scheme_local, 6000, url))"

definition take_userinfo :: "bytes \<Rightarrow> camera_url \<Rightarrow> camera_url" where
  "take_userinfo info u =
     (case find_char (CHR '':'') info of
        Some col \<Rightarrow> u\<lparr>cu_user := url_decode (take col info), cu_passwd := url_decode (drop (col + 1) info)\<rparr>
      | None \<Rightarrow> u\<lparr>cu_user := url_decode info\<rparr>)"

text \<open>The part before the query without user and path, or without trailing dots and slashes.\<close>

definition split_host :: "bytes \<Rightarrow> camera_url \<Rightarrow> bytes \<times> camera_url" where
  "split_host host_part u =
     (if cu_scheme u = Scheme_local then (rtrim_by (\<lambda>c. c = SLASH \<or> c = CHR ''.'') host_part, u)
      else
        let (h1, u1) = (case find_char (CHR ''@'') host_part of
              Some i \<Rightarrow> (drop (i + 1) host_part, take_userinfo (take i host_part) u)
            | None \<Rightarrow> (host_part, u))
        in case find_char SLASH h1 of
             Some slash \<Rightarrow> (take slash h1, u1\<lparr>cu_path := drop slash h1\<rparr>)
           | None \<Rightarrow> (h1, u1))"

definition take_host :: "bytes \<Rightarrow> camera_url \<Rightarrow> camera_url option" where
  "take_host host_part u =
     (case find_char (CHR '':'') host_part of
        None \<Rightarrow> Some (u\<lparr>cu_host := host_part\<rparr>)
      | Some colon \<Rightarrow>
          (case stoi (drop (colon + 1) host_part) of
             None \<Rightarrow> None
           | Some p \<Rightarrow> Some (u\<lparr>cu_host := take colon host_part, cu_port := p\<rparr>)))"

definition set_camera_key :: "bytes \<Rightarrow> bytes \<Rightarrow> camera_url \<Rightarrow> camera_url" where
  "set_camera_key key val u =
     (if key = ''port'' then (case stoi val of Some p \<Rightarrow> u\<lparr>cu_port := p\<rparr> | None \<Rightarrow> u)
      else if key = ''user'' then u\<lparr>cu_user := val\<rparr>
      else if key = ''passwd'' then u\<lparr>cu_passwd := val\<rparr>
      else if key = ''device'' then u\<lparr>cu_device := val\<rparr>
      else if key = ''cli_id'' then u\<lparr>cu_cli_id := val\<rparr>
      else if key = ''cli_ver'' then u\<lparr>cu_cli_ver := val\<rparr>
      else if key = ''net_ver'' then u\<lparr>cu_net_ver := val\<rparr>
      else u)"

definition take_camera_pair :: "bytes \<Rightarrow> camera_url \<Rightarrow> camera_url" where
  "take_camera_pair kv u =
     (case find_char (CHR ''='') kv of
        None \<Rightarrow> set_camera_key kv [] u
      | Some eq \<Rightarrow> set_camera_key (take eq kv) (url_decode (drop (eq + 1) kv)) u)"

function read_camera_query :: "bytes \<Rightarrow> camera_url \<Rightarrow> camera_url" where
  "read_camera_query query u =
     (if query = [] then u
      else case find_char (CHR ''&'') query of
        None \<Rightarrow> take_camera_pair query u
      | Some amp \<Rightarrow> read_camera_query (drop (amp + 1) query) (take_camera_pair (take amp query) u))"
  by pat_completeness auto
termination
  by (relation "measure (\<lambda>(query, u). length query)") (auto dest: find_char_length)

declare read_camera_query.simps [simp del]

definition parse_url :: "bytes \<Rightarrow> camera_url option" where
  "parse_url url =
     (let (scheme, port, rest) = url_scheme url;
          (host_part, query) = (case find_char (CHR ''?'') rest of
              None \<Rightarrow> (rest, []) | Some q \<Rightarrow> (take q rest, drop (q + 1) rest));
          (h, u) = split_host host_part (new_camera_url\<lparr>cu_scheme := scheme, cu_port := port\<rparr>)
      in case take_host h u of
           None \<Rightarrow> None
         | Some u1 \<Rightarrow>
             let u2 = read_camera_query query u1 in
             if cu_host u2 \<noteq> [] \<and> 0 < cu_port u2 then Some u2 else None)"

section \<open>Tunnels\<close>

definition Bambu_success :: int where "Bambu_success = 0"
definition Bambu_stream_end :: int where "Bambu_stream_end = 1"
definition Bambu_would_block :: int where "Bambu_would_block = 2"

definition VIDE :: int where "VIDE = 0"
definition AVC1 :: int where "AVC1 = 0"
definition MJPG :: int where "MJPG = 1"
definition video_avc_byte_stream :: int where "video_avc_byte_stream = 1"
definition video_jpeg :: int where "video_jpeg = 2"

definition kMaxFrameSize :: nat where "kMaxFrameSize = 2 ^ 20"
definition kCtrlType :: int where "kCtrlType = 0x3001"
definition kResContinue :: int where "kResContinue = 1"

text \<open>\<open>ct_link\<close> is the TLS session with its socket; \<open>ct_worker\<close> says whether the control
  thread runs.\<close>

record camera_tunnel =
  ct_url :: camera_url
  ct_link :: "conn option"
  ct_pass :: "passthrough option"
  ct_sub_type :: int
  ct_width :: int
  ct_height :: int
  ct_frame_rate :: int
  ct_started :: bool
  ct_closing :: bool
  ct_frames :: "64 word"
  ct_authed :: bool
  ct_ctrl_mode :: bool
  ct_session :: "session option"
  ct_in :: "bytes list"
  ct_out :: "bytes list"
  ct_ctrl_stop :: bool
  ct_worker :: bool
  ct_error :: bytes

definition new_camera_tunnel :: "camera_url \<Rightarrow> camera_tunnel" where
  "new_camera_tunnel u =
     \<lparr>ct_url = u, ct_link = None, ct_pass = None, ct_sub_type = MJPG, ct_width = 1280, ct_height = 720,
      ct_frame_rate = 15, ct_started = False, ct_closing = False, ct_frames = 0, ct_authed = False,
      ct_ctrl_mode = False, ct_session = None, ct_in = [], ct_out = [], ct_ctrl_stop = False,
      ct_worker = False, ct_error = []\<rparr>"

definition ct_fail :: "bytes \<Rightarrow> camera_tunnel \<Rightarrow> camera_tunnel" where
  "ct_fail e t = t\<lparr>ct_error := e\<rparr>"

text \<open>\<open>ssl_read_all\<close>: a closing tunnel reads nothing. A close during the read is an error in the script.\<close>

definition ssl_read_all :: "nat \<Rightarrow> camera_tunnel \<Rightarrow> (int \<times> bytes \<times> camera_tunnel) io" where
  "ssl_read_all len t =
     (if len = 0 then Ret (0, [], t)
      else if ct_closing t then Ret (-1, [], t)
      else case ct_link t of
        None \<Rightarrow> Ret (-1, [], t)
      | Some c \<Rightarrow> io_bind (read_full len c) (\<lambda>(rc, bs, c'). Ret (rc, bs, t\<lparr>ct_link := Some c'\<rparr>)))"

text \<open>The TLS session and the passthrough are stopped and freed.\<close>

definition tunnel_close :: "camera_tunnel \<Rightarrow> camera_tunnel" where
  "tunnel_close t = t\<lparr>ct_closing := True, ct_link := None, ct_pass := None\<rparr>"

section \<open>The H.264 stream\<close>

definition rtsp_url_of :: "camera_url \<Rightarrow> rtsp_url" where
  "rtsp_url_of u =
     \<lparr>ru_host = cu_host u, ru_port = cu_port u, ru_user = cu_user u, ru_passwd = cu_passwd u,
      ru_path = cu_path u, ru_device = cu_device u, ru_tls = (cu_scheme u = Scheme_rtsps)\<rparr>"

definition open_rtsp :: "rtsp_env \<Rightarrow> bytes + conn \<Rightarrow> camera_tunnel \<Rightarrow> (int \<times> camera_tunnel) io" where
  "open_rtsp env dial t =
     io_bind (passthrough_start env (rtsp_url_of (ct_url t)) dial new_passthrough) (\<lambda>(rc, p).
       Ret (if rc \<noteq> 0 then (-1, ct_fail (rt_error (pp_client p)) t)
            else (Bambu_success, t\<lparr>ct_pass := Some p, ct_sub_type := AVC1, ct_width := 1280, ct_height := 720,
                                  ct_frame_rate := 30, ct_started := True\<rparr>)))"

record bambu_sample =
  bs_itrack :: int
  bs_size :: int
  bs_flags :: int
  bs_buffer :: bytes
  bs_time :: nat

text \<open>\<open>static_cast<int>\<close> of a size.\<close>

definition int_of_size :: "nat \<Rightarrow> int" where
  "int_of_size n = sint (word_of_nat n :: u32)"

definition read_rtsp :: "camera_tunnel \<Rightarrow> int \<times> bambu_sample option \<times> camera_tunnel" where
  "read_rtsp t =
     (case ct_pass t of
        None \<Rightarrow> (-1, None, t)
      | Some p \<Rightarrow>
          let (r, p') = try_pull p; t' = t\<lparr>ct_pass := Some p'\<rparr> in
          case r of
            Pull_WouldBlock \<Rightarrow> (Bambu_would_block, None, t')
          | Pull_StreamEnd \<Rightarrow> (Bambu_stream_end, None, t')
          | Pull_Error \<Rightarrow> (-1, None, t')
          | Pull_Ok b dt fl \<Rightarrow>
              (Bambu_success,
               Some \<lparr>bs_itrack = 0, bs_size = int_of_size (length b), bs_flags = fl, bs_buffer = b, bs_time = dt\<rparr>, t'))"

section \<open>The JPEG stream\<close>

definition nul_padded :: "nat \<Rightarrow> bytes \<Rightarrow> bytes" where
  "nul_padded n s = take n s @ replicate (n - length s) (CHR 0x00)"

definition build_auth_packet :: "camera_url \<Rightarrow> bytes" where
  "build_auth_packet u =
     write_u32_le 0x40 @ write_u32_le 0x3000 @ write_u32_le 0 @ write_u32_le 0 @
     nul_padded 32 (cu_user u) @ nul_padded 32 (cu_passwd u)"

definition jpeg_magic :: "bytes \<Rightarrow> bool" where
  "jpeg_magic s =
     (4 \<le> length s \<and> s ! 0 = CHR 0xFF \<and> s ! 1 = CHR 0xD8 \<and> s ! (length s - 2) = CHR 0xFF \<and> s ! (length s - 1) = CHR 0xD9)"

text \<open>\<open>now\<close> is the time since the tunnel was opened in nanoseconds.\<close>

definition read_jpeg :: "nat \<Rightarrow> camera_tunnel \<Rightarrow> (int \<times> bambu_sample option \<times> camera_tunnel) io" where
  "read_jpeg now t =
     (if ct_link t = None then Ret (-1, None, t)
      else io_bind (ssl_read_all 16 t) (\<lambda>(rc, hdr, t1).
        if rc < 0 then Ret (-1, None, ct_fail ''header read failed'' t1)
        else if rc > 0 then Ret (Bambu_stream_end, None, t1)
        else
          let payload_size = read_u32_le hdr; itrack = read_u32_le (drop 4 hdr); flags = read_u32_le (drop 8 hdr) in
          if payload_size = 0 \<or> kMaxFrameSize < unat payload_size then
            Ret (-1, None, ct_fail ''bogus payload size'' t1)
          else io_bind (ssl_read_all (unat payload_size) t1) (\<lambda>(rc2, buf, t2).
            if rc2 < 0 then Ret (-1, None, ct_fail ''payload read failed'' t2)
            else if rc2 > 0 then Ret (Bambu_stream_end, None, t2)
            else if \<not> jpeg_magic buf then Ret (-1, None, ct_fail ''JPEG magic mismatch'' t2)
            else Ret (Bambu_success,
                Some \<lparr>bs_itrack = sint itrack, bs_size = sint payload_size, bs_flags = sint flags, bs_buffer = buf,
                      bs_time = now div 100\<rparr>,
                t2\<lparr>ct_frames := ct_frames t2 + 1\<rparr>))))"

section \<open>The control channel\<close>

definition ctrl_config :: "camera_url \<Rightarrow> config" where
  "ctrl_config u =
     \<lparr>username = cu_user u, access_code = cu_passwd u, client_id = cu_cli_id u,
      client_ver = (if cu_cli_ver u \<noteq> [] then cu_cli_ver u else if cu_net_ver u \<noteq> [] then cu_net_ver u else [])\<rparr>"

text \<open>\<open>seed\<close> is the random start of the sequence numbers.\<close>

definition start_native_ctrl_handshake :: "u32 \<Rightarrow> camera_tunnel \<Rightarrow> (int \<times> camera_tunnel) io" where
  "start_native_ctrl_handshake seed t =
     (case ct_link t of
        None \<Rightarrow> Ret (-1, ct_fail ''CTRL: TLS session not open'' t)
      | Some c \<Rightarrow>
          let s = (case ct_session t of Some s \<Rightarrow> s | None \<Rightarrow> new_session seed) in
          (case handshake_step (ctrl_config (ct_url t)) s c of
             None \<Rightarrow> Overran
           | Some (hs, s', c') \<Rightarrow>
               let t1 = t\<lparr>ct_link := Some c', ct_session := Some s'\<rparr> in
               Ret (if hs < 0 then (-1, ct_fail ''BambuTunnelLocal handshake failed'' (t1\<lparr>ct_session := None\<rparr>))
                    else if hs > 0 then (Bambu_would_block, t1)
                    else if ct_ctrl_mode t1 then (Bambu_success, t1)
                    else (Bambu_success, t1\<lparr>ct_ctrl_mode := True, ct_ctrl_stop := False, ct_worker := True\<rparr>))))"

text \<open>The replies to one request: up to the first that does not say there are more.\<close>

function ctrl_replies :: "session \<Rightarrow> conn \<Rightarrow> (bytes list \<times> session \<times> conn) io" where
  "ctrl_replies s c =
     (case recv_payload s c of
        None \<Rightarrow> Overran
      | Some (rc, wire, s', c') \<Rightarrow>
          if rc \<noteq> 0 then Ret ([], s', c')
          else if parse_wire_result wire \<noteq> kResContinue then Ret ([wire], s', c')
          else io_bind (ctrl_replies s' c') (\<lambda>(ws, s2, c2). Ret (wire # ws, s2, c2)))"
  by pat_completeness auto
termination
  by (relation "measure (\<lambda>(s, c). pending s c)") (auto dest: recv_payload_pending)

declare ctrl_replies.simps [simp del]

text \<open>One turn of the control thread.\<close>

definition ctrl_turn :: "camera_tunnel \<Rightarrow> camera_tunnel io" where
  "ctrl_turn t =
     (if ct_ctrl_stop t then Ret (t\<lparr>ct_worker := False\<rparr>)
      else case ct_in t of
        [] \<Rightarrow> Ret t
      | body # rest \<Rightarrow>
          let t1 = t\<lparr>ct_in := rest\<rparr> in
          (case (ct_link t1, ct_session t1) of
             (Some c, Some s) \<Rightarrow>
               (case send_abi_json body s c of (rc, s1, c1) \<Rightarrow>
                  if rc \<noteq> 0 then Ret (t1\<lparr>ct_link := Some c1, ct_session := Some s1\<rparr>)
                  else io_bind (ctrl_replies s1 c1) (\<lambda>(ws, s2, c2).
                    Ret (t1\<lparr>ct_link := Some c2, ct_session := Some s2, ct_out := ct_out t1 @ ws\<rparr>)))
           | _ \<Rightarrow> Ret t1))"

definition stop_ctrl_mode :: "camera_tunnel \<Rightarrow> camera_tunnel" where
  "stop_ctrl_mode t =
     (if \<not> ct_ctrl_mode t then t
      else t\<lparr>ct_ctrl_stop := True, ct_worker := False, ct_session := None, ct_ctrl_mode := False\<rparr>)"

section \<open>The exported functions\<close>

text \<open>\<open>ok\<close>: whether the state file of the registry can be written.\<close>

definition bambu_create :: "bool \<Rightarrow> bytes option \<Rightarrow> process \<Rightarrow> int \<times> bytes \<times> camera_tunnel option \<times> process" where
  "bambu_create ok path pr =
     (case path of
        None \<Rightarrow> (-1, [], None, pr)
      | Some url \<Rightarrow>
          (case parse_url url of
             None \<Rightarrow> (-1, ''bad URL'', None, pr)
           | Some u \<Rightarrow>
               (Bambu_success, [], Some (new_camera_tunnel u),
                if cu_device u \<noteq> [] \<and> cu_host u \<noteq> [] then registry_put_ip_serial (cu_host u) (cu_device u) ok pr else pr)))"

definition bambu_open :: "rtsp_env \<Rightarrow> bytes + conn \<Rightarrow> camera_tunnel \<Rightarrow> (int \<times> camera_tunnel) io" where
  "bambu_open env dial t =
     (if cu_scheme (ct_url t) \<noteq> Scheme_local then open_rtsp env dial t
      else case dial of
        Inl e \<Rightarrow> Ret (-1, ct_fail e t)
      | Inr c \<Rightarrow> Ret (Bambu_success, t\<lparr>ct_link := Some c, ct_started := True\<rparr>))"

definition stream_ready :: "camera_tunnel \<Rightarrow> bool" where
  "stream_ready t = (if cu_scheme (ct_url t) = Scheme_local then ct_link t \<noteq> None else ct_pass t \<noteq> None)"

definition bambu_start_stream :: "camera_tunnel \<Rightarrow> int \<times> camera_tunnel" where
  "bambu_start_stream t =
     (if \<not> stream_ready t then (-1, t)
      else case ct_link t of
        Some c \<Rightarrow>
          if cu_scheme (ct_url t) = Scheme_local \<and> \<not> ct_ctrl_mode t \<and> \<not> ct_authed t then
            let (ok, c') = ssl_write_all (build_auth_packet (ct_url t)) c; t1 = t\<lparr>ct_link := Some c'\<rparr> in
            if \<not> ok then (-1, ct_fail ''MJPEG auth write failed'' t1) else (Bambu_success, t1\<lparr>ct_authed := True\<rparr>)
          else (Bambu_success, t)
      | None \<Rightarrow> (Bambu_success, t))"

definition bambu_start_stream_ex :: "u32 \<Rightarrow> int \<Rightarrow> camera_tunnel \<Rightarrow> (int \<times> camera_tunnel) io" where
  "bambu_start_stream_ex seed type t =
     (if type = kCtrlType then start_native_ctrl_handshake seed t else Ret (bambu_start_stream t))"

definition bambu_get_stream_count :: "camera_tunnel \<Rightarrow> int" where
  "bambu_get_stream_count t = (if stream_ready t then 1 else 0)"

record stream_info =
  si_type :: int
  si_sub_type :: int
  si_width :: int
  si_height :: int
  si_frame_rate :: int
  si_format_type :: int
  si_format_size :: int
  si_max_frame_size :: int

definition bambu_get_stream_info :: "int \<Rightarrow> camera_tunnel \<Rightarrow> int \<times> stream_info option" where
  "bambu_get_stream_info index t =
     (if index \<noteq> 0 then (-1, None)
      else (Bambu_success,
        Some \<lparr>si_type = VIDE, si_sub_type = ct_sub_type t, si_width = ct_width t, si_height = ct_height t,
              si_frame_rate = ct_frame_rate t,
              si_format_type = (if ct_sub_type t = MJPG then video_jpeg else video_avc_byte_stream),
              si_format_size = 0, si_max_frame_size = int kMaxFrameSize\<rparr>))"

definition bambu_read_sample :: "nat \<Rightarrow> camera_tunnel \<Rightarrow> (int \<times> bambu_sample option \<times> camera_tunnel) io" where
  "bambu_read_sample now t =
     (if ct_ctrl_mode t then
        (case ct_out t of
           [] \<Rightarrow> Ret (Bambu_would_block, None, t)
         | r # rest \<Rightarrow>
             Ret (Bambu_success,
               Some \<lparr>bs_itrack = 0, bs_size = int_of_size (length r), bs_flags = 0, bs_buffer = r, bs_time = 0\<rparr>,
               t\<lparr>ct_out := rest\<rparr>))
      else if cu_scheme (ct_url t) \<noteq> Scheme_local then Ret (read_rtsp t)
      else read_jpeg now t)"

text \<open>\<open>None\<close> is a null pointer; the length is that of the data.\<close>

definition bambu_send_message :: "int \<Rightarrow> bytes option \<Rightarrow> camera_tunnel \<Rightarrow> int \<times> camera_tunnel" where
  "bambu_send_message ctrl data t =
     (case data of
        None \<Rightarrow> (-1, t)
      | Some body \<Rightarrow>
          if body = [] then (-1, t)
          else if ctrl \<noteq> kCtrlType then (Bambu_success, t)
          else if \<not> ct_ctrl_mode t then (-1, ct_fail ''CTRL channel not ready'' t)
          else (Bambu_success, t\<lparr>ct_in := ct_in t @ [body]\<rparr>))"

definition bambu_close :: "camera_tunnel \<Rightarrow> camera_tunnel" where
  "bambu_close t = tunnel_close (stop_ctrl_mode t)"

end
