(* ===== verification/File_Transfer.thy ===== *)
theory File_Transfer
  imports Tunnel_Connection Http
begin

text \<open>
  The file transfer interface of \<open>src/abi_ft.cpp\<close>: the LAN URL, tunnels and jobs with their
  reference counts, and the jobs that run on a tunnel. A callback is its user pointer; what the
  callbacks are called with is a list of events, each with whether the tunnel's mutex is held.
\<close>

section \<open>LAN URLs\<close>

definition FT_EINVAL :: int where "FT_EINVAL = -1"
definition FT_EIO :: int where "FT_EIO = -3"
definition FT_ETIMEOUT :: int where "FT_ETIMEOUT = -4"
definition FT_ECANCELLED :: int where "FT_ECANCELLED = -5"

definition kUnsupportedMsg :: bytes where
  "kUnsupportedMsg =
     ''FileTransfer for this URL is not supported (non-LAN / cloud TUTK). '' @
     ''Studio will fall back to FTP (see README)''"

definition kCmdTypeDownload :: int where "kCmdTypeDownload = 4"
definition kCmdTypeUpload :: int where "kCmdTypeUpload = 5"
definition kCmdTypeMediaAbility :: int where "kCmdTypeMediaAbility = 7"

record lan_url =
  lu_ip :: bytes
  lu_port :: int
  lu_user :: bytes
  lu_password :: bytes
  lu_device :: bytes
  lu_cli_id :: bytes
  lu_cli_ver :: bytes
  lu_net_ver :: bytes

definition new_lan_url :: lan_url where
  "new_lan_url =
     \<lparr>lu_ip = [], lu_port = 6000, lu_user = ''bblp'', lu_password = [], lu_device = [],
      lu_cli_id = [], lu_cli_ver = [], lu_net_ver = []\<rparr>"

fun percent_decode :: "bytes \<Rightarrow> bytes" where
  "percent_decode (c # h # l # s) =
     (if c = CHR ''%'' then
        (case (hex_val h, hex_val l) of
           (Some hi, Some lo) \<Rightarrow> char_of (16 * hi + lo) # percent_decode s
         | _ \<Rightarrow> c # percent_decode (h # l # s))
      else c # percent_decode (h # l # s))"
| "percent_decode s = s"

definition set_lan_key :: "bytes \<Rightarrow> bytes \<Rightarrow> lan_url \<Rightarrow> lan_url" where
  "set_lan_key key val u =
     (if key = ''port'' then (case stoi val of Some p \<Rightarrow> u\<lparr>lu_port := p\<rparr> | None \<Rightarrow> u)
      else if key = ''user'' then u\<lparr>lu_user := val\<rparr>
      else if key = ''passwd'' then u\<lparr>lu_password := val\<rparr>
      else if key = ''device'' then u\<lparr>lu_device := val\<rparr>
      else if key = ''cli_id'' then u\<lparr>lu_cli_id := val\<rparr>
      else if key = ''cli_ver'' then u\<lparr>lu_cli_ver := val\<rparr>
      else if key = ''net_ver'' then u\<lparr>lu_net_ver := val\<rparr>
      else u)"

definition read_pair :: "bytes \<Rightarrow> lan_url \<Rightarrow> lan_url" where
  "read_pair kv u =
     (case find_char (CHR ''='') kv of
        None \<Rightarrow> u
      | Some eq \<Rightarrow> set_lan_key (take eq kv) (percent_decode (drop (eq + 1) kv)) u)"

text \<open>The loop over the query, on what is left of it.\<close>

function read_query :: "bytes \<Rightarrow> lan_url \<Rightarrow> lan_url" where
  "read_query query u =
     (if query = [] then u
      else case find_char (CHR ''&'') query of
        None \<Rightarrow> read_pair query u
      | Some amp \<Rightarrow> read_query (drop (amp + 1) query) (read_pair (take amp query) u))"
  by pat_completeness auto
termination
  by (relation "measure (\<lambda>(query, u). length query)") (auto dest: find_char_length)

declare read_query.simps [simp del]

definition kLanPrefix :: bytes where "kLanPrefix = ''bambu:///local/''"

definition pop_dot :: "bytes \<Rightarrow> bytes" where
  "pop_dot s = (if s \<noteq> [] \<and> last s = CHR ''.'' then butlast s else s)"

definition parse_lan_url :: "bytes option \<Rightarrow> lan_url \<Rightarrow> bool \<times> lan_url" where
  "parse_lan_url raw out =
     (case raw of
        None \<Rightarrow> (False, out)
      | Some s0 \<Rightarrow>
          if \<not> starts_with kLanPrefix s0 then (False, out)
          else
            let s = drop (length kLanPrefix) s0;
                (host_part, query) =
                  (case find_char (CHR ''?'') s of
                     None \<Rightarrow> (s, [])
                   | Some q \<Rightarrow> (pop_dot (take q s), drop (q + 1) s));
                out1 = out\<lparr>lu_ip := host_part\<rparr>
            in if host_part = [] then (False, out1) else (True, read_query query out1))"

definition ft_connect_params :: "lan_url \<Rightarrow> connect_params" where
  "ft_connect_params lan =
     \<lparr>cp_dev_ip = lu_ip lan, cp_dev_id = lu_device lan, cp_port = lu_port lan,
      cp_username = lu_user lan, cp_password = lu_password lan, cp_client_id = lu_cli_id lan,
      cp_client_ver =
        (if lu_cli_ver lan \<noteq> [] then lu_cli_ver lan
         else if lu_net_ver lan \<noteq> [] then lu_net_ver lan else [])\<rparr>"

section \<open>Tunnels and jobs\<close>

type_synonym user_ptr = nat

record ft_result =
  fr_ec :: int
  fr_resp_ec :: int
  fr_json :: "bytes option"
  fr_bin :: "bytes option"
  fr_bin_size :: u32

datatype ft_event =
    Connect_cb user_ptr int int bytes
  | Status_cb user_ptr int int int bytes
  | Result_cb user_ptr ft_result
  | Message_cb user_ptr int bytes

type_synonym ft_log = "(bool \<times> ft_event) list"

text \<open>\<open>ft_tries\<close> counts the connects of the tunnel; it picks the network's answer.\<close>

record ft_tunnel =
  ft_conn_cb :: "user_ptr option"
  ft_status_cb :: "user_ptr option"
  ft_shut_down :: bool
  ft_is_lan :: bool
  ft_lan :: lan_url
  ft_conn :: "connection option"
  ft_ability_cache :: bytes
  ft_ability_probed :: bool
  ft_tries :: nat

record ft_job =
  fj_result_cb :: "user_ptr option"
  fj_msg_cb :: "user_ptr option"
  fj_cancelled :: bool
  fj_finished :: bool
  fj_res_ec :: int
  fj_resp_ec :: int
  fj_res_json :: bytes
  fj_res_bin :: bytes
  fj_cmd_type :: int
  fj_dest_storage :: bytes
  fj_dest_name :: bytes
  fj_file_path :: bytes
  fj_download_path :: bytes
  fj_target_path :: bytes
  fj_is_mem_file :: bool
  fj_raw_params :: bytes

definition new_ft_tunnel :: ft_tunnel where
  "new_ft_tunnel =
     \<lparr>ft_conn_cb = None, ft_status_cb = None, ft_shut_down = False, ft_is_lan = False,
      ft_lan = new_lan_url, ft_conn = None, ft_ability_cache = [], ft_ability_probed = False, ft_tries = 0\<rparr>"

definition new_ft_job :: ft_job where
  "new_ft_job =
     \<lparr>fj_result_cb = None, fj_msg_cb = None, fj_cancelled = False, fj_finished = False,
      fj_res_ec = 0, fj_resp_ec = 0, fj_res_json = [], fj_res_bin = [], fj_cmd_type = 0,
      fj_dest_storage = [], fj_dest_name = [], fj_file_path = [], fj_download_path = [],
      fj_target_path = [], fj_is_mem_file = False, fj_raw_params = []\<rparr>"

definition ft_tunnel_of :: "bytes option \<Rightarrow> ft_tunnel" where
  "ft_tunnel_of url = (let (lan, u) = parse_lan_url url new_lan_url in new_ft_tunnel\<lparr>ft_is_lan := lan, ft_lan := u\<rparr>)"

definition ft_job_of :: "bytes option \<Rightarrow> ft_job" where
  "ft_job_of params =
     (case params of
        None \<Rightarrow> new_ft_job
      | Some raw \<Rightarrow>
          (case parse_opt raw of
             None \<Rightarrow> new_ft_job\<lparr>fj_raw_params := raw\<rparr>
           | Some doc \<Rightarrow> new_ft_job\<lparr>fj_raw_params := raw,
               fj_cmd_type := narrow_i32 (as_int 0 (jfind doc ''cmd_type'')),
               fj_dest_storage := as_string (jfind doc ''dest_storage''),
               fj_dest_name := as_string (jfind doc ''dest_name''),
               fj_file_path := as_string (jfind doc ''file_path''),
               fj_download_path := as_string (jfind doc ''path''),
               fj_target_path := as_string (jfind doc ''target_path''),
               fj_is_mem_file := as_bool False (jfind doc ''is_mem_file'')\<rparr>))"

section \<open>Delivering\<close>

text \<open>The result callback gets a pointer to the text even when it is empty.\<close>

definition deliver_result :: "bool \<Rightarrow> int \<Rightarrow> int \<Rightarrow> bytes \<Rightarrow> bytes \<Rightarrow> ft_job \<Rightarrow> ft_job \<times> ft_log" where
  "deliver_result held ec resp_ec json_body bin j =
     (j\<lparr>fj_finished := True, fj_res_ec := ec, fj_resp_ec := resp_ec, fj_res_json := json_body, fj_res_bin := bin\<rparr>,
      case fj_result_cb j of
        None \<Rightarrow> []
      | Some user \<Rightarrow>
          [(held, Result_cb user
              \<lparr>fr_ec = ec, fr_resp_ec = resp_ec, fr_json = Some json_body,
               fr_bin = (if bin = [] then None else Some bin),
               fr_bin_size = (if bin = [] then 0 else word_of_nat (length bin))\<rparr>)])"

definition clamp_progress :: "rat \<Rightarrow> rat" where
  "clamp_progress percent =
     (let p = (if percent = 99 then 98 else percent); q = (if p < 0 then 0 else p)
      in if 100 < q then 100 else q)"

definition progress_text :: "rat \<Rightarrow> bytes" where
  "progress_text p = ''{'' @ [QUOTE] @ ''progress'' @ [QUOTE] @ '':'' @ fmt_g17 p @ ''}''"

definition deliver_progress :: "bool \<Rightarrow> ft_job \<Rightarrow> rat \<Rightarrow> ft_log" where
  "deliver_progress held j percent =
     (case fj_msg_cb j of
        None \<Rightarrow> []
      | Some user \<Rightarrow> [(held, Message_cb user 0 (progress_text (clamp_progress percent)))])"

definition progress_events :: "ft_job \<Rightarrow> int list \<Rightarrow> ft_log" where
  "progress_events j ps = concat (map (\<lambda>p. deliver_progress True j (of_int p)) ps)"

section \<open>Running jobs\<close>

text \<open>
  What surrounds a job: the random client id, first sequence number and dial outcome of the
  n-th connect, the files, the digest, the checks of \<open>cancelled\<close> that find it set from outside,
  and the version string of the build.
\<close>

record ft_env =
  fe_attempt :: "nat \<Rightarrow> bytes \<times> u32 \<times> (bytes + conn)"
  fe_files :: "bytes \<Rightarrow> bytes option"
  fe_md5 :: "bytes \<Rightarrow> bytes"
  fe_cancels :: "nat \<Rightarrow> bool"
  fe_version :: bytes

definition connect_lan_tunnel :: "ft_env \<Rightarrow> ft_tunnel \<Rightarrow> (bytes \<times> ft_tunnel) io" where
  "connect_lan_tunnel env t =
     (let k = (case ft_conn t of None \<Rightarrow> new_connection | Some k \<Rightarrow> k) in
      if is_connected k then Ret ([], t\<lparr>ft_conn := Some k\<rparr>)
      else
        let (uuid, seed, dial) = fe_attempt env (ft_tries t) in
        io_bind (connect (session_cfg uuid (fe_version env) (ft_connect_params (ft_lan t))) seed dial k) (\<lambda>(rc, err, k').
          let t' = t\<lparr>ft_conn := Some k', ft_tries := ft_tries t + 1\<rparr> in
          if rc \<noteq> 0 then Ret (if err = [] then ''connect failed'' else err, t')
          else Ret ([], t')))"

text \<open>An operation of the connection that \<open>connect_lan_tunnel\<close> left open.\<close>

definition on_conn :: "(connection \<Rightarrow> ('a \<times> connection) io) \<Rightarrow> ft_tunnel \<Rightarrow> ('a \<times> ft_tunnel) io" where
  "on_conn f t =
     io_bind (f (case ft_conn t of None \<Rightarrow> new_connection | Some k \<Rightarrow> k)) (\<lambda>(r, k'). Ret (r, t\<lparr>ft_conn := Some k'\<rparr>))"

definition run_ability_job :: "ft_env \<Rightarrow> ft_tunnel \<Rightarrow> ft_job \<Rightarrow> (ft_tunnel \<times> ft_job \<times> ft_log) io" where
  "run_ability_job env t j =
     io_bind
       (if ft_ability_probed t then Ret (ft_ability_cache t, True, 0, t)
        else io_bind (connect_lan_tunnel env t) (\<lambda>(err, t1).
          if err \<noteq> [] then Ret ([], False, FT_EIO, t1)
          else io_bind (on_conn query_media_ability t1) (\<lambda>(outcome, t2).
            if \<not> u_ok outcome then Ret ([], False, FT_EIO, t2)
            else Ret (u_json_body outcome, False, 0,
                t2\<lparr>ft_ability_cache := u_json_body outcome, ft_ability_probed := True\<rparr>))))
       (\<lambda>(ability_json, use_cache, ec, t').
         Ret (t', if use_cache \<or> ability_json \<noteq> [] then deliver_result False 0 0 ability_json [] j
                  else deliver_result False (if ec \<noteq> 0 then ec else FT_EIO) 0 [] [] j))"

definition sent_or_zero :: "int \<Rightarrow> int" where
  "sent_or_zero wire_result = (if 0 \<le> wire_result then wire_result else 0)"

definition job_cancelled :: "ft_env \<Rightarrow> ft_job \<Rightarrow> nat \<Rightarrow> bool" where
  "job_cancelled env j n = (fj_cancelled j \<or> fe_cancels env n)"

text \<open>The result of a transfer, delivered after the mutex is released.\<close>

definition report_upload :: "upload_outcome \<Rightarrow> ft_job \<Rightarrow> ft_job \<times> ft_log" where
  "report_upload outcome =
     (if u_ok outcome then deliver_result False 0 (u_wire_result outcome) [] []
      else if u_error outcome = ''cancelled'' then deliver_result False FT_ECANCELLED 0 [] []
      else deliver_result False FT_EIO (sent_or_zero (u_wire_result outcome)) [] [])"

definition run_upload_job :: "ft_env \<Rightarrow> ft_tunnel \<Rightarrow> ft_job \<Rightarrow> (ft_tunnel \<times> ft_job \<times> ft_log) io" where
  "run_upload_job env t j =
     io_bind (connect_lan_tunnel env t) (\<lambda>(err, t1).
       if err \<noteq> [] then Ret (t1, deliver_result True FT_EIO 0 [] [] j)
       else
         io_bind (on_conn (upload (fe_md5 env) (job_cancelled env j)
             \<lparr>ur_local = fe_files env (fj_file_path j), ur_local_path = fj_file_path j,
              ur_dest_storage = fj_dest_storage j, ur_dest_name = fj_dest_name j\<rparr>) t1) (\<lambda>((outcome, ps), t2).
           case report_upload outcome j of (j', ev) \<Rightarrow> Ret (t2, j', progress_events j ps @ ev)))"

definition report_download :: "download_outcome \<Rightarrow> ft_job \<Rightarrow> ft_job \<times> ft_log" where
  "report_download outcome =
     (if d_ok outcome then deliver_result False 0 (d_wire_result outcome) (d_json_body outcome) (d_data outcome)
      else if d_error outcome = ''cancelled'' then deliver_result False FT_ECANCELLED 0 [] []
      else deliver_result False FT_EIO (sent_or_zero (d_wire_result outcome)) [] [])"

definition run_download_job :: "ft_env \<Rightarrow> ft_tunnel \<Rightarrow> ft_job \<Rightarrow> (ft_tunnel \<times> ft_job \<times> ft_log) io" where
  "run_download_job env t j =
     io_bind (connect_lan_tunnel env t) (\<lambda>(err, t1).
       if err \<noteq> [] then Ret (t1, deliver_result True FT_EIO 0 [] [] j)
       else
         io_bind (on_conn (download (job_cancelled env j)
             \<lparr>dr_path = fj_download_path j, dr_target_path = fj_target_path j\<rparr>) t1) (\<lambda>((outcome, ps), t2).
           case report_download outcome j of (j', ev) \<Rightarrow> Ret (t2, j', progress_events j ps @ ev)))"

text \<open>The body of the thread of \<open>spawn_job\<close>.\<close>

definition run_job :: "ft_env \<Rightarrow> ft_tunnel \<Rightarrow> ft_job \<Rightarrow> (ft_tunnel \<times> ft_job \<times> ft_log) io" where
  "run_job env t j =
     (if fj_cmd_type j = kCmdTypeMediaAbility then run_ability_job env t j
      else if fj_cmd_type j = kCmdTypeUpload then run_upload_job env t j
      else if fj_cmd_type j = kCmdTypeDownload then run_download_job env t j
      else Ret (t, deliver_result False FT_EIO 0 [] [] j))"

text \<open>\<open>ft_job_get_result\<close> once its wait is over: \<open>finished\<close> decides between result and timeout.\<close>

definition ft_job_get_result :: "ft_job \<Rightarrow> ft_result" where
  "ft_job_get_result j =
     (if \<not> fj_finished j then \<lparr>fr_ec = FT_ETIMEOUT, fr_resp_ec = 0, fr_json = None, fr_bin = None, fr_bin_size = 0\<rparr>
      else \<lparr>fr_ec = fj_res_ec j, fr_resp_ec = fj_resp_ec j,
            fr_json = (if fj_res_json j = [] then None else Some (fj_res_json j)),
            fr_bin = (if fj_res_bin j = [] then None else Some (fj_res_bin j)),
            fr_bin_size = word_of_nat (length (fj_res_bin j))\<rparr>)"

section \<open>Connecting\<close>

definition status_event :: "bool \<Rightarrow> ft_tunnel \<Rightarrow> int \<Rightarrow> int \<Rightarrow> bytes \<Rightarrow> ft_log" where
  "status_event held t new_status err msg =
     (case ft_status_cb t of None \<Rightarrow> [] | Some user \<Rightarrow> [(held, Status_cb user 0 new_status err msg)])"

definition connect_event :: "bool \<Rightarrow> user_ptr option \<Rightarrow> int \<Rightarrow> int \<Rightarrow> bytes \<Rightarrow> ft_log" where
  "connect_event held cb ok err msg =
     (case cb of None \<Rightarrow> [] | Some user \<Rightarrow> [(held, Connect_cb user ok err msg)])"

definition start_connect :: "ft_env \<Rightarrow> user_ptr option \<Rightarrow> ft_tunnel \<Rightarrow> (ft_tunnel \<times> ft_log) io" where
  "start_connect env cb t0 =
     (let t = t0\<lparr>ft_conn_cb := cb\<rparr> in
      if ft_is_lan t then
        io_bind (connect_lan_tunnel env t) (\<lambda>(err, t1).
          if err \<noteq> [] then Ret (t1, connect_event True cb 1 FT_EIO err @ status_event True t1 (-1) FT_EIO err)
          else Ret (t1, connect_event True cb 0 0 ''ok'' @ status_event True t1 1 0 ''ok''))
      else Ret (t, connect_event False cb 1 FT_EIO kUnsupportedMsg @ status_event False t (-1) FT_EIO kUnsupportedMsg))"

definition sync_connect :: "ft_env \<Rightarrow> ft_tunnel \<Rightarrow> (int \<times> ft_tunnel) io" where
  "sync_connect env t =
     (if ft_is_lan t then io_bind (connect_lan_tunnel env t) (\<lambda>(err, t1). Ret (if err = [] then 0 else FT_EIO, t1))
      else Ret (FT_EIO, t))"

definition tunnel_shutdown :: "ft_tunnel \<Rightarrow> ft_tunnel" where
  "tunnel_shutdown t = t\<lparr>ft_shut_down := True, ft_conn := map_option disconnect (ft_conn t)\<rparr>"

text \<open>The answer of \<open>ft_tunnel_start_job\<close> on a tunnel that is not a LAN one.\<close>

definition refuse_job :: "ft_job \<Rightarrow> ft_job \<times> ft_log" where
  "refuse_job j =
     (j\<lparr>fj_finished := True, fj_res_ec := FT_EIO\<rparr>,
      case fj_result_cb j of
        None \<Rightarrow> []
      | Some user \<Rightarrow> [(False, Result_cb user \<lparr>fr_ec = FT_EIO, fr_resp_ec = 0, fr_json = None, fr_bin = None, fr_bin_size = 0\<rparr>)])"

end
