(* ===== verification/File_Handles.thy ===== *)
theory File_Handles
  imports File_Transfer
begin

text \<open>
  The handles of \<open>src/abi_ft.cpp\<close> over time: tunnels and jobs on a heap with their
  reference counts, the detached threads of \<open>spawn_job\<close>, and a client that calls the interface
  in any order on handles it holds.
\<close>

section \<open>Counted objects\<close>

record 'a counted =
  refcount :: int
  co_body :: 'a

type_synonym 'a heap = "nat \<Rightarrow> 'a counted option"

text \<open>\<open>retain\<close> and \<open>release\<close> of a handle that is not null; the last release deletes.\<close>

definition ft_retain :: "nat \<Rightarrow> 'a heap \<Rightarrow> 'a heap" where
  "ft_retain h hp = (case hp h of None \<Rightarrow> hp | Some c \<Rightarrow> hp(h \<mapsto> c\<lparr>refcount := refcount c + 1\<rparr>))"

definition ft_release :: "nat \<Rightarrow> 'a heap \<Rightarrow> 'a heap" where
  "ft_release h hp =
     (case hp h of
        None \<Rightarrow> hp
      | Some c \<Rightarrow> if refcount c = 1 then hp(h := None) else hp(h \<mapsto> c\<lparr>refcount := refcount c - 1\<rparr>))"

definition set_body :: "nat \<Rightarrow> 'a \<Rightarrow> 'a heap \<Rightarrow> 'a heap" where
  "set_body h x hp = (case hp h of None \<Rightarrow> hp | Some c \<Rightarrow> hp(h \<mapsto> c\<lparr>co_body := x\<rparr>))"

definition heap_new :: "nat \<Rightarrow> 'a \<Rightarrow> 'a heap \<Rightarrow> 'a heap" where
  "heap_new h x hp = hp(h \<mapsto> \<lparr>refcount = 1, co_body = x\<rparr>)"

text \<open>Every object is counted as often as it is used, and exists exactly while it is used.\<close>

fun object_ok :: "nat \<Rightarrow> 'a counted option \<Rightarrow> bool" where
  "object_ok n None = (n = 0)"
| "object_ok n (Some c) = (0 < n \<and> refcount c = int n)"

definition counted_ok :: "(nat \<Rightarrow> nat) \<Rightarrow> 'a heap \<Rightarrow> bool" where
  "counted_ok uses hp = (\<forall>h. object_ok (uses h) (hp h))"

lemma counted_alive: "counted_ok uses hp \<Longrightarrow> 0 < uses h \<Longrightarrow> \<exists>c. hp h = Some c \<and> refcount c = int (uses h)"
  unfolding counted_ok_def by (drule spec [of _ h], cases "hp h") auto

lemma counted_unused: "counted_ok uses hp \<Longrightarrow> hp h = None \<Longrightarrow> uses h = 0"
  unfolding counted_ok_def by (metis object_ok.simps(1))

lemma counted_alive_iff: "counted_ok uses hp \<Longrightarrow> (\<exists>c. hp h = Some c) = (0 < uses h)"
  unfolding counted_ok_def by (drule spec [of _ h], cases "hp h") auto

lemma counted_empty [simp]: "counted_ok (\<lambda>_. 0) (\<lambda>_. None)"
  by (simp add: counted_ok_def)

lemma counted_retain:
  assumes "counted_ok uses hp" and "0 < uses h"
  shows "counted_ok (uses(h := Suc (uses h))) (ft_retain h hp)"
proof -
  obtain c where "hp h = Some c" "refcount c = int (uses h)" using counted_alive [OF assms] by auto
  then show ?thesis using assms by (auto simp: counted_ok_def ft_retain_def)
qed

lemma counted_release:
  assumes "counted_ok uses hp" and "0 < uses h"
  shows "counted_ok (uses(h := uses h - Suc 0)) (ft_release h hp)"
proof -
  obtain c where "hp h = Some c" "refcount c = int (uses h)" using counted_alive [OF assms] by auto
  then show ?thesis using assms by (auto simp: counted_ok_def ft_release_def)
qed

lemma counted_set_body: "counted_ok uses hp \<Longrightarrow> counted_ok uses (set_body h x hp)"
  by (auto simp: counted_ok_def set_body_def split: option.split) (metis object_ok.simps(2))+

lemma counted_new: "counted_ok uses hp \<Longrightarrow> hp h = None \<Longrightarrow> counted_ok (uses(h := Suc 0)) (heap_new h x hp)"
  by (auto simp: counted_ok_def heap_new_def)

section \<open>The system\<close>

text \<open>
  The client's references per handle are not part of the code: they say which calls the client
  is entitled to. \<open>sy_workers\<close> are the detached threads with the pointers they captured.
\<close>

record ft_system =
  sy_tunnels :: "ft_tunnel heap"
  sy_jobs :: "ft_job heap"
  sy_workers :: "(nat \<times> nat) list"
  sy_log :: ft_log
  sy_tunnel_refs :: "nat \<Rightarrow> nat"
  sy_job_refs :: "nat \<Rightarrow> nat"

definition initial_system :: ft_system where
  "initial_system = \<lparr>sy_tunnels = (\<lambda>_. None), sy_jobs = (\<lambda>_. None), sy_workers = [], sy_log = [],
     sy_tunnel_refs = (\<lambda>_. 0), sy_job_refs = (\<lambda>_. 0)\<rparr>"

definition spawn_job :: "nat \<Rightarrow> nat \<Rightarrow> ft_system \<Rightarrow> ft_system" where
  "spawn_job t j s = s\<lparr>sy_tunnels := ft_retain t (sy_tunnels s), sy_jobs := ft_retain j (sy_jobs s),
     sy_workers := (t, j) # sy_workers s\<rparr>"

definition ft_tunnel_start_job :: "nat \<Rightarrow> nat \<Rightarrow> ft_system \<Rightarrow> ft_system" where
  "ft_tunnel_start_job t j s =
     (case (sy_tunnels s t, sy_jobs s j) of
        (Some ct, Some cj) \<Rightarrow>
          if ft_is_lan (co_body ct) then spawn_job t j s
          else let (j', ev) = refuse_job (co_body cj) in
            s\<lparr>sy_jobs := set_body j j' (sy_jobs s), sy_log := sy_log s @ ev\<rparr>
      | _ \<Rightarrow> s)"

text \<open>The end of a thread: what the job left behind, then the releases of its captures.\<close>

definition finish_worker :: "nat \<Rightarrow> nat \<Rightarrow> ft_tunnel \<Rightarrow> ft_job \<Rightarrow> ft_log \<Rightarrow> ft_system \<Rightarrow> ft_system" where
  "finish_worker t j t' j' ev s =
     s\<lparr>sy_tunnels := ft_release t (set_body t t' (sy_tunnels s)), sy_jobs := ft_release j (set_body j j' (sy_jobs s)),
       sy_workers := remove1 (t, j) (sy_workers s), sy_log := sy_log s @ ev\<rparr>"

definition set_tunnel :: "nat \<Rightarrow> ft_tunnel \<Rightarrow> ft_system \<Rightarrow> ft_system" where
  "set_tunnel t x s = s\<lparr>sy_tunnels := set_body t x (sy_tunnels s)\<rparr>"

definition set_job :: "nat \<Rightarrow> ft_job \<Rightarrow> ft_system \<Rightarrow> ft_system" where
  "set_job j x s = s\<lparr>sy_jobs := set_body j x (sy_jobs s)\<rparr>"

inductive ft_step :: "ft_system \<Rightarrow> ft_system \<Rightarrow> bool" where
  tunnel_create: "sy_tunnels s t = None \<Longrightarrow>
    ft_step s (s\<lparr>sy_tunnels := heap_new t (ft_tunnel_of url) (sy_tunnels s), sy_tunnel_refs := (sy_tunnel_refs s)(t := 1)\<rparr>)"
| job_create: "sy_jobs s j = None \<Longrightarrow>
    ft_step s (s\<lparr>sy_jobs := heap_new j (ft_job_of params) (sy_jobs s), sy_job_refs := (sy_job_refs s)(j := 1)\<rparr>)"
| tunnel_retain: "0 < sy_tunnel_refs s t \<Longrightarrow>
    ft_step s (s\<lparr>sy_tunnels := ft_retain t (sy_tunnels s), sy_tunnel_refs := (sy_tunnel_refs s)(t := sy_tunnel_refs s t + 1)\<rparr>)"
| job_retain: "0 < sy_job_refs s j \<Longrightarrow>
    ft_step s (s\<lparr>sy_jobs := ft_retain j (sy_jobs s), sy_job_refs := (sy_job_refs s)(j := sy_job_refs s j + 1)\<rparr>)"
| tunnel_release: "0 < sy_tunnel_refs s t \<Longrightarrow>
    ft_step s (s\<lparr>sy_tunnels := ft_release t (sy_tunnels s), sy_tunnel_refs := (sy_tunnel_refs s)(t := sy_tunnel_refs s t - 1)\<rparr>)"
| job_release: "0 < sy_job_refs s j \<Longrightarrow>
    ft_step s (s\<lparr>sy_jobs := ft_release j (sy_jobs s), sy_job_refs := (sy_job_refs s)(j := sy_job_refs s j - 1)\<rparr>)"
| set_status_cb: "0 < sy_tunnel_refs s t \<Longrightarrow> sy_tunnels s t = Some ct \<Longrightarrow>
    ft_step s (set_tunnel t ((co_body ct)\<lparr>ft_status_cb := cb\<rparr>) s)"
| set_result_cb: "0 < sy_job_refs s j \<Longrightarrow> sy_jobs s j = Some cj \<Longrightarrow>
    ft_step s (set_job j ((co_body cj)\<lparr>fj_result_cb := cb\<rparr>) s)"
| set_msg_cb: "0 < sy_job_refs s j \<Longrightarrow> sy_jobs s j = Some cj \<Longrightarrow>
    ft_step s (set_job j ((co_body cj)\<lparr>fj_msg_cb := cb\<rparr>) s)"
| cancel: "0 < sy_job_refs s j \<Longrightarrow> sy_jobs s j = Some cj \<Longrightarrow>
    ft_step s (set_job j ((co_body cj)\<lparr>fj_cancelled := True\<rparr>) s)"
| connecting: "0 < sy_tunnel_refs s t \<Longrightarrow> sy_tunnels s t = Some ct \<Longrightarrow>
    start_connect env cb (co_body ct) = Ret (t', ev) \<Longrightarrow> ft_step s ((set_tunnel t t' s)\<lparr>sy_log := sy_log s @ ev\<rparr>)"
| sync_connecting: "0 < sy_tunnel_refs s t \<Longrightarrow> sy_tunnels s t = Some ct \<Longrightarrow>
    sync_connect env (co_body ct) = Ret (rc, t') \<Longrightarrow> ft_step s (set_tunnel t t' s)"
| shutdown: "0 < sy_tunnel_refs s t \<Longrightarrow> sy_tunnels s t = Some ct \<Longrightarrow>
    ft_step s (set_tunnel t (tunnel_shutdown (co_body ct)) s)"
| start_job: "0 < sy_tunnel_refs s t \<Longrightarrow> 0 < sy_job_refs s j \<Longrightarrow> ft_step s (ft_tunnel_start_job t j s)"
| worker_ends: "(t, j) \<in> set (sy_workers s) \<Longrightarrow> sy_tunnels s t = Some ct \<Longrightarrow> sy_jobs s j = Some cj \<Longrightarrow>
    run_job env (co_body ct) (co_body cj) = Ret (t', j', ev) \<Longrightarrow> ft_step s (finish_worker t j t' j' ev s)"

definition ft_reachable :: "ft_system \<Rightarrow> bool" where
  "ft_reachable s = ft_step\<^sup>*\<^sup>* initial_system s"

text \<open>The uses of a handle: the client's references and the threads that captured it.\<close>

definition tunnel_uses :: "ft_system \<Rightarrow> nat \<Rightarrow> nat" where
  "tunnel_uses s t = sy_tunnel_refs s t + count_list (map fst (sy_workers s)) t"

definition job_uses :: "ft_system \<Rightarrow> nat \<Rightarrow> nat" where
  "job_uses s j = sy_job_refs s j + count_list (map snd (sy_workers s)) j"

definition handles_ok :: "ft_system \<Rightarrow> bool" where
  "handles_ok s = (counted_ok (tunnel_uses s) (sy_tunnels s) \<and> counted_ok (job_uses s) (sy_jobs s))"

section \<open>The invariant\<close>

lemma count_remove1: "x \<in> set xs \<Longrightarrow> count_list (map f (remove1 x xs)) y = count_list (map f xs) y - (if f x = y then 1 else 0)"
proof (induction xs)
  case (Cons a xs)
  moreover have "x \<in> set xs \<Longrightarrow> 0 < count_list (map f xs) (f x)"
    by (metis count_list_0_iff gr0I image_eqI list.set_map)
  ultimately show ?case by (cases "a = x") auto
qed simp

lemmas uses_defs = tunnel_uses_def job_uses_def

lemma handles_ok_start: "handles_ok initial_system"
proof -
  have "tunnel_uses initial_system = (\<lambda>_. 0)" "job_uses initial_system = (\<lambda>_. 0)"
    by (simp_all add: fun_eq_iff uses_defs initial_system_def)
  then show ?thesis by (simp add: handles_ok_def initial_system_def)
qed

lemma handles_ok_set:
  "handles_ok s \<Longrightarrow> handles_ok (set_tunnel t x s)"
  "handles_ok s \<Longrightarrow> handles_ok (set_job j y s)"
  by (auto simp: handles_ok_def set_tunnel_def set_job_def uses_defs [abs_def] counted_set_body)

lemma handles_ok_log: "handles_ok (s\<lparr>sy_log := l\<rparr>) = handles_ok s"
  by (simp add: handles_ok_def uses_defs [abs_def])

lemma handles_ok_I:
  assumes "handles_ok s"
    and "counted_ok (tunnel_uses s) (sy_tunnels s) \<Longrightarrow> counted_ok ut (sy_tunnels s')"
    and "counted_ok (job_uses s) (sy_jobs s) \<Longrightarrow> counted_ok uj (sy_jobs s')"
    and "ut = tunnel_uses s'" and "uj = job_uses s'"
  shows "handles_ok s'"
  using assms by (simp add: handles_ok_def)

lemma handles_ok_spawn:
  assumes "handles_ok s" and "0 < tunnel_uses s t" and "0 < job_uses s j"
  shows "handles_ok (spawn_job t j s)"
  by (rule handles_ok_I [OF assms(1), of "(tunnel_uses s)(t := Suc (tunnel_uses s t))" _ "(job_uses s)(j := Suc (job_uses s j))"])
    (simp_all add: spawn_job_def counted_retain assms(2,3), auto simp: uses_defs fun_eq_iff)

lemma handles_ok_start_job:
  assumes "handles_ok s" and "0 < sy_tunnel_refs s t" and "0 < sy_job_refs s j"
  shows "handles_ok (ft_tunnel_start_job t j s)"
proof -
  have "0 < tunnel_uses s t" "0 < job_uses s j" using assms(2,3) by (simp_all add: uses_defs)
  with assms(1) have "handles_ok (spawn_job t j s)" by (rule handles_ok_spawn)
  moreover have "handles_ok (s\<lparr>sy_jobs := set_body j x (sy_jobs s), sy_log := l\<rparr>)" for x l
    using handles_ok_set(2) [OF assms(1), of j x] by (simp add: handles_ok_log set_job_def)
  ultimately show ?thesis
    using assms(1) by (auto simp: ft_tunnel_start_job_def split: option.split prod.split)
qed

lemma handles_ok_finish:
  assumes "handles_ok s" and "(t, j) \<in> set (sy_workers s)"
  shows "handles_ok (finish_worker t j t' j' ev s)"
proof -
  have c: "0 < count_list (map fst (sy_workers s)) t" "0 < count_list (map snd (sy_workers s)) j"
    using assms(2) by (force simp: count_list_0_iff intro!: gr0I)+
  then have u: "0 < tunnel_uses s t" "0 < job_uses s j" by (simp_all add: uses_defs)
  show ?thesis
    by (rule handles_ok_I [OF assms(1), of "(tunnel_uses s)(t := tunnel_uses s t - Suc 0)" _ "(job_uses s)(j := job_uses s j - Suc 0)"])
      (use u in \<open>simp_all add: finish_worker_def counted_release counted_set_body\<close>,
      use c in \<open>auto simp: uses_defs fun_eq_iff count_remove1 [OF assms(2)]\<close>)
qed

lemma ft_step_ok:
  assumes "ft_step s s'" and "handles_ok s"
  shows "handles_ok s'"
  using assms
proof (induction rule: ft_step.induct)
  case (tunnel_create s t url)
  then have unused: "tunnel_uses s t = 0" "sy_tunnels s t = None"
    by (auto simp: handles_ok_def dest!: counted_unused)
  show ?case
    by (rule handles_ok_I [OF tunnel_create(2), of "(tunnel_uses s)(t := Suc 0)" _ "job_uses s"]) 
      (use unused in \<open>simp_all add: counted_new\<close>, use unused in \<open>auto simp: uses_defs fun_eq_iff\<close>)
next
  case (job_create s j params)
  then have unused: "job_uses s j = 0" "sy_jobs s j = None"
    by (auto simp: handles_ok_def dest!: counted_unused)
  show ?case
    by (rule handles_ok_I [OF job_create(2), of "tunnel_uses s" _ "(job_uses s)(j := Suc 0)"]) 
      (use unused in \<open>simp_all add: counted_new\<close>, use unused in \<open>auto simp: uses_defs fun_eq_iff\<close>)
next
  case (tunnel_retain s t)
  then have used: "0 < tunnel_uses s t" by (simp add: uses_defs)
  show ?case
    by (rule handles_ok_I [OF tunnel_retain(2), of "(tunnel_uses s)(t := Suc (tunnel_uses s t))" _ "job_uses s"])
      (simp_all add: counted_retain used, auto simp: uses_defs fun_eq_iff)
next
  case (job_retain s j)
  then have used: "0 < job_uses s j" by (simp add: uses_defs)
  show ?case
    by (rule handles_ok_I [OF job_retain(2), of "tunnel_uses s" _ "(job_uses s)(j := Suc (job_uses s j))"])
      (simp_all add: counted_retain used, auto simp: uses_defs fun_eq_iff)
next
  case (tunnel_release s t)
  then have used: "0 < tunnel_uses s t" by (simp add: uses_defs)
  show ?case
    by (rule handles_ok_I [OF tunnel_release(2), of "(tunnel_uses s)(t := tunnel_uses s t - Suc 0)" _ "job_uses s"])
      (simp_all add: counted_release used, use tunnel_release(1) in \<open>auto simp: uses_defs fun_eq_iff\<close>)
next
  case (job_release s j)
  then have used: "0 < job_uses s j" by (simp add: uses_defs)
  show ?case
    by (rule handles_ok_I [OF job_release(2), of "tunnel_uses s" _ "(job_uses s)(j := job_uses s j - Suc 0)"])
      (simp_all add: counted_release used, use job_release(1) in \<open>auto simp: uses_defs fun_eq_iff\<close>)
next
  case (start_job s t j)
  then show ?case by (simp add: handles_ok_start_job)
next
  case (worker_ends t j s)
  then show ?case by (simp add: handles_ok_finish)
qed (simp_all add: handles_ok_set handles_ok_log)

lemma ft_reachable_ok: "ft_reachable s \<Longrightarrow> handles_ok s"
  unfolding ft_reachable_def
  by (induction rule: rtranclp_induct) (auto intro: ft_step_ok handles_ok_start)

end
