(* ===== verification/File_Laws.thy ===== *)
theory File_Laws
  imports File_Handles
begin

text \<open>
  Laws of the file transfer interface: the LAN URL, what a job reports and when, and the
  lifetime of the handles.
\<close>

section \<open>URLs\<close>

lemma hex_val_hex_digit: "n < 16 \<Longrightarrow> hex_val (hex_digit n) = Some n"
proof -
  have "\<forall>n < (16 :: nat). hex_val (hex_digit n) = Some n"
    by (simp add: hex_digit_def hex_val_def All_less_Suc numeral_eq_Suc nth_Cons')
  then show "n < 16 \<Longrightarrow> ?thesis" by simp
qed

lemma nibble: "code_of c div 16 < (16 :: nat)"
  by (rule less_mult_imp_div_less) simp

lemma percent_decode_plain: "c \<noteq> CHR ''%'' \<Longrightarrow> percent_decode (c # s) = c # percent_decode s"
  by (cases s; cases "tl s") auto

lemma percent_decode_pair: "a < 16 \<Longrightarrow> b < 16 \<Longrightarrow>
    percent_decode (CHR ''%'' # hex_digit a # hex_digit b # s) = char_of (16 * a + b) # percent_decode s"
  by (simp add: hex_val_hex_digit)

lemma percent_not_unreserved: "\<not> unreserved (CHR ''%'')"
  by (simp add: unreserved_def is_digit_def)

lemma unreserved_hex_digit: "n < 16 \<Longrightarrow> unreserved (hex_digit n)"
proof -
  have "\<forall>n < (16 :: nat). unreserved (hex_digit n)"
    by (simp add: hex_digit_def unreserved_def is_digit_def All_less_Suc numeral_eq_Suc nth_Cons')
  then show "n < 16 \<Longrightarrow> ?thesis" by simp
qed

lemma percent_decode_url_char: "percent_decode (url_char c @ s) = c # percent_decode s"
proof (cases "unreserved c")
  case True
  with percent_not_unreserved have "c \<noteq> CHR ''%''" by metis
  with True show ?thesis by (simp add: url_char_def percent_decode_plain)
next
  case False
  have "code_of c mod 16 < (16 :: nat)" by simp
  from percent_decode_pair [OF nibble this] False show ?thesis
    by (simp add: url_char_def del: percent_decode.simps)
qed

lemma percent_decode_url_encode: "percent_decode (url_encode s @ r) = s @ percent_decode r"
  by (induction s) (simp_all add: url_encode_def percent_decode_url_char)

lemma url_encode_chars: "c \<in> set (url_encode s) \<Longrightarrow> unreserved c \<or> c = CHR ''%''"
proof (induction s)
  case (Cons a s)
  then consider "c \<in> set (url_char a)" | "c \<in> set (url_encode s)" by (auto simp: url_encode_def)
  then show ?case
  proof cases
    case 1
    have "unreserved (hex_digit (code_of a div 16))" "unreserved (hex_digit (code_of a mod 16))"
      by (simp_all add: unreserved_hex_digit nibble)
    with 1 show ?thesis by (simp add: url_char_def split: if_splits) metis
  qed (use Cons.IH in blast)
qed (simp add: url_encode_def)

text \<open>The URL Studio builds, with every value percent-encoded.\<close>

definition lan_pairs :: "lan_url \<Rightarrow> (bytes \<times> bytes) list" where
  "lan_pairs u = [(''port'', show_int (lu_port u)), (''user'', lu_user u), (''passwd'', lu_password u),
     (''device'', lu_device u), (''cli_id'', lu_cli_id u), (''cli_ver'', lu_cli_ver u), (''net_ver'', lu_net_ver u)]"

fun query_text :: "(bytes \<times> bytes) list \<Rightarrow> bytes" where
  "query_text [] = []"
| "query_text [(k, v)] = k @ ''='' @ url_encode v"
| "query_text ((k, v) # kvs) = k @ ''='' @ url_encode v @ ''&'' @ query_text kvs"

definition lan_url_text :: "lan_url \<Rightarrow> bytes" where
  "lan_url_text u = kLanPrefix @ lu_ip u @ ''.?'' @ query_text (lan_pairs u)"

lemma url_encode_no: "\<not> unreserved c \<Longrightarrow> c \<noteq> CHR ''%'' \<Longrightarrow> c \<notin> set (url_encode v)"
  using url_encode_chars by blast

lemma read_pair_text: "CHR ''='' \<notin> set k \<Longrightarrow> read_pair (k @ ''='' @ url_encode v) u = set_lan_key k v u"
  using percent_decode_url_encode [of v "[]"] by (simp add: read_pair_def)

lemma pair_no_amp: "CHR ''&'' \<notin> set k \<Longrightarrow> CHR ''&'' \<notin> set (k @ ''='' @ url_encode v)"
  by (simp add: url_encode_no unreserved_def is_digit_def)

lemma read_query_text:
  "\<forall>(k, v) \<in> set kvs. CHR ''='' \<notin> set k \<and> CHR ''&'' \<notin> set k \<Longrightarrow>
   read_query (query_text kvs) u = fold (\<lambda>(k, v). set_lan_key k v) kvs u"
proof (induction kvs arbitrary: u rule: query_text.induct)
  case 1
  then show ?case by (simp add: read_query.simps)
next
  case (2 k v)
  have n: "find_char (CHR ''&'') (query_text [(k, v)]) = None"
    unfolding find_char_None_iff using 2 pair_no_amp [of k v] by simp
  have "read_query (query_text [(k, v)]) u = read_pair (query_text [(k, v)]) u"
    unfolding read_query.simps [of "query_text [(k, v)]" u] n by simp
  then show ?case
    using 2 read_pair_text [of k v] by simp
next
  case (3 k v kv kvs)
  have "find_char (CHR ''&'') (query_text ((k, v) # kv # kvs)) = Some (length (k @ ''='' @ url_encode v))"
    using 3 pair_no_amp [of k v] find_char_append_here [of "CHR ''&''" "k @ ''='' @ url_encode v" "query_text (kv # kvs)"]
    by simp
  then show ?case
    using 3 read_pair_text [of k v] by (subst read_query.simps) simp
qed

lemma lan_pairs_read:
  assumes "- (2 ^ 31) \<le> lu_port u" and "lu_port u < 2 ^ 31"
  shows "fold (\<lambda>(k, v). set_lan_key k v) (lan_pairs u) (new_lan_url\<lparr>lu_ip := lu_ip u\<rparr>) = u"
  using assms by (simp add: lan_pairs_def set_lan_key_def new_lan_url_def)

text \<open>C28: The URL of a LAN tunnel carries its parameters through: whatever bytes the user name, the access
  code and the other values hold, the tunnel made from the URL has them.\<close>

theorem lan_url_reads_back:
  assumes "lu_ip u \<noteq> []" and "CHR ''?'' \<notin> set (lu_ip u)"
    and "- (2 ^ 31) \<le> lu_port u" and "lu_port u < 2 ^ 31"
  shows "parse_lan_url (Some (lan_url_text u)) new_lan_url = (True, u) \<and>
    ft_is_lan (ft_tunnel_of (Some (lan_url_text u))) \<and> ft_lan (ft_tunnel_of (Some (lan_url_text u))) = u"
proof -
  have "CHR ''?'' \<notin> set (lu_ip u @ ''.'')" using assms(2) by simp
  then have q: "find_char (CHR ''?'') (lu_ip u @ ''.?'' @ r) = Some (length (lu_ip u) + 1)" for r
    using find_char_append_here [of "CHR ''?''" "lu_ip u @ ''.''" r] by simp
  have "\<forall>(k, v) \<in> set (lan_pairs u). CHR ''='' \<notin> set k \<and> CHR ''&'' \<notin> set k"
    by (simp add: lan_pairs_def)
  then have "read_query (query_text (lan_pairs u)) (new_lan_url\<lparr>lu_ip := lu_ip u\<rparr>) = u"
    using lan_pairs_read [OF assms(3,4)] by (simp add: read_query_text)
  then have "parse_lan_url (Some (lan_url_text u)) new_lan_url = (True, u)"
    using assms(1) q [of "query_text (lan_pairs u)"] by (simp add: parse_lan_url_def lan_url_text_def pop_dot_def butlast_append)
  then show ?thesis
    by (simp add: ft_tunnel_of_def new_ft_tunnel_def)
qed

theorem lan_url_reads_back_witness:
  "parse_lan_url (Some (lan_url_text (new_lan_url\<lparr>lu_ip := ''192.168.0.9'', lu_password := ''a&b=%?''\<rparr>))) new_lan_url
     = (True, new_lan_url\<lparr>lu_ip := ''192.168.0.9'', lu_password := ''a&b=%?''\<rparr>)"
  using lan_url_reads_back [of "new_lan_url\<lparr>lu_ip := ''192.168.0.9'', lu_password := ''a&b=%?''\<rparr>"]
  by (simp add: new_lan_url_def)

section \<open>What a job reports\<close>

text \<open>
  \<open>reports j j' out\<close>: the job is finished and, if it has a result callback, its last event and only
  result is the one \<open>ft_job_get_result\<close> now gives, up to an empty text. All that comes before are
  progress messages; 99 is reserved, because Studio starts a timer on it.
\<close>

definition progress_event :: "ft_event \<Rightarrow> bool" where
  "progress_event e = (\<exists>u p. e = Message_cb u 0 (progress_text p) \<and> 0 \<le> p \<and> p \<le> 100 \<and> p \<noteq> 99)"

definition same_result :: "ft_result \<Rightarrow> ft_result \<Rightarrow> bool" where
  "same_result r q =
     (fr_ec r = fr_ec q \<and> fr_resp_ec r = fr_resp_ec q \<and> fr_bin r = fr_bin q \<and> fr_bin_size r = fr_bin_size q \<and>
      (case fr_json q of None \<Rightarrow> fr_json r = None \<or> fr_json r = Some [] | Some t \<Rightarrow> fr_json r = Some t))"

definition reports :: "ft_job \<Rightarrow> ft_job \<Rightarrow> ft_log \<Rightarrow> bool" where
  "reports j j' out =
     (fj_finished j' \<and> fj_result_cb j' = fj_result_cb j \<and>
      (case fj_result_cb j of
         None \<Rightarrow> (\<forall>e \<in> set out. progress_event (snd e))
       | Some u \<Rightarrow> \<exists>ps held r. out = ps @ [(held, Result_cb u r)] \<and> (\<forall>e \<in> set ps. progress_event (snd e)) \<and>
           same_result r (ft_job_get_result j') \<and> (held \<longrightarrow> fr_ec r = FT_EIO)))"

lemma clamp_progress_range: "0 \<le> clamp_progress p \<and> clamp_progress p \<le> 100 \<and> clamp_progress p \<noteq> 99"
  by (simp add: clamp_progress_def Let_def)

lemma progress_no_result: "e \<in> set (progress_events j ps) \<Longrightarrow> progress_event (snd e)"
  using clamp_progress_range
  by (auto simp: progress_events_def deliver_progress_def progress_event_def split: option.splits) blast

lemma reports_deliver:
  assumes "deliver_result held ec rec b bin j = (j', ev)" and "held \<longrightarrow> ec = FT_EIO"
  shows "reports j j' (progress_events j ps @ ev)"
proof (cases "fj_result_cb j")
  case None
  with assms show ?thesis by (auto simp: reports_def deliver_result_def dest: progress_no_result)
next
  case (Some u)
  then obtain r where "ev = [(held, Result_cb u r)]" "fr_ec r = ec" "same_result r (ft_job_get_result j')"
    using assms(1) by (auto simp: deliver_result_def same_result_def ft_job_get_result_def)
  moreover have "fj_finished j'" "fj_result_cb j' = fj_result_cb j" using assms(1) by (auto simp: deliver_result_def)
  ultimately show ?thesis using Some assms(2) by (auto simp: reports_def dest: progress_no_result)
qed

text \<open>Every job ends in one call of \<open>deliver_result\<close>, after the progress messages.\<close>

definition delivered :: "ft_job \<Rightarrow> ft_job \<Rightarrow> ft_log \<Rightarrow> bool" where
  "delivered j j' out =
     (\<exists>held ec rec b bin ps ev. deliver_result held ec rec b bin j = (j', ev) \<and> (held \<longrightarrow> ec = FT_EIO) \<and>
        out = progress_events j ps @ ev)"

lemma deliveredI:
  "deliver_result held ec rec b bin j = (j', ev) \<Longrightarrow> (held \<longrightarrow> ec = FT_EIO) \<Longrightarrow> delivered j j' (progress_events j ps @ ev)"
  unfolding delivered_def by blast

lemma deliveredI0:
  "deliver_result held ec rec b bin j = (j', ev) \<Longrightarrow> (held \<longrightarrow> ec = FT_EIO) \<Longrightarrow> delivered j j' ev"
  using deliveredI [of held ec rec b bin j j' ev "[]"] by (simp add: progress_events_def)

lemma run_ability_delivered:
  assumes "run_ability_job env t j = Ret (t', j', out)"
  shows "delivered j j' out"
proof -
  obtain body cache ec where
    "(if cache \<or> body \<noteq> [] then deliver_result False 0 0 body [] j
      else deliver_result False (if ec \<noteq> 0 then ec else FT_EIO) 0 [] [] j) = (j', out)"
    using assms unfolding run_ability_job_def io_bind_Ret_iff by auto
  then show ?thesis by (metis (full_types) deliveredI0)
qed

lemma report_delivered:
  "delivered j (fst (report_upload uo j)) (progress_events j ps @ snd (report_upload uo j))"
  "delivered j (fst (report_download dl j)) (progress_events j ps @ snd (report_download dl j))"
  by (auto simp: report_upload_def report_download_def intro: deliveredI [OF prod.collapse [symmetric]])

lemma run_job_delivered: "run_job env t j = Ret (t', j', out) \<Longrightarrow> delivered j j' out"
  by (auto simp: run_job_def run_upload_job_def run_download_job_def io_bind_Ret_iff case_prod_beta' split: if_splits
      intro: deliveredI0 run_ability_delivered report_delivered)

lemma run_job_reports: "run_job env t j = Ret (t', j', out) \<Longrightarrow> reports j j' out"
  using run_job_delivered reports_deliver unfolding delivered_def by metis


definition refusing_env :: ft_env where
  "refusing_env = \<lparr>fe_attempt = (\<lambda>_. ([], 0, Inl ''refused'')), fe_files = (\<lambda>_. None), fe_md5 = (\<lambda>_. []),
     fe_cancels = (\<lambda>_. False), fe_version = []\<rparr>"

lemma refused_connect:
  "connect_lan_tunnel refusing_env new_ft_tunnel =
     Ret (''refused'', new_ft_tunnel\<lparr>ft_conn := Some new_connection, ft_tries := 1\<rparr>)"
  by (simp add: connect_lan_tunnel_def refusing_env_def new_ft_tunnel_def is_connected_def new_connection_def
      connect_def disconnect_def)

text \<open>A refused connect: the result callback of an upload runs while the mutex is held.\<close>

lemma refused_upload_holds_mutex:
  "run_job refusing_env new_ft_tunnel (new_ft_job\<lparr>fj_cmd_type := 5, fj_result_cb := Some 3\<rparr>) =
     Ret (new_ft_tunnel\<lparr>ft_conn := Some new_connection, ft_tries := 1\<rparr>,
       new_ft_job\<lparr>fj_cmd_type := 5, fj_result_cb := Some 3, fj_finished := True, fj_res_ec := FT_EIO\<rparr>,
       [(True, Result_cb 3 \<lparr>fr_ec = FT_EIO, fr_resp_ec = 0, fr_json = Some [], fr_bin = None, fr_bin_size = 0\<rparr>)])"
  by (simp add: run_job_def kCmdTypeMediaAbility_def kCmdTypeUpload_def run_upload_job_def refused_connect
      deliver_result_def new_ft_job_def)


section \<open>Connecting and the ability cache\<close>

text \<open>Every \<open>ft_tunnel_start_connect\<close> that returns has called its callback once, so Studio never waits for it.\<close>

lemma start_connect_calls_once:
  assumes "start_connect env (Some u) t = Ret (t', out)"
  shows "\<exists>err msg. out = (ft_is_lan t, Connect_cb u (if err = 0 then 0 else 1) err msg) #
      status_event (ft_is_lan t) t' (if err = 0 then 1 else -1) err msg \<and>
     (err = 0 \<and> ft_is_lan t \<or> err = FT_EIO)"
proof (cases "ft_is_lan t")
  case False
  then show ?thesis
    using assms by (auto simp: start_connect_def connect_event_def status_event_def FT_EIO_def)
next
  case True
  with assms obtain e t1 where "connect_lan_tunnel env (t\<lparr>ft_conn_cb := Some u\<rparr>) = Ret (e, t1)"
    by (auto simp: start_connect_def io_bind_Ret_iff)
  with True assms show ?thesis
    by (intro exI [of _ "if e = [] then 0 else FT_EIO"] exI [of _ "if e = [] then ''ok'' else e"])
      (auto simp: start_connect_def connect_event_def FT_EIO_def)
qed

text \<open>Once the printer has said where it can store files, no ability job asks it again.\<close>

lemma ability_cached:
  "ft_ability_probed t \<Longrightarrow> run_ability_job env t j = Ret (t, deliver_result False 0 0 (ft_ability_cache t) [] j)"
  unfolding run_ability_job_def by simp

lemma ability_probed_by_success:
  assumes "run_ability_job env t j = Ret (t', j', out)" and "fj_res_ec j' = 0"
  shows "ft_ability_probed t'"
proof -
  have e: "deliver_result h ec rec b bin j = (j', out) \<Longrightarrow> fj_res_ec j' = ec" for h ec rec b bin
    by (auto simp: deliver_result_def)
  have "deliver_result False (-3) 0 [] [] j \<noteq> (j', out)" using e [of False "-3"] assms(2) by auto
  then show ?thesis
    using assms(1) unfolding run_ability_job_def io_bind_Ret_iff
    by (auto simp: io_bind_Ret_iff FT_EIO_def split: if_split_asm)
qed

text \<open>A shut down tunnel can be connected again: nothing reads \<open>shut_down\<close>.\<close>

lemma shutdown_not_final:
  "connect_lan_tunnel env (tunnel_shutdown t) = Ret (err, t') \<Longrightarrow> ft_shut_down t'"
  by (auto simp: connect_lan_tunnel_def tunnel_shutdown_def Let_def io_bind_Ret_iff split: if_splits prod.splits option.splits)

section \<open>Lifetime of the handles\<close>

lemma count_pos: "0 < count_list xs x \<longleftrightarrow> x \<in> set xs"
  by (metis count_list_0_iff not_gr_zero)

text \<open>C30: The objects behind the handles live exactly as long as they are used: a tunnel or job that the client
  holds or that a running thread captured exists, and one that neither uses any more is gone. The
  client may release its handles while the thread still runs.\<close>

theorem handles_stay_alive:
  assumes "ft_reachable s"
  shows "(\<exists>c. sy_tunnels s t = Some c) = (0 < sy_tunnel_refs s t \<or> t \<in> fst ` set (sy_workers s)) \<and>
    (\<exists>c. sy_jobs s j = Some c) = (0 < sy_job_refs s j \<or> j \<in> snd ` set (sy_workers s))"
proof -
  have "counted_ok (tunnel_uses s) (sy_tunnels s)" "counted_ok (job_uses s) (sy_jobs s)"
    using ft_reachable_ok [OF assms] by (simp_all add: handles_ok_def)
  from this [THEN counted_alive_iff] have "(\<exists>c. sy_tunnels s t = Some c) = (0 < tunnel_uses s t)" "(\<exists>c. sy_jobs s j = Some c) = (0 < job_uses s j)"
    by blast+
  then show ?thesis by (simp add: uses_defs count_pos)
qed

definition released_system :: ft_system where
  "released_system =
     (let s1 = initial_system\<lparr>sy_tunnels := heap_new 0 (ft_tunnel_of (Some ''bambu:///local/10.0.0.7'')) (\<lambda>_. None),
                sy_tunnel_refs := (\<lambda>_. 0)(0 := 1)\<rparr>;
          s2 = s1\<lparr>sy_jobs := heap_new 1 (ft_job_of None) (\<lambda>_. None), sy_job_refs := (\<lambda>_. 0)(1 := 1)\<rparr>;
          s3 = ft_tunnel_start_job 0 1 s2
      in s3\<lparr>sy_tunnels := ft_release 0 (sy_tunnels s3), sy_tunnel_refs := (sy_tunnel_refs s3)(0 := 0)\<rparr>)"

lemma released_reachable: "ft_reachable released_system"
proof -
  define s1 where "s1 = initial_system\<lparr>sy_tunnels := heap_new 0 (ft_tunnel_of (Some ''bambu:///local/10.0.0.7'')) (\<lambda>_. None),
    sy_tunnel_refs := (\<lambda>_. 0)(0 := 1)\<rparr>"
  define s2 where "s2 = s1\<lparr>sy_jobs := heap_new 1 (ft_job_of None) (\<lambda>_. None), sy_job_refs := (\<lambda>_. 0)(1 := 1)\<rparr>"
  have "ft_step initial_system s1"
    using tunnel_create [of initial_system 0 "Some ''bambu:///local/10.0.0.7''"] by (simp add: s1_def initial_system_def)
  moreover have "ft_step s1 s2"
    using job_create [of s1 1 None] by (simp add: s1_def s2_def initial_system_def)
  moreover have "ft_step s2 (ft_tunnel_start_job 0 1 s2)"
    by (rule start_job) (simp_all add: s1_def s2_def)
  moreover have "ft_step (ft_tunnel_start_job 0 1 s2) released_system"
    using tunnel_release [of "ft_tunnel_start_job 0 1 s2" 0]
    by (simp add: released_system_def Let_def ft_tunnel_start_job_def spawn_job_def s1_def s2_def heap_new_def
        ft_tunnel_of_def parse_lan_url_def kLanPrefix_def starts_with_def new_ft_tunnel_def)
  ultimately show ?thesis
    unfolding ft_reachable_def by (meson rtranclp.rtrancl_refl rtranclp.rtrancl_into_rtrancl)
qed

theorem handles_stay_alive_witness:
  "sy_tunnel_refs released_system 0 = 0 \<and> (\<exists>c. sy_tunnels released_system 0 = Some c)"
proof -
  have "sy_tunnel_refs released_system 0 = 0 \<and> sy_workers released_system = [(0, 1)]"
    by (simp add: released_system_def Let_def ft_tunnel_start_job_def spawn_job_def initial_system_def heap_new_def
        ft_tunnel_of_def parse_lan_url_def kLanPrefix_def starts_with_def new_ft_tunnel_def)
  then show ?thesis using handles_stay_alive [OF released_reachable, of 0] by simp
qed

end
