(* ===== verification/Passthrough_Laws.thy ===== *)
theory Passthrough_Laws
  imports Rtsp_Passthrough
begin

text \<open>
  From the camera's stream to the samples of the player: the worker turns the units of each access
  unit into one sample, and the caller sees whole access units in order.
\<close>

section \<open>Access units\<close>

text \<open>An access unit: time stamp, whether its last packet carries the marker, and its units.\<close>

type_synonym access_unit = "u32 \<times> bool \<times> bytes list"

definition unit_nalus :: "access_unit \<Rightarrow> nalu list" where
  "unit_nalus = (\<lambda>(ts, m, nals). nalus_of ts m nals)"

definition unit_key :: "h264_track \<Rightarrow> access_unit \<Rightarrow> bytes \<times> int" where
  "unit_key tr = (\<lambda>(ts, m, nals). key_of (sample_nals tr nals) (list_ex idr_nal nals))"

definition unit_ok :: "access_unit \<Rightarrow> bool" where
  "unit_ok = (\<lambda>(ts, m, nals). nals \<noteq> [] \<and> [] \<notin> set nals \<and> \<not> parameter_nal (last nals))"

text \<open>An access unit ends at its marker or before another time stamp.\<close>

fun units_apart :: "access_unit list \<Rightarrow> bool" where
  "units_apart [] = True"
| "units_apart [(ts, m, nals)] = m"
| "units_apart ((ts, m, nals) # (ts', m', nals') # us) = ((m \<or> ts \<noteq> ts') \<and> units_apart ((ts', m', nals') # us))"

lemma sample_nals_Cons: "sample_nals tr (x # xs) = sample_nals tr [x] @ sample_nals tr xs"
  by (simp add: sample_nals_def)

lemma sample_nals_Nil [simp]: "sample_nals tr [] = []"
  by (simp add: sample_nals_def)

lemma parameter_not_idr: "parameter_nal x \<Longrightarrow> \<not> idr_nal x"
  by (auto simp: parameter_nal_def idr_nal_def nal_is_sps_def nal_is_pps_def)

lemma parameter_skipped: "parameter_nal x \<Longrightarrow> sample_nals tr [x] = []"
  by (simp add: sample_nals_def)

definition unit_end :: "bool \<Rightarrow> u32 \<Rightarrow> (bytes \<times> int) list \<Rightarrow> bytes list \<Rightarrow> bool \<Rightarrow> made" where
  "unit_end m ts ks xs idr = (if m then (ks @ [key_of xs idr], None) else (ks, Some (ts, xs, idr)))"

text \<open>A unit without parameter sets, with the access unit open or not.\<close>

definition opened :: "u32 \<Rightarrow> bool \<Rightarrow> bytes list \<Rightarrow> bool \<Rightarrow> (u32 \<times> bytes list \<times> bool) option" where
  "opened ts op xs idr = (if op then Some (ts, xs, idr) else None)"

lemma take_made_video:
  assumes "x \<noteq> []" and "\<not> parameter_nal x" and "op \<or> xs = [] \<and> \<not> idr"
  shows "take_made tr \<lparr>nu_data = x, nu_ts = ts, nu_au_end = m\<rparr> (ks, opened ts op xs idr) =
    unit_end m ts ks (xs @ sample_nals tr [x]) (idr \<or> idr_nal x)"
  using assms by (cases op) (auto simp: take_made_def cut_made_def add_made_def opened_def unit_end_def)

lemma unit_collected:
  assumes "nals \<noteq> []" and "[] \<notin> set nals" and "\<not> parameter_nal (last nals)" and "op \<or> xs = [] \<and> \<not> idr"
  shows "fold (take_made tr) (nalus_of ts m nals) (ks, opened ts op xs idr) =
    unit_end m ts ks (xs @ sample_nals tr nals) (idr \<or> list_ex idr_nal nals)"
  using assms
proof (induction nals arbitrary: op xs idr)
  case (Cons x nals)
  have x: "x \<noteq> []" using Cons.prems(2) by auto
  show ?case
  proof (cases "nals = []")
    case True
    then show ?thesis using take_made_video [OF x _ Cons.prems(4)] Cons.prems(3) by simp
  next
    case False
    then have ih: "fold (take_made tr) (nalus_of ts m nals) (ks, opened ts op' ys idr') =
        unit_end m ts ks (ys @ sample_nals tr nals) (idr' \<or> list_ex idr_nal nals)"
      if "op' \<or> ys = [] \<and> \<not> idr'" for op' ys idr'
      using Cons.IH [of op' ys idr'] Cons.prems(2,3) that by simp
    show ?thesis
    proof (cases "parameter_nal x")
      case True
      then have "take_made tr \<lparr>nu_data = x, nu_ts = ts, nu_au_end = False\<rparr> (ks, opened ts op xs idr) = (ks, opened ts op xs idr)"
        by (simp add: take_made_def)
      then show ?thesis
        using False True ih [OF Cons.prems(4)] parameter_not_idr [OF True] parameter_skipped [OF True]
        by (simp add: sample_nals_Cons [of tr x nals])
    next
      case video: False
      have "take_made tr \<lparr>nu_data = x, nu_ts = ts, nu_au_end = False\<rparr> (ks, opened ts op xs idr) =
          (ks, opened ts True (xs @ sample_nals tr [x]) (idr \<or> idr_nal x))"
        using take_made_video [OF x video Cons.prems(4), of tr ts False ks] by (simp add: unit_end_def opened_def)
      then show ?thesis
        using False ih [of True] by (simp add: sample_nals_Cons [of tr x nals])
    qed
  qed
qed simp

lemma unit_cuts:
  assumes "nals \<noteq> []" and "[] \<notin> set nals" and "\<not> parameter_nal (last nals)" and "t \<noteq> ts"
  shows "fold (take_made tr) (nalus_of ts m nals) (ks, Some (t, xs, idr)) =
    fold (take_made tr) (nalus_of ts m nals) (ks @ [key_of xs idr], None)"
  using assms
proof (induction nals)
  case (Cons x nals)
  then show ?case
    by (cases "parameter_nal x"; cases "nals = []") (auto simp: take_made_def cut_made_def)
qed simp

text \<open>All access units, the one under construction included.\<close>

definition all_keys :: "made \<Rightarrow> (bytes \<times> int) list" where
  "all_keys st = (case st of (ks, u) \<Rightarrow> ks @ (case u of None \<Rightarrow> [] | Some (t, xs, idr) \<Rightarrow> [key_of xs idr]))"

lemma unit_taken:
  assumes "unit_ok (ts, m, nals)" and "\<And>t xs idr. u = Some (t, xs, idr) \<Longrightarrow> t \<noteq> ts"
  shows "\<exists>ks' u'. fold (take_made tr) (unit_nalus (ts, m, nals)) (ks, u) = (ks', u') \<and>
    all_keys (ks', u') = all_keys (ks, u) @ [unit_key tr (ts, m, nals)] \<and>
    (if m then u' = None else \<exists>xs idr. u' = Some (ts, xs, idr))"
proof -
  have ok: "nals \<noteq> []" "[] \<notin> set nals" "\<not> parameter_nal (last nals)" using assms(1) by (auto simp: unit_ok_def)
  have none: "fold (take_made tr) (nalus_of ts m nals) (k, None) = unit_end m ts k (sample_nals tr nals) (list_ex idr_nal nals)" for k
    using unit_collected [OF ok, of False "[]" False tr ts m k] by (simp add: opened_def)
  have "fold (take_made tr) (nalus_of ts m nals) (ks, u) = unit_end m ts (all_keys (ks, u)) (sample_nals tr nals) (list_ex idr_nal nals)"
  proof (cases u)
    case None
    then show ?thesis using none by (simp add: all_keys_def)
  next
    case (Some a)
    obtain t xs idr where a: "a = (t, xs, idr)" by (cases a) auto
    then have "t \<noteq> ts" using assms(2) Some by blast
    from unit_cuts [OF ok this] show ?thesis using Some a none by (simp add: all_keys_def)
  qed
  then show ?thesis by (auto simp: unit_nalus_def unit_end_def all_keys_def unit_key_def)
qed

lemma units_taken:
  assumes "list_all unit_ok us" and "units_apart us" and "us \<noteq> [] \<Longrightarrow> \<forall>t xs idr. u = Some (t, xs, idr) \<longrightarrow> t \<noteq> fst (hd us)"
    and "us = [] \<Longrightarrow> u = None"
  shows "fold (take_made tr) (concat (map unit_nalus us)) (ks, u) = (all_keys (ks, u) @ map (unit_key tr) us, None)"
  using assms
proof (induction us arbitrary: ks u)
  case Nil
  then show ?case by (simp add: all_keys_def)
next
  case (Cons x us)
  obtain ts m nals where x: "x = (ts, m, nals)" by (cases x) auto
  obtain ks' u' where s: "fold (take_made tr) (unit_nalus x) (ks, u) = (ks', u')"
    "all_keys (ks', u') = all_keys (ks, u) @ [unit_key tr x]" "if m then u' = None else \<exists>xs idr. u' = Some (ts, xs, idr)"
    using unit_taken [of ts m nals u tr ks] Cons.prems(1,3) x by auto
  have "units_apart us" "us = [] \<Longrightarrow> m" "us \<noteq> [] \<Longrightarrow> m \<or> ts \<noteq> fst (hd us)"
    using Cons.prems(2) x by (cases us; force)+
  then show ?case using Cons.IH [of u' ks'] Cons.prems(1) s by (auto split: if_splits)
qed

section \<open>The worker's loop\<close>

definition working :: "(bytes \<times> int) list \<Rightarrow> (u32 \<times> bytes list \<times> bool) option \<Rightarrow> passthrough \<Rightarrow> bool" where
  "working ks u p = (au_holds u p \<and> map sample_key (pp_ready p) = newest kMaxReadyQueue ks \<and>
     length (pp_ready p) \<le> kMaxReadyQueue \<and> pp_running p \<and> \<not> pp_stop p)"

lemma newest_length: "length (newest k xs) \<le> k"
  by (simp add: newest_def)

lemma working_takes:
  assumes "working ks u p" and "take_made (rt_track (pp_client p)) n (ks, u) = (ks', u')"
  shows "working ks' u' (take_nalu now n p)" and "pp_client (take_nalu now n p) = pp_client p"
proof -
  obtain added where a: "ks' = ks @ added" "au_holds u' (take_nalu now n p)" "pushed added p (take_nalu now n p)"
    using take_nalu_made [OF _ assms(2)] assms(1) by (auto simp: working_def)
  have k: "map sample_key (pp_ready (take_nalu now n p)) = newest kMaxReadyQueue ks'"
    using pushed_newest [OF a(3)] assms(1) a(1) by (simp add: working_def)
  then have "length (pp_ready (take_nalu now n p)) \<le> kMaxReadyQueue"
    using newest_length [of kMaxReadyQueue ks'] by (metis length_map)
  then show "working ks' u' (take_nalu now n p)" using a k assms(1) by (simp add: working_def pushed_def)
  show "pp_client (take_nalu now n p) = pp_client p" using a(3) by (simp add: pushed_def)
qed

lemma working_client: "working ks u (p\<lparr>pp_client := cl\<rparr>) = working ks u p"
  by (simp add: working_def au_holds_def split: option.split)

lemma worker_turns_feeding:
  assumes "working ks u p" and "feeding ms (pp_client p)"
    and "length ticks \<le> length (upcoming (tr_rtp_pt (rt_track (pp_client p))) ms (rt_depack (pp_client p)))"
  shows "\<exists>p' ks' u'. worker_turns ticks p = Ret p' \<and> working ks' u' p' \<and> (ks', u') =
    fold (take_made (rt_track (pp_client p)))
      (take (length ticks) (upcoming (tr_rtp_pt (rt_track (pp_client p))) ms (rt_depack (pp_client p)))) (ks, u)"
  using assms
proof (induction ticks arbitrary: ks u p ms)
  case (Cons t ticks)
  let ?tr = "rt_track (pp_client p)"
  obtain n ns where ns: "upcoming (tr_rtp_pt ?tr) ms (rt_depack (pp_client p)) = n # ns"
    using Cons.prems(3) by (cases "upcoming (tr_rtp_pt ?tr) ms (rt_depack (pp_client p))") auto
  obtain ms' cl where r: "read_nalu (pp_client p) = Ret (0, n, cl)" "feeding ms' cl" "rt_track cl = ?tr"
    "upcoming (tr_rtp_pt ?tr) ms' (rt_depack cl) = ns"
    using read_nalu_feeding [OF Cons.prems(2) ns] by blast
  define p1 where "p1 = take_nalu t n (p\<lparr>pp_client := cl\<rparr>)"
  obtain ks1 u1 where k: "take_made ?tr n (ks, u) = (ks1, u1)" by force
  have w: "working ks1 u1 p1" "pp_client p1 = cl"
    using working_takes [of ks u "p\<lparr>pp_client := cl\<rparr>" n ks1 u1 t] Cons.prems(1) k r(3)
    by (simp_all add: p1_def working_client)
  have "worker_turn t False p = Ret p1" "pp_running p"
    using Cons.prems(1) r(1) by (simp_all add: working_def worker_turn_def p1_def)
  then have "worker_turns (t # ticks) p = worker_turns ticks p1" by simp
  moreover have "length ticks \<le> length (upcoming (tr_rtp_pt (rt_track (pp_client p1))) ms' (rt_depack (pp_client p1)))"
    using Cons.prems(3) ns r(3,4) w(2) by simp
  ultimately show ?case
    using Cons.IH [OF w(1), of ms'] r(2-4) w(2) ns k by simp
qed auto

text \<open>C34: From the wire to the player: whatever records the TLS layer cuts, whatever frames and responses come between
  and in whatever packings the camera sends its H.264 units, when the worker has read the units it holds the newest
  eight samples ready, each with exactly the units of one access unit in Annex-B framing, the parameter
  sets of the session description before each IDR slice, and the sync flag on access units with one.\<close>

theorem camera_samples:
  assumes "stream_ok s" and "pt < 128" and "video ms = stream_packets pt ssrc s"
    and "stream_nalus s = concat (map unit_nalus us)" and "list_all unit_ok us" and "units_apart us"
    and "feeding ms (pp_client p)" and "tr_rtp_pt (rt_track (pp_client p)) = int pt" and "rt_depack (pp_client p) = new_depack"
    and "working [] None p" and "length ticks = length (stream_nalus s)"
  shows "\<exists>p'. worker_turns ticks p = Ret p' \<and>
    map sample_key (pp_ready p') = newest kMaxReadyQueue (map (unit_key (rt_track (pp_client p))) us)"
proof -
  let ?tr = "rt_track (pp_client p)"
  have pend: "upcoming (tr_rtp_pt ?tr) ms (rt_depack (pp_client p)) = stream_nalus s"
    using stream_decoded [OF assms(1,2), of new_depack ssrc] assms(3,8,9) by (simp add: upcoming_def new_depack_def)
  obtain p' ks' u' where p': "worker_turns ticks p = Ret p'" "working ks' u' p'"
    "(ks', u') = fold (take_made ?tr) (take (length ticks) (stream_nalus s)) ([], None)"
    using worker_turns_feeding [OF assms(10,7), of ticks] assms(11) pend by auto
  moreover have "fold (take_made ?tr) (stream_nalus s) ([], None) = (map (unit_key ?tr) us, None)"
    using units_taken [OF assms(5,6), of None ?tr "[]"] assms(4) by (simp add: all_keys_def)
  ultimately show ?thesis using assms(11) by (auto simp: working_def)
qed

definition example_start :: passthrough where
  "example_start = new_passthrough\<lparr>pp_running := True,
     pp_client := example_client\<lparr>rt_track := new_track\<lparr>tr_sps := ''g1'', tr_pps := ''h1''\<rparr>\<rparr>\<rparr>"

theorem camera_samples_witness:
  "\<exists>p'. worker_turns [100, 200] example_start = Ret p' \<and>
     map sample_key (pp_ready p') = [(annexb [''A1'', ''A2''], 0)]"
proof -
  let ?s = "[(0, 90000, False, Single ''A1''), (1, 90000, True, Single ''A2'')]"
  let ?us = "[(90000, True, [''A1'', ''A2''])] :: access_unit list"
  have "stream_ok ?s" by (simp add: stream_ok_def nal_type_def)
  moreover have "(96 :: nat) < 128" by simp
  moreover have "video example_messages = stream_packets 96 7 ?s" by (simp add: example_messages_def stream_packets_def)
  moreover have "stream_nalus ?s = concat (map unit_nalus ?us)" by (simp add: stream_nalus_def unit_nalus_def)
  moreover have "list_all unit_ok ?us"
    by (simp add: unit_ok_def parameter_nal_def nal_is_sps_def nal_is_pps_def nal_type_def)
  moreover have "units_apart ?us" by simp
  moreover have "feeding example_messages (pp_client example_start)"
    using example_feeding by (simp add: example_start_def feeding_def)
  moreover have "tr_rtp_pt (rt_track (pp_client example_start)) = int 96" "rt_depack (pp_client example_start) = new_depack"
    by (simp_all add: example_start_def example_client_def Let_def new_rtsp_client_def new_track_def)
  moreover have "working [] None example_start"
    by (simp add: working_def au_holds_def example_start_def new_passthrough_def newest_def kMaxReadyQueue_def)
  moreover have "length [100, 200 :: nat] = length (stream_nalus ?s)" by (simp add: stream_nalus_def)
  ultimately obtain p' where "worker_turns [100, 200] example_start = Ret p'"
    "map sample_key (pp_ready p') = newest kMaxReadyQueue (map (unit_key (rt_track (pp_client example_start))) ?us)"
    using camera_samples [of ?s 96 example_messages 7 ?us example_start "[100, 200]"] by blast
  then show ?thesis
    by (simp add: unit_key_def key_of_def newest_def kMaxReadyQueue_def sample_nals_def parameter_nal_def nal_is_sps_def
        nal_is_pps_def nal_type_def idr_nal_def)
qed

text \<open>An access unit with two IDR slices repeats the parameter sets between them.\<close>

lemma idr_slices_each_prefixed:
  assumes "idr_nal x" and "idr_nal y"
  shows "sample_nals tr [x, y] = parameter_sets tr @ [x] @ parameter_sets tr @ [y]"
  using assms parameter_not_idr by (auto simp: sample_nals_def)

section \<open>Interleaved calls\<close>

definition always :: "('a \<Rightarrow> bool) \<Rightarrow> 'a io \<Rightarrow> bool" where
  "always Q m = (\<forall>r. m = Ret r \<longrightarrow> Q r)"

lemma always_Ret [simp]: "always Q (Ret r) = Q r"
  by (simp add: always_def)

lemma always_bind [intro!]: "(\<And>x. always Q (f x)) \<Longrightarrow> always Q (io_bind m f)"
  by (auto simp: always_def io_bind_Ret_iff)

lemma pull_one_track:
  assumes "pull_one_message c st = Ret (rc, st')"
  shows "rt_track st' = rt_track st"
proof -
  have keep: "rt_track (set_error_if e s) = rt_track s" "rt_track (take_rtp_frame ch p s) = rt_track s" "rt_track (rt_fail e s) = rt_track s"
    for e ch p s by (simp_all add: set_error_if_def rt_fail_def take_rtp_frame_def)
  have "always (\<lambda>(rc, s). rt_track s = rt_track st) (pull_one_message c st)"
    unfolding pull_one_message_def by (auto simp: keep Let_def simp del: io_bind.simps)
  then show ?thesis using assms by simp
qed

lemma read_nalu_track: "read_nalu st = Ret (rc, n, st') \<Longrightarrow> rt_track st' = rt_track st"
proof (induction st rule: read_nalu.induct)
  case (1 st)
  show ?case
  proof (cases "dp_queue (rt_depack st) \<noteq> [] \<or> rt_stop st \<or> rt_conn st = None")
    case True
    with 1(2) show ?thesis by (subst (asm) read_nalu.simps) (auto simp: pop_nalu_def split: list.splits if_splits)
  next
    case False
    then obtain c where c: "dp_queue (rt_depack st) = []" "\<not> rt_stop st" "rt_conn st = Some c" by auto
    obtain rc1 st1 where p: "pull_one_message c st = Ret (rc1, st1)"
      using 1(2) c by (subst (asm) read_nalu.simps) (auto split: io.splits)
    show ?thesis
    proof (cases "rc1 = 0")
      case True
      then show ?thesis using 1(1) [OF c p refl] 1(2) c p pull_one_track [OF p] by (subst (asm) (2) read_nalu.simps) auto
    next
      case rc1: False
      then show ?thesis using 1(2) c p pull_one_track [OF p] by (subst (asm) read_nalu.simps) auto
    qed
  qed
qed

text \<open>
  The worker and the caller in any order: the units the worker has read, and the samples the caller
  was given.
\<close>

inductive pt_run :: "passthrough \<Rightarrow> nalu list \<Rightarrow> sample list \<Rightarrow> passthrough \<Rightarrow> bool" for p0 where
  pt_start: "pt_run p0 [] [] p0"
| pt_read: "pt_run p0 ns pulled p \<Longrightarrow> pp_running p \<Longrightarrow> \<not> pp_stop p \<Longrightarrow> read_nalu (pp_client p) = Ret (0, n, cl)
    \<Longrightarrow> worker_turn now stopping p = Ret p' \<Longrightarrow> pt_run p0 (ns @ [n]) pulled p'"
| pt_end: "pt_run p0 ns pulled p \<Longrightarrow> pp_running p \<Longrightarrow> \<not> pp_stop p \<Longrightarrow> read_nalu (pp_client p) = Ret (rc, n, cl) \<Longrightarrow> rc \<noteq> 0
    \<Longrightarrow> worker_turn now stopping p = Ret p' \<Longrightarrow> pt_run p0 ns pulled p'"
| pt_pull: "pt_run p0 ns pulled p \<Longrightarrow> try_pull p = (Pull_Ok b dt fl, p')
    \<Longrightarrow> pt_run p0 ns (pulled @ [\<lparr>sm_bytes = b, sm_dt = dt, sm_flags = fl\<rparr>]) p'"
| pt_no_sample: "pt_run p0 ns pulled p \<Longrightarrow> try_pull p = (r, p') \<Longrightarrow> (\<And>b dt fl. r \<noteq> Pull_Ok b dt fl) \<Longrightarrow> pt_run p0 ns pulled p'"
| pt_stop: "pt_run p0 ns pulled p \<Longrightarrow> pt_run p0 ns pulled (passthrough_stop env reading p)"

text \<open>The queue: samples, then at most one mark, pushed by the worker as its last act.\<close>

definition in_order :: "h264_track \<Rightarrow> nalu list \<Rightarrow> sample list \<Rightarrow> passthrough \<Rightarrow> bool" where
  "in_order tr ns pulled p = (\<exists>ks u ss mk. fold (take_made tr) ns ([], None) = (ks, u) \<and>
     pp_ready p = ss @ mk \<and> length ss \<le> kMaxReadyQueue \<and> length mk \<le> 1 \<and> (mk \<noteq> [] \<longrightarrow> \<not> pp_running p) \<and>
     (\<forall>s \<in> set mk. flag_set 8 s \<or> flag_set 9 s) \<and> subseq (map sample_key (pulled @ ss)) ks \<and>
     (pp_running p \<longrightarrow> au_holds u p \<and> rt_track (pp_client p) = tr))"

lemma fold_push_suffix: "\<exists>pre. q @ ss = pre @ fold push_sample ss q"
proof (induction ss arbitrary: q)
  case (Cons s ss)
  obtain pre where "push_sample s q @ ss = pre @ fold push_sample ss (push_sample s q)" using Cons.IH by blast
  moreover have "q @ s # ss = take (length q + 1 - kMaxReadyQueue) q @ push_sample s q @ ss"
    by (simp add: push_sample_def make_room_def)
  ultimately show ?case by (metis append.assoc fold_simps(2))
qed simp

lemma fold_push_length: "length q \<le> kMaxReadyQueue \<Longrightarrow> length (fold push_sample ss q) \<le> kMaxReadyQueue"
  by (induction ss arbitrary: q) (simp_all add: push_sample_def make_room_def kMaxReadyQueue_def)

lemma in_order_read:
  assumes "in_order tr ns pulled p" and "pp_running p" and "\<not> pp_stop p" and "read_nalu (pp_client p) = Ret (0, n, cl)"
    and "worker_turn now stopping p = Ret p'"
  shows "in_order tr (ns @ [n]) pulled p'"
proof -
  obtain ks u where k: "fold (take_made tr) ns ([], None) = (ks, u)" "au_holds u p" "rt_track (pp_client p) = tr"
    "length (pp_ready p) \<le> kMaxReadyQueue" "subseq (map sample_key (pulled @ pp_ready p)) ks"
    using assms(1,2) by (auto simp: in_order_def)
  have tr: "rt_track cl = tr" using read_nalu_track [OF assms(4)] k(3) by simp
  have p': "p' = take_nalu now n (p\<lparr>pp_client := cl\<rparr>)" using assms(3-5) by (simp add: worker_turn_def)
  obtain ks' u' where t: "take_made tr n (ks, u) = (ks', u')" by force
  have "au_holds u (p\<lparr>pp_client := cl\<rparr>)" using k(2) by (auto simp: au_holds_def split: option.splits)
  then obtain added where a: "ks' = ks @ added" "au_holds u' p'" "pushed added (p\<lparr>pp_client := cl\<rparr>) p'"
    using take_nalu_made [of u "p\<lparr>pp_client := cl\<rparr>" n ks ks' u' now] t tr p' by auto
  then obtain ss where ss: "map sample_key ss = added" "pp_ready p' = fold push_sample ss (pp_ready p)" "pp_client p' = cl"
    by (auto simp: pushed_def)
  obtain pre where pre: "pp_ready p @ ss = pre @ pp_ready p'" using fold_push_suffix ss(2) by metis
  have "subseq (map sample_key (pulled @ pp_ready p')) (map sample_key (pulled @ pre @ pp_ready p'))"
    by (simp add: list_emb_append_mono subseq_drop_many)
  also have "map sample_key (pulled @ pre @ pp_ready p') = map sample_key (pulled @ pp_ready p) @ added"
    using pre ss(1) by (metis append.assoc map_append)
  also have "subseq \<dots> (ks @ added)" using k(5) by (rule list_emb_append_mono) simp
  finally have "subseq (map sample_key (pulled @ pp_ready p')) ks'" by (simp add: a(1))
  moreover have "length (pp_ready p') \<le> kMaxReadyQueue" using fold_push_length [OF k(4)] ss(2) by simp
  moreover have "fold (take_made tr) (ns @ [n]) ([], None) = (ks', u')" using k(1) t by simp
  ultimately show ?thesis
    using a(2) ss(3) tr unfolding in_order_def by (intro exI [of _ ks'] exI [of _ u'] exI [of _ "pp_ready p'"] exI [of _ "[]"]) simp
qed

lemma in_order_end:
  assumes "in_order tr ns pulled p" and "pp_running p" and "\<not> pp_stop p" and "read_nalu (pp_client p) = Ret (rc, n, cl)"
    and "rc \<noteq> 0" and "worker_turn now stopping p = Ret p'"
  shows "in_order tr ns pulled p'"
proof -
  obtain ks u where k: "fold (take_made tr) ns ([], None) = (ks, u)"
    "length (pp_ready p) \<le> kMaxReadyQueue" "subseq (map sample_key (pulled @ pp_ready p)) ks"
    using assms(1,2) by (auto simp: in_order_def)
  have p': "pp_ready p' = pp_ready p @ [end_marker rc stopping]" "\<not> pp_running p'"
    using assms(3-6) by (auto simp: worker_turn_def)
  have "flag_set 8 (end_marker rc stopping) \<or> flag_set 9 (end_marker rc stopping)"
    by (simp add: flag_set_def end_marker_def)
  then show ?thesis using k p' unfolding in_order_def
    by (intro exI [of _ ks] exI [of _ u] exI [of _ "pp_ready p"] exI [of _ "[end_marker rc stopping]"]) simp
qed

lemma in_order_pull:
  assumes "in_order tr ns pulled p" and "try_pull p = (r, p')"
  shows "in_order tr ns (case r of Pull_Ok b dt fl \<Rightarrow> pulled @ [\<lparr>sm_bytes = b, sm_dt = dt, sm_flags = fl\<rparr>] | _ \<Rightarrow> pulled) p'"
proof (cases "pp_ready p")
  case Nil
  then have "r = Pull_WouldBlock" "p' = p" using assms(2) by (simp_all add: try_pull_def)
  then show ?thesis using assms(1) by simp
next
  case (Cons s q)
  obtain ks u ss mk where k: "fold (take_made tr) ns ([], None) = (ks, u)" "pp_ready p = ss @ mk" "length ss \<le> kMaxReadyQueue"
    "length mk \<le> 1" "mk \<noteq> [] \<longrightarrow> \<not> pp_running p" "\<forall>s \<in> set mk. flag_set 8 s \<or> flag_set 9 s"
    "subseq (map sample_key (pulled @ ss)) ks" "pp_running p \<longrightarrow> au_holds u p \<and> rt_track (pp_client p) = tr"
    using assms(1) by (auto simp: in_order_def)
  have p': "pp_ready p' = q" "pp_running p' = pp_running p" "pp_client p' = pp_client p" "au_holds u p' = au_holds u p"
    using assms(2) Cons by (auto simp: try_pull_def Let_def au_holds_def split: if_splits option.splits)
  have r: "flag_set 8 s \<or> flag_set 9 s \<Longrightarrow> r = Pull_StreamEnd \<or> r = Pull_Error"
    "\<not> (flag_set 8 s \<or> flag_set 9 s) \<Longrightarrow> r = Pull_Ok (sm_bytes s) (sm_dt s) (sm_flags s)"
    using assms(2) Cons by (auto simp: try_pull_def Let_def split: if_splits)
  define pulled' where "pulled' = (case r of Pull_Ok b dt fl \<Rightarrow> pulled @ [\<lparr>sm_bytes = b, sm_dt = dt, sm_flags = fl\<rparr>] | _ \<Rightarrow> pulled)"
  have key: "\<lparr>sm_bytes = sm_bytes s, sm_dt = sm_dt s, sm_flags = sm_flags s\<rparr> = s" by simp
  show ?thesis
  proof (cases ss)
    case Nil
    then have "mk = [s]" "q = []" using k(2,4) Cons by (cases mk; simp)+
    then have "r = Pull_StreamEnd \<or> r = Pull_Error" using k(6) r(1) by simp
    then have "pulled' = pulled" by (auto simp: pulled'_def)
    then show ?thesis using k p' \<open>q = []\<close> Nil unfolding in_order_def pulled'_def [symmetric]
      by (intro exI [of _ ks] exI [of _ u] exI [of _ "[]"]) simp
  next
    case ss: (Cons s' ss')
    then have q: "s' = s" "q = ss' @ mk" using k(2) Cons by simp_all
    have "pulled' = pulled \<or> pulled' = pulled @ [s]" using r key by (cases "flag_set 8 s \<or> flag_set 9 s") (auto simp: pulled'_def)
    then have "subseq (map sample_key (pulled' @ ss')) (map sample_key (pulled @ ss))"
      using ss q(1) by (auto simp: subseq_append' intro: list_emb_Cons)
    then have "subseq (map sample_key (pulled' @ ss')) ks" using k(7) subseq_order.order_trans by blast
    then show ?thesis using k p' q ss unfolding in_order_def pulled'_def [symmetric]
      by (intro exI [of _ ks] exI [of _ u] exI [of _ ss'] exI [of _ mk]) simp
  qed
qed

lemma in_order_stop:
  assumes "in_order tr ns pulled p"
  shows "in_order tr ns pulled (passthrough_stop env reading p)"
proof -
  obtain ks u ss mk where k: "fold (take_made tr) ns ([], None) = (ks, u)" "pp_ready p = ss @ mk" "length ss \<le> kMaxReadyQueue"
    "length mk \<le> 1" "mk \<noteq> [] \<longrightarrow> \<not> pp_running p" "\<forall>s \<in> set mk. flag_set 8 s \<or> flag_set 9 s"
    "subseq (map sample_key (pulled @ ss)) ks" "pp_running p \<longrightarrow> au_holds u p \<and> rt_track (pp_client p) = tr"
    using assms(1) by (auto simp: in_order_def)
  let ?p = "passthrough_stop env reading p"
  define mk' where "mk' = (if \<not> pp_stop p \<and> pp_running p \<and> reading then [end_marker (-1) True] else mk)"
  have "flag_set 8 (end_marker (-1) True)" by (simp add: flag_set_def end_marker_def)
  then have m: "length mk' \<le> 1" "\<forall>s \<in> set mk'. flag_set 8 s \<or> flag_set 9 s" using k(4,6) by (simp_all add: mk'_def)
  have p: "pp_ready ?p = ss @ mk'" using k(2,5) by (auto simp: passthrough_stop_def mk'_def Let_def)
  show ?thesis
  proof (cases "pp_stop p")
    case True
    then show ?thesis using assms by (simp add: passthrough_stop_def)
  next
    case False
    then have "\<not> pp_running ?p" by (simp add: passthrough_stop_def Let_def)
    with k(1,3,7) p m show ?thesis unfolding in_order_def
      by (intro exI [of _ ks] exI [of _ u] exI [of _ ss] exI [of _ mk']) simp
  qed
qed

text \<open>C35: Whatever the worker and the caller do in which order, the samples the caller is given, with those
  still queued, are whole access units in the order of the units read, each at most once; the queue
  never grows beyond nine entries, the ninth the mark of the end.\<close>

theorem pulls_in_order:
  assumes "pt_run p0 ns pulled p" and "pp_ready p0 = []" and "au_holds None p0"
  shows "subseq (map sample_key pulled) (fst (fold (take_made (rt_track (pp_client p0))) ns ([], None))) \<and>
    length (pp_ready p) \<le> kMaxReadyQueue + 1"
proof -
  have "in_order (rt_track (pp_client p0)) ns pulled p"
    using assms(1)
  proof induction
    case pt_start
    then show ?case using assms(2,3) unfolding in_order_def by (intro exI [of _ "[]"] exI [of _ None]) simp
  next
    case (pt_read ns pulled p n cl now stopping p')
    then show ?case using in_order_read by blast
  next
    case (pt_end ns pulled p rc n cl now stopping p')
    then show ?case using in_order_end by blast
  next
    case (pt_pull ns pulled p b dt fl p')
    then show ?case using in_order_pull [OF pt_pull.IH pt_pull.hyps(2)] by simp
  next
    case (pt_no_sample ns pulled p r p')
    then show ?case using in_order_pull [OF pt_no_sample.IH pt_no_sample.hyps(2)] by (cases r) auto
  next
    case (pt_stop ns pulled p env reading)
    then show ?case using in_order_stop by blast
  qed
  then obtain ks u ss mk where k: "fold (take_made (rt_track (pp_client p0))) ns ([], None) = (ks, u)" "pp_ready p = ss @ mk"
    "length ss \<le> kMaxReadyQueue" "length mk \<le> 1" "subseq (map sample_key (pulled @ ss)) ks"
    by (auto simp: in_order_def)
  have "subseq (map sample_key pulled) (map sample_key (pulled @ ss))" by (simp add: list_emb_prefix)
  then have "subseq (map sample_key pulled) ks" using k(5) subseq_order.order_trans by blast
  then show ?thesis using k by simp
qed

definition example_unit :: nalu where
  "example_unit = \<lparr>nu_data = ''A1'', nu_ts = 5, nu_au_end = True\<rparr>"

definition example_pull :: passthrough where
  "example_pull = new_passthrough\<lparr>pp_running := True,
     pp_client := new_rtsp_client\<lparr>rt_depack := new_depack\<lparr>dp_queue := [example_unit]\<rparr>\<rparr>\<rparr>"

theorem pulls_in_order_witness:
  "\<exists>p. pt_run example_pull [example_unit] [\<lparr>sm_bytes = annexb [''A1''], sm_dt = 7, sm_flags = 0\<rparr>] p \<and>
     subseq [(annexb [''A1''], 0)] (fst (fold (take_made new_track) [example_unit] ([], None)))"
proof -
  define p1 where "p1 = take_nalu 700 example_unit (example_pull\<lparr>pp_client := pop_nalu (pp_client example_pull)\<rparr>)"
  have r: "read_nalu (pp_client example_pull) = Ret (0, example_unit, pop_nalu (pp_client example_pull))"
    by (subst read_nalu.simps) (simp add: example_pull_def)
  have "worker_turn 700 False example_pull = Ret p1"
    using r by (simp add: worker_turn_def p1_def) (simp add: example_pull_def new_passthrough_def)
  then have 1: "pt_run example_pull [example_unit] [] p1"
    using pt_run.pt_read [OF pt_run.pt_start _ _ r, of 700 False p1] by (simp add: example_pull_def new_passthrough_def)
  have "pp_ready p1 = [\<lparr>sm_bytes = annexb [''A1''], sm_dt = 7, sm_flags = 0\<rparr>]"
    by (simp add: p1_def take_nalu_def example_unit_def example_pull_def new_passthrough_def nal_is_sps_def nal_is_pps_def
        nal_type_def append_unit_def open_au_def append_annexb flush_au_def make_room_def kMaxReadyQueue_def Let_def)
  then have "\<exists>p2. try_pull p1 = (Pull_Ok (annexb [''A1'']) 7 0, p2)"
    by (simp add: try_pull_def flag_set_def)
  then obtain p2 where p2: "try_pull p1 = (Pull_Ok (annexb [''A1'']) 7 0, p2)" by blast
  have run: "pt_run example_pull [example_unit] [\<lparr>sm_bytes = annexb [''A1''], sm_dt = 7, sm_flags = 0\<rparr>] p2"
    using pt_run.pt_pull [OF 1 p2] by simp
  have "pp_ready example_pull = []" "au_holds None example_pull" "rt_track (pp_client example_pull) = new_track"
    by (simp_all add: example_pull_def new_passthrough_def au_holds_def new_rtsp_client_def)
  with pulls_in_order [OF run] run show ?thesis by (auto simp: sample_key_def)
qed

end
