(* ===== verification/Camera_Laws.thy ===== *)
theory Camera_Laws
  imports Camera_Source File_Laws Passthrough_Laws
begin

text \<open>
  Laws of the camera source library: the URLs Studio builds, the JPEG stream, and the control
  channel.
\<close>

section \<open>URLs\<close>

lemma unreserved_chars: "unreserved c \<Longrightarrow> c \<noteq> CHR ''%'' \<and> c \<noteq> CHR ''+'' \<and> c \<noteq> CHR '':'' \<and> c \<noteq> CHR ''@'' \<and>
    c \<noteq> CHR ''?'' \<and> c \<noteq> SLASH \<and> c \<noteq> CHR ''&'' \<and> c \<noteq> CHR ''=''"
  by (auto simp: unreserved_def is_digit_def)

lemma url_decode_plain: "c \<noteq> CHR ''%'' \<Longrightarrow> url_decode (c # s) = plus_blank c # url_decode s"
  by (cases s; cases "tl s") auto

lemma url_decode_url_char: "url_decode (url_char c @ s) = c # url_decode s"
proof (cases "unreserved c")
  case True
  with unreserved_chars [OF True] show ?thesis by (simp add: url_char_def url_decode_plain plus_blank_def)
next
  case False
  have "code_of c mod 16 < (16 :: nat)" by simp
  with False show ?thesis by (simp add: url_char_def hex_val_hex_digit nibble)
qed

lemma url_decode_url_encode: "url_decode (url_encode s @ r) = s @ url_decode r"
  by (induction s) (simp_all add: url_encode_def url_decode_url_char)

lemma url_decode_encoded [simp]: "url_decode (url_encode s) = s"
  using url_decode_url_encode [of s "[]"] by simp

lemma take_camera_pair_text: "CHR ''='' \<notin> set k \<Longrightarrow> take_camera_pair (k @ ''='' @ url_encode v) u = set_camera_key k v u"
  by (simp add: take_camera_pair_def)

lemma read_camera_query_text:
  "\<forall>(k, v) \<in> set kvs. CHR ''='' \<notin> set k \<and> CHR ''&'' \<notin> set k \<Longrightarrow>
   read_camera_query (query_text kvs) u = fold (\<lambda>(k, v). set_camera_key k v) kvs u"
proof (induction kvs arbitrary: u rule: query_text.induct)
  case 1
  then show ?case by (simp add: read_camera_query.simps)
next
  case (2 k v)
  have n: "find_char (CHR ''&'') (query_text [(k, v)]) = None"
    unfolding find_char_None_iff using 2 pair_no_amp [of k v] by simp
  have "read_camera_query (query_text [(k, v)]) u = take_camera_pair (query_text [(k, v)]) u"
    unfolding read_camera_query.simps [of "query_text [(k, v)]" u] n by simp
  then show ?case
    using 2 take_camera_pair_text [of k v] by simp
next
  case (3 k v kv kvs)
  have "find_char (CHR ''&'') (query_text ((k, v) # kv # kvs)) = Some (length (k @ ''='' @ url_encode v))"
    using 3 pair_no_amp [of k v] find_char_append_here [of "CHR ''&''" "k @ ''='' @ url_encode v" "query_text (kv # kvs)"]
    by simp
  then show ?case
    using 3 take_camera_pair_text [of k v] by (subst read_camera_query.simps) simp
qed

text \<open>The two shapes of URL, with every value percent-encoded.\<close>

definition common_pairs :: "camera_url \<Rightarrow> (bytes \<times> bytes) list" where
  "common_pairs u = [(''device'', cu_device u), (''cli_id'', cu_cli_id u), (''cli_ver'', cu_cli_ver u), (''net_ver'', cu_net_ver u)]"

definition local_camera_text :: "camera_url \<Rightarrow> bytes" where
  "local_camera_text u = ''bambu:///local/'' @ cu_host u @ ''.?'' @
     query_text ((''port'', show_int (cu_port u)) # (''user'', cu_user u) # (''passwd'', cu_passwd u) # common_pairs u)"

definition rtsps_camera_text :: "camera_url \<Rightarrow> bytes" where
  "rtsps_camera_text u = ''bambu:///rtsps___'' @ url_encode (cu_user u) @ '':'' @ url_encode (cu_passwd u) @ ''@'' @
     cu_host u @ '':'' @ show_int (cu_port u) @ cu_path u @ ''?'' @ query_text (common_pairs u)"

definition host_ok :: "bytes \<Rightarrow> bool" where
  "host_ok h = (h \<noteq> [] \<and> set h \<inter> {CHR ''?'', CHR '':'', SLASH, CHR ''@''} = {} \<and> last h \<noteq> CHR ''.'')"

lemma rtrim_host: "host_ok h \<Longrightarrow> rtrim_by (\<lambda>c. c = SLASH \<or> c = CHR ''.'') (h @ ''.'') = h"
proof -
  assume h: "host_ok h"
  then have l: "last h \<in> set h" by (simp add: host_ok_def)
  have "last h \<noteq> SLASH"
  proof
    assume "last h = SLASH"
    with l h show False by (simp add: host_ok_def)
  qed
  then have "rtrim_by (\<lambda>c. c = SLASH \<or> c = CHR ''.'') h = h" using h by (simp add: host_ok_def)
  then show ?thesis by (simp add: rtrim_by_def)
qed

lemma local_camera_reads_back:
  assumes "host_ok (cu_host u)" and "0 < cu_port u" "cu_port u < 2 ^ 31"
    and "cu_scheme u = Scheme_local" and "cu_path u = ''/streaming/live/1''"
  shows "parse_url (local_camera_text u) = Some u"
proof -
  have h: "CHR ''?'' \<notin> set (cu_host u @ ''.'')" "CHR '':'' \<notin> set (cu_host u)" "cu_host u \<noteq> []"
    using assms(1) by (auto simp: host_ok_def)
  let ?kvs = "(''port'', show_int (cu_port u)) # (''user'', cu_user u) # (''passwd'', cu_passwd u) # common_pairs u"
  define q where "q = query_text ?kvs"
  have f: "find_char (CHR ''?'') (cu_host u @ ''.?'' @ q) = Some (length (cu_host u) + 1)"
    using find_char_append_here [OF h(1), of q] by simp
  have s: "url_scheme (local_camera_text u) = (Scheme_local, 6000, cu_host u @ ''.?'' @ q)"
    by (simp add: url_scheme_def local_camera_text_def starts_with_def q_def)
  let ?u0 = "new_camera_url\<lparr>cu_scheme := Scheme_local, cu_port := 6000\<rparr>"
  have "\<forall>(k, v) \<in> set ?kvs. CHR ''='' \<notin> set k \<and> CHR ''&'' \<notin> set k" by (simp add: common_pairs_def)
  then have r: "read_camera_query q (?u0\<lparr>cu_host := cu_host u\<rparr>) = u"
    using assms(2-5) by (simp only: q_def read_camera_query_text) (simp add: set_camera_key_def common_pairs_def new_camera_url_def)
  have sp: "split_host (cu_host u @ ''.'') ?u0 = (cu_host u, ?u0)"
    using rtrim_host [OF assms(1)] by (simp add: split_host_def)
  have th: "take_host (cu_host u) ?u0 = Some (?u0\<lparr>cu_host := cu_host u\<rparr>)" 
    using iffD2 [OF find_char_None_iff h(2)] by (simp add: take_host_def del: find_char_None_iff)
  have "take (length (cu_host u) + 1) (cu_host u @ ''.?'' @ q) = cu_host u @ ''.''" "drop (length (cu_host u) + 1 + 1) (cu_host u @ ''.?'' @ q) = q"
    by simp_all
  with s f sp th r h(3) assms(2) show ?thesis
    by (simp only: parse_url_def Let_def prod.case option.case) simp
qed

lemma encoded_no:
  "CHR '':'' \<notin> set (url_encode s)" "CHR ''@'' \<notin> set (url_encode s)" "CHR ''?'' \<notin> set (url_encode s)"
  using url_encode_chars [of _ s] unreserved_chars by fastforce+

lemma rtsps_camera_reads_back:
  assumes "host_ok (cu_host u)" and "0 < cu_port u" "cu_port u < 2 ^ 31"
    and "cu_scheme u = Scheme_rtsps" and "cu_path u = SLASH # r" and "CHR ''?'' \<notin> set (cu_path u)"
  shows "parse_url (rtsps_camera_text u) = Some u"
proof -
  have h: "CHR ''?'' \<notin> set (cu_host u)" "CHR '':'' \<notin> set (cu_host u)" "SLASH \<notin> set (cu_host u)" "cu_host u \<noteq> []"
    using assms(1) by (auto simp: host_ok_def)
  have port: "\<forall>c \<in> set (show_int (cu_port u)). is_digit c" using assms(2) show_nat_all_digits by (simp add: show_int_def)
  then have p: "CHR ''?'' \<notin> set (show_int (cu_port u))" "SLASH \<notin> set (show_int (cu_port u))" by (auto simp: is_digit_def)
  define info where "info = url_encode (cu_user u) @ '':'' @ url_encode (cu_passwd u)"
  define place where "place = cu_host u @ '':'' @ show_int (cu_port u)"
  define q where "q = query_text (common_pairs u)"
  have t: "rtsps_camera_text u = ''bambu:///rtsps___'' @ (info @ ''@'' @ place @ cu_path u) @ CHR ''?'' # q"
    by (simp add: rtsps_camera_text_def info_def place_def q_def)
  have s: "url_scheme (rtsps_camera_text u) = (Scheme_rtsps, 322, (info @ ''@'' @ place @ cu_path u) @ CHR ''?'' # q)"
    unfolding t by (simp add: url_scheme_def starts_with_def)
  have f1: "find_char (CHR ''?'') ((info @ ''@'' @ place @ cu_path u) @ CHR ''?'' # q) = Some (length (info @ ''@'' @ place @ cu_path u))"
    using encoded_no h(1) p(1) assms(6) by (intro find_char_append_here) (simp add: info_def place_def)
  have f2: "find_char (CHR ''@'') (info @ ''@'' @ place @ cu_path u) = Some (length info)"
    using encoded_no find_char_append_here [of "CHR ''@''" info "place @ cu_path u"] by (simp add: info_def)
  have f3: "find_char SLASH (place @ cu_path u) = Some (length place)"
    using h(3) p(2) find_char_append_here [of SLASH place r] by (simp add: assms(5) place_def)
  have f4: "find_char (CHR '':'') info = Some (length (url_encode (cu_user u)))"
    using encoded_no(1) by (simp add: info_def)
  have f5: "find_char (CHR '':'') place = Some (length (cu_host u))" using h(2) by (simp add: place_def)
  let ?u0 = "new_camera_url\<lparr>cu_scheme := Scheme_rtsps, cu_port := 322\<rparr>"
  let ?u1 = "?u0\<lparr>cu_user := cu_user u, cu_passwd := cu_passwd u, cu_path := cu_path u\<rparr>"
  have "take_userinfo info ?u0 = ?u0\<lparr>cu_user := cu_user u, cu_passwd := cu_passwd u\<rparr>"
    by (simp add: take_userinfo_def f4) (simp add: info_def)
  then have sp: "split_host (info @ ''@'' @ place @ cu_path u) ?u0 = (place, ?u1)"
    using f2 f3 by (simp add: split_host_def)
  have th: "take_host place ?u1 = Some (?u1\<lparr>cu_host := cu_host u, cu_port := cu_port u\<rparr>)"
    using assms(2,3) by (simp add: take_host_def f5) (simp add: place_def)
  have "\<forall>(k, v) \<in> set (common_pairs u). CHR ''='' \<notin> set k \<and> CHR ''&'' \<notin> set k" by (simp add: common_pairs_def)
  then have "read_camera_query q (?u1\<lparr>cu_host := cu_host u, cu_port := cu_port u\<rparr>) = u"
    using assms(4) by (simp only: q_def read_camera_query_text) (simp add: set_camera_key_def common_pairs_def new_camera_url_def)
  then show ?thesis
    using s f1 sp th h(4) assms(2) by (simp add: parse_url_def)
qed

text \<open>C37: The URLs of the camera carry their parameters through: what Studio puts into a URL of either protocol,
  percent-encoded, is what the tunnel made from it holds, whatever bytes user name and access code have.\<close>

theorem camera_url_reads_back:
  assumes "host_ok (cu_host u)" and "0 < cu_port u" "cu_port u < 2 ^ 31"
    and "cu_scheme u = Scheme_local \<and> cu_path u = ''/streaming/live/1'' \<and> text = local_camera_text u \<or>
      cu_scheme u = Scheme_rtsps \<and> starts_with [SLASH] (cu_path u) \<and> CHR ''?'' \<notin> set (cu_path u) \<and> text = rtsps_camera_text u"
  shows "\<exists>pr'. bambu_create ok (Some text) pr = (Bambu_success, [], Some (new_camera_tunnel u), pr')"
proof -
  have "parse_url text = Some u"
    using assms(4) local_camera_reads_back [OF assms(1-3)] rtsps_camera_reads_back [OF assms(1-3)]
    by (auto simp: starts_with_iff)
  then show ?thesis by (simp add: bambu_create_def)
qed

theorem camera_url_reads_back_witness:
  "\<exists>pr'. bambu_create True (Some (rtsps_camera_text (new_camera_url\<lparr>cu_scheme := Scheme_rtsps, cu_host := ''10.0.0.7'',
      cu_port := 322, cu_passwd := ''a/b@c+d''\<rparr>)))
      \<lparr>pr_env = [], pr_hydrated = True, pr_disk = [], pr_config_dir = [], pr_ca_file = [], pr_serials = [], pr_peers = []\<rparr>
    = (Bambu_success, [], Some (new_camera_tunnel (new_camera_url\<lparr>cu_scheme := Scheme_rtsps, cu_host := ''10.0.0.7'',
        cu_port := 322, cu_passwd := ''a/b@c+d''\<rparr>)), pr')"
  by (rule camera_url_reads_back) (simp_all add: host_ok_def new_camera_url_def starts_with_def)

section \<open>The JPEG stream\<close>

text \<open>A frame of the printer: track, flags, the unused word and the image.\<close>

type_synonym jpeg_frame = "u32 \<times> u32 \<times> bytes \<times> bytes"

definition jpeg_frame_text :: "jpeg_frame \<Rightarrow> bytes" where
  "jpeg_frame_text = (\<lambda>(track, fl, pad, s). write_u32_le (word_of_nat (length s)) @ write_u32_le track @ write_u32_le fl @ pad @ s)"

definition jpeg_frame_ok :: "jpeg_frame \<Rightarrow> bool" where
  "jpeg_frame_ok = (\<lambda>(track, fl, pad, s). length pad = 4 \<and> jpeg_magic s \<and> length s \<le> kMaxFrameSize)"

definition jpeg_sample :: "nat \<Rightarrow> jpeg_frame \<Rightarrow> bambu_sample" where
  "jpeg_sample now = (\<lambda>(track, fl, pad, s).
     \<lparr>bs_itrack = sint track, bs_size = int (length s), bs_flags = sint fl, bs_buffer = s, bs_time = now div 100\<rparr>)"

lemma ssl_read_all_clean:
  assumes "0 < n" and "\<not> ct_closing t" and "ct_link t = Some c" and "clean (rd c)" and "n \<le> length (incoming (rd c))"
  obtains c' where "ssl_read_all n t = Ret (0, take n (incoming (rd c)), t\<lparr>ct_link := Some c'\<rparr>)" and "clean (rd c')"
    and "incoming (rd c') = drop n (incoming (rd c))" and "tx c' = tx c"
proof -
  obtain c' where c': "read_full n c = Ret (0, take n (incoming (rd c)), c')" "clean (rd c')"
    "incoming (rd c') = drop n (incoming (rd c))" "tx c' = tx c"
    by (rule read_full_clean [OF assms(4,5)])
  then have "ssl_read_all n t = Ret (0, take n (incoming (rd c)), t\<lparr>ct_link := Some c'\<rparr>)"
    using assms(1-3) by (simp add: ssl_read_all_def)
  then show thesis using that c'(2-4) by blast
qed

lemma small_size: "n \<le> kMaxFrameSize \<Longrightarrow> unat (word_of_nat n :: u32) = n \<and> sint (word_of_nat n :: u32) = int n"
proof
  assume "n \<le> kMaxFrameSize"
  then have n: "n < 2 ^ 31" by (simp add: kMaxFrameSize_def)
  then show u: "unat (word_of_nat n :: u32) = n" by (simp add: unat_of_nat take_bit_nat_eq_self)
  show "sint (word_of_nat n :: u32) = int n"
    using n by (simp add: signed_of_nat signed_take_bit_int_eq_self)
qed

lemma read_jpeg_clean:
  assumes "\<not> ct_closing t" and "ct_link t = Some c" and "clean (rd c)" and "incoming (rd c) = jpeg_frame_text f @ r" and "jpeg_frame_ok f"
  shows "\<exists>c'. read_jpeg now t = Ret (Bambu_success, Some (jpeg_sample now f), t\<lparr>ct_link := Some c', ct_frames := ct_frames t + 1\<rparr>) \<and>
    clean (rd c') \<and> incoming (rd c') = r \<and> tx c' = tx c"
proof -
  obtain track fl pad s where f: "f = (track, fl, pad, s)" by (cases f) auto
  have ok: "length pad = 4" "jpeg_magic s" "length s \<le> kMaxFrameSize" using assms(5) by (simp_all add: jpeg_frame_ok_def f)
  then have s: "4 \<le> length s" "s \<noteq> []" by (auto simp: jpeg_magic_def)
  let ?hdr = "write_u32_le (word_of_nat (length s)) @ write_u32_le track @ write_u32_le fl @ pad"
  have inc: "incoming (rd c) = ?hdr @ (s @ r)" using assms(4) by (simp add: jpeg_frame_text_def f)
  have l4: "length (write_u32_le w) = 4" for w by (simp add: write_u32_le_def)
  have l: "length ?hdr = 16" using ok(1) by (simp add: l4)
  obtain c1 where c1: "ssl_read_all 16 t = Ret (0, ?hdr, t\<lparr>ct_link := Some c1\<rparr>)" "clean (rd c1)" "incoming (rd c1) = s @ r" "tx c1 = tx c"
  proof (rule ssl_read_all_clean [OF _ assms(1-3), of 16])
    fix c'
    assume "ssl_read_all 16 t = Ret (0, take 16 (incoming (rd c)), t\<lparr>ct_link := Some c'\<rparr>)" "clean (rd c')"
      "incoming (rd c') = drop 16 (incoming (rd c))" "tx c' = tx c"
    then show thesis using that [of c'] l unfolding inc by simp
  qed (use inc l in simp_all)
  obtain c2 where c2: "ssl_read_all (length s) (t\<lparr>ct_link := Some c1\<rparr>) = Ret (0, s, t\<lparr>ct_link := Some c2\<rparr>)" "clean (rd c2)"
    "incoming (rd c2) = r" "tx c2 = tx c1"
  proof (rule ssl_read_all_clean [of "length s" "t\<lparr>ct_link := Some c1\<rparr>" c1])
    fix c'
    assume "ssl_read_all (length s) (t\<lparr>ct_link := Some c1\<rparr>) =
        Ret (0, take (length s) (incoming (rd c1)), t\<lparr>ct_link := Some c1, ct_link := Some c'\<rparr>)"
      "clean (rd c')" "incoming (rd c') = drop (length s) (incoming (rd c1))" "tx c' = tx c1"
    then show thesis using that [of c'] c1(3) by simp
  qed (use assms(1) c1(2,3) s in \<open>simp_all add: jpeg_magic_def\<close>)
  have w: "unat (word_of_nat (length s) :: u32) = length s" "sint (word_of_nat (length s) :: u32) = int (length s)"
    using small_size [OF ok(3)] by simp_all
  have nz: "(word_of_nat (length s) :: u32) \<noteq> 0" using w(1) s(1) by (metis le_zero_eq unat_0 zero_neq_numeral)
  have d: "read_u32_le ?hdr = word_of_nat (length s)" "read_u32_le (drop 4 ?hdr) = track" "read_u32_le (drop 8 ?hdr) = fl"
    by (simp_all add: l4)
  have "read_jpeg now t = Ret (Bambu_success, Some (jpeg_sample now f), t\<lparr>ct_link := Some c2, ct_frames := ct_frames t + 1\<rparr>)"
    using assms(2) c1(1) c2(1) w nz ok(2,3) by (simp only: read_jpeg_def c1(1) io_bind.simps prod.case d Let_def w) (simp add: jpeg_sample_def f)
  then show ?thesis using c1 c2 by auto
qed

fun read_samples :: "nat list \<Rightarrow> camera_tunnel \<Rightarrow> (bambu_sample list \<times> camera_tunnel) io" where
  "read_samples [] t = Ret ([], t)"
| "read_samples (now # ticks) t =
     io_bind (bambu_read_sample now t) (\<lambda>(rc, s, t1).
       case s of None \<Rightarrow> Ret ([], t1) | Some x \<Rightarrow> io_bind (read_samples ticks t1) (\<lambda>(xs, t2). Ret (x # xs, t2)))"

definition jpeg_tunnel :: "conn \<Rightarrow> camera_tunnel \<Rightarrow> bool" where
  "jpeg_tunnel c t = (ct_link t = Some c \<and> \<not> ct_closing t \<and> \<not> ct_ctrl_mode t \<and> cu_scheme (ct_url t) = Scheme_local \<and> clean (rd c))"

lemma read_samples_clean:
  assumes "jpeg_tunnel c t" and "incoming (rd c) = concat (map jpeg_frame_text fs)" and "list_all jpeg_frame_ok fs"
    and "length ticks = length fs"
  shows "\<exists>t' c'. read_samples ticks t = Ret (map2 jpeg_sample ticks fs, t') \<and> jpeg_tunnel c' t' \<and> tx c' = tx c \<and>
    ct_authed t' = ct_authed t \<and> incoming (rd c') = []"
  using assms
proof (induction fs arbitrary: t c ticks)
  case (Cons f fs)
  obtain now ticks' where ticks: "ticks = now # ticks'" using Cons.prems(4) by (cases ticks) auto
  have t: "ct_link t = Some c" "\<not> ct_closing t" "\<not> ct_ctrl_mode t" "cu_scheme (ct_url t) = Scheme_local" "clean (rd c)"
    using Cons.prems(1) by (simp_all add: jpeg_tunnel_def)
  obtain c1 where c1: "read_jpeg now t = Ret (Bambu_success, Some (jpeg_sample now f), t\<lparr>ct_link := Some c1, ct_frames := ct_frames t + 1\<rparr>)"
    "clean (rd c1)" "incoming (rd c1) = concat (map jpeg_frame_text fs)" "tx c1 = tx c"
    using read_jpeg_clean [OF t(2,1,5), of f "concat (map jpeg_frame_text fs)" now] Cons.prems(2,3) by auto
  let ?t = "t\<lparr>ct_link := Some c1, ct_frames := ct_frames t + 1\<rparr>"
  have "jpeg_tunnel c1 ?t" using t c1(2) by (simp add: jpeg_tunnel_def)
  then obtain t' c' where r: "read_samples ticks' ?t = Ret (map2 jpeg_sample ticks' fs, t')" "jpeg_tunnel c' t'" "tx c' = tx c1"
    "ct_authed t' = ct_authed ?t" "incoming (rd c') = []"
    using Cons.IH [of c1 ?t ticks'] c1(3) Cons.prems(3,4) ticks by auto
  have "bambu_read_sample now t = Ret (Bambu_success, Some (jpeg_sample now f), ?t)"
    using t c1(1) by (simp add: bambu_read_sample_def)
  then show ?case using r c1(4) ticks by (intro exI [of _ t'] exI [of _ c']) simp
qed auto

lemma auth_packet_nonempty: "build_auth_packet u \<noteq> []"
  by (simp add: build_auth_packet_def write_u32_le_def)

text \<open>C36: The JPEG stream: the first StartStream sends the 80 bytes of authentication and nothing else is ever
  sent; then the samples are exactly the printer's images with their track and flags, however the TLS
  layer cuts the stream; starting the stream again changes nothing.\<close>

theorem jpeg_stream_any_cut:
  assumes "jpeg_tunnel c t" and "\<not> ct_authed t" and "wr c = []" and "incoming (rd c) = concat (map jpeg_frame_text fs)"
    and "list_all jpeg_frame_ok fs" and "length ticks = length fs"
  shows "\<exists>t1 t2 c2. bambu_start_stream t = (Bambu_success, t1) \<and> read_samples ticks t1 = Ret (map2 jpeg_sample ticks fs, t2) \<and>
    ct_link t2 = Some c2 \<and> tx c2 = tx c @ build_auth_packet (ct_url t) \<and> length (build_auth_packet (ct_url t)) = 80 \<and>
    bambu_start_stream t2 = (Bambu_success, t2)"
proof -
  have t: "ct_link t = Some c" "\<not> ct_closing t" "\<not> ct_ctrl_mode t" "cu_scheme (ct_url t) = Scheme_local" "clean (rd c)"
    using assms(1) by (simp_all add: jpeg_tunnel_def)
  define c1 where "c1 = c\<lparr>tx := tx c @ build_auth_packet (ct_url t)\<rparr>"
  define t1 where "t1 = t\<lparr>ct_link := Some c1, ct_authed := True\<rparr>"
  have s: "bambu_start_stream t = (Bambu_success, t1)"
    using t assms(2,3) auth_packet_nonempty [of "ct_url t"]
    by (simp add: bambu_start_stream_def stream_ready_def ssl_write_all_cases t1_def c1_def)
  have "jpeg_tunnel c1 t1" "incoming (rd c1) = concat (map jpeg_frame_text fs)"
    using t assms(4) by (simp_all add: jpeg_tunnel_def t1_def c1_def)
  then obtain t2 c2 where r: "read_samples ticks t1 = Ret (map2 jpeg_sample ticks fs, t2)" "jpeg_tunnel c2 t2" "tx c2 = tx c1"
    "ct_authed t2 = ct_authed t1"
    using read_samples_clean [of c1 t1 fs ticks] assms(5,6) by blast
  moreover have "bambu_start_stream t2 = (Bambu_success, t2)"
    using r(2,4) by (simp add: bambu_start_stream_def stream_ready_def jpeg_tunnel_def t1_def)
  moreover have "length (build_auth_packet (ct_url t)) = 80"
    by (simp add: build_auth_packet_def write_u32_le_def nul_padded_def)
  ultimately show ?thesis using s by (auto simp: jpeg_tunnel_def c1_def)
qed

definition example_image :: bytes where
  "example_image = [CHR 0xFF, CHR 0xD8, CHR 0x10, CHR 0xFF, CHR 0xD9]"

definition example_frame :: jpeg_frame where
  "example_frame = (0, 1, ''pad0'', example_image)"

definition example_link :: conn where
  "example_link = \<lparr>rd = [Rdata (take 7 (jpeg_frame_text example_frame)), Rwant, Rdata (drop 7 (jpeg_frame_text example_frame))],
     wr = [], tx = []\<rparr>"

definition example_camera :: camera_tunnel where
  "example_camera = (new_camera_tunnel new_camera_url)\<lparr>ct_link := Some example_link\<rparr>"

theorem jpeg_stream_any_cut_witness:
  "\<exists>t1 t2 c2. bambu_start_stream example_camera = (Bambu_success, t1) \<and>
     read_samples [500] t1 = Ret ([jpeg_sample 500 example_frame], t2) \<and>
     ct_link t2 = Some c2 \<and> tx c2 = build_auth_packet new_camera_url"
proof -
  have "jpeg_tunnel example_link example_camera"
    by (simp add: jpeg_tunnel_def example_camera_def example_link_def new_camera_tunnel_def new_camera_url_def
        jpeg_frame_text_def example_frame_def write_u32_le_def)
  moreover have "list_all jpeg_frame_ok [example_frame]"
    by (simp add: jpeg_frame_ok_def example_frame_def example_image_def jpeg_magic_def kMaxFrameSize_def)
  moreover have "incoming (rd example_link) = concat (map jpeg_frame_text [example_frame])" "wr example_link = []" "tx example_link = []"
    by (simp_all add: example_link_def)
  moreover have "\<not> ct_authed example_camera" "ct_url example_camera = new_camera_url"
    by (simp_all add: example_camera_def new_camera_tunnel_def)
  moreover have "length [500 :: nat] = length [example_frame]" by simp
  moreover have "map2 jpeg_sample [500] [example_frame] = [jpeg_sample 500 example_frame]" by simp
  ultimately show ?thesis using jpeg_stream_any_cut [of example_link example_camera "[example_frame]" "[500]"] by (metis append_Nil)
qed

section \<open>A closed tunnel\<close>

text \<open>What can happen to a tunnel: the calls of Studio and the turns of the control thread.\<close>

inductive cam_step :: "camera_tunnel \<Rightarrow> camera_tunnel \<Rightarrow> bool" where
  cam_open: "bambu_open env dial t = Ret (rc, t') \<Longrightarrow> cam_step t t'"
| cam_start: "bambu_start_stream t = (rc, t') \<Longrightarrow> cam_step t t'"
| cam_start_ex: "bambu_start_stream_ex seed type t = Ret (rc, t') \<Longrightarrow> cam_step t t'"
| cam_read: "bambu_read_sample now t = Ret (rc, s, t') \<Longrightarrow> cam_step t t'"
| cam_send: "bambu_send_message ctrl data t = (rc, t') \<Longrightarrow> cam_step t t'"
| cam_turn: "ct_worker t \<Longrightarrow> ctrl_turn t = Ret t' \<Longrightarrow> cam_step t t'"
| cam_close: "cam_step t (bambu_close t)"

definition same_camera :: "camera_tunnel \<Rightarrow> camera_tunnel \<Rightarrow> bool" where
  "same_camera t t' = (ct_url t' = ct_url t \<and> (ct_closing t \<longrightarrow> ct_closing t') \<and> (ct_authed t \<longrightarrow> ct_authed t'))"

lemma same_camera_simps [simp]:
  "same_camera t t" "same_camera t (t'\<lparr>ct_link := l\<rparr>) = same_camera t t'" "same_camera t (t'\<lparr>ct_session := ss\<rparr>) = same_camera t t'"
  "same_camera t (t'\<lparr>ct_in := i\<rparr>) = same_camera t t'" "same_camera t (t'\<lparr>ct_out := out\<rparr>) = same_camera t t'"
  "same_camera t (t'\<lparr>ct_pass := p\<rparr>) = same_camera t t'" "same_camera t (ct_fail e t') = same_camera t t'"
  "same_camera t (t'\<lparr>ct_frames := k\<rparr>) = same_camera t t'"
  by (simp_all add: same_camera_def ct_fail_def)

lemma read_all_same: "always (\<lambda>(rc, bs, t'). same_camera t t') (ssl_read_all n t)"
  by (auto simp: ssl_read_all_def simp del: io_bind.simps split: option.split)

lemma read_sample_same: "always (\<lambda>(rc, s, t'). same_camera t t') (bambu_read_sample now t)"
proof -
  have trans: "same_camera t t1 \<Longrightarrow> same_camera t1 t2 \<Longrightarrow> same_camera t t2" for t1 t2 by (simp add: same_camera_def)
  have bind: "always (\<lambda>(rc, bs, t'). same_camera t t') m \<Longrightarrow> (\<And>rc bs t1. same_camera t t1 \<Longrightarrow> always Q (f (rc, bs, t1))) \<Longrightarrow> always Q (io_bind m f)"
    for m and Q :: "int \<times> bambu_sample option \<times> camera_tunnel \<Rightarrow> bool" and f
    by (cases m) (auto simp: always_def)
  have all: "same_camera t t1 \<Longrightarrow> always (\<lambda>(rc, bs, t'). same_camera t t') (ssl_read_all n t1)" for n t1
    using read_all_same [of t1 n] trans by (auto simp: always_def)
  have "always (\<lambda>(rc, s, t'). same_camera t t') (read_jpeg now t)"
    unfolding read_jpeg_def by (auto simp: Let_def simp del: io_bind.simps del: always_bind intro!: bind all)
  moreover have "same_camera t (snd (snd (read_rtsp t)))"
    by (auto simp: read_rtsp_def Let_def split: option.split prod.split pull_result.split)
  ultimately show ?thesis by (auto simp: bambu_read_sample_def split: list.split)
qed

lemma cam_step_same: "cam_step t t' \<Longrightarrow> same_camera t t'"
proof (induction rule: cam_step.induct)
  case (cam_open env dial t rc t')
  have "always (\<lambda>(rc, t'). same_camera t t') (bambu_open env dial t)"
    by (auto simp: bambu_open_def open_rtsp_def same_camera_def ct_fail_def simp del: io_bind.simps split: sum.split)
  then show ?case using cam_open by (simp add: always_def)
next
  case (cam_start t rc t')
  then show ?case by (auto simp: bambu_start_stream_def same_camera_def ct_fail_def Let_def split: option.splits if_splits prod.splits)
next
  case (cam_start_ex seed type t rc t')
  have s: "same_camera t (snd (bambu_start_stream t))"
    by (auto simp: bambu_start_stream_def same_camera_def ct_fail_def Let_def split: option.splits if_splits prod.splits)
  have "always (\<lambda>(rc, t'). same_camera t t') (start_native_ctrl_handshake seed t)"
    by (auto simp: start_native_ctrl_handshake_def Let_def same_camera_def ct_fail_def always_def split: option.splits if_splits)
  with s show ?case using cam_start_ex by (auto simp: bambu_start_stream_ex_def always_def split: if_splits)
next
  case (cam_read now t rc s t')
  then show ?case using read_sample_same [of t now] by (simp add: always_def)
next
  case (cam_send ctrl data t rc t')
  then show ?case by (auto simp: bambu_send_message_def split: option.splits if_splits)
next
  case (cam_turn t t')
  have "always (\<lambda>t'. same_camera t t') (ctrl_turn t)"
    by (auto simp: ctrl_turn_def same_camera_def Let_def simp del: io_bind.simps split: list.split option.split prod.split)
  then show ?case using cam_turn by (simp add: always_def)
next
  case (cam_close t)
  then show ?case by (simp add: bambu_close_def tunnel_close_def stop_ctrl_mode_def same_camera_def)
qed

text \<open>C38: A closed tunnel stays closed: whatever Studio calls after Bambu_Close, Bambu_Open included, no sample of the
  JPEG stream is given any more, and a tunnel that was authenticated before does not authenticate again.\<close>

theorem closed_tunnel_stays_closed:
  assumes "cam_step\<^sup>*\<^sup>* (bambu_close t0) t" and "cu_scheme (ct_url t0) = Scheme_local" and "\<not> ct_ctrl_mode t"
    and "bambu_read_sample now t = Ret (rc, s, t')"
  shows "rc = -1 \<and> s = None \<and> (ct_authed t0 \<longrightarrow> snd (bambu_start_stream t) = t)"
proof -
  have "same_camera (bambu_close t0) t"
    using assms(1) by (induction rule: rtranclp_induct) (auto dest!: cam_step_same simp: same_camera_def)
  then have t: "ct_closing t" "ct_url t = ct_url t0" "ct_authed t0 \<Longrightarrow> ct_authed t"
    by (simp_all add: same_camera_def bambu_close_def tunnel_close_def stop_ctrl_mode_def split: if_splits)
  have "ct_link t \<noteq> None \<Longrightarrow> ssl_read_all 16 t = Ret (-1, [], t)" using t(1) by (simp add: ssl_read_all_def)
  then have "rc = -1 \<and> s = None"
    using assms(2-4) t(2) by (cases "ct_link t = None") (auto simp: bambu_read_sample_def read_jpeg_def)
  moreover have "ct_authed t0 \<Longrightarrow> snd (bambu_start_stream t) = t"
    using t(3) by (simp add: bambu_start_stream_def split: option.split)
  ultimately show ?thesis by blast
qed

theorem closed_tunnel_stays_closed_witness:
  "\<exists>t env. bambu_open env (Inr example_link) (bambu_close example_camera) = Ret (Bambu_success, t) \<and>
     bambu_read_sample 0 t = Ret (-1, None, ct_fail ''header read failed'' t)"
proof -
  let ?t = "(bambu_close example_camera)\<lparr>ct_link := Some example_link, ct_started := True\<rparr>"
  have l: "cu_scheme (ct_url example_camera) = Scheme_local" "\<not> ct_ctrl_mode ?t"
    by (simp_all add: example_camera_def new_camera_tunnel_def new_camera_url_def bambu_close_def tunnel_close_def stop_ctrl_mode_def)
  have o: "bambu_open env (Inr example_link) (bambu_close example_camera) = Ret (Bambu_success, ?t)" for env
    using l(1) by (simp add: bambu_open_def bambu_close_def tunnel_close_def stop_ctrl_mode_def)
  have r: "bambu_read_sample 0 ?t = Ret (-1, None, ct_fail ''header read failed'' ?t)"
    using l by (simp add: bambu_read_sample_def read_jpeg_def ssl_read_all_def bambu_close_def tunnel_close_def stop_ctrl_mode_def)
  have "cam_step\<^sup>*\<^sup>* (bambu_close example_camera) ?t" using cam_step.cam_open [OF o] by blast
  from closed_tunnel_stays_closed [OF this l r] show ?thesis using o r by blast
qed

end
