(* ===== verification/Tls_Dial.thy ===== *)
theory Tls_Dial
  imports Lan_Tls Tls_Io
begin

text \<open>
  Dialling a printer: \<open>dial\<close> and \<open>dial_tls\<close> of \<open>src/tls_dial.cpp\<close>, \<open>configure_lan_ssl_verify\<close> of
  \<open>src/lan_tls.cpp\<close> and the wait for a serial of \<open>include/obn/lan_tls_env.hpp\<close>. What the network and
  OpenSSL answer is the record \<open>dial_env\<close>.
\<close>

section \<open>The verification context\<close>

text \<open>The part of an \<open>SSL_CTX\<close> the sources set.\<close>

record ssl_ctx =
  sc_trust :: "bytes list"
  sc_partial_chain :: bool
  sc_verify_peer :: bool

definition new_ssl_ctx :: ssl_ctx where
  "new_ssl_ctx = \<lparr>sc_trust = [], sc_partial_chain = False, sc_verify_peer = False\<rparr>"

text \<open>\<open>loads\<close>: whether OpenSSL can load a file of certificates.\<close>

definition configure_lan_ssl_verify :: "(bytes \<Rightarrow> bool) \<Rightarrow> bytes \<Rightarrow> bytes \<Rightarrow> ssl_ctx \<Rightarrow> bytes + ssl_ctx" where
  "configure_lan_ssl_verify loads ca_file peer_cert_file ctx =
     (if ca_file = [] then Inl ''empty ca_file''
      else if \<not> loads ca_file then Inl ''load_verify_locations(ca)''
      else
        let c1 = ctx\<lparr>sc_trust := sc_trust ctx @ [ca_file]\<rparr> in
        if peer_cert_file \<noteq> [] \<and> \<not> loads peer_cert_file then Inl ''load_verify_locations(peer)''
        else
          let c2 = (if peer_cert_file \<noteq> [] then c1\<lparr>sc_trust := sc_trust c1 @ [peer_cert_file]\<rparr> else c1)
          in Inr (c2\<lparr>sc_partial_chain := True, sc_verify_peer := True\<rparr>))"

section \<open>The network\<close>

text \<open>
  \<open>de_addresses\<close> is the answer of \<open>getaddrinfo\<close>; of each address whether a socket could be made, the
  outcome of the connect, and whether the deadline has passed after it.
\<close>

record dial_env =
  de_addresses :: "bytes + (bool \<times> conn option \<times> bool) list"
  de_ctx :: bool
  de_shared_ctx :: bool
  de_loads :: "bytes \<Rightarrow> bool"
  de_new :: "bytes option"
  de_handshake :: "ssl_ctx \<Rightarrow> bytes \<Rightarrow> conn \<Rightarrow> bytes + conn"
  de_check_host :: "conn \<Rightarrow> bytes \<Rightarrow> bool"

fun try_addresses :: "(bool \<times> conn option \<times> bool) list \<Rightarrow> conn option" where
  "try_addresses [] = None"
| "try_addresses ((made, c, late) # as) =
     (if \<not> made then try_addresses as
      else case c of
        Some fd \<Rightarrow> Some fd
      | None \<Rightarrow> if late then None else try_addresses as)"

definition dial :: "dial_env \<Rightarrow> bytes + conn" where
  "dial e =
     (case de_addresses e of
        Inl err \<Rightarrow> Inl err
      | Inr as \<Rightarrow> (case try_addresses as of None \<Rightarrow> Inl ''connect failed'' | Some c \<Rightarrow> Inr c))"

definition make_verify_ctx :: "dial_env \<Rightarrow> bytes \<Rightarrow> bytes \<Rightarrow> bytes + ssl_ctx" where
  "make_verify_ctx e ca_file peer_cert =
     (if \<not> de_ctx e then Inl ''SSL_CTX_new failed'' else configure_lan_ssl_verify (de_loads e) ca_file peer_cert new_ssl_ctx)"

definition verify_peer_cn :: "dial_env \<Rightarrow> conn \<Rightarrow> bytes \<Rightarrow> bool" where
  "verify_peer_cn e c expected_cn = (expected_cn \<noteq> [] \<and> de_check_host e c expected_cn)"

section \<open>The serial of the printer\<close>

text \<open>The polls until the deadline; between two of them other threads may change the process.\<close>

fun poll_serial :: "bytes \<Rightarrow> (process \<Rightarrow> process) list \<Rightarrow> process \<Rightarrow> bytes option \<times> process" where
  "poll_serial key us p =
     (let (v, p1) = env_var_get key p in
      if v \<noteq> None \<and> v \<noteq> Some [] then (v, p1)
      else case us of [] \<Rightarrow> (None, p1) | u # us' \<Rightarrow> poll_serial key us' (u p1))"

definition wait_env_serial :: "bytes \<Rightarrow> (process \<Rightarrow> process) list \<Rightarrow> process \<Rightarrow> bytes option \<times> process" where
  "wait_env_serial ip us p = (if ip = [] then (None, p) else poll_serial (env_key_for_ip ip) us p)"

definition expected_name :: "bytes \<Rightarrow> bytes \<Rightarrow> (process \<Rightarrow> process) list \<Rightarrow> process \<Rightarrow> bytes \<times> process" where
  "expected_name host serial us p =
     (if serial \<noteq> [] then (serial, p)
      else let (v, p1) = wait_env_serial host us p in (case v of None \<Rightarrow> [] | Some s \<Rightarrow> s, p1))"

definition no_serial :: "bytes \<Rightarrow> process \<Rightarrow> bytes" where
  "no_serial host p =
     take 255 (''no serial for '' @ host @ '' after '' @ show_int (fst (serial_env_wait_ms p)) @ ''ms (key='' @ env_key_for_ip host @ '')'')"

section \<open>Dialling\<close>

text \<open>The part after the context is made.\<close>

definition connect_tls :: "dial_env \<Rightarrow> ssl_ctx \<Rightarrow> bytes \<Rightarrow> bool \<Rightarrow> bytes \<Rightarrow> bytes + conn" where
  "connect_tls e ctx sni want_verify serial =
     (case dial e of
        Inl err \<Rightarrow> Inl err
      | Inr fd \<Rightarrow>
          (case de_new e of
             Some err \<Rightarrow> Inl (''SSL_new: '' @ err)
           | None \<Rightarrow>
               (case de_handshake e ctx sni fd of
                  Inl err \<Rightarrow> Inl (''SSL_connect: '' @ err)
                | Inr ssl \<Rightarrow>
                    if want_verify \<and> \<not> verify_peer_cn e ssl serial then Inl ''TLS hostname verify failed'' else Inr ssl)))"

text \<open>\<open>serial\<close> is the expected serial, empty for none; the result is the error text or the stream.\<close>

definition dial_tls :: "settings \<Rightarrow> dial_env \<Rightarrow> (process \<Rightarrow> process) list \<Rightarrow> bytes \<Rightarrow> bytes \<Rightarrow> process \<Rightarrow> (bytes + conn) \<times> process" where
  "dial_tls s e us host serial p =
     (if verify_enabled s p then
        let (ca, p1) = resolve_lan_ca_file p;
            ca_path = (case ca of None \<Rightarrow> [] | Some f \<Rightarrow> f);
            (name, p2) = expected_name host serial us p1 in
        if ca_path = [] then (Inl ''OBN_LAN_TLS_CA_FILE not set (check obn.lan_tls.env in config dir)'', p2)
        else if name = [] then (Inl (no_serial host p2), p2)
        else
          let (peer, p3) = peer_cert_path_for_ip host p2 in
          (case make_verify_ctx e ca_path (case peer of None \<Rightarrow> [] | Some f \<Rightarrow> f) of
             Inl err \<Rightarrow> (Inl err, p3)
           | Inr ctx \<Rightarrow> (connect_tls e ctx name True name, p3))
      else if \<not> de_shared_ctx e then (Inl ''SSL_CTX not initialized'', p)
      else (connect_tls e new_ssl_ctx host False [], p))"

section \<open>What a verified connection is\<close>

text \<open>A stream made under a context that trusts the given certificates, for a printer named \<open>name\<close>.\<close>

definition verified_stream :: "dial_env \<Rightarrow> bytes \<Rightarrow> bytes \<Rightarrow> conn \<Rightarrow> bool" where
  "verified_stream e ca name c =
     (\<exists>ctx fd. sc_verify_peer ctx \<and> ca \<in> set (sc_trust ctx) \<and> list_all (de_loads e) (sc_trust ctx) \<and>
        de_handshake e ctx name fd = Inr c \<and> de_check_host e c name)"

lemma configure_ok:
  assumes "configure_lan_ssl_verify loads ca peer new_ssl_ctx = Inr ctx"
  shows "sc_verify_peer ctx \<and> ca \<in> set (sc_trust ctx) \<and> list_all loads (sc_trust ctx)"
  using assms by (auto simp: configure_lan_ssl_verify_def new_ssl_ctx_def Let_def split: if_splits)

lemma connect_tls_ok:
  assumes "connect_tls e ctx sni True name = Inr c"
  shows "(\<exists>fd. de_handshake e ctx sni fd = Inr c) \<and> de_check_host e c name"
  using assms by (auto simp: connect_tls_def verify_peer_cn_def split: sum.splits option.splits if_splits)

lemma dial_tls_verified:
  assumes "dial_tls s e us host serial p = (Inr c, p')" and "verify_enabled s p"
  shows "\<exists>ca name. fst (resolve_lan_ca_file p) = Some ca \<and> ca \<noteq> [] \<and> name \<noteq> [] \<and> (serial \<noteq> [] \<longrightarrow> name = serial) \<and>
    verified_stream e ca name c"
proof -
  obtain ca p1 where ca: "resolve_lan_ca_file p = (ca, p1)" by force
  obtain name p2 where name: "expected_name host serial us p1 = (name, p2)" by force
  obtain peer p3 where peer: "peer_cert_path_for_ip host p2 = (peer, p3)" by force
  define path where "path = (case ca of None \<Rightarrow> [] | Some f \<Rightarrow> f)"
  have ne: "path \<noteq> []" "name \<noteq> []"
    using assms ca name peer by (auto simp: dial_tls_def path_def Let_def split: if_splits)
  then have "(case make_verify_ctx e path (case peer of None \<Rightarrow> [] | Some f \<Rightarrow> f) of
             Inl err \<Rightarrow> (Inl err, p3)
           | Inr ctx \<Rightarrow> (connect_tls e ctx name True name, p3)) = (Inr c, p')"
    using assms ca name peer by (simp add: dial_tls_def path_def Let_def)
  then obtain ctx where ctx: "make_verify_ctx e path (case peer of None \<Rightarrow> [] | Some f \<Rightarrow> f) = Inr ctx"
    and c: "connect_tls e ctx name True name = Inr c" by (auto split: sum.splits)
  have "sc_verify_peer ctx \<and> path \<in> set (sc_trust ctx) \<and> list_all (de_loads e) (sc_trust ctx)"
    using ctx configure_ok by (auto simp: make_verify_ctx_def split: if_splits)
  then have "verified_stream e path name c" using connect_tls_ok [OF c] by (auto simp: verified_stream_def)
  moreover have "ca = Some path" using ne(1) by (auto simp: path_def split: option.splits)
  moreover have "serial \<noteq> [] \<longrightarrow> name = serial" using name by (auto simp: expected_name_def)
  ultimately show ?thesis using ca ne by auto
qed

end
