(* ===== verification/Camera_Dial.thy ===== *)
theory Camera_Dial
  imports Camera_Laws Tls_Dial
begin

text \<open>Opening a camera: the credentials go to a checked printer only.\<close>

text \<open>The dial of \<open>Bambu_Open\<close>: plain TCP for \<open>rtsp\<close>, TLS for the others, with the device as serial.\<close>

definition camera_dial :: "settings \<Rightarrow> dial_env \<Rightarrow> (process \<Rightarrow> process) list \<Rightarrow> camera_url \<Rightarrow> process \<Rightarrow> (bytes + conn) \<times> process" where
  "camera_dial s e us u p = (if cu_scheme u = Scheme_rtsp then (dial e, p) else dial_tls s e us (cu_host u) (cu_device u) p)"

text \<open>C40: A camera is opened on a checked connection only: with the certificate check on, Bambu_Open succeeds only
  on a TLS stream whose chain was verified against the configured CA file, with loadable certificates,
  and whose certificate names the printer, the device of the URL where it gives one.\<close>

theorem camera_opens_verified:
  assumes "camera_dial s e us (ct_url t) p = (d, p')" and "verify_enabled s p"
    and "bambu_open env d t = Ret (Bambu_success, t')"
  shows "\<exists>ca name c. d = Inr c \<and> fst (resolve_lan_ca_file p) = Some ca \<and> ca \<noteq> [] \<and> name \<noteq> [] \<and>
    (cu_device (ct_url t) \<noteq> [] \<longrightarrow> name = cu_device (ct_url t)) \<and> verified_stream e ca name c"
proof -
  obtain c where c: "d = Inr c"
    using assms(3) by (cases d) (auto simp: bambu_open_def open_rtsp_def passthrough_start_def rtsp_start_def Bambu_success_def
        split: if_splits)
  have "cu_scheme (ct_url t) \<noteq> Scheme_rtsp"
    using assms(3) c by (auto simp: bambu_open_def open_rtsp_def passthrough_start_def rtsp_start_def rtsp_url_of_def Bambu_success_def)
  then have "dial_tls s e us (cu_host (ct_url t)) (cu_device (ct_url t)) p = (Inr c, p')"
    using assms(1) c by (simp add: camera_dial_def)
  from dial_tls_verified [OF this assms(2)] c show ?thesis by blast
qed

definition example_home :: process where
  "example_home = \<lparr>pr_env = om_put env_ca_file ''printer.cer'' [], pr_hydrated = True, pr_disk = [], pr_config_dir = [],
     pr_ca_file = [], pr_serials = [], pr_peers = []\<rparr>"

definition example_env :: rtsp_env where
  "example_env = \<lparr>re_md5 = (\<lambda>s. s), re_cnonce = (\<lambda>n. [])\<rparr>"

definition example_net :: dial_env where
  "example_net = \<lparr>de_addresses = Inr [(True, Some \<lparr>rd = [], wr = [], tx = []\<rparr>, False)], de_ctx = True, de_shared_ctx = True,
     de_loads = (\<lambda>f. f = ''printer.cer''), de_new = None, de_handshake = (\<lambda>ctx name fd. Inr fd),
     de_check_host = (\<lambda>c name. name = ''S1'')\<rparr>"

theorem camera_opens_verified_witness:
  "\<exists>c t'. fst (camera_dial default_settings example_net [] (new_camera_url\<lparr>cu_host := ''10.0.0.7'', cu_device := ''S1''\<rparr>) example_home) = Inr c \<and>
     bambu_open example_env (Inr c) (new_camera_tunnel (new_camera_url\<lparr>cu_host := ''10.0.0.7'', cu_device := ''S1''\<rparr>)) = Ret (Bambu_success, t') \<and>
     verified_stream example_net ''printer.cer'' ''S1'' c"
proof -
  let ?u = "new_camera_url\<lparr>cu_host := ''10.0.0.7'', cu_device := ''S1''\<rparr>"
  let ?c = "\<lparr>rd = [], wr = [], tx = []\<rparr> :: conn"
  obtain d p' where d: "camera_dial default_settings example_net [] (ct_url (new_camera_tunnel ?u)) example_home = (d, p')" by force
  have ca: "resolve_lan_ca_file example_home = (Some ''printer.cer'', example_home)" by code_simp
  have v: "verify_enabled default_settings example_home" by code_simp
  have peer: "peer_cert_path_for_ip ''10.0.0.7'' example_home = (None, example_home)" by code_simp
  have dd: "d = Inr ?c"
    using d ca v peer by (simp add: camera_dial_def new_camera_tunnel_def new_camera_url_def dial_tls_def expected_name_def make_verify_ctx_def
        configure_lan_ssl_verify_def example_net_def connect_tls_def dial_def verify_peer_cn_def)
  have o: "bambu_open example_env d (new_camera_tunnel ?u) = Ret (Bambu_success, (new_camera_tunnel ?u)\<lparr>ct_link := Some ?c, ct_started := True\<rparr>)"
    by (simp add: dd bambu_open_def new_camera_tunnel_def new_camera_url_def)
  obtain ca name c where "d = Inr c" "fst (resolve_lan_ca_file example_home) = Some ca"
    "cu_device (ct_url (new_camera_tunnel ?u)) \<noteq> [] \<longrightarrow> name = cu_device (ct_url (new_camera_tunnel ?u))"
    "verified_stream example_net ca name c"
    using camera_opens_verified [OF d v o] by blast
  then have "verified_stream example_net ''printer.cer'' ''S1'' ?c" using dd ca by (simp add: new_camera_tunnel_def new_camera_url_def)
  then show ?thesis using d dd o by (auto simp: new_camera_tunnel_def)
qed

end
