(* ===== verification/Camera_Control.thy ===== *)
theory Camera_Control
  imports Camera_Source
begin

text \<open>
  The control channel of the camera source library: every request Studio queues is sent in a frame
  of its own, and all its replies reach Studio in order.
\<close>

section \<open>One message\<close>

text \<open>The records a message arrives in: pieces of its frame, none longer than the read buffer.\<close>

definition pieces_of :: "frame \<Rightarrow> bytes list \<Rightarrow> bool" where
  "pieces_of f ps = (frame_ok f \<and> concat ps = frame_bytes f \<and> list_all (\<lambda>p. p \<noteq> [] \<and> length p \<le> 65536) ps)"

lemma recv_payload_pieces:
  assumes "frame_ok f" and "recv_buf s @ concat ps = frame_bytes f" and "ps \<noteq> []"
    and "list_all (\<lambda>p. p \<noteq> [] \<and> length p \<le> 65536) ps" and "rd c = map Rdata ps @ rs"
  shows "recv_payload s c = Some (0, snd (snd f), s\<lparr>recv_buf := []\<rparr>, c\<lparr>rd := rs\<rparr>)"
  using assms
proof (induction ps arbitrary: s c)
  case (Cons p ps)
  have p: "p \<noteq> []" "length p \<le> 65536" "list_all (\<lambda>p. p \<noteq> [] \<and> length p \<le> 65536) ps" using Cons.prems(4) by simp_all
  have "strict_prefix (recv_buf s) (frame_bytes f)"
    using Cons.prems(2) p(1) by (auto simp: strict_prefix_def prefix_def) (metis append_Nil2 append_is_Nil_conv same_append_eq)
  then have "scan_frame (recv_buf s) = Need_more" using scan_frame_partial Cons.prems(1) by blast
  then have b: "consume_buffer s = Some ([], s)" by (simp add: consume_buffer_def consume_frames_unfold(1))
  let ?s = "s\<lparr>recv_buf := recv_buf s @ p\<rparr>" and ?c = "c\<lparr>rd := map Rdata ps @ rs\<rparr>"
  have t: "try_read_frames s c = (0, ?s, ?c)"
    using Cons.prems(5) p(1,2) by (simp add: try_read_frames_def read_some_def)
  have step: "recv_payload s c = recv_payload ?s ?c"
    using b t by (subst recv_payload.simps) simp
  show ?case
  proof (cases "ps = []")
    case True
    then have "recv_buf ?s = concat (map frame_bytes [f])" using Cons.prems(2) by simp
    then have "recv_payload ?s ?c = Some (0, snd (snd f), ?s\<lparr>recv_buf := []\<rparr>, ?c)"
      using recv_payload_keeps_first [of f "[]" ?s ?c] Cons.prems(1) by simp
    then show ?thesis using step True by simp
  next
    case False
    have "recv_buf ?s @ concat ps = frame_bytes f" using Cons.prems(2) by simp
    then have "recv_payload ?s ?c = Some (0, snd (snd f), ?s\<lparr>recv_buf := []\<rparr>, ?c\<lparr>rd := rs\<rparr>)"
      using Cons.IH [of ?s ?c] Cons.prems(1) False p(3) by simp
    then show ?thesis using step by simp
  qed
qed simp

section \<open>The replies to one request\<close>

text \<open>Replies with the records they arrive in; all but the last say that there are more.\<close>

type_synonym replies = "(frame \<times> bytes list) list"

fun replies_ok :: "replies \<Rightarrow> bool" where
  "replies_ok [] = False"
| "replies_ok [(f, ps)] = (pieces_of f ps \<and> parse_wire_result (snd (snd f)) \<noteq> kResContinue)"
| "replies_ok ((f, ps) # rs) = (pieces_of f ps \<and> parse_wire_result (snd (snd f)) = kResContinue \<and> replies_ok rs)"

definition ctrl_replies_text :: "replies \<Rightarrow> bytes list" where
  "ctrl_replies_text rs = map (\<lambda>(f, ps). snd (snd f)) rs"

definition replies_records :: "replies \<Rightarrow> ssl_read list" where
  "replies_records rs = concat (map (\<lambda>(f, ps). map Rdata ps) rs)"

lemma pieces_read:
  assumes "pieces_of f ps" and "recv_buf s = []" and "rd c = map Rdata ps @ rs"
  shows "recv_payload s c = Some (0, snd (snd f), s, c\<lparr>rd := rs\<rparr>)"
proof -
  have ok: "frame_ok f" "concat ps = frame_bytes f" "list_all (\<lambda>p. p \<noteq> [] \<and> length p \<le> 65536) ps" using assms(1) by (simp_all add: pieces_of_def)
  have "frame_bytes f \<noteq> []" by (cases f) (simp add: frame_bytes_def build_frame_header_def write_u32_le_def)
  then have "ps \<noteq> []" using ok(2) by auto
  then show ?thesis using recv_payload_pieces [OF ok(1) _ _ ok(3) assms(3), of s] ok(2) assms(2) by simp
qed

lemma ctrl_replies_read:
  assumes "replies_ok rs" and "recv_buf s = []" and "rd c = replies_records rs @ rest"
  shows "ctrl_replies s c = Ret (ctrl_replies_text rs, s, c\<lparr>rd := rest\<rparr>)"
  using assms
proof (induction rs arbitrary: c rule: replies_ok.induct)
  case (2 f ps)
  then have "recv_payload s c = Some (0, snd (snd f), s, c\<lparr>rd := rest\<rparr>)"
    using pieces_read [of f ps s c rest] by (simp add: replies_records_def)
  then show ?case using 2 by (subst ctrl_replies.simps) (simp add: ctrl_replies_text_def)
next
  case (3 f ps r rs)
  have "recv_payload s c = Some (0, snd (snd f), s, c\<lparr>rd := replies_records (r # rs) @ rest\<rparr>)"
    using 3 pieces_read [of f ps s c "replies_records (r # rs) @ rest"] by (simp add: replies_records_def)
  moreover have "ctrl_replies s (c\<lparr>rd := replies_records (r # rs) @ rest\<rparr>) = Ret (ctrl_replies_text (r # rs), s, c\<lparr>rd := rest\<rparr>)"
    using 3 by simp
  ultimately show ?case using 3 by (subst ctrl_replies.simps) (simp add: ctrl_replies_text_def)
qed simp

section \<open>The control thread\<close>

fun ctrl_turns :: "nat \<Rightarrow> camera_tunnel \<Rightarrow> camera_tunnel io" where
  "ctrl_turns 0 t = Ret t"
| "ctrl_turns (Suc n) t = io_bind (ctrl_turn t) (ctrl_turns n)"

text \<open>The frames of the requests, numbered from \<open>q\<close>.\<close>

fun ctrl_sent :: "u32 \<Rightarrow> bytes list \<Rightarrow> bytes" where
  "ctrl_sent q [] = []"
| "ctrl_sent q (body # bodies) = frame_bytes (kMagicCtrlClient, q, wrap_ctrl_abi body) @ ctrl_sent (q + 1) bodies"

definition ctrl_link :: "conn \<Rightarrow> session \<Rightarrow> camera_tunnel \<Rightarrow> bool" where
  "ctrl_link c s t = (ct_link t = Some c \<and> ct_session t = Some s \<and> \<not> ct_ctrl_stop t \<and> recv_buf s = [] \<and> wr c = [])"

lemma send_frame_plain:
  assumes "wr c = []"
  shows "send_frame mag payload s c =
    (0, s\<lparr>seq_no := seq_no s + 1\<rparr>, c\<lparr>tx := tx c @ frame_bytes (mag, seq_no s, payload)\<rparr>)"
proof -
  have h: "build_frame_header n mag q \<noteq> []" for n q by (simp add: build_frame_header_def write_u32_le_def)
  show ?thesis
    using assms h by (cases "payload = []") (simp_all add: send_frame_def ssl_write_all_cases frame_bytes_def)
qed

lemma ctrl_turn_read:
  assumes "ctrl_link c s t" and "ct_in t = body # bodies" and "replies_ok rs" and "rd c = replies_records rs @ rest"
  shows "\<exists>t' c'. ctrl_turn t = Ret t' \<and> ctrl_link c' (s\<lparr>seq_no := seq_no s + 1\<rparr>) t' \<and> ct_in t' = bodies \<and>
    ct_out t' = ct_out t @ ctrl_replies_text rs \<and> rd c' = rest \<and>
    tx c' = tx c @ frame_bytes (kMagicCtrlClient, seq_no s, wrap_ctrl_abi body)"
proof -
  have l: "ct_link t = Some c" "ct_session t = Some s" "\<not> ct_ctrl_stop t" "recv_buf s = []" "wr c = []"
    using assms(1) by (simp_all add: ctrl_link_def)
  define s1 where "s1 = s\<lparr>seq_no := seq_no s + 1\<rparr>"
  define c1 where "c1 = c\<lparr>tx := tx c @ frame_bytes (kMagicCtrlClient, seq_no s, wrap_ctrl_abi body)\<rparr>"
  have sent: "send_abi_json body s c = (0, s1, c1)"
    using send_frame_plain [OF l(5)] by (simp add: send_abi_json_def s1_def c1_def)
  have "recv_buf s1 = []" "rd c1 = replies_records rs @ rest" using l(4) assms(4) by (simp_all add: s1_def c1_def)
  then have "ctrl_replies s1 c1 = Ret (ctrl_replies_text rs, s1, c1\<lparr>rd := rest\<rparr>)" by (rule ctrl_replies_read [OF assms(3)])
  moreover define c2 where "c2 = c1\<lparr>rd := rest\<rparr>"
  moreover define t2 where "t2 = t\<lparr>ct_in := bodies, ct_link := Some c2, ct_session := Some s1, ct_out := ct_out t @ ctrl_replies_text rs\<rparr>"
  ultimately have "ctrl_turn t = Ret t2" using l assms(2) sent by (simp add: ctrl_turn_def Let_def)
  moreover have "ctrl_link c2 s1 t2" using l by (simp add: ctrl_link_def s1_def c1_def c2_def t2_def)
  moreover have "ct_in t2 = bodies" "ct_out t2 = ct_out t @ ctrl_replies_text rs" by (simp_all add: t2_def)
  moreover have "rd c2 = rest" "tx c2 = tx c @ frame_bytes (kMagicCtrlClient, seq_no s, wrap_ctrl_abi body)"
    by (simp_all add: c2_def c1_def)
  ultimately show ?thesis unfolding s1_def by blast
qed



end
