(* ===== verification/Ls_Lines.thy ===== *)
theory Ls_Lines
  imports Ftps
begin

text \<open>
  Directory listings: \<open>parse_ls_line\<close> of \<open>src/ftps_parse.hpp\<close> and \<open>Client::list_entries\<close> of
  \<open>src/ftps.cpp\<close>. \<open>now\<close> is the current time in seconds since 1970.
\<close>

record ls_entry =
  le_name :: bytes
  le_size :: u64
  le_mtime :: u64
  le_is_dir :: bool

definition new_ls_entry :: ls_entry where
  "new_ls_entry = \<lparr>le_name = [], le_size = 0, le_mtime = 0, le_is_dir = False\<rparr>"

definition kMonths :: "bytes list" where
  "kMonths = [''jan'', ''feb'', ''mar'', ''apr'', ''may'', ''jun'', ''jul'', ''aug'', ''sep'', ''oct'', ''nov'', ''dec'']"

fun month_from :: "int \<Rightarrow> bytes \<Rightarrow> bytes list \<Rightarrow> int" where
  "month_from i tok [] = 0"
| "month_from i tok (m # ms) = (if tok = m then i else month_from (i + 1) tok ms)"

definition ls_month_index :: "bytes \<Rightarrow> int" where
  "ls_month_index tok = (if length tok \<noteq> 3 then 0 else month_from 1 (map to_lower_char tok) kMonths)"

text \<open>The words of a line, each with the line from its start on.\<close>

function ls_tokens :: "bytes \<Rightarrow> (bytes \<times> bytes) list" where
  "ls_tokens s =
     (let r = dropWhile (\<lambda>c. c = BLANK) s in
      if r = [] then [] else (takeWhile (\<lambda>c. c \<noteq> BLANK) r, r) # ls_tokens (dropWhile (\<lambda>c. c \<noteq> BLANK) r))"
  by pat_completeness auto
termination
proof (relation "measure length", goal_cases)
  case (2 s r)
  have "length (dropWhile (\<lambda>c. c \<noteq> BLANK) r) < length r"
  proof -
    from 2(2) have "r \<noteq> []" by simp
    then have "hd r \<noteq> BLANK" using hd_dropWhile [of "\<lambda>c. c = BLANK" s] 2(1) by simp
    then show ?thesis using \<open>r \<noteq> []\<close> length_dropWhile_le [of "\<lambda>c. c \<noteq> BLANK" "tl r"] by (cases r) simp_all
  qed
  moreover have "length r \<le> length s" using 2(1) length_dropWhile_le [of "\<lambda>c. c = BLANK" s] by simp
  ultimately show ?case by simp
qed simp

declare ls_tokens.simps [simp del]

definition kSixMonths :: int where "kSixMonths = 60 * 60 * 24 * 183"

definition zero_tm :: tm where
  "zero_tm = \<lparr>tm_year = 0, tm_mon = 0, tm_mday = 0, tm_hour = 0, tm_min = 0, tm_sec = 0\<rparr>"

definition set_mtime :: "int \<Rightarrow> ls_entry \<Rightarrow> ls_entry" where
  "set_mtime t e = (if 0 < t then e\<lparr>le_mtime := word_of_int t\<rparr> else e)"

text \<open>\<open>HH:MM\<close>: the year is that of \<open>now\<close>, or the one before.\<close>

definition recent_time :: "int \<Rightarrow> tm \<Rightarrow> int" where
  "recent_time now f =
     (let f1 = f\<lparr>tm_year := tm_year (gmtime now)\<rparr>; candidate = timegm f1 in
      if candidate > now + kSixMonths then timegm (f1\<lparr>tm_year := tm_year f1 - 1\<rparr>) else candidate)"

definition ls_time :: "int \<Rightarrow> int \<Rightarrow> int \<Rightarrow> bytes \<Rightarrow> ls_entry \<Rightarrow> ls_entry" where
  "ls_time now mo day ty e =
     (if 0 < mo \<and> 0 < day \<and> ty \<noteq> [] then
        let f = zero_tm\<lparr>tm_mon := mo - 1, tm_mday := day\<rparr> in
        case find_char (CHR '':'') ty of
          Some colon \<Rightarrow>
            set_mtime (recent_time now (f\<lparr>tm_hour := atoi (take colon ty), tm_min := atoi (drop (colon + 1) ty)\<rparr>)) e
        | None \<Rightarrow>
            let yr = atoi ty in
            if 1970 \<le> yr then set_mtime (timegm (f\<lparr>tm_year := yr - 1900\<rparr>)) e else e
      else e)"

definition parse_ls_line :: "int \<Rightarrow> bytes \<Rightarrow> ls_entry \<Rightarrow> ls_entry" where
  "parse_ls_line now line e =
     (if line = [] then e
      else
        let e1 = e\<lparr>le_is_dir := (hd line = CHR ''d'')\<rparr>; tokens = ls_tokens line; tok = (\<lambda>i. fst (tokens ! i)) in
        if length tokens < 9 then e1
        else
          let e2 = ls_time now (ls_month_index (tok 5)) (atoi (tok 6)) (tok 7) (e1\<lparr>le_size := strtoull (tok 4)\<rparr>);
              name = snd (tokens ! 8)
          in e2\<lparr>le_name := (case find_sub '' -> '' name of None \<Rightarrow> name | Some arrow \<Rightarrow> take arrow name)\<rparr>)"

definition take_ls_line :: "int \<Rightarrow> bytes \<Rightarrow> ls_entry list" where
  "take_ls_line now raw =
     (let line = (if raw \<noteq> [] \<and> last raw = CR then butlast raw else raw) in
      if line = [] then []
      else let e = parse_ls_line now line new_ls_entry in
        if le_name e = [] \<or> le_name e = ''.'' \<or> le_name e = ''..'' then [] else [e])"

function ls_lines :: "int \<Rightarrow> bytes \<Rightarrow> ls_entry list" where
  "ls_lines now body =
     (if body = [] then []
      else case find_char LF body of
        None \<Rightarrow> take_ls_line now body
      | Some nl \<Rightarrow> take_ls_line now (take nl body) @ ls_lines now (drop (nl + 1) body))"
  by pat_completeness auto
termination
  by (relation "measure (\<lambda>(now, body). length body)") auto

declare ls_lines.simps [simp del]

text \<open>The error text or the entries.\<close>

definition list_entries :: "int \<Rightarrow> bytes \<Rightarrow> ftp \<Rightarrow> (bytes + ls_entry list) \<times> ftp" where
  "list_entries now path f =
     (let (r, f') = list_body path f in
      (case r of Inl e \<Rightarrow> Inl e | Inr body \<Rightarrow> Inr (ls_lines now body), f'))"

end
