(* ===== verification/Ls_Laws.thy ===== *)
theory Ls_Laws
  imports Ls_Lines Ftp_Laws
begin

text \<open>
  What \<open>ls -l\<close> prints of a file is read back: name, size, kind and date, in both forms of the date.
\<close>

section \<open>Words\<close>

text \<open>Columns, each followed by one or more blanks, and the rest of the line.\<close>

fun columns :: "(bytes \<times> nat) list \<Rightarrow> bytes \<Rightarrow> bytes" where
  "columns [] s = s"
| "columns ((t, k) # cs) s = t @ replicate (Suc k) BLANK @ columns cs s"

definition word_ok :: "bytes \<Rightarrow> bool" where
  "word_ok t = (t \<noteq> [] \<and> BLANK \<notin> set t)"

lemma dropWhile_blanks: "dropWhile (\<lambda>c. c = BLANK) (replicate k BLANK @ s) = dropWhile (\<lambda>c. c = BLANK) s"
  by (induction k) simp_all

lemma ls_tokens_blanks: "ls_tokens (replicate k BLANK @ s) = ls_tokens s"
  by (subst (1 2) ls_tokens.simps) (simp only: dropWhile_blanks)

lemma takeWhile_word: "BLANK \<notin> set t \<Longrightarrow> takeWhile (\<lambda>c. c \<noteq> BLANK) (t @ BLANK # s) = t"
  by (induction t) auto

lemma dropWhile_word: "BLANK \<notin> set t \<Longrightarrow> dropWhile (\<lambda>c. c \<noteq> BLANK) (t @ BLANK # s) = BLANK # s"
  by (induction t) auto

lemma dropWhile_start: "s \<noteq> [] \<Longrightarrow> hd s \<noteq> BLANK \<Longrightarrow> dropWhile (\<lambda>c. c = BLANK) s = s"
  by (cases s) simp_all

lemma ls_tokens_word:
  assumes "word_ok t"
  shows "ls_tokens (t @ replicate (Suc k) BLANK @ s) = (t, t @ replicate (Suc k) BLANK @ s) # ls_tokens s"
proof -
  have t: "t \<noteq> []" "BLANK \<notin> set t" using assms by (simp_all add: word_ok_def)
  then have "hd t \<noteq> BLANK" by (cases t) auto
  then have d: "dropWhile (\<lambda>c. c = BLANK) (t @ replicate (Suc k) BLANK @ s) = t @ replicate (Suc k) BLANK @ s"
    using t(1) by (intro dropWhile_start) simp_all
  have w: "takeWhile (\<lambda>c. c \<noteq> BLANK) (t @ replicate (Suc k) BLANK @ s) = t"
    "dropWhile (\<lambda>c. c \<noteq> BLANK) (t @ replicate (Suc k) BLANK @ s) = replicate (Suc k) BLANK @ s"
    using takeWhile_word [OF t(2)] dropWhile_word [OF t(2)] by simp_all
  show ?thesis
    by (subst ls_tokens.simps) (simp only: Let_def d w ls_tokens_blanks if_False append_is_Nil_conv t(1) simp_thms)
qed

lemma ls_tokens_columns:
  "list_all (\<lambda>c. word_ok (fst c)) cs \<Longrightarrow> \<exists>us. ls_tokens (columns cs s) = us @ ls_tokens s \<and> map fst us = map fst cs"
proof (induction cs)
  case (Cons c cs)
  obtain t k where c: "c = (t, k)" by (cases c)
  obtain us where us: "ls_tokens (columns cs s) = us @ ls_tokens s" "map fst us = map fst cs" using Cons by auto
  have "ls_tokens (columns (c # cs) s) = ((t, t @ replicate (Suc k) BLANK @ columns cs s) # us) @ ls_tokens s"
    using ls_tokens_word [of t k "columns cs s"] Cons.prems us(1) c by simp
  then show ?case using us(2) c by (intro exI [of _ "(t, t @ replicate (Suc k) BLANK @ columns cs s) # us"]) simp
qed simp

section \<open>Dates\<close>

lemma leap_years_grow: "b div 4 - b div 100 \<le> (b + 1) div 4 - (b + 1) div 100" for b :: int
proof -
  have c: "x div 100 = x div 4 div 25" for x :: int using zdiv_zmult2_eq [of 25 x 4] by simp
  have "(b + 1) div 4 = b div 4 \<or> (b + 1) div 4 = b div 4 + 1" by presburger
  moreover have "(q + 1) div 25 \<le> q div 25 + 1" for q :: int by presburger
  ultimately show ?thesis unfolding c by auto
qed

definition year_start :: "int \<Rightarrow> int" where
  "year_start z = 146097 * (z div 400) + (365 * (z mod 400) + z mod 400 div 4 - z mod 400 div 100)"

lemma days_from_civil_start:
  "days_from_civil y mon day =
     year_start (if mon \<le> 2 then y - 1 else y) + ((153 * (if mon > 2 then mon - 3 else mon + 9) + 2) div 5 + day - 1) - 719468"
  unfolding days_from_civil_def year_start_def Let_def by linarith

lemma shift_by: "p - q \<le> p' - q' \<Longrightarrow> k + (365 * b + p - q) + 365 \<le> k + (365 * (b + 1) + p' - q')" for b :: int
  by simp

lemma year_start_grows: "year_start z + 365 \<le> year_start (z + 1)"
proof -
  define a b where "a = z div 400" and "b = z mod 400"
  have b: "0 \<le> b" "b < 400" "z = 400 * a + b" by (simp_all add: a_def b_def)
  show ?thesis
  proof (cases "b = 399")
    case True
    then have "(z + 1) div 400 = a + 1" "(z + 1) mod 400 = 0" using b(3) by simp_all
    then show ?thesis unfolding year_start_def a_def [symmetric] b_def [symmetric] using True by simp
  next
    case False
    then have "0 \<le> b + 1" "b + 1 < 400" using b by simp_all
    then have "(400 * a + (b + 1)) div 400 = a" "(400 * a + (b + 1)) mod 400 = b + 1" by simp_all
    moreover have "z + 1 = 400 * a + (b + 1)" using b(3) by simp
    ultimately have "(z + 1) div 400 = a" "(z + 1) mod 400 = b + 1" by metis+
    then show ?thesis unfolding year_start_def a_def [symmetric] b_def [symmetric]
      by (simp only:) (rule shift_by, rule leap_years_grow)
  qed
qed

lemma month_days_shift: "days_from_civil (y + 1) mon day \<ge> days_from_civil y mon day + 365"
  unfolding days_from_civil_start using year_start_grows [of y] year_start_grows [of "y - 1"] by simp

lemma timegm_next_year: "0 \<le> tm_mon f \<Longrightarrow> tm_mon f \<le> 11 \<Longrightarrow> timegm (f\<lparr>tm_year := tm_year f + 1\<rparr>) \<ge> timegm f + 86400 * 365"
  using month_days_shift [of "tm_year f + 1900" "tm_mon f + 1" 1] by (simp add: timegm_def algebra_simps)


lemma month_cases: "1 \<le> mon \<Longrightarrow> mon \<le> 12 \<Longrightarrow> mon \<in> set [1..12]" for mon :: int
  by simp

lemma days_in_year:
  assumes "1 \<le> mon" "mon \<le> 12" "1 \<le> day" "day \<le> 31"
  shows "days_from_civil y 1 1 \<le> days_from_civil y mon day \<and> days_from_civil y mon day < days_from_civil (y + 1) 1 1"
proof (cases "mon \<le> 2")
  case True
  then have "mon = 1 \<or> mon = 2" using assms(1) by linarith
  then have "days_from_civil y mon day = days_from_civil y 1 1 + (if mon = 1 then 0 else 31) + day - 1"
    by (auto simp: days_from_civil_def Let_def)
  then show ?thesis using month_days_shift [of y 1 1] assms(3,4) by (simp split: if_splits)
next
  case False
  define b where "b = days_from_civil y 3 1"
  have "days_from_civil (y + 1) 1 1 = b + 306" by (simp add: b_def days_from_civil_def Let_def)
  moreover have "days_from_civil y mon day = b + (153 * (mon - 3) + 2) div 5 + day - 1"
    using False by (simp add: b_def days_from_civil_def Let_def)
  moreover have "(153 * (mon - 3) + 2) div 5 \<le> 275" "0 \<le> (153 * (mon - 3) + 2) div 5"
    using assms(2) False by simp_all
  moreover have "b \<ge> days_from_civil (y - 1) 3 1 + 365" using month_days_shift [of "y - 1" 3 1] by (simp add: b_def)
  moreover have "days_from_civil y 1 1 = days_from_civil (y - 1) 3 1 + 306" by (simp add: days_from_civil_def Let_def)
  ultimately show ?thesis using assms(3,4) by linarith
qed

lemma later_year: "y < y' \<Longrightarrow> days_from_civil y mon day + 365 \<le> days_from_civil y' mon day"
proof (induction rule: int_gr_induct)
  case (step i)
  then show ?case using month_days_shift [of i mon day] by linarith
qed (use month_days_shift in simp)

definition year_of :: "int \<Rightarrow> int" where
  "year_of t = tm_year (gmtime t) + 1900"

lemma year_of_bounds:
  "86400 * days_from_civil (year_of t) 1 1 \<le> t" "t < 86400 * days_from_civil (year_of t + 1) 1 1"
proof -
  obtain y mon day where c: "civil_from_days (t div 86400) = (y, mon, day)" by (metis surj_pair)
  then have y: "year_of t = y" by (simp add: year_of_def gmtime_def Let_def)
  have "days_from_civil y 1 1 \<le> t div 86400" "t div 86400 < days_from_civil (y + 1) 1 1"
    using days_in_year [of mon day y] civil_roundtrip [OF c] by auto
  moreover have "86400 * (t div 86400) + t mod 86400 = t" "0 \<le> t mod 86400" "t mod 86400 < 86400" by simp_all
  ultimately show "86400 * days_from_civil (year_of t) 1 1 \<le> t" "t < 86400 * days_from_civil (year_of t + 1) 1 1"
    unfolding y by linarith+
qed

lemma year_of_mono:
  assumes "t \<le> u"
  shows "year_of t \<le> year_of u"
proof (rule ccontr)
  assume "\<not> ?thesis"
  then have "year_of u + 1 = year_of t \<or> year_of u + 1 < year_of t" by linarith
  then have "days_from_civil (year_of u + 1) 1 1 \<le> days_from_civil (year_of t) 1 1"
    using later_year [of "year_of u + 1" "year_of t" 1 1] by auto
  then show False using year_of_bounds(1) [of t] year_of_bounds(2) [of u] assms by linarith
qed

lemma year_of_within:
  assumes "now - 86400 * 365 \<le> t"
  shows "year_of now - 1 \<le> year_of t"
proof (rule ccontr)
  assume "\<not> ?thesis"
  then have "year_of t + 1 < year_of now" by linarith
  then have "days_from_civil (year_of t + 1) 1 1 + 365 \<le> days_from_civil (year_of now) 1 1" by (rule later_year)
  then show False using year_of_bounds(2) [of t] year_of_bounds(1) [of now] assms by linarith
qed

lemma year_of_epoch: "year_of 0 = 1970"
  by code_simp


section \<open>A file as \<open>ls -l\<close> prints it\<close>

definition month_names :: "bytes list" where
  "month_names = [''Jan'', ''Feb'', ''Mar'', ''Apr'', ''May'', ''Jun'', ''Jul'', ''Aug'', ''Sep'', ''Oct'', ''Nov'', ''Dec'']"

lemma ls_month_names:
  assumes "0 \<le> m" "m \<le> 11"
  shows "ls_month_index (month_names ! nat m) = m + 1" "word_ok (month_names ! nat m)"
proof -
  have n: "nat m \<in> set [0..<12]" using assms by simp
  have "list_all (\<lambda>k. ls_month_index (month_names ! k) = int k + 1 \<and> word_ok (month_names ! k)) [0..<12]" by code_simp
  with n have "ls_month_index (month_names ! nat m) = int (nat m) + 1 \<and> word_ok (month_names ! nat m)"
    by (simp only: list_all_iff)
  then show "ls_month_index (month_names ! nat m) = m + 1" "word_ok (month_names ! nat m)" using assms(1) by simp_all
qed

text \<open>The seventh column: the time of day of a recent file, the year of another.\<close>

definition ls_when :: "bool \<Rightarrow> int \<Rightarrow> bytes" where
  "ls_when recent t =
     (let g = gmtime t in
      if recent then show_padded 2 (tm_hour g) @ '':'' @ show_padded 2 (tm_min g) else show_int (year_of t))"

definition date_shown :: "int \<Rightarrow> bool \<Rightarrow> int \<Rightarrow> bool" where
  "date_shown now recent t =
     (0 < t \<and> t < 2 ^ 34 \<and>
      (if recent then t mod 60 = 0 \<and> now - 86400 * 182 < t \<and> t \<le> now + kSixMonths \<and> year_of t \<le> year_of now
       else t mod 86400 = 0))"

record ls_file =
  lf_dir :: bool
  lf_perms :: bytes
  lf_links :: bytes
  lf_owner :: bytes
  lf_group :: bytes
  lf_bytes :: u64
  lf_time :: int
  lf_name :: bytes

text \<open>The columns are padded with \<open>pad i\<close> more blanks.\<close>

definition ls_columns :: "bool \<Rightarrow> (nat \<Rightarrow> nat) \<Rightarrow> ls_file \<Rightarrow> (bytes \<times> nat) list" where
  "ls_columns recent pad x =
     (let g = gmtime (lf_time x) in
      [((if lf_dir x then ''d'' else ''-'') @ lf_perms x, pad 0), (lf_links x, pad 1), (lf_owner x, pad 2),
       (lf_group x, pad 3), (show_nat (unat (lf_bytes x)), pad 4), (month_names ! nat (tm_mon g), pad 5),
       (show_int (tm_mday g), pad 6), (ls_when recent (lf_time x), pad 7)])"

definition ls_text :: "bool \<Rightarrow> (nat \<Rightarrow> nat) \<Rightarrow> ls_file \<Rightarrow> bytes" where
  "ls_text recent pad x = columns (ls_columns recent pad x) (lf_name x)"

definition plain_name :: "bytes \<Rightarrow> bool" where
  "plain_name n =
     (n \<noteq> [] \<and> hd n \<noteq> BLANK \<and> last n \<noteq> CR \<and> LF \<notin> set n \<and> find_sub '' -> '' n = None \<and> n \<noteq> ''.'' \<and> n \<noteq> ''..'')"

definition ls_file_ok :: "ls_file \<Rightarrow> bool" where
  "ls_file_ok x =
     (BLANK \<notin> set (lf_perms x) \<and> word_ok (lf_links x) \<and> word_ok (lf_owner x) \<and> word_ok (lf_group x) \<and> plain_name (lf_name x))"

definition entry_of :: "ls_file \<Rightarrow> ls_entry" where
  "entry_of x = \<lparr>le_name = lf_name x, le_size = lf_bytes x, le_mtime = word_of_int (lf_time x), le_is_dir = lf_dir x\<rparr>"

lemma strtol_padded:
  assumes "0 \<le> i" "i < 2 ^ 31"
  shows "atoi (show_padded w i) = i"
proof -
  define ds where "ds = replicate (w - length (show_nat (nat i))) (CHR ''0'') @ show_nat (nat i)"
  have d: "\<forall>c \<in> set ds. is_digit c" "ds \<noteq> []" "read_nat ds = nat i"
    unfolding ds_def using zeros_digits by (blast, simp, simp add: read_nat_zeros)
  have tk: "takeWhile is_digit ds = ds" using d(1) by (simp only: takeWhile_eq_all_conv)
  have "int_prefix ds = Some (False, nat i)"
    using digits_hd [OF d(2,1), of "[]"] d(2,3) by (simp add: int_prefix_def Let_def tk)
  then have "strtol ds = i" using assms by (simp add: strtol_def signed_of_def)
  then show ?thesis using assms by (simp add: atoi_def show_padded_nonneg ds_def)
qed

lemma atoi_show_int: "0 \<le> i \<Longrightarrow> i < 2 ^ 31 \<Longrightarrow> atoi (show_int i) = i"
  using int_prefix_show_int [of "[]" i] by (simp add: atoi_def strtol_def signed_of_def)

lemma strtoull_show: "strtoull (show_nat (unat n)) = n"
proof -
  have "unat n < 2 ^ 64" using unsigned_less [of n] by simp
  then show ?thesis using int_prefix_show_int [of "[]" "int (unat n)"] by (simp add: strtoull_def show_int_def)
qed

lemma digits_plain: "\<forall>c \<in> set s. is_digit c \<Longrightarrow> BLANK \<notin> set s \<and> CHR '':'' \<notin> set s"
  by (auto simp: is_digit_def)


lemma ls_words:
  "word_ok (show_nat n)" "0 \<le> i \<Longrightarrow> word_ok (show_int i)" "0 \<le> t \<Longrightarrow> t < 2 ^ 34 \<Longrightarrow> word_ok (ls_when recent t)"
  "0 \<le> i \<Longrightarrow> BLANK \<notin> set (show_padded w i) \<and> CHR '':'' \<notin> set (show_padded w i)"
proof -
  have n: "BLANK \<notin> set (show_nat n)" for n using digits_plain [OF show_nat_all_digits] by simp
  show a: "word_ok (show_nat n)" "0 \<le> i \<Longrightarrow> word_ok (show_int i)" for n i using n by (simp_all add: word_ok_def show_int_def)
  show p: "0 \<le> i \<Longrightarrow> BLANK \<notin> set (show_padded w i) \<and> CHR '':'' \<notin> set (show_padded w i)" for w i
    unfolding show_padded_nonneg using digits_plain [OF zeros_digits] by blast
  assume t: "0 \<le> t" "t < 2 ^ 34"
  then have "1970 \<le> year_of t" using year_of_mono [of 0 t] year_of_epoch by simp
  then show "word_ok (ls_when recent t)"
    using a(2) [of "year_of t"] p gmtime_fields [of "gmtime t" t] by (simp add: ls_when_def Let_def) (simp add: word_ok_def)
qed

lemma ls_year_small: "0 \<le> t \<Longrightarrow> t < 2 ^ 34 \<Longrightarrow> 1970 \<le> year_of t \<and> year_of t < 2 ^ 30"
proof -
  assume t: "0 \<le> t" "t < 2 ^ 34"
  obtain y mon day where c: "civil_from_days (t div 86400) = (y, mon, day)" by (metis surj_pair)
  have "y < 2 ^ 30" using civil_year_nonneg [OF c] t by simp
  then show ?thesis using year_of_mono [of 0 t] year_of_epoch t c by (simp add: year_of_def gmtime_def Let_def)
qed

text \<open>The time of day without seconds, with the year of \<open>now\<close> filled in, falls on \<open>t\<close> or a year after.\<close>

lemma recent_fields:
  assumes "t mod 60 = 0" "g = gmtime t"
  shows "zero_tm\<lparr>tm_mon := tm_mon g, tm_mday := tm_mday g, tm_hour := tm_hour g, tm_min := tm_min g, tm_year := tm_year g\<rparr> = g"
proof -
  have "tm_sec g = t mod 86400 mod 60" using assms(2) by (simp add: gmtime_def Let_def split: prod.split)
  then have "tm_sec g = 0" using assms(1) by (simp add: mod_mod_cancel)
  then show ?thesis by (cases g) (simp add: zero_tm_def)
qed

lemma recent_time_reads:
  assumes "date_shown now True t" "g = gmtime t"
  shows "recent_time now (zero_tm\<lparr>tm_mon := tm_mon g, tm_mday := tm_mday g, tm_hour := tm_hour g, tm_min := tm_min g\<rparr>) = t"
proof -
  define f where "f = zero_tm\<lparr>tm_mon := tm_mon g, tm_mday := tm_mday g, tm_hour := tm_hour g, tm_min := tm_min g\<rparr>"
  have d: "0 < t" "t mod 60 = 0" "now - 86400 * 182 < t" "t \<le> now + kSixMonths" "year_of t \<le> year_of now"
    using assms(1) by (simp_all add: date_shown_def)
  note gf = gmtime_fields [OF assms(2)]
  have g: "f\<lparr>tm_year := tm_year g\<rparr> = g" using recent_fields [OF d(2) assms(2)] by (simp add: f_def)
  have y: "tm_year (gmtime now) = year_of now - 1900" "tm_year g = year_of t - 1900"
    using assms(2) by (simp_all add: year_of_def)
  have "year_of now - 1 \<le> year_of t" using d(3) by (intro year_of_within) simp
  then consider "year_of t = year_of now" | "year_of t = year_of now - 1" using d(5) by linarith
  then have "recent_time now f = t"
  proof cases
    case 1
    then show ?thesis using g y gf d(4) by (simp add: recent_time_def Let_def)
  next
    case 2
    have n: "f\<lparr>tm_year := tm_year g + 1\<rparr> = g\<lparr>tm_year := tm_year g + 1\<rparr>"
      using arg_cong [OF g, of "\<lambda>r. r\<lparr>tm_year := tm_year g + 1\<rparr>"] by simp
    have "timegm g + 86400 * 365 \<le> timegm (g\<lparr>tm_year := tm_year g + 1\<rparr>)" using timegm_next_year [of g] gf by simp
    then have "now + kSixMonths < timegm (f\<lparr>tm_year := tm_year g + 1\<rparr>)"
      using gf d(3) unfolding n by (simp add: kSixMonths_def)
    moreover have "f\<lparr>tm_year := tm_year g + 1\<rparr>\<lparr>tm_year := tm_year g\<rparr> = g" using g by simp
    ultimately show ?thesis using 2 y gf g by (simp add: recent_time_def Let_def)
  qed
  then show ?thesis by (simp add: f_def)
qed


lemma ls_time_reads:
  assumes "date_shown now recent t" "g = gmtime t"
  shows "ls_time now (tm_mon g + 1) (tm_mday g) (ls_when recent t) e = e\<lparr>le_mtime := word_of_int t\<rparr>"
proof -
  note gf = gmtime_fields [OF assms(2)]
  have t: "0 < t" "t < 2 ^ 34" using assms(1) by (simp_all add: date_shown_def)
  show ?thesis
  proof (cases recent)
    case True
    have w: "ls_when recent t = show_padded 2 (tm_hour g) @ CHR '':'' # show_padded 2 (tm_min g)"
      using True assms(2) by (simp add: ls_when_def Let_def)
    have c: "find_char (CHR '':'') (ls_when recent t) = Some (length (show_padded 2 (tm_hour g)))"
      unfolding w using gf ls_words(4) by (intro find_char_append_here) blast
    have "ls_time now (tm_mon g + 1) (tm_mday g) (ls_when recent t) e =
        set_mtime (recent_time now (zero_tm\<lparr>tm_mon := tm_mon g, tm_mday := tm_mday g, tm_hour := tm_hour g, tm_min := tm_min g\<rparr>)) e"
      unfolding ls_time_def c Let_def using gf by (simp add: w strtol_padded)
    then show ?thesis using recent_time_reads [of now t g] assms True t by (simp add: set_mtime_def)
  next
    case False
    note y = ls_year_small [of t]
    have c: "find_char (CHR '':'') (ls_when recent t) = None" "ls_when recent t = show_int (year_of t)"
      using False y t digits_plain [OF show_nat_all_digits] by (simp_all add: ls_when_def show_int_def)
    have "t mod 86400 = 0" using assms(1) False by (simp add: date_shown_def)
    then have "zero_tm\<lparr>tm_mon := tm_mon g, tm_mday := tm_mday g, tm_year := year_of t - 1900\<rparr> = g"
      using assms(2) by (simp add: zero_tm_def year_of_def gmtime_def Let_def split: prod.split)
    then have "timegm (zero_tm\<lparr>tm_mon := tm_mon g, tm_mday := tm_mday g, tm_year := year_of t - 1900\<rparr>) = t" using gf by simp
    then have "timegm (zero_tm\<lparr>tm_mon := tm_mon g, tm_mday := tm_mday g\<rparr>\<lparr>tm_year := year_of t - 1900\<rparr>) = t" by simp
    moreover have "show_int (year_of t) \<noteq> []" by (simp add: show_int_def)
    moreover have "atoi (show_int (year_of t)) = year_of t" using y t by (intro atoi_show_int) simp_all
    ultimately show ?thesis
      unfolding ls_time_def c(1) Let_def using gf t y by (simp add: c(2) set_mtime_def)
  qed
qed

lemma ls_tokens_start: "s \<noteq> [] \<Longrightarrow> hd s \<noteq> BLANK \<Longrightarrow> \<exists>t us. ls_tokens s = (t, s) # us"
  by (subst ls_tokens.simps) (simp add: dropWhile_start Let_def)

lemma parse_ls_columns:
  assumes "list_all (\<lambda>c. word_ok (fst c)) cs" "length cs = 8" "s \<noteq> []" "hd s \<noteq> BLANK"
  shows "parse_ls_line now (columns cs s) e =
    (ls_time now (ls_month_index (fst (cs ! 5))) (atoi (fst (cs ! 6))) (fst (cs ! 7))
      (e\<lparr>le_is_dir := (hd (fst (cs ! 0)) = CHR ''d''), le_size := strtoull (fst (cs ! 4))\<rparr>))
      \<lparr>le_name := (case find_sub '' -> '' s of None \<Rightarrow> s | Some arrow \<Rightarrow> take arrow s)\<rparr>"
proof -
  obtain us where us: "ls_tokens (columns cs s) = us @ ls_tokens s" "map fst us = map fst cs"
    using ls_tokens_columns [OF assms(1)] by blast
  obtain t vs where vs: "ls_tokens s = (t, s) # vs" using ls_tokens_start [OF assms(3,4)] by blast
  have len: "length us = 8" using us(2) assms(2) by (metis length_map)
  have nth: "fst (us ! i) = fst (cs ! i)" if "i < 8" for i
    using arg_cong [OF us(2), of "\<lambda>l. l ! i"] that len assms(2) by simp
  have "ls_tokens (columns cs s) ! 8 = (t, s)" "\<And>i. i < 8 \<Longrightarrow> fst (ls_tokens (columns cs s) ! i) = fst (cs ! i)"
    unfolding us(1) vs using len nth by (simp_all add: nth_append)
  moreover have "9 \<le> length (ls_tokens (columns cs s))" unfolding us(1) vs using len by simp
  moreover obtain c k cs' where "cs = (c, k) # cs'" "c \<noteq> []"
    using assms(1,2) by (cases cs) (auto simp: word_ok_def)
  ultimately show ?thesis
    by (simp add: parse_ls_line_def Let_def)
qed

lemma ls_columns_words:
  assumes "ls_file_ok x" "0 < lf_time x" "lf_time x < 2 ^ 34"
  shows "list_all (\<lambda>c. word_ok (fst c)) (ls_columns recent pad x)" "length (ls_columns recent pad x) = 8"
proof -
  note gf = gmtime_fields [OF refl, of "lf_time x"]
  show "length (ls_columns recent pad x) = 8" by (simp add: ls_columns_def Let_def)
  have p: "word_ok ((if lf_dir x then ''d'' else ''-'') @ lf_perms x)" using assms(1) by (simp add: ls_file_ok_def word_ok_def)
  show "list_all (\<lambda>c. word_ok (fst c)) (ls_columns recent pad x)"
    using assms gf p ls_words(1,2) ls_words(3) [of "lf_time x" recent] ls_month_names(2) [of "tm_mon (gmtime (lf_time x))"]
    by (simp add: ls_columns_def Let_def ls_file_ok_def)
qed


lemma ls_text_reads:
  assumes "ls_file_ok x" "date_shown now recent (lf_time x)"
  shows "parse_ls_line now (ls_text recent pad x) new_ls_entry = entry_of x"
proof -
  define g where "g = gmtime (lf_time x)"
  note gf = gmtime_fields [OF g_def]
  have t: "0 < lf_time x" "lf_time x < 2 ^ 34" using assms(2) by (simp_all add: date_shown_def)
  have n: "lf_name x \<noteq> []" "hd (lf_name x) \<noteq> BLANK" "find_sub '' -> '' (lf_name x) = None"
    using assms(1) by (simp_all add: ls_file_ok_def plain_name_def)
  have c: "fst (ls_columns recent pad x ! 0) = (if lf_dir x then ''d'' else ''-'') @ lf_perms x"
    "fst (ls_columns recent pad x ! 4) = show_nat (unat (lf_bytes x))"
    "fst (ls_columns recent pad x ! 5) = month_names ! nat (tm_mon g)"
    "fst (ls_columns recent pad x ! 6) = show_int (tm_mday g)"
    "fst (ls_columns recent pad x ! 7) = ls_when recent (lf_time x)"
    by (simp_all add: ls_columns_def Let_def g_def)
  have "atoi (show_int (tm_mday g)) = tm_mday g" using gf by (intro atoi_show_int) simp_all
  then have "parse_ls_line now (ls_text recent pad x) new_ls_entry =
      (ls_time now (tm_mon g + 1) (tm_mday g) (ls_when recent (lf_time x))
        (new_ls_entry\<lparr>le_is_dir := (hd ((if lf_dir x then ''d'' else ''-'') @ lf_perms x) = CHR ''d''), le_size := lf_bytes x\<rparr>))
        \<lparr>le_name := lf_name x\<rparr>"
    unfolding ls_text_def parse_ls_columns [OF ls_columns_words [OF assms(1) t] n(1,2)] c
    using gf by (simp only: strtoull_show ls_month_names n(3) option.case)
  then show ?thesis
    unfolding ls_time_reads [OF assms(2) g_def] by (simp add: entry_of_def new_ls_entry_def)
qed

section \<open>A whole listing\<close>

lemma columns_last: "s \<noteq> [] \<Longrightarrow> columns cs s \<noteq> [] \<and> last (columns cs s) = last s"
  by (induction cs s rule: columns.induct) simp_all

lemma columns_set: "c \<in> set (columns cs s) \<Longrightarrow> c = BLANK \<or> c \<in> set s \<or> (\<exists>p \<in> set cs. c \<in> set (fst p))"
  by (induction cs s rule: columns.induct) auto

definition on_one_line :: "ls_file \<Rightarrow> bool" where
  "on_one_line x = (LF \<notin> set (lf_perms x) \<and> LF \<notin> set (lf_links x) \<and> LF \<notin> set (lf_owner x) \<and> LF \<notin> set (lf_group x))"

lemma LF_not_in:
  "LF \<notin> set (show_nat n)" "0 \<le> i \<Longrightarrow> LF \<notin> set (show_int i)" "0 \<le> i \<Longrightarrow> LF \<notin> set (show_padded w i)"
  "0 \<le> m \<Longrightarrow> m \<le> 11 \<Longrightarrow> LF \<notin> set (month_names ! nat m)"
proof -
  have "\<not> is_digit LF" by (simp add: is_digit_def)
  then show n: "LF \<notin> set (show_nat n)" "0 \<le> i \<Longrightarrow> LF \<notin> set (show_padded w i)" for n
    using show_nat_all_digits zeros_digits [of "w - length (show_nat (nat i))" "nat i"] show_padded_nonneg by fastforce+
  show "0 \<le> i \<Longrightarrow> LF \<notin> set (show_int i)" using n by (simp add: show_int_def)
  have "list_all (\<lambda>k. LF \<notin> set (month_names ! k)) [0..<12]" by code_simp
  then show "0 \<le> m \<Longrightarrow> m \<le> 11 \<Longrightarrow> LF \<notin> set (month_names ! nat m)" by (simp add: list_all_iff)
qed

lemma ls_text_line:
  assumes "ls_file_ok x" "on_one_line x" "0 < lf_time x" "lf_time x < 2 ^ 34"
  shows "LF \<notin> set (ls_text recent pad x)" "ls_text recent pad x \<noteq> []" "last (ls_text recent pad x) \<noteq> CR"
proof -
  note gf = gmtime_fields [OF refl, of "lf_time x"]
  have n: "lf_name x \<noteq> []" "last (lf_name x) \<noteq> CR" "LF \<notin> set (lf_name x)"
    using assms(1) by (simp_all add: ls_file_ok_def plain_name_def)
  then show "ls_text recent pad x \<noteq> []" "last (ls_text recent pad x) \<noteq> CR" by (simp_all add: ls_text_def columns_last)
  have w: "LF \<notin> set (ls_when recent (lf_time x))"
    using gf LF_not_in(2,3) ls_year_small [of "lf_time x"] assms(3,4) by (simp add: ls_when_def Let_def)
  have "\<forall>p \<in> set (ls_columns recent pad x). LF \<notin> set (fst p)"
    using assms(2) gf w LF_not_in(1,2,4) by (simp add: ls_columns_def Let_def on_one_line_def)
  then show "LF \<notin> set (ls_text recent pad x)" using columns_set [of LF] n(3) unfolding ls_text_def by fastforce
qed

text \<open>Each file with the form of its date and its padding, in lines that end with CR LF.\<close>

definition listing_text :: "(ls_file \<times> bool \<times> (nat \<Rightarrow> nat)) list \<Rightarrow> bytes" where
  "listing_text xs = concat (map (\<lambda>(x, recent, pad). ls_text recent pad x @ [CR, LF]) xs)"

definition listed_ok :: "int \<Rightarrow> (ls_file \<times> bool \<times> (nat \<Rightarrow> nat)) list \<Rightarrow> bool" where
  "listed_ok now xs = list_all (\<lambda>(x, recent, pad). ls_file_ok x \<and> on_one_line x \<and> date_shown now recent (lf_time x)) xs"

lemma take_ls_text:
  assumes "ls_file_ok x" "on_one_line x" "date_shown now recent (lf_time x)"
  shows "take_ls_line now (ls_text recent pad x @ [CR]) = [entry_of x]"
proof -
  have "0 < lf_time x" "lf_time x < 2 ^ 34" using assms(3) by (simp_all add: date_shown_def)
  note l = ls_text_line [OF assms(1,2) this]
  have "lf_name x \<noteq> []" "lf_name x \<noteq> ''.''" "lf_name x \<noteq> ''..''" using assms(1) by (simp_all add: ls_file_ok_def plain_name_def)
  then show ?thesis
    using l(2) ls_text_reads [OF assms(1,3)] by (simp add: take_ls_line_def Let_def) (simp add: entry_of_def)
qed

lemma ls_lines_cons:
  assumes "LF \<notin> set l"
  shows "ls_lines now (l @ LF # rest) = take_ls_line now l @ ls_lines now rest"
  by (subst ls_lines.simps) (simp add: assms)

lemma ls_lines_listing: "listed_ok now xs \<Longrightarrow> ls_lines now (listing_text xs) = map (entry_of \<circ> fst) xs"
proof (induction xs)
  case Nil
  show ?case by (simp add: listing_text_def ls_lines.simps)
next
  case (Cons y ys)
  obtain x recent pad where y: "y = (x, recent, pad)" by (cases y)
  have ok: "ls_file_ok x" "on_one_line x" "date_shown now recent (lf_time x)" "listed_ok now ys"
    using Cons.prems by (simp_all add: listed_ok_def y)
  have "LF \<notin> set (ls_text recent pad x @ [CR])" using ok(3) ls_text_line(1) [OF ok(1,2)] by (simp add: date_shown_def)
  then show ?case
    using ls_lines_cons [of "ls_text recent pad x @ [CR]" now "listing_text ys"] take_ls_text [OF ok(1-3)] Cons.IH [OF ok(4)]
    by (simp add: listing_text_def y)
qed


lemma read_all_incoming: "fst (read_all tls ch) = chan_incoming tls (ch_rd ch)"
proof (induction tls ch rule: read_all.induct)
  case (1 tls ch)
  obtain c ch' where c: "chan_read_some tls 1024 ch = (c, ch')" by force
  have i: "chan_incoming tls (ch_rd ch) = incoming_after tls c ch'" using chan_read_incoming [OF c] by simp
  show ?case
  proof (cases c)
    case (Chunk bs)
    then show ?thesis
      using 1 [OF c [symmetric] Chunk] c i by (cases "read_all tls ch'") (simp add: read_all.simps [of tls ch] incoming_after_def)
  qed (use c i in \<open>simp_all add: read_all.simps [of tls ch] incoming_after_def\<close>)
qed

text \<open>C25: a directory listing reads back. When the printer opens the data connection, sends the lines
  of its files (directories among them) the way \<open>ls -l\<close> prints them, with any padding and cut into
  any pieces, and closes with \<open>226\<close>, then \<open>list_entries\<close> gives exactly these files, in order,
  with name, size, kind and time: to the minute for the files of the last 182 days (or later, within
  the current year), to the day for the others. Left out are the names the code
  treats apart: \<open>.\<close> and \<open>..\<close>, and those that start with a blank, hold \<open> -> \<close> or end with CR.
\<close>

theorem listing_reads_back:
  assumes "answering (reply_bytes pasv @ reply_bytes opening @ reply_bytes closing @ s) f"
    and "reply_ok pasv" and "reply_of pasv = (227, body)" and "pasv_address body = Inr addr" and "pasv_port addr = Inr port"
    and "reply_ok opening" and "fst (reply_of opening) = 150"
    and "reply_ok closing" and "fst (reply_of closing) = 226"
    and "ftp_dials f = d # ds" and "dd_tcp d = Inr ch"
    and "ftp_tls f \<longrightarrow> dd_ssl d \<and> drive_ssl (dd_handshake d)"
    and "chan_incoming (ftp_tls f) (ch_rd ch) = listing_text xs" and "listed_ok now xs"
  shows "\<exists>f'. list_entries now path f = (Inr (map (entry_of \<circ> fst) xs), f') \<and> answering s f'"
proof -
  obtain f1 where f1: "open_transfer ''LIST'' (if path = [] then ''LIST'' else ''LIST '' @ path) f = (Inr ch, f1)"
    "answering (reply_bytes closing @ s) f1" "ftp_tls f1 = ftp_tls f"
    using open_transfer_answering [OF assms(1-7,10-12)] by metis
  obtain ch' where r: "read_all (ftp_tls f1) ch = (listing_text xs, ch')"
    using read_all_incoming [of "ftp_tls f1" ch] assms(13) f1(3) by (cases "read_all (ftp_tls f1) ch") simp
  have "answering (reply_bytes closing @ s) (close_data ch' f1)"
    using f1(2) answering_cong [of "close_data ch' f1" f1] by (simp add: close_data_def)
  then obtain f2 where f2: "read_reply (close_data ch' f1) = (Some (reply_of closing), f2)" "answering s f2"
    using read_reply_answering [OF _ assms(8)] by metis
  have "list_body path f = (Inr (listing_text xs), f2)"
    using f1(1) r f2(1) assms(9) by (cases "reply_of closing") (simp add: list_body_def Let_def)
  then show ?thesis using f2(2) ls_lines_listing [OF assms(14)] by (simp add: list_entries_def)
qed

definition listed_example :: "(ls_file \<times> bool \<times> (nat \<Rightarrow> nat)) list" where
  "listed_example =
     [(\<lparr>lf_dir = False, lf_perms = ''rw-r--r--'', lf_links = ''1'', lf_owner = ''103'', lf_group = ''107'', lf_bytes = 921589,
        lf_time = 1776099360, lf_name = ''Cat  Toy.gcode.3mf''\<rparr>, True, \<lambda>i. i mod 3),
      (\<lparr>lf_dir = True, lf_perms = ''rwxr-xr-x'', lf_links = ''2'', lf_owner = ''root'', lf_group = ''root'', lf_bytes = 4096,
        lf_time = 1603238400, lf_name = ''cache''\<rparr>, False, \<lambda>i. 0)]"

lemma example_names: "plain_name ''Cat  Toy.gcode.3mf''" "plain_name ''cache''"
  by (simp_all add: plain_name_def)

lemma example_years: "year_of 1776099360 = 2026" "year_of 1776823200 = 2026"
  by code_simp+

lemma listed_example_ok: "listed_ok 1776823200 listed_example"
  by (simp add: listed_example_def listed_ok_def ls_file_ok_def word_ok_def example_names on_one_line_def date_shown_def
      kSixMonths_def example_years)

theorem listing_reads_back_witness:
  "\<exists>f f'. list_entries 1776823200 ''/'' f =
     (Inr [\<lparr>le_name = ''Cat  Toy.gcode.3mf'', le_size = 921589, le_mtime = 1776099360, le_is_dir = False\<rparr>,
       \<lparr>le_name = ''cache'', le_size = 4096, le_mtime = 1603238400, le_is_dir = True\<rparr>], f')"
proof -
  let ?t = "listing_text listed_example"
  let ?s = "reply_bytes [pasv_line] @ reply_bytes [''150 ''] @ reply_bytes [''226 ''] @ []"
  let ?ch = "\<lparr>ch_rd = [Rd_bytes (take 5 ?t), Rd_bytes (drop 5 ?t), Rd_end], ch_wr = [], ch_tx = []\<rparr>"
  let ?d = "\<lparr>dd_tcp = Inr ?ch, dd_ssl = True, dd_handshake = [Hs_done]\<rparr>"
  obtain f where f: "answering ?s f" "ftp_dials f = [?d]" using tiny_connect [of ?s "[?d]"] by blast
  have ok: "reply_ok [''150 '']" "fst (reply_of [''150 '']) = 150" "reply_ok [''226 '']" "fst (reply_of [''226 '']) = 226"
    by (simp_all add: reply_ok_def final_line_def reply_value)
  have ne: "take 5 ?t \<noteq> []" "drop 5 ?t \<noteq> []"
    by (simp_all add: listing_text_def listed_example_def ls_text_def ls_columns_def Let_def)
  have "\<exists>f'. list_entries 1776823200 ''/'' f = (Inr (map (entry_of \<circ> fst) listed_example), f') \<and> answering [] f'"
    by (rule listing_reads_back [OF f(1) pasv_line_facts ok f(2) _ _ _ listed_example_ok, where ch = ?ch])
      (use ne in \<open>simp_all del: drop_eq_Nil take_eq_Nil\<close>)
  then show ?thesis by (auto simp: listed_example_def entry_of_def)
qed

section \<open>Where the reading is off\<close>

text \<open>
  An entry dated in the next calendar year, as a printer lists it whose clock is ahead on New Year's
  Eve, is put a year or more before its date.
\<close>

lemma next_year_reads_early:
  assumes "t mod 60 = 0" and "year_of t = year_of now + 1" and "g = gmtime t"
  shows "recent_time now (zero_tm\<lparr>tm_mon := tm_mon g, tm_mday := tm_mday g, tm_hour := tm_hour g, tm_min := tm_min g\<rparr>)
    \<le> t - 86400 * 365"
proof -
  define f where "f = zero_tm\<lparr>tm_mon := tm_mon g, tm_mday := tm_mday g, tm_hour := tm_hour g, tm_min := tm_min g\<rparr>"
  note gf = gmtime_fields [OF assms(3)]
  have y: "tm_year g = tm_year (gmtime now) + 1" using assms(2,3) by (simp add: year_of_def)
  have "f\<lparr>tm_year := tm_year (gmtime now)\<rparr>\<lparr>tm_year := tm_year (gmtime now) + 1\<rparr> = g"
    using recent_fields [OF assms(1,3)] y by (simp add: f_def)
  moreover have m: "tm_mon (f\<lparr>tm_year := k\<rparr>) = tm_mon g" for k by (simp add: f_def)
  ultimately have a: "timegm (f\<lparr>tm_year := tm_year (gmtime now)\<rparr>) + 86400 * 365 \<le> t"
    using timegm_next_year [of "f\<lparr>tm_year := tm_year (gmtime now)\<rparr>"] gf by simp
  have b: "timegm (f\<lparr>tm_year := tm_year (gmtime now) - 1\<rparr>) + 86400 * 365 \<le> timegm (f\<lparr>tm_year := tm_year (gmtime now)\<rparr>)"
    using timegm_next_year [of "f\<lparr>tm_year := tm_year (gmtime now) - 1\<rparr>"] gf m by simp
  show ?thesis unfolding f_def [symmetric] using a b by (simp add: recent_time_def Let_def)
qed

text \<open>The arrow is cut off the names of regular files too.\<close>

lemma arrow_cut_from_file:
  assumes "ls_file_ok (x\<lparr>lf_name := ''n''\<rparr>)" "0 < lf_time x" "lf_time x < 2 ^ 34" "a \<noteq> []" "hd a \<noteq> BLANK"
    and "find_sub '' -> '' (a @ '' -> '' @ b) = Some (length a)"
  shows "le_name (parse_ls_line now (ls_text recent pad (x\<lparr>lf_dir := False, lf_name := a @ '' -> '' @ b\<rparr>)) e) = a"
proof -
  let ?y = "x\<lparr>lf_dir := False, lf_name := ''n''\<rparr>"
  have ok: "ls_file_ok ?y" using assms(1) by (simp add: ls_file_ok_def)
  have c: "ls_columns recent pad (x\<lparr>lf_dir := False, lf_name := a @ '' -> '' @ b\<rparr>) = ls_columns recent pad ?y"
    by (simp add: ls_columns_def Let_def)
  show ?thesis
    unfolding ls_text_def c using ls_columns_words [OF ok, of recent pad] assms(2-6)
    by (subst parse_ls_columns) simp_all
qed

end
