(* ===== verification/Spec2Isabelle.thy ===== *)
theory Spec2Isabelle
  imports Tunnel_Connection Print_Ids Firmware Auth_Store Agent_Run Cloud_Calls Cloud_Print_Laws Camera_Dial Camera_Control Ls_Laws
begin

text \<open>
  A verification development for the open-source network plugin of Bambu Studio: the library
  \<open>bambu_networking\<close> (\<open>src/\<close>, \<open>include/obn/\<close>) and the camera library \<open>BambuSource\<close> (\<open>stubs/\<close>). The
  definitions are translated from the C++ sources; the theorems are proved of those definitions.

  \<^bold>\<open>The program.\<close> Studio loads the plugin and calls it through C functions. Behind them stands one
  object of class \<open>Agent\<close>: it finds printers on the network, keeps one MQTT session with a printer and one
  with the cloud, prints over FTPS or through the cloud, logs in, and serves cover images of prints to
  Studio over a small HTTP server. Files on a printer are reached through a framed protocol over TLS on
  port 6000, the tunnel. The camera library is loaded on its own; it shows either JPEG images from port 6000 or an
  H.264 stream over RTSP, and hands control messages of the file browser to the printer. All parts share the
  registry of serial numbers and certificates against which TLS connections to printers are checked, and one JSON library.

  \<^bold>\<open>Conventions.\<close> A \<open>std::string\<close> is a list of characters, which are bytes. An \<open>int\<close> is an \<open>int\<close> with
  its narrowing written out, a \<open>std::uint32_t\<close> or \<open>std::uint64_t\<close> a word; a \<open>std::map\<close> or \<open>std::set\<close> a sorted
  association list or list, with the contracts \<open>keyed_store\<close> and \<open>set_store\<close>. A class is a record, a method a
  function from the record to its result and the new record; an error is a value: a result code or an error text as in the
  source, or \<open>Inl\<close>. What lies outside the program is an argument: the script of a TLS stream (what each read and
  write does, in any pieces), the outcome of a connect or a TLS handshake, the answers of an HTTP service, the
  clock, the disk, random numbers. Calls into a library that leave a trace (MQTT, HTTP, the FTP channels, the callbacks
  into Studio) are collected as values, so that theorems speak about their order. A function that holds a mutex for
  its accesses is one step; threads are steps in any order.

  \<^bold>\<open>The library.\<close> \<open>Prelude\<close>: byte strings, maps, decimal and hexadecimal texts, the contract \<open>keyed_store\<close>. \<open>Codec\<close>:
  the contract \<open>self_delimiting\<close> between a reader that appends what arrives to a buffer and a scanner that takes
  units off its front; what is read does not depend on the cuts. \<open>Oset\<close>: \<open>set_store\<close>. \<open>Cxx_Num\<close>: doubles, integer types and the number
  parsers of the C++ library. \<open>Calendar\<close>: \<open>gmtime\<close>, \<open>timegm\<close> and the time stamps of \<open>auth.cpp\<close>. \<open>Tls_Io\<close> and \<open>Tls_Lines\<close>:
  the read and write loops of \<open>tls_dial.cpp\<close>, with the lemmas that describe what is read by the bytes still to come.

  \<^bold>\<open>The JSON library\<close> (\<open>json_lite.cpp\<close>): \<open>Json_Lite\<close> has the parser, the values and the serialiser, \<open>Json_Laws\<close> the round
  trip, the totality and the typing of parsed values, \<open>Json_Text\<close> what holds of documents the sources put together by hand.

  \<^bold>\<open>The tunnel\<close> (\<open>tunnel_local.cpp\<close>, \<open>tunnel_upload.cpp\<close>): \<open>Tunnel_Local\<close> has the wire format, \<open>Tunnel_Session\<close> the
  sessions, the handshake and the reception of frames, \<open>Tunnel_Upload\<close> and \<open>Tunnel_Connection\<close> connections, uploads, downloads, listings and
  deletions. The lemmas show that frames arrive whole however the stream is cut, what a handshake has sent in
  each phase, and that a successful upload has put fragments on the wire that reassemble to the file.

  \<^bold>\<open>TLS to printers\<close>: \<open>Config\<close> (\<open>config.cpp\<close>), \<open>Lan_Tls\<close> (\<open>lan_tls.cpp\<close>, \<open>lan_tls_env.hpp\<close>) with the registry, its
  environment variables and state file, and \<open>Tls_Dial\<close> (\<open>dial_tls\<close> and \<open>configure_lan_ssl_verify\<close>): with the check on, a dialled stream has a
  verified chain and a certificate for the expected printer.

  \<^bold>\<open>MQTT and the agent\<close>: \<open>Mqtt\<close> (\<open>mqtt_client.cpp\<close>), \<open>Lan_Session\<close> (\<open>lan_session.cpp\<close>), \<open>Cloud_Session\<close> (\<open>cloud_session.cpp\<close>, with
  the abstract specification "what Studio asked for is what the broker has", refined by it), \<open>Ssdp\<close>, \<open>Auth_Store\<close> (\<open>auth.cpp\<close>), \<open>Print_Ids\<close> and
  \<open>Firmware\<close> (parts of \<open>agent.cpp\<close>), \<open>Cover_Cache\<close>, \<open>Cover_Server\<close>, and the class \<open>Agent\<close> itself in \<open>Agent\<close>, \<open>Agent_Lan\<close>,
  \<open>Agent_Cloud\<close> and \<open>Agent_Run\<close>; the last takes all calls of Studio and all MQTT callbacks in any order. The lemmas show
  when a session may connect, that MQTT clients and library initialisations are balanced, that logins survive a restart, that an
  announced printer is found, and that cover images are complete images at the addresses given to Studio.

  \<^bold>\<open>Printing\<close>: \<open>Ftps\<close> and \<open>Ftp_Laws\<close> (\<open>ftps.cpp\<close>), \<open>Ls_Lines\<close> and \<open>Ls_Laws\<close> (\<open>ftps_parse.hpp\<close> and \<open>list_entries\<close>), \<open>Print_Job\<close>
  and \<open>Print_Laws\<close> (\<open>print_job_naming.cpp\<close>, \<open>print_job.cpp\<close>), \<open>Cloud_Print\<close> and \<open>Cloud_Print_Laws\<close> (\<open>cloud_print.cpp\<close>): a print message
  names a file only after that very file was uploaded, names are safe, and with a printer or a service that
  answers the job succeeds.

  \<^bold>\<open>The account\<close>: \<open>Http\<close> (\<open>http_client.cpp\<close>), \<open>Cloud_Auth\<close>, \<open>Cloud_Filament\<close>, \<open>Cloud_Bind\<close>, \<open>Cloud_Presets\<close> with \<open>Preset_Laws\<close> (the
  sources of the same names), and \<open>Cloud_Calls\<close>, where one contract, \<open>account_call\<close>, is proved of every call of these services: what
  is sent bears the user's token, to the API host.

  \<^bold>\<open>File transfer\<close> (\<open>abi_ft.cpp\<close>): \<open>File_Transfer\<close>, \<open>File_Handles\<close> (reference counts and threads as steps) and \<open>File_Laws\<close>.

  \<^bold>\<open>The camera\<close>: \<open>Rtsp_Text\<close>, \<open>Rtp\<close>, \<open>Rtsp_Client\<close> and \<open>Rtsp_Laws\<close> (\<open>stubs/rtsp_client.cpp\<close>: texts, H.264 packets, the protocol, base64),
  \<open>Camera_Stream\<close> (from the TLS stream to the units), \<open>Rtsp_Passthrough\<close> and \<open>Passthrough_Laws\<close> (\<open>stubs/rtsp_passthrough.cpp\<close>: the worker and its queue, with an
  unbounded worker as the specification it is simulated by), \<open>Camera_Source\<close>, \<open>Camera_Laws\<close>, \<open>Camera_Control\<close> and \<open>Camera_Dial\<close>
  (\<open>stubs/BambuSource.cpp\<close>). The lemmas compose: a stream of access units, packed and cut in any way, with RTCP
  frames and keepalive responses between, becomes the samples the player is handed.

  \<^bold>\<open>Bounds and fuel.\<close> The JSON parser runs on \<open>2 * length text + 2\<close> steps of fuel, proved never to be used up. Loops that
  read end because they take bytes off the script of the stream; a wait the script does not end is the value \<open>Blocked\<close>,
  never a result. Numbers of turns in the code itself are kept: 64 steps of the tunnel's handshake, 32 final replies of
  an upload, lines of 8192 bytes, responses of 64 KiB, images of 1 MiB, eight queued samples. The upload loop and the FTP loops end by the
  length of what is left to send.

  \<^bold>\<open>Not modelled.\<close> The certificate store, OpenSSL, curl and mosquitto are parameters. The exported C functions that only forward to the
  agent, log output, the operating system layer and the support files of the camera library (log sinks, image files) have no
  behaviour of their own to verify. The DirectShow filter is COM glue for Windows, the plugin runner a test tool, the
  ABI snapshots and the image library are vendored. Of modelled parts the following is left out: the accept
  loop of the cover server, socket options, timing beyond the order of events, and data races on fields a thread reads without
  the mutex.
\<close>

end
